(* ===== verification/Prelude.thy ===== *)
theory Prelude
  imports Main "HOL-Library.Word" "HOL-Library.List_Lexorder"
begin

text \<open>
  Shared vocabulary of the development: bytes and byte strings, big-endian
  32-bit fields, the outcome of a C++ call (a value, a reported failure, an
  uncaught C++ exception or undefined behaviour), and the generic lemmas on
  lists and words that the component theories use. The locale \<open>kept_by_steps\<close> lifts
  an invariant from one step of a transition relation to the reachable states. The collections
  \<open>codec_simps\<close> and \<open>outcome_simps\<close> gather the rewrite rules of the byte
  formats and of the outcome type.
\<close>

unbundle bit_operations_syntax

named_theorems codec_simps \<open>reading back what the encoders write\<close>
named_theorems outcome_simps \<open>case analysis on the outcome of a call\<close>

section \<open>Invariants of a step relation\<close>

text \<open>What every step keeps holds after any number of steps.\<close>

locale kept_by_steps =
  fixes tr :: "'s \<Rightarrow> 's \<Rightarrow> bool" and inv :: "'s \<Rightarrow> bool"
  assumes kept: "tr s s' \<Longrightarrow> inv s \<Longrightarrow> inv s'"
begin

lemma steps_keep: "tr\<^sup>*\<^sup>* s s' \<Longrightarrow> inv s \<Longrightarrow> inv s'"
  by (induction rule: rtranclp_induct) (blast intro: kept)+

end

section \<open>Bytes\<close>

type_synonym byte = "8 word"
type_synonym bytes = "byte list"
type_synonym u32 = "32 word"
type_synonym u64 = "64 word"

section \<open>Outcomes of a C++ call\<close>

text \<open>
  \<open>Ok x\<close>: the call returns \<open>x\<close>. \<open>Failed\<close>: it reports failure by its return
  value. \<open>Thrown\<close>: a C++ exception leaves the function. \<open>Undef\<close>: the
  execution reaches undefined behaviour (an out-of-bounds access, a signed
  overflow, a null dereference, a use after destruction).
\<close>

datatype 'a outcome = Ok 'a | Failed | Thrown | Undef

fun bind_outcome :: "'a outcome \<Rightarrow> ('a \<Rightarrow> 'b outcome) \<Rightarrow> 'b outcome" where
  "bind_outcome (Ok x) f = f x"
| "bind_outcome Failed f = Failed"
| "bind_outcome Thrown f = Thrown"
| "bind_outcome Undef f = Undef"

lemma bind_outcome_eq_Ok [outcome_simps]:
  "bind_outcome m f = Ok y \<longleftrightarrow> (\<exists>x. m = Ok x \<and> f x = Ok y)"
  by (cases m) auto

lemma bind_outcome_assoc [simp]:
  "bind_outcome (bind_outcome m f) g = bind_outcome m (\<lambda>x. bind_outcome (f x) g)"
  by (cases m) auto

lemma bind_outcome_Ok [simp]: "bind_outcome m Ok = m"
  by (cases m) auto

section \<open>Big-endian 32-bit fields\<close>

text \<open>
  The writers push \<open>(v >> 24) & 0xFF\<close>, \<open>(v >> 16) & 0xFF\<close>, \<open>(v >> 8) & 0xFF\<close>
  and \<open>v & 0xFF\<close>; the readers combine four bytes with shifts and \<open>|\<close>.
\<close>

definition put_be32 :: "u32 \<Rightarrow> bytes" where
  "put_be32 v =
     [ucast (drop_bit 24 v AND 0xFF), ucast (drop_bit 16 v AND 0xFF),
      ucast (drop_bit 8 v AND 0xFF), ucast (v AND 0xFF)]"

definition get_be32 :: "byte \<Rightarrow> byte \<Rightarrow> byte \<Rightarrow> byte \<Rightarrow> u32" where
  "get_be32 b0 b1 b2 b3 =
     push_bit 24 (ucast b0) OR push_bit 16 (ucast b1) OR push_bit 8 (ucast b2) OR ucast b3"

lemma ucast_and_FF [simp]: "(ucast (x AND 0xFF :: u32) :: byte) = ucast x"
proof -
  have mask: "(0xFF :: u32) = mask 8"
    by (simp add: mask_eq_exp_minus_1)
  show ?thesis
    unfolding mask by (rule bit_word_eqI) (simp add: bit_simps)
qed

lemma bit_get_be32:
  "n < 32 \<Longrightarrow> bit (get_be32 b0 b1 b2 b3) n \<longleftrightarrow>
     (if n < 8 then bit b3 n else if n < 16 then bit b2 (n - 8)
      else if n < 24 then bit b1 (n - 16) else bit b0 (n - 24))"
  by (auto simp: get_be32_def bit_simps not_less dest: bit_imp_le_length)

lemma get_be32_ucast [codec_simps]:
  "get_be32 (ucast (drop_bit 24 v)) (ucast (drop_bit 16 v)) (ucast (drop_bit 8 v)) (ucast v) = v"
  by (rule bit_word_eqI) (auto simp: bit_get_be32 bit_simps not_less)

lemma length_put_be32 [simp]: "length (put_be32 v) = 4"
  by (simp add: put_be32_def)

lemma put_be32_ne_Nil [simp]: "put_be32 v \<noteq> []"
  by (simp add: put_be32_def)

text \<open>The value of the four bytes at the read pointer; the caller has checked the bound.\<close>

definition rd32 :: "bytes \<Rightarrow> u32" where
  "rd32 p = get_be32 (p ! 0) (p ! 1) (p ! 2) (p ! 3)"

lemma rd32_put_be32 [simp, codec_simps]: "rd32 (put_be32 v @ rest) = v"
  by (simp add: rd32_def put_be32_def get_be32_ucast numeral_2_eq_2 numeral_3_eq_3)

lemma drop_put_be32 [simp, codec_simps]:
  "drop 4 (put_be32 v @ rest) = rest"
  by (simp add: put_be32_def)

text \<open>\<open>static_cast<uint32_t>(n)\<close> of a size: exact below \<open>2 ^ 32\<close>.\<close>

lemma unat_of_nat_u32 [simp]: "n < 2 ^ 32 \<Longrightarrow> unat (of_nat n :: u32) = n"
  by (simp add: unat_of_nat take_bit_nat_eq_self)

section \<open>Lists\<close>

lemma sorted_wrt_less_distinct: "sorted_wrt (<) (xs :: 'a :: order list) \<Longrightarrow> distinct xs"
  by (induction xs) auto

lemma sorted_wrt_less_unique:
  fixes xs ys :: "'a :: linorder list"
  assumes "sorted_wrt (<) xs" "sorted_wrt (<) ys" "set xs = set ys"
  shows "xs = ys"
proof -
  have "sorted xs" "sorted ys" "distinct xs" "distinct ys"
    using assms(1,2) by (auto simp: strict_sorted_iff)
  then show ?thesis
    using assms(3) by (simp add: sorted_distinct_set_unique)
qed

lemma sorted_wrt_less_filter:
  "sorted_wrt (<) xs \<Longrightarrow> sorted_wrt (<) (filter P (xs :: 'a :: order list))"
  by (rule sorted_wrt_filter)

lemma foldr_cons_rev: "foldl (\<lambda>acc x. f x # acc) acc xs = rev (map f xs) @ acc"
  by (induction xs arbitrary: acc) auto

end
