(* ===== verification/Erl_Terms.thy ===== *)
theory Erl_Terms
  imports Prelude
begin

text \<open>
  Erlang terms as the NIF code sees them, and the accessors of \<open>erl_nif.h\<close> the
  sources use on them. An accessor that can fail returns an option. A NIF
  returns an \<open>eterm outcome\<close>: \<open>Ok t\<close> for the term \<open>t\<close> and \<open>Failed\<close> for
  \<open>enif_make_badarg\<close>. The functions of the runtime system that are not simple
  inspections of a term (the external term format, the standard term order,
  allocation) are fields of the record \<open>erts\<close>, an argument of the definitions
  that use them.
\<close>

section \<open>Terms\<close>

datatype eterm =
    EAtom string
  | EInt int
  | EFloat u64
  | EBin bytes
  | ENil
  | ECons eterm eterm
  | ETuple "eterm list"
  | EMap "(eterm \<times> eterm) list"
  | ERef nat
  | EPid nat

type_synonym nif_result = "eterm outcome"

record erts =
  alloc_env :: bool
  binary_to_term :: "bytes \<Rightarrow> eterm option"
  term_to_binary :: "eterm \<Rightarrow> bytes option"
  compare_eq :: "eterm \<Rightarrow> eterm \<Rightarrow> bool"
  new_binary_ok :: "nat \<Rightarrow> bool"

text \<open>
  What the merge operators rely on: decoding inverts encoding
  (\<open>enif_term_to_binary\<close> and \<open>enif_binary_to_term\<close> in the Erlang documentation).
\<close>

definition erts_codec :: "erts \<Rightarrow> bool" where
  "erts_codec R \<longleftrightarrow> (\<forall>t b. term_to_binary R t = Some b \<longrightarrow> binary_to_term R b = Some t)"

section \<open>Accessors\<close>

fun enif_get_tuple :: "eterm \<Rightarrow> eterm list option" where
  "enif_get_tuple (ETuple ts) = Some ts"
| "enif_get_tuple _ = None"

fun enif_inspect_binary :: "eterm \<Rightarrow> bytes option" where
  "enif_inspect_binary (EBin b) = Some b"
| "enif_inspect_binary _ = None"

fun enif_is_binary :: "eterm \<Rightarrow> bool" where
  "enif_is_binary (EBin b) = True"
| "enif_is_binary _ = False"

fun enif_is_atom :: "eterm \<Rightarrow> bool" where
  "enif_is_atom (EAtom a) = True"
| "enif_is_atom _ = False"

fun enif_is_tuple :: "eterm \<Rightarrow> bool" where
  "enif_is_tuple (ETuple ts) = True"
| "enif_is_tuple _ = False"

fun enif_is_number :: "eterm \<Rightarrow> bool" where
  "enif_is_number (EInt i) = True"
| "enif_is_number (EFloat f) = True"
| "enif_is_number _ = False"

fun enif_is_list :: "eterm \<Rightarrow> bool" where
  "enif_is_list ENil = True"
| "enif_is_list (ECons h t) = True"
| "enif_is_list _ = False"

fun enif_get_list_length :: "eterm \<Rightarrow> nat option" where
  "enif_get_list_length ENil = Some 0"
| "enif_get_list_length (ECons h t) = map_option Suc (enif_get_list_length t)"
| "enif_get_list_length _ = None"

text \<open>
  The heads visited by \<open>while (enif_get_list_cell(env, tail, &head, &tail))\<close>;
  the loop stops at the first tail that is not a cell, also at the tail of an
  improper list.
\<close>

fun list_cells :: "eterm \<Rightarrow> eterm list" where
  "list_cells (ECons h t) = h # list_cells t"
| "list_cells _ = []"

fun enif_get_int64 :: "eterm \<Rightarrow> int option" where
  "enif_get_int64 (EInt i) = (if - (2 ^ 63) \<le> i \<and> i < 2 ^ 63 then Some i else None)"
| "enif_get_int64 _ = None"

fun enif_get_uint64 :: "eterm \<Rightarrow> u64 option" where
  "enif_get_uint64 (EInt i) = (if 0 \<le> i \<and> i < 2 ^ 64 then Some (word_of_int i) else None)"
| "enif_get_uint64 _ = None"

fun enif_get_uint :: "eterm \<Rightarrow> u32 option" where
  "enif_get_uint (EInt i) = (if 0 \<le> i \<and> i < 2 ^ 32 then Some (word_of_int i) else None)"
| "enif_get_uint _ = None"

fun enif_is_map :: "eterm \<Rightarrow> bool" where
  "enif_is_map (EMap kvs) = True"
| "enif_is_map _ = False"

fun enif_get_map_value :: "eterm \<Rightarrow> eterm \<Rightarrow> eterm option" where
  "enif_get_map_value (EMap kvs) k = map_of kvs k"
| "enif_get_map_value _ k = None"

fun enif_get_local_pid :: "eterm \<Rightarrow> nat option" where
  "enif_get_local_pid (EPid p) = Some p"
| "enif_get_local_pid _ = None"

section \<open>Constructors\<close>

text \<open>A list built by consing its cells from the last to the first.\<close>

definition enif_make_list :: "eterm list \<Rightarrow> eterm" where
  "enif_make_list ts = foldr ECons ts ENil"

definition ok_tuple :: "eterm \<Rightarrow> eterm" where
  "ok_tuple t = ETuple [EAtom ''ok'', t]"

definition e_bool :: "bool \<Rightarrow> eterm" where
  "e_bool b = EAtom (if b then ''true'' else ''false'')"

text \<open>
  \<open>enif_make_new_binary\<close> where the caller checks for a null result and answers
  \<open>badarg\<close>; \<open>new_binary_ok\<close> says whether the runtime system can allocate the size.
\<close>

definition make_binary :: "erts \<Rightarrow> bytes \<Rightarrow> nif_result" where
  "make_binary R b = (if new_binary_ok R (length b) then Ok (EBin b) else Failed)"

lemma list_cells_make_list [simp]: "list_cells (enif_make_list ts) = ts"
  by (induction ts) (auto simp: enif_make_list_def)

lemma list_length_make_list [simp]: "enif_get_list_length (enif_make_list ts) = Some (length ts)"
  by (induction ts) (auto simp: enif_make_list_def)

lemma is_list_make_list [simp]: "enif_is_list (enif_make_list ts)"
  by (cases ts) (auto simp: enif_make_list_def)

lemma make_list_inject [simp]: "enif_make_list xs = enif_make_list ys \<longleftrightarrow> xs = ys"
  by (metis list_cells_make_list)

lemma list_length_cells: "enif_get_list_length t = Some n \<Longrightarrow> length (list_cells t) = n"
  by (induction t arbitrary: n) auto

lemma get_int64_range: "enif_get_int64 t = Some i \<Longrightarrow> - (2 ^ 63) \<le> i \<and> i < 2 ^ 63"
  by (cases t) (auto split: if_splits)

lemma enif_get_tuple_Some [simp]: "enif_get_tuple t = Some ts \<longleftrightarrow> t = ETuple ts"
  by (cases t) auto

lemma enif_inspect_binary_Some [simp]: "enif_inspect_binary t = Some b \<longleftrightarrow> t = EBin b"
  by (cases t) auto

section \<open>Option folding\<close>

text \<open>
  \<open>fold\<close> of \<open>atoms.h\<close>: apply the option parser to each cell until one does not
  return \<open>ok\<close>. The accumulator is the options structure, updated in place.
\<close>

fun nif_fold_cells :: "(eterm \<Rightarrow> 'a \<Rightarrow> eterm \<times> 'a) \<Rightarrow> eterm list \<Rightarrow> 'a \<Rightarrow> eterm \<times> 'a" where
  "nif_fold_cells f [] acc = (EAtom ''ok'', acc)"
| "nif_fold_cells f (x # xs) acc =
     (let (r, acc') = f x acc
      in if r \<noteq> EAtom ''ok'' then (r, acc') else nif_fold_cells f xs acc')"

definition nif_fold :: "(eterm \<Rightarrow> 'a \<Rightarrow> eterm \<times> 'a) \<Rightarrow> eterm \<Rightarrow> 'a \<Rightarrow> eterm \<times> 'a" where
  "nif_fold f t acc = nif_fold_cells f (list_cells t) acc"

end
