(* ===== verification/Ref_Objects.thy ===== *)
theory Ref_Objects
  imports Erl_Terms "HOL-Library.Multiset"
begin

text \<open>
  The reference-counted objects of \<open>c_src/refobjects.h\<close> and
  \<open>c_src/refobjects.cc\<close>: every database, column family, snapshot, iterator,
  transaction log iterator, backup engine and transaction that Erlang holds is
  an \<open>ErlRefObject\<close> whose storage belongs to the Erlang resource and whose C++
  life time is governed by \<open>m_RefCount\<close> and \<open>m_CloseRequested\<close>.

  The objects live in an explicit heap, because destructors reach other
  objects through \<open>m_DbPtr\<close> and the child lists of a database. An access to
  freed memory, a virtual call on a destroyed object, a call through a null
  \<open>m_Db\<close> and a second \<open>delete\<close> set the flag \<open>fault\<close>; the calls that release a
  RocksDB object are recorded in \<open>log\<close>. Every method runs to completion here;
  sequences of whole methods are in theory \<open>Ref_System\<close>, the interleavings of their atomic parts in
  \<open>Ref_Threads\<close>.
\<close>

section \<open>Objects and heap\<close>

type_synonym addr = nat

datatype kind =
    DbObject | ColumnFamilyObject | SnapshotObject | ItrObject
  | TLogItrObject | BackupEngineObject | TransactionObject

text \<open>
  One record for the class hierarchy: \<open>m_Native\<close> stands for the pointer to the
  RocksDB object (\<open>m_Db\<close>, \<open>m_ColumnFamily\<close>, \<open>m_Snapshot\<close>, \<open>m_Iterator\<close>, \<open>m_Iter\<close>,
  \<open>m_BackupEngine\<close>, \<open>m_Tx\<close>) being non-null; \<open>m_DbPtr\<close> is the
  \<open>ReferencePtr<DbObject>\<close> of the child classes; the lists and the two flags
  belong to \<open>DbObject\<close>, the slices to \<open>ItrObject\<close>.
\<close>

record ref_object =
  kind :: kind
  m_RefCount :: u32
  m_CloseRequested :: u32
  m_Native :: bool
  m_DbPtr :: "addr option"
  m_ItrList :: "addr list"
  m_ColumnFamilyList :: "addr list"
  m_SnapshotList :: "addr list"
  m_TLogItrList :: "addr list"
  m_TransactionList :: "addr list"
  m_IsPessimistic :: bool
  m_IsTTL :: bool
  upper_bound_slice :: "nat option"
  lower_bound_slice :: "nat option"

text \<open>The calls that give a RocksDB object back, with the database the object belongs to.\<close>

datatype event =
    DeleteDb addr
  | DestroyColumnFamilyHandle addr addr
  | ReleaseSnapshotCall addr addr
  | DeleteIterator "addr option" addr
  | DeleteTLogItr "addr option" addr
  | DeleteTransaction "addr option" addr
  | DeleteBackupEngine addr
  | DeleteSlice nat

record ref_heap =
  mem :: "addr \<Rightarrow> ref_object option"
  next_addr :: addr
  log :: "event list"
  fault :: bool

definition empty_heap :: ref_heap where
  "empty_heap = \<lparr>mem = \<lambda>_. None, next_addr = 0, log = [], fault = False\<rparr>"

definition put_obj :: "ref_heap \<Rightarrow> addr \<Rightarrow> ref_object \<Rightarrow> ref_heap" where
  "put_obj h a ob = h\<lparr>mem := (mem h)(a := Some ob)\<rparr>"

definition emit :: "event \<Rightarrow> ref_heap \<Rightarrow> ref_heap" where
  "emit e h = h\<lparr>log := log h @ [e]\<rparr>"

text \<open>Reading a field of an object: the storage must be allocated.\<close>

definition with_obj :: "ref_heap \<Rightarrow> addr \<Rightarrow> (ref_object \<Rightarrow> ref_heap) \<Rightarrow> ref_heap" where
  "with_obj h a f = (case mem h a of None \<Rightarrow> h\<lparr>fault := True\<rparr> | Some ob \<Rightarrow> f ob)"

text \<open>A call of a virtual method or a use of a member with a destructor: the object must not be destroyed.\<close>

definition with_live :: "ref_heap \<Rightarrow> addr \<Rightarrow> (ref_object \<Rightarrow> ref_heap) \<Rightarrow> ref_heap" where
  "with_live h a f =
     with_obj h a (\<lambda>ob. if m_CloseRequested ob = 3 then h\<lparr>fault := True\<rparr> else f ob)"

section \<open>Reference counts\<close>

definition RefInc :: "ref_heap \<Rightarrow> addr \<Rightarrow> ref_heap" where
  "RefInc h a = with_live h a (\<lambda>ob. put_obj h a (ob\<lparr>m_RefCount := m_RefCount ob + 1\<rparr>))"

text \<open>
  \<open>ErlRefObject::RefDec\<close>; the argument \<open>dtor\<close> is the virtual destructor of the
  object's class. The decrement is on 32 bits. The compare-and-swap of
  \<open>m_CloseRequested\<close> from 1 to 2 decides who runs the destructor.
\<close>

definition ErlRefObject_RefDec :: "(ref_heap \<Rightarrow> addr \<Rightarrow> ref_heap) \<Rightarrow> ref_heap \<Rightarrow> addr \<Rightarrow> ref_heap" where
  "ErlRefObject_RefDec dtor h a =
     with_live h a (\<lambda>ob.
       let cur_count = m_RefCount ob - 1
       in if cur_count = 0 \<and> m_CloseRequested ob = 1
          then dtor (put_obj h a (ob\<lparr>m_RefCount := cur_count, m_CloseRequested := 2\<rparr>)) a
          else put_obj h a (ob\<lparr>m_RefCount := cur_count\<rparr>))"

text \<open>The base destructor runs last and only sets the state that \<open>AwaitCloseAndDestructor\<close> waits for.\<close>

definition ErlRefObject_dtor :: "ref_heap \<Rightarrow> addr \<Rightarrow> ref_heap" where
  "ErlRefObject_dtor h a = with_live h a (\<lambda>ob. put_obj h a (ob\<lparr>m_CloseRequested := 3\<rparr>))"

section \<open>Child lists of a database\<close>

fun child_list :: "kind \<Rightarrow> ref_object \<Rightarrow> addr list" where
  "child_list ItrObject ob = m_ItrList ob"
| "child_list ColumnFamilyObject ob = m_ColumnFamilyList ob"
| "child_list SnapshotObject ob = m_SnapshotList ob"
| "child_list TLogItrObject ob = m_TLogItrList ob"
| "child_list TransactionObject ob = m_TransactionList ob"
| "child_list DbObject ob = []"
| "child_list BackupEngineObject ob = []"

fun set_child_list :: "kind \<Rightarrow> addr list \<Rightarrow> ref_object \<Rightarrow> ref_object" where
  "set_child_list ItrObject xs ob = ob\<lparr>m_ItrList := xs\<rparr>"
| "set_child_list ColumnFamilyObject xs ob = ob\<lparr>m_ColumnFamilyList := xs\<rparr>"
| "set_child_list SnapshotObject xs ob = ob\<lparr>m_SnapshotList := xs\<rparr>"
| "set_child_list TLogItrObject xs ob = ob\<lparr>m_TLogItrList := xs\<rparr>"
| "set_child_list TransactionObject xs ob = ob\<lparr>m_TransactionList := xs\<rparr>"
| "set_child_list DbObject xs ob = ob"
| "set_child_list BackupEngineObject xs ob = ob"

definition AddColumnFamilyReference :: "ref_heap \<Rightarrow> addr \<Rightarrow> addr \<Rightarrow> ref_heap" where
  "AddColumnFamilyReference h d c =
     with_live h d (\<lambda>ob. put_obj h d (ob\<lparr>m_ColumnFamilyList := m_ColumnFamilyList ob @ [c]\<rparr>))"

definition RemoveColumnFamilyReference :: "ref_heap \<Rightarrow> addr \<Rightarrow> addr \<Rightarrow> ref_heap" where
  "RemoveColumnFamilyReference h d c =
     with_live h d (\<lambda>ob. put_obj h d (ob\<lparr>m_ColumnFamilyList := removeAll c (m_ColumnFamilyList ob)\<rparr>))"

text \<open>Only the iterator list refuses a closing database; its caller ignores the answer.\<close>

definition AddReference :: "ref_heap \<Rightarrow> addr \<Rightarrow> addr \<Rightarrow> ref_heap" where
  "AddReference h d c =
     with_live h d (\<lambda>ob.
       if m_CloseRequested ob = 0 then put_obj h d (ob\<lparr>m_ItrList := m_ItrList ob @ [c]\<rparr>) else h)"

definition RemoveReference :: "ref_heap \<Rightarrow> addr \<Rightarrow> addr \<Rightarrow> ref_heap" where
  "RemoveReference h d c =
     with_live h d (\<lambda>ob. put_obj h d (ob\<lparr>m_ItrList := removeAll c (m_ItrList ob)\<rparr>))"

definition AddSnapshotReference :: "ref_heap \<Rightarrow> addr \<Rightarrow> addr \<Rightarrow> ref_heap" where
  "AddSnapshotReference h d c =
     with_live h d (\<lambda>ob. put_obj h d (ob\<lparr>m_SnapshotList := m_SnapshotList ob @ [c]\<rparr>))"

definition RemoveSnapshotReference :: "ref_heap \<Rightarrow> addr \<Rightarrow> addr \<Rightarrow> ref_heap" where
  "RemoveSnapshotReference h d c =
     with_live h d (\<lambda>ob. put_obj h d (ob\<lparr>m_SnapshotList := removeAll c (m_SnapshotList ob)\<rparr>))"

definition AddTLogReference :: "ref_heap \<Rightarrow> addr \<Rightarrow> addr \<Rightarrow> ref_heap" where
  "AddTLogReference h d c =
     with_live h d (\<lambda>ob. put_obj h d (ob\<lparr>m_TLogItrList := m_TLogItrList ob @ [c]\<rparr>))"

definition RemoveTLogReference :: "ref_heap \<Rightarrow> addr \<Rightarrow> addr \<Rightarrow> ref_heap" where
  "RemoveTLogReference h d c =
     with_live h d (\<lambda>ob. put_obj h d (ob\<lparr>m_TLogItrList := removeAll c (m_TLogItrList ob)\<rparr>))"

definition AddTransactionReference :: "ref_heap \<Rightarrow> addr \<Rightarrow> addr \<Rightarrow> ref_heap" where
  "AddTransactionReference h d c =
     with_live h d (\<lambda>ob. put_obj h d (ob\<lparr>m_TransactionList := m_TransactionList ob @ [c]\<rparr>))"

definition RemoveTransactionReference :: "ref_heap \<Rightarrow> addr \<Rightarrow> addr \<Rightarrow> ref_heap" where
  "RemoveTransactionReference h d c =
     with_live h d (\<lambda>ob. put_obj h d (ob\<lparr>m_TransactionList := removeAll c (m_TransactionList ob)\<rparr>))"

section \<open>Destructors\<close>

text \<open>\<open>delete m_Db; m_Db = NULL;\<close> and then the base destructor.\<close>

definition DbObject_dtor :: "ref_heap \<Rightarrow> addr \<Rightarrow> ref_heap" where
  "DbObject_dtor h a =
     with_live h a (\<lambda>ob.
       let h1 = (if m_Native ob then emit (DeleteDb a) h else h);
           h2 = put_obj h1 a (ob\<lparr>m_Native := False\<rparr>)
       in ErlRefObject_dtor h2 a)"

definition DbObject_RefDec :: "ref_heap \<Rightarrow> addr \<Rightarrow> ref_heap" where
  "DbObject_RefDec = ErlRefObject_RefDec DbObject_dtor"

text \<open>The destructor of the member \<open>m_DbPtr\<close>.\<close>

definition ReferencePtr_dtor :: "ref_heap \<Rightarrow> addr option \<Rightarrow> ref_heap" where
  "ReferencePtr_dtor h p = (case p of None \<Rightarrow> h | Some d \<Rightarrow> DbObject_RefDec h d)"

text \<open>\<open>if (NULL != m_DbPtr.get()) m_DbPtr->Remove...Reference(this)\<close>.\<close>

definition remove_from_db ::
    "(ref_heap \<Rightarrow> addr \<Rightarrow> addr \<Rightarrow> ref_heap) \<Rightarrow> ref_heap \<Rightarrow> addr option \<Rightarrow> addr \<Rightarrow> ref_heap" where
  "remove_from_db remove h p c = (case p of None \<Rightarrow> h | Some d \<Rightarrow> remove h d c)"

text \<open>\<open>m_DbPtr->m_Db->...\<close>: the database object must be there and its \<open>m_Db\<close> non-null.\<close>

definition through_db :: "ref_heap \<Rightarrow> addr option \<Rightarrow> (addr \<Rightarrow> event) \<Rightarrow> ref_heap" where
  "through_db h p e =
     (case p of
        None \<Rightarrow> h\<lparr>fault := True\<rparr>
      | Some d \<Rightarrow> with_live h d (\<lambda>db. if m_Native db then emit (e d) h else h\<lparr>fault := True\<rparr>))"

text \<open>Forget the RocksDB pointer of an object.\<close>

definition clear_native :: "ref_heap \<Rightarrow> addr \<Rightarrow> ref_heap" where
  "clear_native h a = with_obj h a (\<lambda>ob. put_obj h a (ob\<lparr>m_Native := False\<rparr>))"

definition ColumnFamilyObject_dtor :: "ref_heap \<Rightarrow> addr \<Rightarrow> ref_heap" where
  "ColumnFamilyObject_dtor h a =
     with_live h a (\<lambda>ob.
       let h1 = (if m_Native ob
                 then clear_native (through_db h (m_DbPtr ob) (\<lambda>d. DestroyColumnFamilyHandle d a)) a
                 else h);
           h2 = remove_from_db RemoveColumnFamilyReference h1 (m_DbPtr ob) a;
           h3 = ReferencePtr_dtor h2 (m_DbPtr ob)
       in ErlRefObject_dtor h3 a)"

definition SnapshotObject_dtor :: "ref_heap \<Rightarrow> addr \<Rightarrow> ref_heap" where
  "SnapshotObject_dtor h a =
     with_live h a (\<lambda>ob.
       let h1 = (if m_DbPtr ob \<noteq> None
                 then remove_from_db RemoveSnapshotReference
                        (if m_Native ob
                         then clear_native (through_db h (m_DbPtr ob) (\<lambda>d. ReleaseSnapshotCall d a)) a
                         else h) (m_DbPtr ob) a
                 else h);
           h2 = clear_native h1 a;
           h3 = ReferencePtr_dtor h2 (m_DbPtr ob)
       in ErlRefObject_dtor h3 a)"

definition delete_slice :: "nat option \<Rightarrow> ref_heap \<Rightarrow> ref_heap" where
  "delete_slice s h = (case s of None \<Rightarrow> h | Some p \<Rightarrow> emit (DeleteSlice p) h)"

text \<open>
  \<open>delete m_Iterator\<close> is unconditional and the pointer keeps its value, so a
  second run of the destructor would delete it twice.
\<close>

definition ItrObject_dtor :: "ref_heap \<Rightarrow> addr \<Rightarrow> ref_heap" where
  "ItrObject_dtor h a =
     with_live h a (\<lambda>ob.
       let h1 = remove_from_db RemoveReference h (m_DbPtr ob) a;
           h2 = delete_slice (lower_bound_slice ob) (delete_slice (upper_bound_slice ob) h1);
           h3 = (if m_Native ob then emit (DeleteIterator (m_DbPtr ob) a) h2 else h2\<lparr>fault := True\<rparr>);
           h4 = clear_native h3 a;
           h5 = ReferencePtr_dtor h4 (m_DbPtr ob)
       in ErlRefObject_dtor h5 a)"

definition TLogItrObject_dtor :: "ref_heap \<Rightarrow> addr \<Rightarrow> ref_heap" where
  "TLogItrObject_dtor h a =
     with_live h a (\<lambda>ob.
       let h1 = remove_from_db RemoveTLogReference h (m_DbPtr ob) a;
           h2 = (if m_Native ob then emit (DeleteTLogItr (m_DbPtr ob) a) h1 else h1);
           h3 = clear_native h2 a;
           h4 = ReferencePtr_dtor h3 (m_DbPtr ob)
       in ErlRefObject_dtor h4 a)"

definition BackupEngineObject_dtor :: "ref_heap \<Rightarrow> addr \<Rightarrow> ref_heap" where
  "BackupEngineObject_dtor h a =
     with_live h a (\<lambda>ob.
       let h1 = (if m_Native ob then emit (DeleteBackupEngine a) h else h);
           h2 = clear_native h1 a
       in ErlRefObject_dtor h2 a)"

definition TransactionObject_dtor :: "ref_heap \<Rightarrow> addr \<Rightarrow> ref_heap" where
  "TransactionObject_dtor h a =
     with_live h a (\<lambda>ob.
       let h1 = remove_from_db RemoveTransactionReference h (m_DbPtr ob) a;
           h2 = (if m_Native ob then emit (DeleteTransaction (m_DbPtr ob) a) h1 else h1);
           h3 = clear_native h2 a;
           h4 = ReferencePtr_dtor h3 (m_DbPtr ob)
       in ErlRefObject_dtor h4 a)"

text \<open>\<open>this->~ErlRefObject()\<close> in \<open>RefDec\<close>: dispatch on the class of the object.\<close>

definition virtual_dtor :: "ref_heap \<Rightarrow> addr \<Rightarrow> ref_heap" where
  "virtual_dtor h a =
     with_obj h a (\<lambda>ob.
       case kind ob of
         DbObject \<Rightarrow> DbObject_dtor h a
       | ColumnFamilyObject \<Rightarrow> ColumnFamilyObject_dtor h a
       | SnapshotObject \<Rightarrow> SnapshotObject_dtor h a
       | ItrObject \<Rightarrow> ItrObject_dtor h a
       | TLogItrObject \<Rightarrow> TLogItrObject_dtor h a
       | BackupEngineObject \<Rightarrow> BackupEngineObject_dtor h a
       | TransactionObject \<Rightarrow> TransactionObject_dtor h a)"

definition RefDec :: "ref_heap \<Rightarrow> addr \<Rightarrow> ref_heap" where
  "RefDec = ErlRefObject_RefDec virtual_dtor"

section \<open>Closing\<close>

text \<open>
  \<open>ErlRefObject::InitiateCloseRequest\<close>; the argument \<open>shutdown\<close> is the virtual
  method \<open>Shutdown\<close> of the object's class.
\<close>

definition ErlRefObject_InitiateCloseRequest ::
    "(ref_heap \<Rightarrow> addr \<Rightarrow> ref_heap) \<Rightarrow> ref_heap \<Rightarrow> addr option \<Rightarrow> bool \<times> ref_heap" where
  "ErlRefObject_InitiateCloseRequest shutdown h Object =
     (case Object of
        None \<Rightarrow> (False, h)
      | Some a \<Rightarrow>
          (case mem h a of
             None \<Rightarrow> (False, h\<lparr>fault := True\<rparr>)
           | Some ob \<Rightarrow>
               if m_CloseRequested ob = 0
               then (True, shutdown (put_obj h a (ob\<lparr>m_CloseRequested := 1\<rparr>)) a)
               else (False, h)))"

text \<open>\<open>Shutdown\<close> of every class but \<open>DbObject\<close> drops the reference taken at creation.\<close>

definition ColumnFamilyObject_Shutdown :: "ref_heap \<Rightarrow> addr \<Rightarrow> ref_heap" where
  "ColumnFamilyObject_Shutdown h a = RefDec h a"

definition SnapshotObject_Shutdown :: "ref_heap \<Rightarrow> addr \<Rightarrow> ref_heap" where
  "SnapshotObject_Shutdown h a = RefDec h a"

definition ItrObject_Shutdown :: "ref_heap \<Rightarrow> addr \<Rightarrow> ref_heap" where
  "ItrObject_Shutdown h a = RefDec h a"

definition TLogItrObject_Shutdown :: "ref_heap \<Rightarrow> addr \<Rightarrow> ref_heap" where
  "TLogItrObject_Shutdown h a = RefDec h a"

definition BackupEngineObject_Shutdown :: "ref_heap \<Rightarrow> addr \<Rightarrow> ref_heap" where
  "BackupEngineObject_Shutdown h a = RefDec h a"

definition TransactionObject_Shutdown :: "ref_heap \<Rightarrow> addr \<Rightarrow> ref_heap" where
  "TransactionObject_Shutdown h a = RefDec h a"

text \<open>\<open>Object->Shutdown()\<close> on an object of one of these classes.\<close>

fun child_Shutdown :: "kind \<Rightarrow> ref_heap \<Rightarrow> addr \<Rightarrow> ref_heap" where
  "child_Shutdown ColumnFamilyObject h a = ColumnFamilyObject_Shutdown h a"
| "child_Shutdown SnapshotObject h a = SnapshotObject_Shutdown h a"
| "child_Shutdown ItrObject h a = ItrObject_Shutdown h a"
| "child_Shutdown TLogItrObject h a = TLogItrObject_Shutdown h a"
| "child_Shutdown TransactionObject h a = TransactionObject_Shutdown h a"
| "child_Shutdown BackupEngineObject h a = BackupEngineObject_Shutdown h a"
| "child_Shutdown DbObject h a = h"

lemma child_Shutdown_eq [simp]: "k \<noteq> DbObject \<Longrightarrow> child_Shutdown k h a = RefDec h a"
  by (cases k) (simp_all add: ColumnFamilyObject_Shutdown_def SnapshotObject_Shutdown_def
      ItrObject_Shutdown_def TLogItrObject_Shutdown_def BackupEngineObject_Shutdown_def
      TransactionObject_Shutdown_def)

section \<open>Closing a database\<close>

text \<open>
  The number of children still in a list: no call below adds to it, so the
  loops of \<open>DbObject::Shutdown\<close> end.
\<close>

definition pending :: "kind \<Rightarrow> ref_heap \<Rightarrow> addr \<Rightarrow> nat" where
  "pending k h d = (case mem h d of None \<Rightarrow> 0 | Some ob \<Rightarrow> length (child_list k ob))"

definition shrinks :: "ref_heap \<Rightarrow> ref_heap \<Rightarrow> bool" where
  "shrinks h h' \<longleftrightarrow> (\<forall>k d. pending k h' d \<le> pending k h d)"

lemma shrinks_refl [simp]: "shrinks h h"
  by (simp add: shrinks_def)

lemma shrinks_trans: "shrinks h h1 \<Longrightarrow> shrinks h1 h2 \<Longrightarrow> shrinks h h2"
  unfolding shrinks_def using le_trans by blast

lemma shrinks_fault [simp]: "shrinks h (h'\<lparr>fault := b\<rparr>) = shrinks h h'"
  by (simp add: shrinks_def pending_def)

lemma shrinks_emit [simp]: "shrinks h (emit e h') = shrinks h h'"
  by (simp add: shrinks_def pending_def emit_def)

lemma shrinks_put:
  "shrinks h0 h \<Longrightarrow> mem h a = Some ob \<Longrightarrow>
     (\<And>k. length (child_list k ob') \<le> length (child_list k ob)) \<Longrightarrow> shrinks h0 (put_obj h a ob')"
  by (rule shrinks_trans) (auto simp: shrinks_def pending_def put_obj_def)

lemma child_list_update [simp]:
  "child_list k (ob\<lparr>m_RefCount := n\<rparr>) = child_list k ob"
  "child_list k (ob\<lparr>m_CloseRequested := n\<rparr>) = child_list k ob"
  "child_list k (ob\<lparr>m_Native := b\<rparr>) = child_list k ob"
  by (cases k; simp)+

lemma mem_emit [simp]: "mem (emit e h) = mem h"
  by (simp add: emit_def)

lemma shrinks_with_obj:
  "shrinks h0 h \<Longrightarrow> (\<And>ob. mem h a = Some ob \<Longrightarrow> shrinks h0 (f ob)) \<Longrightarrow> shrinks h0 (with_obj h a f)"
  by (auto simp: with_obj_def split: option.split)

lemma shrinks_with_live:
  "shrinks h0 h \<Longrightarrow> (\<And>ob. mem h a = Some ob \<Longrightarrow> shrinks h0 (f ob)) \<Longrightarrow> shrinks h0 (with_live h a f)"
  unfolding with_live_def by (rule shrinks_with_obj) simp_all

lemma length_child_list_removeAll:
  "length (child_list k (ob\<lparr>m_ItrList := removeAll c (m_ItrList ob)\<rparr>)) \<le> length (child_list k ob)"
  "length (child_list k (ob\<lparr>m_ColumnFamilyList := removeAll c (m_ColumnFamilyList ob)\<rparr>)) \<le> length (child_list k ob)"
  "length (child_list k (ob\<lparr>m_SnapshotList := removeAll c (m_SnapshotList ob)\<rparr>)) \<le> length (child_list k ob)"
  "length (child_list k (ob\<lparr>m_TLogItrList := removeAll c (m_TLogItrList ob)\<rparr>)) \<le> length (child_list k ob)"
  "length (child_list k (ob\<lparr>m_TransactionList := removeAll c (m_TransactionList ob)\<rparr>)) \<le> length (child_list k ob)"
  by (cases k; simp)+

lemma shrinks_remove:
  assumes "shrinks h0 h"
  shows "shrinks h0 (RemoveReference h d c)" "shrinks h0 (RemoveColumnFamilyReference h d c)"
    "shrinks h0 (RemoveSnapshotReference h d c)" "shrinks h0 (RemoveTLogReference h d c)"
    "shrinks h0 (RemoveTransactionReference h d c)"
  unfolding RemoveReference_def RemoveColumnFamilyReference_def RemoveSnapshotReference_def
    RemoveTLogReference_def RemoveTransactionReference_def
  by (rule shrinks_with_live [OF assms], erule shrinks_put [OF assms], rule length_child_list_removeAll)+

lemma shrinks_simple:
  assumes "shrinks h0 h"
  shows "shrinks h0 (ErlRefObject_dtor h a)" "shrinks h0 (clear_native h a)"
    "shrinks h0 (through_db h p e)" "shrinks h0 (delete_slice s h)"
  unfolding ErlRefObject_dtor_def clear_native_def through_db_def delete_slice_def
  using assms by (auto intro!: shrinks_with_live shrinks_with_obj shrinks_put split: option.split)

lemma shrinks_RefDec:
  assumes "\<And>h. shrinks h0 h \<Longrightarrow> shrinks h0 (dtor h a)" and "shrinks h0 h"
  shows "shrinks h0 (ErlRefObject_RefDec dtor h a)"
  unfolding ErlRefObject_RefDec_def Let_def
  using assms by (auto intro!: shrinks_with_live assms(1) shrinks_put)

lemma shrinks_DbObject_dtor: "shrinks h0 h \<Longrightarrow> shrinks h0 (DbObject_dtor h a)"
  unfolding DbObject_dtor_def Let_def
  by (auto intro!: shrinks_with_live shrinks_simple shrinks_put)

lemma shrinks_remove_from_db:
  "(\<And>d. shrinks h0 (remove h d c)) \<Longrightarrow> shrinks h0 h \<Longrightarrow> shrinks h0 (remove_from_db remove h p c)"
  by (simp add: remove_from_db_def split: option.split)

lemma shrinks_ReferencePtr_dtor: "shrinks h0 h \<Longrightarrow> shrinks h0 (ReferencePtr_dtor h p)"
  by (simp add: ReferencePtr_dtor_def DbObject_RefDec_def shrinks_RefDec shrinks_DbObject_dtor
      split: option.split)

lemma shrinks_if: "shrinks h0 x \<Longrightarrow> shrinks h0 y \<Longrightarrow> shrinks h0 (if b then x else y)"
  by simp

lemmas shrinks_steps =
  shrinks_simple shrinks_remove_from_db shrinks_remove shrinks_ReferencePtr_dtor shrinks_if

lemma shrinks_child_dtor:
  assumes "shrinks h0 h"
  shows "shrinks h0 (ColumnFamilyObject_dtor h a)" "shrinks h0 (SnapshotObject_dtor h a)"
    "shrinks h0 (ItrObject_dtor h a)" "shrinks h0 (TLogItrObject_dtor h a)"
    "shrinks h0 (BackupEngineObject_dtor h a)" "shrinks h0 (TransactionObject_dtor h a)"
  unfolding ColumnFamilyObject_dtor_def SnapshotObject_dtor_def ItrObject_dtor_def
    TLogItrObject_dtor_def BackupEngineObject_dtor_def TransactionObject_dtor_def Let_def
  using assms by (auto intro!: shrinks_with_live shrinks_steps split del: if_split)

lemma shrinks_virtual_dtor: "shrinks h0 h \<Longrightarrow> shrinks h0 (virtual_dtor h a)"
  unfolding virtual_dtor_def
  by (rule shrinks_with_obj)
    (auto intro: shrinks_child_dtor shrinks_DbObject_dtor split: kind.split)

lemma shrinks_child_Shutdown: "shrinks h0 h \<Longrightarrow> shrinks h0 (child_Shutdown k h a)"
  by (cases "k = DbObject") (auto simp: RefDec_def intro: shrinks_RefDec shrinks_virtual_dtor)

text \<open>\<open>ItrObject::InitiateCloseRequest\<close> and the like, as called on a list entry.\<close>

definition child_InitiateCloseRequest :: "kind \<Rightarrow> ref_heap \<Rightarrow> addr \<Rightarrow> ref_heap" where
  "child_InitiateCloseRequest k h a =
     snd (ErlRefObject_InitiateCloseRequest (child_Shutdown k) h (Some a))"

lemma shrinks_child_InitiateCloseRequest:
  "shrinks h0 h \<Longrightarrow> shrinks h0 (child_InitiateCloseRequest k h a)"
  by (auto simp: child_InitiateCloseRequest_def ErlRefObject_InitiateCloseRequest_def
      intro!: shrinks_child_Shutdown shrinks_put split: option.split)

text \<open>
  One of the five loops of \<open>DbObject::Shutdown\<close>: take the first child out of the
  list of its class and ask it to close, until the list is empty.
\<close>

function shutdown_children :: "kind \<Rightarrow> ref_heap \<Rightarrow> addr \<Rightarrow> ref_heap" where
  "shutdown_children k h d =
     (case mem h d of
        None \<Rightarrow> h\<lparr>fault := True\<rparr>
      | Some ob \<Rightarrow>
          (case child_list k ob of
             [] \<Rightarrow> h
           | c # cs \<Rightarrow>
               shutdown_children k
                 (child_InitiateCloseRequest k (put_obj h d (set_child_list k cs ob)) c) d))"
  by pat_completeness auto

lemma child_list_set [simp]:
  "child_list k (set_child_list k' xs ob) =
     (if k = k' \<and> k \<noteq> DbObject \<and> k \<noteq> BackupEngineObject then xs else child_list k ob)"
  by (cases k; cases k') simp_all

lemma pending_child_close:
  assumes "mem h d = Some ob" "child_list k ob = c # cs"
  shows "pending k (child_InitiateCloseRequest k (put_obj h d (set_child_list k cs ob)) c) d < pending k h d"
proof -
  let ?h = "put_obj h d (set_child_list k cs ob)"
  have "k \<noteq> DbObject" "k \<noteq> BackupEngineObject"
    using assms(2) by auto
  then have "pending k ?h d = length cs"
    by (simp add: pending_def put_obj_def)
  moreover have "pending k (child_InitiateCloseRequest k ?h c) d \<le> pending k ?h d"
    using shrinks_child_InitiateCloseRequest [OF shrinks_refl] by (simp add: shrinks_def)
  ultimately show ?thesis
    using assms by (simp add: pending_def)
qed

termination shutdown_children
  by (relation "measure (\<lambda>(k, h, d). pending k h d)") (auto simp: pending_child_close)

declare shutdown_children.simps [simp del]

definition DbObject_Shutdown :: "ref_heap \<Rightarrow> addr \<Rightarrow> ref_heap" where
  "DbObject_Shutdown h d =
     (let h1 = shutdown_children ItrObject h d;
          h2 = shutdown_children ColumnFamilyObject h1 d;
          h3 = shutdown_children SnapshotObject h2 d;
          h4 = shutdown_children TLogItrObject h3 d;
          h5 = shutdown_children TransactionObject h4 d
      in RefDec h5 d)"

definition Shutdown :: "ref_heap \<Rightarrow> addr \<Rightarrow> ref_heap" where
  "Shutdown h a =
     with_live h a (\<lambda>ob. if kind ob = DbObject then DbObject_Shutdown h a else child_Shutdown (kind ob) h a)"

definition InitiateCloseRequest :: "ref_heap \<Rightarrow> addr option \<Rightarrow> bool \<times> ref_heap" where
  "InitiateCloseRequest = ErlRefObject_InitiateCloseRequest Shutdown"

section \<open>Creation and retrieval\<close>

text \<open>The constructors start with \<open>m_RefCount\<close> and \<open>m_CloseRequested\<close> at 0 and empty lists.\<close>

definition new_object :: "kind \<Rightarrow> addr option \<Rightarrow> ref_object" where
  "new_object k p =
     \<lparr>kind = k, m_RefCount = 0, m_CloseRequested = 0, m_Native = True, m_DbPtr = p,
      m_ItrList = [], m_ColumnFamilyList = [], m_SnapshotList = [], m_TLogItrList = [],
      m_TransactionList = [], m_IsPessimistic = False, m_IsTTL = False,
      upper_bound_slice = None, lower_bound_slice = None\<rparr>"

text \<open>\<open>enif_alloc_resource\<close> returns storage no live object uses.\<close>

definition enif_alloc_resource :: "ref_heap \<Rightarrow> ref_object \<Rightarrow> addr \<times> ref_heap" where
  "enif_alloc_resource h ob =
     (next_addr h, (put_obj h (next_addr h) ob)\<lparr>next_addr := next_addr h + 1\<rparr>)"

definition CreateDbObject :: "ref_heap \<Rightarrow> bool \<Rightarrow> bool \<Rightarrow> addr \<times> ref_heap" where
  "CreateDbObject h IsPessimistic IsTTL =
     (let (a, h1) = enif_alloc_resource h
                      ((new_object DbObject None)\<lparr>m_IsPessimistic := IsPessimistic, m_IsTTL := IsTTL\<rparr>)
      in (a, RefInc h1 a))"

definition CreateBackupEngineObject :: "ref_heap \<Rightarrow> addr \<times> ref_heap" where
  "CreateBackupEngineObject h =
     (let (a, h1) = enif_alloc_resource h (new_object BackupEngineObject None)
      in (a, RefInc h1 a))"

text \<open>The constructor of the member \<open>m_DbPtr(DbPtr)\<close>.\<close>

definition ReferencePtr_ctor :: "ref_heap \<Rightarrow> addr option \<Rightarrow> ref_heap" where
  "ReferencePtr_ctor h p = (case p of None \<Rightarrow> h | Some d \<Rightarrow> RefInc h d)"

text \<open>
  The child constructors: take a reference to the database, then enter the
  child in the list of its class.
\<close>

definition add_to_db ::
    "(ref_heap \<Rightarrow> addr \<Rightarrow> addr \<Rightarrow> ref_heap) \<Rightarrow> ref_heap \<Rightarrow> addr option \<Rightarrow> addr \<Rightarrow> ref_heap" where
  "add_to_db add h p c = (case p of None \<Rightarrow> h | Some d \<Rightarrow> add h d c)"

definition ColumnFamilyObject_ctor :: "ref_heap \<Rightarrow> addr option \<Rightarrow> addr \<Rightarrow> ref_heap" where
  "ColumnFamilyObject_ctor h p a = add_to_db AddColumnFamilyReference (ReferencePtr_ctor h p) p a"

definition SnapshotObject_ctor :: "ref_heap \<Rightarrow> addr option \<Rightarrow> addr \<Rightarrow> ref_heap" where
  "SnapshotObject_ctor h p a = add_to_db AddSnapshotReference (ReferencePtr_ctor h p) p a"

definition ItrObject_ctor :: "ref_heap \<Rightarrow> addr option \<Rightarrow> addr \<Rightarrow> ref_heap" where
  "ItrObject_ctor h p a = add_to_db AddReference (ReferencePtr_ctor h p) p a"

definition TLogItrObject_ctor :: "ref_heap \<Rightarrow> addr option \<Rightarrow> addr \<Rightarrow> ref_heap" where
  "TLogItrObject_ctor h p a = add_to_db AddTLogReference (ReferencePtr_ctor h p) p a"

definition TransactionObject_ctor :: "ref_heap \<Rightarrow> addr option \<Rightarrow> addr \<Rightarrow> ref_heap" where
  "TransactionObject_ctor h p a = add_to_db AddTransactionReference (ReferencePtr_ctor h p) p a"

definition create_child ::
    "kind \<Rightarrow> (ref_heap \<Rightarrow> addr option \<Rightarrow> addr \<Rightarrow> ref_heap) \<Rightarrow> ref_heap \<Rightarrow> addr option \<Rightarrow> addr \<times> ref_heap" where
  "create_child k ctor h p =
     (let (a, h1) = enif_alloc_resource h (new_object k p)
      in (a, RefInc (ctor h1 p a) a))"

definition CreateColumnFamilyObject :: "ref_heap \<Rightarrow> addr option \<Rightarrow> addr \<times> ref_heap" where
  "CreateColumnFamilyObject = create_child ColumnFamilyObject ColumnFamilyObject_ctor"

definition CreateSnapshotObject :: "ref_heap \<Rightarrow> addr option \<Rightarrow> addr \<times> ref_heap" where
  "CreateSnapshotObject = create_child SnapshotObject SnapshotObject_ctor"

definition CreateItrObject :: "ref_heap \<Rightarrow> addr option \<Rightarrow> addr \<times> ref_heap" where
  "CreateItrObject = create_child ItrObject ItrObject_ctor"

definition CreateTLogItrObject :: "ref_heap \<Rightarrow> addr option \<Rightarrow> addr \<times> ref_heap" where
  "CreateTLogItrObject = create_child TLogItrObject TLogItrObject_ctor"

definition CreateTransactionObject :: "ref_heap \<Rightarrow> addr option \<Rightarrow> addr \<times> ref_heap" where
  "CreateTransactionObject = create_child TransactionObject TransactionObject_ctor"

definition SetUpperBoundSlice :: "ref_heap \<Rightarrow> addr \<Rightarrow> nat \<Rightarrow> ref_heap" where
  "SetUpperBoundSlice h a s = with_live h a (\<lambda>ob. put_obj h a (ob\<lparr>upper_bound_slice := Some s\<rparr>))"

definition SetLowerBoundSlice :: "ref_heap \<Rightarrow> addr \<Rightarrow> nat \<Rightarrow> ref_heap" where
  "SetLowerBoundSlice h a s = with_live h a (\<lambda>ob. put_obj h a (ob\<lparr>lower_bound_slice := Some s\<rparr>))"

text \<open>
  \<open>enif_get_resource\<close> gives the object of a term if it is a resource of the
  asked type; the storage of a resource that a term names is allocated.
\<close>

fun enif_get_resource :: "ref_heap \<Rightarrow> kind \<Rightarrow> eterm \<Rightarrow> (addr \<times> ref_object) option" where
  "enif_get_resource h k (ERef a) =
     (case mem h a of
        None \<Rightarrow> None
      | Some ob \<Rightarrow> if kind ob = k then Some (a, ob) else None)"
| "enif_get_resource h k _ = None"

definition Retrieve :: "ref_heap \<Rightarrow> kind \<Rightarrow> eterm \<Rightarrow> addr option" where
  "Retrieve h k t =
     (case enif_get_resource h k t of
        None \<Rightarrow> None
      | Some (a, ob) \<Rightarrow> if m_CloseRequested ob \<noteq> 0 then None else Some a)"

definition RetrieveDbObject :: "ref_heap \<Rightarrow> eterm \<Rightarrow> addr option" where
  "RetrieveDbObject h = Retrieve h DbObject"

definition RetrieveColumnFamilyObject :: "ref_heap \<Rightarrow> eterm \<Rightarrow> addr option" where
  "RetrieveColumnFamilyObject h = Retrieve h ColumnFamilyObject"

definition RetrieveSnapshotObject :: "ref_heap \<Rightarrow> eterm \<Rightarrow> addr option" where
  "RetrieveSnapshotObject h = Retrieve h SnapshotObject"

definition RetrieveTLogItrObject :: "ref_heap \<Rightarrow> eterm \<Rightarrow> addr option" where
  "RetrieveTLogItrObject h = Retrieve h TLogItrObject"

definition RetrieveBackupEngineObject :: "ref_heap \<Rightarrow> eterm \<Rightarrow> addr option" where
  "RetrieveBackupEngineObject h = Retrieve h BackupEngineObject"

definition RetrieveTransactionObject :: "ref_heap \<Rightarrow> eterm \<Rightarrow> addr option" where
  "RetrieveTransactionObject h = Retrieve h TransactionObject"

text \<open>
  An iterator is also refused when its database is closing, unless the caller
  is about to close it. A null \<open>m_DbPtr\<close> would be dereferenced: \<open>Undef\<close>.
\<close>

definition RetrieveItrObject :: "ref_heap \<Rightarrow> eterm \<Rightarrow> bool \<Rightarrow> addr option outcome" where
  "RetrieveItrObject h t ItrClosing =
     (case enif_get_resource h ItrObject t of
        None \<Rightarrow> Ok None
      | Some (a, ob) \<Rightarrow>
          if m_CloseRequested ob \<noteq> 0 then Ok None
          else if ItrClosing then Ok (Some a)
          else
            (case m_DbPtr ob of
               None \<Rightarrow> Undef
             | Some d \<Rightarrow>
                 (case mem h d of
                    None \<Rightarrow> Undef
                  | Some db \<Rightarrow> Ok (if m_CloseRequested db \<noteq> 0 then None else Some a))))"

section \<open>Resource cleanup\<close>

text \<open>
  \<open>AwaitCloseAndDestructor\<close> returns once the destructor is done; \<open>None\<close> stands
  for a thread that still waits on \<open>m_CloseCond\<close>. Afterwards the mutex, the
  condition and the storage are gone.
\<close>

definition AwaitCloseAndDestructor :: "ref_heap \<Rightarrow> addr \<Rightarrow> ref_heap option" where
  "AwaitCloseAndDestructor h a =
     (case mem h a of
        None \<Rightarrow> Some (h\<lparr>fault := True\<rparr>)
      | Some ob \<Rightarrow> if m_CloseRequested ob \<noteq> 3 then None else Some (h\<lparr>mem := (mem h)(a := None)\<rparr>))"

text \<open>The seven \<open>...ResourceCleanup\<close> callbacks, run when the last term that names the resource is gone.\<close>

definition ResourceCleanup :: "ref_heap \<Rightarrow> addr \<Rightarrow> ref_heap option" where
  "ResourceCleanup h a = AwaitCloseAndDestructor (snd (InitiateCloseRequest h (Some a))) a"

definition DbObjectResourceCleanup :: "ref_heap \<Rightarrow> addr \<Rightarrow> ref_heap option" where
  "DbObjectResourceCleanup h arg = ResourceCleanup h arg"

definition ColumnFamilyObjectResourceCleanup :: "ref_heap \<Rightarrow> addr \<Rightarrow> ref_heap option" where
  "ColumnFamilyObjectResourceCleanup h arg = ResourceCleanup h arg"

definition SnapshotObjectResourceCleanup :: "ref_heap \<Rightarrow> addr \<Rightarrow> ref_heap option" where
  "SnapshotObjectResourceCleanup h arg = ResourceCleanup h arg"

definition ItrObjectResourceCleanup :: "ref_heap \<Rightarrow> addr \<Rightarrow> ref_heap option" where
  "ItrObjectResourceCleanup h arg = ResourceCleanup h arg"

definition TLogItrObjectResourceCleanup :: "ref_heap \<Rightarrow> addr \<Rightarrow> ref_heap option" where
  "TLogItrObjectResourceCleanup h arg = ResourceCleanup h arg"

definition BackupEngineObjectResourceCleanup :: "ref_heap \<Rightarrow> addr \<Rightarrow> ref_heap option" where
  "BackupEngineObjectResourceCleanup h arg = ResourceCleanup h arg"

definition TransactionObjectResourceCleanup :: "ref_heap \<Rightarrow> addr \<Rightarrow> ref_heap option" where
  "TransactionObjectResourceCleanup h arg = ResourceCleanup h arg"

section \<open>Reference pointers of a running call\<close>

text \<open>\<open>ReferencePtr::assign\<close>: the new value of the pointer and the heap.\<close>

definition ReferencePtr_assign :: "ref_heap \<Rightarrow> addr option \<Rightarrow> addr option \<Rightarrow> ref_heap \<times> addr option" where
  "ReferencePtr_assign h t new =
     (if new \<noteq> t
      then ((case new of None \<Rightarrow> (\<lambda>h. h) | Some a \<Rightarrow> (\<lambda>h. RefInc h a))
              (case t of None \<Rightarrow> h | Some a \<Rightarrow> RefDec h a), new)
      else (h, t))"

definition ReferencePtr_drop :: "ref_heap \<Rightarrow> addr option \<Rightarrow> ref_heap" where
  "ReferencePtr_drop h t = (case t of None \<Rightarrow> h | Some a \<Rightarrow> RefDec h a)"

text \<open>\<open>enif_get_db\<close>: 1 with the pointer set, or 0; the pointer may be set in both cases.\<close>

definition enif_get_db :: "ref_heap \<Rightarrow> eterm \<Rightarrow> bool \<times> ref_heap \<times> addr option" where
  "enif_get_db h t =
     (let (h1, p) = ReferencePtr_assign h None (RetrieveDbObject h t)
      in case p of
           None \<Rightarrow> (False, h1, p)
         | Some d \<Rightarrow>
             (case mem h1 d of
                None \<Rightarrow> (False, h1\<lparr>fault := True\<rparr>, p)
              | Some ob \<Rightarrow> (m_Native ob, h1, p)))"

definition enif_get_cf :: "ref_heap \<Rightarrow> eterm \<Rightarrow> bool \<times> ref_heap \<times> addr option" where
  "enif_get_cf h t =
     (let (h1, p) = ReferencePtr_assign h None (RetrieveColumnFamilyObject h t)
      in (p \<noteq> None, h1, p))"

definition enif_get_backup_engine :: "ref_heap \<Rightarrow> eterm \<Rightarrow> bool \<times> ref_heap \<times> addr option" where
  "enif_get_backup_engine h t =
     (let (h1, p) = ReferencePtr_assign h None (RetrieveBackupEngineObject h t)
      in (p \<noteq> None, h1, p))"

definition enif_get_transaction :: "ref_heap \<Rightarrow> eterm \<Rightarrow> bool \<times> ref_heap \<times> addr option" where
  "enif_get_transaction h t =
     (let (h1, p) = ReferencePtr_assign h None (RetrieveTransactionObject h t)
      in (p \<noteq> None, h1, p))"

end
