(* ===== verification/Ref_Lifecycle.thy ===== *)
theory Ref_Lifecycle
  imports Ref_Objects
begin

text \<open>
  The life cycle of the reference-counted objects: the heap invariant that ties
  \<open>m_RefCount\<close> to the references that exist, its preservation by every method
  of \<open>Ref_Objects\<close>, and the system of running calls (a step relation) with the
  safety and liveness properties of closing.
\<close>

section \<open>The heap invariant\<close>

definition live_children :: "ref_heap \<Rightarrow> addr \<Rightarrow> addr set" where
  "live_children h d =
     {c. \<exists>ob. mem h c = Some ob \<and> m_CloseRequested ob \<noteq> 3 \<and> m_DbPtr ob = Some d}"

definition is_child :: "ref_heap \<Rightarrow> kind \<Rightarrow> addr \<Rightarrow> addr \<Rightarrow> bool" where
  "is_child h k d c \<longleftrightarrow>
     (\<exists>ob. mem h c = Some ob \<and> m_CloseRequested ob \<noteq> 3 \<and> kind ob = k \<and> m_DbPtr ob = Some d)"

definition is_live_db :: "ref_heap \<Rightarrow> addr \<Rightarrow> bool" where
  "is_live_db h d \<longleftrightarrow> (\<exists>ob. mem h d = Some ob \<and> kind ob = DbObject \<and> m_CloseRequested ob \<noteq> 3)"

text \<open>
  \<open>H\<close> collects the references held by running calls. An object that is not
  destroyed counts them, its live children and, until close is requested, the
  reference taken at creation; it has at least one reference. Its database is
  not destroyed, and the entries of its child lists are not destroyed either.
\<close>

definition obj_ok :: "ref_heap \<Rightarrow> addr multiset \<Rightarrow> addr \<Rightarrow> ref_object \<Rightarrow> bool" where
  "obj_ok h H a ob \<longleftrightarrow>
     m_CloseRequested ob \<in> {0, 1, 3} \<and>
     (m_CloseRequested ob \<noteq> 3 \<longrightarrow>
        unat (m_RefCount ob) =
          count H a + card (live_children h a) + (if m_CloseRequested ob = 0 then 1 else 0) \<and>
        m_RefCount ob \<noteq> 0 \<and>
        (kind ob \<noteq> ColumnFamilyObject \<longrightarrow> m_Native ob) \<and>
        (case m_DbPtr ob of
           None \<Rightarrow> kind ob \<in> {DbObject, BackupEngineObject}
         | Some d \<Rightarrow> kind ob \<notin> {DbObject, BackupEngineObject} \<and> is_live_db h d) \<and>
        (kind ob = DbObject \<longrightarrow> (\<forall>k. \<forall>c \<in> set (child_list k ob). is_child h k a c))) \<and>
     (m_CloseRequested ob = 3 \<longrightarrow> count H a = 0 \<and> \<not> m_Native ob)"

definition heap_ok :: "ref_heap \<Rightarrow> addr multiset \<Rightarrow> bool" where
  "heap_ok h H \<longleftrightarrow>
     \<not> fault h \<and>
     (\<forall>a ob. mem h a = Some ob \<longrightarrow> a < next_addr h \<and> obj_ok h H a ob) \<and>
     (\<forall>a \<in># H. mem h a \<noteq> None)"

lemma heap_okD:
  "heap_ok h H \<Longrightarrow> mem h a = Some ob \<Longrightarrow> obj_ok h H a ob"
  by (simp add: heap_ok_def)

lemma finite_live_children: "heap_ok h H \<Longrightarrow> finite (live_children h d)"
  by (rule finite_subset [of _ "{..< next_addr h}"]) (auto simp: live_children_def heap_ok_def)

lemma heap_ok_held:
  assumes "heap_ok h H" "a \<in># H"
  obtains ob where "mem h a = Some ob" "m_CloseRequested ob \<noteq> 3"
proof -
  obtain ob where ob: "mem h a = Some ob"
    using assms by (auto simp: heap_ok_def)
  with assms have "m_CloseRequested ob \<noteq> 3"
    by (metis count_greater_zero_iff heap_okD less_not_refl obj_ok_def)
  with ob that show ?thesis by blast
qed

section \<open>Updates that keep an object alive\<close>

lemma mem_put_obj [simp]: "mem (put_obj h a ob) = (mem h)(a := Some ob)"
  by (simp add: put_obj_def)

lemma put_obj_fields [simp]:
  "fault (put_obj h a ob) = fault h" "next_addr (put_obj h a ob) = next_addr h"
  "log (put_obj h a ob) = log h"
  by (simp_all add: put_obj_def)

lemma live_children_put:
  assumes "mem h a = Some ob" "m_DbPtr ob' = m_DbPtr ob"
    "m_CloseRequested ob' = 3 \<longleftrightarrow> m_CloseRequested ob = 3"
  shows "live_children (put_obj h a ob') d = live_children h d"
  using assms by (auto simp: live_children_def)

lemma is_child_put:
  assumes "mem h a = Some ob" "m_DbPtr ob' = m_DbPtr ob" "kind ob' = kind ob"
    "m_CloseRequested ob' = 3 \<longleftrightarrow> m_CloseRequested ob = 3"
  shows "is_child (put_obj h a ob') k d c = is_child h k d c"
  using assms by (auto simp: is_child_def)

lemma is_live_db_put:
  assumes "mem h a = Some ob" "kind ob' = kind ob"
    "m_CloseRequested ob' = 3 \<longleftrightarrow> m_CloseRequested ob = 3"
  shows "is_live_db (put_obj h a ob') d = is_live_db h d"
  using assms by (auto simp: is_live_db_def)

lemma obj_ok_cong:
  assumes "live_children h' a = live_children h a" "\<And>d. is_live_db h' d = is_live_db h d"
    "\<And>k c. is_child h' k a c = is_child h k a c" "count H' a = count H a"
  shows "obj_ok h' H' a ob = obj_ok h H a ob"
  using assms by (simp add: obj_ok_def split: option.split)

lemma heap_ok_put:
  assumes ok: "heap_ok h H" and ob: "mem h a = Some ob"
    and same: "m_DbPtr ob' = m_DbPtr ob" "kind ob' = kind ob"
      "m_CloseRequested ob' = 3 \<longleftrightarrow> m_CloseRequested ob = 3"
    and H': "\<And>b. b \<noteq> a \<Longrightarrow> count H' b = count H b"
    and ok': "obj_ok h H' a ob'"
  shows "heap_ok (put_obj h a ob') H'"
proof -
  let ?h = "put_obj h a ob'"
  have cong: "obj_ok ?h H'' b x = obj_ok h H'' b x" for b x H''
    by (rule obj_ok_cong)
      (simp_all add: live_children_put [OF ob same(1,3)] is_child_put [OF ob same]
        is_live_db_put [OF ob same(2,3)])
  have "obj_ok h H' b x = obj_ok h H b x" if "b \<noteq> a" for b x
    by (rule obj_ok_cong) (use H' that in auto)
  then show ?thesis
    using ok ob ok' H' unfolding heap_ok_def cong
    by (auto simp: in_diff_count count_greater_zero_iff [symmetric] simp del: count_greater_zero_iff)
qed

lemma heap_ok_RefInc:
  assumes "heap_ok h H" "mem h a = Some ob" "m_CloseRequested ob \<noteq> 3" "m_RefCount ob \<noteq> - 1"
  shows "heap_ok (RefInc h a) (add_mset a H)"
proof -
  have "unat (m_RefCount ob + 1) = unat (m_RefCount ob) + 1"
    using assms(4) by (metis Suc_eq_plus1 add.commute eq_neg_iff_add_eq_0 unatSuc)
  moreover from this have "m_RefCount ob + 1 \<noteq> 0"
    by (metis add_is_0 one_neq_zero unat_0)
  ultimately have "obj_ok h (add_mset a H) a (ob\<lparr>m_RefCount := m_RefCount ob + 1\<rparr>)"
    using heap_okD [OF assms(1,2)] assms(3) by (auto simp: obj_ok_def split: option.splits)
  then show ?thesis
    using assms by (auto simp: RefInc_def with_live_def with_obj_def intro!: heap_ok_put)
qed

text \<open>The compare-and-swap of a close request turns the creation reference into one the closer drops.\<close>

lemma heap_ok_request_close:
  assumes "heap_ok h H" "mem h a = Some ob" "m_CloseRequested ob = 0"
  shows "heap_ok (put_obj h a (ob\<lparr>m_CloseRequested := 1\<rparr>)) (add_mset a H)"
  using assms heap_okD [OF assms(1,2)]
  by (intro heap_ok_put [OF assms(1,2)]) (auto simp: obj_ok_def split: option.splits)

text \<open>A reference is dropped and others remain.\<close>

lemma heap_ok_drop_ref:
  assumes "heap_ok h (add_mset a H)" "mem h a = Some ob"
    and "\<not> (m_RefCount ob = 1 \<and> m_CloseRequested ob = 1)"
  shows "heap_ok (put_obj h a (ob\<lparr>m_RefCount := m_RefCount ob - 1\<rparr>)) H"
proof -
  have ok: "obj_ok h (add_mset a H) a ob"
    using assms(1,2) by (rule heap_okD)
  then have ne: "m_CloseRequested ob \<noteq> 3" and r: "m_RefCount ob \<noteq> 0"
    by (auto simp: obj_ok_def)
  have cnt: "unat (m_RefCount ob - 1) = unat (m_RefCount ob) - 1"
    using r by (simp add: unat_minus_one)
  have "m_RefCount ob - 1 \<noteq> 0"
  proof
    assume "m_RefCount ob - 1 = 0"
    then have "m_RefCount ob = 1" by simp
    with ok ne assms(3) show False
      by (auto simp: obj_ok_def split: if_splits)
  qed
  then have "obj_ok h H a (ob\<lparr>m_RefCount := m_RefCount ob - 1\<rparr>)"
    using ok ne cnt by (auto simp: obj_ok_def split: option.splits)
  then show ?thesis
    by (intro heap_ok_put [OF assms(1,2)]) auto
qed

section \<open>Destruction\<close>

definition dead :: "ref_object \<Rightarrow> ref_object" where
  "dead ob = ob\<lparr>m_RefCount := 0, m_CloseRequested := 3, m_Native := False\<rparr>"

lemma dead_simps [simp]:
  "kind (dead ob) = kind ob" "m_DbPtr (dead ob) = m_DbPtr ob" "m_CloseRequested (dead ob) = 3"
  "\<not> m_Native (dead ob)"
  by (simp_all add: dead_def)

text \<open>What the destructor of an object releases, in order.\<close>

fun slice_events :: "nat option \<Rightarrow> event list" where
  "slice_events None = []"
| "slice_events (Some s) = [DeleteSlice s]"

fun release_event :: "kind \<Rightarrow> addr option \<Rightarrow> addr \<Rightarrow> event" where
  "release_event DbObject p a = DeleteDb a"
| "release_event ColumnFamilyObject p a = DestroyColumnFamilyHandle (the p) a"
| "release_event SnapshotObject p a = ReleaseSnapshotCall (the p) a"
| "release_event ItrObject p a = DeleteIterator p a"
| "release_event TLogItrObject p a = DeleteTLogItr p a"
| "release_event BackupEngineObject p a = DeleteBackupEngine a"
| "release_event TransactionObject p a = DeleteTransaction p a"

definition dtor_events :: "ref_object \<Rightarrow> addr \<Rightarrow> event list" where
  "dtor_events ob a =
     (if kind ob = ItrObject then slice_events (upper_bound_slice ob) @ slice_events (lower_bound_slice ob)
      else []) @
     (if m_Native ob then [release_event (kind ob) (m_DbPtr ob) a] else [])"

definition destroy :: "ref_heap \<Rightarrow> addr \<Rightarrow> ref_object \<Rightarrow> ref_heap" where
  "destroy h a ob = h\<lparr>mem := (mem h)(a := Some (dead ob)), log := log h @ dtor_events ob a\<rparr>"

lemma destroy_fields [simp]:
  "mem (destroy h a ob) = (mem h)(a := Some (dead ob))" "fault (destroy h a ob) = fault h"
  "next_addr (destroy h a ob) = next_addr h" "log (destroy h a ob) = log h @ dtor_events ob a"
  by (simp_all add: destroy_def)

lemmas heap_simps =
  with_live_def with_obj_def put_obj_def emit_def clear_native_def remove_from_db_def through_db_def
  ErlRefObject_dtor_def ReferencePtr_dtor_def Let_def

text \<open>A normal form for nested record updates.\<close>

lemma update_order:
  "h\<lparr>log := l, mem := m\<rparr> = h\<lparr>mem := m, log := l\<rparr>"
  "ob\<lparr>m_Native := b, m_CloseRequested := c\<rparr> = ob\<lparr>m_CloseRequested := c, m_Native := b\<rparr>"
  by simp_all

lemma DbObject_RefDec_eq:
  assumes "mem h d = Some ob" "m_CloseRequested ob \<noteq> 3" "kind ob = DbObject"
  shows "DbObject_RefDec h d =
     (if m_RefCount ob = 1 \<and> m_CloseRequested ob = 1 then destroy h d ob
      else put_obj h d (ob\<lparr>m_RefCount := m_RefCount ob - 1\<rparr>))"
  using assms
  by (auto simp: DbObject_RefDec_def ErlRefObject_RefDec_def DbObject_dtor_def heap_simps
      destroy_def dtor_events_def dead_def update_order)

lemma RefDec_unowned:
  assumes "mem h a = Some ob" "m_CloseRequested ob \<noteq> 3" "kind ob \<in> {DbObject, BackupEngineObject}"
  shows "RefDec h a =
     (if m_RefCount ob = 1 \<and> m_CloseRequested ob = 1 then destroy h a ob
      else put_obj h a (ob\<lparr>m_RefCount := m_RefCount ob - 1\<rparr>))"
  using assms
  by (auto simp: RefDec_def ErlRefObject_RefDec_def virtual_dtor_def DbObject_dtor_def
      BackupEngineObject_dtor_def heap_simps destroy_def dtor_events_def dead_def update_order)

lemma RefDec_keep:
  assumes "mem h a = Some ob" "m_CloseRequested ob \<noteq> 3"
    "\<not> (m_RefCount ob = 1 \<and> m_CloseRequested ob = 1)"
  shows "RefDec h a = put_obj h a (ob\<lparr>m_RefCount := m_RefCount ob - 1\<rparr>)"
  using assms by (auto simp: RefDec_def ErlRefObject_RefDec_def heap_simps)

text \<open>
  The last reference to a child with a close request: the child leaves the list
  of its database and gives its RocksDB object back; then the reference it
  holds on the database is dropped.
\<close>

definition drop_child :: "kind \<Rightarrow> addr \<Rightarrow> ref_object \<Rightarrow> ref_object" where
  "drop_child k c db = set_child_list k (removeAll c (child_list k db)) db"

lemma drop_child_simps [simp]:
  "kind (drop_child k c db) = kind db" "m_RefCount (drop_child k c db) = m_RefCount db"
  "m_CloseRequested (drop_child k c db) = m_CloseRequested db"
  "m_Native (drop_child k c db) = m_Native db" "m_DbPtr (drop_child k c db) = m_DbPtr db"
  by (cases k; simp add: drop_child_def)+

lemma child_list_drop_child [simp]:
  "child_list k' (drop_child k c db) = (if k' = k then removeAll c (child_list k db) else child_list k' db)"
  by (cases "k = DbObject \<or> k = BackupEngineObject") (auto simp: drop_child_def simp del: set_child_list.simps)

text \<open>The body of a child destructor, before its member \<open>m_DbPtr\<close> is destroyed.\<close>

definition unlink :: "ref_heap \<Rightarrow> addr \<Rightarrow> ref_object \<Rightarrow> addr \<Rightarrow> ref_object \<Rightarrow> ref_heap" where
  "unlink h a ob d db =
     h\<lparr>mem := (mem h)(a := Some (ob\<lparr>m_Native := False\<rparr>), d := Some (drop_child (kind ob) a db)),
       log := log h @ dtor_events ob a\<rparr>"


lemma remove_eq:
  assumes "mem h d = Some db" "m_CloseRequested db \<noteq> 3"
  shows "RemoveReference h d c = put_obj h d (drop_child ItrObject c db)"
    "RemoveColumnFamilyReference h d c = put_obj h d (drop_child ColumnFamilyObject c db)"
    "RemoveSnapshotReference h d c = put_obj h d (drop_child SnapshotObject c db)"
    "RemoveTLogReference h d c = put_obj h d (drop_child TLogItrObject c db)"
    "RemoveTransactionReference h d c = put_obj h d (drop_child TransactionObject c db)"
  using assms
  by (simp_all add: RemoveReference_def RemoveColumnFamilyReference_def RemoveSnapshotReference_def
      RemoveTLogReference_def RemoveTransactionReference_def with_live_def with_obj_def drop_child_def)

lemma clear_native_eq: "mem h a = Some ob \<Longrightarrow> clear_native h a = put_obj h a (ob\<lparr>m_Native := False\<rparr>)"
  by (simp add: clear_native_def with_obj_def)

lemma through_db_eq:
  "mem h d = Some db \<Longrightarrow> m_CloseRequested db \<noteq> 3 \<Longrightarrow> m_Native db \<Longrightarrow> through_db h (Some d) e = emit (e d) h"
  by (simp add: through_db_def with_live_def with_obj_def)

lemma delete_slice_eq: "delete_slice s h = h\<lparr>log := log h @ slice_events s\<rparr>"
  by (cases s) (simp_all add: delete_slice_def emit_def)

lemma with_live_eq: "mem h a = Some ob \<Longrightarrow> m_CloseRequested ob \<noteq> 3 \<Longrightarrow> with_live h a f = f ob"
  by (simp add: with_live_def with_obj_def)

lemma unlink_mem [simp]:
  "mem (unlink h a ob d db) = (mem h)(a := Some (ob\<lparr>m_Native := False\<rparr>), d := Some (drop_child (kind ob) a db))"
  "fault (unlink h a ob d db) = fault h" "log (unlink h a ob d db) = log h @ dtor_events ob a"
  "next_addr (unlink h a ob d db) = next_addr h"
  by (simp_all add: unlink_def)

lemma dtor_unlinkI:
  assumes "mem X = mem (unlink h a ob d db)" "next_addr X = next_addr h"
    "log X = log h @ dtor_events ob a" "fault X = fault h"
  shows "ErlRefObject_dtor (DbObject_RefDec X d) a = ErlRefObject_dtor (DbObject_RefDec (unlink h a ob d db) d) a"
proof -
  have "X = unlink h a ob d db"
    using assms by simp
  then show ?thesis by simp
qed

lemma emit_fields [simp]:
  "log (emit e h) = log h @ [e]" "fault (emit e h) = fault h" "next_addr (emit e h) = next_addr h"
  by (simp_all add: emit_def)

lemma virtual_dtor_child:
  assumes ob: "mem h a = Some ob" "m_CloseRequested ob \<noteq> 3" "m_DbPtr ob = Some d"
    and k: "kind ob \<notin> {DbObject, BackupEngineObject}" "kind ob = ItrObject \<longrightarrow> m_Native ob"
    and db: "mem h d = Some db" "m_CloseRequested db \<noteq> 3" "m_Native db" and "a \<noteq> d"
  shows "virtual_dtor h a = ErlRefObject_dtor (DbObject_RefDec (unlink h a ob d db) d) a"
proof -
  have ne: "d \<noteq> a" using \<open>a \<noteq> d\<close> by simp
  have same: "ob\<lparr>m_Native := False\<rparr> = ob" if "\<not> m_Native ob"
    using that by simp
  note simps = virtual_dtor_def with_obj_def with_live_eq [OF ob(1,2)] Let_def remove_from_db_def
    ReferencePtr_dtor_def ob db ne \<open>a \<noteq> d\<close> remove_eq [of _ d db] through_db_eq [of _ d db]
    clear_native_eq [of _ a ob] clear_native_eq [of _ a "ob\<lparr>m_Native := False\<rparr>"] delete_slice_eq
  consider "kind ob = ColumnFamilyObject" | "kind ob = SnapshotObject" | "kind ob = ItrObject"
    | "kind ob = TLogItrObject" | "kind ob = TransactionObject"
    using k by (cases "kind ob") auto
  then show ?thesis
  proof cases
    case 1
    then show ?thesis
      by (cases "m_Native ob"; simp add: simps same ColumnFamilyObject_dtor_def)
        (rule dtor_unlinkI; auto simp: fun_eq_iff simps dtor_events_def same)+
  next
    case 2
    then show ?thesis
      by (cases "m_Native ob"; simp add: simps same SnapshotObject_dtor_def)
        (rule dtor_unlinkI; auto simp: fun_eq_iff simps dtor_events_def same)+
  next
    case 3
    then show ?thesis
      using k(2) by (simp add: simps same ItrObject_dtor_def)
        (rule dtor_unlinkI; auto simp: fun_eq_iff simps dtor_events_def same)+
  next
    case 4
    then show ?thesis
      by (cases "m_Native ob"; simp add: simps same TLogItrObject_dtor_def)
        (rule dtor_unlinkI; auto simp: fun_eq_iff simps dtor_events_def same)+
  next
    case 5
    then show ?thesis
      by (cases "m_Native ob"; simp add: simps same TransactionObject_dtor_def)
        (rule dtor_unlinkI; auto simp: fun_eq_iff simps dtor_events_def same)+
  qed
qed

lemma ErlRefObject_dtor_commute:
  assumes "mem h a = Some ob" "m_CloseRequested ob \<noteq> 3" "mem h d = Some db" "kind db = DbObject"
    "m_CloseRequested db \<noteq> 3" "a \<noteq> d"
  shows "ErlRefObject_dtor (DbObject_RefDec h d) a =
     DbObject_RefDec (put_obj h a (ob\<lparr>m_CloseRequested := 3\<rparr>)) d"
proof -
  have "DbObject_RefDec (put_obj h a (ob\<lparr>m_CloseRequested := 3\<rparr>)) d =
      (if m_RefCount db = 1 \<and> m_CloseRequested db = 1
       then destroy (put_obj h a (ob\<lparr>m_CloseRequested := 3\<rparr>)) d db
       else put_obj (put_obj h a (ob\<lparr>m_CloseRequested := 3\<rparr>)) d (db\<lparr>m_RefCount := m_RefCount db - 1\<rparr>))"
    by (rule DbObject_RefDec_eq) (use assms in auto)
  moreover have "fun_upd (fun_upd m d x) a y = fun_upd (fun_upd m a y) d x" for m :: "addr \<Rightarrow> ref_object option" and x y
    using assms(6) by (metis fun_upd_twist)
  ultimately show ?thesis
    using assms
    by (auto simp: DbObject_RefDec_eq ErlRefObject_dtor_def with_live_eq [of _ a ob] destroy_def put_obj_def)
qed

lemma RefDec_child:
  assumes ob: "mem h a = Some ob" "m_RefCount ob = 1" "m_CloseRequested ob = 1" "m_DbPtr ob = Some d"
    and k: "kind ob \<notin> {DbObject, BackupEngineObject}" "kind ob = ItrObject \<longrightarrow> m_Native ob"
    and db: "mem h d = Some db" "kind db = DbObject" "m_CloseRequested db \<noteq> 3" "m_Native db" and "a \<noteq> d"
  shows "RefDec h a = DbObject_RefDec (put_obj (destroy h a ob) d (drop_child (kind ob) a db)) d"
proof -
  let ?ob = "ob\<lparr>m_RefCount := 0, m_CloseRequested := 2\<rparr>"
  let ?h = "put_obj h a ?ob"
  have "RefDec h a = virtual_dtor ?h a"
    using ob by (simp add: RefDec_def ErlRefObject_RefDec_def with_live_eq)
  also have "\<dots> = ErlRefObject_dtor (DbObject_RefDec (unlink ?h a ?ob d db) d) a"
    by (rule virtual_dtor_child) (use assms in auto)
  also have "\<dots> = DbObject_RefDec (put_obj (unlink ?h a ?ob d db) a (?ob\<lparr>m_Native := False, m_CloseRequested := 3\<rparr>)) d"
    by (rule ErlRefObject_dtor_commute [of _ _ _ _ "drop_child (kind ob) a db"]) (use assms in auto)
  also have "put_obj (unlink ?h a ?ob d db) a (?ob\<lparr>m_Native := False, m_CloseRequested := 3\<rparr>) =
      put_obj (destroy h a ob) d (drop_child (kind ob) a db)"
    using \<open>a \<noteq> d\<close> by (auto simp: fun_eq_iff dead_def update_order dtor_events_def intro!: ref_heap.equality)
  finally show ?thesis .
qed

section \<open>Every method keeps the invariant\<close>

lemma live_childrenI:
  "mem h c = Some ob \<Longrightarrow> m_CloseRequested ob \<noteq> 3 \<Longrightarrow> m_DbPtr ob = Some d \<Longrightarrow> c \<in> live_children h d"
  by (auto simp: live_children_def)

lemma obj_ok_transfer:
  assumes "obj_ok h H b x"
    and "m_CloseRequested x \<noteq> 3 \<Longrightarrow>
           count H' b + card (live_children h' b) = count H b + card (live_children h b)"
    and "m_CloseRequested x = 3 \<Longrightarrow> count H' b = 0"
    and "\<And>d. m_CloseRequested x \<noteq> 3 \<Longrightarrow> m_DbPtr x = Some d \<Longrightarrow> is_live_db h d \<Longrightarrow> is_live_db h' d"
    and "\<And>k c. m_CloseRequested x \<noteq> 3 \<Longrightarrow> c \<in> set (child_list k x) \<Longrightarrow> is_child h k b c \<Longrightarrow> is_child h' k b c"
  shows "obj_ok h' H' b x"
proof (cases "m_CloseRequested x = 3")
  case True
  then show ?thesis
    using assms(1,3) by (simp add: obj_ok_def)
next
  case False
  then show ?thesis
    using assms(1) assms(2,4,5) [OF False] by (simp add: obj_ok_def split: option.splits)
qed

lemma heap_ok_destroy_unowned:
  assumes ok: "heap_ok h (add_mset a H)" and ob: "mem h a = Some ob" "m_RefCount ob = 1" "m_CloseRequested ob = 1"
    and k: "kind ob \<in> {DbObject, BackupEngineObject}"
  shows "heap_ok (destroy h a ob) H"
proof -
  let ?h = "destroy h a ob"
  have oba: "obj_ok h (add_mset a H) a ob"
    using ok ob(1) by (rule heap_okD)
  then have none: "count H a = 0" "live_children h a = {}" "m_DbPtr ob = None"
    using ob k finite_live_children [OF ok] by (auto simp: obj_ok_def split: option.splits)
  have lc: "live_children ?h b = live_children h b" for b
    using ob none by (auto simp: live_children_def)
  have ch: "is_child ?h k b c = is_child h k b c" for k b c
    using ob none by (auto simp: is_child_def)
  have db: "is_live_db ?h d" if "is_live_db h d" "d \<noteq> a" for d
    using that by (auto simp: is_live_db_def)
  have "obj_ok ?h H b x" if b: "mem h b = Some x" "b \<noteq> a" for b x
  proof -
    have okb: "obj_ok h (add_mset a H) b x"
      using ok b(1) by (rule heap_okD)
    have "m_DbPtr x \<noteq> Some a" if "m_CloseRequested x \<noteq> 3"
      using live_childrenI [OF b(1) that] none(2) by blast
    with okb b(2) db show ?thesis
      by (intro obj_ok_transfer [OF okb]) (auto simp: lc ch obj_ok_def)
  qed
  moreover have "obj_ok ?h H a (dead ob)"
    using none by (simp add: obj_ok_def)
  ultimately show ?thesis
    using ok ob by (auto simp: heap_ok_def)
qed

text \<open>
  A child dies: the reference it held on its database is handed to whoever runs
  the destructor.
\<close>

lemma destroy_child_views:
  assumes "mem h a = Some ob" "kind ob \<noteq> DbObject" "mem h d = Some db" "kind db = DbObject" "m_CloseRequested db \<noteq> 3"
  defines "h' \<equiv> put_obj (destroy h a ob) d (drop_child (kind ob) a db)"
  shows "live_children h' b = live_children h b - {a}" "is_child h' k b c \<longleftrightarrow> is_child h k b c \<and> c \<noteq> a"
    "is_live_db h' b = is_live_db h b"
  using assms by (auto simp: live_children_def is_child_def is_live_db_def)

lemma obj_ok_orphaned_db:
  assumes ok: "obj_ok h (add_mset a H) d db" "kind db = DbObject" "m_CloseRequested db \<noteq> 3" "a \<noteq> d"
    and ob: "mem h a = Some ob" "a \<in> live_children h d" "finite (live_children h d)"
    and views: "\<And>b. live_children h' b = live_children h b - {a}" "\<And>k b c. is_child h' k b c \<longleftrightarrow> is_child h k b c \<and> c \<noteq> a"
      "\<And>b. is_live_db h' b = is_live_db h b"
  shows "obj_ok h' (add_mset d H) d (drop_child (kind ob) a db)"
proof -
  have card: "card (live_children h d) = Suc (card (live_children h d - {a}))"
    by (rule card.remove [OF ob(3,2)])
  have "is_child h' k d c" if "c \<in> set (child_list k (drop_child (kind ob) a db))" for k c
  proof -
    have c: "c \<in> set (child_list k db)" "k = kind ob \<longrightarrow> c \<noteq> a"
      using that by (auto split: if_splits)
    then have "is_child h k d c"
      using ok(1-3) by (simp add: obj_ok_def)
    moreover from this c(2) ob(1) have "c \<noteq> a"
      by (auto simp: is_child_def)
    ultimately show ?thesis
      by (simp add: views(2))
  qed
  then show ?thesis
    using ok card by (simp add: obj_ok_def views(1,3) split: option.splits)
qed

lemma heap_ok_destroy_child:
  assumes ok: "heap_ok h (add_mset a H)" and ob: "mem h a = Some ob" "m_RefCount ob = 1" "m_CloseRequested ob = 1"
      "m_DbPtr ob = Some d"
    and db: "mem h d = Some db"
  shows "heap_ok (put_obj (destroy h a ob) d (drop_child (kind ob) a db)) (add_mset d H)"
proof -
  let ?h = "put_obj (destroy h a ob) d (drop_child (kind ob) a db)"
  have "obj_ok h (add_mset a H) a ob"
    using ok ob(1) by (rule heap_okD)
  then have a: "count H a = 0" "live_children h a = {}" and live: "is_live_db h d"
      and kob: "kind ob \<notin> {DbObject, BackupEngineObject}"
    using ob finite_live_children [OF ok] by (auto simp: obj_ok_def split: option.splits)
  have kdb: "kind db = DbObject" "m_CloseRequested db \<noteq> 3"
    using live db by (auto simp: is_live_db_def)
  have ne: "a \<noteq> d"
    using kob kdb db ob by auto
  note views = destroy_child_views [OF ob(1) _ db kdb]
  have "obj_ok ?h (add_mset d H) b x" if b: "mem h b = Some x" "b \<noteq> a" "b \<noteq> d" for b x
  proof (rule obj_ok_transfer [OF heap_okD [OF ok b(1)]])
    have kids: "c \<noteq> a" if "is_child h k b c" for k c
      using that b ob by (auto simp: is_child_def)
    have "live_children ?h b = live_children h b"
      using views(1) [of b] kob b ob by (auto simp: live_children_def)
    then show "count (add_mset d H) b + card (live_children ?h b) = count (add_mset a H) b + card (live_children h b)"
      using b by simp
    show "m_CloseRequested x = 3 \<Longrightarrow> count (add_mset d H) b = 0"
      using heap_okD [OF ok b(1)] b by (simp add: obj_ok_def)
    show "is_child ?h k b c" if "is_child h k b c" for k c
      using that kids views(2) kob by simp
  qed (use kob views(3) in simp_all)
  moreover have "obj_ok ?h (add_mset d H) d (drop_child (kind ob) a db)"
    by (rule obj_ok_orphaned_db [OF heap_okD [OF ok db] kdb ne ob(1)])
      (use kob views ob finite_live_children [OF ok] in \<open>auto intro: live_childrenI\<close>)
  moreover have "obj_ok ?h (add_mset d H) a (dead ob)"
    using a ne by (simp add: obj_ok_def)
  ultimately have "obj_ok ?h (add_mset d H) b x" if "mem ?h b = Some x" for b x
    using that by (cases "b = d"; cases "b = a") simp_all
  moreover have "b < next_addr h" if "mem ?h b = Some x" for b x
    using that ok ob(1) db by (auto simp: heap_ok_def split: if_splits)
  moreover have "\<not> fault h" "\<forall>b \<in># add_mset d H. mem ?h b \<noteq> None"
    using ok by (auto simp: heap_ok_def)
  ultimately show ?thesis
    unfolding heap_ok_def by simp
qed

text \<open>The two shapes of the effect of dropping a reference, for reasoning about what stays.\<close>

lemma RefDec_cases:
  assumes ok: "heap_ok h (add_mset a H)"
  obtains (keep) ob where "mem h a = Some ob" "m_CloseRequested ob \<noteq> 3"
      "\<not> (m_RefCount ob = 1 \<and> m_CloseRequested ob = 1)"
      "RefDec h a = put_obj h a (ob\<lparr>m_RefCount := m_RefCount ob - 1\<rparr>)"
    | (unowned) ob where "mem h a = Some ob" "m_RefCount ob = 1" "m_CloseRequested ob = 1"
      "m_DbPtr ob = None" "m_Native ob" "kind ob \<in> {DbObject, BackupEngineObject}"
      "RefDec h a = destroy h a ob"
    | (child) ob d db h' where "mem h a = Some ob" "m_RefCount ob = 1" "m_CloseRequested ob = 1"
      "m_DbPtr ob = Some d" "mem h d = Some db" "kind db = DbObject" "m_CloseRequested db \<noteq> 3"
      "m_Native db" "m_DbPtr db = None" "a \<noteq> d" "kind ob \<notin> {DbObject, BackupEngineObject}"
      "kind ob \<noteq> ColumnFamilyObject \<longrightarrow> m_Native ob"
      "h' = put_obj (destroy h a ob) d (drop_child (kind ob) a db)"
      "RefDec h a = (if m_RefCount db = 1 \<and> m_CloseRequested db = 1
         then destroy h' d (drop_child (kind ob) a db)
         else put_obj h' d ((drop_child (kind ob) a db)\<lparr>m_RefCount := m_RefCount db - 1\<rparr>))"
proof -
  obtain ob where ob: "mem h a = Some ob" "m_CloseRequested ob \<noteq> 3"
    by (rule heap_ok_held [OF ok]) auto
  have oba: "obj_ok h (add_mset a H) a ob"
    using ok ob(1) by (rule heap_okD)
  show ?thesis
  proof (cases "m_RefCount ob = 1 \<and> m_CloseRequested ob = 1")
    case False
    then show ?thesis
      using ob RefDec_keep [OF ob] by (intro keep [of ob]) auto
  next
    case last: True
    show ?thesis
    proof (cases "m_DbPtr ob")
      case None
      then have "kind ob \<in> {DbObject, BackupEngineObject}" "m_Native ob"
        using oba ob by (auto simp: obj_ok_def)
      then show ?thesis
        using RefDec_unowned [OF ob] last None ob by (intro unowned [of ob]) auto
    next
      case (Some d)
      then have k: "kind ob \<notin> {DbObject, BackupEngineObject}" "kind ob \<noteq> ColumnFamilyObject \<longrightarrow> m_Native ob"
          and "is_live_db h d"
        using oba ob by (auto simp: obj_ok_def)
      then obtain db where db: "mem h d = Some db" "kind db = DbObject" "m_CloseRequested db \<noteq> 3"
        by (auto simp: is_live_db_def)
      then have okd: "m_Native db" "m_DbPtr db = None"
        using heap_okD [OF ok db(1)] by (auto simp: obj_ok_def split: option.splits)
      have ne: "a \<noteq> d"
        using k db ob by auto
      have "RefDec h a = DbObject_RefDec (put_obj (destroy h a ob) d (drop_child (kind ob) a db)) d"
        using RefDec_child [OF ob(1) _ _ Some k(1) _ db okd(1) ne] last k(2) by simp
      then show ?thesis
        using ob last Some db okd ne k
        by (intro child [of ob d db]) (auto simp: DbObject_RefDec_eq [of _ _ "drop_child (kind ob) a db"])
    qed
  qed
qed

lemma heap_ok_RefDec:
  assumes ok: "heap_ok h (add_mset a H)"
  shows "heap_ok (RefDec h a) H"
  using ok
proof (cases rule: RefDec_cases)
  case (keep ob)
  then show ?thesis
    using heap_ok_drop_ref [OF ok] by simp
next
  case (unowned ob)
  then show ?thesis
    using heap_ok_destroy_unowned [OF ok] by simp
next
  case (child ob d db h')
  let ?db = "drop_child (kind ob) a db"
  have "heap_ok h' (add_mset d H)" "mem h' d = Some ?db"
    using child heap_ok_destroy_child [OF ok child(1-5)] by simp_all
  then show ?thesis
    using child heap_ok_destroy_unowned [of h' d H ?db] heap_ok_drop_ref [of h' d H ?db] by simp
qed

text \<open>What no method changes: classes, owners and allocation; a close request and the log are never undone.\<close>

definition obj_persists :: "ref_object \<Rightarrow> ref_object \<Rightarrow> bool" where
  "obj_persists ob ob' \<longleftrightarrow>
     kind ob' = kind ob \<and> m_DbPtr ob' = m_DbPtr ob \<and>
     (m_CloseRequested ob = 3 \<longrightarrow> m_CloseRequested ob' = 3) \<and>
     (m_CloseRequested ob \<noteq> 0 \<longrightarrow> m_CloseRequested ob' \<noteq> 0) \<and>
     (m_Native ob' \<longrightarrow> m_Native ob)"

definition persists :: "ref_heap \<Rightarrow> ref_heap \<Rightarrow> bool" where
  "persists h h' \<longleftrightarrow>
     next_addr h' = next_addr h \<and> (\<exists>l. log h' = log h @ l) \<and>
     (\<forall>a. rel_option obj_persists (mem h a) (mem h' a))"

lemma obj_persists_refl [simp]: "obj_persists ob ob"
  by (simp add: obj_persists_def)

lemma rel_option_trans:
  "(\<And>x y z. R x y \<Longrightarrow> R y z \<Longrightarrow> R x z) \<Longrightarrow> rel_option R a b \<Longrightarrow> rel_option R b c \<Longrightarrow> rel_option R a c"
  by (cases a; cases b; cases c) auto

lemma persists_refl [simp]: "persists h h"
  by (simp add: persists_def option.rel_refl)

lemma persists_trans:
  assumes "persists h1 h2" "persists h2 h3"
  shows "persists h1 h3"
proof -
  have "rel_option obj_persists (mem h1 a) (mem h3 a)" for a
    by (rule rel_option_trans [where b = "mem h2 a"])
      (use assms in \<open>auto simp: persists_def obj_persists_def\<close>)
  with assms show ?thesis
    by (auto simp: persists_def)
qed

lemma persistsE:
  assumes "persists h h'" "mem h a = Some ob"
  obtains ob' where "mem h' a = Some ob'" "obj_persists ob ob'"
proof -
  have "rel_option obj_persists (mem h a) (mem h' a)"
    using assms(1) by (simp add: persists_def)
  then show ?thesis
    using assms(2) that by (auto simp: option_rel_Some1)
qed

lemma persists_backE:
  assumes "persists h h'" "mem h' a = Some ob'"
  obtains ob where "mem h a = Some ob" "obj_persists ob ob'"
proof -
  have "rel_option obj_persists (mem h a) (mem h' a)"
    using assms(1) by (simp add: persists_def)
  then show ?thesis
    using assms(2) that by (auto simp: option_rel_Some2)
qed

lemma persists_put: "mem h a = Some ob \<Longrightarrow> obj_persists ob ob' \<Longrightarrow> persists h (put_obj h a ob')"
  by (auto simp: persists_def option.rel_refl)

lemma persists_destroy: "mem h a = Some ob \<Longrightarrow> persists h (destroy h a ob)"
  by (auto simp: persists_def option.rel_refl obj_persists_def)

lemma persists_RefDec:
  assumes "heap_ok h (add_mset a H)"
  shows "persists h (RefDec h a)"
  using assms
proof (cases rule: RefDec_cases)
  case (keep ob)
  then show ?thesis by (simp add: persists_put obj_persists_def)
next
  case (unowned ob)
  then show ?thesis by (simp add: persists_destroy)
next
  case (child ob d db h')
  have "persists h (destroy h a ob)"
    using child by (intro persists_destroy)
  moreover have "persists (destroy h a ob) h'"
    using child by (auto intro!: persists_put simp: obj_persists_def)
  moreover have "persists h' (RefDec h a)"
    using child by (auto intro!: persists_put persists_destroy simp: obj_persists_def)
  ultimately show ?thesis
    using persists_trans by blast
qed

lemma persists_is_live_db:
  assumes "persists h h'" "is_live_db h d" "heap_ok h' H" "d \<in># H"
  shows "is_live_db h' d"
proof -
  obtain ob where ob: "mem h d = Some ob" "kind ob = DbObject"
    using assms(2) by (auto simp: is_live_db_def)
  obtain ob' where ob': "mem h' d = Some ob'" "obj_persists ob ob'"
    using persistsE [OF assms(1) ob(1)] .
  obtain x where "mem h' d = Some x" "m_CloseRequested x \<noteq> 3"
    using heap_ok_held [OF assms(3,4)] .
  with ob ob' show ?thesis
    by (auto simp: is_live_db_def obj_persists_def)
qed

section \<open>The close protocol\<close>

text \<open>
  An assertion about the heap and the outstanding references that the three
  primitive moves of closing keep: the compare-and-swap of a close request,
  dropping a reference, and taking a child out of a list. It then survives
  \<open>InitiateCloseRequest\<close>, whatever cascade of destructors this starts.
\<close>

locale close_protocol =
  fixes I :: "ref_heap \<Rightarrow> addr multiset \<Rightarrow> bool"
  assumes I_ok: "I h H \<Longrightarrow> heap_ok h H"
    and I_request: "I h H \<Longrightarrow> mem h a = Some ob \<Longrightarrow> m_CloseRequested ob = 0 \<Longrightarrow>
      I (put_obj h a (ob\<lparr>m_CloseRequested := 1\<rparr>)) (add_mset a H)"
    and I_dec: "I h (add_mset a H) \<Longrightarrow> I (RefDec h a) H"
    and I_pop: "I h H \<Longrightarrow> mem h d = Some db \<Longrightarrow> kind db = DbObject \<Longrightarrow> m_CloseRequested db = 1 \<Longrightarrow>
      child_list k db = c # cs \<Longrightarrow> I (put_obj h d (set_child_list k cs db)) H"
begin

lemma child_close:
  assumes "I h H" "mem h c = Some ob" "kind ob = k" "k \<noteq> DbObject"
  shows "I (child_InitiateCloseRequest k h c) H \<and> persists h (child_InitiateCloseRequest k h c)"
proof (cases "m_CloseRequested ob = 0")
  case True
  let ?h = "put_obj h c (ob\<lparr>m_CloseRequested := 1\<rparr>)"
  have I: "I ?h (add_mset c H)"
    using assms(1,2) True by (rule I_request)
  have "persists h ?h"
    using assms(2) True by (intro persists_put) (auto simp: obj_persists_def)
  then have "persists h (RefDec ?h c)"
    using persists_RefDec [OF I_ok [OF I]] persists_trans by blast
  with I_dec [OF I] show ?thesis
    using assms True by (simp add: child_InitiateCloseRequest_def ErlRefObject_InitiateCloseRequest_def)
next
  case False
  then show ?thesis
    using assms by (simp add: child_InitiateCloseRequest_def ErlRefObject_InitiateCloseRequest_def)
qed

lemma shutdown_children_keeps:
  assumes "I h H" "d \<in># H" "is_live_db h d" "\<And>db. mem h d = Some db \<Longrightarrow> m_CloseRequested db \<noteq> 0"
  shows "I (shutdown_children k h d) H \<and> persists h (shutdown_children k h d)"
  using assms
proof (induction k h d rule: shutdown_children.induct)
  case (1 k h d)
  obtain db where db: "mem h d = Some db" "kind db = DbObject" "m_CloseRequested db \<noteq> 3"
    using "1.prems"(3) by (auto simp: is_live_db_def)
  have one: "m_CloseRequested db = 1"
    using heap_okD [OF I_ok [OF "1.prems"(1)] db(1)] db "1.prems"(4) by (auto simp: obj_ok_def)
  show ?case
  proof (cases "child_list k db")
    case Nil
    then show ?thesis
      using db "1.prems" by (simp add: shutdown_children.simps [of k h d])
  next
    case (Cons c cs)
    let ?h = "put_obj h d (set_child_list k cs db)"
    let ?h' = "child_InitiateCloseRequest k ?h c"
    have "is_child h k d c"
      using heap_okD [OF I_ok [OF "1.prems"(1)] db(1)] db Cons by (simp add: obj_ok_def)
    then obtain ob where ob: "mem h c = Some ob" "kind ob = k" "m_DbPtr ob = Some d" "m_CloseRequested ob \<noteq> 3"
      by (auto simp: is_child_def)
    have k: "k \<noteq> DbObject"
      using Cons by auto
    have same: "kind (set_child_list k cs db) = kind db" "m_DbPtr (set_child_list k cs db) = m_DbPtr db"
      "m_CloseRequested (set_child_list k cs db) = m_CloseRequested db"
      "m_Native (set_child_list k cs db) = m_Native db"
      by (cases k; simp)+
    have I: "I ?h H"
      using "1.prems"(1) db(1,2) one Cons by (rule I_pop)
    have p: "persists h ?h"
      using db by (intro persists_put) (auto simp: obj_persists_def same)
    have c: "mem ?h c = Some ob"
      using ob db k by auto
    have step: "I ?h' H" "persists ?h ?h'"
      using child_close [OF I c ob(2) k] by auto
    then have p': "persists h ?h'"
      using p persists_trans by blast
    have "is_live_db ?h' d"
      using persists_is_live_db [OF p' "1.prems"(3) I_ok [OF step(1)] "1.prems"(2)] .
    moreover have "m_CloseRequested x \<noteq> 0" if "mem ?h' d = Some x" for x
      by (rule persistsE [OF p' db(1)]) (use one that in \<open>auto simp: obj_persists_def\<close>)
    ultimately have "I (shutdown_children k ?h' d) H \<and> persists ?h' (shutdown_children k ?h' d)"
      using "1.IH" [OF db(1) Cons] step(1) "1.prems"(2) by blast
    with p' show ?thesis
      using db(1) Cons persists_trans by (auto simp: shutdown_children.simps [of k h d])
  qed
qed

lemma DbObject_Shutdown_keeps:
  assumes "I h (add_mset d H)" "is_live_db h d" "\<And>db. mem h d = Some db \<Longrightarrow> m_CloseRequested db \<noteq> 0"
  shows "I (DbObject_Shutdown h d) H \<and> persists h (DbObject_Shutdown h d)"
proof -
  define P where "P x \<longleftrightarrow> I x (add_mset d H) \<and> persists h x" for x
  have step: "P (shutdown_children k x d)" if "P x" for x k
  proof -
    have x: "I x (add_mset d H)" "persists h x"
      using that by (auto simp: P_def)
    have "is_live_db x d"
      by (rule persists_is_live_db [OF x(2) assms(2) I_ok [OF x(1)]]) simp
    moreover have "m_CloseRequested db \<noteq> 0" if "mem x d = Some db" for db
      by (rule persists_backE [OF x(2) that]) (use assms(3) in \<open>auto simp: obj_persists_def\<close>)
    ultimately show ?thesis
      using shutdown_children_keeps [OF x(1)] x(2) persists_trans unfolding P_def by auto
  qed
  define h5 where "h5 =
    shutdown_children TransactionObject (shutdown_children TLogItrObject (shutdown_children SnapshotObject
      (shutdown_children ColumnFamilyObject (shutdown_children ItrObject h d) d) d) d) d"
  have "P h5"
    unfolding h5_def by (intro step) (simp add: P_def assms(1))
  then have "I (RefDec h5 d) H" "persists h (RefDec h5 d)"
    using I_dec persists_RefDec I_ok persists_trans unfolding P_def by blast+
  then show ?thesis
    by (simp add: DbObject_Shutdown_def Let_def h5_def)
qed

lemma initiate_keeps:
  assumes "I h H" "mem h a = Some ob"
  shows "I (snd (InitiateCloseRequest h (Some a))) H \<and> persists h (snd (InitiateCloseRequest h (Some a)))"
proof (cases "m_CloseRequested ob = 0")
  case True
  let ?ob = "ob\<lparr>m_CloseRequested := 1\<rparr>"
  let ?h = "put_obj h a ?ob"
  have I: "I ?h (add_mset a H)"
    using assms True by (rule I_request)
  have p: "persists h ?h"
    using assms(2) True by (intro persists_put) (auto simp: obj_persists_def)
  have sh: "snd (InitiateCloseRequest h (Some a)) =
      (if kind ob = DbObject then DbObject_Shutdown ?h a else RefDec ?h a)"
    using assms(2) True
    by (simp add: InitiateCloseRequest_def ErlRefObject_InitiateCloseRequest_def Shutdown_def
        with_live_eq [of _ _ ?ob])
  show ?thesis
  proof (cases "kind ob = DbObject")
    case True
    then have "is_live_db ?h a"
      by (simp add: is_live_db_def)
    then have "I (DbObject_Shutdown ?h a) H \<and> persists ?h (DbObject_Shutdown ?h a)"
      by (intro DbObject_Shutdown_keeps [OF I]) auto
    then show ?thesis
      using True p persists_trans by (auto simp: sh)
  next
    case False
    then show ?thesis
      using I_dec [OF I] persists_RefDec [OF I_ok [OF I]] p persists_trans by (auto simp: sh)
  qed
next
  case False
  then show ?thesis
    using assms by (simp add: InitiateCloseRequest_def ErlRefObject_InitiateCloseRequest_def)
qed

end

lemma heap_ok_pop:
  assumes "heap_ok h H" "mem h d = Some db" "kind db = DbObject" "m_CloseRequested db = 1"
    "child_list k db = c # cs"
  shows "heap_ok (put_obj h d (set_child_list k cs db)) H"
proof -
  have same: "kind (set_child_list k cs db) = kind db" "m_DbPtr (set_child_list k cs db) = m_DbPtr db"
    "m_CloseRequested (set_child_list k cs db) = m_CloseRequested db"
    "m_Native (set_child_list k cs db) = m_Native db"
    "m_RefCount (set_child_list k cs db) = m_RefCount db"
    by (cases k; simp)+
  have "is_child h k' d x" if "x \<in> set (child_list k' (set_child_list k cs db))" for k' x
    using that assms(3-5) heap_okD [OF assms(1,2)] by (auto simp: obj_ok_def split: if_splits)
  then have "obj_ok h H d (set_child_list k cs db)"
    using heap_okD [OF assms(1,2)] assms(4) by (simp add: obj_ok_def same split: option.splits del: child_list_set)
  then show ?thesis
    using assms by (intro heap_ok_put [OF assms(1,2)]) (auto simp: same)
qed

interpretation counts: close_protocol heap_ok
  by unfold_locales (auto intro: heap_ok_request_close heap_ok_RefDec heap_ok_pop)

section \<open>Release of RocksDB objects\<close>

text \<open>The object whose RocksDB pointer an event gives back, and the database it belongs to.\<close>

fun ev_obj :: "event \<Rightarrow> addr option" where
  "ev_obj (DeleteDb a) = Some a"
| "ev_obj (DestroyColumnFamilyHandle d a) = Some a"
| "ev_obj (ReleaseSnapshotCall d a) = Some a"
| "ev_obj (DeleteIterator p a) = Some a"
| "ev_obj (DeleteTLogItr p a) = Some a"
| "ev_obj (DeleteTransaction p a) = Some a"
| "ev_obj (DeleteBackupEngine a) = Some a"
| "ev_obj (DeleteSlice s) = None"

fun ev_db :: "event \<Rightarrow> addr option" where
  "ev_db (DestroyColumnFamilyHandle d a) = Some d"
| "ev_db (ReleaseSnapshotCall d a) = Some d"
| "ev_db (DeleteIterator p a) = p"
| "ev_db (DeleteTLogItr p a) = p"
| "ev_db (DeleteTransaction p a) = p"
| "ev_db _ = None"

definition releases :: "ref_heap \<Rightarrow> addr \<Rightarrow> nat" where
  "releases h a = length (filter (\<lambda>e. ev_obj e = Some a) (log h))"

text \<open>No event of a database's child comes after \<open>delete m_Db\<close>.\<close>

definition db_deleted_last :: "event list \<Rightarrow> bool" where
  "db_deleted_last l \<longleftrightarrow>
     (\<forall>i < length l. \<forall>d. ev_db (l ! i) = Some d \<longrightarrow> DeleteDb d \<notin> set (take i l))"

definition log_ok :: "ref_heap \<Rightarrow> bool" where
  "log_ok h \<longleftrightarrow>
     (\<forall>a. releases h a =
        (case mem h a of
           None \<Rightarrow> if a < next_addr h then 1 else 0
         | Some ob \<Rightarrow> if m_Native ob then 0 else 1)) \<and>
     db_deleted_last (log h)"

lemma db_deleted_last_snoc:
  "db_deleted_last (l @ [e]) \<longleftrightarrow>
     db_deleted_last l \<and> (\<forall>d. ev_db e = Some d \<longrightarrow> DeleteDb d \<notin> set l)"
  by (auto simp: db_deleted_last_def nth_append less_Suc_eq)

lemma slice_events_snoc:
  "db_deleted_last (l @ slice_events s) = db_deleted_last l"
  "filter (\<lambda>e. ev_obj e = Some a) (slice_events s) = []"
  "DeleteDb d \<notin> set (slice_events s)"
  by (cases s; simp add: db_deleted_last_snoc)+

lemma log_ok_put:
  "log_ok h \<Longrightarrow> mem h a = Some ob \<Longrightarrow> m_Native ob' = m_Native ob \<Longrightarrow> log_ok (put_obj h a ob')"
  by (auto simp: log_ok_def releases_def)

lemma ev_obj_release [simp]: "ev_obj (release_event k p a) = Some a"
  by (cases k) auto

lemma native_not_deleted:
  "log_ok h \<Longrightarrow> mem h d = Some db \<Longrightarrow> m_Native db \<Longrightarrow> DeleteDb d \<notin> set (log h)"
  by (fastforce simp: log_ok_def releases_def filter_empty_conv dest!: spec [of _ d])

lemma log_ok_destroy:
  assumes "log_ok h" "mem h a = Some ob" "kind ob \<notin> {DbObject, BackupEngineObject} \<longrightarrow> m_DbPtr ob \<noteq> None"
    and "\<And>d. m_DbPtr ob = Some d \<Longrightarrow> DeleteDb d \<notin> set (log h)"
  shows "log_ok (destroy h a ob)"
proof -
  have "ev_db (release_event (kind ob) (m_DbPtr ob) a) = Some d \<Longrightarrow> m_DbPtr ob = Some d" for d
    using assms(3) by (cases "kind ob") auto
  then have "db_deleted_last (log h @ dtor_events ob a)"
    using assms(1,4)
    by (auto simp: dtor_events_def log_ok_def db_deleted_last_snoc slice_events_snoc simp flip: append_assoc)
  moreover have "releases (destroy h a ob) b = (if b = a then 1 else releases h b)" for b
    using assms(1,2) by (auto simp: releases_def dtor_events_def slice_events_snoc log_ok_def dest: spec [of _ a])
  ultimately show ?thesis
    using assms(1) by (simp add: log_ok_def)
qed

lemma log_ok_RefDec:
  assumes ok: "heap_ok h (add_mset a H)" and log: "log_ok h"
  shows "log_ok (RefDec h a)"
  using ok
proof (cases rule: RefDec_cases)
  case (keep ob)
  then show ?thesis
    using log by (simp add: log_ok_put)
next
  case (unowned ob)
  then show ?thesis
    using log by (auto intro: log_ok_destroy)
next
  case (child ob d db h')
  let ?db = "drop_child (kind ob) a db"
  have "log_ok (destroy h a ob)"
    using child native_not_deleted [OF log child(5,8)] by (intro log_ok_destroy [OF log]) auto
  then have "log_ok h'"
    using child by (auto intro: log_ok_put)
  moreover have "mem h' d = Some ?db"
    using child by simp
  ultimately show ?thesis
    using child by (auto intro: log_ok_put log_ok_destroy)
qed

section \<open>Child lists are complete\<close>

text \<open>Every live child of a database, up to those in \<open>X\<close>, is in the list of its class.\<close>

definition covered :: "ref_heap \<Rightarrow> addr \<Rightarrow> kind \<Rightarrow> addr set \<Rightarrow> bool" where
  "covered h d k X \<longleftrightarrow>
     (\<forall>db c. mem h d = Some db \<longrightarrow> is_child h k d c \<longrightarrow> c \<in> set (child_list k db) \<union> X)"

definition lists_complete :: "ref_heap \<Rightarrow> bool" where
  "lists_complete h \<longleftrightarrow>
     (\<forall>d db k. mem h d = Some db \<longrightarrow> kind db = DbObject \<longrightarrow> m_CloseRequested db = 0 \<longrightarrow> covered h d k {})"

lemma covered_put:
  assumes "mem h a = Some ob" "m_DbPtr ob' = m_DbPtr ob" "kind ob' = kind ob"
    "m_CloseRequested ob' = 3 \<longleftrightarrow> m_CloseRequested ob = 3"
    "a = d \<Longrightarrow> child_list k ob' = child_list k ob"
  shows "covered (put_obj h a ob') d k X = covered h d k X"
  using assms unfolding covered_def is_child_put [OF assms(1-4)] by auto

lemma covered_destroy:
  "mem h a = Some ob \<Longrightarrow> covered h d k X \<Longrightarrow> covered (destroy h a ob) d k X"
  by (auto simp: covered_def is_child_def dead_def split: if_splits)

lemma covered_drop_child:
  assumes "mem h e = Some db" "\<And>k. \<not> is_child h k e a" "covered h d k X"
  shows "covered (put_obj h e (drop_child k' a db)) d k X"
proof -
  have "is_child (put_obj h e (drop_child k' a db)) k d c = is_child h k d c" for c
    by (rule is_child_put [OF assms(1)]) simp_all
  then show ?thesis
    using assms by (auto simp: covered_def)
qed

lemma covered_RefDec:
  assumes "heap_ok h (add_mset a H)" "covered h d k X"
  shows "covered (RefDec h a) d k X"
  using assms(1)
proof (cases rule: RefDec_cases)
  case (keep ob)
  then show ?thesis
    using assms(2) by (simp add: covered_put)
next
  case (unowned ob)
  then show ?thesis
    using assms(2) by (simp add: covered_destroy)
next
  case (child ob e db h')
  let ?db = "drop_child (kind ob) a db"
  have "covered h' d k X"
    unfolding child(13)
    by (rule covered_drop_child) (use child assms(2) in \<open>auto simp: covered_destroy is_child_def\<close>)
  moreover have "mem h' e = Some ?db"
    using child by simp
  ultimately show ?thesis
    using child by (simp add: covered_destroy covered_put)
qed

lemma lists_complete_RefDec:
  assumes "heap_ok h (add_mset a H)" "lists_complete h"
  shows "lists_complete (RefDec h a)"
  unfolding lists_complete_def
proof (intro allI impI)
  fix d db k
  assume db: "mem (RefDec h a) d = Some db" "kind db = DbObject" "m_CloseRequested db = 0"
  obtain db0 where "mem h d = Some db0" "obj_persists db0 db"
    using persists_backE [OF persists_RefDec [OF assms(1)] db(1)] .
  with db assms(2) have "covered h d k {}"
    by (auto simp: lists_complete_def obj_persists_def)
  with assms(1) show "covered (RefDec h a) d k {}"
    by (rule covered_RefDec)
qed

lemma lists_complete_put:
  assumes "lists_complete h" "mem h a = Some ob" "m_DbPtr ob' = m_DbPtr ob" "kind ob' = kind ob"
    "m_CloseRequested ob' = 3 \<longleftrightarrow> m_CloseRequested ob = 3"
    "m_CloseRequested ob' = 0 \<Longrightarrow> m_CloseRequested ob = 0 \<and> (\<forall>k. child_list k ob' = child_list k ob)"
  shows "lists_complete (put_obj h a ob')"
  unfolding lists_complete_def
proof (intro allI impI)
  fix d db k
  assume "mem (put_obj h a ob') d = Some db" "kind db = DbObject" "m_CloseRequested db = 0"
  then show "covered (put_obj h a ob') d k {}"
    using assms by (subst covered_put [OF assms(2-5)]) (auto simp: lists_complete_def split: if_splits)
qed

section \<open>The full invariant\<close>

definition managed :: "ref_heap \<Rightarrow> addr multiset \<Rightarrow> bool" where
  "managed h H \<longleftrightarrow> heap_ok h H \<and> log_ok h \<and> lists_complete h"

lemma set_child_list_simps [simp]:
  "m_Native (set_child_list k xs ob) = m_Native ob" "kind (set_child_list k xs ob) = kind ob"
  "m_DbPtr (set_child_list k xs ob) = m_DbPtr ob" "m_RefCount (set_child_list k xs ob) = m_RefCount ob"
  "m_CloseRequested (set_child_list k xs ob) = m_CloseRequested ob"
  by (cases k; simp)+

interpretation managed: close_protocol managed
  by unfold_locales
    (auto simp: managed_def intro: heap_ok_request_close heap_ok_RefDec heap_ok_pop log_ok_RefDec
      log_ok_put lists_complete_RefDec lists_complete_put)

section \<open>A close with no call in progress\<close>

lemma live_children_child:
  assumes "heap_ok h H" "mem h c = Some ob" "kind ob \<noteq> DbObject"
  shows "live_children h c = {}"
proof -
  have False if "mem h x = Some y" "m_CloseRequested y \<noteq> 3" "m_DbPtr y = Some c" for x y
    using heap_okD [OF assms(1) that(1)] that assms(2,3) by (auto simp: obj_ok_def is_live_db_def)
  then show ?thesis
    by (auto simp: live_children_def)
qed

lemma unheld_open:
  assumes "heap_ok h H" "mem h a = Some ob" "m_CloseRequested ob \<noteq> 3" "count H a = 0" "live_children h a = {}"
  shows "m_CloseRequested ob = 0 \<and> m_RefCount ob = 1"
proof -
  have "unat (m_RefCount ob) = (if m_CloseRequested ob = 0 then 1 else 0)" "m_RefCount ob \<noteq> 0"
    using heap_okD [OF assms(1,2)] assms(3-5) by (auto simp: obj_ok_def)
  then show ?thesis
    by (metis unat_1 unat_eq_zero word_unat_eq_iff)
qed

lemma RefDec_last:
  assumes ok: "heap_ok h (add_mset a H)" and ob: "mem h a = Some ob" "m_RefCount ob = 1" "m_CloseRequested ob = 1"
  shows "mem (RefDec h a) a = Some (dead ob)"
  using ok by (cases rule: RefDec_cases) (use ob in auto)

lemma child_close_kills:
  assumes ok: "heap_ok h H" and c: "is_child h k d c" "count H c = 0"
  shows "\<not> is_child (child_InitiateCloseRequest k h c) k d c"
proof -
  obtain ob where ob: "mem h c = Some ob" "m_CloseRequested ob \<noteq> 3" "kind ob = k" "m_DbPtr ob = Some d"
    using c by (auto simp: is_child_def)
  have k: "k \<noteq> DbObject"
    using heap_okD [OF ok ob(1)] ob by (auto simp: obj_ok_def)
  have open_ob: "m_CloseRequested ob = 0" "m_RefCount ob = 1"
    using unheld_open [OF ok ob(1,2) c(2) live_children_child [OF ok ob(1)]] k ob by auto
  let ?h = "put_obj h c (ob\<lparr>m_CloseRequested := 1\<rparr>)"
  have "mem (RefDec ?h c) c = Some (dead (ob\<lparr>m_CloseRequested := 1\<rparr>))"
    using RefDec_last [OF heap_ok_request_close [OF ok ob(1) open_ob(1)]] open_ob by simp
  then show ?thesis
    using ob open_ob k
    by (simp add: is_child_def child_InitiateCloseRequest_def ErlRefObject_InitiateCloseRequest_def)
qed

end
