(* ===== verification/Ref_System.thy ===== *)
theory Ref_System
  imports Ref_Lifecycle
begin

text \<open>
  Sequences of whole operations on the reference-counted objects. A state is the heap, the
  references that running calls hold in a \<open>ReferencePtr\<close>, and the objects that
  some Erlang term still names. The steps are what calls and the garbage
  collector do, in any order, and each step runs to its end before the next one starts: taking a
  reference is the check and the count, creating a child is its whole constructor, a close is its
  whole shutdown, and the destruction of a column family handle is the call that RocksDB answers
  with \<open>ok\<close>. These are the states in which the theorems on single NIF calls start and end. Theory
  \<open>Ref_Threads\<close> cuts the operations into the atomic actions of the code and lets them interleave.
\<close>

section \<open>Closing with no call in progress\<close>

lemma is_child_persists: "persists h h' \<Longrightarrow> is_child h' k d c \<Longrightarrow> is_child h k d c"
  by (auto simp: is_child_def obj_persists_def elim: persists_backE)

lemma live_children_iff: "c \<in> live_children h d \<longleftrightarrow> (\<exists>k. is_child h k d c)"
  by (auto simp: live_children_def is_child_def)

lemma covered_child_close:
  assumes "heap_ok h H" "mem h c = Some ob" "kind ob = k'" "k' \<noteq> DbObject" "covered h d k X"
  shows "covered (child_InitiateCloseRequest k' h c) d k X"
proof (cases "m_CloseRequested ob = 0")
  case True
  let ?h = "put_obj h c (ob\<lparr>m_CloseRequested := 1\<rparr>)"
  have "covered ?h d k X"
    using assms(2,5) True by (simp add: covered_put)
  with heap_ok_request_close [OF assms(1,2) True] have "covered (RefDec ?h c) d k X"
    by (rule covered_RefDec)
  then show ?thesis
    using assms True by (simp add: child_InitiateCloseRequest_def ErlRefObject_InitiateCloseRequest_def)
next
  case False
  then show ?thesis
    using assms by (simp add: child_InitiateCloseRequest_def ErlRefObject_InitiateCloseRequest_def)
qed

text \<open>
  One loop of \<open>DbObject::Shutdown\<close> on a database whose children no call holds:
  afterwards no child of that class is alive, and the other lists still hold
  their live children.
\<close>

lemma shutdown_round_kills:
  assumes ok: "heap_ok h H" and db: "mem h d = Some db" "kind db = DbObject" "m_CloseRequested db = 1"
    and list: "child_list k db = x # xs" and idle: "count H x = 0" and cov: "\<And>k'. covered h d k' {}"
    and h': "h' = child_InitiateCloseRequest k (put_obj h d (set_child_list k xs db)) x"
  shows "heap_ok h' H \<and> persists h h' \<and> (\<forall>k'. covered h' d k' {})"
proof -
  let ?h = "put_obj h d (set_child_list k xs db)"
  have child: "is_child h k d x"
    using heap_okD [OF ok db(1)] db list by (simp add: obj_ok_def)
  have same: "is_child ?h k' d' c = is_child h k' d' c" for k' d' c
    by (rule is_child_put [OF db(1)]) simp_all
  obtain ob where ob: "mem h x = Some ob" "kind ob = k" "m_DbPtr ob = Some d"
    using child by (auto simp: is_child_def)
  have k: "k \<noteq> DbObject" "k \<noteq> BackupEngineObject"
    using list by auto
  have x: "mem ?h x = Some ob"
    using ob db k by auto
  have ok1: "heap_ok ?h H"
    using ok db list by (rule heap_ok_pop)
  have ok2: "heap_ok h' H" "persists ?h h'"
    using counts.child_close [OF ok1 x ob(2) k(1)] by (auto simp: h')
  have "covered ?h d k' {x}" for k'
    using cov [of k'] db(1) list k unfolding covered_def same by (auto split: if_splits)
  then have "covered h' d k' {x}" for k'
    using covered_child_close [OF ok1 x ob(2) k(1)] by (simp add: h')
  moreover have "\<not> is_child h' k d x"
    unfolding h' using child_close_kills [OF ok1] child idle same by blast
  then have "\<not> is_child h' k' d x" for k'
    using is_child_persists [OF ok2(2), of k' d x] same ob by (auto simp: is_child_def)
  ultimately have "covered h' d k' {}" for k'
    unfolding covered_def by (metis Un_empty_right Un_iff singletonD)
  moreover have "persists h h'"
    using persists_trans [OF persists_put ok2(2)] db(1) by (simp add: obj_persists_def)
  ultimately show ?thesis
    using ok2(1) by simp
qed

lemma shutdown_children_kills:
  assumes "heap_ok h H" "d \<in># H" "is_live_db h d" "\<And>db. mem h d = Some db \<Longrightarrow> m_CloseRequested db \<noteq> 0"
    and "\<And>k c. is_child h k d c \<Longrightarrow> count H c = 0" and "\<And>k. covered h d k {}"
  shows "\<not> is_child (shutdown_children k h d) k d c \<and> covered (shutdown_children k h d) d k2 {}"
  using assms
proof (induction k h d rule: shutdown_children.induct)
  case (1 k h d)
  note ok = "1.prems"(1)
  obtain db where db: "mem h d = Some db" "kind db = DbObject" "m_CloseRequested db \<noteq> 3"
    using "1.prems"(3) by (auto simp: is_live_db_def)
  have one: "m_CloseRequested db = 1"
    using heap_okD [OF ok db(1)] db "1.prems"(4) by (auto simp: obj_ok_def)
  show ?case
  proof (cases "child_list k db")
    case Nil
    then show ?thesis
      using db "1.prems"(6) [of k] "1.prems"(6) [of k2]
      by (auto simp: shutdown_children.simps [of k h d] covered_def)
  next
    case (Cons x xs)
    let ?h' = "child_InitiateCloseRequest k (put_obj h d (set_child_list k xs db)) x"
    have "is_child h k d x"
      using heap_okD [OF ok db(1)] db Cons by (simp add: obj_ok_def)
    then have round: "heap_ok ?h' H" "persists h ?h'" "\<And>k'. covered ?h' d k' {}"
      using shutdown_round_kills [OF ok db(1,2) one Cons _ "1.prems"(6) refl] "1.prems"(5) by auto
    have closing: "m_CloseRequested y \<noteq> 0" if "mem ?h' d = Some y" for y
      by (rule persistsE [OF round(2) db(1)]) (use one that in \<open>auto simp: obj_persists_def\<close>)
    have "\<not> is_child (shutdown_children k ?h' d) k d c \<and> covered (shutdown_children k ?h' d) d k2 {}"
      by (rule "1.IH" [OF db(1) Cons round(1) "1.prems"(2) _ closing _ round(3)])
        (use persists_is_live_db [OF round(2) "1.prems"(3) round(1) "1.prems"(2)] in
          \<open>auto dest: is_child_persists [OF round(2)] "1.prems"(5)\<close>)
    then show ?thesis
      using db(1) Cons by (simp add: shutdown_children.simps [of k h d])
  qed
qed

text \<open>A heap in the middle of the shutdown of \<open>d\<close>, for the sequence of the five loops.\<close>

definition shutting_down :: "ref_heap \<Rightarrow> addr \<Rightarrow> addr multiset \<Rightarrow> ref_heap \<Rightarrow> bool" where
  "shutting_down h0 d H h \<longleftrightarrow>
     heap_ok h (add_mset d H) \<and> persists h0 h \<and> is_live_db h d \<and>
     (\<forall>db. mem h d = Some db \<longrightarrow> m_CloseRequested db \<noteq> 0) \<and>
     (\<forall>k c. is_child h k d c \<longrightarrow> count (add_mset d H) c = 0) \<and> (\<forall>k. covered h d k {})"

lemma shutting_down_step:
  assumes "shutting_down h0 d H h"
  shows "shutting_down h0 d H (shutdown_children k h d) \<and>
     (\<forall>c. \<not> is_child (shutdown_children k h d) k d c) \<and>
     (\<forall>k' c. is_child (shutdown_children k h d) k' d c \<longrightarrow> is_child h k' d c)"
proof -
  let ?h = "shutdown_children k h d"
  have h: "heap_ok h (add_mset d H)" "d \<in># add_mset d H" "is_live_db h d"
      "\<And>db. mem h d = Some db \<Longrightarrow> m_CloseRequested db \<noteq> 0"
    using assms by (auto simp: shutting_down_def)
  have keeps: "heap_ok ?h (add_mset d H)" "persists h ?h"
    using counts.shutdown_children_keeps [OF h] by auto
  have kills: "\<not> is_child ?h k d c" "covered ?h d k2 {}" for k2 c
    using shutdown_children_kills [OF h, of k c k2] assms by (auto simp: shutting_down_def)
  have "m_CloseRequested db \<noteq> 0" if "mem ?h d = Some db" for db
    by (rule persists_backE [OF keeps(2) that]) (use h(4) in \<open>auto simp: obj_persists_def\<close>)
  moreover have "is_live_db ?h d"
    using persists_is_live_db [OF keeps(2) h(3) keeps(1) h(2)] .
  ultimately have "shutting_down h0 d H ?h"
    using assms keeps kills is_child_persists [OF keeps(2)] persists_trans
    unfolding shutting_down_def by blast
  then show ?thesis
    using kills is_child_persists [OF keeps(2)] by blast
qed

lemma DbObject_Shutdown_destroys:
  assumes "shutting_down h0 d H h" "count H d = 0"
  shows "(\<exists>db. mem (DbObject_Shutdown h d) d = Some db \<and> m_CloseRequested db = 3) \<and>
     live_children (DbObject_Shutdown h d) d = {}"
proof -
  define h1 where "h1 = shutdown_children ItrObject h d"
  define h2 where "h2 = shutdown_children ColumnFamilyObject h1 d"
  define h3 where "h3 = shutdown_children SnapshotObject h2 d"
  define h4 where "h4 = shutdown_children TLogItrObject h3 d"
  define h5 where "h5 = shutdown_children TransactionObject h4 d"
  note s1 = shutting_down_step [OF assms(1), of ItrObject, folded h1_def]
  note s2 = shutting_down_step [OF conjunct1 [OF s1], of ColumnFamilyObject, folded h2_def]
  note s3 = shutting_down_step [OF conjunct1 [OF s2], of SnapshotObject, folded h3_def]
  note s4 = shutting_down_step [OF conjunct1 [OF s3], of TLogItrObject, folded h4_def]
  note s5 = shutting_down_step [OF conjunct1 [OF s4], of TransactionObject, folded h5_def]
  have ok: "heap_ok h5 (add_mset d H)" and live: "is_live_db h5 d"
      and closing: "\<And>db. mem h5 d = Some db \<Longrightarrow> m_CloseRequested db \<noteq> 0"
    using s5 by (auto simp: shutting_down_def)
  have none: "\<not> is_child h5 k d c" for k c
  proof (cases k)
    case DbObject
    then show ?thesis
      using heap_okD [OF ok, of c] by (auto simp: is_child_def obj_ok_def)
  next
    case BackupEngineObject
    then show ?thesis
      using heap_okD [OF ok, of c] by (auto simp: is_child_def obj_ok_def)
  qed (use s1 s2 s3 s4 s5 in blast)+
  then have empty: "live_children h5 d = {}"
    by (auto simp: live_children_iff)
  obtain db where db: "mem h5 d = Some db" "kind db = DbObject" "m_CloseRequested db \<noteq> 3"
    using live by (auto simp: is_live_db_def)
  have one: "m_CloseRequested db = 1" "unat (m_RefCount db) = 1"
    using heap_okD [OF ok db(1)] db(3) closing [OF db(1)] empty assms(2) by (auto simp: obj_ok_def)
  then have "m_RefCount db = 1"
    by (metis unat_1 word_unat_eq_iff)
  with RefDec_last [OF ok db(1)] one have "mem (RefDec h5 d) d = Some (dead db)"
    by simp
  moreover have "live_children (RefDec h5 d) d = {}"
    using none is_child_persists [OF persists_RefDec [OF ok]] live_children_iff by blast
  moreover have "DbObject_Shutdown h d = RefDec h5 d"
    by (simp add: DbObject_Shutdown_def Let_def h1_def h2_def h3_def h4_def h5_def)
  ultimately show ?thesis
    by simp
qed

lemma InitiateCloseRequest_db_destroys:
  assumes m: "managed h H" and db: "mem h d = Some db" "kind db = DbObject" "m_CloseRequested db = 0"
    and free: "count H d = 0" "\<And>c. c \<in> live_children h d \<Longrightarrow> count H c = 0"
  shows "(\<exists>db'. mem (snd (InitiateCloseRequest h (Some d))) d = Some db' \<and> m_CloseRequested db' = 3) \<and>
     live_children (snd (InitiateCloseRequest h (Some d))) d = {}"
proof -
  let ?db = "db\<lparr>m_CloseRequested := 1\<rparr>"
  let ?h = "put_obj h d ?db"
  have ok: "heap_ok h H" and complete: "lists_complete h"
    using m by (auto simp: managed_def)
  have same: "is_child ?h k d c = is_child h k d c" for k c
    by (rule is_child_put [OF db(1)]) (use db in auto)
  have "heap_ok ?h (add_mset d H)"
    using ok db(1,3) by (rule heap_ok_request_close)
  moreover have "persists h ?h"
    using db by (intro persists_put) (auto simp: obj_persists_def)
  moreover have "count (add_mset d H) c = 0" if "is_child h k d c" for k c
  proof -
    have "c \<noteq> d"
      using that db heap_okD [OF ok db(1)] by (auto simp: is_child_def obj_ok_def)
    moreover have "c \<in> live_children h d"
      using that by (auto simp: is_child_def live_children_def)
    ultimately show ?thesis
      using free(2) by simp
  qed
  moreover have "covered ?h d k {}" for k
    using complete db covered_put [OF db(1), of ?db d k "{}"] by (simp add: lists_complete_def)
  ultimately have "shutting_down h d H ?h"
    using db(2) by (auto simp: shutting_down_def same is_live_db_def)
  moreover have "snd (InitiateCloseRequest h (Some d)) = DbObject_Shutdown ?h d"
    using db by (simp add: InitiateCloseRequest_def ErlRefObject_InitiateCloseRequest_def Shutdown_def
        with_live_eq [of _ _ ?db])
  ultimately show ?thesis
    using DbObject_Shutdown_destroys free(1) by simp
qed

lemma InitiateCloseRequest_child_destroys:
  assumes ok: "heap_ok h H" and ob: "mem h a = Some ob" "kind ob \<noteq> DbObject" "m_CloseRequested ob \<noteq> 3"
    and free: "count H a = 0"
  shows "\<exists>ob'. mem (snd (InitiateCloseRequest h (Some a))) a = Some ob' \<and> m_CloseRequested ob' = 3"
proof -
  let ?ob = "ob\<lparr>m_CloseRequested := 1\<rparr>"
  let ?h = "put_obj h a ?ob"
  have open_ob: "m_CloseRequested ob = 0" "m_RefCount ob = 1"
    using unheld_open [OF ok ob(1,3) free live_children_child [OF ok ob(1,2)]] by auto
  have "snd (InitiateCloseRequest h (Some a)) = RefDec ?h a"
    using ob open_ob by (simp add: InitiateCloseRequest_def ErlRefObject_InitiateCloseRequest_def Shutdown_def
        with_live_eq [of _ _ ?ob])
  then show ?thesis
    using RefDec_last [OF heap_ok_request_close [OF ok ob(1) open_ob(1)]] open_ob by simp
qed

lemma InitiateCloseRequest_closes:
  assumes ok: "heap_ok h H" and ob: "mem h a = Some ob"
  obtains ob' where "mem (snd (InitiateCloseRequest h (Some a))) a = Some ob'" "m_CloseRequested ob' \<noteq> 0"
proof (cases "m_CloseRequested ob = 0")
  case True
  let ?ob = "ob\<lparr>m_CloseRequested := 1\<rparr>"
  let ?h = "put_obj h a ?ob"
  have ok1: "heap_ok ?h (add_mset a H)"
    using ok ob True by (rule heap_ok_request_close)
  have sh: "snd (InitiateCloseRequest h (Some a)) =
      (if kind ob = DbObject then DbObject_Shutdown ?h a else RefDec ?h a)"
    using ob True by (simp add: InitiateCloseRequest_def ErlRefObject_InitiateCloseRequest_def Shutdown_def
        with_live_eq [of _ _ ?ob])
  have "persists ?h (snd (InitiateCloseRequest h (Some a)))"
  proof (cases "kind ob = DbObject")
    case True
    then have "is_live_db ?h a"
      by (simp add: is_live_db_def)
    then show ?thesis
      using counts.DbObject_Shutdown_keeps [OF ok1] True by (simp add: sh)
  next
    case False
    then show ?thesis
      using persists_RefDec [OF ok1] by (simp add: sh)
  qed
  moreover have "mem ?h a = Some ?ob"
    by simp
  ultimately obtain ob' where "mem (snd (InitiateCloseRequest h (Some a))) a = Some ob'" "obj_persists ?ob ob'"
    by (rule persistsE)
  then show ?thesis
    using that by (simp add: obj_persists_def)
next
  case False
  then show ?thesis
    using ob that by (simp add: InitiateCloseRequest_def ErlRefObject_InitiateCloseRequest_def)
qed

section \<open>The system of running calls\<close>

record system =
  objects :: ref_heap
  holders :: "addr multiset"
  terms :: "addr set"

definition initial_system :: system where
  "initial_system = \<lparr>objects = empty_heap, holders = {#}, terms = {}\<rparr>"

fun CreateChildObject :: "kind \<Rightarrow> ref_heap \<Rightarrow> addr option \<Rightarrow> addr \<times> ref_heap" where
  "CreateChildObject ColumnFamilyObject h p = CreateColumnFamilyObject h p"
| "CreateChildObject SnapshotObject h p = CreateSnapshotObject h p"
| "CreateChildObject ItrObject h p = CreateItrObject h p"
| "CreateChildObject TLogItrObject h p = CreateTLogItrObject h p"
| "CreateChildObject TransactionObject h p = CreateTransactionObject h p"
| "CreateChildObject DbObject h p = CreateDbObject h False False"
| "CreateChildObject BackupEngineObject h p = CreateBackupEngineObject h"

text \<open>
  \<open>count_free\<close>: one more reference fits in the 32-bit counter. A reference is a
  pointer in a C++ frame or in a child object, so 4,294,967,295 of them to one
  object cannot exist at a time.
\<close>

definition count_free :: "ref_heap \<Rightarrow> addr \<Rightarrow> bool" where
  "count_free h a \<longleftrightarrow> (case mem h a of None \<Rightarrow> True | Some ob \<Rightarrow> m_RefCount ob \<noteq> - 1)"

text \<open>The destruction of a column family handle by \<open>DestroyColumnFamily\<close> when RocksDB answers \<open>ok\<close>, before it requests the close.\<close>

definition destroy_cf_handle :: "ref_heap \<Rightarrow> addr \<Rightarrow> ref_heap" where
  "destroy_cf_handle h c =
     with_live h c (\<lambda>ob.
       if m_Native ob
       then clear_native (through_db h (m_DbPtr ob) (\<lambda>d. DestroyColumnFamilyHandle d c)) c
       else h)"

inductive step :: "system \<Rightarrow> system \<Rightarrow> bool" where
  open_db:
    "CreateDbObject (objects s) pess ttl = (a, h) \<Longrightarrow>
     step s (s\<lparr>objects := h, terms := insert a (terms s)\<rparr>)"
| open_backup_engine:
    "CreateBackupEngineObject (objects s) = (a, h) \<Longrightarrow>
     step s (s\<lparr>objects := h, terms := insert a (terms s)\<rparr>)"
| create_child:
    "d \<in># holders s \<Longrightarrow> mem (objects s) d = Some db \<Longrightarrow> kind db = DbObject \<Longrightarrow>
     k \<notin> {DbObject, BackupEngineObject} \<Longrightarrow> count_free (objects s) d \<Longrightarrow>
     CreateChildObject k (objects s) (Some d) = (a, h) \<Longrightarrow>
     step s (s\<lparr>objects := h, terms := insert a (terms s)\<rparr>)"
| acquire:
    "a \<in> terms s \<Longrightarrow> Retrieve (objects s) k (ERef a) = Some b \<Longrightarrow> count_free (objects s) b \<Longrightarrow>
     step s (s\<lparr>objects := RefInc (objects s) b, holders := add_mset b (holders s)\<rparr>)"
| release:
    "a \<in># holders s \<Longrightarrow>
     step s (s\<lparr>objects := RefDec (objects s) a, holders := holders s - {#a#}\<rparr>)"
| close:
    "a \<in> terms s \<Longrightarrow> Retrieve (objects s) k (ERef a) = Some b \<Longrightarrow>
     step s (s\<lparr>objects := snd (InitiateCloseRequest (objects s) (Some b))\<rparr>)"
| destroy_cf:
    "c \<in># holders s \<Longrightarrow> mem (objects s) c = Some ob \<Longrightarrow> kind ob = ColumnFamilyObject \<Longrightarrow>
     step s (s\<lparr>objects := destroy_cf_handle (objects s) c\<rparr>)"
| collect:
    "a \<in> terms s \<Longrightarrow> a \<notin># holders s \<Longrightarrow>
     step s (s\<lparr>objects := snd (InitiateCloseRequest (objects s) (Some a)), terms := terms s - {a}\<rparr>)"
| collected:
    "a \<notin> terms s \<Longrightarrow> mem (objects s) a \<noteq> None \<Longrightarrow> AwaitCloseAndDestructor (objects s) a = Some h \<Longrightarrow>
     step s (s\<lparr>objects := h\<rparr>)"

inductive reachable :: "system \<Rightarrow> bool" where
  init: "reachable initial_system"
| step: "reachable s \<Longrightarrow> step s s' \<Longrightarrow> reachable s'"

section \<open>Creation keeps the invariant\<close>

definition alloc :: "ref_heap \<Rightarrow> ref_object \<Rightarrow> ref_heap" where
  "alloc h ob = h\<lparr>mem := (mem h)(next_addr h := Some ob), next_addr := next_addr h + 1\<rparr>"

lemma alloc_fields [simp]:
  "mem (alloc h ob) = (mem h)(next_addr h := Some ob)" "next_addr (alloc h ob) = next_addr h + 1"
  "log (alloc h ob) = log h" "fault (alloc h ob) = fault h"
  by (simp_all add: alloc_def)

definition first_object :: "kind \<Rightarrow> addr option \<Rightarrow> ref_object" where
  "first_object k p = (new_object k p)\<lparr>m_RefCount := 1\<rparr>"

lemma first_object_simps [simp]:
  "kind (first_object k p) = k" "m_DbPtr (first_object k p) = p" "m_CloseRequested (first_object k p) = 0"
  "m_RefCount (first_object k p) = 1" "m_Native (first_object k p)" "child_list k' (first_object k p) = []"
  by (cases k'; simp add: first_object_def new_object_def)+

lemma fresh:
  assumes "heap_ok h H"
  shows "mem h (next_addr h) = None" "live_children h (next_addr h) = {}" "count H (next_addr h) = 0"
    "\<not> is_live_db h (next_addr h)"
proof -
  show none: "mem h (next_addr h) = None"
    using assms by (metis heap_ok_def less_irrefl not_Some_eq)
  then show db: "\<not> is_live_db h (next_addr h)"
    by (simp add: is_live_db_def)
  show "live_children h (next_addr h) = {}"
  proof -
    have False if "mem h c = Some ob" "m_CloseRequested ob \<noteq> 3" "m_DbPtr ob = Some (next_addr h)" for c ob
      using heap_okD [OF assms that(1)] that db by (auto simp: obj_ok_def)
    then show ?thesis by (auto simp: live_children_def)
  qed
  show "count H (next_addr h) = 0"
    using assms none by (metis count_inI heap_ok_def)
qed

lemma heap_ok_alloc:
  assumes ok: "heap_ok h (mset_set (set_option p) + H)"
    and ob: "ob = first_object k p\<lparr>m_IsPessimistic := b1, m_IsTTL := b2\<rparr>"
    and p: "case p of None \<Rightarrow> k \<in> {DbObject, BackupEngineObject}
              | Some d \<Rightarrow> k \<notin> {DbObject, BackupEngineObject} \<and> is_live_db h d"
  shows "heap_ok (alloc h ob) H"
proof -
  let ?n = "next_addr h"
  let ?h = "alloc h ob"
  have new: "kind ob = k" "m_DbPtr ob = p" "m_CloseRequested ob = 0" "m_RefCount ob = 1" "m_Native ob"
      "child_list k' ob = []" for k'
    by (cases k'; simp add: ob first_object_def new_object_def)+
  note fr = fresh [OF ok]
  have lv: "is_live_db ?h d" if "is_live_db h d" for d
    using that fr(1) by (auto simp: is_live_db_def)
  have ch: "is_child ?h k' d c" if "is_child h k' d c" for k' d c
    using that fr(1) by (auto simp: is_child_def)
  have lc: "live_children ?h d = (if p = Some d then insert ?n (live_children h d) else live_children h d)" for d
    using fr(1) new by (auto simp: live_children_def)
  have n: "?n \<notin> live_children h d" for d
    using fr(1) by (simp add: live_children_def)
  have "obj_ok ?h H b x" if "mem h b = Some x" for b x
  proof -
    have okb: "obj_ok h (mset_set (set_option p) + H) b x"
      using ok that by (rule heap_okD)
    have "finite (live_children h b)"
      using ok by (rule finite_live_children)
    then show ?thesis
      using okb n
      by (intro obj_ok_transfer [OF okb]) (auto simp: lc lv ch obj_ok_def split: if_splits option.splits)
  qed
  moreover have "obj_ok ?h H ?n ob"
  proof -
    have "p \<noteq> Some ?n"
      using p fr(4) by auto
    moreover have "count H ?n = 0"
      using fr(3) by simp
    ultimately show ?thesis
      using new p fr(2) lv by (auto simp: obj_ok_def lc split: option.splits)
  qed
  ultimately show ?thesis
    using ok fr(1) unfolding heap_ok_def by (auto simp: less_SucI)
qed

lemma log_ok_alloc:
  assumes "log_ok h" "heap_ok h H" "m_Native ob"
  shows "log_ok (alloc h ob)"
  using assms(1,3) fresh(1) [OF assms(2)] by (auto simp: log_ok_def releases_def less_Suc_eq dest: spec [of _ "next_addr h"])

lemma lists_complete_alloc:
  assumes ok: "heap_ok h H" and lists: "lists_complete h"
    and "m_DbPtr ob = None"
  shows "lists_complete (alloc h ob)"
proof -
  note fr = fresh [OF ok]
  have "is_child (alloc h ob) k d c \<Longrightarrow> is_child h k d c" for k d c
    using assms(3) fr(1) by (auto simp: is_child_def split: if_splits)
  moreover have "\<not> is_child h k (next_addr h) c" for k c
    using fr(2) live_children_iff by blast
  ultimately show ?thesis
    using lists by (fastforce simp: lists_complete_def covered_def split: if_splits)
qed

lemma managed_open:
  assumes "managed h H" "ob = first_object k None\<lparr>m_IsPessimistic := b1, m_IsTTL := b2\<rparr>"
    "k \<in> {DbObject, BackupEngineObject}"
  shows "managed (alloc h ob) H"
proof -
  have "m_Native ob" "m_DbPtr ob = None"
    by (simp_all add: assms(2) first_object_def new_object_def)
  then show ?thesis
    using assms unfolding managed_def
    by (auto intro: log_ok_alloc lists_complete_alloc heap_ok_alloc [of h None H, simplified])
qed

lemma CreateDbObject_eq:
  "CreateDbObject h b1 b2 = (next_addr h, alloc h (first_object DbObject None\<lparr>m_IsPessimistic := b1, m_IsTTL := b2\<rparr>))"
  by (simp add: CreateDbObject_def enif_alloc_resource_def RefInc_def with_live_def with_obj_def alloc_def
      put_obj_def first_object_def new_object_def)

lemma CreateBackupEngineObject_eq:
  "CreateBackupEngineObject h =
     (next_addr h, alloc h (first_object BackupEngineObject None\<lparr>m_IsPessimistic := False, m_IsTTL := False\<rparr>))"
  by (simp add: CreateBackupEngineObject_def enif_alloc_resource_def RefInc_def with_live_def with_obj_def alloc_def
      put_obj_def first_object_def new_object_def)

text \<open>The entry of a new child in its list; a closing database takes no iterator.\<close>

definition enlist :: "kind \<Rightarrow> addr \<Rightarrow> ref_object \<Rightarrow> ref_object" where
  "enlist k c db =
     (if k = ItrObject \<and> m_CloseRequested db \<noteq> 0 then db
      else set_child_list k (child_list k db @ [c]) db)"

lemma enlist_simps [simp]:
  "kind (enlist k c db) = kind db" "m_DbPtr (enlist k c db) = m_DbPtr db"
  "m_CloseRequested (enlist k c db) = m_CloseRequested db" "m_Native (enlist k c db) = m_Native db"
  "m_RefCount (enlist k c db) = m_RefCount db"
  by (simp_all add: enlist_def)

lemma put_obj_eqI:
  assumes "mem h = mem h'" "next_addr h = next_addr h'" "log h = log h'" "fault h = fault h'"
  shows "h = (h' :: ref_heap)"
  using assms by simp

lemma CreateChildObject_eq:
  assumes "mem h d = Some db" "m_CloseRequested db \<noteq> 3" "next_addr h \<noteq> d" "k \<notin> {DbObject, BackupEngineObject}"
  shows "CreateChildObject k h (Some d) =
     (next_addr h,
      put_obj (alloc (RefInc h d) (first_object k (Some d))) d
        (enlist k (next_addr h) (db\<lparr>m_RefCount := m_RefCount db + 1\<rparr>)))"
proof -
  have d: "d \<noteq> next_addr h" using assms(3) by simp
  consider "k = ColumnFamilyObject" | "k = SnapshotObject" | "k = ItrObject" | "k = TLogItrObject"
    | "k = TransactionObject"
    using assms(4) by (cases k) auto
  then show ?thesis
    by cases
      (use assms d in \<open>auto simp: CreateColumnFamilyObject_def CreateSnapshotObject_def CreateItrObject_def
        CreateTLogItrObject_def CreateTransactionObject_def create_child_def enif_alloc_resource_def
        ColumnFamilyObject_ctor_def SnapshotObject_ctor_def ItrObject_ctor_def TLogItrObject_ctor_def
        TransactionObject_ctor_def add_to_db_def ReferencePtr_ctor_def RefInc_def with_live_def with_obj_def
        AddReference_def AddColumnFamilyReference_def AddSnapshotReference_def AddTLogReference_def
        AddTransactionReference_def enlist_def first_object_def new_object_def
        intro!: put_obj_eqI\<close>)
qed

text \<open>Listing a new child keeps the lists complete.\<close>

lemma lists_complete_enlist:
  assumes ok: "heap_ok h H" "lists_complete h" and db: "mem h d = Some db" "kind db = DbObject"
    and k: "k \<notin> {DbObject, BackupEngineObject}"
    and db': "db' = db\<lparr>m_RefCount := n\<rparr>"
  shows "lists_complete (put_obj (alloc (put_obj h d db') (first_object k (Some d))) d (enlist k (next_addr h) db'))"
    (is "lists_complete ?h")
proof -
  let ?n = "next_addr h"
  have n: "?n \<noteq> d" "\<And>k' e. \<not> is_child h k' ?n e"
    using fresh(1,2) [OF ok(1)] db(1) live_children_iff [of _ h ?n] by auto
  have listed: "c \<in> set (child_list k' eb)"
    if e: "mem ?h e = Some eb" "kind eb = DbObject" "m_CloseRequested eb = 0" and c: "is_child ?h k' e c" for e eb k' c
  proof -
    have "c = ?n \<and> e = d \<and> k' = k \<or> is_child h k' e c"
      using c n(1) db by (auto simp: is_child_def db' split: if_splits)
    moreover have "c \<in> set (child_list k' x)"
      if "is_child h k' e c" "mem h e = Some x" "kind x = DbObject" "m_CloseRequested x = 0" for x
      using that ok(2) by (auto simp: lists_complete_def covered_def)
    ultimately show ?thesis
      using e n db k by (cases "e = d"; cases "e = ?n") (auto simp: enlist_def db')
  qed
  then show ?thesis
    by (auto simp: lists_complete_def covered_def)
qed

lemma managed_create_child:
  assumes m: "managed h H" and db: "mem h d = Some db" "kind db = DbObject" "m_CloseRequested db \<noteq> 3"
    and "m_RefCount db \<noteq> - 1" and k: "k \<notin> {DbObject, BackupEngineObject}"
  shows "managed (snd (CreateChildObject k h (Some d))) H"
proof -
  let ?n = "next_addr h"
  let ?db = "db\<lparr>m_RefCount := m_RefCount db + 1\<rparr>"
  define h1 where "h1 = RefInc h d"
  define h2 where "h2 = alloc h1 (first_object k (Some d))"
  define h3 where "h3 = put_obj h2 d (enlist k ?n ?db)"
  have ok: "heap_ok h H" "log_ok h" "lists_complete h"
    using m by (auto simp: managed_def)
  have n: "?n \<noteq> d" "mem h ?n = None"
    using fresh(1) [OF ok(1)] db(1) by auto
  have h1: "h1 = put_obj h d ?db"
    using db by (simp add: h1_def RefInc_def with_live_eq)
  have ok1: "heap_ok h1 (add_mset d H)"
    unfolding h1_def by (rule heap_ok_RefInc [OF ok(1) db(1,3) assms(5)])
  have ok2: "heap_ok h2 H"
    unfolding h2_def
    by (rule heap_ok_alloc [where p = "Some d" and k = k and ?b1.0 = False and ?b2.0 = False])
      (use ok1 db k in \<open>auto simp: h1 is_live_db_def first_object_def new_object_def\<close>)
  have mem2: "mem h2 d = Some ?db" "mem h2 ?n = Some (first_object k (Some d))"
    using n by (auto simp: h2_def h1)
  have "is_child h2 k' d c" if "c \<in> set (child_list k' (enlist k ?n ?db))" for k' c
    using that mem2 heap_okD [OF ok2 mem2(1)] db
    by (auto simp: obj_ok_def enlist_def is_child_def split: if_splits)
  then have "obj_ok h2 H d (enlist k ?n ?db)"
    using heap_okD [OF ok2 mem2(1)] db by (simp add: obj_ok_def split: option.splits)
  then have "heap_ok h3 H"
    unfolding h3_def by (intro heap_ok_put [OF ok2 mem2(1)]) auto
  moreover have "log_ok h1"
    unfolding h1 using ok(2) db(1) by (rule log_ok_put) simp
  then have "log_ok h2"
    unfolding h2_def using ok1 by (rule log_ok_alloc) simp
  then have "log_ok h3"
    unfolding h3_def using mem2(1) by (rule log_ok_put) simp
  moreover have "lists_complete h3"
    unfolding h3_def h2_def h1 by (rule lists_complete_enlist [OF ok(1,3) db(1,2) k refl])
  moreover have "snd (CreateChildObject k h (Some d)) = h3"
    using CreateChildObject_eq [OF db(1,3) n(1) k] by (simp add: h3_def h2_def h1_def)
  ultimately show ?thesis
    by (simp add: managed_def)
qed

section \<open>The other steps keep the invariant\<close>

lemma managed_RefInc:
  assumes "managed h H" "mem h a = Some ob" "m_CloseRequested ob \<noteq> 3" "m_RefCount ob \<noteq> - 1"
  shows "managed (RefInc h a) (add_mset a H)"
  using assms heap_ok_RefInc [of h H a ob]
  by (auto simp: managed_def RefInc_def with_live_eq intro: log_ok_put lists_complete_put)

lemma heap_ok_emit: "heap_ok (emit e h) H = heap_ok h H"
proof -
  have "live_children (emit e h) = live_children h" "is_live_db (emit e h) = is_live_db h"
    "is_child (emit e h) = is_child h"
    by (auto simp: fun_eq_iff live_children_def is_live_db_def is_child_def)
  then have "obj_ok (emit e h) H a ob = obj_ok h H a ob" for a ob
    by (intro obj_ok_cong) simp_all
  then show ?thesis
    by (simp add: heap_ok_def)
qed

lemma managed_destroy_cf:
  assumes m: "managed h H" and c: "c \<in># H" "mem h c = Some ob" "kind ob = ColumnFamilyObject"
  shows "managed (destroy_cf_handle h c) H"
proof -
  have ok: "heap_ok h H" "log_ok h" "lists_complete h"
    using m by (auto simp: managed_def)
  have alive: "m_CloseRequested ob \<noteq> 3"
    using heap_ok_held [OF ok(1) c(1)] c(2) by auto
  then obtain d where d: "m_DbPtr ob = Some d" "is_live_db h d"
    using heap_okD [OF ok(1) c(2)] c(3) by (auto simp: obj_ok_def split: option.splits)
  then obtain db where db: "mem h d = Some db" "m_CloseRequested db \<noteq> 3" "m_Native db"
    using heap_okD [OF ok(1)] by (auto simp: is_live_db_def obj_ok_def)
  let ?ob = "ob\<lparr>m_Native := False\<rparr>"
  let ?e = "DestroyColumnFamilyHandle d c"
  show ?thesis
  proof (cases "m_Native ob")
    case False
    then show ?thesis
      using m c(2) alive by (simp add: destroy_cf_handle_def with_live_eq)
  next
    case True
    then have eq: "destroy_cf_handle h c = put_obj (emit ?e h) c ?ob"
      using c(2) alive d db
      by (simp add: destroy_cf_handle_def with_live_eq through_db_eq clear_native_eq [of _ c ob])
    have emit_ok: "put_obj (emit ?e h) c ?ob = emit ?e (put_obj h c ?ob)"
      by (simp add: put_obj_def emit_def)
    have "obj_ok h H c ?ob"
      using heap_okD [OF ok(1) c(2)] c(3) alive by (simp add: obj_ok_def split: option.splits)
    then have "heap_ok (put_obj h c ?ob) H"
      by (intro heap_ok_put [OF ok(1) c(2)]) auto
    then have "heap_ok (emit ?e (put_obj h c ?ob)) H"
      by (simp only: heap_ok_emit)
    moreover have "lists_complete (put_obj h c ?ob)"
      by (rule lists_complete_put [OF ok(3) c(2)]) auto
    then have "lists_complete (emit ?e (put_obj h c ?ob))"
      by (simp add: lists_complete_def covered_def is_child_def)
    moreover have "log_ok (emit ?e (put_obj h c ?ob))"
      using ok(2) c(2) True native_not_deleted [OF ok(2) db(1,3)]
      by (auto simp: log_ok_def releases_def db_deleted_last_snoc)
    ultimately show ?thesis
      by (simp add: managed_def eq emit_ok)
  qed
qed

lemma managed_free:
  assumes m: "managed h H" and a: "mem h a = Some ob" "m_CloseRequested ob = 3"
  shows "managed (h\<lparr>mem := (mem h)(a := None)\<rparr>) H"
proof -
  let ?h = "h\<lparr>mem := (mem h)(a := None)\<rparr>"
  have ok: "heap_ok h H" "log_ok h" "lists_complete h"
    using m by (auto simp: managed_def)
  have ch: "is_child ?h k d c = is_child h k d c" for k d c
    using a by (auto simp: is_child_def)
  have "obj_ok ?h H b x = obj_ok h H b x" for b x
    by (rule obj_ok_cong) (use a in \<open>auto simp: ch is_live_db_def live_children_iff\<close>)
  moreover have "a \<notin># H"
    using heap_okD [OF ok(1) a(1)] a(2) by (simp add: obj_ok_def not_in_iff)
  ultimately have "heap_ok ?h H"
    using ok(1) by (auto simp: heap_ok_def)
  moreover have "\<not> m_Native ob" "a < next_addr h"
    using heap_okD [OF ok(1) a(1)] ok(1) a by (auto simp: obj_ok_def heap_ok_def)
  then have "log_ok ?h"
    using ok(2) a by (auto simp: log_ok_def releases_def)
  moreover have "lists_complete ?h"
    using ok(3) by (auto simp: lists_complete_def covered_def ch split: if_splits)
  ultimately show ?thesis
    by (simp add: managed_def)
qed

section \<open>Reachable states\<close>

definition system_ok :: "system \<Rightarrow> bool" where
  "system_ok s \<longleftrightarrow> managed (objects s) (holders s) \<and> (\<forall>a \<in> terms s. mem (objects s) a \<noteq> None)"

lemma Retrieve_Some:
  assumes "Retrieve h k (ERef a) = Some b"
  obtains ob where "b = a" "mem h a = Some ob" "kind ob = k" "m_CloseRequested ob = 0"
  using assms by (auto simp: Retrieve_def split: option.splits if_splits)

lemma persists_allocated: "persists h h' \<Longrightarrow> mem h a \<noteq> None \<Longrightarrow> mem h' a \<noteq> None"
  by (auto elim: persistsE)

lemma mem_RefInc: "mem h a \<noteq> None \<Longrightarrow> mem (RefInc h b) a \<noteq> None"
  by (auto simp: RefInc_def with_live_def with_obj_def split: option.split)

lemma mem_destroy_cf: "mem h a \<noteq> None \<Longrightarrow> mem (destroy_cf_handle h c) a \<noteq> None"
  by (auto simp: destroy_cf_handle_def with_live_def with_obj_def clear_native_def through_db_def
      split: option.split)

lemma create_child_ok:
  assumes sys: "system_ok s" and d: "d \<in># holders s" "mem (objects s) d = Some db" "kind db = DbObject"
    and "count_free (objects s) d" and k: "k \<notin> {DbObject, BackupEngineObject}"
    and new: "CreateChildObject k (objects s) (Some d) = (a, h)"
  shows "managed h (holders s) \<and> (\<forall>b \<in> insert a (terms s). mem h b \<noteq> None)"
proof -
  have m: "managed (objects s) (holders s)" and ok: "heap_ok (objects s) (holders s)"
    using sys by (simp_all add: system_ok_def managed_def)
  have live: "m_CloseRequested db \<noteq> 3" and room: "m_RefCount db \<noteq> - 1"
    using heap_ok_held [OF ok d(1)] d(2) assms(5) by (auto simp: count_free_def)
  have "next_addr (objects s) \<noteq> d"
    using fresh(1) [OF ok] d(2) by auto
  then have "h = put_obj (alloc (RefInc (objects s) d) (first_object k (Some d))) d
      (enlist k (next_addr (objects s)) (db\<lparr>m_RefCount := m_RefCount db + 1\<rparr>))" "a = next_addr (objects s)"
    using CreateChildObject_eq [OF d(2) live _ k] new by auto
  then have "\<forall>b \<in> insert a (terms s). mem h b \<noteq> None"
    using sys d(2) live by (auto simp: system_ok_def RefInc_def with_live_eq)
  then show ?thesis
    using managed_create_child [OF m d(2,3) live room k] new by simp
qed

lemma step_ok:
  assumes "step s s'" "system_ok s"
  shows "system_ok s'"
  using assms
proof (cases rule: step.cases)
  case (open_db pess ttl a h)
  then show ?thesis
    using assms(2) managed_open [of "objects s" "holders s"]
    by (auto simp: system_ok_def CreateDbObject_eq)
next
  case (open_backup_engine a h)
  then show ?thesis
    using assms(2) managed_open [of "objects s" "holders s"]
    by (auto simp: system_ok_def CreateBackupEngineObject_eq)
next
  case (create_child d db k a h)
  then show ?thesis
    using create_child_ok [OF assms(2), of d db k a h] by (simp add: system_ok_def)
next
  case (acquire a k b)
  then obtain ob where "mem (objects s) b = Some ob" "m_CloseRequested ob = 0"
    by (auto elim: Retrieve_Some)
  with acquire assms(2) show ?thesis
    using managed_RefInc [of "objects s" "holders s" b ob] mem_RefInc
    by (auto simp: system_ok_def count_free_def)
next
  case (release a)
  then have "managed (objects s) (add_mset a (holders s - {#a#}))"
    using assms(2) by (simp add: system_ok_def)
  then have "managed (RefDec (objects s) a) (holders s - {#a#})"
      "persists (objects s) (RefDec (objects s) a)"
    using managed.I_dec persists_RefDec managed.I_ok by blast+
  then show ?thesis
    using release assms(2) persists_allocated by (auto simp: system_ok_def)
next
  case (close a k b)
  then obtain ob where "mem (objects s) b = Some ob"
    by (auto elim: Retrieve_Some)
  then show ?thesis
    using close assms(2) managed.initiate_keeps [of "objects s" "holders s" b ob] persists_allocated
    by (auto simp: system_ok_def)
next
  case (destroy_cf c ob)
  then show ?thesis
    using assms(2) managed_destroy_cf [of "objects s" "holders s" c ob] mem_destroy_cf
    by (auto simp: system_ok_def)
next
  case (collect a)
  then obtain ob where "mem (objects s) a = Some ob"
    using assms(2) by (auto simp: system_ok_def)
  then show ?thesis
    using collect assms(2) managed.initiate_keeps [of "objects s" "holders s" a ob] persists_allocated
    by (auto simp: system_ok_def)
next
  case (collected a h)
  then obtain ob where "mem (objects s) a = Some ob" "m_CloseRequested ob = 3"
      "h = (objects s)\<lparr>mem := (mem (objects s))(a := None)\<rparr>"
    by (auto simp: AwaitCloseAndDestructor_def split: option.splits if_splits)
  then show ?thesis
    using collected assms(2) managed_free [of "objects s" "holders s" a ob]
    by (auto simp: system_ok_def)
qed

lemma initial_ok: "system_ok initial_system"
  by (simp add: system_ok_def initial_system_def managed_def empty_heap_def heap_ok_def log_ok_def
      lists_complete_def releases_def db_deleted_last_def)

interpretation running: kept_by_steps step system_ok
  by unfold_locales (rule step_ok)

lemma reachable_steps: "reachable s \<Longrightarrow> step\<^sup>*\<^sup>* initial_system s"
  by (induction rule: reachable.induct) (auto intro: rtranclp.rtrancl_into_rtrancl)

lemma reachable_ok: "reachable s \<Longrightarrow> system_ok s"
  using running.steps_keep [OF reachable_steps initial_ok] .

section \<open>A concrete run\<close>

text \<open>
  Process 1 opens a database and, holding it, creates an iterator; process 2
  takes the iterator in a call.
\<close>

definition run_open :: system where
  "run_open = initial_system\<lparr>objects := snd (CreateDbObject (objects initial_system) False False),
     terms := insert 0 (terms initial_system)\<rparr>"

definition run_take :: "addr \<Rightarrow> system \<Rightarrow> system" where
  "run_take a s = s\<lparr>objects := RefInc (objects s) a, holders := add_mset a (holders s)\<rparr>"

definition run_drop :: "addr \<Rightarrow> system \<Rightarrow> system" where
  "run_drop a s = s\<lparr>objects := RefDec (objects s) a, holders := holders s - {#a#}\<rparr>"

definition run_child :: "kind \<Rightarrow> addr \<Rightarrow> system \<Rightarrow> system" where
  "run_child k d s =
     s\<lparr>objects := snd (CreateChildObject k (objects s) (Some d)),
       terms := insert (fst (CreateChildObject k (objects s) (Some d))) (terms s)\<rparr>"

definition run_close :: "addr \<Rightarrow> system \<Rightarrow> system" where
  "run_close a s = s\<lparr>objects := snd (InitiateCloseRequest (objects s) (Some a))\<rparr>"

definition demo_open :: system where
  "demo_open = run_take 1 (run_drop 0 (run_child ItrObject 0 (run_take 0 run_open)))"

lemma reach_take:
  "reachable s \<Longrightarrow> a \<in> terms s \<Longrightarrow> Retrieve (objects s) k (ERef a) = Some a \<Longrightarrow>
     count_free (objects s) a \<Longrightarrow> reachable (run_take a s)"
  unfolding run_take_def by (rule reachable.step) (auto intro: step.acquire)

lemma reach_drop: "reachable s \<Longrightarrow> a \<in># holders s \<Longrightarrow> reachable (run_drop a s)"
  unfolding run_drop_def by (rule reachable.step) (auto intro: step.release)

lemma reach_child:
  "reachable s \<Longrightarrow> d \<in># holders s \<Longrightarrow> mem (objects s) d = Some db \<Longrightarrow> kind db = DbObject \<Longrightarrow>
     k \<notin> {DbObject, BackupEngineObject} \<Longrightarrow> count_free (objects s) d \<Longrightarrow> reachable (run_child k d s)"
  unfolding run_child_def by (rule reachable.step) (auto intro: step.create_child)

lemma reach_close:
  "reachable s \<Longrightarrow> a \<in> terms s \<Longrightarrow> Retrieve (objects s) k (ERef a) = Some a \<Longrightarrow> reachable (run_close a s)"
  unfolding run_close_def by (rule reachable.step) (auto intro: step.close)

lemma reachable_run_open: "reachable run_open"
  unfolding run_open_def
  by (rule reachable.step [OF reachable.init step.open_db [where a = 0]])
    (simp add: CreateDbObject_eq initial_system_def empty_heap_def)

lemma reachable_demo_open: "reachable demo_open"
proof -
  let ?s = "run_take 0 run_open"
  have 1: "reachable ?s"
    by (rule reach_take [OF reachable_run_open, where k = DbObject]) code_simp+
  have 2: "reachable (run_child ItrObject 0 ?s)"
    by (rule reach_child [OF 1, where db = "the (mem (objects ?s) 0)"]) code_simp+
  have 3: "reachable (run_drop 0 (run_child ItrObject 0 ?s))"
    by (rule reach_drop [OF 2]) code_simp
  show ?thesis
    unfolding demo_open_def by (rule reach_take [OF 3, where k = ItrObject]) code_simp+
qed

end
