(* ===== verification/Ref_Props.thy ===== *)
theory Ref_Props
  imports Ref_System
begin

text \<open>
  What closing does when every operation runs to its end before the next one starts (the steps of
  \<open>Ref_System\<close>), and that the loops of a shutdown end. The properties under all interleavings of
  the atomic actions of the code are in \<open>Thread_Props\<close>.
\<close>

section \<open>Helper lemmas\<close>

lemma reachable_parts:
  assumes "reachable s"
  shows "managed (objects s) (holders s)" "heap_ok (objects s) (holders s)" "log_ok (objects s)"
    "lists_complete (objects s)" "\<And>a. a \<in> terms s \<Longrightarrow> mem (objects s) a \<noteq> None"
  using reachable_ok [OF assms] by (auto simp: system_ok_def managed_def)

lemma releases_Some: "log_ok h \<Longrightarrow> mem h a = Some ob \<Longrightarrow> releases h a = (if m_Native ob then 0 else 1)"
  by (simp add: log_ok_def)

section \<open>Closing takes effect\<close>

text \<open>
  A close request wins exactly once: \<open>InitiateCloseRequest\<close> returns true
  iff no close was requested before; afterwards the object is refused to new
  calls, and a second request returns false and changes nothing.
\<close>

theorem close_request_wins_once:
  assumes "reachable s" "mem (objects s) a = Some ob"
    and "InitiateCloseRequest (objects s) (Some a) = (won, h)"
  shows "won = (m_CloseRequested ob = 0) \<and> InitiateCloseRequest h (Some a) = (False, h) \<and>
    Retrieve h k (ERef a) = None"
proof -
  have h: "h = snd (InitiateCloseRequest (objects s) (Some a))"
    using assms(3) by simp
  obtain ob' where ob': "mem h a = Some ob'" "m_CloseRequested ob' \<noteq> 0"
    unfolding h by (rule InitiateCloseRequest_closes [OF reachable_parts(2) [OF assms(1)] assms(2)])
  then have "InitiateCloseRequest h (Some a) = (False, h)" "Retrieve h k (ERef a) = None"
    by (simp_all add: InitiateCloseRequest_def ErlRefObject_InitiateCloseRequest_def Retrieve_def)
  moreover have "won = (m_CloseRequested ob = 0)"
    using assms(2,3) by (auto simp: InitiateCloseRequest_def ErlRefObject_InitiateCloseRequest_def split: if_splits)
  ultimately show ?thesis by simp
qed

theorem close_request_wins_once_witness:
  "\<exists>h. InitiateCloseRequest (objects demo_open) (Some 0) = (True, h) \<and>
     InitiateCloseRequest h (Some 0) = (False, h) \<and> Retrieve h DbObject (ERef 0) = None"
proof -
  let ?c = "InitiateCloseRequest (objects demo_open) (Some 0)"
  let ?ob = "the (mem (objects demo_open) 0)"
  have "mem (objects demo_open) 0 = Some ?ob"
    by code_simp
  moreover have "?c = (fst ?c, snd ?c)"
    by simp
  ultimately have "fst ?c = (m_CloseRequested ?ob = 0) \<and> InitiateCloseRequest (snd ?c) (Some 0) = (False, snd ?c) \<and>
      Retrieve (snd ?c) DbObject (ERef 0) = None"
    by (rule close_request_wins_once [OF reachable_demo_open])
  moreover have "m_CloseRequested ?ob = 0"
    by code_simp
  ultimately show ?thesis
    by (intro exI [of _ "snd ?c"]) (simp add: prod_eq_iff)
qed

text \<open>
  A closed database can stay open: \<open>AddReference\<close> refuses an iterator that is
  created by a call which took the database before it was closed, but the
  constructor ignores the answer. The iterator is in no list, the shutdown never
  reaches it, and the closed database stays open until the iterator is
  collected.
\<close>

definition demo_late :: system where
  "demo_late = run_drop 0 (run_child ItrObject 0 (run_close 0 (run_take 0 run_open)))"

lemma reachable_demo_late: "reachable demo_late"
proof -
  let ?t = "run_take 0 run_open"
  have 1: "reachable ?t"
    by (rule reach_take [OF reachable_run_open, where k = DbObject]) code_simp+
  have 2: "reachable (run_close 0 ?t)"
    by (rule reach_close [OF 1, where k = DbObject]) code_simp+
  have 3: "reachable (run_child ItrObject 0 (run_close 0 ?t))"
    by (rule reach_child [OF 2, where db = "the (mem (objects (run_close 0 ?t)) 0)"]) code_simp+
  show ?thesis
    unfolding demo_late_def by (rule reach_drop [OF 3]) code_simp
qed

theorem late_iterator_keeps_db_open:
  "\<exists>s db it. reachable s \<and> holders s = {#} \<and>
     mem (objects s) 0 = Some db \<and> kind db = DbObject \<and> m_CloseRequested db = 1 \<and> m_Native db \<and>
     mem (objects s) 1 = Some it \<and> kind it = ItrObject \<and> m_CloseRequested it = 0 \<and>
     m_ItrList db = [] \<and> log (objects s) = []"
proof -
  let ?db = "the (mem (objects demo_late) 0)" and ?it = "the (mem (objects demo_late) 1)"
  have "holders demo_late = {#}"
    by (simp add: demo_late_def run_drop_def run_take_def run_child_def run_close_def run_open_def
        initial_system_def)
  moreover have "mem (objects demo_late) 0 = Some ?db" "kind ?db = DbObject" "m_CloseRequested ?db = 1"
      "m_Native ?db" "m_ItrList ?db = []"
    by code_simp+
  moreover have "mem (objects demo_late) 1 = Some ?it" "kind ?it = ItrObject" "m_CloseRequested ?it = 0"
      "log (objects demo_late) = []"
    by code_simp+
  ultimately show ?thesis
    using reachable_demo_late by blast
qed

text \<open>
  The garbage collector is not blocked by an idle object: when no call
  holds the object or one of its children, the resource cleanup destroys the
  object, with all its children if it is a database, and frees its storage
  without waiting.
\<close>

theorem idle_cleanup_completes:
  assumes "reachable s" "a \<in> terms s" "a \<notin># holders s"
    and "\<And>c. c \<in> live_children (objects s) a \<Longrightarrow> c \<notin># holders s"
    and "mem (objects s) a = Some ob" "m_CloseRequested ob = 0"
  shows "\<exists>h. ResourceCleanup (objects s) a = Some h \<and> mem h a = None \<and> live_children h a = {} \<and>
    releases h a = 1 \<and> \<not> fault h"
proof -
  note m = reachable_parts(1) [OF assms(1)] and ok = reachable_parts(2) [OF assms(1)]
  let ?h = "snd (InitiateCloseRequest (objects s) (Some a))"
  have free: "count (holders s) a = 0" "\<And>c. c \<in> live_children (objects s) a \<Longrightarrow> count (holders s) c = 0"
    using assms(3,4) by (auto simp: not_in_iff)
  have keeps: "managed ?h (holders s)" "persists (objects s) ?h"
    using managed.initiate_keeps [OF m assms(5)] by auto
  have dead: "\<exists>ob'. mem ?h a = Some ob' \<and> m_CloseRequested ob' = 3" "live_children ?h a = {}"
  proof -
    show "\<exists>ob'. mem ?h a = Some ob' \<and> m_CloseRequested ob' = 3"
      using InitiateCloseRequest_db_destroys [OF m assms(5) _ assms(6) free]
        InitiateCloseRequest_child_destroys [OF ok assms(5) _ _ free(1)] assms(6)
      by (cases "kind ob = DbObject") auto
    show "live_children ?h a = {}"
    proof (cases "kind ob = DbObject")
      case True
      then show ?thesis
        using InitiateCloseRequest_db_destroys [OF m assms(5) _ assms(6) free] by blast
    next
      case False
      then have "live_children (objects s) a = {}"
        by (rule live_children_child [OF ok assms(5)])
      then show ?thesis
        using is_child_persists [OF keeps(2)] live_children_iff by blast
    qed
  qed
  then obtain ob' where ob': "mem ?h a = Some ob'" "m_CloseRequested ob' = 3"
    by blast
  let ?f = "?h\<lparr>mem := (mem ?h)(a := None)\<rparr>"
  have cleanup: "ResourceCleanup (objects s) a = Some ?f"
    using ob' by (simp add: ResourceCleanup_def AwaitCloseAndDestructor_def)
  have "managed ?f (holders s)"
    using managed_free [OF keeps(1) ob'] .
  then have "releases ?f a = 1" "\<not> fault ?f"
    using releases_Some [of ?h a ob'] keeps(1) heap_okD [of ?h "holders s" a ob'] ob'
    by (auto simp: managed_def heap_ok_def obj_ok_def releases_def)
  moreover have "live_children ?f a = {}"
    using dead(2) by (auto simp: live_children_def)
  ultimately show ?thesis
    using cleanup by simp
qed

theorem idle_cleanup_completes_witness:
  "\<exists>h. ResourceCleanup (objects run_open) 0 = Some h \<and> mem h 0 = None \<and> live_children h 0 = {} \<and>
     releases h 0 = 1 \<and> \<not> fault h"
proof (rule idle_cleanup_completes [OF reachable_run_open])
  show "0 \<in> terms run_open"
    by code_simp
  show "0 \<notin># holders run_open" "\<And>c. c \<notin># holders run_open"
    by (simp_all add: run_open_def initial_system_def)
  show "mem (objects run_open) 0 = Some (the (mem (objects run_open) 0))"
      "m_CloseRequested (the (mem (objects run_open) 0)) = 0"
    by code_simp+
qed

section \<open>The loops of a shutdown\<close>

text \<open>
  One round of a loop of \<open>DbObject::Shutdown\<close>: the first child of the class is taken out
  of its list and asked to close.
\<close>

definition shutdown_round :: "kind \<Rightarrow> addr \<Rightarrow> ref_heap \<Rightarrow> ref_heap" where
  "shutdown_round k d h =
     (case mem h d of
        None \<Rightarrow> h
      | Some ob \<Rightarrow>
          (case child_list k ob of
             [] \<Rightarrow> h
           | c # cs \<Rightarrow> child_InitiateCloseRequest k (put_obj h d (set_child_list k cs ob)) c))"

text \<open>
  Claim C37. The loops of \<open>DbObject::Shutdown\<close> end: the loop of a class takes at most one round per
  child in its list, also when closing a child takes others out of the list, and it leaves
  the list empty.
\<close>

theorem shutdown_loops_end:
  "\<exists>n h'. n \<le> pending k h d \<and> (shutdown_round k d ^^ n) h = h' \<and> pending k h' d = 0 \<and>
     shutdown_children k h d = (if mem h' d = None then h'\<lparr>fault := True\<rparr> else h')"
proof (induction k h d rule: shutdown_children.induct)
  case (1 k h d)
  show ?case
  proof (cases "\<exists>ob c cs. mem h d = Some ob \<and> child_list k ob = c # cs")
    case True
    then obtain ob c cs where ob: "mem h d = Some ob" "child_list k ob = c # cs"
      by blast
    let ?h = "child_InitiateCloseRequest k (put_obj h d (set_child_list k cs ob)) c"
    have "shutdown_round k d h = ?h" "shutdown_children k h d = shutdown_children k ?h d"
      using ob by (simp_all add: shutdown_round_def shutdown_children.simps [of k h d])
    moreover obtain n where "n \<le> pending k ?h d" "pending k ((shutdown_round k d ^^ n) ?h) d = 0"
        "shutdown_children k ?h d = (let h' = (shutdown_round k d ^^ n) ?h in if mem h' d = None then h'\<lparr>fault := True\<rparr> else h')"
      using "1.IH" [OF ob] by (auto simp: Let_def)
    moreover have "Suc n \<le> pending k h d"
      using calculation(3) pending_child_close [OF ob] by linarith
    ultimately show ?thesis
      by (intro exI [of _ "Suc n"]) (simp add: funpow_Suc_right Let_def del: funpow.simps)
  next
    case False
    then have none: "child_list k ob = []" if "mem h d = Some ob" for ob
      using that by (cases "child_list k ob") auto
    show ?thesis
      by (intro exI [of _ 0]) (auto simp: none pending_def shutdown_children.simps [of k h d] split: option.split)
  qed
qed

end
