(* ===== verification/Ref_Threads.thy ===== *)
theory Ref_Threads
  imports Ref_System
begin

text \<open>
  The calls on the reference-counted objects as threads. In \<open>Ref_System\<close> every operation runs to its
  end before the next one starts; here an operation is cut into the actions that are atomic in the
  source: one access to \<open>m_RefCount\<close> or \<open>m_CloseRequested\<close> (both are \<open>std::atomic\<close>), one critical
  section of a list mutex, one call into RocksDB, one write of \<open>m_ColumnFamily\<close>. What a thread does
  next is a \<open>token\<close>: the state is the heap and the multiset of the tokens of all threads, and any
  token may move next. A thread that has several things left to do may do them in any order here, so
  the runs of the code are among the runs of the model.

  Three windows of the source are not protected by a lock or a count. The flag \<open>raced\<close> records that
  a run went through one: a close was requested on an object while another call was between the check
  of \<open>m_CloseRequested\<close> and its \<open>RefInc\<close>, or while the object was still being created; a second
  \<open>DestroyColumnFamily\<close> reached RocksDB before the first had cleared \<open>m_ColumnFamily\<close>; the storage of
  a child was freed while the shutdown of its database had it in hand.
\<close>

section \<open>Tokens\<close>

text \<open>The parts of a destructor: give the RocksDB object back, leave the list of the database, drop
  the reference on the database, and the base destructor.\<close>

datatype dtor_act = Give | Unlist | DropDb | Mark

text \<open>
  \<open>Opening\<close>: a new object in the hands of the opening call, no term yet. \<open>Retrieved\<close>: returned by
  \<open>Retrieve...\<close>, \<open>RefInc\<close> to come. \<open>Held\<close>: in a \<open>ReferencePtr\<close>. \<open>Built\<close>: a child that counts on its
  database, not yet in its list. \<open>Listed\<close>: a child in the list, its own \<open>RefInc\<close> to come. \<open>GivenBack\<close>:
  \<open>DestroyColumnFamilyHandle\<close> answered, \<open>m_ColumnFamily\<close> not yet null. \<open>Requesting\<close>: \<open>InitiateCloseRequest\<close> to
  come, in a call or in the collector. \<open>Popped\<close>: taken out of a list by \<open>Shutdown\<close>,
  \<open>InitiateCloseRequest\<close> to come. \<open>Shutting\<close>: in \<open>Shutdown\<close>, with the loops left and then its \<open>RefDec\<close>.
  \<open>Zero\<close>: \<open>RefDec\<close> counted down to 0, the compare-and-swap to come. \<open>Destroying\<close>: in the destructor,
  with the parts left.
\<close>

datatype token =
    Opening addr
  | Retrieved addr
  | Held addr
  | Built addr
  | Listed addr
  | GivenBack addr bool
  | Requesting addr
  | Popped addr
  | Shutting addr "kind list"
  | Zero addr
  | Destroying addr "dtor_act list"

fun tok_addr :: "token \<Rightarrow> addr" where
  "tok_addr (Opening a) = a"
| "tok_addr (Retrieved a) = a"
| "tok_addr (Held a) = a"
| "tok_addr (Built a) = a"
| "tok_addr (Listed a) = a"
| "tok_addr (GivenBack a _) = a"
| "tok_addr (Requesting a) = a"
| "tok_addr (Popped a) = a"
| "tok_addr (Shutting a _) = a"
| "tok_addr (Zero a) = a"
| "tok_addr (Destroying a _) = a"

text \<open>Tokens that stand for one unit of \<open>m_RefCount\<close>, and pointers that no count protects.\<close>

fun counted :: "token \<Rightarrow> bool" where
  "counted (Held _) = True"
| "counted (GivenBack _ _) = True"
| "counted (Shutting _ _) = True"
| "counted _ = False"

fun is_young :: "token \<Rightarrow> bool" where
  "is_young (Built _) = True"
| "is_young (Listed _) = True"
| "is_young _ = False"

fun uncounted :: "token \<Rightarrow> bool" where
  "uncounted (Opening _) = True"
| "uncounted (Retrieved _) = True"
| "uncounted t = is_young t"

fun is_popped :: "token \<Rightarrow> bool" where
  "is_popped (Popped _) = True"
| "is_popped _ = False"

fun is_zero :: "token \<Rightarrow> bool" where
  "is_zero (Zero _) = True"
| "is_zero _ = False"

fun is_given :: "token \<Rightarrow> bool" where
  "is_given (GivenBack _ _) = True"
| "is_given _ = False"

fun given_ok :: "token \<Rightarrow> bool" where
  "given_ok (GivenBack _ ok) = ok"
| "given_ok _ = False"

fun is_dtor :: "token \<Rightarrow> bool" where
  "is_dtor (Destroying _ _) = True"
| "is_dtor _ = False"

fun dtor_acts :: "token \<Rightarrow> dtor_act list" where
  "dtor_acts (Destroying _ acts) = acts"
| "dtor_acts _ = []"

text \<open>The tokens of the calls that were given the object as an argument: their terms keep it from
  being collected. The others do not.\<close>

fun of_call :: "token \<Rightarrow> bool" where
  "of_call (Opening _) = True"
| "of_call (Retrieved _) = True"
| "of_call (Held _) = True"
| "of_call (Built _) = True"
| "of_call (Listed _) = True"
| "of_call (GivenBack _ _) = True"
| "of_call (Requesting _) = True"
| "of_call _ = False"

definition on :: "token multiset \<Rightarrow> addr \<Rightarrow> token multiset" where
  "on T a = filter_mset (\<lambda>t. tok_addr t = a) T"

definition none_on :: "(token \<Rightarrow> bool) \<Rightarrow> token multiset \<Rightarrow> addr \<Rightarrow> bool" where
  "none_on P T a \<longleftrightarrow> (\<forall>t \<in># T. \<not> (tok_addr t = a \<and> P t))"

text \<open>The state: the objects, the tokens, the objects that a term names, the column family handles that
  RocksDB refused to destroy, and the flag.\<close>

record threads =
  th_heap :: ref_heap
  tokens :: "token multiset"
  th_terms :: "addr set"
  lost :: "addr set"
  raced :: bool

definition initial_threads :: threads where
  "initial_threads = \<lparr>th_heap = empty_heap, tokens = {#}, th_terms = {}, lost = {}, raced = False\<rparr>"

section \<open>The parts of the operations\<close>

text \<open>\<open>--m_RefCount\<close> in \<open>RefDec\<close>, and whether the result was 0.\<close>

definition dec_ref :: "ref_heap \<Rightarrow> addr \<Rightarrow> ref_heap" where
  "dec_ref h a = with_live h a (\<lambda>ob. put_obj h a (ob\<lparr>m_RefCount := m_RefCount ob - 1\<rparr>))"

definition last_ref :: "ref_heap \<Rightarrow> addr \<Rightarrow> bool" where
  "last_ref h a \<longleftrightarrow> (case mem h a of None \<Rightarrow> False | Some ob \<Rightarrow> m_RefCount ob = 1)"

fun dtor_prog :: "kind \<Rightarrow> dtor_act list" where
  "dtor_prog DbObject = [Give, Mark]"
| "dtor_prog BackupEngineObject = [Give, Mark]"
| "dtor_prog ColumnFamilyObject = [Give, Unlist, DropDb, Mark]"
| "dtor_prog SnapshotObject = [Give, Unlist, DropDb, Mark]"
| "dtor_prog ItrObject = [Unlist, Give, DropDb, Mark]"
| "dtor_prog TLogItrObject = [Unlist, Give, DropDb, Mark]"
| "dtor_prog TransactionObject = [Unlist, Give, DropDb, Mark]"

text \<open>\<open>m_DbPtr->m_Db->DestroyColumnFamilyHandle(...)\<close> with the answer of RocksDB: a call that fails gives
  nothing back.\<close>

definition destroy_handle :: "ref_heap \<Rightarrow> addr option \<Rightarrow> addr \<Rightarrow> bool \<Rightarrow> ref_heap" where
  "destroy_handle h p c ok =
     (let h' = through_db h p (\<lambda>d. DestroyColumnFamilyHandle d c) in if ok then h' else h'\<lparr>log := log h\<rparr>)"

definition give_back :: "ref_heap \<Rightarrow> addr \<Rightarrow> bool \<Rightarrow> ref_heap" where
  "give_back h a ok =
     with_live h a (\<lambda>ob.
       case kind ob of
         DbObject \<Rightarrow> clear_native (if m_Native ob then emit (DeleteDb a) h else h) a
       | BackupEngineObject \<Rightarrow> clear_native (if m_Native ob then emit (DeleteBackupEngine a) h else h) a
       | ColumnFamilyObject \<Rightarrow> if m_Native ob then clear_native (destroy_handle h (m_DbPtr ob) a ok) a else h
       | SnapshotObject \<Rightarrow>
           clear_native (if m_Native ob then through_db h (m_DbPtr ob) (\<lambda>d. ReleaseSnapshotCall d a) else h) a
       | ItrObject \<Rightarrow>
           (let h1 = delete_slice (lower_bound_slice ob) (delete_slice (upper_bound_slice ob) h)
            in clear_native (if m_Native ob then emit (DeleteIterator (m_DbPtr ob) a) h1 else h1\<lparr>fault := True\<rparr>) a)
       | TLogItrObject \<Rightarrow> clear_native (if m_Native ob then emit (DeleteTLogItr (m_DbPtr ob) a) h else h) a
       | TransactionObject \<Rightarrow> clear_native (if m_Native ob then emit (DeleteTransaction (m_DbPtr ob) a) h else h) a)"

fun add_child :: "kind \<Rightarrow> ref_heap \<Rightarrow> addr \<Rightarrow> addr \<Rightarrow> ref_heap" where
  "add_child ItrObject h d c = AddReference h d c"
| "add_child ColumnFamilyObject h d c = AddColumnFamilyReference h d c"
| "add_child SnapshotObject h d c = AddSnapshotReference h d c"
| "add_child TLogItrObject h d c = AddTLogReference h d c"
| "add_child TransactionObject h d c = AddTransactionReference h d c"
| "add_child _ h d c = h"

fun remove_child :: "kind \<Rightarrow> ref_heap \<Rightarrow> addr \<Rightarrow> addr \<Rightarrow> ref_heap" where
  "remove_child ItrObject h d c = RemoveReference h d c"
| "remove_child ColumnFamilyObject h d c = RemoveColumnFamilyReference h d c"
| "remove_child SnapshotObject h d c = RemoveSnapshotReference h d c"
| "remove_child TLogItrObject h d c = RemoveTLogReference h d c"
| "remove_child TransactionObject h d c = RemoveTransactionReference h d c"
| "remove_child _ h d c = h"

text \<open>The loops of \<open>Shutdown\<close>, in order.\<close>

fun loops :: "kind \<Rightarrow> kind list" where
  "loops DbObject = [ItrObject, ColumnFamilyObject, SnapshotObject, TLogItrObject, TransactionObject]"
| "loops _ = []"

section \<open>Actions\<close>

datatype action =
    OpenDb bool bool | OpenEngine | Opened addr
  | RetrieveObj kind addr | RetrieveToClose kind addr | Assign addr | Release addr | AskClose addr
  | Build kind addr | Enlist addr | Created addr
  | Request addr | RequestPopped addr | Pop addr "kind list" | LoopDone addr "kind list" | ShutdownDone addr
  | Cas addr | Dtor addr "dtor_act list" bool
  | GiveCf addr bool | ClearCf addr bool
  | Collect addr | Free addr

text \<open>A token moves: it is taken out, and the rest of the state changes.\<close>

definition taking :: "token \<Rightarrow> threads \<Rightarrow> (threads \<Rightarrow> threads) \<Rightarrow> threads option" where
  "taking t s f = (if t \<in># tokens s then Some (f (s\<lparr>tokens := tokens s - {#t#}\<rparr>)) else None)"

definition adding :: "token \<Rightarrow> threads \<Rightarrow> threads" where
  "adding t s = s\<lparr>tokens := add_mset t (tokens s)\<rparr>"

definition on_heap :: "(ref_heap \<Rightarrow> ref_heap) \<Rightarrow> threads \<Rightarrow> threads" where
  "on_heap f s = s\<lparr>th_heap := f (th_heap s)\<rparr>"

text \<open>\<open>CreateDbObject\<close> and \<open>CreateBackupEngineObject\<close>: no other thread knows the object yet.\<close>

definition act_open :: "addr \<times> ref_heap \<Rightarrow> threads \<Rightarrow> threads" where
  "act_open new s = adding (Opening (fst new)) (s\<lparr>th_heap := snd new\<rparr>)"

definition act_opened :: "addr \<Rightarrow> threads \<Rightarrow> threads option" where
  "act_opened a s = taking (Opening a) s (\<lambda>s. s\<lparr>th_terms := insert a (th_terms s)\<rparr>)"

text \<open>
  \<open>Retrieve...\<close> on a term, by a call that will take a reference or by one that will request the close.
  \<open>RetrieveItrObject\<close> also refuses an iterator whose database is closing; here it may go on, so the
  runs of the code are still among those of the model.
\<close>

definition act_retrieve :: "(addr \<Rightarrow> token) \<Rightarrow> kind \<Rightarrow> addr \<Rightarrow> threads \<Rightarrow> threads option" where
  "act_retrieve t k a s =
     (if a \<in> th_terms s \<and> Retrieve (th_heap s) k (ERef a) = Some a then Some (adding (t a) s) else None)"

text \<open>\<open>ReferencePtr::assign\<close>.\<close>

definition act_assign :: "addr \<Rightarrow> threads \<Rightarrow> threads option" where
  "act_assign a s =
     (if count_free (th_heap s) a
      then taking (Retrieved a) s (\<lambda>s. adding (Held a) (on_heap (\<lambda>h. RefInc h a) s)) else None)"

text \<open>The decrement in \<open>RefDec\<close>.\<close>

definition drop_ref :: "addr \<Rightarrow> threads \<Rightarrow> threads" where
  "drop_ref a s =
     (let s' = on_heap (\<lambda>h. dec_ref h a) s in if last_ref (th_heap s) a then adding (Zero a) s' else s')"

definition act_release :: "addr \<Rightarrow> threads \<Rightarrow> threads option" where
  "act_release a s = taking (Held a) s (drop_ref a)"

text \<open>\<open>ReleaseSnapshot\<close> and \<open>ReleaseTransaction\<close> request the close while they hold a reference.\<close>

definition act_ask_close :: "addr \<Rightarrow> threads \<Rightarrow> threads option" where
  "act_ask_close a s = (if Held a \<in># tokens s then Some (adding (Requesting a) s) else None)"

text \<open>A child constructor up to its member \<open>m_DbPtr(DbPtr)\<close>, the entry in the list, and the \<open>RefInc\<close> in
  \<open>Create...Object\<close> with the term made of it.\<close>

definition act_build :: "kind \<Rightarrow> addr \<Rightarrow> threads \<Rightarrow> threads option" where
  "act_build k d s =
     (if (Held d \<in># tokens s \<or> Opening d \<in># tokens s) \<and> k \<notin> {DbObject, BackupEngineObject} \<and>
         count_free (th_heap s) d \<and> (\<exists>db \<in> set_option (mem (th_heap s) d). kind db = DbObject)
      then (let (c, h) = enif_alloc_resource (th_heap s) (new_object k (Some d))
            in Some (adding (Built c) (s\<lparr>th_heap := ReferencePtr_ctor h (Some d)\<rparr>)))
      else None)"

definition act_enlist :: "addr \<Rightarrow> threads \<Rightarrow> threads option" where
  "act_enlist c s =
     taking (Built c) s (\<lambda>s. adding (Listed c) (on_heap (\<lambda>h.
       with_live h c (\<lambda>ob. add_to_db (add_child (kind ob)) h (m_DbPtr ob) c)) s))"

definition act_created :: "addr \<Rightarrow> threads \<Rightarrow> threads option" where
  "act_created c s =
     taking (Listed c) s (\<lambda>s. on_heap (\<lambda>h. RefInc h c) (s\<lparr>th_terms := insert c (th_terms s)\<rparr>))"

text \<open>The compare-and-swap in \<open>InitiateCloseRequest\<close>; the thread that wins runs \<open>Shutdown\<close>.\<close>

definition request :: "addr \<Rightarrow> threads \<Rightarrow> threads" where
  "request a s =
     (case mem (th_heap s) a of
        None \<Rightarrow> on_heap (\<lambda>h. h\<lparr>fault := True\<rparr>) s
      | Some ob \<Rightarrow>
          if m_CloseRequested ob = 0
          then adding (Shutting a (loops (kind ob)))
                 (s\<lparr>th_heap := put_obj (th_heap s) a (ob\<lparr>m_CloseRequested := 1\<rparr>),
                    raced := raced s \<or> \<not> none_on uncounted (tokens s) a\<rparr>)
          else s)"

definition act_request :: "addr \<Rightarrow> threads \<Rightarrow> threads option" where
  "act_request a s = taking (Requesting a) s (request a)"

definition act_request_popped :: "addr \<Rightarrow> threads \<Rightarrow> threads option" where
  "act_request_popped a s = taking (Popped a) s (request a)"

text \<open>\<open>DbObject::Shutdown\<close>: one critical section of a loop takes the first child out of the list or finds
  the list empty; after the last loop, and in the other classes at once, the decrement in \<open>RefDec\<close>.\<close>

definition list_of :: "kind \<Rightarrow> ref_heap \<Rightarrow> addr \<Rightarrow> addr list" where
  "list_of k h d = (case mem h d of None \<Rightarrow> [] | Some db \<Rightarrow> child_list k db)"

definition pop_list :: "kind \<Rightarrow> ref_heap \<Rightarrow> addr \<Rightarrow> ref_heap" where
  "pop_list k h d = with_live h d (\<lambda>db. put_obj h d (set_child_list k (tl (child_list k db)) db))"

definition act_pop :: "addr \<Rightarrow> kind list \<Rightarrow> threads \<Rightarrow> threads option" where
  "act_pop d ks s =
     (case ks of
        [] \<Rightarrow> None
      | k # ks' \<Rightarrow>
          (case list_of k (th_heap s) d of
             [] \<Rightarrow> None
           | c # cs \<Rightarrow>
               if Shutting d ks \<in># tokens s then Some (adding (Popped c) (on_heap (\<lambda>h. pop_list k h d) s)) else None))"

definition act_loop_done :: "addr \<Rightarrow> kind list \<Rightarrow> threads \<Rightarrow> threads option" where
  "act_loop_done d ks s =
     (case ks of
        [] \<Rightarrow> None
      | k # ks' \<Rightarrow> if list_of k (th_heap s) d = [] then taking (Shutting d ks) s (adding (Shutting d ks')) else None)"

definition act_shutdown_done :: "addr \<Rightarrow> threads \<Rightarrow> threads option" where
  "act_shutdown_done a s = taking (Shutting a []) s (drop_ref a)"

text \<open>The compare-and-swap in \<open>RefDec\<close> after a decrement to 0.\<close>

definition act_cas :: "addr \<Rightarrow> threads \<Rightarrow> threads option" where
  "act_cas a s =
     taking (Zero a) s (\<lambda>s.
       case mem (th_heap s) a of
         None \<Rightarrow> on_heap (\<lambda>h. h\<lparr>fault := True\<rparr>) s
       | Some ob \<Rightarrow>
           if m_CloseRequested ob = 1
           then adding (Destroying a (dtor_prog (kind ob))) (on_heap (\<lambda>h. put_obj h a (ob\<lparr>m_CloseRequested := 2\<rparr>)) s)
           else s)"

text \<open>One part of a destructor.\<close>

definition dtor_part :: "dtor_act \<Rightarrow> bool \<Rightarrow> addr \<Rightarrow> threads \<Rightarrow> threads" where
  "dtor_part x ok a s =
     (case mem (th_heap s) a of
        None \<Rightarrow> on_heap (\<lambda>h. h\<lparr>fault := True\<rparr>) s
      | Some ob \<Rightarrow>
          (case x of
             Give \<Rightarrow> on_heap (\<lambda>h. give_back h a ok)
                       (if kind ob = ColumnFamilyObject \<and> m_Native ob \<and> \<not> ok then s\<lparr>lost := insert a (lost s)\<rparr> else s)
           | Unlist \<Rightarrow> on_heap (\<lambda>h. remove_from_db (remove_child (kind ob)) h (m_DbPtr ob) a) s
           | DropDb \<Rightarrow> (case m_DbPtr ob of None \<Rightarrow> s | Some d \<Rightarrow> drop_ref d s)
           | Mark \<Rightarrow> on_heap (\<lambda>h. ErlRefObject_dtor h a) s))"

definition act_dtor :: "addr \<Rightarrow> dtor_act list \<Rightarrow> bool \<Rightarrow> threads \<Rightarrow> threads option" where
  "act_dtor a acts ok s =
     (case acts of
        [] \<Rightarrow> None
      | x # rest \<Rightarrow>
          taking (Destroying a acts) s (\<lambda>s.
            dtor_part x ok a (if rest = [] then s else adding (Destroying a rest) s)))"

text \<open>\<open>DestroyColumnFamily\<close>: RocksDB is called with what \<open>m_ColumnFamily\<close> holds, then the pointer is
  cleared whatever the answer was, and after \<open>ok\<close> the close is requested.\<close>

definition act_give_cf :: "addr \<Rightarrow> bool \<Rightarrow> threads \<Rightarrow> threads option" where
  "act_give_cf c ok s =
     (if \<exists>ob \<in> set_option (mem (th_heap s) c). kind ob = ColumnFamilyObject
      then taking (Held c) s (\<lambda>s.
        adding (GivenBack c ok)
          (on_heap (\<lambda>h. with_live h c (\<lambda>ob. if m_Native ob then destroy_handle h (m_DbPtr ob) c ok else h))
            (s\<lparr>raced := raced s \<or> \<not> none_on is_given (tokens s) c\<rparr>)))
      else None)"

definition act_clear_cf :: "addr \<Rightarrow> bool \<Rightarrow> threads \<Rightarrow> threads option" where
  "act_clear_cf c ok s =
     taking (GivenBack c ok) s (\<lambda>s.
       let s1 = (if \<not> ok \<and> (\<exists>ob \<in> set_option (mem (th_heap s) c). m_Native ob)
                 then s\<lparr>lost := insert c (lost s)\<rparr> else s);
           s2 = adding (Held c) (on_heap (\<lambda>h. clear_native h c) s1)
       in if ok then adding (Requesting c) s2 else s2)"

text \<open>The garbage collector: once no term names the resource the callback requests the close, and
  when \<open>AwaitCloseAndDestructor\<close> returns the storage is freed.\<close>

definition act_collect :: "addr \<Rightarrow> threads \<Rightarrow> threads option" where
  "act_collect a s =
     (if a \<in> th_terms s \<and> none_on of_call (tokens s) a
      then Some (adding (Requesting a) (s\<lparr>th_terms := th_terms s - {a}\<rparr>)) else None)"

definition act_free :: "addr \<Rightarrow> threads \<Rightarrow> threads option" where
  "act_free a s =
     (if a \<notin> th_terms s \<and> mem (th_heap s) a \<noteq> None \<and> none_on of_call (tokens s) a
      then map_option (\<lambda>h. s\<lparr>th_heap := h, raced := raced s \<or> \<not> none_on is_popped (tokens s) a\<rparr>)
             (AwaitCloseAndDestructor (th_heap s) a)
      else None)"

fun perform :: "action \<Rightarrow> threads \<Rightarrow> threads option" where
  "perform (OpenDb pess ttl) s = Some (act_open (CreateDbObject (th_heap s) pess ttl) s)"
| "perform OpenEngine s = Some (act_open (CreateBackupEngineObject (th_heap s)) s)"
| "perform (Opened a) s = act_opened a s"
| "perform (RetrieveObj k a) s = act_retrieve Retrieved k a s"
| "perform (RetrieveToClose k a) s = act_retrieve Requesting k a s"
| "perform (Assign a) s = act_assign a s"
| "perform (Release a) s = act_release a s"
| "perform (AskClose a) s = act_ask_close a s"
| "perform (Build k d) s = act_build k d s"
| "perform (Enlist c) s = act_enlist c s"
| "perform (Created c) s = act_created c s"
| "perform (Request a) s = act_request a s"
| "perform (RequestPopped a) s = act_request_popped a s"
| "perform (Pop d ks) s = act_pop d ks s"
| "perform (LoopDone d ks) s = act_loop_done d ks s"
| "perform (ShutdownDone a) s = act_shutdown_done a s"
| "perform (Cas a) s = act_cas a s"
| "perform (Dtor a acts ok) s = act_dtor a acts ok s"
| "perform (GiveCf c ok) s = act_give_cf c ok s"
| "perform (ClearCf c ok) s = act_clear_cf c ok s"
| "perform (Collect a) s = act_collect a s"
| "perform (Free a) s = act_free a s"

inductive thread_step :: "threads \<Rightarrow> threads \<Rightarrow> bool" where
  act: "perform x s = Some s' \<Longrightarrow> thread_step s s'"

inductive thread_reachable :: "threads \<Rightarrow> bool" where
  init: "thread_reachable initial_threads"
| step: "thread_reachable s \<Longrightarrow> thread_step s s' \<Longrightarrow> thread_reachable s'"

text \<open>A run of given actions.\<close>

fun run_acts :: "action list \<Rightarrow> threads \<Rightarrow> threads option" where
  "run_acts [] s = Some s"
| "run_acts (x # xs) s = Option.bind (perform x s) (run_acts xs)"

lemma run_acts_reachable: "thread_reachable s \<Longrightarrow> run_acts xs s = Some s' \<Longrightarrow> thread_reachable s'"
proof (induction xs arbitrary: s)
  case (Cons x xs)
  then obtain s1 where s1: "perform x s = Some s1" "run_acts xs s1 = Some s'"
    by (auto split: bind_splits)
  with Cons.prems(1) have "thread_reachable s1"
    by (blast intro: thread_reachable.step thread_step.act)
  with Cons.IH s1(2) show ?case by blast
qed simp

end
