(* ===== verification/Thread_Inv.thy ===== *)
theory Thread_Inv
  imports Ref_Threads
begin

text \<open>
  The invariant of the threads: what the tokens on an object, its children and its fields have to do
  with each other. Every action that does not race keeps it.
\<close>

section \<open>The invariant\<close>

definition num :: "(token \<Rightarrow> bool) \<Rightarrow> token multiset \<Rightarrow> nat" where
  "num P K = size (filter_mset P K)"

lemma num_simps [simp]: "num P {#} = 0" "num P (add_mset t K) = (if P t then Suc (num P K) else num P K)"
  by (simp_all add: num_def)

definition dtors :: "token multiset \<Rightarrow> dtor_act list multiset" where
  "dtors K = image_mset dtor_acts (filter_mset is_dtor K)"

text \<open>An object refers to its database until its destructor has dropped the reference, and may be in
  the list of the database until its destructor has taken it out.\<close>

definition owns :: "token multiset \<Rightarrow> ref_object \<Rightarrow> bool" where
  "owns K ob \<longleftrightarrow> m_CloseRequested ob \<noteq> 3 \<and> (\<forall>acts \<in># dtors K. DropDb \<in> set acts)"

definition listed :: "token multiset \<Rightarrow> ref_object \<Rightarrow> bool" where
  "listed K ob \<longleftrightarrow> m_CloseRequested ob \<noteq> 3 \<and> (\<forall>acts \<in># dtors K. Unlist \<in> set acts)"

definition owned :: "ref_heap \<Rightarrow> token multiset \<Rightarrow> addr \<Rightarrow> addr set" where
  "owned h T d = {c. \<exists>ob. mem h c = Some ob \<and> m_DbPtr ob = Some d \<and> owns (on T c) ob}"

text \<open>One object: \<open>K\<close> are the tokens on it, \<open>n\<close> the number of children that refer to it, \<open>r\<close> the
  number of times its RocksDB object was given back, \<open>l\<close> whether that failed, \<open>m\<close> whether a term
  names it.\<close>

definition self_ok :: "token multiset \<Rightarrow> nat \<Rightarrow> nat \<Rightarrow> bool \<Rightarrow> bool \<Rightarrow> ref_object \<Rightarrow> bool" where
  "self_ok K n r l m ob \<longleftrightarrow>
     m_CloseRequested ob \<in> {0, 1, 2, 3} \<and>
     (m_DbPtr ob = None \<longleftrightarrow> kind ob \<in> {DbObject, BackupEngineObject}) \<and>
     unat (m_RefCount ob) = num counted K + n + (if m_CloseRequested ob = 0 \<and> num is_young K = 0 then 1 else 0) \<and>
     (m_CloseRequested ob \<notin> {0, 1} \<longrightarrow> m_RefCount ob = 0) \<and>
     (m_CloseRequested ob \<noteq> 0 \<longrightarrow> num uncounted K = 0) \<and>
     (num is_young K \<noteq> 0 \<longrightarrow> \<not> m \<and> kind ob \<notin> {DbObject, BackupEngineObject} \<and> num (\<lambda>t. \<not> is_popped t) K = 1) \<and>
     num is_zero K = (if m_CloseRequested ob = 1 \<and> m_RefCount ob = 0 then 1 else 0) \<and>
     (m_CloseRequested ob = 2 \<longrightarrow>
        (\<exists>acts. dtors K = {#acts#} \<and> acts \<noteq> [] \<and> (\<exists>p. dtor_prog (kind ob) = p @ acts) \<and>
           (m_Native ob \<longrightarrow> Give \<in> set acts) \<and>
           (kind ob \<noteq> ColumnFamilyObject \<longrightarrow> Give \<in> set acts \<longrightarrow> m_Native ob))) \<and>
     (m_CloseRequested ob \<noteq> 2 \<longrightarrow> dtors K = {#}) \<and>
     (m_CloseRequested ob \<in> {0, 1} \<longrightarrow> kind ob \<noteq> ColumnFamilyObject \<longrightarrow> m_Native ob) \<and>
     (m_CloseRequested ob = 3 \<longrightarrow> \<not> m_Native ob) \<and>
     num is_given K \<le> 1 \<and>
     (num is_given K \<noteq> 0 \<longrightarrow> kind ob = ColumnFamilyObject) \<and>
     (l \<longrightarrow> \<not> m_Native ob) \<and>
     r = (if l \<or> m_Native ob \<and> num given_ok K = 0 then 0 else 1)"

definition owner_ok :: "ref_heap \<Rightarrow> token multiset \<Rightarrow> addr \<Rightarrow> ref_object \<Rightarrow> bool" where
  "owner_ok h T a ob \<longleftrightarrow>
     (\<forall>d. m_DbPtr ob = Some d \<longrightarrow> owns (on T a) ob \<longrightarrow> (\<exists>db. mem h d = Some db \<and> kind db = DbObject))"

definition listed_child :: "ref_heap \<Rightarrow> token multiset \<Rightarrow> kind \<Rightarrow> addr \<Rightarrow> addr \<Rightarrow> bool" where
  "listed_child h T k d c \<longleftrightarrow>
     (\<exists>oc. mem h c = Some oc \<and> kind oc = k \<and> m_DbPtr oc = Some d \<and> listed (on T c) oc)"

definition addr_ok :: "ref_heap \<Rightarrow> token multiset \<Rightarrow> addr set \<Rightarrow> addr set \<Rightarrow> addr \<Rightarrow> bool" where
  "addr_ok h T ts ls a \<longleftrightarrow>
     (case mem h a of
        None \<Rightarrow> on T a = {#} \<and> a \<notin> ts \<and> (a \<in> ls \<longrightarrow> a < next_addr h) \<and>
          releases h a = (if a < next_addr h \<and> a \<notin> ls then 1 else 0)
      | Some ob \<Rightarrow>
          a < next_addr h \<and>
          self_ok (on T a) (card (owned h T a)) (releases h a) (a \<in> ls) (a \<in> ts) ob \<and>
          owner_ok h T a ob \<and> (\<forall>k. \<forall>c \<in> set (child_list k ob). listed_child h T k a c))"

definition tinv :: "ref_heap \<Rightarrow> token multiset \<Rightarrow> addr set \<Rightarrow> addr set \<Rightarrow> bool" where
  "tinv h T ts ls \<longleftrightarrow> \<not> fault h \<and> db_deleted_last (log h) \<and> (\<forall>a. addr_ok h T ts ls a)"

section \<open>Reading the invariant\<close>

lemma dtors_simps [simp]:
  "dtors {#} = {#}" "dtors (add_mset t K) = (if is_dtor t then add_mset (dtor_acts t) (dtors K) else dtors K)"
  by (simp_all add: dtors_def)

lemma on_simps [simp]:
  "on {#} a = {#}"
  "on (add_mset t T) a = (if tok_addr t = a then add_mset t (on T a) else on T a)"
  by (simp_all add: on_def)

lemma on_member: "t \<in># on T a \<longleftrightarrow> t \<in># T \<and> tok_addr t = a"
  by (auto simp: on_def)

lemma none_on_iff: "none_on P T a \<longleftrightarrow> num P (on T a) = 0"
  by (auto simp: none_on_def on_def num_def)

lemma tinvD:
  assumes "tinv h T ts ls" "mem h a = Some ob"
  shows "a < next_addr h" "self_ok (on T a) (card (owned h T a)) (releases h a) (a \<in> ls) (a \<in> ts) ob"
    "owner_ok h T a ob" "\<And>k c. c \<in> set (child_list k ob) \<Longrightarrow> listed_child h T k a c"
  using assms by (auto simp: tinv_def addr_ok_def dest: spec [of _ a])

lemma tinv_None:
  assumes "tinv h T ts ls" "mem h a = None"
  shows "on T a = {#}" "a \<notin> ts" "a \<in> ls \<Longrightarrow> a < next_addr h"
    "releases h a = (if a < next_addr h \<and> a \<notin> ls then 1 else 0)"
  using assms by (auto simp: tinv_def addr_ok_def dest: spec [of _ a])

lemma tinv_token:
  assumes "tinv h T ts ls" "t \<in># T"
  obtains ob where "mem h (tok_addr t) = Some ob"
proof (cases "mem h (tok_addr t)")
  case None
  then show ?thesis
    using tinv_None(1) [OF assms(1)] assms(2) on_member [of t T "tok_addr t"] by auto
qed (use that in blast)

lemma finite_owned: "tinv h T ts ls \<Longrightarrow> finite (owned h T d)"
  by (rule finite_subset [of _ "{..< next_addr h}"]) (auto simp: owned_def dest: tinvD(1))

lemma self_okD:
  assumes "self_ok K n r l m ob"
  shows "m_CloseRequested ob \<in> {0, 1, 2, 3}"
    "m_DbPtr ob = None \<longleftrightarrow> kind ob \<in> {DbObject, BackupEngineObject}"
    "unat (m_RefCount ob) = num counted K + n + (if m_CloseRequested ob = 0 \<and> num is_young K = 0 then 1 else 0)"
    "m_CloseRequested ob \<notin> {0, 1} \<Longrightarrow> m_RefCount ob = 0"
    "m_CloseRequested ob \<noteq> 0 \<Longrightarrow> num uncounted K = 0"
    "num is_young K \<noteq> 0 \<Longrightarrow> \<not> m \<and> kind ob \<notin> {DbObject, BackupEngineObject} \<and> num (\<lambda>t. \<not> is_popped t) K = 1"
    "num is_zero K = (if m_CloseRequested ob = 1 \<and> m_RefCount ob = 0 then 1 else 0)"
    "m_CloseRequested ob = 2 \<Longrightarrow>
        (\<exists>acts. dtors K = {#acts#} \<and> acts \<noteq> [] \<and> (\<exists>p. dtor_prog (kind ob) = p @ acts) \<and>
           (m_Native ob \<longrightarrow> Give \<in> set acts) \<and>
           (kind ob \<noteq> ColumnFamilyObject \<longrightarrow> Give \<in> set acts \<longrightarrow> m_Native ob))"
    "m_CloseRequested ob \<noteq> 2 \<Longrightarrow> dtors K = {#}"
    "m_CloseRequested ob \<in> {0, 1} \<Longrightarrow> kind ob \<noteq> ColumnFamilyObject \<Longrightarrow> m_Native ob"
    "m_CloseRequested ob = 3 \<Longrightarrow> \<not> m_Native ob"
    "num is_given K \<le> 1"
    "num is_given K \<noteq> 0 \<Longrightarrow> kind ob = ColumnFamilyObject"
    "l \<Longrightarrow> \<not> m_Native ob"
    "r = (if l \<or> m_Native ob \<and> num given_ok K = 0 then 0 else 1)"
  using assms unfolding self_ok_def by argo+

text \<open>An object that is referred to is not in its destructor.\<close>

lemma self_ok_referred:
  assumes "self_ok K n r l m ob" "num counted K \<noteq> 0 \<or> n \<noteq> 0"
  shows "m_CloseRequested ob = 0 \<or> m_CloseRequested ob = 1" "m_RefCount ob \<noteq> 0" "dtors K = {#}"
proof -
  have "unat (m_RefCount ob) \<noteq> 0"
    using self_okD(3) [OF assms(1)] assms(2) by auto
  then show ref: "m_RefCount ob \<noteq> 0"
    by auto
  then show live: "m_CloseRequested ob = 0 \<or> m_CloseRequested ob = 1"
    using self_okD(4) [OF assms(1)] by auto
  then show "dtors K = {#}"
    using self_okD(9) [OF assms(1)] by auto
qed

lemma owner_live_db:
  assumes inv: "tinv h T ts ls" and a: "mem h a = Some ob" "m_DbPtr ob = Some d" "owns (on T a) ob"
  obtains db where "mem h d = Some db" "kind db = DbObject" "m_CloseRequested db = 0 \<or> m_CloseRequested db = 1"
    "m_Native db" "m_RefCount db \<noteq> 0" "dtors (on T d) = {#}" "a \<in> owned h T d"
proof -
  obtain db where db: "mem h d = Some db" "kind db = DbObject"
    using tinvD(3) [OF inv a(1)] a(2,3) by (auto simp: owner_ok_def)
  have mem: "a \<in> owned h T d"
    using a by (auto simp: owned_def)
  then have "card (owned h T d) \<noteq> 0"
    using finite_owned [OF inv] by auto
  note live = self_ok_referred [OF tinvD(2) [OF inv db(1)] disjI2 [OF this]]
  moreover have "m_Native db"
    using live(1) self_okD(10) [OF tinvD(2) [OF inv db(1)]] db(2) by auto
  ultimately show ?thesis
    using db mem that by blast
qed

lemma dtor_prog_parts:
  assumes "dtor_prog k = p @ x # rest"
  shows "x \<notin> set rest" "x = Mark \<longleftrightarrow> rest = []"
    "k \<notin> {DbObject, BackupEngineObject} \<Longrightarrow> x = Give \<or> x = Unlist \<Longrightarrow> DropDb \<in> set rest"
    "x = DropDb \<Longrightarrow> k \<notin> {DbObject, BackupEngineObject} \<and> Give \<notin> set rest \<and> Unlist \<notin> set rest"
    "x = Unlist \<Longrightarrow> k \<notin> {DbObject, BackupEngineObject}"
  using assms by (cases k; auto simp: Cons_eq_append_conv)+

lemma listed_owns:
  assumes "self_ok K n r l m ob" "listed K ob" "m_DbPtr ob \<noteq> None"
  shows "owns K ob"
proof (cases "m_CloseRequested ob = 2")
  case True
  then obtain acts p where acts: "dtors K = {#acts#}" "dtor_prog (kind ob) = p @ acts"
    using self_okD(8) [OF assms(1)] by blast
  have "Unlist \<in> set acts"
    using assms(2) acts(1) by (simp add: listed_def)
  then have "DropDb \<in> set acts"
    using acts(2) by (cases "kind ob") (auto simp: Cons_eq_append_conv append_eq_Cons_conv)
  then show ?thesis
    using assms(2) acts(1) by (simp add: listed_def owns_def)
next
  case False
  then show ?thesis
    using assms(2) self_okD(9) [OF assms(1) False] by (simp add: listed_def owns_def)
qed

section \<open>One object changes\<close>

lemma tinv_local:
  assumes inv: "tinv h T ts ls" and a: "mem h a = Some ob"
    and heap: "mem h' = (mem h)(a := Some ob')" "next_addr h' = next_addr h" "\<not> fault h'"
      "db_deleted_last (log h')" "\<And>b. b \<noteq> a \<Longrightarrow> releases h' b = releases h b"
    and frame: "\<And>b. b \<noteq> a \<Longrightarrow> on T' b = on T b" "\<And>b. b \<noteq> a \<Longrightarrow> (b \<in> ts') = (b \<in> ts)"
      "\<And>b. b \<noteq> a \<Longrightarrow> (b \<in> ls') = (b \<in> ls)"
    and obj: "kind ob' = kind ob" "m_DbPtr ob' = m_DbPtr ob"
      "\<And>k c. c \<in> set (child_list k ob') \<Longrightarrow> c \<in> set (child_list k ob) \<or> c \<noteq> a \<and> listed_child h T k a c"
    and owns: "m_DbPtr ob \<noteq> None \<Longrightarrow> owns (on T' a) ob' = owns (on T a) ob"
    and listed: "listed (on T a) ob \<Longrightarrow>
      listed (on T' a) ob' \<or> (\<forall>d db k. mem h d = Some db \<longrightarrow> a \<notin> set (child_list k db))"
    and self: "self_ok (on T' a) (card (owned h T a)) (releases h' a) (a \<in> ls') (a \<in> ts') ob'"
  shows "tinv h' T' ts' ls'"
proof -
  have owned: "owned h' T' d = owned h T d" for d
    using a heap(1) obj(2) owns frame(1) unfolding owned_def by (auto split: if_splits)
  have child: "listed_child h' T' k d c" if "listed_child h T k d c" "c = a \<longrightarrow> listed (on T' a) ob'" for k d c
    using that a heap(1) obj(1,2) frame(1) by (auto simp: listed_child_def)
  have child_of: "listed_child h' T' k d c"
    if d: "mem h d = Some db" and c: "c \<in> set (child_list k db)" for d db k c
  proof (rule child)
    show lc: "listed_child h T k d c"
      using tinvD(4) [OF inv d] c .
    show "c = a \<longrightarrow> listed (on T' a) ob'"
    proof
      assume "c = a"
      then show "listed (on T' a) ob'"
        using listed lc a d c by (auto simp: listed_child_def)
    qed
  qed
  have db: "\<exists>db. mem h' d = Some db \<and> kind db = DbObject" if "\<exists>db. mem h d = Some db \<and> kind db = DbObject" for d
    using that a heap(1) obj(1) by auto
  have "addr_ok h' T' ts' ls' b" for b
  proof (cases "b = a")
    case True
    have "owner_ok h' T' a ob'"
      using tinvD(3) [OF inv a] obj(2) owns db by (simp add: owner_ok_def)
    moreover have "listed_child h' T' k a c" if "c \<in> set (child_list k ob')" for k c
      using obj(3) [OF that] child_of [OF a] child by blast
    ultimately show ?thesis
      using True self heap(1,2) tinvD(1) [OF inv a] by (simp add: addr_ok_def owned)
  next
    case False
    show ?thesis
    proof (cases "mem h b")
      case None
      then show ?thesis
        using tinv_None [OF inv None] False frame heap by (simp add: addr_ok_def)
    next
      case (Some x)
      have "owner_ok h' T' b x"
        using tinvD(3) [OF inv Some] False frame(1) db unfolding owner_ok_def by metis
      then show ?thesis
        using tinvD(1,2) [OF inv Some] child_of [OF Some] Some False frame heap by (simp add: addr_ok_def owned)
    qed
  qed
  then show ?thesis
    using heap(3,4) by (simp add: tinv_def)
qed

text \<open>The same for a field update that leaves the log alone.\<close>

lemma tinv_put:
  assumes "tinv h T ts ls" "mem h a = Some ob"
    and "\<And>b. b \<noteq> a \<Longrightarrow> on T' b = on T b" "\<And>b. b \<noteq> a \<Longrightarrow> (b \<in> ts') = (b \<in> ts)" "\<And>b. b \<noteq> a \<Longrightarrow> (b \<in> ls') = (b \<in> ls)"
    and "kind ob' = kind ob" "m_DbPtr ob' = m_DbPtr ob"
      "\<And>k c. c \<in> set (child_list k ob') \<Longrightarrow> c \<in> set (child_list k ob) \<or> c \<noteq> a \<and> listed_child h T k a c"
    and "m_DbPtr ob \<noteq> None \<Longrightarrow> owns (on T' a) ob' = owns (on T a) ob"
    and "listed (on T a) ob \<Longrightarrow>
      listed (on T' a) ob' \<or> (\<forall>d db k. mem h d = Some db \<longrightarrow> a \<notin> set (child_list k db))"
    and "self_ok (on T' a) (card (owned h T a)) (releases h a) (a \<in> ls') (a \<in> ts') ob'"
  shows "tinv (put_obj h a ob') T' ts' ls'"
  by (rule tinv_local [OF assms(1,2), of "put_obj h a ob'" ob' T' ts' ls'])
    (use assms in \<open>auto simp: tinv_def releases_def\<close>)

section \<open>One object, one token\<close>

lemma num_mono: "(\<And>t. P t \<Longrightarrow> Q t) \<Longrightarrow> num P K \<le> num Q K"
  by (induction K) (auto simp: le_SucI)

lemma young_unpopped: "num is_young K \<le> num (\<lambda>t. \<not> is_popped t) K"
  by (rule num_mono) (metis is_popped.elims(2) is_young.simps(8))

lemma young_uncounted: "num is_young K \<le> num uncounted K"
proof (rule num_mono)
  fix t assume "is_young t" then show "uncounted t" by (cases t) auto
qed

lemma counted_unpopped: "num counted K \<le> num (\<lambda>t. \<not> is_popped t) K"
proof (rule num_mono)
  fix t assume "counted t" then show "\<not> is_popped t" by (cases t) auto
qed

lemma ok_given: "num given_ok K \<le> num is_given K"
  by (rule num_mono) (metis given_ok.elims(2) is_given.simps(1))

lemma unat_inc: "(c :: u32) \<noteq> - 1 \<Longrightarrow> unat (c + 1) = Suc (unat c) \<and> c + 1 \<noteq> 0"
  by (metis add.commute eq_neg_iff_add_eq_0 unatSuc)

lemma unat_dec: "(c :: u32) \<noteq> 0 \<Longrightarrow> Suc (unat (c - 1)) = unat c"
  by (simp add: unat_minus_one unat_gt_0)

lemmas self_ok_ctxt = young_unpopped young_uncounted ok_given

lemma self_ok_not_young:
  assumes "self_ok (add_mset t K) n r l m ob" "\<not> is_popped t" "\<not> is_young t"
  shows "num is_young K = 0"
  using self_okD(6) [OF assms(1)] young_unpopped [of K] assms(2,3) by auto

lemma self_ok_opened:
  assumes "self_ok (add_mset (Opening a) K) n r l m ob"
  shows "self_ok K n r l True ob"
  using assms self_ok_not_young [OF assms] unfolding self_ok_def by simp

lemma self_ok_retrieved:
  assumes "self_ok K n r l True ob" "m_CloseRequested ob = 0"
  shows "self_ok (add_mset (Retrieved a) K) n r l True ob"
  using assms unfolding self_ok_def by simp

lemma self_ok_requesting:
  assumes "self_ok K n r l m ob" "num is_young K = 0"
  shows "self_ok (add_mset (Requesting a) K) n r l m' ob"
  using assms unfolding self_ok_def by simp

lemma self_ok_assign:
  assumes "self_ok (add_mset (Retrieved a) K) n r l m ob" "m_RefCount ob \<noteq> - 1"
  shows "self_ok (add_mset (Held a) K) n r l m (ob\<lparr>m_RefCount := m_RefCount ob + 1\<rparr>)"
proof -
  have "m_CloseRequested ob = 0"
    using self_okD(5) [OF assms(1)] by auto
  then show ?thesis
    using assms(1) self_ok_not_young [OF assms(1)] unat_inc [OF assms(2)] unfolding self_ok_def by simp
qed

lemma self_ok_dec:
  assumes "self_ok (add_mset t K) n r l m ob" "counted t" "\<not> is_given t" "tok_addr t = a"
  shows "self_ok (if m_RefCount ob = 1 then add_mset (Zero a) K else K) n r l m (ob\<lparr>m_RefCount := m_RefCount ob - 1\<rparr>)"
proof -
  have t: "\<not> is_popped t" "\<not> is_young t" "\<not> is_zero t" "\<not> is_dtor t" "\<not> uncounted t" "\<not> given_ok t"
    using assms(2,3) by (cases t; simp)+
  have live: "m_CloseRequested ob = 0 \<or> m_CloseRequested ob = 1" "m_RefCount ob \<noteq> 0"
    using self_ok_referred [OF assms(1)] assms(2) by simp_all
  have last: "m_CloseRequested ob = 1" if "m_RefCount ob = 1"
    using self_okD(3) [OF assms(1)] that live(1) assms(2) self_ok_not_young [OF assms(1) t(1,2)] t by auto
  have "m_RefCount ob = 1 \<longleftrightarrow> m_RefCount ob - 1 = 0"
    by simp
  then show ?thesis
    using assms(1-3) t self_ok_not_young [OF assms(1) t(1,2)] unat_dec [OF live(2)] live last
    unfolding self_ok_def by (auto split: if_splits)
qed

lemma self_ok_request_lost:
  assumes "self_ok (add_mset t K) n r l m ob" "t = Requesting a \<or> t = Popped a"
  shows "self_ok K n r l m ob"
proof (cases t)
  case (Requesting b)
  then show ?thesis
    using assms(1) self_ok_not_young [OF assms(1)] unfolding self_ok_def by simp
next
  case (Popped b)
  then show ?thesis
    using assms(1) unfolding self_ok_def by simp
qed (use assms(2) in simp_all)

lemma self_ok_request:
  assumes "self_ok (add_mset t K) n r l m ob" "t = Requesting a \<or> t = Popped a"
    and "m_CloseRequested ob = 0" "num uncounted K = 0"
  shows "self_ok (add_mset (Shutting a ks) K) n r l m (ob\<lparr>m_CloseRequested := 1\<rparr>)"
proof -
  have "num is_young K = 0"
    using young_uncounted [of K] assms(4) by simp
  then show ?thesis
    using self_ok_request_lost [OF assms(1,2)] assms(3,4) unfolding self_ok_def by auto
qed

lemma self_ok_shutting:
  "self_ok (add_mset (Shutting a ks) K) n r l m ob \<Longrightarrow> self_ok (add_mset (Shutting a ks') K) n r l m ob"
  unfolding self_ok_def by simp

lemma self_ok_popped: "self_ok K n r l m ob \<Longrightarrow> self_ok (add_mset (Popped a) K) n r l m ob"
  unfolding self_ok_def by simp

lemma self_ok_lists [simp]:
  "self_ok K n r l m (set_child_list k xs ob) = self_ok K n r l m ob"
  by (simp add: self_ok_def)

lemma self_ok_enlist:
  "self_ok (add_mset (Built a) K) n r l m ob \<Longrightarrow> self_ok (add_mset (Listed a) K) n r l m ob"
  unfolding self_ok_def by simp

lemma self_ok_created:
  assumes "self_ok (add_mset (Listed a) K) n r l m ob" "n = 0"
  shows "self_ok K n r l True (ob\<lparr>m_RefCount := m_RefCount ob + 1\<rparr>)"
proof -
  have zero: "m_CloseRequested ob = 0"
    using self_okD(5) [OF assms(1)] by auto
  have alone: "num (\<lambda>t. \<not> is_popped t) K = 0"
    using self_okD(6) [OF assms(1)] by simp
  then have "num is_young K = 0"
    using young_unpopped [of K] by simp
  moreover have "num counted K \<le> num (\<lambda>t. \<not> is_popped t) K"
    by (rule counted_unpopped)
  then have "num counted K = 0"
    using alone by simp
  then have "m_RefCount ob = 0"
    using self_okD(3) [OF assms(1)] assms(2) by (simp add: unat_eq_zero)
  ultimately show ?thesis
    using assms(1) zero \<open>num counted K = 0\<close> assms(2) unfolding self_ok_def by simp
qed

lemma self_ok_cas:
  assumes "self_ok (add_mset (Zero a) K) n r l m ob"
  shows "m_CloseRequested ob = 1"
    "self_ok (add_mset (Destroying a (dtor_prog (kind ob))) K) n r l m (ob\<lparr>m_CloseRequested := 2\<rparr>)"
proof -
  show one: "m_CloseRequested ob = 1"
    using self_okD(7) [OF assms] by (auto split: if_splits)
  moreover have "m_RefCount ob = 0" "num is_zero K = 0"
    using self_okD(7) [OF assms] by (auto split: if_splits)
  moreover have "dtor_prog (kind ob) \<noteq> []" "Give \<in> set (dtor_prog (kind ob))"
    by (cases "kind ob"; simp)+
  ultimately show "self_ok (add_mset (Destroying a (dtor_prog (kind ob))) K) n r l m (ob\<lparr>m_CloseRequested := 2\<rparr>)"
    using assms self_ok_not_young [OF assms] unfolding self_ok_def by simp
qed

text \<open>The parts of a destructor.\<close>

lemma self_ok_dtor:
  assumes "self_ok (add_mset (Destroying a (x # rest)) K) n r l m ob"
  obtains p where "m_CloseRequested ob = 2" "dtors K = {#}" "dtor_prog (kind ob) = p @ x # rest"
    "m_Native ob \<longrightarrow> Give \<in> set (x # rest)"
    "kind ob \<noteq> ColumnFamilyObject \<longrightarrow> Give \<in> set (x # rest) \<longrightarrow> m_Native ob" "num is_young K = 0" "m_RefCount ob = 0"
    "num counted K = 0" "n = 0"
proof -
  have two: "m_CloseRequested ob = 2"
    using self_okD(9) [OF assms] by auto
  then have "m_RefCount ob = 0"
    using self_okD(4) [OF assms] by simp
  moreover from this have "num counted K = 0" "n = 0"
    using self_okD(3) [OF assms] by auto
  ultimately show ?thesis
    using self_okD(8) [OF assms two] self_ok_not_young [OF assms] two that by auto
qed

lemma self_ok_dtor_part:
  assumes "self_ok (add_mset (Destroying a (x # rest)) K) n r l m ob" "x = Unlist \<or> x = DropDb"
  shows "rest \<noteq> []" "self_ok (add_mset (Destroying a rest) K) n r l m ob"
proof -
  obtain p where p: "m_CloseRequested ob = 2" "dtors K = {#}" "dtor_prog (kind ob) = p @ x # rest"
      "m_Native ob \<longrightarrow> Give \<in> set (x # rest)"
      "kind ob \<noteq> ColumnFamilyObject \<longrightarrow> Give \<in> set (x # rest) \<longrightarrow> m_Native ob"
    using assms(1) by (rule self_ok_dtor)
  show ne: "rest \<noteq> []"
    using dtor_prog_parts(2) [OF p(3)] assms(2) by auto
  have "dtor_prog (kind ob) = (p @ [x]) @ rest"
    using p(3) by simp
  then have "\<exists>p. dtor_prog (kind ob) = p @ rest"
    by blast
  then show "self_ok (add_mset (Destroying a rest) K) n r l m ob"
    using assms p(1,2,4,5) ne unfolding self_ok_def by auto
qed

lemma self_ok_give:
  assumes "self_ok (add_mset (Destroying a (Give # rest)) K) n r l m ob"
  shows "rest \<noteq> []"
    "self_ok (add_mset (Destroying a rest) K) n (if l' then 0 else 1) l' m (ob\<lparr>m_Native := False\<rparr>)"
proof -
  obtain p where p: "m_CloseRequested ob = 2" "dtors K = {#}" "dtor_prog (kind ob) = p @ Give # rest"
    using assms by (rule self_ok_dtor)
  show ne: "rest \<noteq> []"
    using dtor_prog_parts(2) [OF p(3)] by auto
  have "dtor_prog (kind ob) = (p @ [Give]) @ rest"
    using p(3) by simp
  then have "\<exists>p. dtor_prog (kind ob) = p @ rest"
    by blast
  then show "self_ok (add_mset (Destroying a rest) K) n (if l' then 0 else 1) l' m (ob\<lparr>m_Native := False\<rparr>)"
    using assms p(1,2) ne dtor_prog_parts(1) [OF p(3)] unfolding self_ok_def by auto
qed

lemma self_ok_given_back:
  assumes "self_ok (add_mset (Destroying a acts) K) n r l m ob" "m_Native ob"
  shows "\<not> l" "r = 0"
proof -
  have "num given_ok K \<le> num counted K"
    by (rule num_mono) (metis counted.simps(2) given_ok.elims(2))
  moreover have "m_CloseRequested ob = 2"
    using self_okD(9) [OF assms(1)] by auto
  then have "m_RefCount ob = 0"
    using self_okD(4) [OF assms(1)] by simp
  then have "num counted K = 0"
    using self_okD(3) [OF assms(1)] by simp
  ultimately show "\<not> l" "r = 0"
    using self_okD(14,15) [OF assms(1)] assms(2) by auto
qed

lemma self_ok_mark:
  assumes "self_ok (add_mset (Destroying a (Mark # rest)) K) n r l m ob"
  shows "rest = []" "self_ok K n r l m (ob\<lparr>m_CloseRequested := 3\<rparr>)"
proof -
  obtain p where p: "m_CloseRequested ob = 2" "dtors K = {#}" "dtor_prog (kind ob) = p @ Mark # rest"
      "m_Native ob \<longrightarrow> Give \<in> set (Mark # rest)" "num is_young K = 0" "num counted K = 0" "n = 0"
    using assms by (rule self_ok_dtor)
  show nil: "rest = []"
    using dtor_prog_parts(2) [OF p(3)] by simp
  then have "\<not> m_Native ob"
    using p(4) by auto
  then show "self_ok K n r l m (ob\<lparr>m_CloseRequested := 3\<rparr>)"
    using assms p(1,2,5,6,7) unfolding self_ok_def by simp
qed

text \<open>\<open>DestroyColumnFamily\<close>.\<close>

lemma self_ok_give_cf:
  assumes "self_ok (add_mset (Held a) K) n r l m ob" "kind ob = ColumnFamilyObject" "num is_given K = 0"
  shows "self_ok (add_mset (GivenBack a ok) K) n (if m_Native ob \<and> ok then Suc r else r) l m ob"
proof -
  have "num given_ok K = 0"
    using ok_given [of K] assms(3) by simp
  then show ?thesis
    using assms self_ok_not_young [OF assms(1)] unfolding self_ok_def by simp
qed

lemma self_ok_clear_cf:
  assumes "self_ok (add_mset (GivenBack a ok) K) n r l m ob"
  shows "self_ok (add_mset (Held a) K) n r (l \<or> \<not> ok \<and> m_Native ob) m (ob\<lparr>m_Native := False\<rparr>)"
proof -
  have "num is_given K = 0"
    using self_okD(12) [OF assms] by simp
  then have "num given_ok K = 0"
    using ok_given [of K] by simp
  moreover have "m_CloseRequested ob = 0 \<or> m_CloseRequested ob = 1"
    using self_ok_referred [OF assms] by simp
  then have "m_CloseRequested ob \<noteq> 2"
    by auto
  moreover have "kind ob = ColumnFamilyObject"
    using self_okD(13) [OF assms] by simp
  ultimately show ?thesis
    using assms self_ok_not_young [OF assms] unfolding self_ok_def by simp
qed

section \<open>Updates\<close>

lemma owns_cong:
  "dtors K' = dtors K \<Longrightarrow> (m_CloseRequested ob' = 3 \<longleftrightarrow> m_CloseRequested ob = 3) \<Longrightarrow> owns K' ob' = owns K ob"
  "dtors K' = dtors K \<Longrightarrow> (m_CloseRequested ob' = 3 \<longleftrightarrow> m_CloseRequested ob = 3) \<Longrightarrow> listed K' ob' = listed K ob"
  by (simp_all add: owns_def listed_def)

lemma tinv_update:
  assumes "tinv h T ts ls" "mem h a = Some ob"
    and "\<And>b. b \<noteq> a \<Longrightarrow> on T' b = on T b" "\<And>b. b \<noteq> a \<Longrightarrow> (b \<in> ts') = (b \<in> ts)" "\<And>b. b \<noteq> a \<Longrightarrow> (b \<in> ls') = (b \<in> ls)"
    and "kind ob' = kind ob" "m_DbPtr ob' = m_DbPtr ob" "\<And>k. set (child_list k ob') \<subseteq> set (child_list k ob)"
    and "dtors (on T' a) = dtors (on T a)" "m_CloseRequested ob' = 3 \<longleftrightarrow> m_CloseRequested ob = 3"
    and "self_ok (on T' a) (card (owned h T a)) (releases h a) (a \<in> ls') (a \<in> ts') ob'"
  shows "tinv (put_obj h a ob') T' ts' ls'"
  by (rule tinv_put [OF assms(1,2)]) (use assms owns_cong in blast)+

lemma put_obj_same: "mem h a = Some ob \<Longrightarrow> put_obj h a ob = h"
  by (simp add: put_obj_def fun_upd_idem)

lemma tinv_tokens:
  assumes "tinv h T ts ls" "mem h a = Some ob"
    and "\<And>b. b \<noteq> a \<Longrightarrow> on T' b = on T b" "\<And>b. b \<noteq> a \<Longrightarrow> (b \<in> ts') = (b \<in> ts)"
    and "dtors (on T' a) = dtors (on T a)"
    and "self_ok (on T' a) (card (owned h T a)) (releases h a) (a \<in> ls) (a \<in> ts') ob"
  shows "tinv h T' ts' ls"
  using tinv_update [OF assms(1-4) refl refl refl subset_refl assms(5) refl assms(6)] put_obj_same [OF assms(2)] by simp

lemma owned_db:
  assumes "tinv h T ts ls" "mem h a = Some ob" "kind ob \<noteq> DbObject"
  shows "owned h T a = {}"
  using tinvD(3) [OF assms(1)] assms(2,3) by (fastforce simp: owned_def owner_ok_def)

text \<open>A reference is dropped.\<close>

lemma tinv_dec:
  assumes inv: "tinv h (add_mset t T) ts ls" and t: "counted t" "\<not> is_given t" "tok_addr t = a"
  shows "tinv (dec_ref h a) (if last_ref h a then add_mset (Zero a) T else T) ts ls"
proof -
  obtain ob where ob: "mem h a = Some ob"
    using tinv_token [OF inv, of t] t(3) by auto
  have nd: "\<not> is_dtor t"
    using t(1) by (cases t) auto
  have self: "self_ok (add_mset t (on T a)) (card (owned h (add_mset t T) a)) (releases h a) (a \<in> ls) (a \<in> ts) ob"
    using tinvD(2) [OF inv ob] t(3) by simp
  have "m_CloseRequested ob \<noteq> 3"
    using self_ok_referred(1) [OF self] t(1) by auto
  then have "dec_ref h a = put_obj h a (ob\<lparr>m_RefCount := m_RefCount ob - 1\<rparr>)"
    using ob by (simp add: dec_ref_def with_live_eq)
  moreover have "last_ref h a \<longleftrightarrow> m_RefCount ob = 1"
    using ob by (simp add: last_ref_def)
  moreover have "tinv (put_obj h a (ob\<lparr>m_RefCount := m_RefCount ob - 1\<rparr>))
      (if m_RefCount ob = 1 then add_mset (Zero a) T else T) ts ls"
    by (rule tinv_update [OF inv ob]) (use t(3) nd self_ok_dec [OF self t] in auto)
  ultimately show ?thesis by simp
qed

text \<open>The base destructor: the object has dropped its reference and left the list.\<close>

lemma not_listed:
  assumes inv: "tinv h T ts ls" and a: "mem h a = Some ob" "\<not> listed (on T a) ob" and d: "mem h d = Some db"
  shows "a \<notin> set (child_list k db)"
  using tinvD(4) [OF inv d, of a k] a by (auto simp: listed_child_def)

lemma tinv_mark:
  assumes inv: "tinv h (add_mset (Destroying a (Mark # rest)) T) ts ls"
  shows "tinv (ErlRefObject_dtor h a) T ts ls" "rest = []"
proof -
  let ?T = "add_mset (Destroying a (Mark # rest)) T"
  obtain ob where ob: "mem h a = Some ob"
    using tinv_token [OF inv, of "Destroying a (Mark # rest)"] by auto
  have self: "self_ok (add_mset (Destroying a (Mark # rest)) (on T a)) (card (owned h ?T a)) (releases h a) (a \<in> ls) (a \<in> ts) ob"
    using tinvD(2) [OF inv ob] by simp
  show nil: "rest = []"
    using self_ok_mark(1) [OF self] .
  have two: "m_CloseRequested ob = 2"
    using self by (rule self_ok_dtor)
  have "tinv (put_obj h a (ob\<lparr>m_CloseRequested := 3\<rparr>)) T ts ls"
    by (rule tinv_put [OF inv ob]) (use nil self_ok_mark(2) [OF self] in \<open>auto simp: owns_def listed_def\<close>)
  then show "tinv (ErlRefObject_dtor h a) T ts ls"
    using ob two by (simp add: ErlRefObject_dtor_def with_live_eq)
qed

text \<open>A destructor takes its object out of the list of the database.\<close>

lemma remove_child_eq:
  assumes "mem h d = Some db" "m_CloseRequested db \<noteq> 3" "k \<notin> {DbObject, BackupEngineObject}"
  shows "remove_child k h d c = put_obj h d (drop_child k c db)"
  using assms remove_eq [OF assms(1,2)] by (cases k) auto

lemma tinv_unlist:
  assumes inv: "tinv h (add_mset (Destroying a (Unlist # rest)) T) ts ls" and ob: "mem h a = Some ob"
  shows "tinv (remove_from_db (remove_child (kind ob)) h (m_DbPtr ob) a) (add_mset (Destroying a rest) T) ts ls"
    "rest \<noteq> []"
proof -
  let ?t = "Destroying a (Unlist # rest)"
  have self: "self_ok (add_mset ?t (on T a)) (card (owned h (add_mset ?t T) a)) (releases h a) (a \<in> ls) (a \<in> ts) ob"
    using tinvD(2) [OF inv ob] by simp
  obtain p where p: "m_CloseRequested ob = 2" "dtors (on T a) = {#}" "dtor_prog (kind ob) = p @ Unlist # rest"
    using self by (rule self_ok_dtor)
  have k: "kind ob \<notin> {DbObject, BackupEngineObject}" "DropDb \<in> set rest"
    using dtor_prog_parts(3,5) [OF p(3)] by auto
  show "rest \<noteq> []"
    using self_ok_dtor_part(1) [OF self] by simp
  obtain d where d: "m_DbPtr ob = Some d"
    using self_okD(2) [OF self] k(1) by auto
  have own: "owns (on (add_mset ?t T) a) ob"
    using p(1,2) k(2) by (simp add: owns_def)
  obtain db where db: "mem h d = Some db" "kind db = DbObject" "m_CloseRequested db = 0 \<or> m_CloseRequested db = 1"
    using inv ob d own by (rule owner_live_db)
  have da: "d \<noteq> a"
    using db(1,2) ob k(1) by auto
  let ?h = "put_obj h d (drop_child (kind ob) a db)"
  have inv1: "tinv ?h (add_mset ?t T) ts ls"
    by (rule tinv_update [OF inv db(1)])
      (use tinvD(2) [OF inv db(1)] da in \<open>auto simp: self_ok_def\<close>)
  have ob1: "mem ?h a = Some ob"
    using ob da by simp
  have gone: "a \<notin> set (child_list k e)" if e: "mem ?h b = Some e" for b e k
  proof
    assume "a \<in> set (child_list k e)"
    with tinvD(4) [OF inv1 e, of a k] have "kind ob = k" "m_DbPtr ob = Some b"
      using ob1 by (auto simp: listed_child_def)
    with d e \<open>a \<in> set (child_list k e)\<close> show False
      by auto
  qed
  have "tinv (put_obj ?h a ob) (add_mset (Destroying a rest) T) ts ls"
    by (rule tinv_put [OF inv1 ob1])
      (use self_ok_dtor_part(2) [OF tinvD(2) [OF inv1 ob1, simplified]] gone k(2) p(2) in \<open>auto simp: owns_def\<close>)
  then show "tinv (remove_from_db (remove_child (kind ob)) h (m_DbPtr ob) a) (add_mset (Destroying a rest) T) ts ls"
    using db k(1) d put_obj_same [OF ob1] remove_child_eq [OF db(1)] by (auto simp: remove_from_db_def)
qed

end
