(* ===== verification/Thread_Updates.thy ===== *)
theory Thread_Updates
  imports Thread_Inv
begin

text \<open>
  The changes that touch several objects at once, and those that talk to RocksDB, keep the invariant:
  the reference of a destructor on its database, new objects, freed storage, RocksDB objects given
  back, and the entry of a child in a list.
\<close>

section \<open>Objects and their database\<close>

text \<open>A destructor drops the reference on the database: the child no longer counts, the thread does.\<close>

lemma self_ok_take_over:
  assumes "self_ok K (Suc n) r l m ob" "kind ob = DbObject"
  shows "self_ok (add_mset (Held a) K) n r l m ob"
proof -
  have "num is_young K = 0"
    using self_okD(6) [OF assms(1)] assms(2) by auto
  then show ?thesis
    using assms(1) unfolding self_ok_def by simp
qed

lemma tinv_drop_db:
  assumes inv: "tinv h (add_mset (Destroying a (DropDb # rest)) T) ts ls" and ob: "mem h a = Some ob"
  obtains d where "m_DbPtr ob = Some d" "rest \<noteq> []"
    "tinv h (add_mset (Held d) (add_mset (Destroying a rest) T)) ts ls"
proof -
  let ?t = "Destroying a (DropDb # rest)"
  let ?T = "add_mset ?t T"
  have self: "self_ok (add_mset ?t (on T a)) (card (owned h ?T a)) (releases h a) (a \<in> ls) (a \<in> ts) ob"
    using tinvD(2) [OF inv ob] by simp
  obtain p where p: "m_CloseRequested ob = 2" "dtors (on T a) = {#}" "dtor_prog (kind ob) = p @ DropDb # rest"
    using self by (rule self_ok_dtor)
  have k: "kind ob \<notin> {DbObject, BackupEngineObject}" "Unlist \<notin> set rest" "DropDb \<notin> set rest"
    using dtor_prog_parts(1,4) [OF p(3)] by auto
  have rest: "rest \<noteq> []"
    using self_ok_dtor_part(1) [OF self] by simp
  obtain d where d: "m_DbPtr ob = Some d"
    using self_okD(2) [OF self] k(1) by auto
  have own: "owns (on ?T a) ob"
    using p(1,2) by (simp add: owns_def)
  obtain db where db: "mem h d = Some db" "kind db = DbObject" "a \<in> owned h ?T d"
    using inv ob d own by (rule owner_live_db)
  have da: "d \<noteq> a"
    using db(1,2) ob k(1) by auto
  let ?T' = "add_mset (Held d) (add_mset (Destroying a rest) T)"
  have owned: "owned h ?T' e = owned h ?T e - (if e = d then {a} else {})" for e
    using ob d k(3) own p(2) da by (auto simp: owned_def owns_def split: if_splits)
  have child: "listed_child h ?T' j b c" if "listed_child h ?T j b c" for j b c
    using that ob p(2) da by (auto simp: listed_child_def listed_def split: if_splits)
  have "addr_ok h ?T' ts ls b" for b
  proof (cases "mem h b")
    case None
    then show ?thesis
      using tinv_None [OF inv None] ob db(1) by (auto simp: addr_ok_def)
  next
    case (Some x)
    have "self_ok (on ?T' b) (card (owned h ?T' b)) (releases h b) (b \<in> ls) (b \<in> ts) x"
    proof (cases "b = d")
      case True
      have "card (owned h ?T d) = Suc (card (owned h ?T d - {a}))"
        using finite_owned [OF inv] db(3) by (metis card_Suc_Diff1)
      moreover have "kind x = DbObject"
        using db Some True by simp
      ultimately show ?thesis
        using self_ok_take_over tinvD(2) [OF inv Some] True da by (simp add: owned)
    next
      case False
      then show ?thesis
        using tinvD(2) [OF inv Some] self_ok_dtor_part(2) [OF self] ob Some owned [of a] da
        by (auto simp: owned)
    qed
    moreover have "owner_ok h ?T' b x"
      using tinvD(3) [OF inv Some] k(3) ob Some p(2) da by (auto simp: owner_ok_def owns_def split: if_splits)
    ultimately show ?thesis
      using tinvD(1,4) [OF inv Some] Some child by (simp add: addr_ok_def)
  qed
  then show ?thesis
    using that [OF d rest] inv by (simp add: tinv_def)
qed

text \<open>New objects.\<close>

lemma tinv_fresh:
  assumes inv: "tinv h T ts ls"
  shows "mem h (next_addr h) = None" "on T (next_addr h) = {#}" "next_addr h \<notin> ts" "next_addr h \<notin> ls"
    "releases h (next_addr h) = 0" "owned h T (next_addr h) = {}"
proof -
  show none: "mem h (next_addr h) = None"
    using tinvD(1) [OF inv, of "next_addr h"] by (cases "mem h (next_addr h)") auto
  show "on T (next_addr h) = {#}" "next_addr h \<notin> ts" "next_addr h \<notin> ls" "releases h (next_addr h) = 0"
    using tinv_None [OF inv none] by auto
  have "c \<notin> owned h T (next_addr h)" for c
    using tinvD(3) [OF inv, of c] none by (auto simp: owned_def owner_ok_def)
  then show "owned h T (next_addr h) = {}" by blast
qed

lemma tinv_open:
  assumes inv: "tinv h T ts ls" and ob: "ob = first_object k None\<lparr>m_IsPessimistic := b1, m_IsTTL := b2\<rparr>"
    and k: "k \<in> {DbObject, BackupEngineObject}"
  shows "tinv (alloc h ob) (add_mset (Opening (next_addr h)) T) ts ls"
proof -
  let ?n = "next_addr h" and ?h = "alloc h ob" and ?T = "add_mset (Opening (next_addr h)) T"
  note fr = tinv_fresh [OF inv]
  have new: "kind ob = k" "m_DbPtr ob = None" "m_CloseRequested ob = 0" "m_RefCount ob = 1" "m_Native ob"
      "child_list k' ob = []" for k'
    by (cases k'; simp add: ob first_object_def new_object_def)+
  have owned: "owned ?h ?T d = owned h T d" for d
    using fr(1) new(2) by (auto simp: owned_def split: if_splits)
  have rel: "releases ?h b = releases h b" for b
    by (simp add: releases_def)
  have child: "listed_child ?h ?T j b c" if "listed_child h T j b c" for j b c
    using that fr(1) by (auto simp: listed_child_def)
  have "addr_ok ?h ?T ts ls b" for b
  proof (cases "b = ?n")
    case True
    have "self_ok {#Opening ?n#} 0 0 False False ob"
      using new k by (simp add: self_ok_def)
    then show ?thesis
      using True fr new by (simp add: addr_ok_def owned rel owner_ok_def)
  next
    case False
    show ?thesis
    proof (cases "mem h b")
      case None
      then show ?thesis
        using tinv_None [OF inv None] False by (auto simp: addr_ok_def rel)
    next
      case (Some x)
      have "owner_ok ?h ?T b x"
        using tinvD(3) [OF inv Some] False fr(1) by (auto simp: owner_ok_def split: if_splits)
      then show ?thesis
        using tinvD(1,2,4) [OF inv Some] Some False child by (auto simp: addr_ok_def owned rel)
    qed
  qed
  then show ?thesis
    using inv by (simp add: tinv_def)
qed

lemma self_ok_give_over:
  assumes "self_ok (add_mset (Held a) K) n r l m ob"
  shows "self_ok K (Suc n) r l m ob"
  using assms self_ok_not_young [OF assms] unfolding self_ok_def by simp

lemma tinv_build:
  assumes inv: "tinv h (add_mset (Held d) T) ts ls" and db: "mem h d = Some db" "kind db = DbObject"
    and k: "k \<notin> {DbObject, BackupEngineObject}"
  shows "tinv (alloc h (new_object k (Some d))) (add_mset (Built (next_addr h)) T) ts ls"
proof -
  let ?n = "next_addr h" and ?h = "alloc h (new_object k (Some d))" and ?T = "add_mset (Built (next_addr h)) T"
  let ?S = "add_mset (Held d) T"
  note fr = tinv_fresh [OF inv]
  have n: "d \<noteq> ?n"
    using fr(1) db(1) by auto
  have new: "kind (new_object k (Some d)) = k" "m_DbPtr (new_object k (Some d)) = Some d"
      "m_CloseRequested (new_object k (Some d)) = 0" "m_RefCount (new_object k (Some d)) = 0"
      "m_Native (new_object k (Some d))" "child_list k' (new_object k (Some d)) = []" for k'
    by (cases k'; simp add: new_object_def)+
  have owned: "owned ?h ?T e = owned h ?S e \<union> (if e = d then {?n} else {})" for e
    using fr(1,2) new n by (auto simp: owned_def owns_def split: if_splits)
  have rel: "releases ?h b = releases h b" for b
    by (simp add: releases_def)
  have child: "listed_child ?h ?T j b c" if "listed_child h ?S j b c" for j b c
    using that fr(1) by (auto simp: listed_child_def listed_def)
  have "addr_ok ?h ?T ts ls b" for b
  proof (cases "b = ?n")
    case True
    have "self_ok {#Built ?n#} 0 0 False False (new_object k (Some d))"
      using new k by (simp add: self_ok_def)
    moreover have "owner_ok ?h ?T ?n (new_object k (Some d))"
      using new db n by (simp add: owner_ok_def)
    ultimately show ?thesis
      using True fr new n by (simp add: addr_ok_def owned rel)
  next
    case False
    show ?thesis
    proof (cases "mem h b")
      case None
      then show ?thesis
        using tinv_None [OF inv None] False db(1) by (auto simp: addr_ok_def rel split: if_splits)
    next
      case (Some x)
      have "self_ok (on ?T b) (card (owned ?h ?T b)) (releases h b) (b \<in> ls) (b \<in> ts) x"
      proof (cases "b = d")
        case True
        have "?n \<notin> owned h ?S d"
          using fr(1) by (simp add: owned_def)
        then have "card (owned ?h ?T d) = Suc (card (owned h ?S d))"
          using finite_owned [OF inv] by (simp add: owned)
        then show ?thesis
          using tinvD(2) [OF inv Some] True n self_ok_give_over by simp
      next
        case False
        then show ?thesis
          using tinvD(2) [OF inv Some] \<open>b \<noteq> ?n\<close> by (simp add: owned)
      qed
      moreover have "owner_ok ?h ?T b x"
        using tinvD(3) [OF inv Some] False fr(1) by (auto simp: owner_ok_def owns_def split: if_splits)
      ultimately show ?thesis
        using tinvD(1,4) [OF inv Some] Some False child by (auto simp: addr_ok_def rel)
    qed
  qed
  then show ?thesis
    using inv by (simp add: tinv_def)
qed

text \<open>The storage of a destroyed object is freed.\<close>

lemma num_zero: "num P K = 0 \<longleftrightarrow> (\<forall>t \<in># K. \<not> P t)"
  by (auto simp: num_def)

lemma no_tokens:
  assumes "num of_call K = 0" "num is_popped K = 0" "num counted K = 0" "num is_zero K = 0" "dtors K = {#}"
  shows "K = {#}"
proof -
  have "t \<notin># K" for t
    using assms by (cases t) (auto simp: num_zero dtors_def)
  then show ?thesis
    by (simp add: multiset_eq_iff not_in_iff)
qed

lemma tinv_free:
  assumes inv: "tinv h T ts ls" and a: "mem h a = Some ob" "m_CloseRequested ob = 3" "a \<notin> ts"
    and free: "num of_call (on T a) = 0" "num is_popped (on T a) = 0"
  shows "tinv (h\<lparr>mem := (mem h)(a := None)\<rparr>) T ts ls"
proof -
  let ?h = "h\<lparr>mem := (mem h)(a := None)\<rparr>"
  note self = tinvD(2) [OF inv a(1)]
  have zero: "num counted (on T a) = 0" "card (owned h T a) = 0"
    using self_okD(3,4) [OF self] a(2) by auto
  then have none: "owned h T a = {}"
    using finite_owned [OF inv] by auto
  have on: "on T a = {#}"
    using no_tokens free zero(1) self_okD(7,9) [OF self] a(2) by auto
  have owned: "owned ?h T d = owned h T d" for d
    using a by (auto simp: owned_def owns_def)
  have rel: "releases ?h b = releases h b" for b
    by (simp add: releases_def)
  have child: "listed_child ?h T j b c" if "listed_child h T j b c" for j b c
    using that a by (auto simp: listed_child_def listed_def)
  have "addr_ok ?h T ts ls b" for b
  proof (cases "b = a")
    case True
    have "releases h a = (if a \<in> ls then 0 else 1)"
      using self_okD(11,15) [OF self] a(2) by auto
    then show ?thesis
      using True a(3) on tinvD(1) [OF inv a(1)] by (simp add: addr_ok_def rel)
  next
    case False
    show ?thesis
    proof (cases "mem h b")
      case None
      then show ?thesis
        using tinv_None [OF inv None] False by (auto simp: addr_ok_def rel)
    next
      case (Some x)
      have "m_DbPtr x \<noteq> Some a \<or> \<not> owns (on T b) x"
        using none Some by (auto simp: owned_def)
      then have "owner_ok ?h T b x"
        using tinvD(3) [OF inv Some] by (auto simp: owner_ok_def)
      then show ?thesis
        using tinvD(1,2,4) [OF inv Some] Some False child by (auto simp: addr_ok_def owned rel)
    qed
  qed
  then show ?thesis
    using inv by (simp add: tinv_def)
qed

section \<open>RocksDB objects\<close>

text \<open>RocksDB objects are given back.\<close>

lemma db_not_deleted:
  assumes inv: "tinv h T ts ls" and d: "mem h d = Some db" "kind db = DbObject" "m_Native db"
  shows "DeleteDb d \<notin> set (log h)"
proof -
  note self = tinvD(2) [OF inv d(1)]
  have "num is_given (on T d) = 0"
    using self_okD(13) [OF self] d(2) by auto
  then have "num given_ok (on T d) = 0"
    using ok_given [of "on T d"] by simp
  then have "releases h d = 0"
    using self_okD(14,15) [OF self] d(3) by auto
  then show ?thesis
    by (fastforce simp: releases_def filter_empty_conv)
qed

lemma ev_db_release:
  "ev_db (release_event k p a) = Some d \<Longrightarrow> p \<noteq> None \<or> k \<in> {DbObject, BackupEngineObject} \<Longrightarrow> p = Some d"
  by (cases k) auto

lemma db_deleted_last_events:
  assumes "db_deleted_last l" "m_DbPtr ob = None \<longleftrightarrow> kind ob \<in> {DbObject, BackupEngineObject}"
    and "\<And>d. m_DbPtr ob = Some d \<Longrightarrow> DeleteDb d \<notin> set l"
  shows "db_deleted_last (l @ dtor_events ob a)"
proof -
  have ev: "m_DbPtr ob = Some d" if "ev_db (release_event (kind ob) (m_DbPtr ob) a) = Some d" for d
    using ev_db_release [OF that] assms(2) by blast
  show ?thesis
    using assms(1,3) ev
    by (auto simp: dtor_events_def db_deleted_last_snoc slice_events_snoc simp flip: append_assoc)
qed

definition given_events :: "ref_object \<Rightarrow> addr \<Rightarrow> bool \<Rightarrow> event list" where
  "given_events ob a ok = (if kind ob = ColumnFamilyObject \<and> \<not> ok then [] else dtor_events ob a)"

lemma give_back_eq:
  assumes a: "mem h a = Some ob" "m_CloseRequested ob \<noteq> 3"
    and native: "kind ob \<noteq> ColumnFamilyObject \<Longrightarrow> m_Native ob"
    and k: "m_DbPtr ob = None \<longleftrightarrow> kind ob \<in> {DbObject, BackupEngineObject}"
    and d: "\<And>d. m_DbPtr ob = Some d \<Longrightarrow> \<exists>db. mem h d = Some db \<and> m_CloseRequested db \<noteq> 3 \<and> m_Native db"
  shows "give_back h a ok = (put_obj h a (ob\<lparr>m_Native := False\<rparr>))\<lparr>log := log h @ given_events ob a ok\<rparr>"
proof (cases "m_Native ob")
  case False
  then have "kind ob = ColumnFamilyObject"
    using native by blast
  moreover have "ob\<lparr>m_Native := False\<rparr> = ob"
    using False by (cases ob) simp
  then have "put_obj h a (ob\<lparr>m_Native := False\<rparr>) = h"
    using put_obj_same [OF a(1)] by simp
  ultimately show ?thesis
    using a False by (simp add: give_back_def with_live_eq given_events_def dtor_events_def)
next
  case True
  show ?thesis
  proof (cases "m_DbPtr ob")
    case None
    then show ?thesis
      using a True k
      by (auto simp: give_back_def with_live_eq given_events_def dtor_events_def clear_native_eq [of _ a ob]
          emit_def put_obj_def)
  next
    case (Some d)
    then obtain db where db: "mem h d = Some db" "m_CloseRequested db \<noteq> 3" "m_Native db"
      using d by blast
    have "kind ob \<notin> {DbObject, BackupEngineObject}"
      using k Some by simp
    then show ?thesis
      using a True Some db
      by (cases "kind ob")
        (auto simp: give_back_def with_live_eq given_events_def dtor_events_def clear_native_eq [of _ a ob]
          destroy_handle_def through_db_eq delete_slice_eq emit_def put_obj_def Let_def)
  qed
qed

lemma tinv_give:
  assumes inv: "tinv h (add_mset (Destroying a (Give # rest)) T) ts ls" and ob: "mem h a = Some ob"
  shows "tinv (give_back h a ok) (add_mset (Destroying a rest) T) ts
       (if kind ob = ColumnFamilyObject \<and> m_Native ob \<and> \<not> ok then insert a ls else ls)"
    "rest \<noteq> []"
proof -
  let ?t = "Destroying a (Give # rest)"
  let ?ls = "if kind ob = ColumnFamilyObject \<and> m_Native ob \<and> \<not> ok then insert a ls else ls"
  have self: "self_ok (add_mset ?t (on T a)) (card (owned h (add_mset ?t T) a)) (releases h a) (a \<in> ls) (a \<in> ts) ob"
    using tinvD(2) [OF inv ob] by simp
  obtain p where p: "m_CloseRequested ob = 2" "dtors (on T a) = {#}" "dtor_prog (kind ob) = p @ Give # rest"
      "kind ob \<noteq> ColumnFamilyObject \<longrightarrow> Give \<in> set (Give # rest) \<longrightarrow> m_Native ob"
    using self by (rule self_ok_dtor)
  show rest: "rest \<noteq> []"
    using self_ok_give(1) [OF self] .
  note k = self_okD(2) [OF self]
  have db: "\<exists>db. mem h d = Some db \<and> kind db = DbObject \<and> m_CloseRequested db \<noteq> 3 \<and> m_Native db" and drop: "DropDb \<in> set rest"
    if d: "m_DbPtr ob = Some d" for d
  proof -
    show "DropDb \<in> set rest"
      using dtor_prog_parts(3) [OF p(3)] k d by simp
    then have own: "owns (on (add_mset ?t T) a) ob"
      using p(1,2) by (simp add: owns_def)
    obtain db where "mem h d = Some db" "kind db = DbObject" "m_CloseRequested db = 0 \<or> m_CloseRequested db = 1" "m_Native db"
      using inv ob d own by (rule owner_live_db)
    then show "\<exists>db. mem h d = Some db \<and> kind db = DbObject \<and> m_CloseRequested db \<noteq> 3 \<and> m_Native db"
      by auto
  qed
  let ?h = "(put_obj h a (ob\<lparr>m_Native := False\<rparr>))\<lparr>log := log h @ given_events ob a ok\<rparr>"
  have eq: "give_back h a ok = ?h"
    using ob p(1,4) k db by (intro give_back_eq) auto
  have last: "db_deleted_last (log h @ given_events ob a ok)"
    using db_deleted_last_events [OF _ k, of "log h" a] inv db db_not_deleted [OF inv]
    by (auto simp: given_events_def tinv_def)
  have rel: "releases ?h b = (if b = a \<and> m_Native ob \<and> (kind ob = ColumnFamilyObject \<longrightarrow> ok) then Suc (releases h b) else releases h b)" for b
    by (auto simp: given_events_def releases_def dtor_events_def slice_events_snoc)
  have rel_a: "releases ?h a = (if a \<in> ?ls then 0 else 1)"
  proof (cases "m_Native ob")
    case True
    then show ?thesis
      using self_ok_given_back [OF self] rel [of a] by auto
  next
    case False
    then show ?thesis
      using self_okD(15) [OF self] rel [of a] by auto
  qed
  have "listed (on (add_mset (Destroying a rest) T) a) (ob\<lparr>m_Native := False\<rparr>)"
    if "listed (on (add_mset ?t T) a) ob"
    using that p(2) by (auto simp: listed_def)
  moreover have "owns (on (add_mset (Destroying a rest) T) a) (ob\<lparr>m_Native := False\<rparr>) =
      owns (on (add_mset ?t T) a) ob"
    by (auto simp: owns_def)
  moreover have "self_ok (add_mset (Destroying a rest) (on T a)) (card (owned h (add_mset ?t T) a)) (releases ?h a)
      (a \<in> ?ls) (a \<in> ts) (ob\<lparr>m_Native := False\<rparr>)"
    unfolding rel_a by (rule self_ok_give(2) [OF self])
  ultimately have "tinv ?h (add_mset (Destroying a rest) T) ts ?ls"
    using inv last by (intro tinv_local [OF inv ob, of ?h "ob\<lparr>m_Native := False\<rparr>"]) (auto simp: tinv_def rel)
  then show "tinv (give_back h a ok) (add_mset (Destroying a rest) T) ts ?ls"
    by (simp add: eq)
qed

lemma tinv_give_cf:
  assumes inv: "tinv h (add_mset (Held c) T) ts ls" and ob: "mem h c = Some ob" "kind ob = ColumnFamilyObject"
    and first: "num is_given (on T c) = 0"
  shows "tinv (with_live h c (\<lambda>ob. if m_Native ob then destroy_handle h (m_DbPtr ob) c ok else h))
      (add_mset (GivenBack c ok) T) ts ls"
proof -
  have self: "self_ok (add_mset (Held c) (on T c)) (card (owned h (add_mset (Held c) T) c)) (releases h c) (c \<in> ls) (c \<in> ts) ob"
    using tinvD(2) [OF inv ob(1)] by simp
  have live: "m_CloseRequested ob \<noteq> 3" "dtors (on T c) = {#}"
    using self_ok_referred [OF self] by auto
  obtain d where d: "m_DbPtr ob = Some d"
    using self_okD(2) [OF self] ob(2) by auto
  have own: "owns (on (add_mset (Held c) T) c) ob"
    using live by (simp add: owns_def)
  obtain db where db: "mem h d = Some db" "kind db = DbObject" "m_CloseRequested db = 0 \<or> m_CloseRequested db = 1" "m_Native db"
    using inv ob(1) d own by (rule owner_live_db)
  have db3: "m_CloseRequested db \<noteq> 3"
    using db(3) by auto
  let ?l = "if m_Native ob \<and> ok then log h @ [DestroyColumnFamilyHandle d c] else log h"
  have eq: "with_live h c (\<lambda>ob. if m_Native ob then destroy_handle h (m_DbPtr ob) c ok else h) = h\<lparr>log := ?l\<rparr>"
    using ob live(1) d through_db_eq [OF db(1) db3 db(4)]
    by (auto simp: with_live_eq [of _ _ ob] destroy_handle_def emit_def Let_def)
  have "db_deleted_last ?l"
    using inv db_not_deleted [OF inv db(1,2,4)] by (auto simp: tinv_def db_deleted_last_snoc)
  moreover have rel: "releases (h\<lparr>log := ?l\<rparr>) b = (if b = c \<and> m_Native ob \<and> ok then Suc (releases h b) else releases h b)" for b
    by (auto simp: releases_def)
  moreover have "self_ok (add_mset (GivenBack c ok) (on T c)) (card (owned h (add_mset (Held c) T) c))
      (releases (h\<lparr>log := ?l\<rparr>) c) (c \<in> ls) (c \<in> ts) ob"
    using self_ok_give_cf [OF self ob(2) first, of ok] by (simp add: rel)
  ultimately show ?thesis
    unfolding eq using inv ob(1) fun_upd_idem [of "mem h" c "Some ob"]
    by (intro tinv_local [OF inv ob(1), of _ ob]) (auto simp: tinv_def owns_def listed_def split: if_splits)
qed

lemma tinv_clear_cf:
  assumes inv: "tinv h (add_mset (GivenBack c ok) T) ts ls" and ob: "mem h c = Some ob"
  shows "tinv (clear_native h c) (add_mset (Held c) T) ts (if \<not> ok \<and> m_Native ob then insert c ls else ls)"
proof -
  have "self_ok (add_mset (GivenBack c ok) (on T c)) (card (owned h (add_mset (GivenBack c ok) T) c)) (releases h c) (c \<in> ls) (c \<in> ts) ob"
    using tinvD(2) [OF inv ob] by simp
  from self_ok_clear_cf [OF this]
  have "tinv (put_obj h c (ob\<lparr>m_Native := False\<rparr>)) (add_mset (Held c) T) ts (if \<not> ok \<and> m_Native ob then insert c ls else ls)"
    by (intro tinv_update [OF inv ob]) (auto simp: disj_commute)
  then show ?thesis
    by (simp add: clear_native_eq [OF ob])
qed

text \<open>A new child enters the list of its database.\<close>

lemma add_child_eq:
  assumes "mem h d = Some db" "m_CloseRequested db \<noteq> 3" "k \<notin> {DbObject, BackupEngineObject}"
  shows "add_child k h d c = put_obj h d (enlist k c db)"
  using assms put_obj_same [OF assms(1)]
  by (cases k) (auto simp: enlist_def AddReference_def AddColumnFamilyReference_def AddSnapshotReference_def
      AddTLogReference_def AddTransactionReference_def with_live_eq)

lemma tinv_enlist:
  assumes inv: "tinv h (add_mset (Built c) T) ts ls" and ob: "mem h c = Some ob"
  shows "tinv (with_live h c (\<lambda>ob. add_to_db (add_child (kind ob)) h (m_DbPtr ob) c)) (add_mset (Listed c) T) ts ls"
proof -
  have self: "self_ok (add_mset (Built c) (on T c)) (card (owned h (add_mset (Built c) T) c)) (releases h c) (c \<in> ls) (c \<in> ts) ob"
    using tinvD(2) [OF inv ob] by simp
  have zero: "m_CloseRequested ob = 0"
    using self_okD(5) [OF self] by auto
  then have none: "dtors (on T c) = {#}"
    using self_okD(9) [OF self] by simp
  have k: "kind ob \<notin> {DbObject, BackupEngineObject}"
    using self_okD(6) [OF self] by simp
  obtain d where d: "m_DbPtr ob = Some d"
    using self_okD(2) [OF self] k by auto
  have own: "owns (on (add_mset (Built c) T) c) ob"
    using zero none by (simp add: owns_def)
  obtain db where db: "mem h d = Some db" "kind db = DbObject" "m_CloseRequested db = 0 \<or> m_CloseRequested db = 1"
    using inv ob d own by (rule owner_live_db)
  have dc: "d \<noteq> c"
    using db(1,2) ob k by auto
  let ?h = "put_obj h d (enlist (kind ob) c db)"
  have child: "listed_child h (add_mset (Built c) T) (kind ob) d c"
    using ob d zero none by (simp add: listed_child_def listed_def)
  have self_db: "self_ok (on (add_mset (Built c) T) d) (card (owned h (add_mset (Built c) T) d)) (releases h d) (d \<in> ls) (d \<in> ts) (enlist (kind ob) c db)"
    using tinvD(2) [OF inv db(1)] by (simp add: enlist_def)
  have inv1: "tinv ?h (add_mset (Built c) T) ts ls"
    using self_db child dc
    by (intro tinv_put [OF inv db(1)]) (auto simp: enlist_def owns_def listed_def split: if_splits)
  have ob1: "mem ?h c = Some ob"
    using ob dc by simp
  have "tinv ?h (add_mset (Listed c) T) ts ls"
    by (rule tinv_tokens [OF inv1 ob1])
      (use self_ok_enlist [OF tinvD(2) [OF inv1 ob1, simplified]] in auto)
  moreover have "with_live h c (\<lambda>ob. add_to_db (add_child (kind ob)) h (m_DbPtr ob) c) = ?h"
    using ob zero d db k add_child_eq [OF db(1)] by (auto simp: with_live_eq [of _ _ ob] add_to_db_def)
  ultimately show ?thesis by simp
qed

end
