(* ===== verification/Thread_Steps.thy ===== *)
theory Thread_Steps
  imports Thread_Updates
begin

text \<open>
  Every action of \<open>Ref_Threads\<close> that does not go through an unprotected window keeps the invariant, so it
  holds in every reachable state that did not race.
\<close>

section \<open>The actions keep the invariant\<close>

definition sinv :: "threads \<Rightarrow> bool" where
  "sinv s \<longleftrightarrow> tinv (th_heap s) (tokens s) (th_terms s) (lost s)"

lemma takingE:
  assumes "taking t s f = Some s'"
  obtains T where "tokens s = add_mset t T" "s' = f (s\<lparr>tokens := T\<rparr>)"
proof -
  have "t \<in># tokens s" "s' = f (s\<lparr>tokens := tokens s - {#t#}\<rparr>)"
    using assms by (auto simp: taking_def split: if_splits)
  with that [of "tokens s - {#t#}"] show ?thesis
    by simp
qed

lemma adding_fields [simp]:
  "th_heap (adding t s) = th_heap s" "tokens (adding t s) = add_mset t (tokens s)"
  "th_terms (adding t s) = th_terms s" "lost (adding t s) = lost s" "raced (adding t s) = raced s"
  by (simp_all add: adding_def)

lemma on_heap_fields [simp]:
  "th_heap (on_heap f s) = f (th_heap s)" "tokens (on_heap f s) = tokens s"
  "th_terms (on_heap f s) = th_terms s" "lost (on_heap f s) = lost s" "raced (on_heap f s) = raced s"
  by (simp_all add: on_heap_def)

lemma drop_ref_fields [simp]:
  "th_heap (drop_ref a s) = dec_ref (th_heap s) a"
  "tokens (drop_ref a s) = (if last_ref (th_heap s) a then add_mset (Zero a) (tokens s) else tokens s)"
  "th_terms (drop_ref a s) = th_terms s" "lost (drop_ref a s) = lost s" "raced (drop_ref a s) = raced s"
  by (simp_all add: drop_ref_def Let_def)

lemma sinv_open:
  assumes "sinv s"
  shows "sinv (act_open (CreateDbObject (th_heap s) b1 b2) s)" "sinv (act_open (CreateBackupEngineObject (th_heap s)) s)"
  using assms tinv_open [of "th_heap s" "tokens s" "th_terms s" "lost s", OF _ refl]
  by (simp_all add: sinv_def act_open_def CreateDbObject_eq CreateBackupEngineObject_eq)

lemma sinv_opened:
  assumes inv: "sinv s" and act: "act_opened a s = Some s'"
  shows "sinv s'"
proof -
  obtain T where T: "tokens s = add_mset (Opening a) T" "s' = s\<lparr>tokens := T, th_terms := insert a (th_terms s)\<rparr>"
    using act unfolding act_opened_def by (auto elim: takingE)
  then have t: "tinv (th_heap s) (add_mset (Opening a) T) (th_terms s) (lost s)"
    using inv by (simp add: sinv_def)
  obtain ob where ob: "mem (th_heap s) a = Some ob"
    using tinv_token [OF t, of "Opening a"] by auto
  have "tinv (th_heap s) T (insert a (th_terms s)) (lost s)"
    by (rule tinv_tokens [OF t ob]) (use self_ok_opened tinvD(2) [OF t ob] in auto)
  then show ?thesis
    using T(2) by (simp add: sinv_def)
qed

lemma sinv_retrieve:
  assumes inv: "sinv s" and act: "act_retrieve t k a s = Some s'" and t: "t = Retrieved \<or> t = Requesting"
  shows "sinv s'"
proof -
  have a: "a \<in> th_terms s" "Retrieve (th_heap s) k (ERef a) = Some a" and s': "s' = adding (t a) s"
    using act by (auto simp: act_retrieve_def split: if_splits)
  obtain ob where ob: "mem (th_heap s) a = Some ob" "m_CloseRequested ob = 0"
    using a(2) by (rule Retrieve_Some)
  note i = inv [unfolded sinv_def]
  have self: "self_ok (on (tokens s) a) (card (owned (th_heap s) (tokens s) a)) (releases (th_heap s) a) (a \<in> lost s) True ob"
    using tinvD(2) [OF i ob(1)] a(1) by simp
  have "num is_young (on (tokens s) a) = 0"
    using self_okD(6) [OF self] by auto
  then have "self_ok (add_mset (t a) (on (tokens s) a)) (card (owned (th_heap s) (tokens s) a)) (releases (th_heap s) a) (a \<in> lost s) True ob"
    using t self_ok_retrieved [OF self ob(2)] self_ok_requesting [OF self] by blast
  moreover have "tok_addr (t a) = a" "\<not> is_dtor (t a)"
    using t by auto
  ultimately have "tinv (th_heap s) (add_mset (t a) (tokens s)) (th_terms s) (lost s)"
    using a(1) by (intro tinv_tokens [OF i ob(1)]) auto
  then show ?thesis
    by (simp add: sinv_def s')
qed

lemma sinv_assign:
  assumes inv: "sinv s" and act: "act_assign a s = Some s'"
  shows "sinv s'"
proof -
  obtain T where T: "tokens s = add_mset (Retrieved a) T" and free: "count_free (th_heap s) a"
      and s': "s' = adding (Held a) (on_heap (\<lambda>h. RefInc h a) (s\<lparr>tokens := T\<rparr>))"
    using act by (auto simp: act_assign_def split: if_splits elim: takingE)
  have t: "tinv (th_heap s) (add_mset (Retrieved a) T) (th_terms s) (lost s)"
    using inv T by (simp add: sinv_def)
  obtain ob where ob: "mem (th_heap s) a = Some ob"
    using tinv_token [OF t, of "Retrieved a"] by auto
  have self: "self_ok (add_mset (Retrieved a) (on T a)) (card (owned (th_heap s) (add_mset (Retrieved a) T) a))
      (releases (th_heap s) a) (a \<in> lost s) (a \<in> th_terms s) ob"
    using tinvD(2) [OF t ob] by simp
  have "m_CloseRequested ob = 0" "m_RefCount ob \<noteq> - 1"
    using self_okD(5) [OF self] free ob by (auto simp: count_free_def)
  moreover from this have "tinv (put_obj (th_heap s) a (ob\<lparr>m_RefCount := m_RefCount ob + 1\<rparr>)) (add_mset (Held a) T) (th_terms s) (lost s)"
    by (intro tinv_update [OF t ob]) (use self_ok_assign [OF self] in auto)
  ultimately show ?thesis
    using ob by (simp add: sinv_def s' RefInc_def with_live_eq)
qed

lemma sinv_drop_ref:
  assumes "tinv (th_heap s) (add_mset t (tokens s)) (th_terms s) (lost s)" "counted t" "\<not> is_given t" "tok_addr t = a"
  shows "sinv (drop_ref a s)"
  using tinv_dec [OF assms] by (simp add: sinv_def)

lemma sinv_release:
  assumes "sinv s" "act_release a s = Some s' \<or> act_shutdown_done a s = Some s'"
  shows "sinv s'"
  using assms(2)
proof
  assume "act_release a s = Some s'"
  then obtain T where "tokens s = add_mset (Held a) T" "s' = drop_ref a (s\<lparr>tokens := T\<rparr>)"
    unfolding act_release_def by (rule takingE)
  then show ?thesis
    using assms(1) sinv_drop_ref [of "s\<lparr>tokens := T\<rparr>" "Held a" a] by (simp add: sinv_def)
next
  assume "act_shutdown_done a s = Some s'"
  then obtain T where "tokens s = add_mset (Shutting a []) T" "s' = drop_ref a (s\<lparr>tokens := T\<rparr>)"
    unfolding act_shutdown_done_def by (rule takingE)
  then show ?thesis
    using assms(1) sinv_drop_ref [of "s\<lparr>tokens := T\<rparr>" "Shutting a []" a] by (simp add: sinv_def)
qed

text \<open>A pointer on which the close will be requested.\<close>

lemma tinv_requesting:
  assumes inv: "tinv h T ts ls" and ob: "mem h a = Some ob" and young: "num is_young (on T a) = 0"
    and ts: "\<And>b. b \<noteq> a \<Longrightarrow> (b \<in> ts') = (b \<in> ts)"
  shows "tinv h (add_mset (Requesting a) T) ts' ls"
  by (rule tinv_tokens [OF inv ob]) (use ts self_ok_requesting [OF tinvD(2) [OF inv ob] young] in auto)

lemma held_not_young:
  assumes "tinv h T ts ls" "Held a \<in># T"
  obtains ob where "mem h a = Some ob" "num is_young (on T a) = 0"
proof -
  obtain ob where ob: "mem h a = Some ob"
    using tinv_token [OF assms] by auto
  obtain K where "on T a = add_mset (Held a) K"
    using assms(2) on_member [of "Held a" T a] by (metis multi_member_split tok_addr.simps(3))
  then show ?thesis
    using that [OF ob] tinvD(2) [OF assms(1) ob] self_ok_not_young [of "Held a" K] by auto
qed

lemma sinv_ask_close:
  assumes "sinv s" "act_ask_close a s = Some s'"
  shows "sinv s'"
proof -
  have "Held a \<in># tokens s" "s' = adding (Requesting a) s"
    using assms(2) by (auto simp: act_ask_close_def split: if_splits)
  then show ?thesis
    using assms(1) held_not_young [of "th_heap s" "tokens s" "th_terms s" "lost s" a]
      tinv_requesting [of "th_heap s" "tokens s" "th_terms s" "lost s" a] by (auto simp: sinv_def)
qed

lemma sinv_collect:
  assumes inv: "sinv s" and act: "act_collect a s = Some s'"
  shows "sinv s'"
proof -
  have a: "a \<in> th_terms s" and s': "s' = adding (Requesting a) (s\<lparr>th_terms := th_terms s - {a}\<rparr>)"
    using act by (auto simp: act_collect_def split: if_splits)
  note i = inv [unfolded sinv_def]
  obtain ob where ob: "mem (th_heap s) a = Some ob"
    using tinv_None(2) [OF i] a by (cases "mem (th_heap s) a") auto
  have "num is_young (on (tokens s) a) = 0"
    using self_okD(6) [OF tinvD(2) [OF i ob]] a by auto
  then show ?thesis
    using tinv_requesting [OF i ob] by (simp add: sinv_def s')
qed

lemma sinv_free:
  assumes inv: "sinv s" and act: "act_free a s = Some s'" and "\<not> raced s'"
  shows "sinv s'"
proof -
  have a: "a \<notin> th_terms s" "none_on of_call (tokens s) a"
    using act by (auto simp: act_free_def split: if_splits)
  obtain h where h: "AwaitCloseAndDestructor (th_heap s) a = Some h" "mem (th_heap s) a \<noteq> None"
      "s' = s\<lparr>th_heap := h, raced := raced s \<or> \<not> none_on is_popped (tokens s) a\<rparr>"
    using act by (auto simp: act_free_def split: if_splits)
  then obtain ob where ob: "mem (th_heap s) a = Some ob" "m_CloseRequested ob = 3"
      "h = (th_heap s)\<lparr>mem := (mem (th_heap s))(a := None)\<rparr>"
    by (auto simp: AwaitCloseAndDestructor_def split: if_splits)
  have "num is_popped (on (tokens s) a) = 0"
    using assms(3) h(3) by (simp add: none_on_iff)
  then show ?thesis
    using tinv_free [OF inv [unfolded sinv_def] ob(1,2) a(1)] a(2) h(3) ob(3) by (simp add: sinv_def none_on_iff)
qed

lemma sinv_request:
  assumes inv: "tinv (th_heap s) (add_mset t (tokens s)) (th_terms s) (lost s)" and t: "t = Requesting a \<or> t = Popped a"
    and "\<not> raced (request a s)"
  shows "sinv (request a s)"
proof -
  have t': "tok_addr t = a" "\<not> is_dtor t"
    using t by auto
  obtain ob where ob: "mem (th_heap s) a = Some ob"
    using tinv_token [OF inv, of t] t'(1) by auto
  have self: "self_ok (add_mset t (on (tokens s) a)) (card (owned (th_heap s) (add_mset t (tokens s)) a))
      (releases (th_heap s) a) (a \<in> lost s) (a \<in> th_terms s) ob"
    using tinvD(2) [OF inv ob] t' by simp
  show ?thesis
  proof (cases "m_CloseRequested ob = 0")
    case True
    then have "num uncounted (on (tokens s) a) = 0"
      using assms(3) ob by (simp add: request_def none_on_iff)
    note new = self_ok_request [OF self t True this, of "loops (kind ob)"]
    have "tinv (put_obj (th_heap s) a (ob\<lparr>m_CloseRequested := 1\<rparr>)) (add_mset (Shutting a (loops (kind ob))) (tokens s)) (th_terms s) (lost s)"
      by (rule tinv_update [OF inv ob]) (use new t' True in simp_all)
    then show ?thesis
      using True ob by (simp add: sinv_def request_def)
  next
    case False
    have "tinv (th_heap s) (tokens s) (th_terms s) (lost s)"
      by (rule tinv_tokens [OF inv ob]) (use self_ok_request_lost [OF self t] t' in simp_all)
    then show ?thesis
      using False ob by (simp add: sinv_def request_def)
  qed
qed

lemma sinv_act_request:
  assumes "sinv s" "act_request a s = Some s' \<or> act_request_popped a s = Some s'" "\<not> raced s'"
  shows "sinv s'"
  using assms(2)
proof
  assume "act_request a s = Some s'"
  then obtain T where "tokens s = add_mset (Requesting a) T" "s' = request a (s\<lparr>tokens := T\<rparr>)"
    unfolding act_request_def by (rule takingE)
  then show ?thesis
    using assms(1,3) sinv_request [of "s\<lparr>tokens := T\<rparr>" "Requesting a" a] by (simp add: sinv_def)
next
  assume "act_request_popped a s = Some s'"
  then obtain T where "tokens s = add_mset (Popped a) T" "s' = request a (s\<lparr>tokens := T\<rparr>)"
    unfolding act_request_popped_def by (rule takingE)
  then show ?thesis
    using assms(1,3) sinv_request [of "s\<lparr>tokens := T\<rparr>" "Popped a" a] by (simp add: sinv_def)
qed

lemma sinv_loop_done:
  assumes inv: "sinv s" and act: "act_loop_done d ks s = Some s'"
  shows "sinv s'"
proof -
  obtain k ks' where ks: "ks = k # ks'" "taking (Shutting d ks) s (adding (Shutting d ks')) = Some s'"
    using act by (auto simp: act_loop_done_def split: list.splits if_splits)
  from ks(2) obtain T where T: "tokens s = add_mset (Shutting d ks) T" "s' = adding (Shutting d ks') (s\<lparr>tokens := T\<rparr>)"
    by (rule takingE)
  have t: "tinv (th_heap s) (add_mset (Shutting d ks) T) (th_terms s) (lost s)"
    using inv T by (simp add: sinv_def)
  obtain ob where ob: "mem (th_heap s) d = Some ob"
    using tinv_token [OF t, of "Shutting d ks"] by auto
  have "tinv (th_heap s) (add_mset (Shutting d ks') T) (th_terms s) (lost s)"
    by (rule tinv_tokens [OF t ob]) (use tinvD(2) [OF t ob] self_ok_shutting in auto)
  then show ?thesis
    using T by (simp add: sinv_def)
qed

lemma sinv_pop:
  assumes inv: "sinv s" and act: "act_pop d ks s = Some s'"
  shows "sinv s'"
proof -
  let ?h = "th_heap s" and ?T = "tokens s"
  note i = inv [unfolded sinv_def]
  obtain k ks' c cs where ks: "ks = k # ks'" and l: "list_of k ?h d = c # cs" and m: "Shutting d ks \<in># ?T"
      and s': "s' = adding (Popped c) (on_heap (\<lambda>h. pop_list k h d) s)"
    using act by (auto simp: act_pop_def split: list.splits if_splits)
  obtain db where db: "mem ?h d = Some db" "child_list k db = c # cs"
    using l by (auto simp: list_of_def split: option.splits)
  have k: "k \<noteq> DbObject" "k \<noteq> BackupEngineObject"
    using db(2) by auto
  obtain K where K: "on ?T d = add_mset (Shutting d ks) K"
    using m on_member [of "Shutting d ks" ?T d] by (metis multi_member_split tok_addr.simps(9))
  have "m_CloseRequested db \<noteq> 3"
    using self_ok_referred(1) [OF tinvD(2) [OF i db(1)]] K by auto
  then have pop: "pop_list k ?h d = put_obj ?h d (set_child_list k cs db)"
    using db by (simp add: pop_list_def with_live_eq)
  have "listed_child ?h ?T k d c"
    using tinvD(4) [OF i db(1)] db(2) by simp
  then obtain oc where oc: "mem ?h c = Some oc" "kind oc = k" "m_DbPtr oc = Some d"
    by (auto simp: listed_child_def)
  have cd: "c \<noteq> d"
    using oc db(1) self_okD(2) [OF tinvD(2) [OF i db(1)]] tinvD(3) [OF i oc(1)] k
      self_okD(2) [OF tinvD(2) [OF i oc(1)]] \<open>listed_child ?h ?T k d c\<close> listed_owns [OF tinvD(2) [OF i oc(1)]]
    by (auto simp: owner_ok_def listed_child_def)
  have inv1: "tinv (put_obj ?h d (set_child_list k cs db)) ?T (th_terms s) (lost s)"
    by (rule tinv_update [OF i db(1)]) (use tinvD(2) [OF i db(1)] db(2) k in \<open>auto split: if_splits\<close>)
  have oc1: "mem (put_obj ?h d (set_child_list k cs db)) c = Some oc"
    using oc(1) cd by simp
  have "tinv (put_obj ?h d (set_child_list k cs db)) (add_mset (Popped c) ?T) (th_terms s) (lost s)"
    by (rule tinv_tokens [OF inv1 oc1]) (use self_ok_popped [OF tinvD(2) [OF inv1 oc1]] in auto)
  then show ?thesis
    by (simp add: sinv_def s' pop)
qed

lemma sinv_cas:
  assumes inv: "sinv s" and act: "act_cas a s = Some s'"
  shows "sinv s'"
proof -
  obtain T where T: "tokens s = add_mset (Zero a) T" and s': "s' = (\<lambda>s. case mem (th_heap s) a of
         None \<Rightarrow> on_heap (\<lambda>h. h\<lparr>fault := True\<rparr>) s
       | Some ob \<Rightarrow>
           if m_CloseRequested ob = 1
           then adding (Destroying a (dtor_prog (kind ob))) (on_heap (\<lambda>h. put_obj h a (ob\<lparr>m_CloseRequested := 2\<rparr>)) s)
           else s) (s\<lparr>tokens := T\<rparr>)"
    using act unfolding act_cas_def by (rule takingE)
  have t: "tinv (th_heap s) (add_mset (Zero a) T) (th_terms s) (lost s)"
    using inv T by (simp add: sinv_def)
  obtain ob where ob: "mem (th_heap s) a = Some ob"
    using tinv_token [OF t, of "Zero a"] by auto
  have self: "self_ok (add_mset (Zero a) (on T a)) (card (owned (th_heap s) (add_mset (Zero a) T) a))
      (releases (th_heap s) a) (a \<in> lost s) (a \<in> th_terms s) ob"
    using tinvD(2) [OF t ob] by simp
  note one = self_ok_cas [OF self]
  have none: "dtors (on T a) = {#}"
    using self_okD(9) [OF self] one(1) by simp
  let ?T = "add_mset (Destroying a (dtor_prog (kind ob))) T"
  have "tinv (put_obj (th_heap s) a (ob\<lparr>m_CloseRequested := 2\<rparr>)) ?T (th_terms s) (lost s)"
  proof (rule tinv_put [OF t ob])
    show "listed (on ?T a) (ob\<lparr>m_CloseRequested := 2\<rparr>) \<or> (\<forall>d db k. mem (th_heap s) d = Some db \<longrightarrow> a \<notin> set (child_list k db))"
    proof (cases "kind ob \<in> {DbObject, BackupEngineObject}")
      case True
      then have "m_DbPtr ob = None"
        using self_okD(2) [OF self] by simp
      then show ?thesis
        using tinvD(4) [OF t] ob by (fastforce simp: listed_child_def)
    next
      case False
      then show ?thesis
        using none by (cases "kind ob") (auto simp: listed_def)
    qed
    show "owns (on ?T a) (ob\<lparr>m_CloseRequested := 2\<rparr>) = owns (on (add_mset (Zero a) T) a) ob" if "m_DbPtr ob \<noteq> None"
      using that self_okD(2) [OF self] none one(1) by (cases "kind ob") (auto simp: owns_def)
  qed (use one none in auto)
  then show ?thesis
    using ob one(1) by (simp add: sinv_def s')
qed

lemma self_ok_inc:
  assumes "self_ok K n r l m ob" "num is_young K = 0" "m_RefCount ob \<noteq> - 1" "m_RefCount ob \<noteq> 0"
  shows "self_ok (add_mset (Held a) K) n r l m (ob\<lparr>m_RefCount := m_RefCount ob + 1\<rparr>)"
proof -
  have "m_CloseRequested ob = 0 \<or> m_CloseRequested ob = 1"
    using self_okD(4) [OF assms(1)] assms(4) by auto
  moreover from this have "m_CloseRequested ob \<noteq> 2"
    by auto
  ultimately show ?thesis
    using assms unat_inc [OF assms(3)] unfolding self_ok_def by simp
qed

text \<open>A database that a call has in hand, with a reference or as the one that opens it.\<close>

lemma in_hand:
  assumes inv: "tinv h T ts ls" and d: "Held d \<in># T \<or> Opening d \<in># T" "mem h d = Some db"
  shows "m_RefCount db \<noteq> 0" "num is_young (on T d) = 0" "m_CloseRequested db \<noteq> 3"
proof -
  obtain t K where t: "on T d = add_mset t K" "t = Held d \<or> t = Opening d"
    using d(1) on_member [of _ T d] by (metis multi_member_split tok_addr.simps(1,3))
  note self = tinvD(2) [OF inv d(2), unfolded t(1)]
  show young: "num is_young (on T d) = 0"
    using self_ok_not_young [OF self] t by auto
  have "t = Opening d \<Longrightarrow> m_CloseRequested db = 0"
    using self_okD(5) [OF self] by auto
  then have "unat (m_RefCount db) \<noteq> 0"
    using self_okD(3) [OF self] t young by auto
  then show "m_RefCount db \<noteq> 0" by auto
  then show "m_CloseRequested db \<noteq> 3"
    using self_okD(4) [OF self] by auto
qed

lemma sinv_build:
  assumes inv: "sinv s" and act: "act_build k d s = Some s'"
  shows "sinv s'"
proof -
  let ?h = "th_heap s" and ?T = "tokens s"
  note i = inv [unfolded sinv_def]
  have d: "Held d \<in># ?T \<or> Opening d \<in># ?T" "k \<notin> {DbObject, BackupEngineObject}" "count_free ?h d"
      "\<exists>db \<in> set_option (mem ?h d). kind db = DbObject"
      and s': "s' = adding (Built (next_addr ?h))
        (s\<lparr>th_heap := RefInc (alloc ?h (new_object k (Some d))) d\<rparr>)"
    using act
    by (auto simp: act_build_def enif_alloc_resource_def ReferencePtr_ctor_def alloc_def put_obj_def split: if_splits)
  obtain db where db: "mem ?h d = Some db" "kind db = DbObject"
    using d(4) by auto
  note hand = in_hand [OF i d(1) db(1)]
  have room: "m_RefCount db \<noteq> - 1"
    using d(3) db(1) by (simp add: count_free_def)
  let ?db = "db\<lparr>m_RefCount := m_RefCount db + 1\<rparr>"
  have n: "d \<noteq> next_addr ?h"
    using tinv_fresh(1) [OF i] db(1) by auto
  have inv1: "tinv (put_obj ?h d ?db) (add_mset (Held d) ?T) (th_terms s) (lost s)"
    by (rule tinv_update [OF i db(1)]) (use self_ok_inc [OF tinvD(2) [OF i db(1)] hand(2) room hand(1)] in auto)
  have "RefInc (alloc ?h (new_object k (Some d))) d = alloc (put_obj ?h d ?db) (new_object k (Some d))"
    using db hand(3) n by (auto simp: RefInc_def with_live_eq [of _ _ db] intro!: put_obj_eqI)
  then show ?thesis
    using tinv_build [OF inv1 _ _ d(2), of ?db] db(2) by (simp add: sinv_def s')
qed

lemma sinv_enlist:
  assumes inv: "sinv s" and act: "act_enlist c s = Some s'"
  shows "sinv s'"
proof -
  obtain T where T: "tokens s = add_mset (Built c) T"
      and s': "s' = adding (Listed c) (on_heap (\<lambda>h.
         with_live h c (\<lambda>ob. add_to_db (add_child (kind ob)) h (m_DbPtr ob) c)) (s\<lparr>tokens := T\<rparr>))"
    using act unfolding act_enlist_def by (rule takingE)
  have t: "tinv (th_heap s) (add_mset (Built c) T) (th_terms s) (lost s)"
    using inv T by (simp add: sinv_def)
  obtain ob where "mem (th_heap s) c = Some ob"
    using tinv_token [OF t, of "Built c"] by auto
  then show ?thesis
    using tinv_enlist [OF t] by (simp add: sinv_def s')
qed

lemma sinv_created:
  assumes inv: "sinv s" and act: "act_created c s = Some s'"
  shows "sinv s'"
proof -
  obtain T where T: "tokens s = add_mset (Listed c) T"
      and s': "s' = on_heap (\<lambda>h. RefInc h c) (s\<lparr>tokens := T, th_terms := insert c (th_terms s)\<rparr>)"
    using act by (auto simp: act_created_def elim: takingE)
  have t: "tinv (th_heap s) (add_mset (Listed c) T) (th_terms s) (lost s)"
    using inv T by (simp add: sinv_def)
  obtain ob where ob: "mem (th_heap s) c = Some ob"
    using tinv_token [OF t, of "Listed c"] by auto
  have self: "self_ok (add_mset (Listed c) (on T c)) (card (owned (th_heap s) (add_mset (Listed c) T) c))
      (releases (th_heap s) c) (c \<in> lost s) (c \<in> th_terms s) ob"
    using tinvD(2) [OF t ob] by simp
  have "kind ob \<noteq> DbObject"
    using self_okD(6) [OF self] by simp
  then have "card (owned (th_heap s) (add_mset (Listed c) T) c) = 0"
    using owned_db [OF t ob] by simp
  with self_ok_created [OF self] have "tinv (put_obj (th_heap s) c (ob\<lparr>m_RefCount := m_RefCount ob + 1\<rparr>)) T (insert c (th_terms s)) (lost s)"
    by (intro tinv_update [OF t ob]) auto
  moreover have "m_CloseRequested ob = 0"
    using self_okD(5) [OF self] by auto
  ultimately show ?thesis
    using ob by (simp add: sinv_def s' RefInc_def with_live_eq)
qed

lemma sinv_dtor_part:
  assumes inv: "tinv (th_heap s) (add_mset (Destroying a (x # rest)) (tokens s)) (th_terms s) (lost s)"
  shows "sinv (dtor_part x ok a (if rest = [] then s else adding (Destroying a rest) s))"
proof -
  obtain ob where ob: "mem (th_heap s) a = Some ob"
    using tinv_token [OF inv, of "Destroying a (x # rest)"] by auto
  show ?thesis
  proof (cases x)
    case Give
    show ?thesis
      using tinv_give(1) [OF inv [unfolded Give] ob, of ok] tinv_give(2) [OF inv [unfolded Give] ob] ob Give
      by (auto simp: dtor_part_def sinv_def split: if_splits)
  next
    case Unlist
    show ?thesis
      using tinv_unlist [OF inv [unfolded Unlist] ob] ob Unlist by (simp add: dtor_part_def sinv_def)
  next
    case DropDb
    obtain d where d: "m_DbPtr ob = Some d" "rest \<noteq> []"
        "tinv (th_heap s) (add_mset (Held d) (add_mset (Destroying a rest) (tokens s))) (th_terms s) (lost s)"
      using inv ob unfolding DropDb by (rule tinv_drop_db)
    then show ?thesis
      using sinv_drop_ref [of "adding (Destroying a rest) s" "Held d" d] ob DropDb by (simp add: dtor_part_def)
  next
    case Mark
    show ?thesis
      using tinv_mark [OF inv [unfolded Mark]] ob Mark by (simp add: dtor_part_def sinv_def)
  qed
qed

lemma sinv_dtor:
  assumes inv: "sinv s" and act: "act_dtor a acts ok s = Some s'"
  shows "sinv s'"
proof -
  obtain x rest where acts: "acts = x # rest"
      and take: "taking (Destroying a acts) s (\<lambda>s. dtor_part x ok a (if rest = [] then s else adding (Destroying a rest) s)) = Some s'"
    using act by (auto simp: act_dtor_def split: list.splits)
  from take obtain T where "tokens s = add_mset (Destroying a acts) T"
      "s' = dtor_part x ok a (if rest = [] then s\<lparr>tokens := T\<rparr> else adding (Destroying a rest) (s\<lparr>tokens := T\<rparr>))"
    by (rule takingE)
  then show ?thesis
    using inv sinv_dtor_part [of "s\<lparr>tokens := T\<rparr>" a x rest ok] acts by (simp add: sinv_def)
qed

lemma sinv_give_cf:
  assumes inv: "sinv s" and act: "act_give_cf c ok s = Some s'" and "\<not> raced s'"
  shows "sinv s'"
proof -
  obtain T ob where T: "tokens s = add_mset (Held c) T" and ob: "mem (th_heap s) c = Some ob" "kind ob = ColumnFamilyObject"
      and s': "s' = adding (GivenBack c ok)
          (on_heap (\<lambda>h. with_live h c (\<lambda>ob. if m_Native ob then destroy_handle h (m_DbPtr ob) c ok else h))
            (s\<lparr>tokens := T, raced := raced s \<or> \<not> none_on is_given T c\<rparr>))"
    using act by (auto simp: act_give_cf_def split: if_splits elim!: takingE)
  have "num is_given (on T c) = 0"
    using assms(3) by (simp add: s' none_on_iff)
  then show ?thesis
    using tinv_give_cf [OF _ ob, of T "th_terms s" "lost s" ok] inv T by (simp add: sinv_def s' cong: if_cong)
qed

lemma sinv_clear_cf:
  assumes inv: "sinv s" and act: "act_clear_cf c ok s = Some s'"
  shows "sinv s'"
proof -
  obtain T where T: "tokens s = add_mset (GivenBack c ok) T"
      and s': "s' = (\<lambda>s. let s1 = (if \<not> ok \<and> (\<exists>ob \<in> set_option (mem (th_heap s) c). m_Native ob)
                 then s\<lparr>lost := insert c (lost s)\<rparr> else s);
           s2 = adding (Held c) (on_heap (\<lambda>h. clear_native h c) s1)
       in if ok then adding (Requesting c) s2 else s2) (s\<lparr>tokens := T\<rparr>)"
    using act unfolding act_clear_cf_def by (rule takingE)
  have t: "tinv (th_heap s) (add_mset (GivenBack c ok) T) (th_terms s) (lost s)"
    using inv T by (simp add: sinv_def)
  obtain ob where ob: "mem (th_heap s) c = Some ob"
    using tinv_token [OF t, of "GivenBack c ok"] by auto
  let ?ls = "if \<not> ok \<and> m_Native ob then insert c (lost s) else lost s"
  have inv1: "tinv (clear_native (th_heap s) c) (add_mset (Held c) T) (th_terms s) ?ls"
    using tinv_clear_cf [OF t ob] .
  obtain ob' where ob': "mem (clear_native (th_heap s) c) c = Some ob'"
      and young: "num is_young (on (add_mset (Held c) T) c) = 0"
    by (rule held_not_young [OF inv1, of c]) auto
  have "tinv (clear_native (th_heap s) c) (add_mset (Requesting c) (add_mset (Held c) T)) (th_terms s) ?ls"
    by (rule tinv_requesting [OF inv1 ob' young]) simp
  with inv1 show ?thesis
    using ob by (auto simp: s' sinv_def Let_def)
qed

lemma perform_keeps:
  assumes "perform x s = Some s'" "sinv s" "\<not> raced s'"
  shows "sinv s'"
proof (cases x)
  case (OpenDb b1 b2) with assms show ?thesis using sinv_open(1) [of s b1 b2] by simp
next
  case OpenEngine with assms show ?thesis using sinv_open(2) [of s] by simp
next
  case (Opened a) with assms sinv_opened show ?thesis by auto
next
  case (RetrieveObj k a) with assms sinv_retrieve show ?thesis by auto
next
  case (RetrieveToClose k a) with assms sinv_retrieve show ?thesis by auto
next
  case (Assign a) with assms sinv_assign show ?thesis by auto
next
  case (Release a) with assms sinv_release show ?thesis by auto
next
  case (AskClose a) with assms sinv_ask_close show ?thesis by auto
next
  case (Build k d) with assms sinv_build show ?thesis by auto
next
  case (Enlist c) with assms sinv_enlist show ?thesis by auto
next
  case (Created c) with assms sinv_created show ?thesis by auto
next
  case (Request a) with assms sinv_act_request show ?thesis by auto
next
  case (RequestPopped a) with assms sinv_act_request show ?thesis by auto
next
  case (Pop d ks) with assms sinv_pop show ?thesis by auto
next
  case (LoopDone d ks) with assms sinv_loop_done show ?thesis by auto
next
  case (ShutdownDone a) with assms sinv_release show ?thesis by auto
next
  case (Cas a) with assms sinv_cas show ?thesis by auto
next
  case (Dtor a acts ok) with assms sinv_dtor show ?thesis by auto
next
  case (GiveCf c ok) with assms sinv_give_cf show ?thesis by auto
next
  case (ClearCf c ok) with assms sinv_clear_cf show ?thesis by auto
next
  case (Collect a) with assms sinv_collect show ?thesis by auto
next
  case (Free a) with assms sinv_free show ?thesis by auto
qed

lemma perform_raced: "perform x s = Some s' \<Longrightarrow> raced s \<Longrightarrow> raced s'"
  by (cases x)
    (auto simp: act_open_def act_opened_def act_retrieve_def act_assign_def act_release_def act_ask_close_def
      act_build_def act_enlist_def act_created_def act_request_def act_request_popped_def request_def act_pop_def
      act_loop_done_def act_shutdown_done_def act_cas_def act_dtor_def dtor_part_def act_give_cf_def
      act_clear_cf_def act_collect_def act_free_def taking_def Let_def
      split: if_splits option.splits list.splits dtor_act.splits prod.splits)

text \<open>The invariant of a state that did not race is kept by every step.\<close>

lemma step_keeps:
  assumes "thread_step s s'" "raced s \<or> sinv s"
  shows "raced s' \<or> sinv s'"
proof -
  obtain x where x: "perform x s = Some s'"
    using assms(1) by (auto elim: thread_step.cases)
  then show ?thesis
    using assms(2) perform_raced [OF x] perform_keeps [OF x] by blast
qed

interpretation interleaved: kept_by_steps thread_step "\<lambda>s. raced s \<or> sinv s"
  by unfold_locales (rule step_keeps)

lemma thread_reachable_steps: "thread_reachable s \<Longrightarrow> thread_step\<^sup>*\<^sup>* initial_threads s"
  by (induction rule: thread_reachable.induct) (auto intro: rtranclp.rtrancl_into_rtrancl)

lemma initial_inv: "sinv initial_threads"
  by (simp add: sinv_def tinv_def addr_ok_def initial_threads_def empty_heap_def releases_def db_deleted_last_def)

lemma thread_reachable_inv: "thread_reachable s \<Longrightarrow> \<not> raced s \<Longrightarrow> sinv s"
  using interleaved.steps_keep [OF thread_reachable_steps] initial_inv by blast

end
