(* ===== verification/Thread_Props.thy ===== *)
theory Thread_Props
  imports Thread_Steps
begin

text \<open>
  The properties of the reference-counted objects under every interleaving of the actions of
  \<open>Ref_Threads\<close> that goes through none of the unprotected windows, and the runs that show what the
  windows cost.
\<close>

section \<open>Concrete runs\<close>

definition after :: "action list \<Rightarrow> threads" where
  "after xs = the (run_acts xs initial_threads)"

lemma after_reachable: "run_acts xs initial_threads \<noteq> None \<Longrightarrow> thread_reachable (after xs)"
  unfolding after_def using run_acts_reachable [OF thread_reachable.init] by auto

text \<open>\<open>Shutdown\<close> of a database whose lists are empty.\<close>

definition shut_empty :: "addr \<Rightarrow> action list" where
  "shut_empty d =
     [LoopDone d [ItrObject, ColumnFamilyObject, SnapshotObject, TLogItrObject, TransactionObject],
      LoopDone d [ColumnFamilyObject, SnapshotObject, TLogItrObject, TransactionObject],
      LoopDone d [SnapshotObject, TLogItrObject, TransactionObject],
      LoopDone d [TLogItrObject, TransactionObject], LoopDone d [TransactionObject], ShutdownDone d]"

text \<open>A database 0 is opened, and a call that holds it has constructed and listed an iterator 1.\<close>

definition building :: "action list" where
  "building = [OpenDb False False, Opened 0, RetrieveObj DbObject 0, Assign 0, Build ItrObject 0, Enlist 1]"

text \<open>The iterator is made; another call takes it; the database is closed meanwhile and its shutdown
  runs to the end. Then the call gives the iterator back, and the destructors run.\<close>

definition closed_while_taken :: "action list" where
  "closed_while_taken =
     building @ [Created 1, Release 0, RetrieveObj ItrObject 1, Assign 1, RetrieveToClose DbObject 0,
       Request 0, Pop 0 (loops DbObject), RequestPopped 1, ShutdownDone 1] @ shut_empty 0"

definition closed_and_done :: "action list" where
  "closed_and_done =
     closed_while_taken @ [Release 1, Cas 1, Dtor 1 (dtor_prog ItrObject) True, Dtor 1 [Give, DropDb, Mark] True,
       Dtor 1 [DropDb, Mark] True, Cas 0, Dtor 0 [Give, Mark] True, Dtor 1 [Mark] True, Dtor 0 [Mark] True]"

lemma reachable_taken: "thread_reachable (after closed_while_taken)" "\<not> raced (after closed_while_taken)"
proof -
  have "run_acts closed_while_taken initial_threads \<noteq> None" by code_simp
  then show "thread_reachable (after closed_while_taken)" by (rule after_reachable)
  show "\<not> raced (after closed_while_taken)" by code_simp
qed

lemma reachable_done: "thread_reachable (after closed_and_done)" "\<not> raced (after closed_and_done)"
proof -
  have "run_acts closed_and_done initial_threads \<noteq> None" by code_simp
  then show "thread_reachable (after closed_and_done)" by (rule after_reachable)
  show "\<not> raced (after closed_and_done)" by code_simp
qed

section \<open>Reading the invariant in a reachable state\<close>

lemma thread_parts:
  assumes "thread_reachable s" "\<not> raced s"
  shows "tinv (th_heap s) (tokens s) (th_terms s) (lost s)"
  using thread_reachable_inv [OF assms] by (simp add: sinv_def)

lemma counted_live:
  assumes inv: "tinv h T ts ls" and t: "t \<in># T" "counted t"
  obtains ob where "mem h (tok_addr t) = Some ob" "m_CloseRequested ob = 0 \<or> m_CloseRequested ob = 1"
    "owns (on T (tok_addr t)) ob"
proof -
  obtain ob where ob: "mem h (tok_addr t) = Some ob"
    using tinv_token [OF inv t(1)] .
  have "num counted (on T (tok_addr t)) \<noteq> 0"
    using t on_member [of t T] by (auto simp: num_zero)
  note live = self_ok_referred [OF tinvD(2) [OF inv ob] disjI1 [OF this]]
  then show ?thesis
    using that ob by (auto simp: owns_def)
qed

text \<open>A child that no longer refers to its database has given its RocksDB object back.\<close>

lemma disowned_released:
  assumes inv: "tinv h T ts ls" and c: "mem h c = Some oc" "\<not> owns (on T c) oc" "m_DbPtr oc \<noteq> None"
  shows "\<not> m_Native oc"
proof (cases "m_CloseRequested oc = 3")
  case False
  note self = tinvD(2) [OF inv c(1)]
  have two: "m_CloseRequested oc = 2"
  proof (rule ccontr)
    assume "m_CloseRequested oc \<noteq> 2"
    then have "dtors (on T c) = {#}"
      by (rule self_okD(9) [OF self])
    with c(2) False show False by (simp add: owns_def)
  qed
  then obtain acts p where acts: "dtors (on T c) = {#acts#}" "dtor_prog (kind oc) = p @ acts"
      "m_Native oc \<longrightarrow> Give \<in> set acts"
    using self_okD(8) [OF self] by blast
  have "DropDb \<notin> set acts"
    using c(2) acts(1) False by (simp add: owns_def)
  then have "Give \<notin> set acts"
    using acts(2) self_okD(2) [OF self] c(3) by (cases "kind oc") (auto simp: Cons_eq_append_conv)
  then show ?thesis
    using acts(3) by blast
qed (use self_okD(11) [OF tinvD(2) [OF inv c(1)]] in blast)

section \<open>No use after destruction\<close>

text \<open>
  Claim C2. Whatever the interleaving of calls, closes and collections, as long as no close request
  fell into a window of another call (\<open>raced\<close>): an object that a call has in a \<open>ReferencePtr\<close>, or that a
  thread is shutting down, is not in its destructor; its RocksDB pointer is not null (a column
  family whose handle was destroyed by hand apart), and the database it belongs to is not in its
  destructor either and still open in RocksDB.
\<close>

theorem held_objects_usable:
  assumes "thread_reachable s" "\<not> raced s" "t \<in># tokens s" "counted t" "tok_addr t = a"
  shows "\<exists>ob. mem (th_heap s) a = Some ob \<and> m_CloseRequested ob \<in> {0, 1} \<and>
    (kind ob \<noteq> ColumnFamilyObject \<longrightarrow> m_Native ob) \<and>
    (\<forall>d. m_DbPtr ob = Some d \<longrightarrow>
       (\<exists>db. mem (th_heap s) d = Some db \<and> kind db = DbObject \<and> m_CloseRequested db \<in> {0, 1} \<and> m_Native db))"
proof -
  note inv = thread_parts [OF assms(1,2)]
  obtain ob where ob: "mem (th_heap s) a = Some ob" "m_CloseRequested ob = 0 \<or> m_CloseRequested ob = 1"
      "owns (on (tokens s) a) ob"
    using counted_live [OF inv assms(3,4)] assms(5) by blast
  moreover have "kind ob \<noteq> ColumnFamilyObject \<longrightarrow> m_Native ob"
    using self_okD(10) [OF tinvD(2) [OF inv ob(1)]] ob(2) by blast
  moreover have "\<exists>db. mem (th_heap s) d = Some db \<and> kind db = DbObject \<and> m_CloseRequested db \<in> {0, 1} \<and> m_Native db"
    if d: "m_DbPtr ob = Some d" for d
  proof -
    obtain db where "mem (th_heap s) d = Some db" "kind db = DbObject"
        "m_CloseRequested db = 0 \<or> m_CloseRequested db = 1" "m_Native db"
      using inv ob(1) d ob(3) by (rule owner_live_db)
    then show ?thesis by blast
  qed
  ultimately show ?thesis by blast
qed

theorem held_objects_usable_witness:
  "\<exists>ob db. mem (th_heap (after closed_while_taken)) 1 = Some ob \<and> kind ob = ItrObject \<and>
     m_CloseRequested ob \<in> {0, 1} \<and> m_Native ob \<and> m_DbPtr ob = Some 0 \<and>
     mem (th_heap (after closed_while_taken)) 0 = Some db \<and> m_CloseRequested db \<in> {0, 1} \<and> m_Native db"
proof -
  let ?h = "th_heap (after closed_while_taken)"
  have "Held 1 \<in># tokens (after closed_while_taken)" "counted (Held 1)" "tok_addr (Held 1) = 1"
    by code_simp+
  from held_objects_usable [OF reachable_taken this] obtain ob where ob: "mem ?h 1 = Some ob" "m_CloseRequested ob \<in> {0, 1}"
      "kind ob \<noteq> ColumnFamilyObject \<longrightarrow> m_Native ob"
      "\<forall>d. m_DbPtr ob = Some d \<longrightarrow>
         (\<exists>db. mem ?h d = Some db \<and> kind db = DbObject \<and> m_CloseRequested db \<in> {0, 1} \<and> m_Native db)"
    by blast
  have "kind (the (mem ?h 1)) = ItrObject" "m_DbPtr (the (mem ?h 1)) = Some 0"
    by code_simp+
  with ob show ?thesis
    by auto
qed

section \<open>Reference counts\<close>



section \<open>RocksDB objects are given back once, children first\<close>

text \<open>
  Claim C6. Whatever the interleaving, as long as no close request and no second \<open>DestroyColumnFamily\<close> fell
  into a window of another call: the RocksDB object behind an Erlang resource is given back at most
  once. It has not been given back while the pointer is set, except between the answer of
  \<open>DestroyColumnFamilyHandle\<close> and the write of the null pointer; it has been given back exactly once
  when the pointer is null, when the object is destroyed and when its storage is freed, unless it is
  a column family handle that RocksDB refused to destroy, which is then never given back.
\<close>

theorem native_released_once:
  assumes "thread_reachable s" "\<not> raced s"
  shows "releases (th_heap s) a \<le> 1 \<and>
    (\<forall>ob. mem (th_heap s) a = Some ob \<longrightarrow>
       (m_Native ob \<longrightarrow> GivenBack a True \<notin># tokens s \<longrightarrow> releases (th_heap s) a = 0) \<and>
       (\<not> m_Native ob \<longrightarrow> releases (th_heap s) a = (if a \<in> lost s then 0 else 1)) \<and>
       (m_CloseRequested ob = 3 \<longrightarrow> releases (th_heap s) a = (if a \<in> lost s then 0 else 1))) \<and>
    (a < next_addr (th_heap s) \<longrightarrow> mem (th_heap s) a = None \<longrightarrow>
       releases (th_heap s) a = (if a \<in> lost s then 0 else 1))"
proof (cases "mem (th_heap s) a")
  case None
  then show ?thesis
    using tinv_None(4) [OF thread_parts [OF assms] None] by simp
next
  case (Some ob)
  note self = tinvD(2) [OF thread_parts [OF assms] Some]
  have "num given_ok (on (tokens s) a) = 0" if "GivenBack a True \<notin># tokens s"
  proof -
    have "\<not> given_ok t" if t: "t \<in># on (tokens s) a" for t
      using t \<open>GivenBack a True \<notin># tokens s\<close> by (cases t) (auto simp: on_member)
    then show ?thesis by (simp add: num_zero)
  qed
  then show ?thesis
    using self_okD(11,14,15) [OF self] Some by auto
qed

theorem native_released_once_witness: "releases (th_heap (after closed_and_done)) 1 = 1"
proof -
  let ?ob = "the (mem (th_heap (after closed_and_done)) 1)"
  have "mem (th_heap (after closed_and_done)) 1 = Some ?ob" "m_CloseRequested ?ob = 3"
      "1 \<notin> lost (after closed_and_done)"
    by code_simp+
  with native_released_once [OF reachable_done, of 1] show ?thesis
    by auto
qed

text \<open>
  Claim C5. Whatever the interleaving, as long as no close request fell into a window of another call:
  \<open>delete m_Db\<close> comes after everything else. No column family handle, snapshot, iterator, log iterator
  or transaction of a database is given back after the database was deleted, and an object that
  belongs to a deleted database has given its own RocksDB object back.
\<close>

theorem db_deleted_after_children:
  assumes "thread_reachable s" "\<not> raced s"
  shows "db_deleted_last (log (th_heap s)) \<and>
    (\<forall>d c oc. DeleteDb d \<in> set (log (th_heap s)) \<longrightarrow> mem (th_heap s) c = Some oc \<longrightarrow>
       m_DbPtr oc = Some d \<longrightarrow> \<not> m_Native oc)"
proof (intro conjI allI impI)
  note inv = thread_parts [OF assms]
  show "db_deleted_last (log (th_heap s))"
    using inv by (simp add: tinv_def)
  fix d c oc
  assume deleted: "DeleteDb d \<in> set (log (th_heap s))" and c: "mem (th_heap s) c = Some oc" "m_DbPtr oc = Some d"
  have "\<not> owns (on (tokens s) c) oc"
  proof
    assume own: "owns (on (tokens s) c) oc"
    obtain db where "mem (th_heap s) d = Some db" "kind db = DbObject" "m_Native db"
      using inv c own by (rule owner_live_db)
    with db_not_deleted [OF inv] deleted show False by blast
  qed
  then show "\<not> m_Native oc"
    using disowned_released [OF inv c(1)] c(2) by simp
qed

theorem db_deleted_after_children_witness:
  "log (th_heap (after closed_and_done)) = [DeleteIterator (Some 0) 1, DeleteDb 0] \<and>
   db_deleted_last (log (th_heap (after closed_and_done))) \<and>
   (\<exists>oc. mem (th_heap (after closed_and_done)) 1 = Some oc \<and> m_DbPtr oc = Some 0 \<and> \<not> m_Native oc)"
proof -
  let ?oc = "the (mem (th_heap (after closed_and_done)) 1)"
  have "log (th_heap (after closed_and_done)) = [DeleteIterator (Some 0) 1, DeleteDb 0]"
      "mem (th_heap (after closed_and_done)) 1 = Some ?oc" "m_DbPtr ?oc = Some 0"
    by code_simp+
  with db_deleted_after_children [OF reachable_done] show ?thesis
    by auto
qed

section \<open>Closing takes effect\<close>

text \<open>
  Claim C7. A close is never lost, as long as no close request fell into a window of another call: once no
  thread has anything left to do, an object on which close was requested is destroyed, unless it is
  a database with a child on which no close was requested (one that was created after the shutdown
  of the database had passed its list).
\<close>

theorem requested_close_completes:
  assumes "thread_reachable s" "\<not> raced s" "tokens s = {#}"
    and "mem (th_heap s) a = Some ob" "m_CloseRequested ob \<noteq> 0"
  shows "m_CloseRequested ob = 3 \<or>
    kind ob = DbObject \<and>
    (\<exists>c oc. mem (th_heap s) c = Some oc \<and> m_DbPtr oc = Some a \<and> m_CloseRequested oc = 0)"
proof -
  note inv = thread_parts [OF assms(1,2)]
  have idle: "m_CloseRequested x \<in> {0, 3} \<or> m_CloseRequested x = 1 \<and> owned (th_heap s) (tokens s) b \<noteq> {}"
    if x: "mem (th_heap s) b = Some x" for b x
  proof -
    note self = tinvD(2) [OF inv x]
    have "m_CloseRequested x \<noteq> 2"
      using self_okD(8) [OF self] assms(3) by auto
    moreover have "m_RefCount x \<noteq> 0" if "m_CloseRequested x = 1"
      using self_okD(7) [OF self] assms(3) that by (auto split: if_splits)
    ultimately show ?thesis
      using self_okD(1,3) [OF self] assms(3) by (auto simp: unat_eq_zero)
  qed
  show ?thesis
  proof (cases "m_CloseRequested ob = 3")
    case False
    then have "owned (th_heap s) (tokens s) a \<noteq> {}"
      using idle [OF assms(4)] assms(5) by auto
    then obtain c oc where c: "mem (th_heap s) c = Some oc" "m_DbPtr oc = Some a" "owns (on (tokens s) c) oc"
      by (auto simp: owned_def)
    have kind: "kind ob = DbObject"
      using owned_db [OF inv assms(4)] \<open>owned (th_heap s) (tokens s) a \<noteq> {}\<close> by blast
    have "kind oc \<noteq> DbObject"
      using self_okD(2) [OF tinvD(2) [OF inv c(1)]] c(2) by auto
    then have "m_CloseRequested oc = 0"
      using idle [OF c(1)] owned_db [OF inv c(1)] c(3) by (auto simp: owns_def)
    then show ?thesis
      using c kind by blast
  qed simp
qed

theorem requested_close_completes_witness:
  "\<exists>ob. mem (th_heap (after closed_and_done)) 0 = Some ob \<and> m_CloseRequested ob \<noteq> 0 \<and>
     (m_CloseRequested ob = 3 \<or>
      kind ob = DbObject \<and>
      (\<exists>c oc. mem (th_heap (after closed_and_done)) c = Some oc \<and> m_DbPtr oc = Some 0 \<and> m_CloseRequested oc = 0))"
proof -
  let ?ob = "the (mem (th_heap (after closed_and_done)) 0)"
  have "tokens (after closed_and_done) = {#}" "mem (th_heap (after closed_and_done)) 0 = Some ?ob"
      "m_CloseRequested ?ob \<noteq> 0"
    by code_simp+
  with requested_close_completes [OF reachable_done] show ?thesis
    by blast
qed

section \<open>What the windows cost\<close>

text \<open>A database is closed and destroyed between the check and the count of another call.\<close>

definition close_before_count :: "action list" where
  "close_before_count =
     [OpenDb False False, Opened 0, RetrieveObj DbObject 0, RetrieveToClose DbObject 0, Request 0] @ shut_empty 0 @
     [Cas 0, Dtor 0 [Give, Mark] True, Dtor 0 [Mark] True, Assign 0]"

text \<open>A database is closed while a call has listed a new iterator and not yet counted it: the shutdown
  counts the iterator down from 0, and the creation counts it up to 0.\<close>

definition close_before_created :: "action list" where
  "close_before_created =
     building @ [RetrieveToClose DbObject 0, Request 0, Pop 0 (loops DbObject), RequestPopped 1, ShutdownDone 1,
       Created 1] @ shut_empty 0 @ [Release 0]"

text \<open>Two calls of \<open>DestroyColumnFamily\<close> on one handle.\<close>

definition two_destroys :: "action list" where
  "two_destroys =
     [OpenDb False False, Build ColumnFamilyObject 0, Enlist 1, Created 1, Opened 0,
      RetrieveObj ColumnFamilyObject 1, Assign 1, RetrieveObj ColumnFamilyObject 1, Assign 1, GiveCf 1 True, GiveCf 1 True]"

text \<open>An iterator is collected and freed while the shutdown of its database has it in hand.\<close>

definition freed_in_hand :: "action list" where
  "freed_in_hand =
     building @ [Created 1, RetrieveToClose DbObject 0, Request 0, Pop 0 (loops DbObject), Collect 1, Request 1,
       ShutdownDone 1, Cas 1, Dtor 1 (dtor_prog ItrObject) True, Dtor 1 [Give, DropDb, Mark] True,
       Dtor 1 [DropDb, Mark] True, Dtor 1 [Mark] True, Free 1, RequestPopped 1]"

text \<open>
  Claim C8. The windows are real, so the condition in the properties above cannot be dropped. There are
  runs of the code in which a call counts up a destroyed database (a fault); in which a closed
  database and its iterator, the close of both requested, stay for ever while no thread has anything
  left to do; in which one column family handle is given back to RocksDB twice; and in which a
  shutdown reads an iterator whose storage was freed (a fault).
\<close>

theorem unprotected_windows:
  "(\<exists>s. thread_reachable s \<and> Held 0 \<in># tokens s \<and> fault (th_heap s) \<and> log (th_heap s) = [DeleteDb 0]) \<and>
   (\<exists>s db it. thread_reachable s \<and> tokens s = {#} \<and>
      mem (th_heap s) 0 = Some db \<and> m_CloseRequested db = 1 \<and> m_Native db \<and>
      mem (th_heap s) 1 = Some it \<and> m_CloseRequested it = 1 \<and> m_Native it \<and> m_RefCount it = 0) \<and>
   (\<exists>s. thread_reachable s \<and> releases (th_heap s) 1 = 2) \<and>
   (\<exists>s. thread_reachable s \<and> mem (th_heap s) 1 = None \<and> fault (th_heap s))"
proof (intro conjI)
  have "run_acts close_before_count initial_threads \<noteq> None" "Held 0 \<in># tokens (after close_before_count)"
      "fault (th_heap (after close_before_count))" "log (th_heap (after close_before_count)) = [DeleteDb 0]"
    by code_simp+
  then show "\<exists>s. thread_reachable s \<and> Held 0 \<in># tokens s \<and> fault (th_heap s) \<and> log (th_heap s) = [DeleteDb 0]"
    using after_reachable by blast
  let ?s = "after close_before_created"
  let ?db = "the (mem (th_heap ?s) 0)" and ?it = "the (mem (th_heap ?s) 1)"
  have "run_acts close_before_created initial_threads \<noteq> None" "tokens ?s = {#}"
      "mem (th_heap ?s) 0 = Some ?db" "m_CloseRequested ?db = 1" "m_Native ?db"
      "mem (th_heap ?s) 1 = Some ?it" "m_CloseRequested ?it = 1" "m_Native ?it" "m_RefCount ?it = 0"
    by code_simp+
  then show "\<exists>s db it. thread_reachable s \<and> tokens s = {#} \<and>
      mem (th_heap s) 0 = Some db \<and> m_CloseRequested db = 1 \<and> m_Native db \<and>
      mem (th_heap s) 1 = Some it \<and> m_CloseRequested it = 1 \<and> m_Native it \<and> m_RefCount it = 0"
    using after_reachable by blast
  have "run_acts two_destroys initial_threads \<noteq> None" "releases (th_heap (after two_destroys)) 1 = 2"
    by code_simp+
  then show "\<exists>s. thread_reachable s \<and> releases (th_heap s) 1 = 2"
    using after_reachable by blast
  have "run_acts freed_in_hand initial_threads \<noteq> None" "mem (th_heap (after freed_in_hand)) 1 = None"
      "fault (th_heap (after freed_in_hand))"
    by code_simp+
  then show "\<exists>s. thread_reachable s \<and> mem (th_heap s) 1 = None \<and> fault (th_heap s)"
    using after_reachable by blast
qed

end
