(* ===== verification/Cpp_Strings.thy ===== *)
theory Cpp_Strings
  imports Prelude
begin

text \<open>
  Numbers in C++ strings: \<open>std::stoi\<close>, \<open>std::stoull\<close> and \<open>std::to_string\<close>, which
  the merge operators use, and the two parsers of \<open>c_src/util.cc\<close> for numbers
  with a size suffix.
\<close>

section \<open>Reading numbers\<close>

text \<open>
  \<open>std::stoi\<close> and \<open>std::stoull\<close> on a C string: skip white space, an optional sign,
  then digits. No digit raises \<open>invalid_argument\<close>, a value out of range raises
  \<open>out_of_range\<close>: both leave as exceptions. The second component is the number
  of characters consumed.
\<close>

definition is_space :: "byte \<Rightarrow> bool" where
  "is_space c \<longleftrightarrow> c = 32 \<or> 9 \<le> c \<and> c \<le> 13"

definition is_digit :: "byte \<Rightarrow> bool" where
  "is_digit c \<longleftrightarrow> 48 \<le> c \<and> c \<le> 57"

definition digits_value :: "bytes \<Rightarrow> nat" where
  "digits_value ds = foldl (\<lambda>v c. v * 10 + (unat c - 48)) 0 ds"

definition strto :: "bytes \<Rightarrow> (bool \<times> nat \<times> nat) option" where
  "strto s =
     (let sp = takeWhile is_space s;
          r = drop (length sp) s;
          sign = (r \<noteq> [] \<and> (hd r = 45 \<or> hd r = 43));
          r' = (if sign then tl r else r);
          ds = takeWhile is_digit r'
      in if ds = [] then None
         else Some (sign \<and> hd r = 45, digits_value ds, length sp + (if sign then 1 else 0) + length ds))"

definition std_stoi :: "bytes \<Rightarrow> (int \<times> nat) outcome" where
  "std_stoi s =
     (case strto s of
        None \<Rightarrow> Thrown
      | Some (neg, v, n) \<Rightarrow>
          let i = (if neg then - int v else int v)
          in if - (2 ^ 31) \<le> i \<and> i < 2 ^ 31 then Ok (i, n) else Thrown)"

definition std_stoull :: "bytes \<Rightarrow> (u64 \<times> nat) outcome" where
  "std_stoull s =
     (case strto s of
        None \<Rightarrow> Thrown
      | Some (neg, v, n) \<Rightarrow>
          if v < 2 ^ 64 then Ok (if neg then - of_nat v else of_nat v, n) else Thrown)"

section \<open>Writing numbers\<close>

fun decimal :: "nat \<Rightarrow> bytes" where
  "decimal n = (if n < 10 then [of_nat (48 + n)] else decimal (n div 10) @ [of_nat (48 + n mod 10)])"

declare decimal.simps [simp del]

definition std_to_string :: "int \<Rightarrow> bytes" where
  "std_to_string i = (if i < 0 then 45 # decimal (nat (- i)) else decimal (nat i))"

definition int32 :: "int \<Rightarrow> bool" where
  "int32 i \<longleftrightarrow> - (2 ^ 31) \<le> i \<and> i < 2 ^ 31"

section \<open>Sizes with a suffix\<close>

text \<open>
  \<open>parse_int\<close>: the left shifts are on a signed \<open>int\<close>, so a negative number or a
  result that does not fit is undefined (the language of the sources is C++11).
\<close>

definition shl_int :: "int \<Rightarrow> nat \<Rightarrow> int outcome" where
  "shl_int i k = (if 0 \<le> i \<and> i * 2 ^ k < 2 ^ 31 then Ok (i * 2 ^ k) else Undef)"

definition parse_int :: "bytes \<Rightarrow> int outcome" where
  "parse_int value =
     bind_outcome (std_stoi (takeWhile (\<lambda>c. c \<noteq> 0) value)) (\<lambda>(num, endchar).
       if endchar < length value then
         (let c = value ! endchar
          in if c = 107 \<or> c = 75 then shl_int num 10
             else if c = 109 \<or> c = 77 then shl_int num 20
             else if c = 103 \<or> c = 71 then shl_int num 30
             else Ok num)
       else Ok num)"

definition ParseUint64 :: "bytes \<Rightarrow> u64 outcome" where
  "ParseUint64 value =
     bind_outcome (std_stoull (takeWhile (\<lambda>c. c \<noteq> 0) value)) (\<lambda>(num, endchar).
       if endchar < length value then
         (let c = value ! endchar
          in Ok (if c = 107 \<or> c = 75 then push_bit 10 num
                 else if c = 109 \<or> c = 77 then push_bit 20 num
                 else if c = 103 \<or> c = 71 then push_bit 30 num
                 else if c = 116 \<or> c = 84 then push_bit 40 num
                 else num))
       else Ok num)"

section \<open>Reading back what was written\<close>

lemma unat_digit: "n < 10 \<Longrightarrow> unat (of_nat (48 + n) :: byte) = 48 + n"
  by (simp only: unat_of_nat) simp

lemma is_digit_of: "n < 10 \<Longrightarrow> is_digit (of_nat (48 + n))"
  unfolding is_digit_def word_le_nat_alt unat_digit by simp

lemma digits_value_append: "digits_value (ds @ [c]) = digits_value ds * 10 + (unat c - 48)"
  by (simp add: digits_value_def)

lemma decimal_digits: "(\<forall>c \<in> set (decimal n). is_digit c) \<and> decimal n \<noteq> [] \<and> digits_value (decimal n) = n"
proof (induction n rule: decimal.induct)
  case (1 n)
  show ?case
  proof (cases "n < 10")
    case True
    then show ?thesis
      using is_digit_of [of n] unat_digit [of n]
      by (simp add: decimal.simps [of n] digits_value_def del: of_nat_add)
  next
    case False
    then show ?thesis
      using 1 is_digit_of [of "n mod 10"] unat_digit [of "n mod 10"]
      by (auto simp: decimal.simps [of n] digits_value_append simp del: of_nat_add)
  qed
qed

lemma digit_not_space: "is_digit c \<Longrightarrow> \<not> is_space c \<and> c \<noteq> 45 \<and> c \<noteq> 43"
  by (auto simp: is_digit_def is_space_def word_le_nat_alt)

lemma decimal_Cons: "\<exists>c cs. decimal n = c # cs \<and> is_digit c"
  using decimal_digits [of n] by (cases "decimal n") auto

lemma takeWhile_decimal: "takeWhile is_digit (decimal n) = decimal n"
  using decimal_digits [of n] by simp

lemma strto_decimal: "strto (decimal n) = Some (False, n, length (decimal n))"
proof -
  obtain c cs where c: "decimal n = c # cs" "is_digit c"
    using decimal_Cons [of n] by blast
  then have sp: "takeWhile is_space (decimal n) = []"
    using digit_not_space by simp
  have hd: "hd (decimal n) \<noteq> 45" "hd (decimal n) \<noteq> 43" "decimal n \<noteq> []"
    using c digit_not_space by auto
  show ?thesis
    using hd decimal_digits [of n] by (simp add: strto_def sp Let_def takeWhile_decimal)
qed

lemma strto_minus: "strto (45 # decimal n) = Some (True, n, Suc (length (decimal n)))"
proof -
  have "\<not> is_space 45"
    by (simp add: is_space_def word_le_nat_alt)
  then show ?thesis
    using decimal_digits [of n] by (simp add: strto_def Let_def takeWhile_decimal)
qed

text \<open>\<open>std::stoi\<close> inverts \<open>std::to_string\<close>.\<close>

lemma stoi_to_string: "int32 i \<Longrightarrow> std_stoi (std_to_string i) = Ok (i, length (std_to_string i))"
  by (auto simp: std_to_string_def std_stoi_def strto_decimal strto_minus int32_def)

end
