(* ===== verification/Nif_Support.thy ===== *)
theory Nif_Support
  imports Ref_System Cpp_Strings
begin

text \<open>
  What the NIFs share (\<open>c_src/util.cc\<close>): turning a RocksDB status into an Erlang
  error, reading string arguments, and the scope of a \<open>ReferencePtr\<close> local variable. A NIF
  that borrows an object takes a reference when it reads its argument and drops
  it when it returns; the lemmas at the end say what such a scope does to the
  heap.
\<close>

section \<open>Status and errors\<close>

datatype status_code =
    kOk | kNotFound | kCorruption | kIncomplete | kTimedOut | kBusy | kExpired | kTryAgain | kOther

text \<open>
  \<open>rocksdb::Status\<close> as the NIFs see it: its class and the text of \<open>ToString()\<close>. The
  classes the sources never test for are \<open>kOther\<close>.
\<close>

record status =
  code :: status_code
  ToString :: string

definition status_ok :: "status \<Rightarrow> bool" where
  "status_ok st \<longleftrightarrow> code st = kOk"

definition ok_status :: status where
  "ok_status = \<lparr>code = kOk, ToString = ''OK''\<rparr>"

definition e_ok :: eterm where
  "e_ok = EAtom ''ok''"

definition enif_make_string :: "string \<Rightarrow> eterm" where
  "enif_make_string s = enif_make_list (map (\<lambda>c. EInt (of_char c)) s)"

definition error_einval :: eterm where
  "error_einval = ETuple [EAtom ''error'', EAtom ''einval'']"

definition error_tuple :: "eterm \<Rightarrow> status \<Rightarrow> eterm" where
  "error_tuple error st =
     (if code st = kIncomplete then ETuple [EAtom ''error'', EAtom ''incomplete'']
      else ETuple [EAtom ''error'', ETuple [error, enif_make_string (ToString st)]])"

definition error_tuple_msg :: "eterm \<Rightarrow> string \<Rightarrow> eterm" where
  "error_tuple_msg error msg = ETuple [EAtom ''error'', ETuple [error, enif_make_string msg]]"

text \<open>\<open>ok\<close> or the error tuple of the status.\<close>

definition status_result :: "status \<Rightarrow> eterm" where
  "status_result st = (if status_ok st then e_ok else error_tuple (EAtom ''error'') st)"

text \<open>
  The error term of a status that is not \<open>OK\<close>: a chain of tests \<open>if (status.IsBusy())
  return error_tuple(env, ATOM_BUSY, status)\<close> is a table from classes to atoms, with the
  atom of the last return.
\<close>

definition class_error :: "(status_code \<times> string) list \<Rightarrow> string \<Rightarrow> status \<Rightarrow> eterm" where
  "class_error classes otherwise st =
     error_tuple (EAtom (case map_of classes (code st) of Some a \<Rightarrow> a | None \<Rightarrow> otherwise)) st"

text \<open>What a read answers: \<open>{ok, Value}\<close>, \<open>not_found\<close> or an error.\<close>

definition value_result :: "(status_code \<times> string) list \<Rightarrow> status \<times> bytes \<Rightarrow> eterm" where
  "value_result classes r =
     (case r of (st, v) \<Rightarrow>
        if status_ok st then ok_tuple (EBin v)
        else if code st = kNotFound then EAtom ''not_found''
        else class_error classes ''unknown_status'' st)"

definition slice_to_binary :: "bytes \<Rightarrow> eterm" where
  "slice_to_binary s = EBin s"

definition binary_to_slice :: "eterm \<Rightarrow> bytes option" where
  "binary_to_slice t = enif_inspect_binary t"

section \<open>Strings\<close>

text \<open>
  \<open>enif_get_string\<close> with a buffer of \<open>n\<close> bytes: 0 when the term is not a proper
  list of Latin-1 characters; otherwise the characters that fit before the
  terminating null, with a negative (non-zero) result when some did not. The
  callers test for 0 only, and read the buffer as a C string.
\<close>

fun latin1 :: "eterm \<Rightarrow> byte option" where
  "latin1 (EInt i) = (if 0 \<le> i \<and> i < 256 then Some (word_of_int i) else None)"
| "latin1 _ = None"

fun latin1_list :: "eterm \<Rightarrow> bytes option" where
  "latin1_list ENil = Some []"
| "latin1_list (ECons h t) =
     (case latin1 h of
        None \<Rightarrow> None
      | Some c \<Rightarrow> (case latin1_list t of None \<Rightarrow> None | Some cs \<Rightarrow> Some (c # cs)))"
| "latin1_list _ = None"

definition enif_get_string :: "eterm \<Rightarrow> nat \<Rightarrow> bytes option" where
  "enif_get_string t n =
     (case latin1_list t of
        None \<Rightarrow> None
      | Some cs \<Rightarrow> Some (takeWhile (\<lambda>c. c \<noteq> 0) (take (n - 1) cs)))"

text \<open>
  \<open>enif_get_std_string\<close>: the buffer always fits, so the string keeps every
  character; a proper list that is no string gives the empty string.
\<close>

definition enif_get_std_string :: "eterm \<Rightarrow> bytes option" where
  "enif_get_std_string t =
     (case enif_get_list_length t of
        None \<Rightarrow> None
      | Some n \<Rightarrow> (case latin1_list t of None \<Rightarrow> Some [] | Some cs \<Rightarrow> Some cs))"

section \<open>Scopes\<close>

text \<open>
  A call that keeps a \<open>ReferencePtr\<close> in a local variable: the reference is dropped
  when the function returns, on every path. \<open>bad\<close> is what the function returns
  when the argument is refused.
\<close>

definition in_scope ::
    "bool \<times> ref_heap \<times> addr option \<Rightarrow> 'r \<Rightarrow> (addr \<Rightarrow> ref_heap \<Rightarrow> 'r \<times> ref_heap) \<Rightarrow> 'r \<times> ref_heap" where
  "in_scope got bad f =
     (case got of
        (found, h, p) \<Rightarrow>
          (case (found, p) of
             (True, Some a) \<Rightarrow> (case f a h of (r, h') \<Rightarrow> (r, ReferencePtr_drop h' p))
           | _ \<Rightarrow> (bad, ReferencePtr_drop h p)))"

definition with_db ::
    "ref_heap \<Rightarrow> eterm \<Rightarrow> 'r \<Rightarrow> (addr \<Rightarrow> ref_heap \<Rightarrow> 'r \<times> ref_heap) \<Rightarrow> 'r \<times> ref_heap" where
  "with_db h t bad f = in_scope (enif_get_db h t) bad f"

definition with_cf ::
    "ref_heap \<Rightarrow> eterm \<Rightarrow> 'r \<Rightarrow> (addr \<Rightarrow> ref_heap \<Rightarrow> 'r \<times> ref_heap) \<Rightarrow> 'r \<times> ref_heap" where
  "with_cf h t bad f = in_scope (enif_get_cf h t) bad f"

definition with_backup_engine ::
    "ref_heap \<Rightarrow> eterm \<Rightarrow> 'r \<Rightarrow> (addr \<Rightarrow> ref_heap \<Rightarrow> 'r \<times> ref_heap) \<Rightarrow> 'r \<times> ref_heap" where
  "with_backup_engine h t bad f = in_scope (enif_get_backup_engine h t) bad f"

definition with_transaction ::
    "ref_heap \<Rightarrow> eterm \<Rightarrow> 'r \<Rightarrow> (addr \<Rightarrow> ref_heap \<Rightarrow> 'r \<times> ref_heap) \<Rightarrow> 'r \<times> ref_heap" where
  "with_transaction h t bad f = in_scope (enif_get_transaction h t) bad f"

text \<open>\<open>ptr.assign(Retrieve...(env, term)); if (NULL == ptr.get()) return bad;\<close>\<close>

definition with_retrieved ::
    "ref_heap \<Rightarrow> addr option \<Rightarrow> 'r \<Rightarrow> (addr \<Rightarrow> ref_heap \<Rightarrow> 'r \<times> ref_heap) \<Rightarrow> 'r \<times> ref_heap" where
  "with_retrieved h found bad f =
     (let (h1, p) = ReferencePtr_assign h None found in in_scope (p \<noteq> None, h1, p) bad f)"

lemmas scope_defs = with_db_def with_cf_def with_backup_engine_def with_transaction_def
  with_retrieved_def enif_get_db_def enif_get_cf_def enif_get_backup_engine_def enif_get_transaction_def

section \<open>Answers\<close>

lemma status_result_ok: "status_result s = e_ok \<longleftrightarrow> status_ok s" "e_ok = status_result s \<longleftrightarrow> status_ok s"
  by (simp_all add: status_result_def error_tuple_def e_ok_def)

section \<open>What a scope does to the heap\<close>

text \<open>Taking and dropping a reference to an open object leaves the heap as it was.\<close>

lemma RefDec_RefInc:
  assumes "mem h a = Some ob" "m_CloseRequested ob = 0"
  shows "RefDec (RefInc h a) a = h"
proof -
  have "RefDec (put_obj h a (ob\<lparr>m_RefCount := m_RefCount ob + 1\<rparr>)) a =
      put_obj (put_obj h a (ob\<lparr>m_RefCount := m_RefCount ob + 1\<rparr>)) a ob"
    by (subst RefDec_keep) (use assms in auto)
  also have "\<dots> = h"
    using assms by (simp add: put_obj_def map_upd_triv)
  finally show ?thesis
    using assms by (simp add: RefInc_def with_live_eq)
qed

lemma Retrieve_SomeD:
  assumes "Retrieve h k t = Some a"
  shows "\<exists>ob. t = ERef a \<and> mem h a = Some ob \<and> kind ob = k \<and> m_CloseRequested ob = 0"
  using assms by (cases t) (auto simp: Retrieve_def split: option.splits if_splits)

lemma scope_neutral:
  assumes "Retrieve h k t = p" "\<And>a h. snd (f a h) = h"
  shows "snd (in_scope (found, fst (ReferencePtr_assign h None p), p) bad f) = h"
proof (cases p)
  case None
  then show ?thesis
    by (simp add: in_scope_def ReferencePtr_assign_def ReferencePtr_drop_def split: bool.split)
next
  case (Some a)
  obtain ob where "mem h a = Some ob" "m_CloseRequested ob = 0"
    using Retrieve_SomeD [of h k t a] assms(1) Some by auto
  then have "RefDec (RefInc h a) a = h"
    by (rule RefDec_RefInc)
  then show ?thesis
    using Some assms(2)
    by (auto simp: in_scope_def ReferencePtr_assign_def ReferencePtr_drop_def case_prod_beta split: bool.split)
qed

end
