(* ===== verification/Batch_Log.thy ===== *)
theory Batch_Log
  imports Nif_Support
begin

text \<open>
  What a write batch holds, how RocksDB replays it, and the handler of
  \<open>c_src/transaction_log.h\<close> that turns a replayed batch into an Erlang list. The
  class \<open>rocksdb::WriteBatch\<close> is the record \<open>rocks_batch\<close>, an argument; what its
  documentation promises is the predicate \<open>batch_laws\<close>.
\<close>

section \<open>Operations\<close>

text \<open>
  The column family of an operation: none given (the default one), or the pointer
  \<open>m_ColumnFamily\<close> of an object, which may be null.
\<close>

datatype cf_arg = NoCf | CfArg "addr option"

datatype batch_op =
    WPut cf_arg bytes bytes
  | WMerge cf_arg bytes bytes
  | WDelete cf_arg bytes
  | WSingleDelete cf_arg bytes
  | WDeleteRange cf_arg bytes bytes

text \<open>The calls of \<open>rocksdb::WriteBatch::Handler\<close>, with the id of the column family.\<close>

datatype handler_call =
    PutCF u32 bytes bytes
  | MergeCF u32 bytes bytes
  | DeleteCF u32 bytes
  | SingleDeleteCF u32 bytes
  | DeleteRangeCF u32 bytes bytes

definition op_cf_id :: "(addr \<Rightarrow> u32) \<Rightarrow> cf_arg \<Rightarrow> u32" where
  "op_cf_id ids cf = (case cf of CfArg (Some a) \<Rightarrow> ids a | _ \<Rightarrow> 0)"

fun call_of :: "(addr \<Rightarrow> u32) \<Rightarrow> batch_op \<Rightarrow> handler_call" where
  "call_of ids (WPut cf k v) = PutCF (op_cf_id ids cf) k v"
| "call_of ids (WMerge cf k v) = MergeCF (op_cf_id ids cf) k v"
| "call_of ids (WDelete cf k) = DeleteCF (op_cf_id ids cf) k"
| "call_of ids (WSingleDelete cf k) = SingleDeleteCF (op_cf_id ids cf) k"
| "call_of ids (WDeleteRange cf b e) = DeleteRangeCF (op_cf_id ids cf) b e"

section \<open>The transaction log handler\<close>

text \<open>A row names the column family only when it is not the default one.\<close>

definition log_row :: "string \<Rightarrow> u32 \<Rightarrow> bytes list \<Rightarrow> eterm" where
  "log_row tag column_family_id slices =
     ETuple (EAtom tag # (if column_family_id = 0 then [] else [EInt (uint column_family_id)]) @
             map slice_to_binary slices)"

text \<open>
  One call of the handler on \<open>t_List\<close>. The class does not override \<open>DeleteRangeCF\<close>,
  so it inherits the method of \<open>rocksdb::WriteBatch::Handler\<close>, which answers
  \<open>InvalidArgument\<close>.
\<close>

definition not_implemented :: status where
  "not_implemented = \<lparr>code = kOther, ToString = ''Invalid argument: DeleteRangeCF not implemented''\<rparr>"

fun TransactionLogHandler :: "handler_call \<Rightarrow> eterm \<Rightarrow> status \<times> eterm" where
  "TransactionLogHandler (PutCF cf key value) t_List =
     (ok_status, ECons (log_row ''put'' cf [key, value]) t_List)"
| "TransactionLogHandler (MergeCF cf key value) t_List =
     (ok_status, ECons (log_row ''merge'' cf [key, value]) t_List)"
| "TransactionLogHandler (DeleteCF cf key) t_List =
     (ok_status, ECons (log_row ''delete'' cf [key]) t_List)"
| "TransactionLogHandler (SingleDeleteCF cf key) t_List =
     (ok_status, ECons (log_row ''single_delete'' cf [key]) t_List)"
| "TransactionLogHandler (DeleteRangeCF cf from_key to_key) t_List = (not_implemented, t_List)"

section \<open>RocksDB batches\<close>

record 'wb rocks_batch =
  wb_new :: 'wb
  wb_add :: "batch_op \<Rightarrow> 'wb \<Rightarrow> 'wb"
  wb_Clear :: "'wb \<Rightarrow> 'wb"
  wb_SetSavePoint :: "'wb \<Rightarrow> 'wb"
  wb_RollbackToSavePoint :: "'wb \<Rightarrow> status \<times> 'wb"
  wb_Count :: "'wb \<Rightarrow> u32"
  wb_GetDataSize :: "'wb \<Rightarrow> u64"
  wb_Iterate :: "'wb \<Rightarrow> (handler_call \<Rightarrow> eterm \<Rightarrow> status \<times> eterm) \<Rightarrow> eterm \<Rightarrow> status \<times> eterm"

text \<open>Replaying calls on a handler ends at the first answer that is not \<open>OK\<close>.\<close>

fun replay_calls ::
    "(handler_call \<Rightarrow> 'h \<Rightarrow> status \<times> 'h) \<Rightarrow> handler_call list \<Rightarrow> 'h \<Rightarrow> status \<times> 'h" where
  "replay_calls handler [] acc = (ok_status, acc)"
| "replay_calls handler (c # cs) acc =
     (case handler c acc of (st, acc') \<Rightarrow> if status_ok st then replay_calls handler cs acc' else (st, acc'))"

text \<open>Keys and values RocksDB accepts: their length fits in 32 bits and the handle is not null.\<close>

fun op_slices :: "batch_op \<Rightarrow> bytes list" where
  "op_slices (WPut cf k v) = [k, v]"
| "op_slices (WMerge cf k v) = [k, v]"
| "op_slices (WDelete cf k) = [k]"
| "op_slices (WSingleDelete cf k) = [k]"
| "op_slices (WDeleteRange cf b e) = [b, e]"

fun op_cf :: "batch_op \<Rightarrow> cf_arg" where
  "op_cf (WPut cf k v) = cf"
| "op_cf (WMerge cf k v) = cf"
| "op_cf (WDelete cf k) = cf"
| "op_cf (WSingleDelete cf k) = cf"
| "op_cf (WDeleteRange cf b e) = cf"

definition op_ok :: "batch_op \<Rightarrow> bool" where
  "op_ok c \<longleftrightarrow> op_cf c \<noteq> CfArg None \<and> (\<forall>s \<in> set (op_slices c). length s < 2 ^ 32)"

text \<open>
  The content of a batch as the RocksDB documentation describes it: its operations
  in order, and a stack of save points (how many operations each one keeps).
\<close>

type_synonym batch_content = "batch_op list \<times> nat list"

fun rollback_content :: "batch_content \<Rightarrow> bool \<times> batch_content" where
  "rollback_content (cs, []) = (False, (cs, []))"
| "rollback_content (cs, n # ns) = (True, (take n cs, ns))"

definition batch_laws :: "'wb rocks_batch \<Rightarrow> (addr \<Rightarrow> u32) \<Rightarrow> ('wb \<Rightarrow> batch_content) \<Rightarrow> bool" where
  "batch_laws R ids content \<longleftrightarrow>
     content (wb_new R) = ([], []) \<and>
     (\<forall>c wb. op_ok c \<longrightarrow> content (wb_add R c wb) = (fst (content wb) @ [c], snd (content wb))) \<and>
     (\<forall>wb. content (wb_Clear R wb) = ([], [])) \<and>
     (\<forall>wb. content (wb_SetSavePoint R wb) = (fst (content wb), length (fst (content wb)) # snd (content wb))) \<and>
     (\<forall>wb. (status_ok (fst (wb_RollbackToSavePoint R wb)), content (snd (wb_RollbackToSavePoint R wb))) =
           rollback_content (content wb)) \<and>
     (\<forall>wb. wb_Count R wb = of_nat (length (fst (content wb)))) \<and>
     (\<forall>wb h acc. wb_Iterate R wb h acc = replay_calls h (map (call_of ids) (fst (content wb))) acc)"

lemma batch_lawsD:
  assumes "batch_laws R ids content"
  shows "content (wb_new R) = ([], [])"
    "op_ok c \<Longrightarrow> content (wb_add R c wb) = (fst (content wb) @ [c], snd (content wb))"
    "content (wb_Clear R wb) = ([], [])"
    "content (wb_SetSavePoint R wb) = (fst (content wb), length (fst (content wb)) # snd (content wb))"
    "(status_ok (fst (wb_RollbackToSavePoint R wb)), content (snd (wb_RollbackToSavePoint R wb))) =
       rollback_content (content wb)"
    "wb_Count R wb = of_nat (length (fst (content wb)))"
    "wb_Iterate R wb h acc = replay_calls h (map (call_of ids) (fst (content wb))) acc"
  using assms by (simp_all add: batch_laws_def)

section \<open>Lists of a replayed batch\<close>

definition enif_make_reverse_list :: "eterm \<Rightarrow> eterm" where
  "enif_make_reverse_list t = enif_make_list (rev (list_cells t))"

text \<open>
  \<open>TransactionLogHandler handler(env); batch.Iterate(&handler);\<close> then the reversed
  \<open>t_List\<close>. The status of \<open>Iterate\<close> is dropped.
\<close>

definition batch_log :: "'wb rocks_batch \<Rightarrow> 'wb \<Rightarrow> eterm" where
  "batch_log R wb = enif_make_reverse_list (snd (wb_Iterate R wb TransactionLogHandler (enif_make_list [])))"

fun is_range :: "batch_op \<Rightarrow> bool" where
  "is_range (WDeleteRange cf b e) = True"
| "is_range _ = False"

text \<open>The documented row of an operation.\<close>

fun op_row :: "(addr \<Rightarrow> u32) \<Rightarrow> batch_op \<Rightarrow> eterm" where
  "op_row ids (WPut cf k v) = log_row ''put'' (op_cf_id ids cf) [k, v]"
| "op_row ids (WMerge cf k v) = log_row ''merge'' (op_cf_id ids cf) [k, v]"
| "op_row ids (WDelete cf k) = log_row ''delete'' (op_cf_id ids cf) [k]"
| "op_row ids (WSingleDelete cf k) = log_row ''single_delete'' (op_cf_id ids cf) [k]"
| "op_row ids (WDeleteRange cf b e) = log_row ''delete_range'' (op_cf_id ids cf) [b, e]"

lemma status_ok_simps [simp]: "status_ok ok_status" "\<not> status_ok not_implemented"
  by (simp_all add: status_ok_def ok_status_def not_implemented_def)

lemma replay_log_cells:
  "list_cells (snd (replay_calls TransactionLogHandler (map (call_of ids) cs) acc)) =
     rev (map (op_row ids) (takeWhile (\<lambda>c. \<not> is_range c) cs)) @ list_cells acc"
proof (induction cs arbitrary: acc)
  case (Cons c cs)
  then show ?case
    by (cases c) simp_all
qed simp

lemma batch_log_rows:
  assumes "batch_laws R ids content"
  shows "batch_log R wb =
    enif_make_list (map (op_row ids) (takeWhile (\<lambda>c. \<not> is_range c) (fst (content wb))))"
  by (simp add: batch_log_def enif_make_reverse_list_def batch_lawsD(7) [OF assms] replay_log_cells)

section \<open>Write options\<close>

record write_options =
  sync :: bool
  disableWAL :: bool
  ignore_missing_column_families :: bool
  no_slowdown :: bool
  low_pri :: bool

definition WriteOptions_init :: write_options where
  "WriteOptions_init = \<lparr>sync = False, disableWAL = False, ignore_missing_column_families = False,
     no_slowdown = False, low_pri = False\<rparr>"

definition parse_write_option :: "eterm \<Rightarrow> write_options \<Rightarrow> eterm \<times> write_options" where
  "parse_write_option item opts =
     (e_ok,
      case enif_get_tuple item of
        Some [name, val] \<Rightarrow>
          let b = (val = EAtom ''true'')
          in if name = EAtom ''sync'' then opts\<lparr>sync := b\<rparr>
             else if name = EAtom ''disable_wal'' then opts\<lparr>disableWAL := b\<rparr>
             else if name = EAtom ''ignore_missing_column_families''
             then opts\<lparr>ignore_missing_column_families := b\<rparr>
             else if name = EAtom ''no_slowdown'' then opts\<lparr>no_slowdown := b\<rparr>
             else if name = EAtom ''low_pri'' then opts\<lparr>low_pri := b\<rparr>
             else opts
      | _ \<Rightarrow> opts)"

definition write_options_of :: "eterm \<Rightarrow> write_options" where
  "write_options_of t = snd (nif_fold parse_write_option t WriteOptions_init)"

section \<open>A batch as a list\<close>

text \<open>An instance of the laws: the batch is its content, counting ten bytes for an operation.\<close>

definition list_batch :: "(addr \<Rightarrow> u32) \<Rightarrow> batch_content rocks_batch" where
  "list_batch ids =
     \<lparr>wb_new = ([], []), wb_add = (\<lambda>c (cs, ns). (cs @ [c], ns)), wb_Clear = (\<lambda>_. ([], [])),
      wb_SetSavePoint = (\<lambda>(cs, ns). (cs, length cs # ns)),
      wb_RollbackToSavePoint = (\<lambda>wb. case rollback_content wb of
         (found, wb') \<Rightarrow> (if found then ok_status else \<lparr>code = kNotFound, ToString = ''NotFound: ''\<rparr>, wb')),
      wb_Count = (\<lambda>(cs, ns). of_nat (length cs)), wb_GetDataSize = (\<lambda>(cs, ns). 12 + 10 * of_nat (length cs)),
      wb_Iterate = (\<lambda>(cs, ns) h acc. replay_calls h (map (call_of ids) cs) acc)\<rparr>"

lemma list_batch_rollback:
  "(status_ok (fst (wb_RollbackToSavePoint (list_batch ids) wb)), snd (wb_RollbackToSavePoint (list_batch ids) wb)) =
     rollback_content wb"
  by (cases wb rule: rollback_content.cases) (simp_all add: list_batch_def status_ok_def ok_status_def)

lemma list_batch_laws: "batch_laws (list_batch ids) ids id"
  unfolding batch_laws_def id_apply list_batch_rollback
  by (auto simp: list_batch_def)

end
