(* ===== verification/Write_Batch.thy ===== *)
theory Write_Batch
  imports Batch_Log
begin

text \<open>
  The write batch NIFs (\<open>c_src/batch.cc\<close>). A batch resource holds a pointer to a
  \<open>rocksdb::WriteBatch\<close> and an environment that keeps the terms of the batch alive;
  \<open>release_batch\<close> frees both while the resource stays. The NIFs refine a list of
  operations with save points.
\<close>

section \<open>The resource\<close>

text \<open>A pointer to a batch: null, to storage that was freed, or to a batch.\<close>

datatype 'wb wb_ptr = NullWb | FreedWb | WbAt 'wb

record 'wb Batch =
  wb :: "'wb wb_ptr"
  env :: bool

type_synonym 'wb batches = "addr \<Rightarrow> 'wb Batch option"

definition enif_get_batch :: "'wb batches \<Rightarrow> eterm \<Rightarrow> (addr \<times> 'wb Batch) option" where
  "enif_get_batch bs t = (case t of ERef a \<Rightarrow> map_option (Pair a) (bs a) | _ \<Rightarrow> None)"

text \<open>\<open>cleanup_obj_ptr\<close> runs the destructor of what a non-null pointer points to.\<close>

definition cleanup_batch :: "'wb Batch \<Rightarrow> 'wb Batch outcome" where
  "cleanup_batch b = (if wb b = FreedWb then Undef else Ok (b\<lparr>wb := NullWb, env := False\<rparr>))"

definition batch_resource_cleanup :: "'wb batches \<Rightarrow> addr \<Rightarrow> 'wb batches outcome" where
  "batch_resource_cleanup bs a =
     (case bs a of
        None \<Rightarrow> Undef
      | Some b \<Rightarrow> bind_outcome (cleanup_batch b) (\<lambda>_. Ok (bs(a := None))))"

text \<open>Whether the three allocations of \<open>NewBatch\<close> succeed.\<close>

record batch_alloc =
  alloc_wb :: bool
  alloc_resource :: bool
  alloc_batch_env :: bool

definition out_of_memory :: eterm where
  "out_of_memory = error_tuple_msg (EAtom ''error'') ''out of memory''"

text \<open>
  When the environment cannot be allocated the batch is destroyed and freed, but the
  resource still points to it when \<open>enif_release_resource\<close> runs the cleanup.
\<close>

definition NewBatch ::
    "'wb rocks_batch \<Rightarrow> batch_alloc \<Rightarrow> 'wb batches \<Rightarrow> ref_heap \<Rightarrow> (nif_result \<times> 'wb batches) \<times> ref_heap" where
  "NewBatch R A bs h =
     (if \<not> alloc_wb A then ((Ok out_of_memory, bs), h)
      else if \<not> alloc_resource A then ((Ok out_of_memory, bs), h)
      else
        let a = next_addr h; h1 = h\<lparr>next_addr := a + 1\<rparr>;
            b = \<lparr>wb = WbAt (wb_new R), env = alloc_batch_env A\<rparr>
        in if \<not> alloc_batch_env A then
             (case batch_resource_cleanup (bs(a \<mapsto> b\<lparr>wb := FreedWb\<rparr>)) a of
                Ok bs1 \<Rightarrow> ((Ok out_of_memory, bs1), h1)
              | _ \<Rightarrow> ((Undef, bs), h1))
           else ((Ok (ok_tuple (ERef a)), bs(a \<mapsto> b)), h1))"

definition ReleaseBatch :: "'wb batches \<Rightarrow> eterm list \<Rightarrow> nif_result \<times> 'wb batches" where
  "ReleaseBatch bs argv =
     (case enif_get_batch bs (argv ! 0) of
        None \<Rightarrow> (Failed, bs)
      | Some (p, b) \<Rightarrow>
          (case cleanup_batch b of Ok b1 \<Rightarrow> (Ok e_ok, bs(p \<mapsto> b1)) | _ \<Rightarrow> (Undef, bs)))"

section \<open>Writing a batch\<close>

text \<open>
  \<open>m_Db->Write\<close> is the argument \<open>db_Write\<close> on the state of the databases. The batch is
  cleared whatever the status. With a null batch \<open>enif_clear_env\<close> gets a null
  environment.
\<close>

definition WriteBatch ::
    "'wb rocks_batch \<Rightarrow> (addr \<Rightarrow> write_options \<Rightarrow> 'wb \<Rightarrow> 'db \<Rightarrow> status \<times> 'db) \<Rightarrow> 'db \<Rightarrow> 'wb batches \<Rightarrow> ref_heap \<Rightarrow>
       eterm list \<Rightarrow> (nif_result \<times> 'db \<times> 'wb batches) \<times> ref_heap" where
  "WriteBatch R db_Write dbs bs h argv =
     with_db h (argv ! 0) (Failed, dbs, bs) (\<lambda>db h1.
       (case enif_get_batch bs (argv ! 1) of
          None \<Rightarrow> (Failed, dbs, bs)
        | Some (p, b) \<Rightarrow>
            (case wb b of
               WbAt w \<Rightarrow>
                 (case db_Write db (write_options_of (argv ! 2)) w dbs of
                    (st, dbs1) \<Rightarrow>
                      if env b
                      then (Ok (status_result st), dbs1, bs(p \<mapsto> b\<lparr>wb := WbAt (wb_Clear R w)\<rparr>))
                      else (Undef, dbs1, bs))
             | _ \<Rightarrow> (Undef, dbs, bs)), h1))"

section \<open>Adding operations\<close>

text \<open>The pointer \<open>m_ColumnFamily\<close> of a column family object.\<close>

definition cf_handle :: "ref_heap \<Rightarrow> addr \<Rightarrow> cf_arg" where
  "cf_handle h cf =
     CfArg (case mem h cf of Some ob \<Rightarrow> if m_Native ob then Some cf else None | None \<Rightarrow> None)"

text \<open>Copy the terms into the environment and call the batch; both pointers are used unchecked.\<close>

definition batch_add ::
    "'wb rocks_batch \<Rightarrow> addr \<Rightarrow> 'wb Batch \<Rightarrow> batch_op \<Rightarrow> 'wb batches \<Rightarrow> nif_result \<times> 'wb batches" where
  "batch_add R p b c bs =
     (case wb b of
        WbAt w \<Rightarrow> if env b then (Ok e_ok, bs(p \<mapsto> b\<lparr>wb := WbAt (wb_add R c w)\<rparr>)) else (Undef, bs)
      | _ \<Rightarrow> (Undef, bs))"

text \<open>The shape of the NIFs with two binaries and of those with one.\<close>

definition batch_op2 ::
    "(cf_arg \<Rightarrow> bytes \<Rightarrow> bytes \<Rightarrow> batch_op) \<Rightarrow> 'wb rocks_batch \<Rightarrow> 'wb batches \<Rightarrow> ref_heap \<Rightarrow> eterm list \<Rightarrow>
       (nif_result \<times> 'wb batches) \<times> ref_heap" where
  "batch_op2 mk R bs h argv =
     (case enif_get_batch bs (argv ! 0) of
        None \<Rightarrow> ((Failed, bs), h)
      | Some (p, b) \<Rightarrow>
          if 3 < length argv then
            with_cf h (argv ! 1) (Failed, bs) (\<lambda>cf h1.
              (case (enif_inspect_binary (argv ! 2), enif_inspect_binary (argv ! 3)) of
                 (Some key, Some value) \<Rightarrow> batch_add R p b (mk (cf_handle h1 cf) key value) bs
               | _ \<Rightarrow> (Failed, bs), h1))
          else
            (case (enif_inspect_binary (argv ! 1), enif_inspect_binary (argv ! 2)) of
               (Some key, Some value) \<Rightarrow> batch_add R p b (mk NoCf key value) bs
             | _ \<Rightarrow> (Failed, bs), h))"

definition batch_op1 ::
    "(cf_arg \<Rightarrow> bytes \<Rightarrow> batch_op) \<Rightarrow> 'wb rocks_batch \<Rightarrow> 'wb batches \<Rightarrow> ref_heap \<Rightarrow> eterm list \<Rightarrow>
       (nif_result \<times> 'wb batches) \<times> ref_heap" where
  "batch_op1 mk R bs h argv =
     (case enif_get_batch bs (argv ! 0) of
        None \<Rightarrow> ((Failed, bs), h)
      | Some (p, b) \<Rightarrow>
          if 2 < length argv then
            with_cf h (argv ! 1) (Failed, bs) (\<lambda>cf h1.
              (case enif_inspect_binary (argv ! 2) of
                 Some key \<Rightarrow> batch_add R p b (mk (cf_handle h1 cf) key) bs
               | None \<Rightarrow> (Failed, bs), h1))
          else
            (case enif_inspect_binary (argv ! 1) of
               Some key \<Rightarrow> batch_add R p b (mk NoCf key) bs
             | None \<Rightarrow> (Failed, bs), h))"

definition PutBatch ::
    "'wb rocks_batch \<Rightarrow> 'wb batches \<Rightarrow> ref_heap \<Rightarrow> eterm list \<Rightarrow> (nif_result \<times> 'wb batches) \<times> ref_heap" where
  "PutBatch R bs h argv = batch_op2 WPut R bs h argv"

definition MergeBatch ::
    "'wb rocks_batch \<Rightarrow> 'wb batches \<Rightarrow> ref_heap \<Rightarrow> eterm list \<Rightarrow> (nif_result \<times> 'wb batches) \<times> ref_heap" where
  "MergeBatch R bs h argv = batch_op2 WMerge R bs h argv"

definition DeleteBatch ::
    "'wb rocks_batch \<Rightarrow> 'wb batches \<Rightarrow> ref_heap \<Rightarrow> eterm list \<Rightarrow> (nif_result \<times> 'wb batches) \<times> ref_heap" where
  "DeleteBatch R bs h argv = batch_op1 WDelete R bs h argv"

definition SingleDeleteBatch ::
    "'wb rocks_batch \<Rightarrow> 'wb batches \<Rightarrow> ref_heap \<Rightarrow> eterm list \<Rightarrow> (nif_result \<times> 'wb batches) \<times> ref_heap" where
  "SingleDeleteBatch R bs h argv = batch_op1 WSingleDelete R bs h argv"

definition DeleteRangeBatch ::
    "'wb rocks_batch \<Rightarrow> 'wb batches \<Rightarrow> ref_heap \<Rightarrow> eterm list \<Rightarrow> (nif_result \<times> 'wb batches) \<times> ref_heap" where
  "DeleteRangeBatch R bs h argv = batch_op2 WDeleteRange R bs h argv"

section \<open>The batch as a whole\<close>

definition on_batch ::
    "'wb batches \<Rightarrow> eterm list \<Rightarrow> (addr \<Rightarrow> 'wb Batch \<Rightarrow> 'wb \<Rightarrow> nif_result \<times> 'wb batches) \<Rightarrow> nif_result \<times> 'wb batches" where
  "on_batch bs argv f =
     (case enif_get_batch bs (argv ! 0) of
        None \<Rightarrow> (Failed, bs)
      | Some (p, b) \<Rightarrow> (case wb b of WbAt w \<Rightarrow> f p b w | _ \<Rightarrow> (Undef, bs)))"

definition ClearBatch :: "'wb rocks_batch \<Rightarrow> 'wb batches \<Rightarrow> eterm list \<Rightarrow> nif_result \<times> 'wb batches" where
  "ClearBatch R bs argv =
     on_batch bs argv (\<lambda>p b w.
       if env b then (Ok e_ok, bs(p \<mapsto> b\<lparr>wb := WbAt (wb_Clear R w)\<rparr>)) else (Undef, bs))"

definition BatchSetSavePoint :: "'wb rocks_batch \<Rightarrow> 'wb batches \<Rightarrow> eterm list \<Rightarrow> nif_result \<times> 'wb batches" where
  "BatchSetSavePoint R bs argv =
     on_batch bs argv (\<lambda>p b w. (Ok e_ok, bs(p \<mapsto> b\<lparr>wb := WbAt (wb_SetSavePoint R w)\<rparr>)))"

definition BatchRollbackToSavePoint ::
    "'wb rocks_batch \<Rightarrow> 'wb batches \<Rightarrow> eterm list \<Rightarrow> nif_result \<times> 'wb batches" where
  "BatchRollbackToSavePoint R bs argv =
     on_batch bs argv (\<lambda>p b w.
       case wb_RollbackToSavePoint R w of
         (st, w1) \<Rightarrow> (Ok (status_result st), bs(p \<mapsto> b\<lparr>wb := WbAt w1\<rparr>)))"

text \<open>\<open>(int) Count()\<close> and \<open>int count = GetDataSize()\<close>: the low 32 bits as a signed number.\<close>

definition c_int :: "'a::len word \<Rightarrow> int" where
  "c_int w = signed_take_bit 31 (uint w)"

definition BatchCount :: "'wb rocks_batch \<Rightarrow> 'wb batches \<Rightarrow> eterm list \<Rightarrow> nif_result \<times> 'wb batches" where
  "BatchCount R bs argv = on_batch bs argv (\<lambda>p b w. (Ok (EInt (c_int (wb_Count R w))), bs))"

definition BatchDataSize :: "'wb rocks_batch \<Rightarrow> 'wb batches \<Rightarrow> eterm list \<Rightarrow> nif_result \<times> 'wb batches" where
  "BatchDataSize R bs argv = on_batch bs argv (\<lambda>p b w. (Ok (EInt (c_int (wb_GetDataSize R w))), bs))"

definition BatchToList :: "'wb rocks_batch \<Rightarrow> 'wb batches \<Rightarrow> eterm list \<Rightarrow> nif_result \<times> 'wb batches" where
  "BatchToList R bs argv = on_batch bs argv (\<lambda>p b w. (Ok (batch_log R w), bs))"

section \<open>What the adding NIFs share\<close>

definition cf_open :: "ref_heap \<Rightarrow> addr \<Rightarrow> bool" where
  "cf_open h a \<longleftrightarrow> (case mem h a of
     Some ob \<Rightarrow> kind ob = ColumnFamilyObject \<and> m_CloseRequested ob = 0 \<and> m_Native ob | None \<Rightarrow> False)"

definition db_open :: "ref_heap \<Rightarrow> addr \<Rightarrow> bool" where
  "db_open h a \<longleftrightarrow> (case mem h a of
     Some ob \<Rightarrow> kind ob = DbObject \<and> m_CloseRequested ob = 0 \<and> m_Native ob | None \<Rightarrow> False)"

lemma RefInc_open:
  assumes "mem h a = Some ob" "m_CloseRequested ob = 0"
  shows "mem (RefInc h a) a = Some (ob\<lparr>m_RefCount := m_RefCount ob + 1\<rparr>)"
  using assms by (simp add: RefInc_def with_live_eq)

lemma with_cf_open:
  assumes "cf_open h a" "\<And>h1. cf_handle h1 a = CfArg (Some a) \<Longrightarrow> f a h1 = (r, h1)"
  shows "with_cf h (ERef a) bad f = (r, h)"
proof -
  obtain ob where ob: "mem h a = Some ob" "kind ob = ColumnFamilyObject" "m_CloseRequested ob = 0" "m_Native ob"
    using assms(1) by (auto simp: cf_open_def split: option.splits)
  then have "cf_handle (RefInc h a) a = CfArg (Some a)"
    by (simp add: cf_handle_def RefInc_open)
  with ob show ?thesis
    by (simp add: scope_defs in_scope_def RetrieveColumnFamilyObject_def Retrieve_def ReferencePtr_assign_def
        ReferencePtr_drop_def assms(2) RefDec_RefInc)
qed

lemma with_db_open:
  assumes "db_open h d" "\<And>h1. f d h1 = (r, h1)"
  shows "with_db h (ERef d) bad f = (r, h)"
proof -
  obtain ob where ob: "mem h d = Some ob" "kind ob = DbObject" "m_CloseRequested ob = 0" "m_Native ob"
    using assms(1) by (auto simp: db_open_def split: option.splits)
  then show ?thesis
    by (simp add: scope_defs in_scope_def RetrieveDbObject_def Retrieve_def ReferencePtr_assign_def
        ReferencePtr_drop_def assms(2) RefDec_RefInc RefInc_open)
qed

definition open_batch :: "'wb \<Rightarrow> 'wb Batch" where
  "open_batch w = \<lparr>wb = WbAt w, env = True\<rparr>"

text \<open>The terms that name a column family in front of the binaries.\<close>

fun cf_terms :: "cf_arg \<Rightarrow> eterm list" where
  "cf_terms (CfArg (Some a)) = [ERef a]"
| "cf_terms _ = []"

definition cf_usable :: "ref_heap \<Rightarrow> cf_arg \<Rightarrow> bool" where
  "cf_usable h cf = (case cf of NoCf \<Rightarrow> True | CfArg (Some a) \<Rightarrow> cf_open h a | CfArg None \<Rightarrow> False)"

locale batch_adder =
  fixes nif :: "'wb rocks_batch \<Rightarrow> 'wb batches \<Rightarrow> ref_heap \<Rightarrow> eterm list \<Rightarrow> (nif_result \<times> 'wb batches) \<times> ref_heap"
    and op_of :: "cf_arg \<Rightarrow> bytes list \<Rightarrow> batch_op" and arity :: nat
  assumes calls_add: "length args = arity \<Longrightarrow> bs p = Some b \<Longrightarrow> cf_usable h cf \<Longrightarrow>
    nif R bs h (ERef p # cf_terms cf @ map EBin args) = (batch_add R p b (op_of cf args) bs, h)"
begin

lemma adds:
  assumes "length args = arity" "bs p = Some (open_batch w)" "cf_usable h cf"
  shows "nif R bs h (ERef p # cf_terms cf @ map EBin args) =
    ((Ok e_ok, bs(p \<mapsto> open_batch (wb_add R (op_of cf args) w))), h)"
  using calls_add [of args bs p _ h cf R] assms by (simp add: batch_add_def open_batch_def)

lemma undefined_when_released:
  assumes "length args = arity" "bs p = Some b" "wb b = NullWb" "cf_usable h cf"
  shows "nif R bs h (ERef p # cf_terms cf @ map EBin args) = ((Undef, bs), h)"
  using calls_add [of args bs p b h cf R] assms by (simp add: batch_add_def)

end

lemma batch_op2_adds:
  assumes "length args = 2" "bs p = Some b" "cf_usable h cf"
  shows "batch_op2 mk R bs h (ERef p # cf_terms cf @ map EBin args) =
    (batch_add R p b (mk cf (args ! 0) (args ! 1)) bs, h)"
proof -
  obtain k v where args: "args = [k, v]"
    using assms(1) by (auto simp: numeral_2_eq_2 length_Suc_conv)
  show ?thesis
  proof (cases "cf = NoCf")
    case True
    then show ?thesis
      using assms(2) args by (simp add: batch_op2_def enif_get_batch_def)
  next
    case False
    then obtain a where a: "cf = CfArg (Some a)" "cf_open h a"
      using assms(3) by (auto simp: cf_usable_def split: cf_arg.splits option.splits)
    then show ?thesis
      using assms(2) args by (auto simp: batch_op2_def enif_get_batch_def numeral_2_eq_2 numeral_3_eq_3 intro: with_cf_open)
  qed
qed

lemma batch_op1_adds:
  assumes "length args = 1" "bs p = Some b" "cf_usable h cf"
  shows "batch_op1 mk R bs h (ERef p # cf_terms cf @ map EBin args) = (batch_add R p b (mk cf (args ! 0)) bs, h)"
proof -
  obtain k where args: "args = [k]"
    using assms(1) by (auto simp: length_Suc_conv)
  show ?thesis
  proof (cases "cf = NoCf")
    case True
    then show ?thesis
      using assms(2) args by (simp add: batch_op1_def enif_get_batch_def)
  next
    case False
    then obtain a where a: "cf = CfArg (Some a)" "cf_open h a"
      using assms(3) by (auto simp: cf_usable_def split: cf_arg.splits option.splits)
    then show ?thesis
      using assms(2) args by (auto simp: batch_op1_def enif_get_batch_def numeral_2_eq_2 intro: with_cf_open)
  qed
qed

interpretation put: batch_adder PutBatch "\<lambda>cf args. WPut cf (args ! 0) (args ! 1)" 2
  by unfold_locales (simp add: PutBatch_def batch_op2_adds)

interpretation merge: batch_adder MergeBatch "\<lambda>cf args. WMerge cf (args ! 0) (args ! 1)" 2
  by unfold_locales (simp add: MergeBatch_def batch_op2_adds)

interpretation delete: batch_adder DeleteBatch "\<lambda>cf args. WDelete cf (args ! 0)" 1
  by unfold_locales (simp add: DeleteBatch_def batch_op1_adds)

interpretation single_delete: batch_adder SingleDeleteBatch "\<lambda>cf args. WSingleDelete cf (args ! 0)" 1
  by unfold_locales (simp add: SingleDeleteBatch_def batch_op1_adds)

interpretation delete_range: batch_adder DeleteRangeBatch "\<lambda>cf args. WDeleteRange cf (args ! 0) (args ! 1)" 2
  by unfold_locales (simp add: DeleteRangeBatch_def batch_op2_adds)

section \<open>Sequences of calls\<close>

text \<open>A call on a batch, as an Erlang program makes it.\<close>

datatype batch_cmd = Add batch_op | ClearAll | SavePoint | Rollback

definition add_call ::
    "'wb rocks_batch \<Rightarrow> addr \<Rightarrow> batch_op \<Rightarrow> 'wb batches \<Rightarrow> ref_heap \<Rightarrow> (nif_result \<times> 'wb batches) \<times> ref_heap" where
  "add_call R p c bs h =
     (let argv = ERef p # cf_terms (op_cf c) @ map EBin (op_slices c)
      in case c of
           WPut _ _ _ \<Rightarrow> PutBatch R bs h argv
         | WMerge _ _ _ \<Rightarrow> MergeBatch R bs h argv
         | WDelete _ _ \<Rightarrow> DeleteBatch R bs h argv
         | WSingleDelete _ _ \<Rightarrow> SingleDeleteBatch R bs h argv
         | WDeleteRange _ _ _ \<Rightarrow> DeleteRangeBatch R bs h argv)"

fun batch_call ::
    "'wb rocks_batch \<Rightarrow> addr \<Rightarrow> batch_cmd \<Rightarrow> 'wb batches \<Rightarrow> ref_heap \<Rightarrow> (nif_result \<times> 'wb batches) \<times> ref_heap" where
  "batch_call R p (Add c) bs h = add_call R p c bs h"
| "batch_call R p ClearAll bs h = (ClearBatch R bs [ERef p], h)"
| "batch_call R p SavePoint bs h = (BatchSetSavePoint R bs [ERef p], h)"
| "batch_call R p Rollback bs h = (BatchRollbackToSavePoint R bs [ERef p], h)"

fun batch_calls ::
    "'wb rocks_batch \<Rightarrow> addr \<Rightarrow> batch_cmd list \<Rightarrow> 'wb batches \<Rightarrow> ref_heap \<Rightarrow> nif_result list \<times> 'wb batches \<times> ref_heap" where
  "batch_calls R p [] bs h = ([], bs, h)"
| "batch_calls R p (c # cs) bs h =
     (case batch_call R p c bs h of
        ((r, bs1), h1) \<Rightarrow> (case batch_calls R p cs bs1 h1 of (rs, bs2, h2) \<Rightarrow> (r # rs, bs2, h2)))"

text \<open>The specification: what a call does to the content and whether it answers \<open>ok\<close>.\<close>

fun cmd_content :: "batch_cmd \<Rightarrow> batch_content \<Rightarrow> batch_content" where
  "cmd_content (Add c) (cs, ns) = (cs @ [c], ns)"
| "cmd_content ClearAll x = ([], [])"
| "cmd_content SavePoint (cs, ns) = (cs, length cs # ns)"
| "cmd_content Rollback x = snd (rollback_content x)"

fun answers_ok :: "batch_cmd list \<Rightarrow> batch_content \<Rightarrow> bool list" where
  "answers_ok [] x = []"
| "answers_ok (c # cs) x = (c = Rollback \<longrightarrow> snd x \<noteq> []) # answers_ok cs (cmd_content c x)"

fun cmd_ok :: "ref_heap \<Rightarrow> batch_cmd \<Rightarrow> bool" where
  "cmd_ok h (Add c) = (op_ok c \<and> cf_usable h (op_cf c))"
| "cmd_ok h _ = True"

lemma add_call_adds:
  assumes "bs p = Some (open_batch w)" "cf_usable h (op_cf c)"
  shows "add_call R p c bs h = ((Ok e_ok, bs(p \<mapsto> open_batch (wb_add R c w))), h)"
proof (cases c)
  case (WPut cf k v)
  then show ?thesis
    using put.adds [of "[k, v]" bs p w h cf R] assms by (simp add: add_call_def)
next
  case (WMerge cf k v)
  then show ?thesis
    using merge.adds [of "[k, v]" bs p w h cf R] assms by (simp add: add_call_def)
next
  case (WDelete cf k)
  then show ?thesis
    using delete.adds [of "[k]" bs p w h cf R] assms by (simp add: add_call_def)
next
  case (WSingleDelete cf k)
  then show ?thesis
    using single_delete.adds [of "[k]" bs p w h cf R] assms by (simp add: add_call_def)
next
  case (WDeleteRange cf b e)
  then show ?thesis
    using delete_range.adds [of "[b, e]" bs p w h cf R] assms by (simp add: add_call_def)
qed

lemma add_call_released:
  assumes "bs p = Some b" "wb b = NullWb" "cf_usable h (op_cf c)"
  shows "add_call R p c bs h = ((Undef, bs), h)"
proof (cases c)
  case (WPut cf k v)
  then show ?thesis
    using put.undefined_when_released [of "[k, v]" bs p b h cf R] assms by (simp add: add_call_def)
next
  case (WMerge cf k v)
  then show ?thesis
    using merge.undefined_when_released [of "[k, v]" bs p b h cf R] assms by (simp add: add_call_def)
next
  case (WDelete cf k)
  then show ?thesis
    using delete.undefined_when_released [of "[k]" bs p b h cf R] assms by (simp add: add_call_def)
next
  case (WSingleDelete cf k)
  then show ?thesis
    using single_delete.undefined_when_released [of "[k]" bs p b h cf R] assms by (simp add: add_call_def)
next
  case (WDeleteRange cf b' e)
  then show ?thesis
    using delete_range.undefined_when_released [of "[b', e]" bs p b h cf R] assms by (simp add: add_call_def)
qed

lemma batch_call_step:
  assumes laws: "batch_laws R ids content" and "bs p = Some (open_batch w)" "cmd_ok h c"
  shows "\<exists>r w'. batch_call R p c bs h = ((r, bs(p \<mapsto> open_batch w')), h) \<and>
    content w' = cmd_content c (content w) \<and> (r = Ok e_ok \<longleftrightarrow> (c = Rollback \<longrightarrow> snd (content w) \<noteq> []))"
proof (cases c)
  case (Add op)
  then show ?thesis
    using assms add_call_adds [of bs p w h op R]
    by (cases "content w") (auto simp: batch_lawsD(2) [OF laws])
next
  case ClearAll
  then show ?thesis
    using assms(2)
    by (intro exI [of _ "Ok e_ok"] exI [of _ "wb_Clear R w"])
      (simp add: ClearBatch_def on_batch_def enif_get_batch_def open_batch_def batch_lawsD(3) [OF laws])
next
  case SavePoint
  then show ?thesis
    using assms(2)
    by (intro exI [of _ "Ok e_ok"] exI [of _ "wb_SetSavePoint R w"], cases "content w")
      (simp add: BatchSetSavePoint_def on_batch_def enif_get_batch_def open_batch_def batch_lawsD(4) [OF laws])
next
  case Rollback
  obtain st w1 where roll: "wb_RollbackToSavePoint R w = (st, w1)"
    by fastforce
  then have "(status_ok st, content w1) = rollback_content (content w)"
    using batch_lawsD(5) [OF laws, of w] by simp
  moreover have "fst (rollback_content (content w)) \<longleftrightarrow> snd (content w) \<noteq> []"
    by (cases "content w" rule: rollback_content.cases) simp_all
  moreover have "status_result st = e_ok \<longleftrightarrow> status_ok st"
    by (simp add: status_result_def error_tuple_def e_ok_def)
  ultimately show ?thesis
    using assms(2) Rollback roll
    by (intro exI [of _ "Ok (status_result st)"] exI [of _ w1])
      (auto simp: BatchRollbackToSavePoint_def on_batch_def enif_get_batch_def open_batch_def dest: sym)
qed

lemma batch_calls_content:
  assumes "batch_laws R ids content" "bs p = Some (open_batch w)" "\<forall>c \<in> set cs. cmd_ok h c"
  shows "\<exists>rs w'. batch_calls R p cs bs h = (rs, bs(p \<mapsto> open_batch w'), h) \<and>
    content w' = fold cmd_content cs (content w) \<and> map (\<lambda>r. r = Ok e_ok) rs = answers_ok cs (content w)"
  using assms(2,3)
proof (induction cs arbitrary: bs w)
  case Nil
  then show ?case
    by (intro exI [of _ "[]"] exI [of _ w]) (simp add: map_upd_triv)
next
  case (Cons c cs)
  obtain r w1 where c: "batch_call R p c bs h = ((r, bs(p \<mapsto> open_batch w1)), h)"
      "content w1 = cmd_content c (content w)" "r = Ok e_ok \<longleftrightarrow> (c = Rollback \<longrightarrow> snd (content w) \<noteq> [])"
    using batch_call_step [OF assms(1), of bs p w h c] Cons.prems by auto
  have "\<exists>rs w'. batch_calls R p cs (bs(p \<mapsto> open_batch w1)) h =
      (rs, bs(p \<mapsto> open_batch w1, p \<mapsto> open_batch w'), h) \<and> content w' = fold cmd_content cs (content w1) \<and>
      map (\<lambda>r. r = Ok e_ok) rs = answers_ok cs (content w1)"
    by (rule Cons.IH) (use Cons.prems(2) in simp_all)
  then obtain rs w2 where "batch_calls R p cs (bs(p \<mapsto> open_batch w1)) h = (rs, bs(p \<mapsto> open_batch w2), h)"
      "content w2 = fold cmd_content cs (content w1)" "map (\<lambda>r. r = Ok e_ok) rs = answers_ok cs (content w1)"
    unfolding fun_upd_upd by blast
  with c show ?case
    by (intro exI [of _ "r # rs"] exI [of _ w2]) (simp add: fun_upd_def)
qed

lemma open_heap_next [simp]:
  "cf_usable (h\<lparr>next_addr := n\<rparr>) cf = cf_usable h cf" "db_open (h\<lparr>next_addr := n\<rparr>) d = db_open h d"
  "cmd_ok (h\<lparr>next_addr := n\<rparr>) c = cmd_ok h c"
  by (simp_all add: cf_usable_def cf_open_def db_open_def split: cf_arg.split option.split)
    (cases c; simp add: cf_usable_def cf_open_def split: cf_arg.split option.split)

lemma WriteBatch_open:
  assumes "db_open h d" "bs p = Some (open_batch w)" "db_Write d (write_options_of opts) w dbs = (st, dbs1)"
  shows "WriteBatch R db_Write dbs bs h [ERef d, ERef p, opts] =
    ((Ok (status_result st), dbs1, bs(p \<mapsto> open_batch (wb_Clear R w))), h)"
  unfolding WriteBatch_def
  by (simp add: numeral_2_eq_2, rule with_db_open [OF assms(1)])
    (use assms(2,3) in \<open>simp add: enif_get_batch_def open_batch_def\<close>)

text \<open>
  What \<open>rocksdb::DB::Write\<close> promises: a write that succeeds applies all the operations
  of the batch, in order, after the operations already applied to that database.
\<close>

definition write_laws ::
    "(addr \<Rightarrow> write_options \<Rightarrow> 'wb \<Rightarrow> 'db \<Rightarrow> status \<times> 'db) \<Rightarrow> ('wb \<Rightarrow> batch_content) \<Rightarrow> ('db \<Rightarrow> addr \<Rightarrow> batch_op list) \<Rightarrow> bool" where
  "write_laws db_Write content history \<longleftrightarrow>
     (\<forall>d opts w dbs st dbs1. db_Write d opts w dbs = (st, dbs1) \<longrightarrow> status_ok st \<longrightarrow>
        history dbs1 = (history dbs)(d := history dbs d @ fst (content w)))"

section \<open>Properties\<close>

text \<open>
  Claim C21. The batch NIFs refine a list of operations with save points: any sequence
  of puts, merges, deletes, range deletes, clears, save points and rollbacks on an
  open batch leaves in it exactly the operations the specification gives, in order;
  a call answers \<open>ok\<close> unless it rolls back without a save point; no other batch
  and no object changes.
\<close>

theorem batch_calls_refine_content:
  assumes "batch_laws R ids content" "bs p = Some (open_batch w)" "\<forall>c \<in> set cs. cmd_ok h c"
  shows "\<exists>rs w'. batch_calls R p cs bs h = (rs, bs(p \<mapsto> open_batch w'), h) \<and>
    content w' = fold cmd_content cs (content w) \<and> map (\<lambda>r. r = Ok e_ok) rs = answers_ok cs (content w)"
  by (rule batch_calls_content [where ids = ids]) (use assms in simp_all)

theorem batch_calls_refine_content_witness:
  "\<exists>rs w'. batch_calls (list_batch (\<lambda>_. 0)) 5
      [Add (WPut NoCf [1] [2]), SavePoint, Add (WDelete NoCf [1]), Rollback, Rollback]
      [5 \<mapsto> open_batch ([], [])] empty_heap = (rs, [5 \<mapsto> open_batch w'], empty_heap) \<and>
    w' = ([WPut NoCf [1] [2]], []) \<and> map (\<lambda>r. r = Ok e_ok) rs = [True, True, True, True, False]"
  using batch_calls_refine_content [OF list_batch_laws, of "[5 \<mapsto> open_batch ([], [])]" 5 "([], [])"
      "[Add (WPut NoCf [1] [2]), SavePoint, Add (WDelete NoCf [1]), Rollback, Rollback]" empty_heap "\<lambda>_. 0"]
  by (simp add: op_ok_def cf_usable_def)

text \<open>
  A whole session commits what its calls describe: a new batch, any sequence
  of calls on it and \<open>write_batch\<close> on an open database append to that database exactly
  the operations of the specification, in order, when RocksDB accepts the write; the
  answer is \<open>ok\<close> or the error of the status, and in both cases the batch is empty
  afterwards.
\<close>

theorem batch_session_commits:
  assumes "batch_laws R ids content" "write_laws db_Write content history"
    and "alloc_wb A" "alloc_resource A" "alloc_batch_env A" "db_open h d" "\<forall>c \<in> set cs. cmd_ok h c"
    and "NewBatch R A bs h = ((r0, bs1), h1)" "batch_calls R (next_addr h) cs bs1 h1 = (rs, bs2, h2)"
    and "WriteBatch R db_Write dbs bs2 h2 [ERef d, ERef (next_addr h), opts] = ((r, dbs1, bs3), h3)"
  shows "r0 = Ok (ok_tuple (ERef (next_addr h))) \<and>
    (\<exists>st. r = Ok (status_result st) \<and>
      (status_ok st \<longrightarrow>
        history dbs1 = (history dbs)(d := history dbs d @ fst (fold cmd_content cs ([], []))))) \<and>
    (\<exists>w. bs3 (next_addr h) = Some (open_batch w) \<and> content w = ([], []))"
proof -
  let ?p = "next_addr h"
  have new: "r0 = Ok (ok_tuple (ERef ?p))" "bs1 = bs(?p \<mapsto> open_batch (wb_new R))" "h1 = h\<lparr>next_addr := ?p + 1\<rparr>"
    using assms(3-5,8) by (auto simp: NewBatch_def Let_def open_batch_def)
  have "\<forall>c \<in> set cs. cmd_ok h1 c"
    using assms(7) new(3) by simp
  then obtain w where w: "bs2 = bs1(?p \<mapsto> open_batch w)" "h2 = h1" "content w = fold cmd_content cs ([], [])"
    using batch_calls_content [OF assms(1), of bs1 ?p "wb_new R" cs h1] assms(9) new(2)
    by (auto simp: batch_lawsD(1) [OF assms(1)])
  obtain st dbs' where st: "db_Write d (write_options_of opts) w dbs = (st, dbs')"
    by fastforce
  have "((r, dbs1, bs3), h3) = ((Ok (status_result st), dbs', bs2(?p \<mapsto> open_batch (wb_Clear R w))), h2)"
    unfolding assms(10) [symmetric] using w new(3) assms(6) by (intro WriteBatch_open st) auto
  then show ?thesis
    using new(1) st w(3) assms(2) by (auto simp: write_laws_def batch_lawsD(3) [OF assms(1)])
qed

definition write_all :: "addr \<Rightarrow> write_options \<Rightarrow> batch_content \<Rightarrow> (addr \<Rightarrow> batch_op list) \<Rightarrow> status \<times> (addr \<Rightarrow> batch_op list)" where
  "write_all d opts w dbs = (ok_status, dbs(d := dbs d @ fst w))"

lemma write_all_laws: "write_laws write_all id id"
  by (simp add: write_laws_def write_all_def)

text \<open>A heap with one open database, for the instances.\<close>

definition db_heap :: ref_heap where
  "db_heap = snd (CreateDbObject empty_heap False False)"

lemma db_heap_open: "db_open db_heap 0" "next_addr db_heap = 1"
  by (simp_all add: db_heap_def CreateDbObject_def enif_alloc_resource_def empty_heap_def RefInc_open new_object_def
      db_open_def RefInc_def with_live_def with_obj_def put_obj_def)

theorem batch_session_commits_witness:
  "\<exists>st. fst (fst (WriteBatch (list_batch (\<lambda>_. 0)) write_all (\<lambda>_. [])
       [1 \<mapsto> open_batch ([WPut NoCf [7] [8]], [])] (db_heap\<lparr>next_addr := 2\<rparr>) [ERef 0, ERef 1, ENil])) = Ok (status_result st) \<and>
     fst (snd (fst (WriteBatch (list_batch (\<lambda>_. 0)) write_all (\<lambda>_. [])
       [1 \<mapsto> open_batch ([WPut NoCf [7] [8]], [])] (db_heap\<lparr>next_addr := 2\<rparr>) [ERef 0, ERef 1, ENil]))) 0 = [WPut NoCf [7] [8]]"
proof -
  let ?R = "list_batch (\<lambda>_. 0)" and ?A = "\<lparr>alloc_wb = True, alloc_resource = True, alloc_batch_env = True\<rparr>"
  let ?h1 = "db_heap\<lparr>next_addr := 2\<rparr>" and ?bs2 = "[1 \<mapsto> open_batch ([WPut NoCf [7] [8]], [])]"
  let ?w = "WriteBatch ?R write_all (\<lambda>_. []) ?bs2 ?h1 [ERef 0, ERef 1, ENil]"
  have new: "NewBatch ?R ?A Map.empty db_heap = ((Ok (ok_tuple (ERef 1)), [1 \<mapsto> open_batch ([], [])]), ?h1)"
    by (simp add: NewBatch_def db_heap_open open_batch_def list_batch_def)
  have "batch_calls ?R 1 [Add (WPut NoCf [7] [8])] [1 \<mapsto> open_batch ([], [])] ?h1 = ([Ok e_ok], ?bs2, ?h1)"
    using add_call_adds [of "[1 \<mapsto> open_batch ([], [])]" 1 "([], [])" ?h1 "WPut NoCf [7] [8]" ?R]
    by (simp add: cf_usable_def list_batch_def)
  then have run: "batch_calls ?R (next_addr db_heap) [Add (WPut NoCf [7] [8])] [1 \<mapsto> open_batch ([], [])] ?h1 =
      ([Ok e_ok], ?bs2, ?h1)"
    by (simp add: db_heap_open)
  have "?w = ((fst (fst ?w), fst (snd (fst ?w)), snd (snd (fst ?w))), snd ?w)"
    by simp
  then have wr: "WriteBatch ?R write_all (\<lambda>_. []) ?bs2 ?h1 [ERef 0, ERef (next_addr db_heap), ENil] = \<dots>"
    by (simp add: db_heap_open)
  from batch_session_commits [OF list_batch_laws write_all_laws _ _ _ _ _ new run wr]
  have "\<exists>st. fst (fst ?w) = Ok (status_result st) \<and> (status_ok st \<longrightarrow> fst (snd (fst ?w)) 0 = [WPut NoCf [7] [8]])"
    by (auto simp: db_heap_open op_ok_def cf_usable_def fun_eq_iff)
  moreover have "?w = ((Ok (status_result ok_status), (\<lambda>_. [])(0 := [WPut NoCf [7] [8]]),
      ?bs2(1 \<mapsto> open_batch (wb_Clear ?R ([WPut NoCf [7] [8]], [])))), ?h1)"
    by (rule WriteBatch_open) (simp_all add: db_heap_open write_all_def)
  ultimately show ?thesis
    by auto
qed

text \<open>
  \<open>batch_tolist\<close> lists the operations of the batch in order, each with its
  arguments and the id of its column family, up to the first range deletion: there
  the replay stops, because the handler does not implement \<open>DeleteRangeCF\<close> and the
  status is dropped. The list is complete exactly when the batch deletes no range.
\<close>

theorem batch_to_list_rows:
  assumes "batch_laws R ids content" "bs p = Some (open_batch w)"
  shows "BatchToList R bs [ERef p] =
      (Ok (enif_make_list (map (op_row ids) (takeWhile (\<lambda>c. \<not> is_range c) (fst (content w))))), bs) \<and>
    (fst (BatchToList R bs [ERef p]) = Ok (enif_make_list (map (op_row ids) (fst (content w)))) \<longleftrightarrow>
      \<not> list_ex is_range (fst (content w)))"
proof -
  have "map (op_row ids) (takeWhile P cs) = map (op_row ids) cs \<longleftrightarrow> list_all P cs" for P cs
  proof -
    have "length (takeWhile P cs) = length cs \<longleftrightarrow> list_all P cs"
      by (induction cs) auto
    then show ?thesis
      by (metis length_map list_all_iff takeWhile_eq_all_conv)
  qed
  then show ?thesis
    using assms(2)
    by (simp add: BatchToList_def on_batch_def enif_get_batch_def open_batch_def batch_log_rows [OF assms(1)]
        list_all_iff list_ex_iff)
qed

theorem batch_to_list_rows_witness:
  "BatchToList (list_batch (\<lambda>_. 0)) [5 \<mapsto> open_batch ([WPut NoCf [1] [2], WDeleteRange NoCf [1] [9], WDelete NoCf [3]], [])]
     [ERef 5] = (Ok (enif_make_list [ETuple [EAtom ''put'', EBin [1], EBin [2]]]),
       [5 \<mapsto> open_batch ([WPut NoCf [1] [2], WDeleteRange NoCf [1] [9], WDelete NoCf [3]], [])])"
  using batch_to_list_rows [OF list_batch_laws,
      of "[5 \<mapsto> open_batch ([WPut NoCf [1] [2], WDeleteRange NoCf [1] [9], WDelete NoCf [3]], [])]" 5
        "([WPut NoCf [1] [2], WDeleteRange NoCf [1] [9], WDelete NoCf [3]], [])" "\<lambda>_. 0"]
  by (simp add: log_row_def op_cf_id_def slice_to_binary_def)

text \<open>
  Releasing a batch is idempotent and its resource is collected without a
  second free; but every call that changes the batch dereferences a null pointer once
  the batch is released, and \<open>NewBatch\<close> frees a batch twice when the environment
  cannot be allocated.
\<close>

theorem released_batch_is_unsafe:
  assumes "bs p = Some (open_batch w)" "cmd_ok h c" "alloc_wb A" "alloc_resource A" "\<not> alloc_batch_env A"
  shows "\<exists>bs'. ReleaseBatch bs [ERef p] = (Ok e_ok, bs') \<and> ReleaseBatch bs' [ERef p] = (Ok e_ok, bs') \<and>
    batch_resource_cleanup bs' p = Ok (bs'(p := None)) \<and>
    batch_call R p c bs' h = ((Undef, bs'), h) \<and> fst (fst (NewBatch R A bs h)) = Undef"
proof -
  let ?b = "\<lparr>wb = NullWb, env = False\<rparr> :: 'a Batch" and ?bs = "bs(p \<mapsto> \<lparr>wb = NullWb, env = False\<rparr>)"
  have "batch_call R p c ?bs h = ((Undef, ?bs), h)"
    using assms(2) add_call_released [of ?bs p ?b h _ R]
    by (cases c) (simp_all add: ClearBatch_def BatchSetSavePoint_def BatchRollbackToSavePoint_def on_batch_def
        enif_get_batch_def)
  then show ?thesis
    using assms
    by (intro exI [of _ ?bs])
      (simp add: ReleaseBatch_def enif_get_batch_def cleanup_batch_def open_batch_def batch_resource_cleanup_def
        NewBatch_def)
qed

theorem released_batch_is_unsafe_witness:
  "\<exists>bs'. ReleaseBatch [5 \<mapsto> open_batch ([], [])] [ERef 5] = (Ok e_ok, bs') \<and>
    fst (fst (batch_call (list_batch (\<lambda>_. 0)) 5 (Add (WPut NoCf [1] [2])) bs' empty_heap)) = Undef"
  using released_batch_is_unsafe [of "[5 \<mapsto> open_batch ([], [])]" 5 "([], [])" empty_heap "Add (WPut NoCf [1] [2])"
      "\<lparr>alloc_wb = True, alloc_resource = True, alloc_batch_env = False\<rparr>" "list_batch (\<lambda>_. 0)"]
  by (auto simp: op_ok_def cf_usable_def)

end
