(* ===== verification/Tlog_Nifs.thy ===== *)
theory Tlog_Nifs
  imports Write_Batch
begin

text \<open>
  The transaction log NIFs (\<open>c_src/transaction_log.cc\<close>): an iterator over the batches
  written to a database since a sequence number, each delivered as a list of
  operations or as the bytes of the batch, and \<open>write_binary_update\<close>, which writes
  such bytes to another database. \<open>rocksdb::TransactionLogIterator\<close> is an argument.
\<close>

section \<open>RocksDB\<close>

record ('it, 'wb) rocks_tlog =
  GetUpdatesSince :: "addr \<Rightarrow> u64 \<Rightarrow> status \<times> 'it"
  tl_Valid :: "'it \<Rightarrow> bool"
  tl_status :: "'it \<Rightarrow> status"
  tl_GetBatch :: "'it \<Rightarrow> u64 \<times> 'wb"
  tl_Next :: "'it \<Rightarrow> 'it"
  wb_Data :: "'wb \<Rightarrow> bytes"
  wb_of_data :: "bytes \<Rightarrow> 'wb"

text \<open>The native iterator \<open>m_Iter\<close> of every log iterator object.\<close>

type_synonym 'it tlogs = "addr \<Rightarrow> 'it option"

definition invalid_iterator :: eterm where
  "invalid_iterator = ETuple [EAtom ''error'', EAtom ''invalid_iterator'']"

text \<open>\<open>enif_make_int64\<close> of an unsigned sequence number.\<close>

definition e_int64 :: "u64 \<Rightarrow> eterm" where
  "e_int64 n = EInt (signed_take_bit 63 (uint n))"

section \<open>The NIFs\<close>

definition TransactionLogIterator ::
    "('it, 'wb) rocks_tlog \<Rightarrow> 'it tlogs \<Rightarrow> ref_heap \<Rightarrow> eterm list \<Rightarrow> (nif_result \<times> 'it tlogs) \<times> ref_heap" where
  "TransactionLogIterator L its h argv =
     with_db h (argv ! 0) (Failed, its) (\<lambda>db h1.
       case enif_get_int64 (argv ! 1) of
         None \<Rightarrow> ((Failed, its), h1)
       | Some since \<Rightarrow>
           (case GetUpdatesSince L db (word_of_int since) of
              (st, it) \<Rightarrow>
                if \<not> status_ok st then ((Ok (error_tuple (EAtom ''error'') st), its), h1)
                else if \<not> tl_Valid L it then ((Ok invalid_iterator, its), h1)
                else
                  let (a, h2) = CreateTLogItrObject h1 (Some db)
                  in ((Ok (ok_tuple (ERef a)), its(a \<mapsto> it)), h2)))"

text \<open>
  What both \<open>Next...Update\<close> NIFs do before they read the batch, and the binary of its
  bytes: the result of \<open>enif_make_new_binary\<close> is not checked. \<open>answer\<close> builds the reply
  from the sequence number, the batch and that binary.
\<close>

definition next_update ::
    "erts \<Rightarrow> ('it, 'wb) rocks_tlog \<Rightarrow> (u64 \<Rightarrow> 'wb \<Rightarrow> eterm \<Rightarrow> eterm) \<Rightarrow> 'it tlogs \<Rightarrow> ref_heap \<Rightarrow> eterm list \<Rightarrow>
       (nif_result \<times> 'it tlogs) \<times> ref_heap" where
  "next_update E L answer its h argv =
     with_retrieved h (RetrieveTLogItrObject h (argv ! 0)) (Failed, its) (\<lambda>a h1.
       (case its a of
          None \<Rightarrow> (Undef, its)
        | Some it \<Rightarrow>
            if \<not> tl_Valid L it then (Ok invalid_iterator, its)
            else if \<not> status_ok (tl_status L it)
            then (Ok (error_tuple (EAtom ''error'') (tl_status L it)), its)
            else
              (case tl_GetBatch L it of
                 (sequence, batch) \<Rightarrow>
                   if new_binary_ok E (length (wb_Data L batch))
                   then (Ok (answer sequence batch (EBin (wb_Data L batch))), its(a \<mapsto> tl_Next L it))
                   else (Undef, its)), h1))"

definition TransactionLogNextUpdate ::
    "erts \<Rightarrow> 'wb rocks_batch \<Rightarrow> ('it, 'wb) rocks_tlog \<Rightarrow> 'it tlogs \<Rightarrow> ref_heap \<Rightarrow> eterm list \<Rightarrow>
       (nif_result \<times> 'it tlogs) \<times> ref_heap" where
  "TransactionLogNextUpdate E R L =
     next_update E L (\<lambda>sequence batch binlog. ETuple [EAtom ''ok'', e_int64 sequence, batch_log R batch, binlog])"

definition TransactionLogNextBinaryUpdate ::
    "erts \<Rightarrow> ('it, 'wb) rocks_tlog \<Rightarrow> 'it tlogs \<Rightarrow> ref_heap \<Rightarrow> eterm list \<Rightarrow> (nif_result \<times> 'it tlogs) \<times> ref_heap" where
  "TransactionLogNextBinaryUpdate E L =
     next_update E L (\<lambda>sequence batch bindata. ETuple [EAtom ''ok'', e_int64 sequence, bindata])"

definition WriteBinaryUpdate ::
    "('it, 'wb) rocks_tlog \<Rightarrow> (addr \<Rightarrow> write_options \<Rightarrow> 'wb \<Rightarrow> 'db \<Rightarrow> status \<times> 'db) \<Rightarrow> 'db \<Rightarrow> ref_heap \<Rightarrow> eterm list \<Rightarrow>
       (nif_result \<times> 'db) \<times> ref_heap" where
  "WriteBinaryUpdate L db_Write dbs h argv =
     with_db h (argv ! 0) (Failed, dbs) (\<lambda>db h1.
       (case enif_inspect_binary (argv ! 1) of
          None \<Rightarrow> (Failed, dbs)
        | Some bin \<Rightarrow>
            (case db_Write db (write_options_of (argv ! 2)) (wb_of_data L bin) dbs of
               (st, dbs1) \<Rightarrow> (Ok (status_result st), dbs1)), h1))"

section \<open>Laws\<close>

text \<open>
  The documented behaviour of the log iterator: it stands on the first of the updates
  still to deliver, and is not valid when there is none. A batch made from the bytes
  of a batch has the same operations.
\<close>

definition tlog_laws :: "('it, 'wb) rocks_tlog \<Rightarrow> ('it \<Rightarrow> (u64 \<times> 'wb) list) \<Rightarrow> ('wb \<Rightarrow> batch_content) \<Rightarrow> bool" where
  "tlog_laws L updates content \<longleftrightarrow>
     (\<forall>it. tl_Valid L it \<longleftrightarrow> updates it \<noteq> []) \<and>
     (\<forall>it. updates it \<noteq> [] \<longrightarrow> status_ok (tl_status L it) \<and> tl_GetBatch L it = hd (updates it) \<and>
        updates (tl_Next L it) = tl (updates it)) \<and>
     (\<forall>w. fst (content (wb_of_data L (wb_Data L w))) = fst (content w))"

definition tlog_open :: "ref_heap \<Rightarrow> addr \<Rightarrow> bool" where
  "tlog_open h a \<longleftrightarrow> (case mem h a of
     Some ob \<Rightarrow> kind ob = TLogItrObject \<and> m_CloseRequested ob = 0 | None \<Rightarrow> False)"

lemma with_tlog_open:
  assumes "tlog_open h a" "\<And>h1. f a h1 = (r, h1)"
  shows "with_retrieved h (RetrieveTLogItrObject h (ERef a)) bad f = (r, h)"
proof -
  obtain ob where "mem h a = Some ob" "kind ob = TLogItrObject" "m_CloseRequested ob = 0"
    using assms(1) by (auto simp: tlog_open_def split: option.splits)
  then show ?thesis
    by (simp add: with_retrieved_def in_scope_def RetrieveTLogItrObject_def Retrieve_def ReferencePtr_assign_def
        ReferencePtr_drop_def assms(2) RefDec_RefInc)
qed

lemma next_update_delivers:
  assumes "tlog_laws L updates content" "tlog_open h a" "its a = Some it" "updates it = (n, w) # us"
    and "new_binary_ok E (length (wb_Data L w))"
  shows "\<exists>it'. next_update E L answer its h [ERef a] =
    ((Ok (answer n w (EBin (wb_Data L w))), its(a \<mapsto> it')), h) \<and> updates it' = us"
proof -
  have "next_update E L answer its h [ERef a] = ((Ok (answer n w (EBin (wb_Data L w))), its(a \<mapsto> tl_Next L it)), h)"
    unfolding next_update_def
    by (simp, rule with_tlog_open [OF assms(2)]) (use assms(1,3-5) in \<open>simp add: tlog_laws_def\<close>)
  then show ?thesis
    using assms(1,4) by (auto simp: tlog_laws_def)
qed

lemma next_update_ends:
  assumes "tlog_laws L updates content" "tlog_open h a" "its a = Some it" "updates it = []"
  shows "next_update E L answer its h [ERef a] = ((Ok invalid_iterator, its), h)"
  unfolding next_update_def
  by (simp, rule with_tlog_open [OF assms(2)]) (use assms(1,3,4) in \<open>simp add: tlog_laws_def\<close>)

lemma WriteBinaryUpdate_open:
  assumes "db_open h d" "db_Write d (write_options_of opts) (wb_of_data L b) dbs = (st, dbs1)"
  shows "WriteBinaryUpdate L db_Write dbs h [ERef d, EBin b, opts] = ((Ok (status_result st), dbs1), h)"
  unfolding WriteBinaryUpdate_def
  by (simp add: numeral_2_eq_2, rule with_db_open [OF assms(1)]) (use assms(2) in simp)

section \<open>Replication\<close>

text \<open>
  The loop of a follower: read binary updates until the iterator is not valid and
  write each one; the result is the last answer. \<open>n\<close> bounds the number of rounds.
\<close>

fun follow ::
    "erts \<Rightarrow> ('it, 'wb) rocks_tlog \<Rightarrow> (addr \<Rightarrow> write_options \<Rightarrow> 'wb \<Rightarrow> 'db \<Rightarrow> status \<times> 'db) \<Rightarrow> addr \<Rightarrow> addr \<Rightarrow> eterm \<Rightarrow>
       nat \<Rightarrow> 'it tlogs \<Rightarrow> 'db \<Rightarrow> ref_heap \<Rightarrow> nif_result option \<times> 'db" where
  "follow E L db_Write a d opts 0 its dbs h = (None, dbs)"
| "follow E L db_Write a d opts (Suc n) its dbs h =
     (case TransactionLogNextBinaryUpdate E L its h [ERef a] of
        ((Ok (ETuple [EAtom tag, sequence, bin]), its1), h1) \<Rightarrow>
          (case WriteBinaryUpdate L db_Write dbs h1 [ERef d, bin, opts] of
             ((r, dbs1), h2) \<Rightarrow>
               if r = Ok e_ok then follow E L db_Write a d opts n its1 dbs1 h2 else (Some r, dbs1))
      | ((r, its1), h1) \<Rightarrow> (Some r, dbs))"

definition accepts_all :: "(addr \<Rightarrow> write_options \<Rightarrow> 'wb \<Rightarrow> 'db \<Rightarrow> status \<times> 'db) \<Rightarrow> bool" where
  "accepts_all db_Write \<longleftrightarrow> (\<forall>d opts w dbs. status_ok (fst (db_Write d opts w dbs)))"

lemma follow_applies:
  assumes laws: "tlog_laws L updates content" "write_laws db_Write content history" "accepts_all db_Write"
    and "tlog_open h a" "db_open h d" "\<And>n. new_binary_ok E n"
  shows "its a = Some it \<Longrightarrow> length (updates it) < n \<Longrightarrow>
    \<exists>dbs1. follow E L db_Write a d opts n its dbs h = (Some (Ok invalid_iterator), dbs1) \<and>
      history dbs1 d = history dbs d @ concat (map (\<lambda>(s, w). fst (content w)) (updates it))"
proof (induction n arbitrary: its it dbs)
  case (Suc n)
  show ?case
  proof (cases "updates it")
    case Nil
    then have "TransactionLogNextBinaryUpdate E L its h [ERef a] = ((Ok invalid_iterator, its), h)"
      using next_update_ends [OF laws(1) assms(4), of its it] Suc.prems(1)
      by (simp add: TransactionLogNextBinaryUpdate_def)
    with Nil show ?thesis
      by (simp add: invalid_iterator_def)
  next
    case (Cons u us)
    obtain s w where u: "u = (s, w)"
      by fastforce
    obtain it' where next_it: "TransactionLogNextBinaryUpdate E L its h [ERef a] =
        ((Ok (ETuple [EAtom ''ok'', e_int64 s, EBin (wb_Data L w)]), its(a \<mapsto> it')), h)" "updates it' = us"
      using next_update_delivers [OF laws(1) assms(4), of its it s w us E] Suc.prems(1) Cons u assms(6)
      unfolding TransactionLogNextBinaryUpdate_def by blast
    obtain st dbs1 where st: "db_Write d (write_options_of opts) (wb_of_data L (wb_Data L w)) dbs = (st, dbs1)"
      by fastforce
    have ok: "status_ok st"
      using laws(3) st unfolding accepts_all_def by (metis fst_conv)
    have "history dbs1 = (history dbs)(d := history dbs d @ fst (content (wb_of_data L (wb_Data L w))))"
      using laws(2) st ok unfolding write_laws_def by blast
    then have hist: "history dbs1 d = history dbs d @ fst (content w)"
      using laws(1) by (simp add: tlog_laws_def)
    have "WriteBinaryUpdate L db_Write dbs h [ERef d, EBin (wb_Data L w), opts] = ((Ok e_ok, dbs1), h)"
      using WriteBinaryUpdate_open [OF assms(5), of db_Write opts L "wb_Data L w" dbs, OF st] ok
      by (simp add: status_result_def)
    then have "follow E L db_Write a d opts (Suc n) its dbs h = follow E L db_Write a d opts n (its(a \<mapsto> it')) dbs1 h"
      by (simp add: next_it(1))
    moreover have "\<exists>dbs2. follow E L db_Write a d opts n (its(a \<mapsto> it')) dbs1 h = (Some (Ok invalid_iterator), dbs2) \<and>
        history dbs2 d = history dbs1 d @ concat (map (\<lambda>(s, w). fst (content w)) (updates it'))"
      by (rule Suc.IH) (use Suc.prems(2) Cons next_it(2) in simp_all)
    ultimately show ?thesis
      using Cons u next_it(2) hist by simp
  qed
qed simp

section \<open>Properties\<close>

text \<open>
  Claim C24. Replication by binary updates is exact: a follower that reads updates until
  the log iterator ends and writes each one to its own database has applied exactly
  the operations of the leader's log, in order, after what it had, while RocksDB
  accepts the writes; the loop ends after one round per update.
\<close>

theorem replication_applies_log:
  assumes "tlog_laws L updates content" "write_laws db_Write content history" "accepts_all db_Write"
    and "tlog_open h a" "db_open h d" "\<And>n. new_binary_ok E n" "its a = Some it"
  shows "\<exists>dbs1. follow E L db_Write a d opts (Suc (length (updates it))) its dbs h = (Some (Ok invalid_iterator), dbs1) \<and>
    history dbs1 d = history dbs d @ concat (map (\<lambda>(s, w). fst (content w)) (updates it))"
  by (rule follow_applies [OF assms(1-6), of its it "Suc (length (updates it))"]) (simp_all add: assms(7))

text \<open>An instance: a batch is a key to delete and its bytes are that key; the log is a list.\<close>

definition list_tlog :: "((u64 \<times> bytes) list, bytes) rocks_tlog" where
  "list_tlog = \<lparr>GetUpdatesSince = (\<lambda>_ _. (ok_status, [])), tl_Valid = (\<lambda>it. it \<noteq> []), tl_status = (\<lambda>_. ok_status),
     tl_GetBatch = hd, tl_Next = tl, wb_Data = id, wb_of_data = id\<rparr>"

definition delete_content :: "bytes \<Rightarrow> batch_content" where
  "delete_content k = ([WDelete NoCf k], [])"

definition write_deletes :: "addr \<Rightarrow> write_options \<Rightarrow> bytes \<Rightarrow> (addr \<Rightarrow> batch_op list) \<Rightarrow> status \<times> (addr \<Rightarrow> batch_op list)" where
  "write_deletes d opts w dbs = (ok_status, dbs(d := dbs d @ [WDelete NoCf w]))"

definition tlog_heap :: ref_heap where
  "tlog_heap = snd (CreateTLogItrObject db_heap (Some 0))"

lemma tlog_heap_open: "tlog_open tlog_heap 1" "db_open tlog_heap 0"
  by (simp_all add: tlog_heap_def db_heap_def CreateTLogItrObject_def create_child_def TLogItrObject_ctor_def
      ReferencePtr_ctor_def add_to_db_def AddTLogReference_def CreateDbObject_def enif_alloc_resource_def empty_heap_def
      new_object_def tlog_open_def db_open_def RefInc_def with_live_def with_obj_def put_obj_def)

definition plain_erts :: erts where
  "plain_erts = \<lparr>alloc_env = True, binary_to_term = (\<lambda>_. None), term_to_binary = (\<lambda>_. None), compare_eq = (=),
     new_binary_ok = (\<lambda>_. True)\<rparr>"

lemma list_tlog_laws:
  "tlog_laws list_tlog id delete_content" "write_laws write_deletes delete_content id" "accepts_all write_deletes"
  by (simp_all add: tlog_laws_def list_tlog_def delete_content_def write_deletes_def write_laws_def accepts_all_def)

theorem replication_applies_log_witness:
  "\<exists>dbs1. follow plain_erts list_tlog write_deletes 1 0 ENil 3 [1 \<mapsto> [(4, [65]), (5, [66])]] (\<lambda>_. []) tlog_heap =
      (Some (Ok invalid_iterator), dbs1) \<and> dbs1 0 = [WDelete NoCf [65], WDelete NoCf [66]]"
proof -
  let ?log = "[(4, [65]), (5, [66])] :: (u64 \<times> bytes) list"
  have "\<exists>dbs1. follow plain_erts list_tlog write_deletes 1 0 ENil (Suc (length (id ?log))) [1 \<mapsto> ?log] (\<lambda>_. []) tlog_heap =
      (Some (Ok invalid_iterator), dbs1) \<and>
      id dbs1 0 = id (\<lambda>_. []) 0 @ concat (map (\<lambda>(s, w). fst (delete_content w)) (id ?log))"
    using replication_applies_log [OF list_tlog_laws tlog_heap_open, of plain_erts "[1 \<mapsto> ?log]" ?log ENil "\<lambda>_. []"]
    by (simp add: plain_erts_def del: follow.simps)
  then show ?thesis
    by (simp add: delete_content_def numeral_3_eq_3 del: follow.simps)
qed

end
