(* ===== verification/Iterator_Nifs.thy ===== *)
theory Iterator_Nifs
  imports Tlog_Nifs
begin

text \<open>
  The iterator NIFs (\<open>c_src/erocksdb_iter.cc\<close>): option parsing, creation of one or
  several iterators, movement, refresh and wide columns. The bounds of an iterator are
  heap-allocated slices that RocksDB reads through a pointer on every move, so slices
  have an address here and a deleted slice may not be read. \<open>rocksdb::Iterator\<close> is an
  argument.
\<close>

section \<open>Slices\<close>

text \<open>A slice is live until a \<open>DeleteSlice\<close> of its address is in the log of the heap.\<close>

record slice_store =
  slice_bytes :: "nat \<Rightarrow> bytes option"
  next_slice :: nat

definition new_slice :: "slice_store \<Rightarrow> bytes \<Rightarrow> nat \<times> slice_store" where
  "new_slice sl b =
     (next_slice sl, sl\<lparr>slice_bytes := (slice_bytes sl)(next_slice sl \<mapsto> b), next_slice := next_slice sl + 1\<rparr>)"

definition read_slice :: "ref_heap \<Rightarrow> slice_store \<Rightarrow> nat \<Rightarrow> bytes outcome" where
  "read_slice h sl p =
     (if DeleteSlice p \<in> set (log h) then Undef
      else case slice_bytes sl p of None \<Rightarrow> Undef | Some b \<Rightarrow> Ok b)"

definition read_bound :: "ref_heap \<Rightarrow> slice_store \<Rightarrow> nat option \<Rightarrow> bytes option outcome" where
  "read_bound h sl p =
     (case p of None \<Rightarrow> Ok None | Some a \<Rightarrow> bind_outcome (read_slice h sl a) (\<lambda>b. Ok (Some b)))"

section \<open>Options\<close>

datatype read_tier = kReadAllTier | kBlockCacheTier | kPersistedTier | kMemtableTier

record read_options =
  read_tier :: read_tier
  verify_checksums :: bool
  fill_cache :: bool
  iterate_upper_bound :: "nat option"
  iterate_lower_bound :: "nat option"
  tailing :: bool
  total_order_seek :: bool
  prefix_same_as_start :: bool
  snapshot :: "addr option"
  auto_refresh_iterator_with_snapshot :: bool
  auto_readahead_size :: bool
  allow_unprepared_value :: bool
  readahead_size :: u64
  async_io :: bool

definition ReadOptions_init :: read_options where
  "ReadOptions_init = \<lparr>read_tier = kReadAllTier, verify_checksums = True, fill_cache = True, iterate_upper_bound = None,
     iterate_lower_bound = None, tailing = False, total_order_seek = False, prefix_same_as_start = False,
     snapshot = None, auto_refresh_iterator_with_snapshot = False, auto_readahead_size = True,
     allow_unprepared_value = False, readahead_size = 0, async_io = False\<rparr>"

record ItrBounds =
  upper_bound :: "nat option"
  lower_bound :: "nat option"

definition no_bounds :: ItrBounds where
  "no_bounds = \<lparr>upper_bound = None, lower_bound = None\<rparr>"

record itr_parse =
  p_heap :: ref_heap
  p_slices :: slice_store
  p_opts :: read_options
  p_bounds :: ItrBounds

definition delete_bounds :: "ItrBounds \<Rightarrow> ref_heap \<Rightarrow> ref_heap" where
  "delete_bounds b h = delete_slice (lower_bound b) (delete_slice (upper_bound b) h)"

definition parse_upper_bound :: "eterm \<Rightarrow> itr_parse \<Rightarrow> bool \<times> itr_parse" where
  "parse_upper_bound val s =
     (case enif_inspect_binary val of
        None \<Rightarrow> (False, s)
      | Some b \<Rightarrow>
          let (p, sl) = new_slice (p_slices s) b
          in (True, s\<lparr>p_slices := sl, p_bounds := (p_bounds s)\<lparr>upper_bound := Some p\<rparr>,
                p_opts := (p_opts s)\<lparr>iterate_upper_bound := Some p\<rparr>\<rparr>))"

text \<open>A lower bound that is no binary frees the upper bound already allocated.\<close>

definition parse_lower_bound :: "eterm \<Rightarrow> itr_parse \<Rightarrow> bool \<times> itr_parse" where
  "parse_lower_bound val s =
     (case enif_inspect_binary val of
        None \<Rightarrow> (False, s\<lparr>p_heap := delete_slice (upper_bound (p_bounds s)) (p_heap s),
                   p_bounds := (p_bounds s)\<lparr>upper_bound := None\<rparr>\<rparr>)
      | Some b \<Rightarrow>
          let (p, sl) = new_slice (p_slices s) b
          in (True, s\<lparr>p_slices := sl, p_bounds := (p_bounds s)\<lparr>lower_bound := Some p\<rparr>,
                p_opts := (p_opts s)\<lparr>iterate_lower_bound := Some p\<rparr>\<rparr>))"

text \<open>The snapshot is held only while its pointer is copied; a refused one frees both bounds.\<close>

definition parse_snapshot :: "eterm \<Rightarrow> itr_parse \<Rightarrow> bool \<times> itr_parse" where
  "parse_snapshot val s =
     (case with_retrieved (p_heap s) (RetrieveSnapshotObject (p_heap s) val) None (\<lambda>a h1.
              (Some (case mem h1 a of Some ob \<Rightarrow> if m_Native ob then Some a else None | None \<Rightarrow> None), h1)) of
        (None, h1) \<Rightarrow> (False, s\<lparr>p_heap := delete_bounds (p_bounds s) h1, p_bounds := no_bounds\<rparr>)
      | (Some snap, h1) \<Rightarrow> (True, s\<lparr>p_heap := h1, p_opts := (p_opts s)\<lparr>snapshot := snap\<rparr>\<rparr>))"

definition parse_itr_option :: "eterm \<Rightarrow> itr_parse \<Rightarrow> bool \<times> itr_parse" where
  "parse_itr_option head s =
     (case enif_get_tuple head of
        Some [name, val] \<Rightarrow>
          let b = (val = EAtom ''true''); opts = p_opts s
          in if name = EAtom ''verify_checksums'' then (True, s\<lparr>p_opts := opts\<lparr>verify_checksums := b\<rparr>\<rparr>)
             else if name = EAtom ''fill_cache'' then (True, s\<lparr>p_opts := opts\<lparr>fill_cache := b\<rparr>\<rparr>)
             else if name = EAtom ''iterate_upper_bound'' then parse_upper_bound val s
             else if name = EAtom ''iterate_lower_bound'' then parse_lower_bound val s
             else if name = EAtom ''tailing'' then (True, s\<lparr>p_opts := opts\<lparr>tailing := b\<rparr>\<rparr>)
             else if name = EAtom ''total_order_seek'' then (True, s\<lparr>p_opts := opts\<lparr>total_order_seek := b\<rparr>\<rparr>)
             else if name = EAtom ''prefix_same_as_start''
             then (True, s\<lparr>p_opts := opts\<lparr>prefix_same_as_start := b\<rparr>\<rparr>)
             else if name = EAtom ''snapshot'' then parse_snapshot val s
             else if name = EAtom ''auto_refresh_iterator_with_snapshot''
             then (True, s\<lparr>p_opts := opts\<lparr>auto_refresh_iterator_with_snapshot := b\<rparr>\<rparr>)
             else if name = EAtom ''auto_readahead_size'' then (True, s\<lparr>p_opts := opts\<lparr>auto_readahead_size := b\<rparr>\<rparr>)
             else if name = EAtom ''allow_unprepared_value''
             then (True, s\<lparr>p_opts := opts\<lparr>allow_unprepared_value := b\<rparr>\<rparr>)
             else if name = EAtom ''readahead_size'' then
               (True, case enif_get_uint64 val of
                        None \<Rightarrow> s | Some n \<Rightarrow> s\<lparr>p_opts := opts\<lparr>readahead_size := n\<rparr>\<rparr>)
             else if name = EAtom ''async_io'' then (True, s\<lparr>p_opts := opts\<lparr>async_io := b\<rparr>\<rparr>)
             else (True, s)
      | _ \<Rightarrow> (True, s))"

fun parse_itr_cells :: "eterm list \<Rightarrow> itr_parse \<Rightarrow> bool \<times> itr_parse" where
  "parse_itr_cells [] s = (True, s)"
| "parse_itr_cells (head # rest) s =
     (case parse_itr_option head s of (ok, s') \<Rightarrow> if ok then parse_itr_cells rest s' else (False, s'))"

definition parse_iterator_options :: "eterm \<Rightarrow> ref_heap \<Rightarrow> slice_store \<Rightarrow> bool \<times> itr_parse" where
  "parse_iterator_options t h sl =
     (let s = \<lparr>p_heap = h, p_slices = sl, p_opts = ReadOptions_init, p_bounds = no_bounds\<rparr>
      in if \<not> enif_is_list t then (False, s) else parse_itr_cells (list_cells t) s)"

section \<open>RocksDB iterators\<close>

datatype itr_move = SeekToFirst | SeekToLast | Next | Prev | Seek bytes | SeekForPrev bytes

text \<open>A move reads the upper and the lower bound.\<close>

record 'it rocks_itr =
  NewIterator :: "addr \<Rightarrow> read_options \<Rightarrow> cf_arg \<Rightarrow> 'it"
  NewIterators :: "addr \<Rightarrow> read_options \<Rightarrow> cf_arg list \<Rightarrow> 'it list"
  NewCoalescingIterator :: "addr \<Rightarrow> read_options \<Rightarrow> cf_arg list \<Rightarrow> 'it option"
  it_move :: "bytes option \<times> bytes option \<Rightarrow> itr_move \<Rightarrow> 'it \<Rightarrow> 'it"
  it_Valid :: "'it \<Rightarrow> bool"
  it_status :: "'it \<Rightarrow> status"
  it_key :: "'it \<Rightarrow> bytes"
  it_value :: "'it \<Rightarrow> bytes"
  it_columns :: "'it \<Rightarrow> (bytes \<times> bytes) list"
  it_Refresh :: "'it \<Rightarrow> status \<times> 'it"
  it_PrepareValue :: "'it \<Rightarrow> bool \<times> 'it"

text \<open>The iterator \<open>m_Iterator\<close> points to, with the bounds its read options point to.\<close>

record 'it native_itr =
  it_state :: 'it
  upper_ptr :: "nat option"
  lower_ptr :: "nat option"

type_synonym 'it itrs = "addr \<Rightarrow> 'it native_itr option"

definition native_of :: "read_options \<Rightarrow> 'it \<Rightarrow> 'it native_itr" where
  "native_of opts it = \<lparr>it_state = it, upper_ptr = iterate_upper_bound opts, lower_ptr = iterate_lower_bound opts\<rparr>"

definition move_native ::
    "'it rocks_itr \<Rightarrow> ref_heap \<Rightarrow> slice_store \<Rightarrow> itr_move \<Rightarrow> 'it native_itr \<Rightarrow> 'it native_itr outcome" where
  "move_native R h sl m n =
     bind_outcome (read_bound h sl (upper_ptr n)) (\<lambda>u.
       bind_outcome (read_bound h sl (lower_ptr n)) (\<lambda>l.
         Ok (n\<lparr>it_state := it_move R (u, l) m (it_state n)\<rparr>)))"

section \<open>Creating iterators\<close>

definition set_bounds :: "ItrBounds \<Rightarrow> addr \<Rightarrow> ref_heap \<Rightarrow> ref_heap" where
  "set_bounds b a h =
     (let h1 = (case upper_bound b of None \<Rightarrow> h | Some p \<Rightarrow> SetUpperBoundSlice h a p)
      in case lower_bound b of None \<Rightarrow> h1 | Some p \<Rightarrow> SetLowerBoundSlice h1 a p)"

definition create_itr :: "addr \<Rightarrow> ItrBounds \<Rightarrow> 'it native_itr \<Rightarrow> 'it itrs \<Rightarrow> ref_heap \<Rightarrow> addr \<times> 'it itrs \<times> ref_heap" where
  "create_itr db b n its h =
     (let (a, h1) = CreateItrObject h (Some db) in (a, its(a \<mapsto> n), set_bounds b a h1))"

text \<open>The NIF \<open>iterator\<close>; the column family is held while RocksDB creates the iterator.\<close>

definition Iterator ::
    "'it rocks_itr \<Rightarrow> 'it itrs \<Rightarrow> slice_store \<Rightarrow> ref_heap \<Rightarrow> eterm list \<Rightarrow> (nif_result \<times> 'it itrs \<times> slice_store) \<times> ref_heap" where
  "Iterator R its sl h argv =
     with_db h (argv ! 0) (Failed, its, sl) (\<lambda>db h1.
       let i = (if length argv = 3 then 2 else 1)
       in if \<not> enif_is_list (argv ! i) then ((Failed, its, sl), h1)
          else
            case parse_iterator_options (argv ! i) h1 sl of
              (False, s) \<Rightarrow> ((Failed, its, p_slices s), p_heap s)
            | (True, s) \<Rightarrow>
                (case (if length argv = 3
                       then with_cf (p_heap s) (argv ! 1) None (\<lambda>cf h2.
                              (Some (NewIterator R db (p_opts s) (cf_handle h2 cf)), h2))
                       else (Some (NewIterator R db (p_opts s) NoCf), p_heap s)) of
                   (None, h2) \<Rightarrow> ((Failed, its, p_slices s), delete_bounds (p_bounds s) h2)
                 | (Some iterator, h2) \<Rightarrow>
                     (case create_itr db (p_bounds s) (native_of (p_opts s) iterator) its h2 of
                        (a, its1, h3) \<Rightarrow> ((Ok (ok_tuple (ERef a)), its1, p_slices s), h3))))"

text \<open>The column families of a list argument; the first that is refused ends the loop.\<close>

fun collect_cfs :: "eterm list \<Rightarrow> ref_heap \<Rightarrow> cf_arg list option \<times> ref_heap" where
  "collect_cfs [] h = (Some [], h)"
| "collect_cfs (head # rest) h =
     (case with_retrieved h (RetrieveColumnFamilyObject h head) None (\<lambda>cf h1. (Some (cf_handle h1 cf), h1)) of
        (None, h1) \<Rightarrow> (None, h1)
      | (Some cfh, h1) \<Rightarrow>
          (case collect_cfs rest h1 of
             (None, h2) \<Rightarrow> (None, h2)
           | (Some cfhs, h2) \<Rightarrow> (Some (cfh # cfhs), h2)))"

text \<open>\<open>Iterators\<close> gives every iterator its own copy of the bounds, but RocksDB got the originals.\<close>

definition clone_slice :: "nat option \<Rightarrow> ref_heap \<Rightarrow> slice_store \<Rightarrow> (nat option \<times> slice_store) outcome" where
  "clone_slice p h sl =
     (case p of
        None \<Rightarrow> Ok (None, sl)
      | Some q \<Rightarrow> bind_outcome (read_slice h sl q) (\<lambda>b. let (r, sl1) = new_slice sl b in Ok (Some r, sl1)))"

fun create_itrs ::
    "addr \<Rightarrow> read_options \<Rightarrow> ItrBounds \<Rightarrow> 'it list \<Rightarrow> 'it itrs \<Rightarrow> slice_store \<Rightarrow> ref_heap \<Rightarrow>
       (addr list \<times> 'it itrs \<times> slice_store \<times> ref_heap) outcome" where
  "create_itrs db opts b [] its sl h = Ok ([], its, sl, h)"
| "create_itrs db opts b (it # rest) its sl h =
     bind_outcome (clone_slice (upper_bound b) h sl) (\<lambda>(u, sl1).
       bind_outcome (clone_slice (lower_bound b) h sl1) (\<lambda>(l, sl2).
         case create_itr db \<lparr>upper_bound = u, lower_bound = l\<rparr> (native_of opts it) its h of
           (a, its1, h1) \<Rightarrow>
             bind_outcome (create_itrs db opts b rest its1 sl2 h1) (\<lambda>(as, its2, sl3, h2).
               Ok (a # as, its2, sl3, h2))))"

definition Iterators ::
    "'it rocks_itr \<Rightarrow> 'it itrs \<Rightarrow> slice_store \<Rightarrow> ref_heap \<Rightarrow> eterm list \<Rightarrow> (nif_result \<times> 'it itrs \<times> slice_store) \<times> ref_heap" where
  "Iterators R its sl h argv =
     with_db h (argv ! 0) (Failed, its, sl) (\<lambda>db h1.
       if \<not> enif_is_list (argv ! 1) \<or> \<not> enif_is_list (argv ! 2) then ((Failed, its, sl), h1)
       else
         case parse_iterator_options (argv ! 2) h1 sl of
           (False, s) \<Rightarrow> ((Failed, its, p_slices s), p_heap s)
         | (True, s) \<Rightarrow>
             (case collect_cfs (list_cells (argv ! 1)) (p_heap s) of
                (None, h2) \<Rightarrow> ((Failed, its, p_slices s), delete_bounds (p_bounds s) h2)
              | (Some column_families, h2) \<Rightarrow>
                  (case create_itrs db (p_opts s) (p_bounds s) (NewIterators R db (p_opts s) column_families)
                          its (p_slices s) h2 of
                     Ok (as, its1, sl1, h3) \<Rightarrow>
                       ((Ok (ok_tuple (enif_make_list (map ERef as))), its1, sl1), delete_bounds (p_bounds s) h3)
                   | _ \<Rightarrow> ((Undef, its, p_slices s), h2))))"

definition CoalescingIterator ::
    "'it rocks_itr \<Rightarrow> 'it itrs \<Rightarrow> slice_store \<Rightarrow> ref_heap \<Rightarrow> eterm list \<Rightarrow> (nif_result \<times> 'it itrs \<times> slice_store) \<times> ref_heap" where
  "CoalescingIterator R its sl h argv =
     with_db h (argv ! 0) (Failed, its, sl) (\<lambda>db h1.
       if \<not> enif_is_list (argv ! 1) \<or> \<not> enif_is_list (argv ! 2) then ((Failed, its, sl), h1)
       else
         case parse_iterator_options (argv ! 2) h1 sl of
           (False, s) \<Rightarrow> ((Failed, its, p_slices s), delete_bounds (p_bounds s) (p_heap s))
         | (True, s) \<Rightarrow>
             (case collect_cfs (list_cells (argv ! 1)) (p_heap s) of
                (None, h2) \<Rightarrow> ((Failed, its, p_slices s), delete_bounds (p_bounds s) h2)
              | (Some column_families, h2) \<Rightarrow>
                  (case NewCoalescingIterator R db (p_opts s) column_families of
                     None \<Rightarrow>
                       ((Ok (error_tuple (EAtom ''error'')
                           \<lparr>code = kOther, ToString = ''Not implemented: CoalescingIterator not available''\<rparr>),
                         its, p_slices s), delete_bounds (p_bounds s) h2)
                   | Some it \<Rightarrow>
                       (case create_itr db (p_bounds s) (native_of (p_opts s) it) its h2 of
                          (a, its1, h3) \<Rightarrow> ((Ok (ok_tuple (ERef a)), its1, p_slices s), h3)))))"

section \<open>Using an iterator\<close>

text \<open>\<open>itr_ptr.assign(RetrieveItrObject(env, ref)); if (NULL == itr_ptr.get()) return badarg;\<close>\<close>

definition with_itr ::
    "ref_heap \<Rightarrow> 'it itrs \<Rightarrow> eterm \<Rightarrow> (addr \<Rightarrow> 'it native_itr \<Rightarrow> ref_heap \<Rightarrow> nif_result \<times> 'it itrs) \<Rightarrow>
       (nif_result \<times> 'it itrs) \<times> ref_heap" where
  "with_itr h its t f =
     (case RetrieveItrObject h t False of
        Ok found \<Rightarrow>
          with_retrieved h found (Failed, its) (\<lambda>a h1.
            (case its a of None \<Rightarrow> (Undef, its) | Some n \<Rightarrow> f a n h1, h1))
      | _ \<Rightarrow> ((Undef, its), h))"

definition current_entry :: "'it rocks_itr \<Rightarrow> addr \<Rightarrow> 'it native_itr \<Rightarrow> 'it itrs \<Rightarrow> nif_result \<times> 'it itrs" where
  "current_entry R a n its =
     (if \<not> it_Valid R (it_state n) then Ok invalid_iterator
      else if \<not> status_ok (it_status R (it_state n))
      then Ok (error_tuple (EAtom ''error'') (it_status R (it_state n)))
      else Ok (ETuple [EAtom ''ok'', slice_to_binary (it_key R (it_state n)), slice_to_binary (it_value R (it_state n))]),
      its(a \<mapsto> n))"

definition move_then ::
    "'it rocks_itr \<Rightarrow> ref_heap \<Rightarrow> slice_store \<Rightarrow> bool \<Rightarrow> itr_move \<Rightarrow> 'it native_itr \<Rightarrow> 'it itrs \<Rightarrow>
       ('it native_itr \<Rightarrow> nif_result \<times> 'it itrs) \<Rightarrow> nif_result \<times> 'it itrs" where
  "move_then R h sl wanted m n its k =
     (if wanted then (case move_native R h sl m n of Ok n1 \<Rightarrow> k n1 | _ \<Rightarrow> (Undef, its)) else k n)"

definition IteratorMove ::
    "'it rocks_itr \<Rightarrow> slice_store \<Rightarrow> 'it itrs \<Rightarrow> ref_heap \<Rightarrow> eterm list \<Rightarrow> (nif_result \<times> 'it itrs) \<times> ref_heap" where
  "IteratorMove R sl its h argv =
     with_itr h its (argv ! 0) (\<lambda>a n h1.
       let action = argv ! 1
       in if enif_is_atom action then
            move_then R h1 sl (action = EAtom ''first'') SeekToFirst n its (\<lambda>n1.
              move_then R h1 sl (action = EAtom ''last'') SeekToLast n1 its (\<lambda>n2.
                if \<not> it_Valid R (it_state n2) then (Ok invalid_iterator, its(a \<mapsto> n2))
                else
                  move_then R h1 sl (action = EAtom ''next'') Next n2 its (\<lambda>n3.
                    move_then R h1 sl (action = EAtom ''prev'') Prev n3 its (\<lambda>n4. current_entry R a n4 its))))
          else if enif_is_tuple action then
            (case enif_get_tuple action of
               Some [tag, target] \<Rightarrow>
                 if tag = EAtom ''seek_for_prev'' then
                   (case binary_to_slice target of
                      None \<Rightarrow> (Ok error_einval, its)
                    | Some key \<Rightarrow> move_then R h1 sl True (SeekForPrev key) n its (\<lambda>n1. current_entry R a n1 its))
                 else if tag = EAtom ''seek'' then
                   (case binary_to_slice target of
                      None \<Rightarrow> (Ok error_einval, its)
                    | Some key \<Rightarrow> move_then R h1 sl True (Seek key) n its (\<lambda>n1. current_entry R a n1 its))
                 else (Failed, its)
             | _ \<Rightarrow> (Failed, its))
          else
            (case binary_to_slice action of
               None \<Rightarrow> (Ok error_einval, its)
             | Some key \<Rightarrow> move_then R h1 sl True (Seek key) n its (\<lambda>n1. current_entry R a n1 its)))"

definition IteratorRefresh ::
    "'it rocks_itr \<Rightarrow> 'it itrs \<Rightarrow> ref_heap \<Rightarrow> eterm list \<Rightarrow> (nif_result \<times> 'it itrs) \<times> ref_heap" where
  "IteratorRefresh R its h argv =
     with_itr h its (argv ! 0) (\<lambda>a n h1.
       case it_Refresh R (it_state n) of
         (st, it) \<Rightarrow> (Ok (status_result st), its(a \<mapsto> n\<lparr>it_state := it\<rparr>)))"

definition IteratorPrepareValue ::
    "'it rocks_itr \<Rightarrow> 'it itrs \<Rightarrow> ref_heap \<Rightarrow> eterm list \<Rightarrow> (nif_result \<times> 'it itrs) \<times> ref_heap" where
  "IteratorPrepareValue R its h argv =
     with_itr h its (argv ! 0) (\<lambda>a n h1.
       if \<not> it_Valid R (it_state n) then (Ok invalid_iterator, its)
       else
         case it_PrepareValue R (it_state n) of
           (True, it) \<Rightarrow> (Ok e_ok, its(a \<mapsto> n\<lparr>it_state := it\<rparr>))
         | (False, it) \<Rightarrow> (Ok (error_tuple (EAtom ''error'') (it_status R it)), its(a \<mapsto> n\<lparr>it_state := it\<rparr>)))"

definition IteratorColumns ::
    "'it rocks_itr \<Rightarrow> 'it itrs \<Rightarrow> ref_heap \<Rightarrow> eterm list \<Rightarrow> (nif_result \<times> 'it itrs) \<times> ref_heap" where
  "IteratorColumns R its h argv =
     with_itr h its (argv ! 0) (\<lambda>a n h1.
       if \<not> it_Valid R (it_state n) then (Ok invalid_iterator, its)
       else if \<not> status_ok (it_status R (it_state n))
       then (Ok (error_tuple (EAtom ''error'') (it_status R (it_state n))), its)
       else
         (Ok (ok_tuple (enif_make_list
            (map (\<lambda>(name, value). ETuple [EBin name, EBin value]) (it_columns R (it_state n))))), its))"

section \<open>What RocksDB promises\<close>

text \<open>The entries between the bounds; keys are compared byte by byte.\<close>

definition within :: "bytes option \<times> bytes option \<Rightarrow> bytes \<times> bytes \<Rightarrow> bool" where
  "within b e \<longleftrightarrow>
     (case fst b of None \<Rightarrow> True | Some u \<Rightarrow> fst e < u) \<and> (case snd b of None \<Rightarrow> True | Some l \<Rightarrow> l \<le> fst e)"

text \<open>
  \<open>entries it\<close> are the entries of the iterator's view in key order; \<open>ahead b fwd it\<close> those
  that moves in one direction will still deliver, the current one first. The laws say
  where each move puts the iterator.
\<close>

definition itr_laws ::
    "'it rocks_itr \<Rightarrow> ('it \<Rightarrow> (bytes \<times> bytes) list) \<Rightarrow> (bytes option \<times> bytes option \<Rightarrow> bool \<Rightarrow> 'it \<Rightarrow> (bytes \<times> bytes) list) \<Rightarrow> bool" where
  "itr_laws R entries ahead \<longleftrightarrow>
     (\<forall>b fwd it. it_Valid R it \<longleftrightarrow> ahead b fwd it \<noteq> []) \<and>
     (\<forall>it. it_Valid R it \<longrightarrow> status_ok (it_status R it)) \<and>
     (\<forall>b fwd it. it_Valid R it \<longrightarrow> (it_key R it, it_value R it) = hd (ahead b fwd it)) \<and>
     (\<forall>b m it. entries (it_move R b m it) = entries it) \<and>
     (\<forall>b it. ahead b True (it_move R b SeekToFirst it) = filter (within b) (entries it)) \<and>
     (\<forall>b it. ahead b False (it_move R b SeekToLast it) = rev (filter (within b) (entries it))) \<and>
     (\<forall>b it k. ahead b True (it_move R b (Seek k) it) =
        dropWhile (\<lambda>e. fst e < k) (filter (within b) (entries it))) \<and>
     (\<forall>b it k. ahead b False (it_move R b (SeekForPrev k) it) =
        dropWhile (\<lambda>e. k < fst e) (rev (filter (within b) (entries it)))) \<and>
     (\<forall>b it. it_Valid R it \<longrightarrow> ahead b True (it_move R b Next it) = tl (ahead b True it)) \<and>
     (\<forall>b it. it_Valid R it \<longrightarrow> ahead b False (it_move R b Prev it) = tl (ahead b False it))"

lemma itr_lawsD:
  assumes "itr_laws R entries ahead"
  shows "it_Valid R it \<longleftrightarrow> ahead b fwd it \<noteq> []"
    "it_Valid R it \<Longrightarrow> status_ok (it_status R it)"
    "it_Valid R it \<Longrightarrow> (it_key R it, it_value R it) = hd (ahead b fwd it)"
    "entries (it_move R b m it) = entries it"
    "ahead b True (it_move R b SeekToFirst it) = filter (within b) (entries it)"
    "ahead b False (it_move R b SeekToLast it) = rev (filter (within b) (entries it))"
    "ahead b True (it_move R b (Seek k) it) = dropWhile (\<lambda>e. fst e < k) (filter (within b) (entries it))"
    "ahead b False (it_move R b (SeekForPrev k) it) =
       dropWhile (\<lambda>e. k < fst e) (rev (filter (within b) (entries it)))"
    "it_Valid R it \<Longrightarrow> ahead b True (it_move R b Next it) = tl (ahead b True it)"
    "it_Valid R it \<Longrightarrow> ahead b False (it_move R b Prev it) = tl (ahead b False it)"
  using assms unfolding itr_laws_def by (simp_all del: split_paired_All)

section \<open>Open iterators\<close>

definition itr_open :: "ref_heap \<Rightarrow> addr \<Rightarrow> bool" where
  "itr_open h a \<longleftrightarrow> (\<exists>ob d db. mem h a = Some ob \<and> kind ob = ItrObject \<and> m_CloseRequested ob = 0 \<and>
     m_DbPtr ob = Some d \<and> mem h d = Some db \<and> m_CloseRequested db = 0)"

lemma RefInc_log [simp]: "log (RefInc h a) = log h"
  by (simp add: RefInc_def with_live_def with_obj_def put_obj_def split: option.split)

lemma with_itr_open:
  assumes "itr_open h a" "its a = Some n" "\<And>h1. log h1 = log h \<Longrightarrow> f a n h1 = r"
  shows "with_itr h its (ERef a) f = (r, h)"
proof -
  obtain ob d db where ob: "mem h a = Some ob" "kind ob = ItrObject" "m_CloseRequested ob = 0"
      "m_DbPtr ob = Some d" "mem h d = Some db" "m_CloseRequested db = 0"
    using assms(1) by (auto simp: itr_open_def)
  then have "RetrieveItrObject h (ERef a) False = Ok (Some a)"
    by (simp add: RetrieveItrObject_def)
  with ob show ?thesis
    by (simp add: with_itr_def with_retrieved_def in_scope_def ReferencePtr_assign_def ReferencePtr_drop_def
        RefDec_RefInc assms(2,3))
qed

text \<open>The bounds an iterator reads.\<close>

definition bounds_are :: "ref_heap \<Rightarrow> slice_store \<Rightarrow> 'it native_itr \<Rightarrow> bytes option \<times> bytes option \<Rightarrow> bool" where
  "bounds_are h sl n b \<longleftrightarrow>
     read_bound h sl (upper_ptr n) = Ok (fst b) \<and> read_bound h sl (lower_ptr n) = Ok (snd b)"

lemma read_bound_log: "log h1 = log h \<Longrightarrow> read_bound h1 sl p = read_bound h sl p"
  by (simp add: read_bound_def read_slice_def split: option.split)

lemma move_native_reads:
  assumes "bounds_are h sl n b" "log h1 = log h"
  shows "move_native R h1 sl m n = Ok (n\<lparr>it_state := it_move R b m (it_state n)\<rparr>)"
  using assms by (simp add: move_native_def bounds_are_def read_bound_log [OF assms(2)])

lemma bounds_are_state [simp]: "bounds_are h sl (n\<lparr>it_state := it\<rparr>) b = bounds_are h sl n b"
  by (simp add: bounds_are_def)

section \<open>Walking an iterator\<close>

text \<open>Where an action starts, the direction of the walk that follows, and the entries it should deliver.\<close>

fun walk_from :: "(bytes \<times> bytes) list \<Rightarrow> eterm \<Rightarrow> (bool \<times> itr_move \<times> (bytes \<times> bytes) list) option" where
  "walk_from es (EAtom x) =
     (if x = ''first'' then Some (True, SeekToFirst, es)
      else if x = ''last'' then Some (False, SeekToLast, rev es)
      else None)"
| "walk_from es (EBin k) = Some (True, Seek k, dropWhile (\<lambda>e. fst e < k) es)"
| "walk_from es (ETuple [EAtom x, EBin k]) =
     (if x = ''seek'' then Some (True, Seek k, dropWhile (\<lambda>e. fst e < k) es)
      else if x = ''seek_for_prev'' then Some (False, SeekForPrev k, dropWhile (\<lambda>e. k < fst e) (rev es))
      else None)"
| "walk_from es _ = None"

definition step_action :: "bool \<Rightarrow> eterm" where
  "step_action fwd = EAtom (if fwd then ''next'' else ''prev'')"

text \<open>The loop of a program that moves an iterator until it gets no entry; \<open>n\<close> bounds the moves.\<close>

fun walk ::
    "'it rocks_itr \<Rightarrow> slice_store \<Rightarrow> addr \<Rightarrow> eterm \<Rightarrow> nat \<Rightarrow> eterm \<Rightarrow> 'it itrs \<Rightarrow> ref_heap \<Rightarrow>
       (bytes \<times> bytes) list \<times> nif_result option" where
  "walk R sl a again 0 action its h = ([], None)"
| "walk R sl a again (Suc n) action its h =
     (case IteratorMove R sl its h [ERef a, action] of
        ((Ok (ETuple [EAtom tag, EBin k, EBin v]), its1), h1) \<Rightarrow>
          (case walk R sl a again n again its1 h1 of (es, r) \<Rightarrow> ((k, v) # es, r))
      | ((r, its1), h1) \<Rightarrow> ([], Some r))"

lemma current_entry_ahead:
  assumes "itr_laws R entries ahead"
  shows "current_entry R a n its =
    (case ahead b fwd (it_state n) of
       [] \<Rightarrow> Ok invalid_iterator
     | e # es \<Rightarrow> Ok (ETuple [EAtom ''ok'', EBin (fst e), EBin (snd e)]), its(a \<mapsto> n))"
proof (cases "ahead b fwd (it_state n)")
  case Nil
  then show ?thesis
    using itr_lawsD(1) [OF assms, of "it_state n" b fwd] by (simp add: current_entry_def)
next
  case (Cons e es)
  then have valid: "it_Valid R (it_state n)"
    using itr_lawsD(1) [OF assms, of "it_state n" b fwd] by simp
  moreover have "(it_key R (it_state n), it_value R (it_state n)) = e"
    using itr_lawsD(3) [OF assms valid, of b fwd] Cons by simp
  ultimately show ?thesis
    using itr_lawsD(2) [OF assms valid] Cons by (auto simp: current_entry_def slice_to_binary_def)
qed

lemma move_start:
  assumes laws: "itr_laws R entries ahead" and "itr_open h a" "its a = Some n" "bounds_are h sl n b"
    and "walk_from (filter (within b) (entries (it_state n))) action = Some (fwd, m, es)"
  shows "\<exists>n'. IteratorMove R sl its h [ERef a, action] = (current_entry R a n' its, h) \<and>
    ahead b fwd (it_state n') = es \<and> bounds_are h sl n' b"
proof -
  let ?n = "n\<lparr>it_state := it_move R b m (it_state n)\<rparr>"
  note moved = move_native_reads [OF assms(4)]
  have ahead: "ahead b fwd (it_move R b m (it_state n)) = es"
    using assms(5) itr_lawsD(5-8) [OF laws, of b]
    by (cases "(filter (within b) (entries (it_state n)), action)" rule: walk_from.cases) (auto split: if_splits)
  have invalid: "current_entry R a ?n its = (Ok invalid_iterator, its(a \<mapsto> ?n))"
    if "\<not> it_Valid R (it_move R b m (it_state n))"
    using that by (simp add: current_entry_def)
  have "IteratorMove R sl its h [ERef a, action] = (current_entry R a ?n its, h)"
    unfolding IteratorMove_def
    by (simp only: nth_Cons_0, rule with_itr_open [of h a its n, OF assms(2,3)])
      (use assms(5) invalid in \<open>cases "(filter (within b) (entries (it_state n)), action)" rule: walk_from.cases;
        auto simp: move_then_def moved binary_to_slice_def Let_def split: if_splits\<close>)
  with ahead assms(4) show ?thesis
    by (intro exI [of _ ?n]) simp
qed

lemma move_step:
  assumes laws: "itr_laws R entries ahead" and "itr_open h a" "its a = Some n" "bounds_are h sl n b"
    and "ahead b fwd (it_state n) = e # es"
  shows "\<exists>n'. IteratorMove R sl its h [ERef a, step_action fwd] = (current_entry R a n' its, h) \<and>
    ahead b fwd (it_state n') = es \<and> bounds_are h sl n' b"
proof -
  let ?m = "if fwd then Next else Prev"
  let ?n = "n\<lparr>it_state := it_move R b ?m (it_state n)\<rparr>"
  have valid: "it_Valid R (it_state n)"
    using assms(5) itr_lawsD(1) [OF laws, of "it_state n" b fwd] by simp
  have "IteratorMove R sl its h [ERef a, step_action fwd] = (current_entry R a ?n its, h)"
    unfolding IteratorMove_def
    by (simp only: nth_Cons_0, rule with_itr_open [of h a its n, OF assms(2,3)])
      (simp add: step_action_def move_then_def move_native_reads [OF assms(4)] valid)
  moreover have "ahead b fwd (it_state ?n) = es"
    using itr_lawsD(9,10) [OF laws valid, of b] assms(5) by auto
  ultimately show ?thesis
    using assms(4) by (intro exI [of _ ?n]) simp
qed

lemma walk_rest:
  assumes laws: "itr_laws R entries ahead" and "itr_open h a"
  shows "its a = Some n \<Longrightarrow> bounds_are h sl n b \<Longrightarrow> ahead b fwd (it_state n) = e # es \<Longrightarrow> length es < k \<Longrightarrow>
    walk R sl a (step_action fwd) k (step_action fwd) its h = (es, Some (Ok invalid_iterator))"
proof (induction es arbitrary: its n e k)
  case Nil
  then obtain n' where "IteratorMove R sl its h [ERef a, step_action fwd] = (current_entry R a n' its, h)"
      "ahead b fwd (it_state n') = []"
    using move_step [OF laws assms(2), of its n sl b fwd e "[]"] by auto
  with Nil.prems(4) show ?case
    by (cases k) (simp_all add: current_entry_ahead [OF laws, of a n' its b fwd] invalid_iterator_def)
next
  case (Cons e' es)
  then obtain n' where n': "IteratorMove R sl its h [ERef a, step_action fwd] = (current_entry R a n' its, h)"
      "ahead b fwd (it_state n') = e' # es" "bounds_are h sl n' b"
    using move_step [OF laws assms(2), of its n sl b fwd e "e' # es"] by auto
  obtain k' where k: "k = Suc k'" "length es < k'"
    using Cons.prems(4) by (cases k) auto
  have "walk R sl a (step_action fwd) k' (step_action fwd) (its(a \<mapsto> n')) h = (es, Some (Ok invalid_iterator))"
    by (rule Cons.IH [of _ n' e']) (use n' k in simp_all)
  then show ?case
    by (simp add: k(1) n' current_entry_ahead [OF laws, of a n' its b fwd])
qed

lemma walk_delivers:
  assumes laws: "itr_laws R entries ahead" and "itr_open h a" "its a = Some n" "bounds_are h sl n b"
    and "walk_from (filter (within b) (entries (it_state n))) action = Some (fwd, m, es)" "length es < k"
  shows "walk R sl a (step_action fwd) k action its h = (es, Some (Ok invalid_iterator))"
proof -
  obtain n' where n': "IteratorMove R sl its h [ERef a, action] = (current_entry R a n' its, h)"
      "ahead b fwd (it_state n') = es" "bounds_are h sl n' b"
    using move_start [OF laws assms(2), of its n sl b action fwd m es] assms(3-5) by auto
  obtain k' where k: "k = Suc k'"
    using assms(6) by (cases k) auto
  show ?thesis
  proof (cases es)
    case Nil
    then show ?thesis
      using n' by (simp add: k current_entry_ahead [OF laws, of a n' its b fwd] invalid_iterator_def)
  next
    case (Cons e es')
    have "walk R sl a (step_action fwd) k' (step_action fwd) (its(a \<mapsto> n')) h = (es', Some (Ok invalid_iterator))"
      by (rule walk_rest [OF laws assms(2), of _ n' sl b fwd e]) (use n' k Cons assms(6) in simp_all)
    then show ?thesis
      using n' Cons by (simp add: k current_entry_ahead [OF laws, of a n' its b fwd])
  qed
qed

section \<open>What creation leaves\<close>

definition fresh_slices :: "ref_heap \<Rightarrow> slice_store \<Rightarrow> bool" where
  "fresh_slices h sl \<longleftrightarrow> (\<forall>p. next_slice sl \<le> p \<longrightarrow> DeleteSlice p \<notin> set (log h))"

lemma create_itr_open:
  assumes "mem h d = Some ob" "m_CloseRequested ob = 0" "mem h (next_addr h) = None"
    and "create_itr d b n its h = (a, its1, h1)"
  shows "a = next_addr h \<and> its1 = its(a \<mapsto> n) \<and> log h1 = log h \<and>
    (\<exists>db. mem h1 d = Some db \<and> m_CloseRequested db = 0 \<and> kind db = kind ob) \<and>
    (\<exists>it. mem h1 a = Some it \<and> kind it = ItrObject \<and> m_CloseRequested it = 0 \<and> m_DbPtr it = Some d \<and>
      upper_bound_slice it = upper_bound b \<and> lower_bound_slice it = lower_bound b)"
proof -
  have "d \<noteq> next_addr h"
    using assms(1,3) by auto
  then show ?thesis
    using assms
    by (auto simp: create_itr_def CreateItrObject_def create_child_def enif_alloc_resource_def new_object_def
        ItrObject_ctor_def ReferencePtr_ctor_def add_to_db_def AddReference_def RefInc_def with_live_def with_obj_def
        put_obj_def set_bounds_def SetUpperBoundSlice_def SetLowerBoundSlice_def Let_def split: option.splits)
qed

text \<open>The option list of a scan between two optional bounds.\<close>

definition bound_options :: "bytes option \<Rightarrow> bytes option \<Rightarrow> eterm" where
  "bound_options u l = enif_make_list
     ((case l of None \<Rightarrow> [] | Some b \<Rightarrow> [ETuple [EAtom ''iterate_lower_bound'', EBin b]]) @
      (case u of None \<Rightarrow> [] | Some b \<Rightarrow> [ETuple [EAtom ''iterate_upper_bound'', EBin b]]))"

lemma parse_bound_options:
  assumes "fresh_slices h sl" "parse_iterator_options (bound_options u l) h sl = (ok, s)"
  shows "ok \<and> p_heap s = h \<and> bounds_are h (p_slices s) (native_of (p_opts s) it) (u, l) \<and>
    iterate_upper_bound (p_opts s) = upper_bound (p_bounds s) \<and> iterate_lower_bound (p_opts s) = lower_bound (p_bounds s)"
proof -
  have "DeleteSlice (next_slice sl) \<notin> set (log h)" "DeleteSlice (Suc (next_slice sl)) \<notin> set (log h)"
    using assms(1) by (auto simp: fresh_slices_def)
  then show ?thesis
    using assms(2)
    by (cases u; cases l)
      (auto simp: bound_options_def parse_iterator_options_def parse_itr_option_def parse_upper_bound_def
        parse_lower_bound_def new_slice_def no_bounds_def ReadOptions_init_def bounds_are_def read_bound_def
        read_slice_def native_of_def Let_def)
qed

text \<open>A call on an open database that creates something: the database is released at the end.\<close>

lemma with_db_creates:
  assumes "db_open h d" "f d (RefInc h d) = (r, h1)" "mem h1 d = Some db" "m_CloseRequested db = 0"
  shows "with_db h (ERef d) bad f = (r, put_obj h1 d (db\<lparr>m_RefCount := m_RefCount db - 1\<rparr>))"
proof -
  obtain ob where ob: "mem h d = Some ob" "kind ob = DbObject" "m_CloseRequested ob = 0" "m_Native ob"
    using assms(1) by (auto simp: db_open_def split: option.splits)
  have "RefDec h1 d = put_obj h1 d (db\<lparr>m_RefCount := m_RefCount db - 1\<rparr>)"
    by (rule RefDec_keep) (use assms(3,4) in simp_all)
  with ob show ?thesis
    by (simp add: scope_defs in_scope_def RetrieveDbObject_def Retrieve_def ReferencePtr_assign_def
        ReferencePtr_drop_def assms(2) RefInc_open)
qed

lemma RefInc_fresh [simp]:
  "next_addr (RefInc h d) = next_addr h" "mem h a = None \<Longrightarrow> mem (RefInc h d) a = None"
  by (auto simp: RefInc_def with_live_def with_obj_def put_obj_def split: option.splits)

lemma Iterator_creates:
  assumes "db_open h d" "mem h (next_addr h) = None" "fresh_slices h sl"
  shows "\<exists>its1 sl1 h1 opts. Iterator R its sl h [ERef d, bound_options u l] =
      ((Ok (ok_tuple (ERef (next_addr h))), its1, sl1), h1) \<and>
    its1 (next_addr h) = Some (native_of opts (NewIterator R d opts NoCf)) \<and> itr_open h1 (next_addr h) \<and>
    bounds_are h1 sl1 (native_of opts (NewIterator R d opts NoCf)) (u, l) \<and>
    (\<exists>it. mem h1 (next_addr h) = Some it \<and> upper_bound_slice it = iterate_upper_bound opts \<and>
      lower_bound_slice it = iterate_lower_bound opts)"
proof -
  let ?h = "RefInc h d" and ?a = "next_addr h"
  obtain ob where ob: "mem h d = Some ob" "m_CloseRequested ob = 0"
    using assms(1) by (auto simp: db_open_def split: option.splits)
  obtain ok s where s: "parse_iterator_options (bound_options u l) ?h sl = (ok, s)"
    by fastforce
  have "fresh_slices ?h sl"
    using assms(3) by (simp add: fresh_slices_def)
  note parsed = parse_bound_options [OF this s, of "NewIterator R d (p_opts s) NoCf"]
  let ?n = "native_of (p_opts s) (NewIterator R d (p_opts s) NoCf)"
  obtain a its1 h1 where made: "create_itr d (p_bounds s) ?n its ?h = (a, its1, h1)"
    by (metis prod_cases3)
  have "mem ?h (next_addr ?h) = None"
    using assms(2) by simp
  from create_itr_open [OF RefInc_open [OF ob] _ this made] ob obtain db it where made':
      "a = ?a" "its1 = its(?a \<mapsto> ?n)" "log h1 = log h" "mem h1 d = Some db" "m_CloseRequested db = 0"
      "mem h1 ?a = Some it" "kind it = ItrObject" "m_CloseRequested it = 0" "m_DbPtr it = Some d"
      "upper_bound_slice it = upper_bound (p_bounds s)" "lower_bound_slice it = lower_bound (p_bounds s)"
    by auto
  let ?h2 = "put_obj h1 d (db\<lparr>m_RefCount := m_RefCount db - 1\<rparr>)"
  have "d \<noteq> ?a"
    using ob assms(2) by auto
  have "enif_is_list (bound_options u l)"
    by (simp add: bound_options_def)
  then have "Iterator R its sl h [ERef d, bound_options u l] = ((Ok (ok_tuple (ERef ?a)), its1, p_slices s), ?h2)"
    unfolding Iterator_def nth_Cons_0
    by (intro with_db_creates [OF assms(1) _ made'(4,5)]) (use parsed s made made'(1) in \<open>simp add: Let_def\<close>)
  moreover have "itr_open ?h2 ?a" "mem ?h2 ?a = Some it"
    using made' \<open>d \<noteq> ?a\<close> by (auto simp: itr_open_def put_obj_def)
  moreover have "bounds_are ?h2 (p_slices s) ?n (u, l)"
    using parsed made'(3) by (simp add: bounds_are_def read_bound_log [of ?h2 ?h])
  ultimately show ?thesis
    using made' parsed by (intro exI [of _ its1] exI [of _ "p_slices s"] exI [of _ ?h2] exI [of _ "p_opts s"]) simp
qed

text \<open>Creating an iterator touches the new object and its database only.\<close>

lemma create_itr_frame:
  assumes "mem h d = Some ob" "m_CloseRequested ob = 0" "mem h (next_addr h) = None"
    and "create_itr d b n its h = (a, its1, h1)"
  shows "next_addr h1 = next_addr h + 1 \<and> (\<forall>x. x \<noteq> d \<longrightarrow> x \<noteq> next_addr h \<longrightarrow> mem h1 x = mem h x)"
proof -
  have "d \<noteq> next_addr h"
    using assms(1,3) by auto
  then show ?thesis
    using assms
    by (auto simp: create_itr_def CreateItrObject_def create_child_def enif_alloc_resource_def new_object_def
        ItrObject_ctor_def ReferencePtr_ctor_def add_to_db_def AddReference_def RefInc_def with_live_def with_obj_def
        put_obj_def set_bounds_def SetUpperBoundSlice_def SetLowerBoundSlice_def Let_def split: option.splits)
qed

lemma itr_open_frame:
  assumes "itr_open h a" "a \<noteq> d" "mem h1 a = mem h a" "mem h1 d = Some db" "m_CloseRequested db = 0"
    and "\<And>x. x \<noteq> d \<Longrightarrow> mem h x \<noteq> None \<Longrightarrow> mem h1 x = mem h x"
  shows "itr_open h1 a"
proof -
  obtain ob e eb where ob: "mem h a = Some ob" "kind ob = ItrObject" "m_CloseRequested ob = 0" "m_DbPtr ob = Some e"
      "mem h e = Some eb" "m_CloseRequested eb = 0"
    using assms(1) by (auto simp: itr_open_def)
  then show ?thesis
    using assms(2-6) by (cases "e = d") (auto simp: itr_open_def)
qed

text \<open>
  All the iterators of one call with an upper bound only: they exist, they are open, and
  their read options are those of the call, with the slice the call allocated.
\<close>

lemma create_itrs_open:
  assumes "mem h d = Some ob" "kind ob = DbObject" "m_CloseRequested ob = 0" "\<forall>x. next_addr h \<le> x \<longrightarrow> mem h x = None"
    and "upper_bound b = Some p" "lower_bound b = None" "read_slice h sl p = Ok u" "p < next_slice sl"
  shows "\<exists>as its1 sl1 h1 db. create_itrs d opts b nats its sl h = Ok (as, its1, sl1, h1) \<and> log h1 = log h \<and>
    length as = length nats \<and> mem h1 d = Some db \<and> kind db = DbObject \<and> m_CloseRequested db = 0 \<and>
    (\<forall>x. x \<noteq> d \<longrightarrow> mem h x \<noteq> None \<longrightarrow> mem h1 x = mem h x \<and> its1 x = its x) \<and>
    (\<forall>a \<in> set as. a \<noteq> d \<and> itr_open h1 a \<and> (\<exists>it. its1 a = Some (native_of opts it)))"
  using assms
proof (induction nats arbitrary: its sl h ob)
  case Nil
  then show ?case
    by auto
next
  case (Cons it nats)
  obtain q sl1 where q: "new_slice sl u = (q, sl1)"
    by fastforce
  let ?b = "\<lparr>upper_bound = Some q, lower_bound = None\<rparr>"
  obtain a its1 h1 where made: "create_itr d ?b (native_of opts it) its h = (a, its1, h1)"
    by (metis prod_cases3)
  have free: "mem h (next_addr h) = None"
    using Cons.prems(4) by simp
  obtain db where one: "a = next_addr h" "its1 = its(a \<mapsto> native_of opts it)" "log h1 = log h"
      "mem h1 d = Some db" "m_CloseRequested db = 0" "itr_open h1 a" and kdb: "kind db = DbObject"
    using create_itr_open [OF Cons.prems(1,3) free made] Cons.prems(2) by (auto simp: itr_open_def)
  have frame: "next_addr h1 = next_addr h + 1" "\<And>x. x \<noteq> d \<Longrightarrow> x \<noteq> a \<Longrightarrow> mem h1 x = mem h x"
    using create_itr_frame [OF Cons.prems(1,3) free made] one(1) by auto
  have ne: "a \<noteq> d" "d < next_addr h"
    using free one(1) Cons.prems(1,4) by (metis option.distinct(1), metis not_le option.distinct(1))
  have free1: "\<forall>x. next_addr h1 \<le> x \<longrightarrow> mem h1 x = None"
    using frame ne(2) one(1) Cons.prems(4) by auto
  have read: "read_slice h1 sl1 p = Ok u" "p < next_slice sl1"
    using Cons.prems(7,8) q one(3) by (auto simp: new_slice_def read_slice_def split: if_splits)
  from Cons.IH [OF one(4) kdb one(5) free1 Cons.prems(5,6) read, of its1]
  obtain as its2 sl2 h2 db2 where rest: "create_itrs d opts b nats its1 sl1 h1 = Ok (as, its2, sl2, h2)"
      "log h2 = log h1" "length as = length nats" "mem h2 d = Some db2" "kind db2 = DbObject" "m_CloseRequested db2 = 0"
      and kept: "\<forall>x. x \<noteq> d \<longrightarrow> mem h1 x \<noteq> None \<longrightarrow> mem h2 x = mem h1 x \<and> its2 x = its1 x"
      and new: "\<forall>x \<in> set as. x \<noteq> d \<and> itr_open h2 x \<and> (\<exists>it. its2 x = Some (native_of opts it))"
    by (elim exE conjE) (rule that)
  have open_a: "mem h1 a \<noteq> None"
    using one(6) by (auto simp: itr_open_def)
  have "itr_open h2 a"
    by (rule itr_open_frame [OF one(6) ne(1) _ rest(4,6)]) (use kept ne(1) open_a in auto)
  moreover have "its2 a = Some (native_of opts it)"
    using kept ne(1) open_a one(2) by simp
  ultimately have all: "\<forall>x \<in> set (a # as). x \<noteq> d \<and> itr_open h2 x \<and> (\<exists>it. its2 x = Some (native_of opts it))"
    using new ne(1) by auto
  have run: "create_itrs d opts b (it # nats) its sl h = Ok (a # as, its2, sl2, h2)"
    using Cons.prems(5-7) q made rest(1) by (simp add: clone_slice_def)
  have "mem h2 x = mem h x \<and> its2 x = its x" if "x \<noteq> d" "mem h x \<noteq> None" for x
  proof -
    have "x \<noteq> a"
      using that(2) free one(1) by auto
    then show ?thesis
      using kept frame(2) [OF that(1)] that one(2) by simp
  qed
  then show ?case
    using run rest(2-6) one(3) all
    by (intro exI [of _ "a # as"] exI [of _ its2] exI [of _ sl2] exI [of _ h2] exI [of _ db2]) simp
qed

lemma collect_cfs_open:
  "\<forall>c \<in> set cfs. cf_open h c \<Longrightarrow> collect_cfs (map ERef cfs) h = (Some (map (\<lambda>c. CfArg (Some c)) cfs), h)"
proof (induction cfs)
  case (Cons c cfs)
  have "with_cf h (ERef c) None (\<lambda>cf h1. (Some (cf_handle h1 cf), h1)) = (Some (CfArg (Some c)), h)"
    by (rule with_cf_open) (use Cons.prems in simp_all)
  then have "with_retrieved h (RetrieveColumnFamilyObject h (ERef c)) None (\<lambda>cf h1. (Some (cf_handle h1 cf), h1)) =
      (Some (CfArg (Some c)), h)"
    by (simp add: with_retrieved_def with_cf_def enif_get_cf_def Let_def case_prod_beta)
  then show ?case
    using Cons by simp
qed simp

section \<open>An iterator over a list\<close>

text \<open>An instance of the laws: all entries, those between the bounds, and a position among them.\<close>

type_synonym list_itr = "(bytes \<times> bytes) list \<times> (bytes \<times> bytes) list \<times> nat option"

fun list_move :: "bytes option \<times> bytes option \<Rightarrow> itr_move \<Rightarrow> list_itr \<Rightarrow> list_itr" where
  "list_move b SeekToFirst (es, vs, p) = (es, filter (within b) es, Some 0)"
| "list_move b SeekToLast (es, vs, p) =
     (es, filter (within b) es, Some (length (filter (within b) es) - 1))"
| "list_move b (Seek k) (es, vs, p) =
     (es, filter (within b) es, Some (length (takeWhile (\<lambda>e. fst e < k) (filter (within b) es))))"
| "list_move b (SeekForPrev k) (es, vs, p) =
     (let rest = dropWhile (\<lambda>e. k < fst e) (rev (filter (within b) es))
      in (es, filter (within b) es, if rest = [] then None else Some (length rest - 1)))"
| "list_move b Next (es, vs, p) = (es, vs, map_option Suc p)"
| "list_move b Prev (es, vs, p) =
     (es, vs, case p of Some (Suc i) \<Rightarrow> Some i | _ \<Rightarrow> None)"

fun list_ahead :: "bytes option \<times> bytes option \<Rightarrow> bool \<Rightarrow> list_itr \<Rightarrow> (bytes \<times> bytes) list" where
  "list_ahead b fwd (es, vs, None) = []"
| "list_ahead b fwd (es, vs, Some i) =
     (if i < length vs then (if fwd then drop i vs else rev (take (Suc i) vs)) else [])"

definition list_rocks_itr :: "(bytes \<times> bytes) list \<Rightarrow> list_itr rocks_itr" where
  "list_rocks_itr es =
     \<lparr>NewIterator = (\<lambda>_ _ _. (es, [], None)), NewIterators = (\<lambda>_ _ cfs. map (\<lambda>_. (es, [], None)) cfs),
      NewCoalescingIterator = (\<lambda>_ _ _. Some (es, [], None)), it_move = list_move,
      it_Valid = (\<lambda>it. list_ahead (None, None) True it \<noteq> []), it_status = (\<lambda>_. ok_status),
      it_key = (\<lambda>it. fst (hd (list_ahead (None, None) True it))),
      it_value = (\<lambda>it. snd (hd (list_ahead (None, None) True it))),
      it_columns = (\<lambda>_. []), it_Refresh = (\<lambda>it. (ok_status, it)), it_PrepareValue = (\<lambda>it. (True, it))\<rparr>"

lemma list_ahead_valid: "list_ahead b fwd it \<noteq> [] \<longleftrightarrow> list_ahead b' fwd' it \<noteq> []"
  by (cases "(b, fwd, it)" rule: list_ahead.cases) auto

lemma list_ahead_hd: "list_ahead b fwd it \<noteq> [] \<Longrightarrow> hd (list_ahead b fwd it) = hd (list_ahead b' True it)"
  by (cases "(b, fwd, it)" rule: list_ahead.cases) (auto simp: hd_drop_conv_nth take_Suc_conv_app_nth hd_rev)

lemma list_move_entries: "fst (list_move b m it) = fst it"
  by (cases it; cases m) (simp_all add: Let_def)

lemma list_ahead_seek_for_prev:
  "list_ahead b False (list_move b (SeekForPrev k) it) = dropWhile (\<lambda>e. k < fst e) (rev (filter (within b) (fst it)))"
proof -
  obtain es vs p where it: "it = (es, vs, p)"
    by (metis prod_cases3)
  let ?v = "filter (within b) es"
  let ?n = "length (takeWhile (\<lambda>e. k < fst e) (rev ?v))"
  have n: "?n \<le> length ?v"
    using length_takeWhile_le [of _ "rev ?v"] by simp
  then have drop: "dropWhile (\<lambda>e. k < fst e) (rev ?v) = rev (take (length ?v - ?n) ?v)"
    by (simp add: dropWhile_eq_drop rev_take)
  with n show ?thesis
    unfolding it by (cases "?n < length ?v") (simp_all add: drop Let_def Suc_diff_Suc)
qed

lemma list_ahead_seek:
  "list_ahead b True (list_move b SeekToFirst it) = filter (within b) (fst it)"
  "list_ahead b False (list_move b SeekToLast it) = rev (filter (within b) (fst it))"
  "list_ahead b True (list_move b (Seek k) it) = dropWhile (\<lambda>e. fst e < k) (filter (within b) (fst it))"
proof -
  obtain es vs p where it: "it = (es, vs, p)"
    by (metis prod_cases3)
  let ?v = "filter (within b) es"
  show "list_ahead b True (list_move b SeekToFirst it) = filter (within b) (fst it)"
    "list_ahead b False (list_move b SeekToLast it) = rev (filter (within b) (fst it))"
    by (cases "?v = []"; simp add: it)+
  show "list_ahead b True (list_move b (Seek k) it) = dropWhile (\<lambda>e. fst e < k) (filter (within b) (fst it))"
    using length_takeWhile_le [of "\<lambda>e. fst e < k" ?v] by (simp add: it dropWhile_eq_drop)
qed

lemma list_ahead_step:
  assumes "list_ahead b' True it \<noteq> []"
  shows "list_ahead b True (list_move b Next it) = tl (list_ahead b True it)"
    "list_ahead b False (list_move b Prev it) = tl (list_ahead b False it)"
proof -
  obtain es vs i where it: "it = (es, vs, Some i)" "i < length vs"
    using assms by (cases "(b', True, it)" rule: list_ahead.cases) (auto split: if_splits)
  show "list_ahead b True (list_move b Next it) = tl (list_ahead b True it)"
    using it by (simp add: tl_drop drop_Suc)
  show "list_ahead b False (list_move b Prev it) = tl (list_ahead b False it)"
    using it by (cases i) (simp_all add: take_Suc_conv_app_nth)
qed

lemma list_itr_laws: "itr_laws (list_rocks_itr es) fst list_ahead"
  unfolding itr_laws_def
proof (intro conjI allI impI)
  fix b fwd and it :: list_itr and m k
  let ?R = "list_rocks_itr es"
  show valid: "it_Valid ?R it = (list_ahead b fwd it \<noteq> [])"
    using list_ahead_valid [of "(None, None)" True it b fwd] by (simp add: list_rocks_itr_def)
  show "status_ok (it_status ?R it)"
    by (simp add: list_rocks_itr_def)
  show "fst (it_move ?R b m it) = fst it"
    by (simp add: list_rocks_itr_def list_move_entries)
  show "list_ahead b True (it_move ?R b SeekToFirst it) = filter (within b) (fst it)"
    "list_ahead b False (it_move ?R b SeekToLast it) = rev (filter (within b) (fst it))"
    "list_ahead b True (it_move ?R b (Seek k) it) = dropWhile (\<lambda>e. fst e < k) (filter (within b) (fst it))"
    "list_ahead b False (it_move ?R b (SeekForPrev k) it) =
       dropWhile (\<lambda>e. k < fst e) (rev (filter (within b) (fst it)))"
    by (simp_all add: list_rocks_itr_def list_ahead_seek list_ahead_seek_for_prev)
  assume "it_Valid ?R it"
  then have ne: "list_ahead (None, None) True it \<noteq> []" "list_ahead b fwd it \<noteq> []"
    using valid by (simp_all add: list_rocks_itr_def)
  show "(it_key ?R it, it_value ?R it) = hd (list_ahead b fwd it)"
    using list_ahead_hd [OF ne(2), of "(None, None)"] by (simp add: list_rocks_itr_def)
  show "list_ahead b True (it_move ?R b Next it) = tl (list_ahead b True it)"
    "list_ahead b False (it_move ?R b Prev it) = tl (list_ahead b False it)"
    using list_ahead_step [OF ne(1)] by (simp_all add: list_rocks_itr_def)
qed

section \<open>Properties\<close>

text \<open>
  Claim C23. A range scan delivers the range: the NIF \<open>iterator\<close> with a lower and an upper
  bound (each may be missing) on an open database creates an iterator which, started
  with \<open>first\<close>, \<open>last\<close>, a key, \<open>{seek, Key}\<close> or \<open>{seek_for_prev, Key}\<close> and moved with
  \<open>next\<close> or \<open>prev\<close> until it answers \<open>invalid_iterator\<close>, delivers exactly the entries
  between the bounds on that side of the start, in order. The iterator object owns the
  two slices RocksDB reads.
\<close>

theorem iterator_range_scan:
  assumes "itr_laws R entries ahead" "\<And>opts. entries (NewIterator R d opts NoCf) = es"
    and "db_open h d" "mem h (next_addr h) = None" "fresh_slices h sl"
    and "Iterator R its sl h [ERef d, bound_options u l] = ((r, its1, sl1), h1)"
    and "walk_from (filter (within (u, l)) es) action = Some (fwd, m, out)" "length out < k"
  shows "r = Ok (ok_tuple (ERef (next_addr h))) \<and>
    walk R sl1 (next_addr h) (step_action fwd) k action its1 h1 = (out, Some (Ok invalid_iterator)) \<and>
    (\<exists>it n. mem h1 (next_addr h) = Some it \<and> its1 (next_addr h) = Some n \<and>
      upper_bound_slice it = upper_ptr n \<and> lower_bound_slice it = lower_ptr n)"
proof -
  obtain opts where it: "r = Ok (ok_tuple (ERef (next_addr h)))"
      "its1 (next_addr h) = Some (native_of opts (NewIterator R d opts NoCf))" "itr_open h1 (next_addr h)"
      "bounds_are h1 sl1 (native_of opts (NewIterator R d opts NoCf)) (u, l)"
      "\<exists>it. mem h1 (next_addr h) = Some it \<and> upper_bound_slice it = iterate_upper_bound opts \<and>
        lower_bound_slice it = iterate_lower_bound opts"
    using Iterator_creates [OF assms(3-5), of R its u l] assms(6) by auto
  have "walk R sl1 (next_addr h) (step_action fwd) k action its1 h1 = (out, Some (Ok invalid_iterator))"
    by (rule walk_delivers [OF assms(1) it(3), of its1 "native_of opts (NewIterator R d opts NoCf)" sl1 "(u, l)" action fwd m])
      (use it(2,4) assms(2,7,8) in \<open>simp_all add: native_of_def\<close>)
  with it show ?thesis
    by (auto simp: native_of_def)
qed

definition no_slices :: slice_store where
  "no_slices = \<lparr>slice_bytes = (\<lambda>_. None), next_slice = 0\<rparr>"

theorem iterator_range_scan_witness:
  "\<exists>its1 sl1 h1. Iterator (list_rocks_itr [([1], [10]), ([2], [20]), ([3], [30])]) (\<lambda>_. None) no_slices db_heap
      [ERef 0, bound_options (Some [3]) None] = ((Ok (ok_tuple (ERef 1)), its1, sl1), h1) \<and>
    walk (list_rocks_itr [([1], [10]), ([2], [20]), ([3], [30])]) sl1 1 (EAtom ''prev'') 3 (EAtom ''last'') its1 h1 =
      ([([2], [20]), ([1], [10])], Some (Ok invalid_iterator))"
proof -
  let ?es = "[([1], [10]), ([2], [20]), ([3], [30])] :: (bytes \<times> bytes) list"
  let ?i = "Iterator (list_rocks_itr ?es) (\<lambda>_. None) no_slices db_heap [ERef 0, bound_options (Some [3]) None]"
  obtain r its1 sl1 h1 where i: "?i = ((r, its1, sl1), h1)"
    by (metis prod_cases3 surj_pair)
  have "mem db_heap 1 = None" "fresh_slices db_heap no_slices"
    by (simp_all add: db_heap_def CreateDbObject_def enif_alloc_resource_def empty_heap_def RefInc_def with_live_def
        with_obj_def put_obj_def new_object_def fresh_slices_def)
  then have heap: "mem db_heap (next_addr db_heap) = None" "fresh_slices db_heap no_slices"
    by (simp_all add: db_heap_open)
  have "walk_from (filter (within (Some [3], None)) ?es) (EAtom ''last'') =
      Some (False, SeekToLast, [([2], [20]), ([1], [10])])"
    by (simp add: within_def)
  from iterator_range_scan [OF list_itr_laws _ db_heap_open(1) heap i this, of 3] i show ?thesis
    by (simp add: list_rocks_itr_def db_heap_open step_action_def)
qed

text \<open>
  The NIF \<open>iterators\<close> leaves dangling bounds: with an upper bound it answers one
  iterator per RocksDB iterator, each owning a copy of the bound, but RocksDB reads the
  original slice, which the call deletes before it returns. The first move of any of
  these iterators reads freed memory.
\<close>

theorem iterators_bounds_dangle:
  assumes "db_open h d" "\<forall>x. next_addr h \<le> x \<longrightarrow> mem h x = None" "fresh_slices h sl" "\<forall>c \<in> set cfs. cf_open h c"
    and "\<And>opts cs. length (NewIterators R d opts cs) = length cs"
    and "Iterators R its sl h [ERef d, enif_make_list (map ERef cfs), bound_options (Some u) None] = ((r, its1, sl1), h1)"
  shows "\<exists>as. r = Ok (ok_tuple (enif_make_list (map ERef as))) \<and> length as = length cfs \<and>
    (\<forall>a \<in> set as. fst (fst (IteratorMove R sl1 its1 h1 [ERef a, EAtom ''first''])) = Undef)"
proof -
  let ?h = "RefInc h d" and ?p = "next_slice sl"
  obtain ob where ob: "mem h d = Some ob" "kind ob = DbObject" "m_CloseRequested ob = 0" "m_Native ob"
    using assms(1) by (auto simp: db_open_def split: option.splits)
  let ?ob = "ob\<lparr>m_RefCount := m_RefCount ob + 1\<rparr>"
  obtain s where s: "parse_iterator_options (bound_options (Some u) None) ?h sl = (True, s)" "p_heap s = ?h"
      "upper_bound (p_bounds s) = Some ?p" "lower_bound (p_bounds s) = None" "iterate_upper_bound (p_opts s) = Some ?p"
      "read_slice ?h (p_slices s) ?p = Ok u" "?p < next_slice (p_slices s)"
    using assms(3)
    by (auto simp: bound_options_def parse_iterator_options_def parse_itr_option_def parse_upper_bound_def
        new_slice_def no_bounds_def ReadOptions_init_def read_slice_def fresh_slices_def Let_def)
  have cfs: "collect_cfs (map ERef cfs) ?h = (Some (map (\<lambda>c. CfArg (Some c)) cfs), ?h)"
    by (rule collect_cfs_open) (use assms(4) ob in \<open>auto simp: cf_open_def RefInc_def with_live_def with_obj_def put_obj_def
        split: option.splits\<close>)
  let ?nats = "NewIterators R d (p_opts s) (map (\<lambda>c. CfArg (Some c)) cfs)"
  obtain as its2 sl2 h2 db where made: "create_itrs d (p_opts s) (p_bounds s) ?nats its (p_slices s) ?h = Ok (as, its2, sl2, h2)"
      "length as = length ?nats" "mem h2 d = Some db" "m_CloseRequested db = 0"
      "\<And>a. a \<in> set as \<Longrightarrow> a \<noteq> d \<and> itr_open h2 a \<and> (\<exists>it. its2 a = Some (native_of (p_opts s) it))"
    using create_itrs_open [OF RefInc_open [OF ob(1,3)] _ _ _ s(3,4,6,7), of "p_opts s" ?nats its] ob assms(2) by auto
  let ?h3 = "emit (DeleteSlice ?p) h2"
  let ?h4 = "put_obj ?h3 d (db\<lparr>m_RefCount := m_RefCount db - 1\<rparr>)"
  have run: "Iterators R its sl h [ERef d, enif_make_list (map ERef cfs), bound_options (Some u) None] =
      ((Ok (ok_tuple (enif_make_list (map ERef as))), its2, sl2), ?h4)"
    unfolding Iterators_def nth_Cons_0
  proof (rule with_db_creates [OF assms(1)])
    show "mem ?h3 d = Some db"
      using made(3) by (simp add: emit_def)
  qed (use s cfs made in \<open>simp_all add: bound_options_def numeral_2_eq_2 delete_bounds_def delete_slice_def\<close>)
  have "fst (fst (IteratorMove R sl2 its2 ?h4 [ERef a, EAtom ''first''])) = Undef" if a: "a \<in> set as" for a
  proof -
    obtain it where it: "its2 a = Some (native_of (p_opts s) it)" "itr_open h2 a" "a \<noteq> d"
      using made(5) [OF a] by auto
    have "itr_open ?h4 a"
      by (rule itr_open_frame [OF it(2,3), of _ "db\<lparr>m_RefCount := m_RefCount db - 1\<rparr>"])
        (use it(3) made(4) in \<open>auto simp: put_obj_def emit_def\<close>)
    then have "IteratorMove R sl2 its2 ?h4 [ERef a, EAtom ''first''] = ((Undef, its2), ?h4)"
      unfolding IteratorMove_def nth_Cons_0
      by (rule with_itr_open [of ?h4 a its2 "native_of (p_opts s) it"])
        (simp_all add: it(1) move_then_def move_native_def native_of_def s(5) read_bound_def read_slice_def emit_def)
    then show ?thesis
      by simp
  qed
  with run assms(5,6) made(2) show ?thesis
    by auto
qed

definition cf_heap :: ref_heap where
  "cf_heap = snd (CreateColumnFamilyObject db_heap (Some 0))"

lemma cf_heap_open:
  "db_open cf_heap 0" "cf_open cf_heap 1" "next_addr cf_heap = 2" "log cf_heap = []"
  "\<forall>x. 2 \<le> x \<longrightarrow> mem cf_heap x = None"
  by (simp_all add: cf_heap_def db_heap_def CreateColumnFamilyObject_def create_child_def ColumnFamilyObject_ctor_def
      ReferencePtr_ctor_def add_to_db_def AddColumnFamilyReference_def CreateDbObject_def enif_alloc_resource_def
      empty_heap_def new_object_def cf_open_def db_open_def RefInc_def with_live_def with_obj_def put_obj_def)

theorem iterators_bounds_dangle_witness:
  "\<exists>its1 sl1 h1 a. Iterators (list_rocks_itr [([1], [10])]) (\<lambda>_. None) no_slices cf_heap
      [ERef 0, enif_make_list [ERef 1], bound_options (Some [5]) None] =
        ((Ok (ok_tuple (enif_make_list [ERef a])), its1, sl1), h1) \<and>
    fst (fst (IteratorMove (list_rocks_itr [([1], [10])]) sl1 its1 h1 [ERef a, EAtom ''first''])) = Undef"
proof -
  let ?R = "list_rocks_itr [([1], [10])]"
  obtain r its1 sl1 h1 where i: "Iterators ?R (\<lambda>_. None) no_slices cf_heap
      [ERef 0, enif_make_list (map ERef [1]), bound_options (Some [5]) None] = ((r, its1, sl1), h1)"
    by (metis prod_cases3 surj_pair)
  have "\<forall>x. next_addr cf_heap \<le> x \<longrightarrow> mem cf_heap x = None"
    unfolding cf_heap_open(3) by (rule cf_heap_open(5))
  moreover have "fresh_slices cf_heap no_slices" "\<forall>c \<in> set [1]. cf_open cf_heap c"
    by (simp_all add: fresh_slices_def cf_heap_open del: One_nat_def)
  moreover have "length (NewIterators ?R 0 opts cs) = length cs" for opts cs
    by (simp add: list_rocks_itr_def)
  ultimately obtain as where as: "r = Ok (ok_tuple (enif_make_list (map ERef as)))" "length as = length [1 :: addr]"
      "\<forall>a \<in> set as. fst (fst (IteratorMove ?R sl1 its1 h1 [ERef a, EAtom ''first''])) = Undef"
    using iterators_bounds_dangle [OF cf_heap_open(1) _ _ _ _ i] by blast
  then obtain a where "as = [a]"
    by (auto simp: length_Suc_conv)
  with as i show ?thesis
    by (intro exI [of _ its1] exI [of _ sl1] exI [of _ h1] exI [of _ a]) simp
qed

text \<open>
  A move that ends with an error of RocksDB is answered as \<open>invalid_iterator\<close>: the
  validity is tested before the status, and an iterator with an error is not valid.
\<close>

lemma move_error_is_masked:
  assumes "itr_open h a" "its a = Some n" "bounds_are h sl n b"
    and "\<not> it_Valid R (it_move R b (Seek key) (it_state n))"
  shows "fst (fst (IteratorMove R sl its h [ERef a, EBin key])) = Ok invalid_iterator"
proof -
  let ?n = "n\<lparr>it_state := it_move R b (Seek key) (it_state n)\<rparr>"
  have "IteratorMove R sl its h [ERef a, EBin key] = ((Ok invalid_iterator, its(a \<mapsto> ?n)), h)"
    unfolding IteratorMove_def nth_Cons_0
    by (rule with_itr_open [of h a its n])
      (use assms in \<open>simp_all add: move_then_def move_native_reads [OF assms(3)] binary_to_slice_def current_entry_def\<close>)
  then show ?thesis
    by simp
qed

end
