(* ===== verification/Db_Nifs.thy ===== *)
theory Db_Nifs
  imports Iterator_Nifs
begin

text \<open>
  The NIFs of \<open>c_src/erocksdb_db.cc\<close> on an open database: reads, writes, wide columns,
  sizes, compaction, flushes and background work, with their option parsers. The class
  \<open>rocksdb::DB\<close> is the record \<open>rocks_db\<close>, an argument, on a state \<open>'db\<close> of all the
  databases; the predicate \<open>db_laws\<close> says what its documentation promises. A column
  family handle is a \<open>cf_arg\<close>, with \<open>NoCf\<close> for \<open>DefaultColumnFamily()\<close>.
\<close>

section \<open>Options\<close>

fun enif_get_int :: "eterm \<Rightarrow> int option" where
  "enif_get_int (EInt i) = (if - (2 ^ 31) \<le> i \<and> i < 2 ^ 31 then Some i else None)"
| "enif_get_int _ = None"

text \<open>
  \<open>parse_read_option\<close>: the snapshot is held only while its pointer is copied; a term that
  is no open snapshot ends the fold with \<open>badarg\<close>. The heap is part of the accumulator.
\<close>

definition parse_read_tier :: "eterm \<Rightarrow> read_options \<Rightarrow> read_options" where
  "parse_read_tier val opts =
     (if val = EAtom ''read_all_tier'' then opts\<lparr>read_tier := kReadAllTier\<rparr>
      else if val = EAtom ''block_cache_tier'' then opts\<lparr>read_tier := kBlockCacheTier\<rparr>
      else if val = EAtom ''persisted_tier'' then opts\<lparr>read_tier := kPersistedTier\<rparr>
      else if val = EAtom ''memtable_tier'' then opts\<lparr>read_tier := kMemtableTier\<rparr>
      else opts)"

definition snapshot_pointer :: "ref_heap \<Rightarrow> addr \<Rightarrow> addr option" where
  "snapshot_pointer h a = (case mem h a of Some ob \<Rightarrow> if m_Native ob then Some a else None | None \<Rightarrow> None)"

definition parse_read_option :: "eterm \<Rightarrow> ref_heap \<times> read_options \<Rightarrow> eterm \<times> ref_heap \<times> read_options" where
  "parse_read_option item acc =
     (case acc of (h, opts) \<Rightarrow>
        (case enif_get_tuple item of
          Some [name, val] \<Rightarrow>
            let b = (val = EAtom ''true'')
            in if name = EAtom ''read_tier'' then (e_ok, h, parse_read_tier val opts)
               else if name = EAtom ''verify_checksums'' then (e_ok, h, opts\<lparr>verify_checksums := b\<rparr>)
               else if name = EAtom ''fill_cache'' then (e_ok, h, opts\<lparr>fill_cache := b\<rparr>)
               else if name = EAtom ''iterate_upper_bound'' then (e_ok, h, opts)
               else if name = EAtom ''tailing'' then (e_ok, h, opts\<lparr>tailing := b\<rparr>)
               else if name = EAtom ''total_order_seek'' then (e_ok, h, opts\<lparr>total_order_seek := b\<rparr>)
               else if name = EAtom ''snapshot'' then
                 (case with_retrieved h (RetrieveSnapshotObject h val) None (\<lambda>a h1. (Some (snapshot_pointer h1 a), h1)) of
                    (None, h1) \<Rightarrow> (EAtom ''badarg'', h1, opts)
                  | (Some p, h1) \<Rightarrow> (e_ok, h1, opts\<lparr>snapshot := p\<rparr>))
               else if name = EAtom ''auto_refresh_iterator_with_snapshot''
               then (e_ok, h, opts\<lparr>auto_refresh_iterator_with_snapshot := b\<rparr>)
               else if name = EAtom ''readahead_size'' then
                 (e_ok, h, case enif_get_uint64 val of None \<Rightarrow> opts | Some n \<Rightarrow> opts\<lparr>readahead_size := n\<rparr>)
               else if name = EAtom ''async_io'' then (e_ok, h, opts\<lparr>async_io := b\<rparr>)
               else (e_ok, h, opts)
        | _ \<Rightarrow> (e_ok, h, opts)))"

text \<open>\<open>rocksdb::ReadOptions opts; fold(env, list, parse_read_option, opts);\<close> the result of the fold is dropped.\<close>

definition read_options_of :: "ref_heap \<Rightarrow> eterm \<Rightarrow> ref_heap \<times> read_options" where
  "read_options_of h t = snd (nif_fold parse_read_option t (h, ReadOptions_init))"

record flush_options =
  wait :: bool
  flush_allow_write_stall :: bool

definition FlushOptions_init :: flush_options where
  "FlushOptions_init = \<lparr>wait = True, flush_allow_write_stall = False\<rparr>"

definition parse_flush_option :: "eterm \<Rightarrow> flush_options \<Rightarrow> eterm \<times> flush_options" where
  "parse_flush_option item opts =
     (e_ok,
      case enif_get_tuple item of
        Some [name, val] \<Rightarrow>
          if name = EAtom ''wait'' then opts\<lparr>wait := (val = EAtom ''true'')\<rparr>
          else if name = EAtom ''allow_write_stall'' then opts\<lparr>flush_allow_write_stall := (val = EAtom ''true'')\<rparr>
          else opts
      | _ \<Rightarrow> opts)"

datatype bottommost = kSkip | kIfHaveCompactionFilter | kForce | kForceOptimized

record compact_range_options =
  exclusive_manual_compaction :: bool
  change_level :: bool
  target_level :: int
  bottommost_level_compaction :: bottommost
  allow_write_stall :: bool
  max_subcompactions :: u32

definition CompactRangeOptions_init :: compact_range_options where
  "CompactRangeOptions_init = \<lparr>exclusive_manual_compaction = False, change_level = False, target_level = - 1,
     bottommost_level_compaction = kIfHaveCompactionFilter, allow_write_stall = False, max_subcompactions = 0\<rparr>"

definition parse_compact_range_option :: "eterm \<Rightarrow> compact_range_options \<Rightarrow> eterm \<times> compact_range_options" where
  "parse_compact_range_option item opts =
     (e_ok,
      case enif_get_tuple item of
        Some [name, val] \<Rightarrow>
          let b = (val = EAtom ''true'')
          in if name = EAtom ''exclusive_manual_compaction'' then opts\<lparr>exclusive_manual_compaction := b\<rparr>
             else if name = EAtom ''change_level'' then opts\<lparr>change_level := b\<rparr>
             else if name = EAtom ''target_level'' then
               (case enif_get_int val of None \<Rightarrow> opts | Some n \<Rightarrow> opts\<lparr>target_level := n\<rparr>)
             else if name = EAtom ''allow_write_stall'' then opts\<lparr>allow_write_stall := b\<rparr>
             else if name = EAtom ''max_subcompactions'' then
               (case enif_get_uint val of None \<Rightarrow> opts | Some n \<Rightarrow> opts\<lparr>max_subcompactions := n\<rparr>)
             else if name = EAtom ''bottommost_level_compaction'' then
               (if val = EAtom ''skip'' then opts\<lparr>bottommost_level_compaction := kSkip\<rparr>
                else if val = EAtom ''if_have_compaction_filter''
                then opts\<lparr>bottommost_level_compaction := kIfHaveCompactionFilter\<rparr>
                else if val = EAtom ''force'' then opts\<lparr>bottommost_level_compaction := kForce\<rparr>
                else if val = EAtom ''force_optimized'' then opts\<lparr>bottommost_level_compaction := kForceOptimized\<rparr>
                else opts)
             else opts
      | _ \<Rightarrow> opts)"

datatype io_priority = IO_LOW | IO_MID | IO_HIGH | IO_USER | IO_TOTAL

record flush_wal_options =
  wal_sync :: bool
  rate_limiter_priority :: io_priority

definition FlushWALOptions_init :: flush_wal_options where
  "FlushWALOptions_init = \<lparr>wal_sync = False, rate_limiter_priority = IO_TOTAL\<rparr>"

definition parse_flush_wal_option :: "eterm \<Rightarrow> flush_wal_options \<Rightarrow> eterm \<times> flush_wal_options" where
  "parse_flush_wal_option item opts =
     (e_ok,
      case enif_get_tuple item of
        Some [name, val] \<Rightarrow>
          if name = EAtom ''sync'' then opts\<lparr>wal_sync := (val = EAtom ''true'')\<rparr>
          else if name = EAtom ''rate_limiter_priority'' then
            (if val = EAtom ''io_low'' then opts\<lparr>rate_limiter_priority := IO_LOW\<rparr>
             else if val = EAtom ''io_mid'' then opts\<lparr>rate_limiter_priority := IO_MID\<rparr>
             else if val = EAtom ''io_high'' then opts\<lparr>rate_limiter_priority := IO_HIGH\<rparr>
             else if val = EAtom ''io_user'' then opts\<lparr>rate_limiter_priority := IO_USER\<rparr>
             else if val = EAtom ''io_total'' then opts\<lparr>rate_limiter_priority := IO_TOTAL\<rparr>
             else opts)
          else opts
      | _ \<Rightarrow> opts)"

section \<open>RocksDB databases\<close>

datatype size_flag = SizeNone | IncludeMemtables | IncludeFiles | IncludeBoth

datatype env_priority = HIGH | LOW

type_synonym columns = "(bytes \<times> bytes) list"

text \<open>
  The methods of \<open>rocksdb::DB\<close> the NIFs call. \<open>db_apply\<close> stands for \<open>Put\<close>, \<open>Merge\<close>, \<open>Delete\<close>,
  \<open>SingleDelete\<close> and \<open>DeleteRange\<close>. \<open>db_MultiGet\<close> gives the contents of the two result
  arrays at an index.
\<close>

record 'db rocks_db =
  db_Get :: "addr \<Rightarrow> read_options \<Rightarrow> cf_arg \<Rightarrow> bytes \<Rightarrow> 'db \<Rightarrow> status \<times> bytes"
  db_MultiGet :: "addr \<Rightarrow> read_options \<Rightarrow> cf_arg \<Rightarrow> bytes list \<Rightarrow> 'db \<Rightarrow> nat \<Rightarrow> status \<times> bytes"
  db_apply :: "addr \<Rightarrow> write_options \<Rightarrow> batch_op \<Rightarrow> 'db \<Rightarrow> status \<times> 'db"
  db_GetEntity :: "addr \<Rightarrow> read_options \<Rightarrow> cf_arg \<Rightarrow> bytes \<Rightarrow> 'db \<Rightarrow> status \<times> columns"
  db_PutEntity :: "addr \<Rightarrow> write_options \<Rightarrow> cf_arg \<Rightarrow> bytes \<Rightarrow> columns \<Rightarrow> 'db \<Rightarrow> status \<times> 'db"
  db_GetProperty :: "addr \<Rightarrow> cf_arg \<Rightarrow> bytes \<Rightarrow> 'db \<Rightarrow> bytes option"
  db_GetLatestSequenceNumber :: "addr \<Rightarrow> 'db \<Rightarrow> u64"
  db_GetApproximateSizes :: "addr \<Rightarrow> cf_arg \<Rightarrow> (bytes \<times> bytes) list \<Rightarrow> size_flag \<Rightarrow> 'db \<Rightarrow> nat \<Rightarrow> u64"
  db_GetApproximateMemTableStats :: "addr \<Rightarrow> cf_arg \<Rightarrow> bytes \<times> bytes \<Rightarrow> 'db \<Rightarrow> u64 \<times> u64"
  db_CompactRange :: "addr \<Rightarrow> compact_range_options \<Rightarrow> cf_arg \<Rightarrow> bytes option \<Rightarrow> bytes option \<Rightarrow> 'db \<Rightarrow> status \<times> 'db"
  db_Flush :: "addr \<Rightarrow> flush_options \<Rightarrow> cf_arg \<Rightarrow> 'db \<Rightarrow> status \<times> 'db"
  db_SyncWAL :: "addr \<Rightarrow> 'db \<Rightarrow> status \<times> 'db"
  db_FlushWAL :: "addr \<Rightarrow> flush_wal_options \<Rightarrow> 'db \<Rightarrow> status \<times> 'db"
  db_PauseBackgroundWork :: "addr \<Rightarrow> 'db \<Rightarrow> status \<times> 'db"
  db_ContinueBackgroundWork :: "addr \<Rightarrow> 'db \<Rightarrow> status \<times> 'db"
  db_DisableManualCompaction :: "addr \<Rightarrow> 'db \<Rightarrow> 'db"
  db_EnableManualCompaction :: "addr \<Rightarrow> 'db \<Rightarrow> 'db"
  db_SetBackgroundThreads :: "addr \<Rightarrow> int \<Rightarrow> env_priority \<Rightarrow> 'db \<Rightarrow> 'db"
  db_NewCheckpoint :: "addr \<Rightarrow> 'db \<Rightarrow> status"
  db_CreateCheckpoint :: "addr \<Rightarrow> bytes \<Rightarrow> 'db \<Rightarrow> status \<times> 'db"

section \<open>Reads\<close>

text \<open>\<open>if (IsNotFound) ...; if (IsCorruption) ...; return unknown_status\<close>\<close>

definition read_classes :: "(status_code \<times> string) list" where
  "read_classes = [(kCorruption, ''corruption'')]"

definition Get :: "'db rocks_db \<Rightarrow> 'db \<Rightarrow> ref_heap \<Rightarrow> eterm list \<Rightarrow> nif_result \<times> ref_heap" where
  "Get R dbs h argv =
     with_db h (argv ! 0) Failed (\<lambda>db h1.
       let i = (if length argv = 4 then 2 else 1)
       in case binary_to_slice (argv ! i) of
            None \<Rightarrow> (Failed, h1)
          | Some key \<Rightarrow>
              (case read_options_of h1 (argv ! (i + 1)) of
                 (h2, opts) \<Rightarrow>
                   if length argv = 4
                   then with_cf h2 (argv ! 1) Failed (\<lambda>cf h3.
                          (Ok (value_result read_classes (db_Get R db opts (cf_handle h3 cf) key dbs)), h3))
                   else (Ok (value_result read_classes (db_Get R db opts NoCf key dbs)), h2)))"

text \<open>The loop over the key list; a head that is no binary ends it.\<close>

fun key_slices :: "eterm list \<Rightarrow> bytes list option" where
  "key_slices [] = Some []"
| "key_slices (head # rest) =
     (case enif_inspect_binary head of
        None \<Rightarrow> None
      | Some k \<Rightarrow> map_option ((#) k) (key_slices rest))"

text \<open>
  What the six multi-get NIFs do once they have the column family: \<open>call\<close> is the RocksDB
  method, which fills an array of statuses and one of values.
\<close>

definition multi_get ::
    "(status_code \<times> string) list \<Rightarrow> (read_options \<Rightarrow> bytes list \<Rightarrow> nat \<Rightarrow> status \<times> bytes) \<Rightarrow> eterm \<Rightarrow> eterm \<Rightarrow> ref_heap \<Rightarrow>
       nif_result \<times> ref_heap" where
  "multi_get classes call keys_list opts_list h =
     (case enif_get_list_length keys_list of
        None \<Rightarrow> (Failed, h)
      | Some num_keys \<Rightarrow>
          if num_keys = 0 then (Ok (enif_make_list []), h)
          else
            (case key_slices (list_cells keys_list) of
               None \<Rightarrow> (Failed, h)
             | Some keys \<Rightarrow>
                 (case read_options_of h opts_list of
                    (h1, opts) \<Rightarrow>
                      (Ok (enif_make_list (map (\<lambda>i. value_result classes (call opts keys i)) [0..<num_keys])), h1))))"

definition MultiGet :: "'db rocks_db \<Rightarrow> 'db \<Rightarrow> ref_heap \<Rightarrow> eterm list \<Rightarrow> nif_result \<times> ref_heap" where
  "MultiGet R dbs h argv =
     with_db h (argv ! 0) Failed (\<lambda>db h1.
       if length argv = 4
       then with_cf h1 (argv ! 1) Failed (\<lambda>cf h2.
              multi_get read_classes (\<lambda>opts keys. db_MultiGet R db opts (cf_handle h2 cf) keys dbs) (argv ! 2) (argv ! 3) h2)
       else multi_get read_classes (\<lambda>opts keys. db_MultiGet R db opts NoCf keys dbs) (argv ! 1) (argv ! 2) h1)"

definition column_term :: "bytes \<times> bytes \<Rightarrow> eterm" where
  "column_term c = ETuple [EBin (fst c), EBin (snd c)]"

definition entity_result :: "status \<times> columns \<Rightarrow> eterm" where
  "entity_result r =
     (case r of (st, cols) \<Rightarrow>
        if status_ok st then ok_tuple (enif_make_list (map column_term cols))
        else if code st = kNotFound then EAtom ''not_found''
        else class_error read_classes ''unknown_status'' st)"

definition GetEntity :: "'db rocks_db \<Rightarrow> 'db \<Rightarrow> ref_heap \<Rightarrow> eterm list \<Rightarrow> nif_result \<times> ref_heap" where
  "GetEntity R dbs h argv =
     with_db h (argv ! 0) Failed (\<lambda>db h1.
       let key_idx = (if length argv = 4 then 2 else 1); opts_idx = (if length argv = 4 then 3 else 2)
       in case binary_to_slice (argv ! key_idx) of
            None \<Rightarrow> (Failed, h1)
          | Some key \<Rightarrow>
              (case read_options_of h1 (argv ! opts_idx) of
                 (h2, opts) \<Rightarrow>
                   if length argv = 4
                   then with_cf h2 (argv ! 1) Failed (\<lambda>cf h3.
                          (Ok (entity_result (db_GetEntity R db opts (cf_handle h3 cf) key dbs)), h3))
                   else (Ok (entity_result (db_GetEntity R db opts NoCf key dbs)), h2)))"

text \<open>A column family that is refused is ignored: the property of the default one is read.\<close>

definition GetProperty :: "'db rocks_db \<Rightarrow> 'db \<Rightarrow> ref_heap \<Rightarrow> eterm list \<Rightarrow> nif_result \<times> ref_heap" where
  "GetProperty R dbs h argv =
     with_retrieved h (RetrieveDbObject h (argv ! 0)) Failed (\<lambda>db h1.
       let answer = (\<lambda>cf name. case enif_inspect_binary name of
              None \<Rightarrow> Failed
            | Some n \<Rightarrow> Ok (case db_GetProperty R db cf n dbs of Some v \<Rightarrow> ok_tuple (EBin v) | None \<Rightarrow> EAtom ''error''))
       in if length argv = 3
          then with_retrieved h1 (RetrieveColumnFamilyObject h1 (argv ! 1)) (answer NoCf (argv ! 2)) (\<lambda>cf h2.
                 (answer (cf_handle h2 cf) (argv ! 2), h2))
          else (answer NoCf (argv ! 1), h1))"

definition IsEmpty :: "'it rocks_itr \<Rightarrow> ref_heap \<Rightarrow> eterm list \<Rightarrow> nif_result \<times> ref_heap" where
  "IsEmpty R h argv =
     with_db h (argv ! 0) Failed (\<lambda>db h1.
       let itr = it_move R (None, None) SeekToFirst (NewIterator R db ReadOptions_init NoCf)
       in (Ok (if it_Valid R itr then EAtom ''false'' else EAtom ''true''), h1))"

definition GetLatestSequenceNumber :: "'db rocks_db \<Rightarrow> 'db \<Rightarrow> ref_heap \<Rightarrow> eterm list \<Rightarrow> nif_result \<times> ref_heap" where
  "GetLatestSequenceNumber R dbs h argv =
     with_db h (argv ! 0) Failed (\<lambda>db h1. (Ok (EInt (uint (db_GetLatestSequenceNumber R db dbs))), h1))"

fun parse_ranges :: "eterm list \<Rightarrow> (bytes \<times> bytes) list option" where
  "parse_ranges [] = Some []"
| "parse_ranges (head # rest) =
     (case enif_get_tuple head of
        Some [rs, rl] \<Rightarrow>
          (case (binary_to_slice rs, binary_to_slice rl) of
             (Some start, Some limit) \<Rightarrow> map_option ((#) (start, limit)) (parse_ranges rest)
           | _ \<Rightarrow> None)
      | _ \<Rightarrow> None)"

definition parse_size_flag :: "eterm \<Rightarrow> size_flag option" where
  "parse_size_flag t =
     (if t = EAtom ''none'' then Some SizeNone
      else if t = EAtom ''include_memtables'' then Some IncludeMemtables
      else if t = EAtom ''include_files'' then Some IncludeFiles
      else if t = EAtom ''include_both'' then Some IncludeBoth
      else None)"

text \<open>The sizes are consed in order and the list is reversed at the end.\<close>

definition approximate_sizes ::
    "'db rocks_db \<Rightarrow> 'db \<Rightarrow> addr \<Rightarrow> cf_arg \<Rightarrow> eterm \<Rightarrow> eterm \<Rightarrow> nif_result" where
  "approximate_sizes R dbs db cf ranges_list flag_term =
     (case parse_size_flag flag_term of
        None \<Rightarrow> Failed
      | Some flag \<Rightarrow>
          (case enif_get_list_length ranges_list of
             None \<Rightarrow> Failed
           | Some num_ranges \<Rightarrow>
               (case parse_ranges (list_cells ranges_list) of
                  None \<Rightarrow> Failed
                | Some ranges \<Rightarrow>
                    Ok (enif_make_reverse_list
                      (fold (\<lambda>k. ECons (EInt (uint (db_GetApproximateSizes R db cf ranges flag dbs k))))
                         [0..<num_ranges] (enif_make_list []))))))"

definition GetApproximateSizes :: "'db rocks_db \<Rightarrow> 'db \<Rightarrow> ref_heap \<Rightarrow> eterm list \<Rightarrow> nif_result \<times> ref_heap" where
  "GetApproximateSizes R dbs h argv =
     with_db h (argv ! 0) Failed (\<lambda>db h1.
       if length argv = 5
       then with_cf h1 (argv ! 1) Failed (\<lambda>cf h2.
              (approximate_sizes R dbs db (cf_handle h2 cf) (argv ! 2) (argv ! 3), h2))
       else (approximate_sizes R dbs db NoCf (argv ! 1) (argv ! 2), h1))"

definition GetApproximateMemTableStats :: "'db rocks_db \<Rightarrow> 'db \<Rightarrow> ref_heap \<Rightarrow> eterm list \<Rightarrow> nif_result \<times> ref_heap" where
  "GetApproximateMemTableStats R dbs h argv =
     with_db h (argv ! 0) Failed (\<lambda>db h1.
       let answer = (\<lambda>cf s l. case (binary_to_slice s, binary_to_slice l) of
              (Some start, Some limit) \<Rightarrow>
                (case db_GetApproximateMemTableStats R db cf (start, limit) dbs of
                   (n, sz) \<Rightarrow> Ok (ok_tuple (ETuple [EInt (uint n), EInt (uint sz)])))
            | _ \<Rightarrow> Failed)
       in if length argv = 4
          then with_cf h1 (argv ! 1) Failed (\<lambda>cf h2. (answer (cf_handle h2 cf) (argv ! 2) (argv ! 3), h2))
          else (answer NoCf (argv ! 1) (argv ! 2), h1))"

section \<open>Writes\<close>

definition db_write ::
    "'db rocks_db \<Rightarrow> addr \<Rightarrow> eterm \<Rightarrow> batch_op \<Rightarrow> 'db \<Rightarrow> nif_result \<times> 'db" where
  "db_write R db arg_opts c dbs =
     (case db_apply R db (write_options_of arg_opts) c dbs of (st, dbs1) \<Rightarrow> (Ok (status_result st), dbs1))"

text \<open>
  The NIFs with two binaries and those with one. \<open>cf_opts\<close> is the argument read as the
  options when a column family is given: \<open>Put\<close> reads the last argument, but \<open>Merge\<close>, \<open>Delete\<close>
  and \<open>SingleDelete\<close> read the argument that holds the options in the call without a
  column family.
\<close>

definition write_op2 ::
    "(cf_arg \<Rightarrow> bytes \<Rightarrow> bytes \<Rightarrow> batch_op) \<Rightarrow> nat \<Rightarrow> 'db rocks_db \<Rightarrow> 'db \<Rightarrow> ref_heap \<Rightarrow> eterm list \<Rightarrow>
       (nif_result \<times> 'db) \<times> ref_heap" where
  "write_op2 mk cf_opts R dbs h argv =
     with_db h (argv ! 0) (Failed, dbs) (\<lambda>db h1.
       if 4 < length argv
       then with_cf h1 (argv ! 1) (Failed, dbs) (\<lambda>cf h2.
              (case (enif_inspect_binary (argv ! 2), enif_inspect_binary (argv ! 3)) of
                 (Some key, Some value) \<Rightarrow> db_write R db (argv ! cf_opts) (mk (cf_handle h2 cf) key value) dbs
               | _ \<Rightarrow> (Failed, dbs), h2))
       else
         (case (enif_inspect_binary (argv ! 1), enif_inspect_binary (argv ! 2)) of
            (Some key, Some value) \<Rightarrow> db_write R db (argv ! 3) (mk NoCf key value) dbs
          | _ \<Rightarrow> (Failed, dbs), h1))"

definition write_op1 ::
    "(cf_arg \<Rightarrow> bytes \<Rightarrow> batch_op) \<Rightarrow> nat \<Rightarrow> 'db rocks_db \<Rightarrow> 'db \<Rightarrow> ref_heap \<Rightarrow> eterm list \<Rightarrow>
       (nif_result \<times> 'db) \<times> ref_heap" where
  "write_op1 mk cf_opts R dbs h argv =
     with_db h (argv ! 0) (Failed, dbs) (\<lambda>db h1.
       if 3 < length argv
       then with_cf h1 (argv ! 1) (Failed, dbs) (\<lambda>cf h2.
              (case enif_inspect_binary (argv ! 2) of
                 Some key \<Rightarrow> db_write R db (argv ! cf_opts) (mk (cf_handle h2 cf) key) dbs
               | None \<Rightarrow> (Failed, dbs), h2))
       else
         (case enif_inspect_binary (argv ! 1) of
            Some key \<Rightarrow> db_write R db (argv ! 2) (mk NoCf key) dbs
          | None \<Rightarrow> (Failed, dbs), h1))"

definition Put :: "'db rocks_db \<Rightarrow> 'db \<Rightarrow> ref_heap \<Rightarrow> eterm list \<Rightarrow> (nif_result \<times> 'db) \<times> ref_heap" where
  "Put R dbs h argv = write_op2 WPut 4 R dbs h argv"

definition Merge :: "'db rocks_db \<Rightarrow> 'db \<Rightarrow> ref_heap \<Rightarrow> eterm list \<Rightarrow> (nif_result \<times> 'db) \<times> ref_heap" where
  "Merge R dbs h argv = write_op2 WMerge 3 R dbs h argv"

definition Delete :: "'db rocks_db \<Rightarrow> 'db \<Rightarrow> ref_heap \<Rightarrow> eterm list \<Rightarrow> (nif_result \<times> 'db) \<times> ref_heap" where
  "Delete R dbs h argv = write_op1 WDelete 2 R dbs h argv"

definition SingleDelete :: "'db rocks_db \<Rightarrow> 'db \<Rightarrow> ref_heap \<Rightarrow> eterm list \<Rightarrow> (nif_result \<times> 'db) \<times> ref_heap" where
  "SingleDelete R dbs h argv = write_op1 WSingleDelete 2 R dbs h argv"

definition DeleteRange :: "'db rocks_db \<Rightarrow> 'db \<Rightarrow> ref_heap \<Rightarrow> eterm list \<Rightarrow> (nif_result \<times> 'db) \<times> ref_heap" where
  "DeleteRange R dbs h argv =
     with_db h (argv ! 0) (Failed, dbs) (\<lambda>db h1.
       let run = (\<lambda>cf i. case (binary_to_slice (argv ! i), binary_to_slice (argv ! (i + 1))) of
              (Some b, Some e) \<Rightarrow> db_write R db (argv ! (i + 2)) (WDeleteRange cf b e) dbs
            | _ \<Rightarrow> (Failed, dbs))
       in if length argv = 5
          then with_cf h1 (argv ! 1) (Failed, dbs) (\<lambda>cf h2. (run (cf_handle h2 cf) 2, h2))
          else (run NoCf 1, h1))"

fun parse_columns :: "eterm list \<Rightarrow> columns option" where
  "parse_columns [] = Some []"
| "parse_columns (head # rest) =
     (case enif_get_tuple head of
        Some [n, v] \<Rightarrow>
          (case (enif_inspect_binary n, enif_inspect_binary v) of
             (Some col_name, Some col_value) \<Rightarrow> map_option ((#) (col_name, col_value)) (parse_columns rest)
           | _ \<Rightarrow> None)
      | _ \<Rightarrow> None)"

definition PutEntity :: "'db rocks_db \<Rightarrow> 'db \<Rightarrow> ref_heap \<Rightarrow> eterm list \<Rightarrow> (nif_result \<times> 'db) \<times> ref_heap" where
  "PutEntity R dbs h argv =
     with_db h (argv ! 0) (Failed, dbs) (\<lambda>db h1.
       let run = (\<lambda>cf k columns_list arg_opts.
              case enif_inspect_binary k of
                None \<Rightarrow> (Failed, dbs)
              | Some key \<Rightarrow>
                  (if \<not> enif_is_list columns_list then (Failed, dbs)
                   else case parse_columns (list_cells columns_list) of
                          None \<Rightarrow> (Failed, dbs)
                        | Some cols \<Rightarrow>
                            (case db_PutEntity R db (write_options_of arg_opts) cf key cols dbs of
                               (st, dbs1) \<Rightarrow> (Ok (status_result st), dbs1))))
       in if 4 < length argv
          then with_cf h1 (argv ! 1) (Failed, dbs) (\<lambda>cf h2. (run (cf_handle h2 cf) (argv ! 2) (argv ! 3) (argv ! 4), h2))
          else (run NoCf (argv ! 1) (argv ! 2) (argv ! 3), h1))"

section \<open>Maintenance\<close>

definition run_status :: "status \<times> 'db \<Rightarrow> nif_result \<times> 'db" where
  "run_status r = (case r of (st, dbs) \<Rightarrow> (Ok (status_result st), dbs))"

text \<open>
  \<open>begin = nullptr\<close> makes the slice empty, and \<open>CompactRange\<close> gets a pointer to it, not a
  null pointer.
\<close>

definition range_end :: "eterm \<Rightarrow> bytes option" where
  "range_end t = (if t = EAtom ''undefined'' then Some [] else binary_to_slice t)"

definition CompactRange :: "'db rocks_db \<Rightarrow> 'db \<Rightarrow> ref_heap \<Rightarrow> eterm list \<Rightarrow> (nif_result \<times> 'db) \<times> ref_heap" where
  "CompactRange R dbs h argv =
     with_db h (argv ! 0) (Failed, dbs) (\<lambda>db h1.
       let run = (\<lambda>cf i. case (range_end (argv ! i), range_end (argv ! (i + 1))) of
              (Some b, Some e) \<Rightarrow>
                run_status (db_CompactRange R db
                  (snd (nif_fold parse_compact_range_option (argv ! (i + 2)) CompactRangeOptions_init)) cf (Some b) (Some e) dbs)
            | _ \<Rightarrow> (Failed, dbs))
       in if length argv = 5
          then with_cf h1 (argv ! 1) (Failed, dbs) (\<lambda>cf h2. (run (cf_handle h2 cf) 2, h2))
          else (run NoCf 1, h1))"

definition Flush :: "'db rocks_db \<Rightarrow> 'db \<Rightarrow> ref_heap \<Rightarrow> eterm list \<Rightarrow> (nif_result \<times> 'db) \<times> ref_heap" where
  "Flush R dbs h argv =
     with_db h (argv ! 0) (Failed, dbs) (\<lambda>db h1.
       let opts = snd (nif_fold parse_flush_option (argv ! 2) FlushOptions_init)
       in if argv ! 1 = EAtom ''default_column_family''
          then (run_status (db_Flush R db opts NoCf dbs), h1)
          else with_cf h1 (argv ! 1) (Failed, dbs) (\<lambda>cf h2. (run_status (db_Flush R db opts (cf_handle h2 cf) dbs), h2)))"

definition SyncWal :: "'db rocks_db \<Rightarrow> 'db \<Rightarrow> ref_heap \<Rightarrow> eterm list \<Rightarrow> (nif_result \<times> 'db) \<times> ref_heap" where
  "SyncWal R dbs h argv =
     with_db h (argv ! 0) (Failed, dbs) (\<lambda>db h1. (run_status (db_SyncWAL R db dbs), h1))"

definition FlushWal :: "'db rocks_db \<Rightarrow> 'db \<Rightarrow> ref_heap \<Rightarrow> eterm list \<Rightarrow> (nif_result \<times> 'db) \<times> ref_heap" where
  "FlushWal R dbs h argv =
     with_db h (argv ! 0) (Failed, dbs) (\<lambda>db h1.
       (if \<not> enif_is_list (argv ! 1) then (Failed, dbs)
        else run_status (db_FlushWAL R db (snd (nif_fold parse_flush_wal_option (argv ! 1) FlushWALOptions_init)) dbs), h1))"

definition PauseBackgroundWork :: "'db rocks_db \<Rightarrow> 'db \<Rightarrow> ref_heap \<Rightarrow> eterm list \<Rightarrow> (nif_result \<times> 'db) \<times> ref_heap" where
  "PauseBackgroundWork R dbs h argv =
     with_db h (argv ! 0) (Failed, dbs) (\<lambda>db h1. (run_status (db_PauseBackgroundWork R db dbs), h1))"

definition ContinueBackgroundWork :: "'db rocks_db \<Rightarrow> 'db \<Rightarrow> ref_heap \<Rightarrow> eterm list \<Rightarrow> (nif_result \<times> 'db) \<times> ref_heap" where
  "ContinueBackgroundWork R dbs h argv =
     with_db h (argv ! 0) (Failed, dbs) (\<lambda>db h1. (run_status (db_ContinueBackgroundWork R db dbs), h1))"

definition DisableManualCompaction :: "'db rocks_db \<Rightarrow> 'db \<Rightarrow> ref_heap \<Rightarrow> eterm list \<Rightarrow> (nif_result \<times> 'db) \<times> ref_heap" where
  "DisableManualCompaction R dbs h argv =
     with_db h (argv ! 0) (Failed, dbs) (\<lambda>db h1. ((Ok e_ok, db_DisableManualCompaction R db dbs), h1))"

definition EnableManualCompaction :: "'db rocks_db \<Rightarrow> 'db \<Rightarrow> ref_heap \<Rightarrow> eterm list \<Rightarrow> (nif_result \<times> 'db) \<times> ref_heap" where
  "EnableManualCompaction R dbs h argv =
     with_db h (argv ! 0) (Failed, dbs) (\<lambda>db h1. ((Ok e_ok, db_EnableManualCompaction R db dbs), h1))"

text \<open>Without a priority RocksDB takes \<open>LOW\<close>, the default of the parameter.\<close>

definition SetDBBackgroundThreads :: "'db rocks_db \<Rightarrow> 'db \<Rightarrow> ref_heap \<Rightarrow> eterm list \<Rightarrow> (nif_result \<times> 'db) \<times> ref_heap" where
  "SetDBBackgroundThreads R dbs h argv =
     with_db h (argv ! 0) (Failed, dbs) (\<lambda>db h1.
       (case enif_get_int (argv ! 1) of
          None \<Rightarrow> (Failed, dbs)
        | Some n \<Rightarrow>
            if length argv = 3 then
              (if argv ! 2 = EAtom ''priority_high'' then (Ok e_ok, db_SetBackgroundThreads R db n HIGH dbs)
               else if argv ! 2 = EAtom ''priority_low'' then (Ok e_ok, db_SetBackgroundThreads R db n LOW dbs)
               else (Failed, dbs))
            else (Ok e_ok, db_SetBackgroundThreads R db n LOW dbs), h1))"

text \<open>
  When the checkpoint object cannot be created its pointer was never set, and it is
  deleted.
\<close>

definition Checkpoint :: "'db rocks_db \<Rightarrow> 'db \<Rightarrow> ref_heap \<Rightarrow> eterm list \<Rightarrow> (nif_result \<times> 'db) \<times> ref_heap" where
  "Checkpoint R dbs h argv =
     with_db h (argv ! 0) (Failed, dbs) (\<lambda>db h1.
       (case enif_get_string (argv ! 1) 4096 of
          None \<Rightarrow> (Failed, dbs)
        | Some path \<Rightarrow>
            if status_ok (db_NewCheckpoint R db dbs) then run_status (db_CreateCheckpoint R db path dbs)
            else (Undef, dbs), h1))"

datatype compression_type =
    kNoCompression | kSnappyCompression | kZlibCompression | kBZip2Compression
  | kLZ4Compression | kLZ4HCCompression | kXpressCompression | kZSTD

fun compression_atom :: "compression_type \<Rightarrow> eterm option" where
  "compression_atom kSnappyCompression = Some (EAtom ''snappy'')"
| "compression_atom kZlibCompression = Some (EAtom ''zlib'')"
| "compression_atom kBZip2Compression = Some (EAtom ''bzip2'')"
| "compression_atom kLZ4Compression = Some (EAtom ''lz4'')"
| "compression_atom kLZ4HCCompression = Some (EAtom ''lz4h'')"
| "compression_atom kZSTD = Some (EAtom ''zstd'')"
| "compression_atom kNoCompression = Some (EAtom ''none'')"
| "compression_atom kXpressCompression = None"

definition SupportedCompressions :: "compression_type list \<Rightarrow> nif_result" where
  "SupportedCompressions compressions = Ok (enif_make_list (List.map_filter compression_atom compressions))"

end
