(* ===== verification/Db_Props.thy ===== *)
theory Db_Props
  imports Db_Nifs
begin

text \<open>
  What the NIFs of theory \<open>Db_Nifs\<close> do. RocksDB is described by the history of a
  database, the operations applied to it in order, and by the value a history gives to
  a key. Every NIF gives back the references it takes, on every path.
\<close>

section \<open>References\<close>

named_theorems neutral \<open>calls that leave the heap as it was\<close>

lemma with_retrieved_neutral:
  assumes "Retrieve h k t = p" "\<And>a h1. snd (f a h1) = h1"
  shows "snd (with_retrieved h p bad f) = h"
  using scope_neutral [of h k t p f "p \<noteq> None" bad] assms
  by (cases p) (simp_all add: with_retrieved_def ReferencePtr_assign_def)

lemma with_db_neutral [neutral]:
  assumes "\<And>a h1. snd (f a h1) = h1"
  shows "snd (with_db h t bad f) = h"
proof (cases "RetrieveDbObject h t")
  case None
  then show ?thesis
    by (simp add: scope_defs in_scope_def ReferencePtr_assign_def ReferencePtr_drop_def)
next
  case (Some a)
  then obtain ob where ob: "mem h a = Some ob" "m_CloseRequested ob = 0"
    using Retrieve_SomeD [of h DbObject t a] by (auto simp: RetrieveDbObject_def)
  then show ?thesis
    using Some assms
    by (auto simp: scope_defs in_scope_def ReferencePtr_assign_def ReferencePtr_drop_def RefInc_open RefDec_RefInc
        case_prod_beta split: bool.split)
qed

lemma with_cf_neutral [neutral]:
  assumes "\<And>a h1. snd (f a h1) = h1"
  shows "snd (with_cf h t bad f) = h"
  using scope_neutral [of h ColumnFamilyObject t "RetrieveColumnFamilyObject h t" f] assms
  by (auto simp: scope_defs RetrieveColumnFamilyObject_def ReferencePtr_assign_def split: option.split)

lemma with_retrieved_kinds [neutral]:
  assumes "\<And>a h1. snd (f a h1) = h1"
  shows "snd (with_retrieved h (RetrieveDbObject h t) bad f) = h"
    "snd (with_retrieved h (RetrieveColumnFamilyObject h t) bad f) = h"
    "snd (with_retrieved h (RetrieveSnapshotObject h t) bad f) = h"
  using assms
  by (simp_all add: with_retrieved_neutral RetrieveDbObject_def RetrieveColumnFamilyObject_def RetrieveSnapshotObject_def)

lemma parse_read_option_heap: "fst (snd (parse_read_option item (h, opts))) = h"
proof (cases "\<exists>name val. item = ETuple [name, val]")
  case True
  then obtain name val where item: "item = ETuple [name, val]"
    by blast
  let ?w = "with_retrieved h (RetrieveSnapshotObject h val) None (\<lambda>a h1. (Some (snapshot_pointer h1 a), h1))"
  have "snd ?w = h"
    by (rule with_retrieved_kinds) simp
  then obtain r where r: "?w = (r, h)"
    by (cases ?w) simp
  have keep: "fst (snd (if c then x else y)) = h" if "fst (snd x) = h" "fst (snd y) = h"
    for c and x y :: "eterm \<times> ref_heap \<times> read_options"
    using that by simp
  have "fst (snd (case r of None \<Rightarrow> (EAtom ''badarg'', h, opts) | Some p \<Rightarrow> (e_ok, h, opts\<lparr>snapshot := p\<rparr>))) = h"
    by (simp split: option.split)
  then show ?thesis
    unfolding item parse_read_option_def
    by (simp add: Let_def split del: if_split) (intro keep; simp add: r)
next
  case False
  then show ?thesis
    by (cases "enif_get_tuple item") (auto simp: parse_read_option_def split: list.split)
qed

lemma fold_read_options_heap: "fst (snd (nif_fold_cells parse_read_option xs (h, opts))) = h"
proof (induction xs arbitrary: opts)
  case (Cons x xs)
  then show ?case
    using parse_read_option_heap [of x h opts]
    by (cases "parse_read_option x (h, opts)" rule: prod_cases3) (auto simp: Let_def)
qed simp

lemma read_options_of_heap [simp]: "fst (read_options_of h t) = h"
  by (simp add: read_options_of_def nif_fold_def fold_read_options_heap)

lemma multi_get_neutral [neutral]: "snd (multi_get classes call ks os h) = h"
  using read_options_of_heap [of h os]
  by (cases "read_options_of h os") (auto simp: multi_get_def split: option.split)

lemma db_read_heap [neutral]:
  "snd (Get R dbs h argv) = h" "snd (MultiGet R dbs h argv) = h" "snd (GetEntity R dbs h argv) = h"
  "snd (GetProperty R dbs h argv) = h" "snd (IsEmpty I h argv) = h" "snd (GetLatestSequenceNumber R dbs h argv) = h"
  "snd (GetApproximateSizes R dbs h argv) = h" "snd (GetApproximateMemTableStats R dbs h argv) = h"
  by (auto simp: Get_def MultiGet_def GetEntity_def GetProperty_def IsEmpty_def GetLatestSequenceNumber_def
      GetApproximateSizes_def GetApproximateMemTableStats_def Let_def case_prod_beta intro!: neutral split: option.split)

lemma db_write_heap [neutral]:
  "snd (Put R dbs h argv) = h" "snd (Merge R dbs h argv) = h" "snd (Delete R dbs h argv) = h"
  "snd (SingleDelete R dbs h argv) = h" "snd (DeleteRange R dbs h argv) = h" "snd (PutEntity R dbs h argv) = h"
  by (auto simp: Put_def Merge_def write_op2_def Delete_def SingleDelete_def write_op1_def DeleteRange_def
      PutEntity_def Let_def intro!: neutral)

lemma db_maintain_heap [neutral]:
  "snd (CompactRange R dbs h argv) = h" "snd (Flush R dbs h argv) = h" "snd (SyncWal R dbs h argv) = h"
  "snd (FlushWal R dbs h argv) = h" "snd (PauseBackgroundWork R dbs h argv) = h"
  "snd (ContinueBackgroundWork R dbs h argv) = h" "snd (DisableManualCompaction R dbs h argv) = h"
  "snd (EnableManualCompaction R dbs h argv) = h" "snd (SetDBBackgroundThreads R dbs h argv) = h"
  "snd (Checkpoint R dbs h argv) = h"
  by (auto simp: CompactRange_def Flush_def SyncWal_def FlushWal_def PauseBackgroundWork_def
      ContinueBackgroundWork_def DisableManualCompaction_def EnableManualCompaction_def SetDBBackgroundThreads_def
      Checkpoint_def Let_def intro!: neutral)

section \<open>Scopes on open objects\<close>

text \<open>Taking a reference changes no answer of a retrieval.\<close>

lemma RefInc_mem:
  "mem (RefInc h d) a =
     (case mem h a of
        None \<Rightarrow> None
      | Some ob \<Rightarrow> Some (if a = d \<and> m_CloseRequested ob \<noteq> 3 then ob\<lparr>m_RefCount := m_RefCount ob + 1\<rparr> else ob))"
  by (auto simp: RefInc_def with_live_def with_obj_def put_obj_def split: option.split)

lemma RefInc_answers [simp]:
  "cf_open (RefInc h d) a = cf_open h a" "db_open (RefInc h d) a = db_open h a"
  "cf_usable (RefInc h d) cf = cf_usable h cf" "cf_handle (RefInc h d) a = cf_handle h a"
  "Retrieve (RefInc h d) k t = Retrieve h k t"
proof -
  show "cf_open (RefInc h d) a = cf_open h a" "db_open (RefInc h d) a = db_open h a" for a
    by (simp_all add: cf_open_def db_open_def RefInc_mem split: option.split)
  then show "cf_usable (RefInc h d) cf = cf_usable h cf"
    by (simp add: cf_usable_def split: cf_arg.split option.split)
  show "cf_handle (RefInc h d) a = cf_handle h a"
    by (simp add: cf_handle_def RefInc_mem split: option.split)
  show "Retrieve (RefInc h d) k t = Retrieve h k t"
    by (cases t) (auto simp: Retrieve_def RefInc_mem split: option.split)
qed

lemma cf_handle_open [simp]: "cf_open h a \<Longrightarrow> cf_handle h a = CfArg (Some a)"
  by (auto simp: cf_open_def cf_handle_def split: option.splits)

lemma with_db_runs:
  assumes "db_open h d" "f d (RefInc h d) = (r, RefInc h d)"
  shows "with_db h (ERef d) bad f = (r, h)"
proof -
  obtain ob where ob: "mem h d = Some ob" "kind ob = DbObject" "m_CloseRequested ob = 0" "m_Native ob"
    using assms(1) by (auto simp: db_open_def split: option.splits)
  then show ?thesis
    by (simp add: scope_defs in_scope_def RetrieveDbObject_def Retrieve_def ReferencePtr_assign_def
        ReferencePtr_drop_def assms(2) RefDec_RefInc RefInc_open)
qed

lemma with_cf_runs:
  assumes "cf_open h a" "f a (RefInc h a) = (r, RefInc h a)"
  shows "with_cf h (ERef a) bad f = (r, h)"
proof -
  obtain ob where ob: "mem h a = Some ob" "kind ob = ColumnFamilyObject" "m_CloseRequested ob = 0" "m_Native ob"
    using assms(1) by (auto simp: cf_open_def split: option.splits)
  then show ?thesis
    by (simp add: scope_defs in_scope_def RetrieveColumnFamilyObject_def Retrieve_def ReferencePtr_assign_def
        ReferencePtr_drop_def assms(2) RefDec_RefInc)
qed

lemma cf_usableE:
  assumes "cf_usable h cf"
  obtains "cf = NoCf" | a where "cf = CfArg (Some a)" "cf_open h a"
  using assms by (auto simp: cf_usable_def split: cf_arg.splits option.splits)

section \<open>Histories\<close>

text \<open>Whether an operation concerns a key, and what it does to its value; \<open>mrg\<close> is the merge operator.\<close>

fun touches :: "cf_arg \<Rightarrow> bytes \<Rightarrow> batch_op \<Rightarrow> bool" where
  "touches cf k (WPut c x v) \<longleftrightarrow> c = cf \<and> x = k"
| "touches cf k (WMerge c x v) \<longleftrightarrow> c = cf \<and> x = k"
| "touches cf k (WDelete c x) \<longleftrightarrow> c = cf \<and> x = k"
| "touches cf k (WSingleDelete c x) \<longleftrightarrow> c = cf \<and> x = k"
| "touches cf k (WDeleteRange c b e) \<longleftrightarrow> c = cf \<and> b \<le> k \<and> k < e"

fun op_value :: "(bytes option \<Rightarrow> bytes \<Rightarrow> bytes) \<Rightarrow> batch_op \<Rightarrow> bytes option \<Rightarrow> bytes option" where
  "op_value mrg (WPut c x v) old = Some v"
| "op_value mrg (WMerge c x v) old = Some (mrg old v)"
| "op_value mrg _ old = None"

definition value_of ::
    "(cf_arg \<Rightarrow> bytes \<Rightarrow> bytes option \<Rightarrow> bytes \<Rightarrow> bytes) \<Rightarrow> cf_arg \<Rightarrow> bytes \<Rightarrow> batch_op list \<Rightarrow> bytes option" where
  "value_of mrg cf k cs = fold (op_value (mrg cf k)) (filter (touches cf k) cs) None"

text \<open>
  RocksDB defines single deletions only for keys that are written once between two of
  them and neither deleted nor merged otherwise.
\<close>

fun is_single :: "batch_op \<Rightarrow> bool" where
  "is_single (WSingleDelete c x) = True"
| "is_single _ = False"

fun single_use :: "bool \<Rightarrow> batch_op list \<Rightarrow> bool" where
  "single_use written [] = True"
| "single_use written (WPut c x v # cs) = (\<not> written \<and> single_use True cs)"
| "single_use written (WSingleDelete c x # cs) = (written \<and> single_use False cs)"
| "single_use written (_ # cs) = False"

definition single_safe :: "cf_arg \<Rightarrow> bytes \<Rightarrow> batch_op list \<Rightarrow> bool" where
  "single_safe cf k cs =
     (let ops = filter (touches cf k) cs in list_all (\<lambda>c. \<not> is_single c) ops \<or> single_use False ops)"

text \<open>
  The documented behaviour of \<open>rocksdb::DB\<close>. \<open>history dbs d\<close> are the operations applied to a
  database, \<open>seen dbs s\<close> those a snapshot sees. A read that may use every tier gives the
  value of the key in the history, or in the history of the snapshot, when it succeeds,
  and \<open>NotFound\<close> only when there is none; reads may also fail. A write that succeeds is
  applied, and no write changes what a snapshot sees. A multi-get gives for every key
  what a get gives. These laws are those of a plain database: a compaction filter removes
  or changes entries no operation removed, and a database opened with a time to live
  drops expired ones, so neither obeys them.
\<close>

definition apply_laws ::
    "'db rocks_db \<Rightarrow> ('db \<Rightarrow> addr \<Rightarrow> batch_op list) \<Rightarrow> ('db \<Rightarrow> addr \<Rightarrow> batch_op list) \<Rightarrow> bool" where
  "apply_laws R history seen \<longleftrightarrow>
     (\<forall>d opts c dbs st dbs1. db_apply R d opts c dbs = (st, dbs1) \<longrightarrow> op_ok c \<longrightarrow>
        seen dbs1 = seen dbs \<and> (status_ok st \<longrightarrow> history dbs1 = (history dbs)(d := history dbs d @ [c])))"

definition db_laws ::
    "'db rocks_db \<Rightarrow> ('db \<Rightarrow> addr \<Rightarrow> batch_op list) \<Rightarrow> ('db \<Rightarrow> addr \<Rightarrow> batch_op list) \<Rightarrow>
       (cf_arg \<Rightarrow> bytes \<Rightarrow> bytes option \<Rightarrow> bytes \<Rightarrow> bytes) \<Rightarrow> bool" where
  "db_laws R history seen mrg \<longleftrightarrow>
     apply_laws R history seen \<and>
     (\<forall>d opts cf k dbs st v cs. db_Get R d opts cf k dbs = (st, v) \<longrightarrow> read_tier opts = kReadAllTier \<longrightarrow>
        cs = (case snapshot opts of None \<Rightarrow> history dbs d | Some s \<Rightarrow> seen dbs s) \<longrightarrow> single_safe cf k cs \<longrightarrow>
        (status_ok st \<longrightarrow> value_of mrg cf k cs = Some v) \<and> (code st = kNotFound \<longrightarrow> value_of mrg cf k cs = None)) \<and>
     (\<forall>d opts cf ks dbs i. i < length ks \<longrightarrow> db_MultiGet R d opts cf ks dbs i = db_Get R d opts cf (ks ! i) dbs)"

lemma apply_lawsD:
  assumes "apply_laws R history seen" "db_apply R d wopts c dbs = (st, dbs1)" "op_ok c"
  shows "seen dbs1 = seen dbs" "status_ok st \<Longrightarrow> history dbs1 = (history dbs)(d := history dbs d @ [c])"
  using assms(1) [unfolded apply_laws_def, rule_format, OF assms(2,3)] by simp_all

lemma db_lawsD:
  assumes "db_laws R history seen mrg"
  shows "apply_laws R history seen"
    "db_Get R d opts cf k dbs = (st, v) \<Longrightarrow> read_tier opts = kReadAllTier \<Longrightarrow>
       cs = (case snapshot opts of None \<Rightarrow> history dbs d | Some s \<Rightarrow> seen dbs s) \<Longrightarrow> single_safe cf k cs \<Longrightarrow>
       (status_ok st \<longrightarrow> value_of mrg cf k cs = Some v) \<and> (code st = kNotFound \<longrightarrow> value_of mrg cf k cs = None)"
    "i < length ks \<Longrightarrow> db_MultiGet R d opts cf ks dbs i = db_Get R d opts cf (ks ! i) dbs"
proof -
  note laws = assms [unfolded db_laws_def]
  show "apply_laws R history seen"
    using laws by simp
  show "db_Get R d opts cf k dbs = (st, v) \<Longrightarrow> read_tier opts = kReadAllTier \<Longrightarrow>
       cs = (case snapshot opts of None \<Rightarrow> history dbs d | Some s \<Rightarrow> seen dbs s) \<Longrightarrow> single_safe cf k cs \<Longrightarrow>
       (status_ok st \<longrightarrow> value_of mrg cf k cs = Some v) \<and> (code st = kNotFound \<longrightarrow> value_of mrg cf k cs = None)"
    using laws [THEN conjunct2, THEN conjunct1, rule_format, of d opts cf k dbs st v cs] by simp
  show "i < length ks \<Longrightarrow> db_MultiGet R d opts cf ks dbs i = db_Get R d opts cf (ks ! i) dbs"
    using laws [THEN conjunct2, THEN conjunct2, rule_format, of i ks d opts cf dbs] by simp
qed

section \<open>Calls on an open database\<close>

text \<open>The call of a program that applies an operation, with its options last.\<close>

definition write_call ::
    "'db rocks_db \<Rightarrow> addr \<Rightarrow> batch_op \<times> eterm \<Rightarrow> 'db \<Rightarrow> ref_heap \<Rightarrow> (nif_result \<times> 'db) \<times> ref_heap" where
  "write_call R d c dbs h =
     (let argv = ERef d # cf_terms (op_cf (fst c)) @ map EBin (op_slices (fst c)) @ [snd c]
      in case fst c of
           WPut _ _ _ \<Rightarrow> Put R dbs h argv
         | WMerge _ _ _ \<Rightarrow> Merge R dbs h argv
         | WDelete _ _ \<Rightarrow> Delete R dbs h argv
         | WSingleDelete _ _ \<Rightarrow> SingleDelete R dbs h argv
         | WDeleteRange _ _ _ \<Rightarrow> DeleteRange R dbs h argv)"

fun write_calls ::
    "'db rocks_db \<Rightarrow> addr \<Rightarrow> (batch_op \<times> eterm) list \<Rightarrow> 'db \<Rightarrow> ref_heap \<Rightarrow> nif_result list \<times> 'db \<times> ref_heap" where
  "write_calls R d [] dbs h = ([], dbs, h)"
| "write_calls R d (c # cs) dbs h =
     (case write_call R d c dbs h of
        ((r, dbs1), h1) \<Rightarrow> (case write_calls R d cs dbs1 h1 of (rs, dbs2, h2) \<Rightarrow> (r # rs, dbs2, h2)))"

text \<open>The options RocksDB gets: with a column family only \<open>Put\<close> and \<open>DeleteRange\<close> read them.\<close>

fun options_read :: "batch_op \<Rightarrow> bool" where
  "options_read (WPut cf k v) = True"
| "options_read (WMerge cf k v) = (cf = NoCf)"
| "options_read (WDelete cf k) = (cf = NoCf)"
| "options_read (WSingleDelete cf k) = (cf = NoCf)"
| "options_read (WDeleteRange cf b e) = True"

lemma write_options_no_list [simp]: "write_options_of (EBin b) = WriteOptions_init"
  by (simp add: write_options_of_def nif_fold_def)

lemma write_op2_open:
  assumes "db_open h d" "cf_usable h cf" "n = m + 2"
  shows "write_op2 mk n R dbs h (ERef d # cf_terms cf @ [EBin k, EBin v, opts]) =
    (db_write R d (if cf = NoCf then opts else [EBin k, EBin v, opts] ! m) (mk cf k v) dbs, h)"
  using assms(2)
proof (cases rule: cf_usableE)
  case 1
  then show ?thesis
    unfolding write_op2_def nth_Cons_0
    by (intro with_db_runs [OF assms(1)]) (simp add: numeral_2_eq_2 numeral_3_eq_3)
next
  case (2 a)
  show ?thesis
    unfolding write_op2_def nth_Cons_0
    by (intro with_db_runs [OF assms(1)], simp add: 2(1), intro with_cf_runs)
      (use 2 assms(3) in \<open>simp_all add: numeral_2_eq_2 numeral_3_eq_3\<close>)
qed

lemma write_op1_open:
  assumes "db_open h d" "cf_usable h cf" "n = m + 2"
  shows "write_op1 mk n R dbs h (ERef d # cf_terms cf @ [EBin k, opts]) =
    (db_write R d (if cf = NoCf then opts else [EBin k, opts] ! m) (mk cf k) dbs, h)"
  using assms(2)
proof (cases rule: cf_usableE)
  case 1
  then show ?thesis
    unfolding write_op1_def nth_Cons_0
    by (intro with_db_runs [OF assms(1)]) (simp add: numeral_2_eq_2)
next
  case (2 a)
  show ?thesis
    unfolding write_op1_def nth_Cons_0
    by (intro with_db_runs [OF assms(1)], simp add: 2(1), intro with_cf_runs)
      (use 2 assms(3) in \<open>simp_all add: numeral_2_eq_2\<close>)
qed

lemma DeleteRange_open:
  assumes "db_open h d" "cf_usable h cf"
  shows "DeleteRange R dbs h (ERef d # cf_terms cf @ [EBin b, EBin e, opts]) =
    (db_write R d opts (WDeleteRange cf b e) dbs, h)"
  using assms(2)
proof (cases rule: cf_usableE)
  case 1
  then show ?thesis
    unfolding DeleteRange_def nth_Cons_0 Let_def
    by (intro with_db_runs [OF assms(1)]) (simp add: numeral_2_eq_2 numeral_3_eq_3 binary_to_slice_def)
next
  case (2 a)
  show ?thesis
    unfolding DeleteRange_def nth_Cons_0 Let_def
    by (intro with_db_runs [OF assms(1)], simp add: 2(1), intro with_cf_runs)
      (use 2 in \<open>simp_all add: numeral_2_eq_2 numeral_3_eq_3 binary_to_slice_def\<close>)
qed

lemma write_options_none [simp]: "write_options_of ENil = WriteOptions_init"
  by (simp add: write_options_of_def nif_fold_def)

text \<open>An open database applies the operation, with the default options where the given ones are not read.\<close>

definition options_used :: "batch_op \<Rightarrow> eterm \<Rightarrow> write_options" where
  "options_used c opts = (if options_read c then write_options_of opts else WriteOptions_init)"

lemma write_call_open:
  assumes "db_open h d" "cf_usable h (op_cf c)"
  shows "write_call R d (c, opts) dbs h =
    ((Ok (status_result (fst (db_apply R d (options_used c opts) c dbs))),
      snd (db_apply R d (options_used c opts) c dbs)), h)"
proof (cases c)
  case (WPut cf k v)
  then show ?thesis
    using write_op2_open [OF assms(1), of cf 4 2 WPut R dbs k v opts] assms(2)
    by (simp add: write_call_def options_used_def Put_def db_write_def case_prod_beta)
next
  case (WMerge cf k v)
  then show ?thesis
    using write_op2_open [OF assms(1), of cf 3 1 WMerge R dbs k v opts] assms(2)
    by (simp add: write_call_def options_used_def Merge_def db_write_def case_prod_beta)
next
  case (WDelete cf k)
  then show ?thesis
    using write_op1_open [OF assms(1), of cf 2 0 WDelete R dbs k opts] assms(2)
    by (simp add: write_call_def options_used_def Delete_def db_write_def case_prod_beta)
next
  case (WSingleDelete cf k)
  then show ?thesis
    using write_op1_open [OF assms(1), of cf 2 0 WSingleDelete R dbs k opts] assms(2)
    by (simp add: write_call_def options_used_def SingleDelete_def db_write_def case_prod_beta)
next
  case (WDeleteRange cf b e)
  then show ?thesis
    using DeleteRange_open [OF assms(1), of cf R dbs b e opts] assms(2)
    by (simp add: write_call_def options_used_def db_write_def case_prod_beta)
qed

lemma write_calls_history:
  assumes "apply_laws R history seen" "db_open h d" "\<forall>c \<in> set cs. op_ok (fst c) \<and> cf_usable h (op_cf (fst c))"
    and "write_calls R d cs dbs h = (rs, dbs1, h1)" "set rs \<subseteq> {Ok e_ok}"
  shows "h1 = h \<and> seen dbs1 = seen dbs \<and> history dbs1 = (history dbs)(d := history dbs d @ map fst cs)"
  using assms(3-5)
proof (induction cs arbitrary: dbs rs)
  case (Cons c cs)
  obtain op opts where c: "c = (op, opts)"
    by fastforce
  obtain st dbs' where st: "db_apply R d (options_used op opts) op dbs = (st, dbs')"
    by fastforce
  have call: "write_call R d c dbs h = ((Ok (status_result st), dbs'), h)"
    using write_call_open [OF assms(2), of op R opts dbs] Cons.prems(1) c st by simp
  obtain rs' dbs2 h2 where rest: "write_calls R d cs dbs' h = (rs', dbs2, h2)"
    by (metis prod_cases3)
  then have rs: "rs = Ok (status_result st) # rs'" "write_calls R d cs dbs' h = (rs', dbs1, h1)"
    using Cons.prems(2) call by simp_all
  have "status_result st = e_ok"
    using Cons.prems(3) rs(1) by simp
  then have "status_ok st"
    by (rule contrapos_pp) (simp add: status_result_def error_tuple_def e_ok_def)
  moreover have "op_ok op"
    using Cons.prems(1) c by simp
  ultimately have "seen dbs' = seen dbs" "history dbs' = (history dbs)(d := history dbs d @ [op])"
    using apply_lawsD [OF assms(1) st] by auto
  moreover have "h1 = h \<and> seen dbs1 = seen dbs' \<and> history dbs1 = (history dbs')(d := history dbs' d @ map fst cs)"
    by (rule Cons.IH [OF _ rs(2)]) (use Cons.prems(1,3) rs(1) in simp_all)
  ultimately show ?case
    by (simp add: c)
qed simp

section \<open>Reads of an open database\<close>

definition snapshot_of :: "ref_heap \<Rightarrow> eterm \<Rightarrow> addr option option" where
  "snapshot_of h val = map_option (snapshot_pointer h) (RetrieveSnapshotObject h val)"

lemma with_snapshot:
  "with_retrieved h (RetrieveSnapshotObject h val) None (\<lambda>a h1. (Some (snapshot_pointer h1 a), h1)) = (snapshot_of h val, h)"
proof (cases "RetrieveSnapshotObject h val")
  case None
  then show ?thesis
    by (simp add: with_retrieved_def ReferencePtr_assign_def in_scope_def ReferencePtr_drop_def snapshot_of_def)
next
  case (Some a)
  then obtain ob where ob: "mem h a = Some ob" "m_CloseRequested ob = 0"
    using Retrieve_SomeD [of h SnapshotObject val a] by (auto simp: RetrieveSnapshotObject_def)
  have "snapshot_pointer (RefInc h a) a = snapshot_pointer h a"
    by (simp add: snapshot_pointer_def RefInc_mem split: option.split)
  then show ?thesis
    using Some ob
    by (simp add: with_retrieved_def ReferencePtr_assign_def in_scope_def ReferencePtr_drop_def RefDec_RefInc snapshot_of_def)
qed

lemma snapshot_of_RefInc [simp]: "snapshot_of (RefInc h d) val = snapshot_of h val"
proof -
  have "snapshot_pointer (RefInc h d) = snapshot_pointer h"
    by (rule ext) (simp add: snapshot_pointer_def RefInc_mem split: option.split)
  then show ?thesis
    by (simp add: snapshot_of_def RetrieveSnapshotObject_def)
qed

lemma parse_read_option_cong:
  assumes "snapshot_of h' = snapshot_of h" "parse_read_option item (h, opts) = (r, h1, opts1)"
  shows "parse_read_option item (h', opts) = (r, h', opts1)"
proof (cases "\<exists>name val. item = ETuple [name, val]")
  case True
  then obtain name val where item: "item = ETuple [name, val]"
    by blast
  have keep: "(if c then x' else y') = (r, h', opts1)"
    if "(if c then x else y) = (r, h1, opts1)" "x = (r, h1, opts1) \<Longrightarrow> x' = (r, h', opts1)"
      "y = (r, h1, opts1) \<Longrightarrow> y' = (r, h', opts1)"
    for c and x y x' y' :: "eterm \<times> ref_heap \<times> read_options"
    using that by (simp split: if_splits)
  show ?thesis
    using assms(2)
    unfolding item parse_read_option_def with_snapshot assms(1)
    by (simp add: Let_def with_snapshot assms(1) split del: if_split)
      (elim keep; use fun_cong [OF assms(1), of val] in \<open>auto split: option.splits\<close>)
next
  case False
  then show ?thesis
    using assms(2) by (cases "enif_get_tuple item") (auto simp: parse_read_option_def split: list.splits)
qed

lemma fold_read_options_cong:
  assumes "snapshot_of h' = snapshot_of h" "nif_fold_cells parse_read_option xs (h, opts) = (r, h1, opts1)"
  shows "nif_fold_cells parse_read_option xs (h', opts) = (r, h', opts1)"
  using assms(2)
proof (induction xs arbitrary: opts)
  case (Cons x xs)
  obtain r1 h2 opts2 where x: "parse_read_option x (h, opts) = (r1, h2, opts2)"
    by (metis prod_cases3)
  then have "h2 = h"
    using parse_read_option_heap [of x h opts] by simp
  with x Cons show ?case
    using parse_read_option_cong [OF assms(1) x] by (simp add: Let_def split: if_splits)
qed simp

lemma read_options_of_RefInc [simp]: "read_options_of (RefInc h d) t = (RefInc h d, snd (read_options_of h t))"
proof -
  obtain r h1 opts where fo: "nif_fold_cells parse_read_option (list_cells t) (h, ReadOptions_init) = (r, h1, opts)"
    by (metis prod_cases3)
  have "snapshot_of (RefInc h d) = snapshot_of h"
    by (rule ext) simp
  from fold_read_options_cong [OF this fo] fo show ?thesis
    by (simp add: read_options_of_def nif_fold_def)
qed

lemma Get_open:
  assumes "db_open h d" "cf_usable h cf"
  shows "Get R dbs h (ERef d # cf_terms cf @ [EBin k, opts]) =
    (Ok (value_result read_classes (db_Get R d (snd (read_options_of h opts)) cf k dbs)), h)"
  using assms(2)
proof (cases rule: cf_usableE)
  case 1
  then show ?thesis
    unfolding Get_def nth_Cons_0
    by (intro with_db_runs [OF assms(1)]) (simp add: numeral_2_eq_2 binary_to_slice_def)
next
  case (2 a)
  show ?thesis
    unfolding Get_def nth_Cons_0
    by (intro with_db_runs [OF assms(1)], simp add: 2(1) numeral_2_eq_2 binary_to_slice_def, intro with_cf_runs)
      (use 2 in simp_all)
qed

lemma key_slices_bins [simp]: "key_slices (map EBin ks) = Some ks"
  by (induction ks) auto

lemma MultiGet_open:
  assumes "db_open h d" "cf_usable h cf"
  shows "MultiGet R dbs h (ERef d # cf_terms cf @ [enif_make_list (map EBin ks), opts]) =
    (Ok (enif_make_list (map (\<lambda>i. value_result read_classes (db_MultiGet R d (snd (read_options_of h opts)) cf ks dbs i))
       [0..<length ks])), h)"
  using assms(2)
proof (cases rule: cf_usableE)
  case 1
  then show ?thesis
    unfolding MultiGet_def nth_Cons_0
    by (intro with_db_runs [OF assms(1)]) (simp add: numeral_2_eq_2 multi_get_def)
next
  case (2 a)
  show ?thesis
    unfolding MultiGet_def nth_Cons_0
    by (intro with_db_runs [OF assms(1)], simp add: 2(1), intro with_cf_runs)
      (use 2 in \<open>simp_all add: numeral_2_eq_2 numeral_3_eq_3 multi_get_def\<close>)
qed

lemma value_result_cases:
  "value_result classes (st, v) = ok_tuple (EBin v) \<and> status_ok st \<or>
   value_result classes (st, v) = EAtom ''not_found'' \<and> code st = kNotFound \<or>
   (\<exists>e. value_result classes (st, v) = ETuple [EAtom ''error'', e])"
  by (auto simp: value_result_def class_error_def error_tuple_def)

section \<open>A database as its history\<close>

text \<open>An instance of the laws: the state is the history of every database and what every snapshot sees.\<close>

type_synonym histories = "(addr \<Rightarrow> batch_op list) \<times> (addr \<Rightarrow> batch_op list)"

definition list_db :: "(cf_arg \<Rightarrow> bytes \<Rightarrow> bytes option \<Rightarrow> bytes \<Rightarrow> bytes) \<Rightarrow> histories rocks_db" where
  "list_db mrg =
     (let get = (\<lambda>d opts cf k dbs.
            case value_of mrg cf k (case snapshot opts of None \<Rightarrow> fst dbs d | Some s \<Rightarrow> snd dbs s) of
              Some v \<Rightarrow> (ok_status, v)
            | None \<Rightarrow> (\<lparr>code = kNotFound, ToString = ''NotFound: ''\<rparr>, []))
      in \<lparr>db_Get = get, db_MultiGet = (\<lambda>d opts cf ks dbs i. get d opts cf (ks ! i) dbs),
          db_apply = (\<lambda>d opts c dbs. (ok_status, ((fst dbs)(d := fst dbs d @ [c]), snd dbs))),
          db_GetEntity = (\<lambda>d opts cf k dbs. (\<lparr>code = kOther, ToString = ''Not implemented: ''\<rparr>, [])),
          db_PutEntity = (\<lambda>d opts cf k cols dbs. (\<lparr>code = kOther, ToString = ''Not implemented: ''\<rparr>, dbs)),
          db_GetProperty = (\<lambda>d cf n dbs. None), db_GetLatestSequenceNumber = (\<lambda>d dbs. of_nat (length (fst dbs d))),
          db_GetApproximateSizes = (\<lambda>d cf rs fl dbs i. 0), db_GetApproximateMemTableStats = (\<lambda>d cf r dbs. (0, 0)),
          db_CompactRange = (\<lambda>d opts cf b e dbs. (ok_status, dbs)), db_Flush = (\<lambda>d opts cf dbs. (ok_status, dbs)),
          db_SyncWAL = (\<lambda>d dbs. (ok_status, dbs)), db_FlushWAL = (\<lambda>d opts dbs. (ok_status, dbs)),
          db_PauseBackgroundWork = (\<lambda>d dbs. (ok_status, dbs)), db_ContinueBackgroundWork = (\<lambda>d dbs. (ok_status, dbs)),
          db_DisableManualCompaction = (\<lambda>d dbs. dbs), db_EnableManualCompaction = (\<lambda>d dbs. dbs),
          db_SetBackgroundThreads = (\<lambda>d n p dbs. dbs), db_NewCheckpoint = (\<lambda>d dbs. ok_status),
          db_CreateCheckpoint = (\<lambda>d path dbs. (ok_status, dbs))\<rparr>)"

lemma list_db_simps [simp]:
  "db_apply (list_db mrg) d wopts c dbs = (ok_status, ((fst dbs)(d := fst dbs d @ [c]), snd dbs))"
  "db_Get (list_db mrg) d opts cf k dbs =
     (case value_of mrg cf k (case snapshot opts of None \<Rightarrow> fst dbs d | Some s \<Rightarrow> snd dbs s) of
        Some v \<Rightarrow> (ok_status, v) | None \<Rightarrow> (\<lparr>code = kNotFound, ToString = ''NotFound: ''\<rparr>, []))"
  "db_MultiGet (list_db mrg) d opts cf ks dbs i = db_Get (list_db mrg) d opts cf (ks ! i) dbs"
  by (simp_all add: list_db_def Let_def)

lemma list_db_laws: "db_laws (list_db mrg) fst snd mrg"
  unfolding db_laws_def apply_laws_def
  by (intro conjI allI impI) (auto simp: status_ok_def ok_status_def split: option.splits simp del: split_paired_All)

section \<open>Properties\<close>

text \<open>
  Claim C17. Reads see the writes: after any sequence of \<open>put\<close>, \<open>merge\<close>, \<open>delete\<close>,
  \<open>single_delete\<close> and \<open>delete_range\<close> calls on an open database that all answered \<open>ok\<close>, in
  any column families, a \<open>get\<close> answers \<open>{ok, Value}\<close> with the value the operations give to
  the key in that column family, or \<open>not_found\<close> when they give none, or an error; with a
  snapshot it answers from what the snapshot sees, whatever was written since. No call
  changes a handle. The database has no compaction filter and no time to live, as the laws of
  its calls require.
\<close>

theorem get_after_writes:
  assumes "db_laws R history seen mrg" "db_open h d" "\<forall>c \<in> set cs. op_ok (fst c) \<and> cf_usable h (op_cf (fst c))"
    and "write_calls R d cs dbs h = (rs, dbs1, h1)" "set rs \<subseteq> {Ok e_ok}"
    and "cf_usable h cf" "read_options_of h opts = (h2, ropts)" "read_tier ropts = kReadAllTier"
    and "ops = (case snapshot ropts of None \<Rightarrow> history dbs d @ map fst cs | Some s \<Rightarrow> seen dbs s)" "single_safe cf k ops"
  shows "h1 = h \<and> (\<exists>r. Get R dbs1 h1 (ERef d # cf_terms cf @ [EBin k, opts]) = (Ok r, h) \<and>
    ((\<exists>v. r = ok_tuple (EBin v) \<and> value_of mrg cf k ops = Some v) \<or>
     r = EAtom ''not_found'' \<and> value_of mrg cf k ops = None \<or> (\<exists>e. r = ETuple [EAtom ''error'', e])))"
proof -
  have w: "h1 = h" "seen dbs1 = seen dbs" "history dbs1 = (history dbs)(d := history dbs d @ map fst cs)"
    using write_calls_history [OF db_lawsD(1) [OF assms(1)] assms(2-5)] by auto
  obtain st v where get: "db_Get R d ropts cf k dbs1 = (st, v)"
    by fastforce
  have "ops = (case snapshot ropts of None \<Rightarrow> history dbs1 d | Some s \<Rightarrow> seen dbs1 s)"
    using assms(9) w by (simp split: option.split)
  from db_lawsD(2) [OF assms(1) get assms(8) this assms(10)]
  have "status_ok st \<longrightarrow> value_of mrg cf k ops = Some v" "code st = kNotFound \<longrightarrow> value_of mrg cf k ops = None"
    by auto
  moreover have "Get R dbs1 h (ERef d # cf_terms cf @ [EBin k, opts]) = (Ok (value_result read_classes (st, v)), h)"
    using Get_open [OF assms(2,6), of R dbs1 k opts] get assms(7) by simp
  ultimately show ?thesis
    using w(1) value_result_cases [of read_classes st v] by auto
qed

theorem get_after_writes_witness:
  "\<exists>rs dbs1 r. write_calls (list_db (\<lambda>_ _ _ v. v)) 0
      [(WPut NoCf [1] [2], ENil), (WMerge NoCf [1] [9], ENil), (WDeleteRange NoCf [5] [6], ENil)] (\<lambda>_. [], \<lambda>_. []) db_heap =
      (rs, dbs1, db_heap) \<and>
    Get (list_db (\<lambda>_ _ _ v. v)) dbs1 db_heap [ERef 0, EBin [1], ENil] = (Ok r, db_heap) \<and>
    (r = ok_tuple (EBin [9]) \<or> (\<exists>e. r = ETuple [EAtom ''error'', e]))"
proof -
  let ?R = "list_db (\<lambda>_ _ _ v. v)" and ?dbs = "(\<lambda>_. [], \<lambda>_. []) :: histories"
  let ?cs = "[(WPut NoCf [1] [2], ENil), (WMerge NoCf [1] [9], ENil), (WDeleteRange NoCf [5] [6], ENil)]"
  have ok: "\<forall>c \<in> set ?cs. op_ok (fst c) \<and> cf_usable db_heap (op_cf (fst c))"
    by (simp add: op_ok_def cf_usable_def)
  have call: "write_call ?R 0 (c, opts) dbs db_heap = ((Ok e_ok, ((fst dbs)(0 := fst dbs 0 @ [c]), snd dbs)), db_heap)"
    if "op_cf c = NoCf" for c opts dbs
    using that write_call_open [OF db_heap_open(1), of c ?R opts dbs] by (simp add: cf_usable_def status_result_def)
  have run: "write_calls ?R 0 ?cs ?dbs db_heap = (replicate 3 (Ok e_ok), ((\<lambda>_. [])(0 := map fst ?cs), \<lambda>_. []), db_heap)"
    by (simp add: call numeral_3_eq_3)
  have opts: "read_options_of db_heap ENil = (db_heap, ReadOptions_init)"
    by (simp add: read_options_of_def nif_fold_def)
  from get_after_writes [OF list_db_laws db_heap_open(1) ok run _ _ opts, of NoCf "map fst ?cs" "[1]"] run show ?thesis
    by (auto simp: cf_usable_def ReadOptions_init_def single_safe_def value_of_def)
qed

text \<open>
  A multi-get is a get per key: \<open>multi_get\<close> on an open database answers the list
  of what \<open>get\<close> answers for each key, in the order of the keys, with the same options and
  column family, and the empty list for no keys.
\<close>

theorem multi_get_is_get:
  assumes "db_laws R history seen mrg" "db_open h d" "cf_usable h cf"
  shows "\<exists>ts. MultiGet R dbs h (ERef d # cf_terms cf @ [enif_make_list (map EBin ks), opts]) = (Ok (enif_make_list ts), h) \<and>
    map (\<lambda>k. Get R dbs h (ERef d # cf_terms cf @ [EBin k, opts])) ks = map (\<lambda>t. (Ok t, h)) ts"
proof -
  let ?o = "snd (read_options_of h opts)"
  let ?ts = "map (\<lambda>k. value_result read_classes (db_Get R d ?o cf k dbs)) ks"
  have "map (\<lambda>i. value_result read_classes (db_MultiGet R d ?o cf ks dbs i)) [0..<length ks] = ?ts"
    by (rule nth_equalityI) (simp_all add: db_lawsD(3) [OF assms(1)])
  then show ?thesis
    by (intro exI [of _ ?ts]) (simp add: MultiGet_open [OF assms(2,3)] Get_open [OF assms(2,3)])
qed

theorem multi_get_is_get_witness:
  "\<exists>ts. MultiGet (list_db (\<lambda>_ _ _ v. v)) (\<lambda>_. [WPut NoCf [1] [2]], \<lambda>_. []) db_heap
      [ERef 0, enif_make_list [EBin [1], EBin [7]], ENil] = (Ok (enif_make_list ts), db_heap) \<and>
    ts = [ok_tuple (EBin [2]), EAtom ''not_found'']"
proof -
  let ?R = "list_db (\<lambda>_ _ _ v. v)" and ?dbs = "(\<lambda>_. [WPut NoCf [1] [2]], \<lambda>_. []) :: histories"
  have "Get ?R ?dbs db_heap [ERef 0, EBin [1], ENil] = (Ok (ok_tuple (EBin [2])), db_heap)"
    "Get ?R ?dbs db_heap [ERef 0, EBin [7], ENil] = (Ok (EAtom ''not_found''), db_heap)"
    using Get_open [OF db_heap_open(1), of NoCf ?R ?dbs _ ENil]
    by (simp_all add: cf_usable_def read_options_of_def nif_fold_def ReadOptions_init_def value_of_def value_result_def
        status_ok_def ok_status_def)
  then show ?thesis
    using multi_get_is_get [OF list_db_laws db_heap_open(1), of NoCf "\<lambda>_ _ _ v. v" ?dbs "[[1], [7]]" ENil]
    by (auto simp: cf_usable_def)
qed

text \<open>
  Calls with a column family misread their arguments: \<open>merge\<close>, \<open>delete\<close> and
  \<open>single_delete\<close> never look at the write options given last and write with the default
  ones, so a \<open>sync\<close> request is lost, while \<open>put\<close> honours them; and \<open>get_approximate_sizes\<close>
  is \<open>badarg\<close> whenever its four arguments include a column family.
\<close>

theorem cf_arguments_misread:
  assumes "db_open h d" "cf_open h a"
  shows "write_call R d (WPut (CfArg (Some a)) k v, opts) dbs h =
      (run_status (db_apply R d (write_options_of opts) (WPut (CfArg (Some a)) k v) dbs), h) \<and>
    (\<forall>c \<in> {WMerge (CfArg (Some a)) k v, WDelete (CfArg (Some a)) k, WSingleDelete (CfArg (Some a)) k}.
      write_call R d (c, opts) dbs h = (run_status (db_apply R d WriteOptions_init c dbs), h)) \<and>
    GetApproximateSizes R dbs h [ERef d, ERef a, enif_make_list ranges, flag] = (Failed, h)"
proof -
  have "cf_usable h (CfArg (Some a))"
    using assms(2) by (simp add: cf_usable_def)
  moreover have "GetApproximateSizes R dbs h [ERef d, ERef a, enif_make_list ranges, flag] = (Failed, h)"
  proof -
    have "parse_size_flag (enif_make_list ranges) = None"
      by (cases ranges) (simp_all add: parse_size_flag_def enif_make_list_def)
    then show ?thesis
      unfolding GetApproximateSizes_def nth_Cons_0
      by (intro with_db_runs [OF assms(1)]) (simp add: numeral_2_eq_2 approximate_sizes_def)
  qed
  ultimately show ?thesis
    using assms(1) by (simp add: write_call_open options_used_def run_status_def case_prod_beta)
qed

theorem cf_arguments_misread_witness:
  "write_call (list_db (\<lambda>_ _ _ v. v)) 0 (WDelete (CfArg (Some 1)) [7], enif_make_list [ETuple [EAtom ''sync'', EAtom ''true'']])
      (\<lambda>_. [], \<lambda>_. []) cf_heap =
    (run_status (db_apply (list_db (\<lambda>_ _ _ v. v)) 0 WriteOptions_init (WDelete (CfArg (Some 1)) [7]) (\<lambda>_. [], \<lambda>_. [])), cf_heap) \<and>
   GetApproximateSizes (list_db (\<lambda>_ _ _ v. v)) (\<lambda>_. [], \<lambda>_. []) cf_heap
     [ERef 0, ERef 1, enif_make_list [ETuple [EBin [1], EBin [2]]], EAtom ''include_both''] = (Failed, cf_heap)"
  using cf_arguments_misread [OF cf_heap_open(1,2), of "list_db (\<lambda>_ _ _ v. v)" "[7]" "[]"
      "enif_make_list [ETuple [EAtom ''sync'', EAtom ''true'']]" "(\<lambda>_. [], \<lambda>_. [])" "[ETuple [EBin [1], EBin [2]]]"
      "EAtom ''include_both''"]
  by blast

text \<open>
  A snapshot that is not open is ignored: when the snapshot option names a
  released snapshot, the parser stops with \<open>badarg\<close>, the callers drop that answer, and the
  read sees the current data, with the options after the snapshot lost as well, instead
  of failing.
\<close>

theorem stale_snapshot_ignored:
  assumes "db_open h d" "cf_usable h cf" "RetrieveSnapshotObject h s = None"
  shows "Get R dbs h (ERef d # cf_terms cf @ [EBin k, enif_make_list (ETuple [EAtom ''snapshot'', s] # rest)]) =
    Get R dbs h (ERef d # cf_terms cf @ [EBin k, ENil])"
proof -
  have "parse_read_option (ETuple [EAtom ''snapshot'', s]) (h, ReadOptions_init) = (EAtom ''badarg'', h, ReadOptions_init)"
    using assms(3) by (simp add: parse_read_option_def with_snapshot snapshot_of_def Let_def)
  then have "read_options_of h (enif_make_list (ETuple [EAtom ''snapshot'', s] # rest)) = (h, ReadOptions_init)"
    by (simp add: read_options_of_def nif_fold_def)
  then show ?thesis
    by (simp add: Get_open [OF assms(1,2)] read_options_of_def nif_fold_def)
qed

theorem stale_snapshot_ignored_witness:
  "Get (list_db (\<lambda>_ _ _ v. v)) (\<lambda>_. [WPut NoCf [1] [2]], \<lambda>_. []) db_heap
      [ERef 0, EBin [1], enif_make_list [ETuple [EAtom ''snapshot'', ERef 5]]] =
    Get (list_db (\<lambda>_ _ _ v. v)) (\<lambda>_. [WPut NoCf [1] [2]], \<lambda>_. []) db_heap [ERef 0, EBin [1], ENil]"
proof -
  have "mem db_heap 5 = None"
    by (simp add: db_heap_def CreateDbObject_def enif_alloc_resource_def empty_heap_def RefInc_mem put_obj_def)
  then have "RetrieveSnapshotObject db_heap (ERef 5) = None"
    by (simp add: RetrieveSnapshotObject_def Retrieve_def)
  from stale_snapshot_ignored [OF db_heap_open(1) _ this, of NoCf] show ?thesis
    by (simp add: cf_usable_def)
qed

section \<open>Further calls\<close>

text \<open>The columns \<open>get_entity\<close> answers are the argument \<open>put_entity\<close> takes.\<close>

lemma parse_columns_terms [simp]: "parse_columns (map column_term cols) = Some cols"
  by (induction cols) (auto simp: column_term_def)

lemma put_entity_open:
  assumes "db_open h d"
  shows "PutEntity R dbs h [ERef d, EBin k, enif_make_list (map column_term cols), opts] =
    (run_status (db_PutEntity R d (write_options_of opts) NoCf k cols dbs), h)"
  unfolding PutEntity_def nth_Cons_0
  by (intro with_db_runs [OF assms]) (simp add: numeral_2_eq_2 numeral_3_eq_3 run_status_def)

text \<open>The sizes come in the order of the ranges.\<close>

lemma fold_cons_cells: "list_cells (fold (\<lambda>k. ECons (f k)) ks acc) = rev (map f ks) @ list_cells acc"
  by (induction ks arbitrary: acc) auto

lemma parse_ranges_terms [simp]: "parse_ranges (map column_term rs) = Some rs"
  by (induction rs) (auto simp: column_term_def binary_to_slice_def)

lemma approximate_sizes_in_order:
  assumes "db_open h d" "parse_size_flag flag = Some fl"
  shows "GetApproximateSizes R dbs h [ERef d, enif_make_list (map column_term rs), flag] =
    (Ok (enif_make_list (map (\<lambda>i. EInt (uint (db_GetApproximateSizes R d NoCf rs fl dbs i))) [0..<length rs])), h)"
  unfolding GetApproximateSizes_def nth_Cons_0
  by (intro with_db_runs [OF assms(1)])
    (simp add: numeral_2_eq_2 approximate_sizes_def assms(2) enif_make_reverse_list_def fold_cons_cells rev_map)

text \<open>
  \<open>compact_range\<close> cannot name the end of the database: an undefined end is the empty key,
  not the null pointer that stands for the end.
\<close>

lemma compact_range_undefined_is_empty:
  assumes "db_open h d"
  shows "CompactRange R dbs h [ERef d, EAtom ''undefined'', EAtom ''undefined'', ENil] =
    (run_status (db_CompactRange R d CompactRangeOptions_init NoCf (Some []) (Some []) dbs), h)"
  unfolding CompactRange_def nth_Cons_0
  by (intro with_db_runs [OF assms]) (simp add: numeral_2_eq_2 numeral_3_eq_3 range_end_def nif_fold_def)

text \<open>\<open>is_empty\<close> answers \<open>true\<close> exactly when the default column family has no entry, if the iterator meets no error.\<close>

lemma is_empty_correct:
  assumes "itr_laws I entries ahead" "db_open h d"
  shows "IsEmpty I h [ERef d] = (Ok (e_bool (entries (NewIterator I d ReadOptions_init NoCf) = [])), h)"
proof -
  let ?it = "NewIterator I d ReadOptions_init NoCf"
  have "it_Valid I (it_move I (None, None) SeekToFirst ?it) \<longleftrightarrow> filter (within (None, None)) (entries ?it) \<noteq> []"
    using itr_lawsD(1) [OF assms(1), of "it_move I (None, None) SeekToFirst ?it" "(None, None)" True]
      itr_lawsD(5) [OF assms(1), of "(None, None)" ?it] by simp
  also have "filter (within (None, None)) (entries ?it) = entries ?it"
    by (simp add: within_def)
  finally show ?thesis
    unfolding IsEmpty_def nth_Cons_0
    by (intro with_db_runs [OF assms(2)]) (simp add: Let_def e_bool_def)
qed

end
