(* ===== verification/Handle_Nifs.thy ===== *)
theory Handle_Nifs
  imports Nif_Support
begin

text \<open>
  The NIFs that create, use and close handles: \<open>Close\<close> of a database, iterators,
  log iterators and backup engines, snapshots, transactions, and the column
  family operations that end the life of a handle. RocksDB answers are arguments
  (the record \<open>rocks_cf\<close> and the sequence number of a snapshot).
\<close>

section \<open>Closing by hand\<close>

text \<open>\<open>erocksdb_db.cc\<close>: the pointer is not counted while the close request runs.\<close>

definition Close :: "ref_heap \<Rightarrow> eterm list \<Rightarrow> nif_result \<times> ref_heap" where
  "Close h argv =
     (case RetrieveDbObject h (argv ! 0) of
        None \<Rightarrow> (Failed, h)
      | Some db \<Rightarrow> (Ok e_ok, snd (InitiateCloseRequest h (Some db))))"

text \<open>\<open>erocksdb_iter.cc\<close>; a null database pointer cannot be reached with \<open>ItrClosing\<close>.\<close>

definition IteratorClose :: "ref_heap \<Rightarrow> eterm list \<Rightarrow> nif_result \<times> ref_heap" where
  "IteratorClose h argv =
     (case RetrieveItrObject h (argv ! 0) True of
        Ok (Some itr) \<Rightarrow> (Ok e_ok, snd (InitiateCloseRequest h (Some itr)))
      | Ok None \<Rightarrow> (Failed, h)
      | _ \<Rightarrow> (Undef, h))"

text \<open>\<open>transaction_log.cc\<close>\<close>

definition TransactionLogIteratorClose :: "ref_heap \<Rightarrow> eterm list \<Rightarrow> nif_result \<times> ref_heap" where
  "TransactionLogIteratorClose h argv =
     (case RetrieveTLogItrObject h (argv ! 0) of
        Some tlog \<Rightarrow> (Ok e_ok, snd (InitiateCloseRequest h (Some tlog)))
      | None \<Rightarrow> (Failed, h))"

text \<open>\<open>backup.cc\<close>\<close>

definition CloseBackupEngine :: "ref_heap \<Rightarrow> eterm list \<Rightarrow> nif_result \<times> ref_heap" where
  "CloseBackupEngine h argv =
     (case RetrieveBackupEngineObject h (argv ! 0) of
        None \<Rightarrow> (Failed, h)
      | Some engine \<Rightarrow> (Ok e_ok, snd (InitiateCloseRequest h (Some engine))))"

section \<open>Snapshots\<close>

text \<open>\<open>erocksdb_snapshot.cc\<close>; a released snapshot is not an error.\<close>

definition Snapshot :: "ref_heap \<Rightarrow> eterm list \<Rightarrow> nif_result \<times> ref_heap" where
  "Snapshot h argv =
     with_db h (argv ! 0) Failed (\<lambda>db h1.
       let (snapshot, h2) = CreateSnapshotObject h1 (Some db)
       in (Ok (ok_tuple (ERef snapshot)), h2))"

definition ReleaseSnapshot :: "ref_heap \<Rightarrow> eterm list \<Rightarrow> nif_result \<times> ref_heap" where
  "ReleaseSnapshot h argv =
     with_retrieved h (RetrieveSnapshotObject h (argv ! 0)) (Ok e_ok) (\<lambda>snapshot h1.
       (Ok e_ok, snd (InitiateCloseRequest h1 (Some snapshot))))"

text \<open>\<open>m_Snapshot->GetSequenceNumber()\<close> dereferences the snapshot pointer.\<close>

definition GetSnapshotSequenceNumber ::
    "(addr \<Rightarrow> u64) \<Rightarrow> ref_heap \<Rightarrow> eterm list \<Rightarrow> nif_result \<times> ref_heap" where
  "GetSnapshotSequenceNumber seq h argv =
     with_retrieved h (RetrieveSnapshotObject h (argv ! 0)) Failed (\<lambda>snapshot h1.
       (case mem h1 snapshot of
          Some ob \<Rightarrow> (if m_Native ob then Ok (EInt (uint (seq snapshot))) else Undef, h1)
        | None \<Rightarrow> (Undef, h1)))"

section \<open>Transactions\<close>

text \<open>\<open>transaction.cc\<close> and \<open>pessimistic_transaction.cc\<close> release a transaction the same way.\<close>

definition ReleaseTransaction :: "ref_heap \<Rightarrow> eterm list \<Rightarrow> nif_result \<times> ref_heap" where
  "ReleaseTransaction h argv =
     with_retrieved h (RetrieveTransactionObject h (argv ! 0)) (Ok e_ok) (\<lambda>tx h1.
       (Ok e_ok, snd (InitiateCloseRequest h1 (Some tx))))"

section \<open>Column families\<close>

record rocks_cf =
  drop_status :: "addr \<Rightarrow> addr \<Rightarrow> status"
  destroy_status :: "addr \<Rightarrow> addr \<Rightarrow> status"

text \<open>The database of a column family object, \<open>cf->m_DbPtr->m_Db\<close>.\<close>

definition cf_database :: "ref_heap \<Rightarrow> addr \<Rightarrow> addr option" where
  "cf_database h cf = (case mem h cf of None \<Rightarrow> None | Some ob \<Rightarrow> m_DbPtr ob)"

text \<open>Both NIFs take the database and the column family, or the column family alone.\<close>

definition with_cf_arg ::
    "ref_heap \<Rightarrow> eterm list \<Rightarrow> (addr \<Rightarrow> addr \<Rightarrow> ref_heap \<Rightarrow> nif_result \<times> ref_heap) \<Rightarrow> nif_result \<times> ref_heap" where
  "with_cf_arg h argv f =
     (if 1 < length argv
      then with_db h (argv ! 0) Failed (\<lambda>db h1. with_cf h1 (argv ! 1) Failed (\<lambda>cf h2. f db cf h2))
      else with_cf h (argv ! 0) Failed (\<lambda>cf h1.
             case cf_database h1 cf of None \<Rightarrow> (Undef, h1) | Some db \<Rightarrow> f db cf h1))"

definition DropColumnFamily :: "rocks_cf \<Rightarrow> ref_heap \<Rightarrow> eterm list \<Rightarrow> nif_result \<times> ref_heap" where
  "DropColumnFamily R h argv =
     with_cf_arg h argv (\<lambda>db cf h1. (Ok (status_result (drop_status R db cf)), h1))"

text \<open>
  The handle pointer is cleared whatever the status; RocksDB has taken the handle back, and the object is
  closed, only on success.
\<close>

definition DestroyColumnFamily :: "rocks_cf \<Rightarrow> ref_heap \<Rightarrow> eterm list \<Rightarrow> nif_result \<times> ref_heap" where
  "DestroyColumnFamily R h argv =
     with_cf_arg h argv (\<lambda>db cf h1.
       let st = destroy_status R db cf;
           h2 = with_obj h1 cf (\<lambda>ob.
                  clear_native (if m_Native ob \<and> status_ok st then emit (DestroyColumnFamilyHandle db cf) h1 else h1) cf)
       in if status_ok st
          then (Ok e_ok, snd (InitiateCloseRequest h2 (Some cf)))
          else (Ok (error_tuple (EAtom ''error'') st), h2))"

section \<open>Helper lemmas\<close>

lemma last_release_destroys:
  assumes ok: "heap_ok h (add_mset a H)" and ob: "mem h a = Some ob" "m_CloseRequested ob \<noteq> 0"
    and free: "count H a = 0" "live_children h a = {}"
  shows "mem (RefDec h a) a = Some (dead ob)"
proof -
  have oba: "obj_ok h (add_mset a H) a ob"
    using ok ob(1) by (rule heap_okD)
  then have "m_CloseRequested ob = 1"
    using ob(2) by (auto simp: obj_ok_def)
  moreover from this oba free have "unat (m_RefCount ob) = 1"
    by (simp add: obj_ok_def)
  then have "m_RefCount ob = 1"
    by (metis unat_1 word_unat_eq_iff)
  ultimately show ?thesis
    using RefDec_last [OF ok ob(1)] by simp
qed

text \<open>
  A call that takes a handle other than a database, requests its close and
  returns: when no other call holds it, the handle is destroyed at the return.
\<close>

definition close_in_scope :: "ref_heap \<Rightarrow> addr \<Rightarrow> ref_heap" where
  "close_in_scope h a = RefDec (snd (InitiateCloseRequest (RefInc h a) (Some a))) a"

lemma close_in_scope:
  assumes m: "managed h H" and ob: "mem h a = Some ob" "kind ob \<noteq> DbObject" "m_CloseRequested ob = 0"
    and "m_RefCount ob \<noteq> - 1"
  shows "managed (close_in_scope h a) H" "persists (RefInc h a) (close_in_scope h a)"
    "count H a = 0 \<Longrightarrow> \<exists>ob'. mem (close_in_scope h a) a = Some ob' \<and> m_CloseRequested ob' = 3"
proof -
  let ?h1 = "RefInc h a"
  let ?h2 = "snd (InitiateCloseRequest ?h1 (Some a))"
  have m1: "managed ?h1 (add_mset a H)"
    using managed_RefInc [OF m ob(1)] ob(3) assms(5) by simp
  have ob1: "mem ?h1 a = Some (ob\<lparr>m_RefCount := m_RefCount ob + 1\<rparr>)"
    using ob by (simp add: RefInc_def with_live_eq)
  have m2: "managed ?h2 (add_mset a H)" "persists ?h1 ?h2"
    using managed.initiate_keeps [OF m1 ob1] by auto
  then have ok2: "heap_ok ?h2 (add_mset a H)"
    by (simp add: managed_def)
  show "managed (close_in_scope h a) H"
    unfolding close_in_scope_def by (rule managed.I_dec [OF m2(1)])
  show "persists ?h1 (close_in_scope h a)"
    unfolding close_in_scope_def using persists_trans [OF m2(2) persists_RefDec [OF ok2]] .
  assume free: "count H a = 0"
  obtain ob2 where ob2: "mem ?h2 a = Some ob2" "m_CloseRequested ob2 \<noteq> 0"
    using InitiateCloseRequest_closes [OF managed.I_ok [OF m1] ob1] .
  have "kind ob2 \<noteq> DbObject"
    by (rule persistsE [OF m2(2) ob1]) (use ob2(1) ob(2) in \<open>auto simp: obj_persists_def\<close>)
  then have "live_children ?h2 a = {}"
    by (rule live_children_child [OF ok2 ob2(1)])
  then have "mem (close_in_scope h a) a = Some (dead ob2)"
    unfolding close_in_scope_def by (rule last_release_destroys [OF ok2 ob2 free])
  then show "\<exists>ob'. mem (close_in_scope h a) a = Some ob' \<and> m_CloseRequested ob' = 3"
    by simp
qed

lemma destroyed_released:
  assumes "managed h H" "mem h a = Some ob" "m_CloseRequested ob = 3"
  shows "releases h a = 1"
  using assms heap_okD [of h H a ob] by (simp add: managed_def log_ok_def obj_ok_def)

lemma reachable_managed: "reachable s \<Longrightarrow> managed (objects s) (holders s)"
  using reachable_ok by (simp add: system_ok_def)

lemma close_managed:
  assumes m: "managed h H" and get: "RetrieveDbObject h (ERef d) = Some d"
    and idle: "d \<notin># H" "\<And>c. c \<in> live_children h d \<Longrightarrow> c \<notin># H"
  shows "\<exists>h1. Close h [ERef d] = (Ok e_ok, h1) \<and> \<not> fault h1 \<and> live_children h1 d = {} \<and>
    (\<forall>a \<in> insert d (live_children h d).
       releases h1 a = 1 \<and> (\<exists>ob. mem h1 a = Some ob \<and> m_CloseRequested ob = 3))"
proof -
  obtain db where db: "mem h d = Some db" "kind db = DbObject" "m_CloseRequested db = 0"
    using get Retrieve_SomeD by (fastforce simp: RetrieveDbObject_def)
  let ?h = "snd (InitiateCloseRequest h (Some d))"
  have keeps: "managed ?h H" "persists h ?h"
    using managed.initiate_keeps [OF m db(1)] by auto
  have dead: "\<exists>db'. mem ?h d = Some db' \<and> m_CloseRequested db' = 3" "live_children ?h d = {}"
    using InitiateCloseRequest_db_destroys [OF m db] idle by (auto simp: not_in_iff)
  have "\<exists>ob. mem ?h c = Some ob \<and> m_CloseRequested ob = 3" if c: "c \<in> live_children h d" for c
  proof -
    obtain ob where ob: "mem h c = Some ob" "m_DbPtr ob = Some d"
      using c by (auto simp: live_children_def)
    obtain ob' where ob': "mem ?h c = Some ob'" "obj_persists ob ob'"
      using persistsE [OF keeps(2) ob(1)] .
    then have "m_CloseRequested ob' = 3"
      using dead(2) ob(2) live_childrenI [OF ob'(1), of d] by (auto simp: obj_persists_def)
    with ob' show ?thesis by blast
  qed
  with dead(1) have "\<forall>a \<in> insert d (live_children h d). \<exists>ob. mem ?h a = Some ob \<and> m_CloseRequested ob = 3"
    by blast
  moreover have "\<not> fault ?h"
    using keeps(1) by (simp add: managed_def heap_ok_def)
  moreover have "Close h [ERef d] = (Ok e_ok, ?h)"
    using get by (simp add: Close_def)
  ultimately show ?thesis
    using dead(2) destroyed_released [OF keeps(1)] by blast
qed

section \<open>Properties\<close>

text \<open>
  Claim C4. \<open>erocksdb:close/1\<close> with no call in progress on the database or its
  children: it returns \<open>ok\<close>, the database and every child are destroyed, each of
  them has given its RocksDB object back exactly once, and nothing faulted.
\<close>

theorem close_destroys_database:
  assumes "reachable s" "RetrieveDbObject (objects s) (ERef d) = Some d" "d \<notin># holders s"
    and "\<And>c. c \<in> live_children (objects s) d \<Longrightarrow> c \<notin># holders s"
  shows "\<exists>h. Close (objects s) [ERef d] = (Ok e_ok, h) \<and> \<not> fault h \<and> live_children h d = {} \<and>
    (\<forall>a \<in> insert d (live_children (objects s) d).
       releases h a = 1 \<and> (\<exists>ob. mem h a = Some ob \<and> m_CloseRequested ob = 3))"
  using reachable_managed [OF assms(1)] assms(2-4) by (rule close_managed)

definition demo_idle :: system where
  "demo_idle = run_drop 1 demo_open"

lemma reachable_demo_idle: "reachable demo_idle"
  unfolding demo_idle_def by (rule reach_drop [OF reachable_demo_open]) code_simp

lemma demo_idle_holders: "holders demo_idle = {#}"
  by (simp add: demo_idle_def demo_open_def run_drop_def run_take_def run_child_def run_open_def
      initial_system_def)

theorem close_destroys_database_witness:
  "\<exists>h. Close (objects demo_idle) [ERef 0] = (Ok e_ok, h) \<and> \<not> fault h \<and> live_children h 0 = {} \<and>
     releases h 0 = 1 \<and> releases h 1 = 1"
proof -
  have "mem (objects demo_idle) 1 = Some (the (mem (objects demo_idle) 1))"
      "m_CloseRequested (the (mem (objects demo_idle) 1)) \<noteq> 3" "m_DbPtr (the (mem (objects demo_idle) 1)) = Some 0"
    by code_simp+
  then have "1 \<in> live_children (objects demo_idle) 0"
    by (rule live_childrenI)
  moreover have "RetrieveDbObject (objects demo_idle) (ERef 0) = Some 0"
    by code_simp
  then have "\<exists>h. Close (objects demo_idle) [ERef 0] = (Ok e_ok, h) \<and> \<not> fault h \<and> live_children h 0 = {} \<and>
    (\<forall>a \<in> insert 0 (live_children (objects demo_idle) 0).
       releases h a = 1 \<and> (\<exists>ob. mem h a = Some ob \<and> m_CloseRequested ob = 3))"
    by (rule close_destroys_database [OF reachable_demo_idle]) (simp_all add: demo_idle_holders)
  ultimately show ?thesis
    by blast
qed

text \<open>
  \<open>erocksdb:release_snapshot/1\<close> always answers \<open>ok\<close>. On an open snapshot
  no other call uses it destroys the snapshot object and gives the RocksDB
  snapshot back exactly once; a second release changes nothing.
\<close>

theorem release_snapshot_once:
  assumes "reachable s" "RetrieveSnapshotObject (objects s) (ERef a) = Some a" "a \<notin># holders s"
    and "count_free (objects s) a"
  shows "\<exists>h. ReleaseSnapshot (objects s) [ERef a] = (Ok e_ok, h) \<and> \<not> fault h \<and> releases h a = 1 \<and>
    (\<exists>ob. mem h a = Some ob \<and> m_CloseRequested ob = 3) \<and>
    ReleaseSnapshot h [ERef a] = (Ok e_ok, h)"
proof -
  obtain ob where ob: "mem (objects s) a = Some ob" "kind ob = SnapshotObject" "m_CloseRequested ob = 0"
    using assms(2) Retrieve_SomeD by (fastforce simp: RetrieveSnapshotObject_def)
  note m = reachable_managed [OF assms(1)]
  have count: "m_RefCount ob \<noteq> - 1"
    using assms(4) ob(1) by (simp add: count_free_def)
  let ?h = "close_in_scope (objects s) a"
  have k: "kind ob \<noteq> DbObject"
    using ob(2) by simp
  note close = close_in_scope [OF m ob(1) k ob(3) count]
  obtain ob' where ob': "mem ?h a = Some ob'" "m_CloseRequested ob' = 3"
    using close(3) assms(3) by (auto simp: not_in_iff)
  have "ReleaseSnapshot (objects s) [ERef a] = (Ok e_ok, ?h)"
    using assms(2) by (simp add: ReleaseSnapshot_def with_retrieved_def ReferencePtr_assign_def in_scope_def
        ReferencePtr_drop_def close_in_scope_def)
  moreover have "ReleaseSnapshot ?h [ERef a] = (Ok e_ok, ?h)"
    using ob' by (simp add: ReleaseSnapshot_def RetrieveSnapshotObject_def Retrieve_def with_retrieved_def
        ReferencePtr_assign_def in_scope_def ReferencePtr_drop_def)
  moreover have "\<not> fault ?h" "releases ?h a = 1"
    using close(1) destroyed_released [OF close(1) ob'] by (auto simp: managed_def heap_ok_def)
  ultimately show ?thesis
    using ob' by blast
qed

definition demo_snapshot :: system where
  "demo_snapshot = run_drop 0 (run_child SnapshotObject 0 (run_take 0 run_open))"

lemma reachable_demo_snapshot: "reachable demo_snapshot"
proof -
  let ?s = "run_take 0 run_open"
  have 1: "reachable ?s"
    by (rule reach_take [OF reachable_run_open, where k = DbObject]) code_simp+
  have 2: "reachable (run_child SnapshotObject 0 ?s)"
    by (rule reach_child [OF 1, where db = "the (mem (objects ?s) 0)"]) code_simp+
  show ?thesis
    unfolding demo_snapshot_def by (rule reach_drop [OF 2]) code_simp
qed

theorem release_snapshot_once_witness:
  "\<exists>h. ReleaseSnapshot (objects demo_snapshot) [ERef 1] = (Ok e_ok, h) \<and> \<not> fault h \<and> releases h 1 = 1 \<and>
    (\<exists>ob. mem h 1 = Some ob \<and> m_CloseRequested ob = 3) \<and>
    ReleaseSnapshot h [ERef 1] = (Ok e_ok, h)"
proof (rule release_snapshot_once [OF reachable_demo_snapshot])
  show "RetrieveSnapshotObject (objects demo_snapshot) (ERef 1) = Some 1"
      "count_free (objects demo_snapshot) 1"
    by code_simp+
  show "1 \<notin># holders demo_snapshot"
    by (simp add: demo_snapshot_def run_drop_def run_take_def run_child_def run_open_def initial_system_def)
qed

text \<open>
  A failed \<open>destroy_column_family\<close> leaves a handle that looks usable and is
  not: the error is returned, the object is not closed and is still accepted by
  \<open>RetrieveColumnFamilyObject\<close>, but its RocksDB handle pointer is null.
\<close>

theorem failed_destroy_leaves_null_handle:
  assumes "RetrieveColumnFamilyObject h (ERef cf) = Some cf" "mem h cf = Some ob" "m_DbPtr ob = Some db"
    and "\<not> status_ok (destroy_status R db cf)"
  shows "\<exists>h' ob'. DestroyColumnFamily R h [ERef cf] =
      (Ok (error_tuple (EAtom ''error'') (destroy_status R db cf)), h') \<and>
    RetrieveColumnFamilyObject h' (ERef cf) = Some cf \<and> mem h' cf = Some ob' \<and> \<not> m_Native ob'"
proof -
  have ob: "kind ob = ColumnFamilyObject" "m_CloseRequested ob = 0"
    using assms(1,2) by (auto simp: RetrieveColumnFamilyObject_def Retrieve_def split: option.splits if_splits)
  let ?ob = "ob\<lparr>m_RefCount := m_RefCount ob + 1, m_Native := False\<rparr>"
  let ?g = "put_obj h cf ?ob"
  have dec: "RefDec ?g cf = put_obj ?g cf (?ob\<lparr>m_RefCount := m_RefCount ?ob - 1\<rparr>)"
    by (rule RefDec_keep) (use ob in auto)
  have "DestroyColumnFamily R h [ERef cf] =
      (Ok (error_tuple (EAtom ''error'') (destroy_status R db cf)), RefDec ?g cf)"
    using assms ob
    by (auto simp: DestroyColumnFamily_def with_cf_arg_def with_cf_def enif_get_cf_def ReferencePtr_assign_def
        in_scope_def cf_database_def RefInc_def with_live_eq with_obj_def clear_native_def
        ReferencePtr_drop_def Let_def put_obj_def emit_def)
  then show ?thesis
    using ob by (auto simp: dec RetrieveColumnFamilyObject_def Retrieve_def)
qed

definition demo_cf :: ref_heap where
  "demo_cf = snd (CreateColumnFamilyObject (objects run_open) (Some 0))"

definition failing_rocks_cf :: rocks_cf where
  "failing_rocks_cf =
     \<lparr>drop_status = \<lambda>_ _. ok_status, destroy_status = \<lambda>_ _. \<lparr>code = kOther, ToString = ''busy''\<rparr>\<rparr>"

theorem failed_destroy_leaves_null_handle_witness:
  "\<exists>h' ob'. DestroyColumnFamily failing_rocks_cf demo_cf [ERef 1] =
      (Ok (error_tuple (EAtom ''error'') (destroy_status failing_rocks_cf 0 1)), h') \<and>
    RetrieveColumnFamilyObject h' (ERef 1) = Some 1 \<and> mem h' 1 = Some ob' \<and> \<not> m_Native ob'"
proof (rule failed_destroy_leaves_null_handle [where ob = "the (mem demo_cf 1)"])
  show "RetrieveColumnFamilyObject demo_cf (ERef 1) = Some 1" "mem demo_cf 1 = Some (the (mem demo_cf 1))"
      "m_DbPtr (the (mem demo_cf 1)) = Some 0" "\<not> status_ok (destroy_status failing_rocks_cf 0 1)"
    by code_simp+
qed

end
