(* ===== verification/Transaction_Nifs.thy ===== *)
theory Transaction_Nifs
  imports Db_Props Handle_Nifs
begin

text \<open>
  The transaction NIFs (\<open>c_src/transaction.cc\<close> and \<open>c_src/pessimistic_transaction.cc\<close>). The
  class \<open>rocksdb::Transaction\<close> is the record \<open>rocks_txn\<close>, an argument, on a state \<open>'w\<close> of
  databases and transactions; a transaction is named by the object that owns it.
\<close>

section \<open>RocksDB transactions\<close>

datatype db_class = PlainDB | OptimisticTransactionDB | TransactionDB

record txn_options =
  set_snapshot :: bool
  deadlock_detect :: bool
  lock_timeout :: int

definition TransactionOptions_init :: txn_options where
  "TransactionOptions_init = \<lparr>set_snapshot = False, deadlock_detect = False, lock_timeout = - 1\<rparr>"

text \<open>
  \<open>tx_GetWaitingTxns\<close> gives the ids and, when the class implements the method, the column
  family and the key it stores through its pointers.
\<close>

record ('w, 'it) rocks_txn =
  db_class_of :: "addr \<Rightarrow> 'w \<Rightarrow> db_class"
  tx_Begin :: "addr \<Rightarrow> addr \<Rightarrow> write_options \<Rightarrow> txn_options option \<Rightarrow> 'w \<Rightarrow> 'w"
  tx_apply :: "addr \<Rightarrow> batch_op \<Rightarrow> 'w \<Rightarrow> status \<times> 'w"
  tx_Get :: "addr \<Rightarrow> read_options \<Rightarrow> cf_arg \<Rightarrow> bytes \<Rightarrow> 'w \<Rightarrow> status \<times> bytes"
  tx_GetForUpdate :: "addr \<Rightarrow> read_options \<Rightarrow> cf_arg \<Rightarrow> bytes \<Rightarrow> 'w \<Rightarrow> (status \<times> bytes) \<times> 'w"
  tx_MultiGet :: "addr \<Rightarrow> read_options \<Rightarrow> cf_arg \<Rightarrow> bytes list \<Rightarrow> 'w \<Rightarrow> nat \<Rightarrow> status \<times> bytes"
  tx_MultiGetForUpdate :: "addr \<Rightarrow> read_options \<Rightarrow> cf_arg \<Rightarrow> bytes list \<Rightarrow> 'w \<Rightarrow> (nat \<Rightarrow> status \<times> bytes) \<times> 'w"
  tx_GetIterator :: "addr \<Rightarrow> read_options \<Rightarrow> cf_arg \<Rightarrow> 'w \<Rightarrow> 'it"
  tx_Commit :: "addr \<Rightarrow> 'w \<Rightarrow> status \<times> 'w"
  tx_Rollback :: "addr \<Rightarrow> 'w \<Rightarrow> status \<times> 'w"
  tx_SetSavePoint :: "addr \<Rightarrow> 'w \<Rightarrow> 'w"
  tx_RollbackToSavePoint :: "addr \<Rightarrow> 'w \<Rightarrow> status \<times> 'w"
  tx_PopSavePoint :: "addr \<Rightarrow> 'w \<Rightarrow> status \<times> 'w"
  tx_GetID :: "addr \<Rightarrow> 'w \<Rightarrow> u64"
  tx_GetWaitingTxns :: "addr \<Rightarrow> 'w \<Rightarrow> u64 list \<times> (u32 \<times> bytes) option"

section \<open>Shared steps\<close>

text \<open>
  \<open>if(!enif_get_transaction(env, argv[0], &tx_ptr)) return badarg;\<close> then \<open>tx_ptr->m_Tx->...\<close>. The
  pointer \<open>m_Tx\<close> is tested here, before the NIF checks its other arguments; the code follows it after
  those checks, so on a transaction whose pointer is null, which no retrieved one is, a call
  with bad arguments would answer \<open>badarg\<close> where this definition has \<open>Undef\<close>.
\<close>

definition on_tx ::
    "ref_heap \<Rightarrow> eterm \<Rightarrow> 'w \<Rightarrow> (addr \<Rightarrow> ref_heap \<Rightarrow> (nif_result \<times> 'w) \<times> ref_heap) \<Rightarrow> (nif_result \<times> 'w) \<times> ref_heap" where
  "on_tx h t w f =
     with_transaction h t (Failed, w) (\<lambda>tx h1.
       (case mem h1 tx of
          Some ob \<Rightarrow> if m_Native ob then f tx h1 else ((Undef, w), h1)
        | None \<Rightarrow> ((Undef, w), h1)))"

text \<open>\<open>tx_ptr->m_DbPtr->m_Db->DefaultColumnFamily()\<close>\<close>

definition default_cf :: "ref_heap \<Rightarrow> addr \<Rightarrow> bool" where
  "default_cf h tx =
     (case mem h tx of
        None \<Rightarrow> False
      | Some ob \<Rightarrow>
          (case m_DbPtr ob of
             None \<Rightarrow> False
           | Some d \<Rightarrow> (case mem h d of None \<Rightarrow> False | Some db \<Rightarrow> m_Native db)))"

text \<open>A result that is \<open>ok\<close> or an error of one of the classes.\<close>

definition class_result :: "(status_code \<times> string) list \<Rightarrow> status \<Rightarrow> eterm" where
  "class_result classes st = (if status_ok st then e_ok else class_error classes ''error'' st)"

definition run_class :: "(status_code \<times> string) list \<Rightarrow> status \<times> 'w \<Rightarrow> nif_result \<times> 'w" where
  "run_class classes r = (case r of (st, w) \<Rightarrow> (Ok (class_result classes st), w))"

text \<open>\<open>Put\<close> without a column family calls the overload that takes the default one.\<close>

definition tx_put ::
    "(status_code \<times> string) list \<Rightarrow> ('w, 'it) rocks_txn \<Rightarrow> 'w \<Rightarrow> ref_heap \<Rightarrow> eterm list \<Rightarrow> (nif_result \<times> 'w) \<times> ref_heap" where
  "tx_put classes R w h argv =
     on_tx h (argv ! 0) w (\<lambda>tx h1.
       if 3 < length argv
       then with_cf h1 (argv ! 1) (Failed, w) (\<lambda>cf h2.
              (case (enif_inspect_binary (argv ! 2), enif_inspect_binary (argv ! 3)) of
                 (Some key, Some value) \<Rightarrow> run_class classes (tx_apply R tx (WPut (cf_handle h2 cf) key value) w)
               | _ \<Rightarrow> (Failed, w), h2))
       else
         (case (enif_inspect_binary (argv ! 1), enif_inspect_binary (argv ! 2)) of
            (Some key, Some value) \<Rightarrow> run_class classes (tx_apply R tx (WPut NoCf key value) w)
          | _ \<Rightarrow> (Failed, w), h1))"

definition tx_delete ::
    "(status_code \<times> string) list \<Rightarrow> ('w, 'it) rocks_txn \<Rightarrow> 'w \<Rightarrow> ref_heap \<Rightarrow> eterm list \<Rightarrow> (nif_result \<times> 'w) \<times> ref_heap" where
  "tx_delete classes R w h argv =
     on_tx h (argv ! 0) w (\<lambda>tx h1.
       if 2 < length argv
       then with_cf h1 (argv ! 1) (Failed, w) (\<lambda>cf h2.
              (case enif_inspect_binary (argv ! 2) of
                 Some key \<Rightarrow> run_class classes (tx_apply R tx (WDelete (cf_handle h2 cf) key) w)
               | None \<Rightarrow> (Failed, w), h2))
       else
         (case enif_inspect_binary (argv ! 1) of
            Some key \<Rightarrow> if default_cf h1 tx then run_class classes (tx_apply R tx (WDelete NoCf key) w) else (Undef, w)
          | None \<Rightarrow> (Failed, w), h1))"

text \<open>A read of one key by \<open>call\<close>, which is \<open>Get\<close> or \<open>GetForUpdate\<close>.\<close>

definition tx_read ::
    "(status_code \<times> string) list \<Rightarrow> (addr \<Rightarrow> read_options \<Rightarrow> cf_arg \<Rightarrow> bytes \<Rightarrow> 'w \<Rightarrow> (status \<times> bytes) \<times> 'w) \<Rightarrow>
       'w \<Rightarrow> ref_heap \<Rightarrow> eterm list \<Rightarrow> (nif_result \<times> 'w) \<times> ref_heap" where
  "tx_read classes call w h argv =
     on_tx h (argv ! 0) w (\<lambda>tx h1.
       let i = (if length argv = 4 then 2 else 1);
           answer = (\<lambda>r. case r of (v, w1) \<Rightarrow> (Ok (value_result classes v), w1))
       in case binary_to_slice (argv ! i) of
            None \<Rightarrow> ((Failed, w), h1)
          | Some key \<Rightarrow>
              (case read_options_of h1 (argv ! (i + 1)) of
                 (h2, opts) \<Rightarrow>
                   if length argv = 4
                   then with_cf h2 (argv ! 1) (Failed, w) (\<lambda>cf h3. (answer (call tx opts (cf_handle h3 cf) key w), h3))
                   else (if default_cf h2 tx then answer (call tx opts NoCf key w) else (Undef, w), h2)))"

text \<open>The default column family is fetched before the arguments are looked at.\<close>

definition tx_multi_keys ::
    "(status_code \<times> string) list \<Rightarrow> (read_options \<Rightarrow> bytes list \<Rightarrow> (nat \<Rightarrow> status \<times> bytes) \<times> 'w) \<Rightarrow> eterm \<Rightarrow> eterm \<Rightarrow> 'w \<Rightarrow>
       ref_heap \<Rightarrow> (nif_result \<times> 'w) \<times> ref_heap" where
  "tx_multi_keys classes call keys_list opts_list w h =
     (case enif_get_list_length keys_list of
        None \<Rightarrow> ((Failed, w), h)
      | Some num_keys \<Rightarrow>
          if num_keys = 0 then ((Ok (enif_make_list []), w), h)
          else
            (case key_slices (list_cells keys_list) of
               None \<Rightarrow> ((Failed, w), h)
             | Some keys \<Rightarrow>
                 (case read_options_of h opts_list of
                    (h1, opts) \<Rightarrow>
                      (case call opts keys of
                         (results, w1) \<Rightarrow>
                           ((Ok (enif_make_list (map (\<lambda>i. value_result classes (results i)) [0..<num_keys])), w1), h1)))))"

definition tx_multi_read ::
    "(status_code \<times> string) list \<Rightarrow> (addr \<Rightarrow> read_options \<Rightarrow> cf_arg \<Rightarrow> bytes list \<Rightarrow> 'w \<Rightarrow> (nat \<Rightarrow> status \<times> bytes) \<times> 'w) \<Rightarrow>
       'w \<Rightarrow> ref_heap \<Rightarrow> eterm list \<Rightarrow> (nif_result \<times> 'w) \<times> ref_heap" where
  "tx_multi_read classes call w h argv =
     on_tx h (argv ! 0) w (\<lambda>tx h1.
       if \<not> default_cf h1 tx then ((Undef, w), h1)
       else if length argv = 4
       then with_cf h1 (argv ! 1) (Failed, w) (\<lambda>cf h2.
              tx_multi_keys classes (\<lambda>opts keys. call tx opts (cf_handle h2 cf) keys w) (argv ! 2) (argv ! 3) w h2)
       else tx_multi_keys classes (\<lambda>opts keys. call tx opts NoCf keys w) (argv ! 1) (argv ! 2) w h1)"

text \<open>
  The new iterator gets a reference to the database of the transaction, and none to the
  transaction.
\<close>

definition tx_iterator ::
    "('w, 'it) rocks_txn \<Rightarrow> 'w \<Rightarrow> 'it itrs \<Rightarrow> slice_store \<Rightarrow> ref_heap \<Rightarrow> eterm list \<Rightarrow>
       (nif_result \<times> 'it itrs \<times> slice_store) \<times> ref_heap" where
  "tx_iterator R w its sl h argv =
     with_transaction h (argv ! 0) (Failed, its, sl) (\<lambda>tx h1.
       let i = length argv - 1
       in if \<not> enif_is_list (argv ! i) then ((Failed, its, sl), h1)
          else
            (case parse_iterator_options (argv ! i) h1 sl of
               (False, s) \<Rightarrow> ((Failed, its, p_slices s), delete_bounds (p_bounds s) (p_heap s))
             | (True, s) \<Rightarrow>
                 (case (if length argv = 3
                        then with_cf (p_heap s) (argv ! 1) None (\<lambda>cf h2.
                               (Some (tx_GetIterator R tx (p_opts s) (cf_handle h2 cf) w), h2))
                        else (Some (tx_GetIterator R tx (p_opts s) NoCf w), p_heap s)) of
                    (None, h2) \<Rightarrow> ((Failed, its, p_slices s), delete_bounds (p_bounds s) h2)
                  | (Some iterator, h2) \<Rightarrow>
                      (case mem h2 tx of
                         None \<Rightarrow> ((Undef, its, p_slices s), h2)
                       | Some ob \<Rightarrow>
                           if \<not> m_Native ob then ((Undef, its, p_slices s), h2)
                           else
                             (case m_DbPtr ob of
                                None \<Rightarrow> ((Undef, its, p_slices s), h2)
                              | Some db \<Rightarrow>
                                  (case create_itr db (p_bounds s) (native_of (p_opts s) iterator) its h2 of
                                     (a, its1, h3) \<Rightarrow> ((Ok (ok_tuple (ERef a)), its1, p_slices s), h3)))))))"

section \<open>Optimistic transactions\<close>

text \<open>
  \<open>NewTransaction\<close> casts \<open>m_Db\<close> to \<open>OptimisticTransactionDB\<close> without a check: the call is
  undefined on a database of another class.
\<close>

definition NewTransaction ::
    "('w, 'it) rocks_txn \<Rightarrow> 'w \<Rightarrow> ref_heap \<Rightarrow> eterm list \<Rightarrow> (nif_result \<times> 'w) \<times> ref_heap" where
  "NewTransaction R w h argv =
     (if length argv \<noteq> 2 then ((Failed, w), h)
      else
        with_db h (argv ! 0) (Failed, w) (\<lambda>db h1.
          if db_class_of R db w \<noteq> OptimisticTransactionDB then ((Undef, w), h1)
          else
            case CreateTransactionObject h1 (Some db) of
              (a, h2) \<Rightarrow> ((Ok (ok_tuple (ERef a)), tx_Begin R a db (write_options_of (argv ! 1)) None w), h2)))"

definition PutTransaction ::
    "('w, 'it) rocks_txn \<Rightarrow> 'w \<Rightarrow> ref_heap \<Rightarrow> eterm list \<Rightarrow> (nif_result \<times> 'w) \<times> ref_heap" where
  "PutTransaction R w h argv = tx_put [] R w h argv"

text \<open>\<open>transaction_get\<close> reads with \<open>GetForUpdate\<close>, so that the key takes part in conflict detection.\<close>

definition GetTransaction ::
    "('w, 'it) rocks_txn \<Rightarrow> 'w \<Rightarrow> ref_heap \<Rightarrow> eterm list \<Rightarrow> (nif_result \<times> 'w) \<times> ref_heap" where
  "GetTransaction R w h argv = tx_read read_classes (tx_GetForUpdate R) w h argv"

definition update_classes :: "(status_code \<times> string) list" where
  "update_classes = [(kBusy, ''busy''), (kCorruption, ''corruption'')]"

definition GetForUpdateTransaction ::
    "('w, 'it) rocks_txn \<Rightarrow> 'w \<Rightarrow> ref_heap \<Rightarrow> eterm list \<Rightarrow> (nif_result \<times> 'w) \<times> ref_heap" where
  "GetForUpdateTransaction R w h argv = tx_read update_classes (tx_GetForUpdate R) w h argv"

definition MultiGetTransaction ::
    "('w, 'it) rocks_txn \<Rightarrow> 'w \<Rightarrow> ref_heap \<Rightarrow> eterm list \<Rightarrow> (nif_result \<times> 'w) \<times> ref_heap" where
  "MultiGetTransaction R w h argv =
     tx_multi_read read_classes (\<lambda>tx opts cf ks w. (tx_MultiGet R tx opts cf ks w, w)) w h argv"

definition MultiGetForUpdateTransaction ::
    "('w, 'it) rocks_txn \<Rightarrow> 'w \<Rightarrow> ref_heap \<Rightarrow> eterm list \<Rightarrow> (nif_result \<times> 'w) \<times> ref_heap" where
  "MultiGetForUpdateTransaction R w h argv = tx_multi_read update_classes (tx_MultiGetForUpdate R) w h argv"

definition DelTransaction ::
    "('w, 'it) rocks_txn \<Rightarrow> 'w \<Rightarrow> ref_heap \<Rightarrow> eterm list \<Rightarrow> (nif_result \<times> 'w) \<times> ref_heap" where
  "DelTransaction R w h argv = tx_delete [] R w h argv"

definition IteratorTransaction ::
    "('w, 'it) rocks_txn \<Rightarrow> 'w \<Rightarrow> 'it itrs \<Rightarrow> slice_store \<Rightarrow> ref_heap \<Rightarrow> eterm list \<Rightarrow>
       (nif_result \<times> 'it itrs \<times> slice_store) \<times> ref_heap" where
  "IteratorTransaction R w its sl h argv = tx_iterator R w its sl h argv"

definition CommitTransaction ::
    "('w, 'it) rocks_txn \<Rightarrow> 'w \<Rightarrow> ref_heap \<Rightarrow> eterm list \<Rightarrow> (nif_result \<times> 'w) \<times> ref_heap" where
  "CommitTransaction R w h argv = on_tx h (argv ! 0) w (\<lambda>tx h1. (run_class [] (tx_Commit R tx w), h1))"

definition RollbackTransaction ::
    "('w, 'it) rocks_txn \<Rightarrow> 'w \<Rightarrow> ref_heap \<Rightarrow> eterm list \<Rightarrow> (nif_result \<times> 'w) \<times> ref_heap" where
  "RollbackTransaction R w h argv = on_tx h (argv ! 0) w (\<lambda>tx h1. (run_class [] (tx_Rollback R tx w), h1))"

section \<open>Pessimistic transactions\<close>

definition parse_txn_option :: "eterm \<Rightarrow> txn_options \<Rightarrow> eterm \<times> txn_options" where
  "parse_txn_option item opts =
     (e_ok,
      case enif_get_tuple item of
        Some [name, val] \<Rightarrow>
          if name = EAtom ''set_snapshot'' then opts\<lparr>set_snapshot := (val = EAtom ''true'')\<rparr>
          else if name = EAtom ''deadlock_detect'' then opts\<lparr>deadlock_detect := (val = EAtom ''true'')\<rparr>
          else if name = EAtom ''lock_timeout'' then
            (case enif_get_int64 val of None \<Rightarrow> opts | Some n \<Rightarrow> opts\<lparr>lock_timeout := n\<rparr>)
          else opts
      | _ \<Rightarrow> opts)"

definition NewPessimisticTransaction ::
    "('w, 'it) rocks_txn \<Rightarrow> 'w \<Rightarrow> ref_heap \<Rightarrow> eterm list \<Rightarrow> (nif_result \<times> 'w) \<times> ref_heap" where
  "NewPessimisticTransaction R w h argv =
     (if length argv < 2 then ((Failed, w), h)
      else
        with_db h (argv ! 0) (Failed, w) (\<lambda>db h1.
          case mem h1 db of
            None \<Rightarrow> ((Undef, w), h1)
          | Some ob \<Rightarrow>
              if \<not> m_IsPessimistic ob
              then ((Ok (error_tuple_msg (EAtom ''error'') ''not a pessimistic transaction db''), w), h1)
              else if db_class_of R db w \<noteq> TransactionDB then ((Undef, w), h1)
              else
                (let topts = (if 3 \<le> length argv
                              then snd (nif_fold parse_txn_option (argv ! 2) TransactionOptions_init)
                              else TransactionOptions_init)
                 in case CreateTransactionObject h1 (Some db) of
                      (a, h2) \<Rightarrow>
                        ((Ok (ok_tuple (ERef a)), tx_Begin R a db (write_options_of (argv ! 1)) (Some topts) w), h2))))"

definition lock_classes :: "(status_code \<times> string) list" where
  "lock_classes = [(kBusy, ''busy''), (kTimedOut, ''timed_out'')]"

definition PessimisticTransactionPut ::
    "('w, 'it) rocks_txn \<Rightarrow> 'w \<Rightarrow> ref_heap \<Rightarrow> eterm list \<Rightarrow> (nif_result \<times> 'w) \<times> ref_heap" where
  "PessimisticTransactionPut R w h argv = tx_put lock_classes R w h argv"

definition PessimisticTransactionGet ::
    "('w, 'it) rocks_txn \<Rightarrow> 'w \<Rightarrow> ref_heap \<Rightarrow> eterm list \<Rightarrow> (nif_result \<times> 'w) \<times> ref_heap" where
  "PessimisticTransactionGet R w h argv =
     tx_read read_classes (\<lambda>tx opts cf k w. (tx_Get R tx opts cf k w, w)) w h argv"

definition PessimisticTransactionGetForUpdate ::
    "('w, 'it) rocks_txn \<Rightarrow> 'w \<Rightarrow> ref_heap \<Rightarrow> eterm list \<Rightarrow> (nif_result \<times> 'w) \<times> ref_heap" where
  "PessimisticTransactionGetForUpdate R w h argv =
     tx_read (lock_classes @ [(kCorruption, ''corruption''), (kTryAgain, ''try_again'')]) (tx_GetForUpdate R) w h argv"

definition PessimisticTransactionMultiGet ::
    "('w, 'it) rocks_txn \<Rightarrow> 'w \<Rightarrow> ref_heap \<Rightarrow> eterm list \<Rightarrow> (nif_result \<times> 'w) \<times> ref_heap" where
  "PessimisticTransactionMultiGet R w h argv =
     tx_multi_read read_classes (\<lambda>tx opts cf ks w. (tx_MultiGet R tx opts cf ks w, w)) w h argv"

definition PessimisticTransactionMultiGetForUpdate ::
    "('w, 'it) rocks_txn \<Rightarrow> 'w \<Rightarrow> ref_heap \<Rightarrow> eterm list \<Rightarrow> (nif_result \<times> 'w) \<times> ref_heap" where
  "PessimisticTransactionMultiGetForUpdate R w h argv =
     tx_multi_read (lock_classes @ [(kCorruption, ''corruption'')]) (tx_MultiGetForUpdate R) w h argv"

definition PessimisticTransactionDelete ::
    "('w, 'it) rocks_txn \<Rightarrow> 'w \<Rightarrow> ref_heap \<Rightarrow> eterm list \<Rightarrow> (nif_result \<times> 'w) \<times> ref_heap" where
  "PessimisticTransactionDelete R w h argv = tx_delete lock_classes R w h argv"

definition PessimisticTransactionCommit ::
    "('w, 'it) rocks_txn \<Rightarrow> 'w \<Rightarrow> ref_heap \<Rightarrow> eterm list \<Rightarrow> (nif_result \<times> 'w) \<times> ref_heap" where
  "PessimisticTransactionCommit R w h argv =
     on_tx h (argv ! 0) w (\<lambda>tx h1. (run_class [(kBusy, ''busy''), (kExpired, ''expired'')] (tx_Commit R tx w), h1))"

definition PessimisticTransactionRollback ::
    "('w, 'it) rocks_txn \<Rightarrow> 'w \<Rightarrow> ref_heap \<Rightarrow> eterm list \<Rightarrow> (nif_result \<times> 'w) \<times> ref_heap" where
  "PessimisticTransactionRollback R w h argv = on_tx h (argv ! 0) w (\<lambda>tx h1. (run_class [] (tx_Rollback R tx w), h1))"

definition ReleasePessimisticTransaction :: "ref_heap \<Rightarrow> eterm list \<Rightarrow> nif_result \<times> ref_heap" where
  "ReleasePessimisticTransaction h argv =
     with_retrieved h (RetrieveTransactionObject h (argv ! 0)) (Ok e_ok) (\<lambda>tx h1.
       (Ok e_ok, snd (InitiateCloseRequest h1 (Some tx))))"

definition PessimisticTransactionIterator ::
    "('w, 'it) rocks_txn \<Rightarrow> 'w \<Rightarrow> 'it itrs \<Rightarrow> slice_store \<Rightarrow> ref_heap \<Rightarrow> eterm list \<Rightarrow>
       (nif_result \<times> 'it itrs \<times> slice_store) \<times> ref_heap" where
  "PessimisticTransactionIterator R w its sl h argv = tx_iterator R w its sl h argv"

definition PessimisticTransactionSetSavepoint ::
    "('w, 'it) rocks_txn \<Rightarrow> 'w \<Rightarrow> ref_heap \<Rightarrow> eterm list \<Rightarrow> (nif_result \<times> 'w) \<times> ref_heap" where
  "PessimisticTransactionSetSavepoint R w h argv =
     on_tx h (argv ! 0) w (\<lambda>tx h1. ((Ok e_ok, tx_SetSavePoint R tx w), h1))"

definition savepoint_result :: "status \<times> 'w \<Rightarrow> nif_result \<times> 'w" where
  "savepoint_result r =
     (case r of (st, w) \<Rightarrow>
        (Ok (if status_ok st then e_ok
             else if code st = kNotFound then error_tuple_msg (EAtom ''error'') ''no savepoint set''
             else error_tuple (EAtom ''error'') st), w))"

definition PessimisticTransactionRollbackToSavepoint ::
    "('w, 'it) rocks_txn \<Rightarrow> 'w \<Rightarrow> ref_heap \<Rightarrow> eterm list \<Rightarrow> (nif_result \<times> 'w) \<times> ref_heap" where
  "PessimisticTransactionRollbackToSavepoint R w h argv =
     on_tx h (argv ! 0) w (\<lambda>tx h1. (savepoint_result (tx_RollbackToSavePoint R tx w), h1))"

definition PessimisticTransactionPopSavepoint ::
    "('w, 'it) rocks_txn \<Rightarrow> 'w \<Rightarrow> ref_heap \<Rightarrow> eterm list \<Rightarrow> (nif_result \<times> 'w) \<times> ref_heap" where
  "PessimisticTransactionPopSavepoint R w h argv =
     on_tx h (argv ! 0) w (\<lambda>tx h1. (savepoint_result (tx_PopSavePoint R tx w), h1))"

definition PessimisticTransactionGetId ::
    "('w, 'it) rocks_txn \<Rightarrow> 'w \<Rightarrow> ref_heap \<Rightarrow> eterm list \<Rightarrow> (nif_result \<times> 'w) \<times> ref_heap" where
  "PessimisticTransactionGetId R w h argv =
     on_tx h (argv ! 0) w (\<lambda>tx h1. ((Ok (ok_tuple (EInt (uint (tx_GetID R tx w)))), w), h1))"

text \<open>\<open>column_family_id\<close> has no initial value: it is read also when RocksDB did not set it.\<close>

definition PessimisticTransactionGetWaitingTxns ::
    "('w, 'it) rocks_txn \<Rightarrow> 'w \<Rightarrow> ref_heap \<Rightarrow> eterm list \<Rightarrow> (nif_result \<times> 'w) \<times> ref_heap" where
  "PessimisticTransactionGetWaitingTxns R w h argv =
     on_tx h (argv ! 0) w (\<lambda>tx h1.
       (case tx_GetWaitingTxns R tx w of
          (ids, None) \<Rightarrow> (Undef, w)
        | (ids, Some (column_family_id, key)) \<Rightarrow>
            (Ok (ok_tuple (EMap
               [(EAtom ''column_family_id'', EInt (uint column_family_id)), (EAtom ''key'', EBin key),
                (EAtom ''waiting_txns'', enif_make_list (map (\<lambda>i. EInt (uint i)) ids))])), w), h1))"

end
