(* ===== verification/Transaction_Props.thy ===== *)
theory Transaction_Props
  imports Transaction_Nifs
begin

text \<open>
  What the transaction NIFs do. The specification keeps for every transaction the
  operations it will commit, with a stack of save points, and for every database the
  operations committed to it; \<open>txn_laws\<close> says that RocksDB implements it. The optimistic
  and the pessimistic calls are two instances of one interface (locale
  \<open>transaction_api\<close>).
\<close>

section \<open>Scopes\<close>

definition tx_open :: "ref_heap \<Rightarrow> addr \<Rightarrow> bool" where
  "tx_open h a \<longleftrightarrow> (case mem h a of
     Some ob \<Rightarrow> kind ob = TransactionObject \<and> m_CloseRequested ob = 0 \<and> m_Native ob \<and> default_cf h a
   | None \<Rightarrow> False)"

lemma default_cf_RefInc [simp]: "default_cf (RefInc h x) a = default_cf h a"
  by (auto simp: default_cf_def RefInc_mem split: option.split)

lemma with_transaction_runs:
  assumes "tx_open h a" "f a (RefInc h a) = (r, RefInc h a)"
  shows "with_transaction h (ERef a) bad f = (r, h)"
proof -
  obtain ob where ob: "mem h a = Some ob" "kind ob = TransactionObject" "m_CloseRequested ob = 0"
    using assms(1) by (auto simp: tx_open_def split: option.splits)
  then show ?thesis
    by (simp add: scope_defs in_scope_def RetrieveTransactionObject_def Retrieve_def ReferencePtr_assign_def
        ReferencePtr_drop_def assms(2) RefDec_RefInc)
qed

lemma on_tx_runs:
  assumes "tx_open h a" "f a (RefInc h a) = (r, RefInc h a)"
  shows "on_tx h (ERef a) w f = (r, h)"
  unfolding on_tx_def
  by (rule with_transaction_runs [OF assms(1)])
    (use assms in \<open>auto simp: tx_open_def RefInc_mem split: option.splits\<close>)

lemma tx_open_default: "tx_open h a \<Longrightarrow> default_cf h a"
  by (auto simp: tx_open_def split: option.splits)

lemma with_transaction_neutral [neutral]:
  assumes "\<And>a h1. snd (f a h1) = h1"
  shows "snd (with_transaction h t bad f) = h"
  using scope_neutral [of h TransactionObject t "RetrieveTransactionObject h t" f] assms
  by (auto simp: scope_defs RetrieveTransactionObject_def ReferencePtr_assign_def split: option.split)

lemma on_tx_neutral [neutral]:
  assumes "\<And>a h1. snd (f a h1) = h1"
  shows "snd (on_tx h t w f) = h"
  unfolding on_tx_def by (rule with_transaction_neutral) (simp add: assms split: option.split)

section \<open>The specification\<close>

record txn_view =
  pending :: "addr \<Rightarrow> batch_content"
  committed :: "addr \<Rightarrow> batch_op list"
  home :: "addr \<Rightarrow> addr"

definition begin_spec :: "addr \<Rightarrow> addr \<Rightarrow> txn_view \<Rightarrow> txn_view" where
  "begin_spec a d v = v\<lparr>pending := (pending v)(a := ([], [])), home := (home v)(a := d)\<rparr>"

definition on_pending :: "addr \<Rightarrow> (batch_content \<Rightarrow> batch_content) \<Rightarrow> txn_view \<Rightarrow> txn_view" where
  "on_pending a f v = v\<lparr>pending := (pending v)(a := f (pending v a))\<rparr>"

definition commit_spec :: "addr \<Rightarrow> txn_view \<Rightarrow> txn_view" where
  "commit_spec a v =
     on_pending a (\<lambda>_. ([], [])) (v\<lparr>committed := (committed v)(home v a := committed v (home v a) @ fst (pending v a))\<rparr>)"

text \<open>The operations a read in a transaction sees.\<close>

definition visible :: "addr \<Rightarrow> txn_view \<Rightarrow> batch_op list" where
  "visible a v = committed v (home v a) @ fst (pending v a)"

definition reads ::
    "(cf_arg \<Rightarrow> bytes \<Rightarrow> bytes option \<Rightarrow> bytes \<Rightarrow> bytes) \<Rightarrow> cf_arg \<Rightarrow> bytes \<Rightarrow> batch_op list \<Rightarrow> status \<times> bytes \<Rightarrow> bool" where
  "reads mrg cf k cs r \<longleftrightarrow>
     (status_ok (fst r) \<longrightarrow> value_of mrg cf k cs = Some (snd r)) \<and> (code (fst r) = kNotFound \<longrightarrow> value_of mrg cf k cs = None)"

text \<open>
  The documented behaviour of \<open>rocksdb::Transaction\<close>: writes are kept in the transaction, a
  commit that succeeds applies them all and one that fails applies none, a rollback
  drops them, save points are a stack, and a read without a snapshot sees the committed
  operations followed by those of the transaction.
\<close>

definition txn_laws ::
    "('w, 'it) rocks_txn \<Rightarrow> ('w \<Rightarrow> txn_view) \<Rightarrow> (cf_arg \<Rightarrow> bytes \<Rightarrow> bytes option \<Rightarrow> bytes \<Rightarrow> bytes) \<Rightarrow> bool" where
  "txn_laws R view mrg \<longleftrightarrow>
     (\<forall>a d wo topts w. view (tx_Begin R a d wo topts w) = begin_spec a d (view w)) \<and>
     (\<forall>a c w. op_ok c \<longrightarrow> view (snd (tx_apply R a c w)) =
        (if status_ok (fst (tx_apply R a c w)) then on_pending a (\<lambda>(cs, ns). (cs @ [c], ns)) (view w) else view w)) \<and>
     (\<forall>a w. if status_ok (fst (tx_Commit R a w)) then view (snd (tx_Commit R a w)) = commit_spec a (view w)
            else committed (view (snd (tx_Commit R a w))) = committed (view w)) \<and>
     (\<forall>a w. committed (view (snd (tx_Rollback R a w))) = committed (view w) \<and>
        (status_ok (fst (tx_Rollback R a w)) \<longrightarrow> view (snd (tx_Rollback R a w)) = on_pending a (\<lambda>_. ([], [])) (view w))) \<and>
     (\<forall>a w. view (tx_SetSavePoint R a w) = on_pending a (\<lambda>(cs, ns). (cs, length cs # ns)) (view w)) \<and>
     (\<forall>a w. view (snd (tx_RollbackToSavePoint R a w)) = on_pending a (\<lambda>x. snd (rollback_content x)) (view w) \<and>
        code (fst (tx_RollbackToSavePoint R a w)) = (if snd (pending (view w) a) = [] then kNotFound else kOk)) \<and>
     (\<forall>a w. view (snd (tx_PopSavePoint R a w)) = on_pending a (\<lambda>(cs, ns). (cs, tl ns)) (view w) \<and>
        code (fst (tx_PopSavePoint R a w)) = (if snd (pending (view w) a) = [] then kNotFound else kOk)) \<and>
     (\<forall>a opts cf k w. read_tier opts = kReadAllTier \<longrightarrow> snapshot opts = None \<longrightarrow> single_safe cf k (visible a (view w)) \<longrightarrow>
        reads mrg cf k (visible a (view w)) (tx_Get R a opts cf k w) \<and>
        reads mrg cf k (visible a (view w)) (fst (tx_GetForUpdate R a opts cf k w))) \<and>
     (\<forall>a opts cf k w. view (snd (tx_GetForUpdate R a opts cf k w)) = view w)"

lemma txn_lawsD:
  assumes "txn_laws R view mrg"
  shows "view (tx_Begin R a d wo topts w) = begin_spec a d (view w)"
    "op_ok c \<Longrightarrow> view (snd (tx_apply R a c w)) =
        (if status_ok (fst (tx_apply R a c w)) then on_pending a (\<lambda>(cs, ns). (cs @ [c], ns)) (view w) else view w)"
    "status_ok (fst (tx_Commit R a w)) \<Longrightarrow> view (snd (tx_Commit R a w)) = commit_spec a (view w)"
    "\<not> status_ok (fst (tx_Commit R a w)) \<Longrightarrow> committed (view (snd (tx_Commit R a w))) = committed (view w)"
    "committed (view (snd (tx_Rollback R a w))) = committed (view w)"
    "status_ok (fst (tx_Rollback R a w)) \<Longrightarrow> view (snd (tx_Rollback R a w)) = on_pending a (\<lambda>_. ([], [])) (view w)"
    "view (tx_SetSavePoint R a w) = on_pending a (\<lambda>(cs, ns). (cs, length cs # ns)) (view w)"
    "view (snd (tx_RollbackToSavePoint R a w)) = on_pending a (\<lambda>x. snd (rollback_content x)) (view w)"
    "code (fst (tx_RollbackToSavePoint R a w)) = (if snd (pending (view w) a) = [] then kNotFound else kOk)"
    "view (snd (tx_PopSavePoint R a w)) = on_pending a (\<lambda>(cs, ns). (cs, tl ns)) (view w)"
    "code (fst (tx_PopSavePoint R a w)) = (if snd (pending (view w) a) = [] then kNotFound else kOk)"
    "read_tier opts = kReadAllTier \<Longrightarrow> snapshot opts = None \<Longrightarrow> single_safe cf k (visible a (view w)) \<Longrightarrow>
        reads mrg cf k (visible a (view w)) (tx_Get R a opts cf k w)"
    "read_tier opts = kReadAllTier \<Longrightarrow> snapshot opts = None \<Longrightarrow> single_safe cf k (visible a (view w)) \<Longrightarrow>
        reads mrg cf k (visible a (view w)) (fst (tx_GetForUpdate R a opts cf k w))"
    "view (snd (tx_GetForUpdate R a opts cf k w)) = view w"
  using assms unfolding txn_laws_def by (simp_all del: split_paired_All)

section \<open>Calls on an open transaction\<close>

lemma class_result_ok [simp]: "class_result classes st = e_ok \<longleftrightarrow> status_ok st"
  by (simp add: class_result_def class_error_def error_tuple_def e_ok_def)

lemma tx_put_runs:
  assumes "tx_open h a" "cf_usable h cf"
  shows "tx_put classes R w h (ERef a # cf_terms cf @ [EBin k, EBin v]) =
    (run_class classes (tx_apply R a (WPut cf k v) w), h)"
  using assms(2)
proof (cases rule: cf_usableE)
  case 1
  then show ?thesis
    unfolding tx_put_def nth_Cons_0
    by (intro on_tx_runs [OF assms(1)]) (simp add: numeral_2_eq_2)
next
  case (2 c)
  show ?thesis
    unfolding tx_put_def nth_Cons_0
    by (intro on_tx_runs [OF assms(1)], simp add: 2(1), intro with_cf_runs)
      (use 2 in \<open>simp_all add: numeral_2_eq_2 numeral_3_eq_3\<close>)
qed

lemma tx_delete_runs:
  assumes "tx_open h a" "cf_usable h cf"
  shows "tx_delete classes R w h (ERef a # cf_terms cf @ [EBin k]) =
    (run_class classes (tx_apply R a (WDelete cf k) w), h)"
  using assms(2)
proof (cases rule: cf_usableE)
  case 1
  then show ?thesis
    unfolding tx_delete_def nth_Cons_0
    by (intro on_tx_runs [OF assms(1)]) (simp add: tx_open_default [OF assms(1)])
next
  case (2 c)
  show ?thesis
    unfolding tx_delete_def nth_Cons_0
    by (intro on_tx_runs [OF assms(1)], simp add: 2(1), intro with_cf_runs)
      (use 2 in \<open>simp_all add: numeral_2_eq_2\<close>)
qed

lemma tx_read_runs:
  assumes "tx_open h a" "cf_usable h cf"
  shows "tx_read classes call w h (ERef a # cf_terms cf @ [EBin k, opts]) =
    ((Ok (value_result classes (fst (call a (snd (read_options_of h opts)) cf k w))),
      snd (call a (snd (read_options_of h opts)) cf k w)), h)"
  using assms(2)
proof (cases rule: cf_usableE)
  case 1
  then show ?thesis
    unfolding tx_read_def nth_Cons_0
    by (intro on_tx_runs [OF assms(1)])
      (simp add: numeral_2_eq_2 binary_to_slice_def tx_open_default [OF assms(1)] case_prod_beta)
next
  case (2 c)
  show ?thesis
    unfolding tx_read_def nth_Cons_0
    by (intro on_tx_runs [OF assms(1)], simp add: 2(1) numeral_2_eq_2 binary_to_slice_def, intro with_cf_runs)
      (use 2 in \<open>simp_all add: case_prod_beta\<close>)
qed

section \<open>The interface of both kinds\<close>

text \<open>A run of puts and deletes through the NIFs of one kind.\<close>

type_synonym ('w, 'it) txn_nif =
  "('w, 'it) rocks_txn \<Rightarrow> 'w \<Rightarrow> ref_heap \<Rightarrow> eterm list \<Rightarrow> (nif_result \<times> 'w) \<times> ref_heap"

fun txn_write ::
    "('w, 'it) txn_nif \<Rightarrow> ('w, 'it) txn_nif \<Rightarrow> ('w, 'it) rocks_txn \<Rightarrow> addr \<Rightarrow> batch_op \<Rightarrow> 'w \<Rightarrow> ref_heap \<Rightarrow>
       (nif_result \<times> 'w) \<times> ref_heap" where
  "txn_write put del R a (WPut cf k v) w h = put R w h (ERef a # cf_terms cf @ [EBin k, EBin v])"
| "txn_write put del R a (WDelete cf k) w h = del R w h (ERef a # cf_terms cf @ [EBin k])"
| "txn_write put del R a _ w h = ((Failed, w), h)"

fun txn_writes ::
    "('w, 'it) txn_nif \<Rightarrow> ('w, 'it) txn_nif \<Rightarrow> ('w, 'it) rocks_txn \<Rightarrow> addr \<Rightarrow> batch_op list \<Rightarrow> 'w \<Rightarrow> ref_heap \<Rightarrow>
       nif_result list \<times> 'w \<times> ref_heap" where
  "txn_writes put del R a [] w h = ([], w, h)"
| "txn_writes put del R a (c # cs) w h =
     (case txn_write put del R a c w h of
        ((r, w1), h1) \<Rightarrow> (case txn_writes put del R a cs w1 h1 of (rs, w2, h2) \<Rightarrow> (r # rs, w2, h2)))"

fun is_write :: "batch_op \<Rightarrow> bool" where
  "is_write (WPut cf k v) = True"
| "is_write (WDelete cf k) = True"
| "is_write _ = False"

text \<open>The operations whose call answered \<open>ok\<close>.\<close>

definition accepted :: "batch_op list \<Rightarrow> nif_result list \<Rightarrow> batch_op list" where
  "accepted cs rs = map fst (filter (\<lambda>(c, r). r = Ok e_ok) (zip cs rs))"

locale transaction_api =
  fixes put del commit rollback :: "('w, 'it) txn_nif"
  assumes put_applies: "tx_open h a \<Longrightarrow> cf_usable h cf \<Longrightarrow>
      \<exists>r. put R w h (ERef a # cf_terms cf @ [EBin k, EBin v]) = ((Ok r, snd (tx_apply R a (WPut cf k v) w)), h) \<and>
        (r = e_ok \<longleftrightarrow> status_ok (fst (tx_apply R a (WPut cf k v) w)))"
    and del_applies: "tx_open h a \<Longrightarrow> cf_usable h cf \<Longrightarrow>
      \<exists>r. del R w h (ERef a # cf_terms cf @ [EBin k]) = ((Ok r, snd (tx_apply R a (WDelete cf k) w)), h) \<and>
        (r = e_ok \<longleftrightarrow> status_ok (fst (tx_apply R a (WDelete cf k) w)))"
    and commits: "tx_open h a \<Longrightarrow>
      \<exists>r. commit R w h [ERef a] = ((Ok r, snd (tx_Commit R a w)), h) \<and> (r = e_ok \<longleftrightarrow> status_ok (fst (tx_Commit R a w)))"
    and rolls_back: "tx_open h a \<Longrightarrow>
      \<exists>r. rollback R w h [ERef a] = ((Ok r, snd (tx_Rollback R a w)), h) \<and> (r = e_ok \<longleftrightarrow> status_ok (fst (tx_Rollback R a w)))"
begin

lemma write_applies:
  assumes "tx_open h a" "cf_usable h (op_cf c)" "is_write c"
  shows "\<exists>r. txn_write put del R a c w h = ((Ok r, snd (tx_apply R a c w)), h) \<and>
    (r = e_ok \<longleftrightarrow> status_ok (fst (tx_apply R a c w)))"
  using assms by (cases c) (simp_all add: put_applies del_applies)

lemma writes_pending:
  assumes "txn_laws R view mrg" "tx_open h a" "\<forall>c \<in> set cs. is_write c \<and> op_ok c \<and> cf_usable h (op_cf c)"
  shows "txn_writes put del R a cs w h = (rs, w1, h1) \<Longrightarrow>
    h1 = h \<and> length rs = length cs \<and> view w1 = on_pending a (\<lambda>(os, ns). (os @ accepted cs rs, ns)) (view w)"
  using assms(3)
proof (induction cs arbitrary: w rs)
  case Nil
  then show ?case
    by (simp add: accepted_def on_pending_def)
next
  case (Cons c cs)
  obtain r where r: "txn_write put del R a c w h = ((Ok r, snd (tx_apply R a c w)), h)"
      "r = e_ok \<longleftrightarrow> status_ok (fst (tx_apply R a c w))"
    using write_applies [OF assms(2), of c R w] Cons.prems(2) by auto
  obtain rs' w2 h2 where rest: "txn_writes put del R a cs (snd (tx_apply R a c w)) h = (rs', w2, h2)"
    by (metis prod_cases3)
  then have rs: "rs = Ok r # rs'" "w1 = w2" "h1 = h2"
    using Cons.prems(1) r by simp_all
  have IH: "h2 = h \<and> length rs' = length cs \<and>
      view w2 = on_pending a (\<lambda>(os, ns). (os @ accepted cs rs', ns)) (view (snd (tx_apply R a c w)))"
    using Cons.IH [OF rest [folded rs(2,3)]] Cons.prems(2) rs(2,3) by simp
  have "op_ok c"
    using Cons.prems(2) by simp
  with IH rs r(2) show ?case
    by (simp add: txn_lawsD(2) [OF assms(1)] accepted_def on_pending_def case_prod_beta)
qed

text \<open>All or nothing.\<close>

lemma session_commits:
  assumes "txn_laws R view mrg" "tx_open h a" "\<forall>c \<in> set cs. is_write c \<and> op_ok c \<and> cf_usable h (op_cf c)"
    and "pending (view w) a = ([], [])" "txn_writes put del R a cs w h = (rs, w1, h1)"
  shows "h1 = h \<and> committed (view w1) = committed (view w) \<and>
    (\<exists>r w2. commit R w1 h [ERef a] = ((Ok r, w2), h) \<and>
      committed (view w2) = (if r = e_ok
        then (committed (view w))(home (view w) a := committed (view w) (home (view w) a) @ accepted cs rs)
        else committed (view w))) \<and>
    (\<exists>r w2. rollback R w1 h [ERef a] = ((Ok r, w2), h) \<and> committed (view w2) = committed (view w) \<and>
      (r = e_ok \<longrightarrow> pending (view w2) a = ([], [])))"
proof -
  have w1: "h1 = h" "view w1 = on_pending a (\<lambda>(os, ns). (os @ accepted cs rs, ns)) (view w)"
    using writes_pending [OF assms(1-3,5)] by auto
  then have v: "committed (view w1) = committed (view w)" "home (view w1) = home (view w)"
      "pending (view w1) a = (accepted cs rs, [])"
    using assms(4) by (simp_all add: on_pending_def)
  obtain r where r: "commit R w1 h [ERef a] = ((Ok r, snd (tx_Commit R a w1)), h)"
      "r = e_ok \<longleftrightarrow> status_ok (fst (tx_Commit R a w1))"
    using commits [OF assms(2), of R w1] by auto
  have "committed (view (snd (tx_Commit R a w1))) = (if r = e_ok
      then (committed (view w))(home (view w) a := committed (view w) (home (view w) a) @ accepted cs rs)
      else committed (view w))"
    using r(2) v txn_lawsD(3,4) [OF assms(1), of a w1] by (auto simp: commit_spec_def on_pending_def)
  moreover obtain r' where r': "rollback R w1 h [ERef a] = ((Ok r', snd (tx_Rollback R a w1)), h)"
      "r' = e_ok \<longleftrightarrow> status_ok (fst (tx_Rollback R a w1))"
    using rolls_back [OF assms(2), of R w1] by auto
  moreover have "committed (view (snd (tx_Rollback R a w1))) = committed (view w)"
    using v(1) txn_lawsD(5) [OF assms(1), of a w1] by simp
  moreover have "r' = e_ok \<longrightarrow> pending (view (snd (tx_Rollback R a w1))) a = ([], [])"
    using r'(2) txn_lawsD(6) [OF assms(1), of a w1] by (simp add: on_pending_def)
  ultimately show ?thesis
    using w1(1) v(1) r(1) by blast
qed

end

lemma run_class_answer: "\<exists>r. (run_class classes x, h) = ((Ok r, snd x), h) \<and> (r = e_ok \<longleftrightarrow> status_ok (fst x))"
  by (simp add: run_class_def case_prod_beta)

lemma on_tx_class:
  assumes "tx_open h a"
  shows "on_tx h (ERef a) w (\<lambda>tx h1. (run_class classes (f tx), h1)) = (run_class classes (f a), h)"
  by (rule on_tx_runs [OF assms]) simp

interpretation optimistic: transaction_api PutTransaction DelTransaction CommitTransaction RollbackTransaction
  by unfold_locales
    (simp_all only: PutTransaction_def DelTransaction_def CommitTransaction_def RollbackTransaction_def
      tx_put_runs tx_delete_runs nth_Cons_0 on_tx_class run_class_answer)

interpretation pessimistic: transaction_api PessimisticTransactionPut PessimisticTransactionDelete
    PessimisticTransactionCommit PessimisticTransactionRollback
  by unfold_locales
    (simp_all only: PessimisticTransactionPut_def PessimisticTransactionDelete_def PessimisticTransactionCommit_def
      PessimisticTransactionRollback_def tx_put_runs tx_delete_runs nth_Cons_0 on_tx_class run_class_answer)

datatype txn_kind = Optimistic | Pessimistic

definition new_nif :: "txn_kind \<Rightarrow> ('w, 'it) txn_nif" where
  "new_nif kn = (case kn of Optimistic \<Rightarrow> NewTransaction | Pessimistic \<Rightarrow> NewPessimisticTransaction)"

definition put_nif :: "txn_kind \<Rightarrow> ('w, 'it) txn_nif" where
  "put_nif kn = (case kn of Optimistic \<Rightarrow> PutTransaction | Pessimistic \<Rightarrow> PessimisticTransactionPut)"

definition delete_nif :: "txn_kind \<Rightarrow> ('w, 'it) txn_nif" where
  "delete_nif kn = (case kn of Optimistic \<Rightarrow> DelTransaction | Pessimistic \<Rightarrow> PessimisticTransactionDelete)"

definition get_nif :: "txn_kind \<Rightarrow> ('w, 'it) txn_nif" where
  "get_nif kn = (case kn of Optimistic \<Rightarrow> GetTransaction | Pessimistic \<Rightarrow> PessimisticTransactionGet)"

definition get_for_update_nif :: "txn_kind \<Rightarrow> ('w, 'it) txn_nif" where
  "get_for_update_nif kn =
     (case kn of Optimistic \<Rightarrow> GetForUpdateTransaction | Pessimistic \<Rightarrow> PessimisticTransactionGetForUpdate)"

definition commit_nif :: "txn_kind \<Rightarrow> ('w, 'it) txn_nif" where
  "commit_nif kn = (case kn of Optimistic \<Rightarrow> CommitTransaction | Pessimistic \<Rightarrow> PessimisticTransactionCommit)"

definition rollback_nif :: "txn_kind \<Rightarrow> ('w, 'it) txn_nif" where
  "rollback_nif kn = (case kn of Optimistic \<Rightarrow> RollbackTransaction | Pessimistic \<Rightarrow> PessimisticTransactionRollback)"

lemma kind_api: "transaction_api (put_nif kn) (delete_nif kn) (commit_nif kn) (rollback_nif kn)"
  by (cases kn)
    (simp_all add: put_nif_def delete_nif_def commit_nif_def rollback_nif_def optimistic.transaction_api_axioms
      pessimistic.transaction_api_axioms)

section \<open>New transactions\<close>

lemma CreateTransactionObject_open:
  assumes "mem h d = Some ob" "m_CloseRequested ob = 0" "mem h (next_addr h) = None"
    and "CreateTransactionObject h (Some d) = (a, h1)"
  shows "a = next_addr h \<and> (\<forall>x. x \<noteq> d \<longrightarrow> x \<noteq> a \<longrightarrow> mem h1 x = mem h x) \<and>
    (\<exists>db. mem h1 d = Some db \<and> m_CloseRequested db = 0 \<and> kind db = kind ob \<and> m_Native db = m_Native ob) \<and>
    (\<exists>t. mem h1 a = Some t \<and> kind t = TransactionObject \<and> m_CloseRequested t = 0 \<and> m_Native t \<and> m_DbPtr t = Some d)"
proof -
  have "d \<noteq> next_addr h"
    using assms(1,3) by auto
  then show ?thesis
    using assms
    by (auto simp: CreateTransactionObject_def create_child_def enif_alloc_resource_def new_object_def
        TransactionObject_ctor_def ReferencePtr_ctor_def add_to_db_def AddTransactionReference_def RefInc_def
        with_live_def with_obj_def put_obj_def Let_def split: option.splits)
qed

definition class_of_kind :: "txn_kind \<Rightarrow> db_class" where
  "class_of_kind kn = (case kn of Optimistic \<Rightarrow> OptimisticTransactionDB | Pessimistic \<Rightarrow> TransactionDB)"

text \<open>A database on which a kind of transaction can begin.\<close>

definition begins :: "txn_kind \<Rightarrow> ('w, 'it) rocks_txn \<Rightarrow> 'w \<Rightarrow> ref_heap \<Rightarrow> addr \<Rightarrow> bool" where
  "begins kn R w h d \<longleftrightarrow> db_open h d \<and> db_class_of R d w = class_of_kind kn \<and>
     (kn = Pessimistic \<longrightarrow> (case mem h d of Some ob \<Rightarrow> m_IsPessimistic ob | None \<Rightarrow> False))"

lemma new_transaction_open:
  assumes "txn_laws R view mrg" "begins kn R w h d" "mem h (next_addr h) = None"
    and "new_nif kn R w h [ERef d, opts] = ((r, w1), h1)"
  shows "r = Ok (ok_tuple (ERef (next_addr h))) \<and> tx_open h1 (next_addr h) \<and>
    view w1 = begin_spec (next_addr h) d (view w) \<and> (\<forall>cf. cf_usable h cf \<longrightarrow> cf_usable h1 cf)"
proof -
  let ?a = "next_addr h" and ?h = "RefInc h d"
  obtain ob where ob: "mem h d = Some ob" "kind ob = DbObject" "m_CloseRequested ob = 0" "m_Native ob"
    using assms(2) by (auto simp: begins_def db_open_def split: option.splits)
  obtain a h2 where made: "CreateTransactionObject ?h (Some d) = (a, h2)"
    by fastforce
  have "mem ?h (next_addr ?h) = None"
    using assms(3) by simp
  from CreateTransactionObject_open [OF RefInc_open [OF ob(1,3)] _ this made] ob
  obtain db t where made': "a = ?a" "mem h2 d = Some db" "m_CloseRequested db = 0" "m_Native db"
      "mem h2 ?a = Some t" "kind t = TransactionObject" "m_CloseRequested t = 0" "m_Native t" "m_DbPtr t = Some d"
      and frame: "\<forall>x. x \<noteq> d \<longrightarrow> x \<noteq> ?a \<longrightarrow> mem h2 x = mem ?h x"
    by auto
  let ?h2 = "put_obj h2 d (db\<lparr>m_RefCount := m_RefCount db - 1\<rparr>)"
  let ?topts = "if kn = Optimistic then None else Some TransactionOptions_init"
  have "d \<noteq> ?a"
    using ob(1) assms(3) by auto
  have "new_nif kn R w h [ERef d, opts] =
      ((Ok (ok_tuple (ERef ?a)), tx_Begin R ?a d (write_options_of opts) ?topts w), ?h2)"
  proof (cases kn)
    case Optimistic
    then show ?thesis
      using assms(2) made made'
      by (simp add: new_nif_def NewTransaction_def, intro with_db_creates [OF _ _ made'(2,3)])
        (auto simp: begins_def class_of_kind_def)
  next
    case Pessimistic
    then show ?thesis
      using assms(2) made made' ob
      by (simp add: new_nif_def NewPessimisticTransaction_def, intro with_db_creates [OF _ _ made'(2,3)])
        (auto simp: begins_def class_of_kind_def RefInc_open Let_def)
  qed
  then have eq: "r = Ok (ok_tuple (ERef ?a))" "w1 = tx_Begin R ?a d (write_options_of opts) ?topts w" "h1 = ?h2"
    using assms(4) by auto
  have "tx_open ?h2 ?a"
    using made' \<open>d \<noteq> ?a\<close> by (simp add: tx_open_def default_cf_def put_obj_def)
  moreover have "cf_open ?h2 c" if "cf_open h c" for c
  proof -
    have "c \<noteq> d" "c \<noteq> ?a"
      using that ob assms(3) by (auto simp: cf_open_def)
    then show ?thesis
      using that frame by (simp add: cf_open_def put_obj_def RefInc_mem split: option.splits)
  qed
  then have "cf_usable ?h2 cf" if "cf_usable h cf" for cf
    using that by (auto simp: cf_usable_def split: cf_arg.splits option.splits)
  ultimately show ?thesis
    using eq txn_lawsD(1) [OF assms(1)] by simp
qed

section \<open>Save points\<close>

datatype txn_cmd = Write batch_op | SetSave | BackToSave | PopSave

fun txn_call ::
    "('w, 'it) rocks_txn \<Rightarrow> addr \<Rightarrow> txn_cmd \<Rightarrow> 'w \<Rightarrow> ref_heap \<Rightarrow> (nif_result \<times> 'w) \<times> ref_heap" where
  "txn_call R a (Write c) w h = txn_write PessimisticTransactionPut PessimisticTransactionDelete R a c w h"
| "txn_call R a SetSave w h = PessimisticTransactionSetSavepoint R w h [ERef a]"
| "txn_call R a BackToSave w h = PessimisticTransactionRollbackToSavepoint R w h [ERef a]"
| "txn_call R a PopSave w h = PessimisticTransactionPopSavepoint R w h [ERef a]"

fun txn_calls ::
    "('w, 'it) rocks_txn \<Rightarrow> addr \<Rightarrow> txn_cmd list \<Rightarrow> 'w \<Rightarrow> ref_heap \<Rightarrow> nif_result list \<times> 'w \<times> ref_heap" where
  "txn_calls R a [] w h = ([], w, h)"
| "txn_calls R a (c # cs) w h =
     (case txn_call R a c w h of
        ((r, w1), h1) \<Rightarrow> (case txn_calls R a cs w1 h1 of (rs, w2, h2) \<Rightarrow> (r # rs, w2, h2)))"

text \<open>The specification of a command, given whether the call answered \<open>ok\<close>.\<close>

fun cmd_spec :: "txn_cmd \<Rightarrow> bool \<Rightarrow> batch_content \<Rightarrow> batch_content" where
  "cmd_spec (Write c) answered_ok x = (if answered_ok then (fst x @ [c], snd x) else x)"
| "cmd_spec SetSave answered_ok x = (fst x, length (fst x) # snd x)"
| "cmd_spec BackToSave answered_ok x = snd (rollback_content x)"
| "cmd_spec PopSave answered_ok x = (fst x, tl (snd x))"

definition no_savepoint :: eterm where
  "no_savepoint = error_tuple_msg (EAtom ''error'') ''no savepoint set''"

fun cmd_answer :: "txn_cmd \<Rightarrow> batch_content \<Rightarrow> nif_result \<Rightarrow> bool" where
  "cmd_answer (Write c) x r = (\<exists>t. r = Ok t)"
| "cmd_answer SetSave x r = (r = Ok e_ok)"
| "cmd_answer _ x r = (r = Ok (if snd x = [] then no_savepoint else e_ok))"

fun txn_spec :: "txn_cmd list \<Rightarrow> nif_result list \<Rightarrow> batch_content \<Rightarrow> batch_content \<Rightarrow> bool" where
  "txn_spec [] [] x y = (x = y)"
| "txn_spec (c # cs) (r # rs) x y = (cmd_answer c x r \<and> txn_spec cs rs (cmd_spec c (r = Ok e_ok) x) y)"
| "txn_spec _ _ x y = False"

fun txn_cmd_ok :: "ref_heap \<Rightarrow> txn_cmd \<Rightarrow> bool" where
  "txn_cmd_ok h (Write c) = (is_write c \<and> op_ok c \<and> cf_usable h (op_cf c))"
| "txn_cmd_ok h _ = True"

lemma savepoint_result_code:
  assumes "code (fst x) = (if b then kNotFound else kOk)"
  shows "savepoint_result x = (Ok (if b then no_savepoint else e_ok), snd x)"
  using assms by (cases x) (auto simp: savepoint_result_def status_ok_def no_savepoint_def)

lemma txn_call_refines:
  assumes laws: "txn_laws R view mrg" and "tx_open h a" "txn_cmd_ok h c"
  shows "\<exists>r w1. txn_call R a c w h = ((r, w1), h) \<and> cmd_answer c (pending (view w) a) r \<and>
    view w1 = on_pending a (cmd_spec c (r = Ok e_ok)) (view w)"
proof (cases c)
  case (Write op)
  then obtain r where "txn_call R a c w h = ((Ok r, snd (tx_apply R a op w)), h)"
      "r = e_ok \<longleftrightarrow> status_ok (fst (tx_apply R a op w))"
    using pessimistic.write_applies [OF assms(2), of op R w] assms(3) by auto
  then show ?thesis
    using Write assms(3) by (auto simp: txn_lawsD(2) [OF laws] on_pending_def case_prod_beta)
next
  case SetSave
  have "txn_call R a c w h = ((Ok e_ok, tx_SetSavePoint R a w), h)"
    unfolding SetSave txn_call.simps PessimisticTransactionSetSavepoint_def nth_Cons_0
    by (rule on_tx_runs [OF assms(2)]) simp
  then show ?thesis
    using SetSave by (simp add: txn_lawsD(7) [OF laws] on_pending_def case_prod_beta)
next
  case BackToSave
  have "txn_call R a c w h = (savepoint_result (tx_RollbackToSavePoint R a w), h)"
    unfolding BackToSave txn_call.simps PessimisticTransactionRollbackToSavepoint_def nth_Cons_0
    by (rule on_tx_runs [OF assms(2)]) simp
  then show ?thesis
    using BackToSave savepoint_result_code [OF txn_lawsD(9) [OF laws, of a w]]
    by (auto simp: txn_lawsD(8) [OF laws] on_pending_def)
next
  case PopSave
  have "txn_call R a c w h = (savepoint_result (tx_PopSavePoint R a w), h)"
    unfolding PopSave txn_call.simps PessimisticTransactionPopSavepoint_def nth_Cons_0
    by (rule on_tx_runs [OF assms(2)]) simp
  then show ?thesis
    using PopSave savepoint_result_code [OF txn_lawsD(11) [OF laws, of a w]]
    by (auto simp: txn_lawsD(10) [OF laws] on_pending_def case_prod_beta)
qed

lemma on_pending_twice: "on_pending a g (on_pending a f v) = on_pending a (\<lambda>x. g (f x)) v"
  by (simp add: on_pending_def)

lemma txn_calls_refine:
  assumes laws: "txn_laws R view mrg" and "tx_open h a" "\<forall>c \<in> set cs. txn_cmd_ok h c"
  shows "\<exists>rs w1 y. txn_calls R a cs w h = (rs, w1, h) \<and> txn_spec cs rs (pending (view w) a) y \<and>
    view w1 = on_pending a (\<lambda>_. y) (view w)"
  using assms(3)
proof (induction cs arbitrary: w)
  case Nil
  show ?case
    by (intro exI [of _ "[]"] exI [of _ w] exI [of _ "pending (view w) a"]) (simp add: on_pending_def)
next
  case (Cons c cs)
  obtain r w1 where c: "txn_call R a c w h = ((r, w1), h)" "cmd_answer c (pending (view w) a) r"
      "view w1 = on_pending a (cmd_spec c (r = Ok e_ok)) (view w)"
    using txn_call_refines [OF assms(1,2), of c w] Cons.prems by auto
  obtain rs w2 y where rest: "txn_calls R a cs w1 h = (rs, w2, h)" "txn_spec cs rs (pending (view w1) a) y"
      "view w2 = on_pending a (\<lambda>_. y) (view w1)"
    using Cons.IH [of w1] Cons.prems by auto
  have "view w2 = on_pending a (\<lambda>_. y) (view w)"
    unfolding rest(3) c(3) on_pending_twice ..
  moreover have "pending (view w1) a = cmd_spec c (r = Ok e_ok) (pending (view w) a)"
    using c(3) by (simp add: on_pending_def)
  ultimately show ?case
    using c(1,2) rest(1,2) by (intro exI [of _ "r # rs"] exI [of _ w2] exI [of _ y]) simp
qed

section \<open>Transactions as the specification\<close>

text \<open>An instance of the laws whose state is the specification itself.\<close>

definition list_txn :: "db_class \<Rightarrow> (cf_arg \<Rightarrow> bytes \<Rightarrow> bytes option \<Rightarrow> bytes \<Rightarrow> bytes) \<Rightarrow> (txn_view, unit) rocks_txn" where
  "list_txn cls mrg =
     (let get = (\<lambda>a opts cf k v. case value_of mrg cf k (visible a v) of
            Some x \<Rightarrow> (ok_status, x) | None \<Rightarrow> (\<lparr>code = kNotFound, ToString = ''NotFound: ''\<rparr>, []));
          sp = (\<lambda>a (v :: txn_view). if snd (pending v a) = [] then \<lparr>code = kNotFound, ToString = ''NotFound: ''\<rparr> else ok_status)
      in \<lparr>db_class_of = (\<lambda>d v. cls), tx_Begin = (\<lambda>a d wo topts. begin_spec a d),
          tx_apply = (\<lambda>a c v. (ok_status, on_pending a (\<lambda>(cs, ns). (cs @ [c], ns)) v)),
          tx_Get = get, tx_GetForUpdate = (\<lambda>a opts cf k v. (get a opts cf k v, v)),
          tx_MultiGet = (\<lambda>a opts cf ks v i. get a opts cf (ks ! i) v),
          tx_MultiGetForUpdate = (\<lambda>a opts cf ks v. (\<lambda>i. get a opts cf (ks ! i) v, v)),
          tx_GetIterator = (\<lambda>a opts cf v. ()), tx_Commit = (\<lambda>a v. (ok_status, commit_spec a v)),
          tx_Rollback = (\<lambda>a v. (ok_status, on_pending a (\<lambda>_. ([], [])) v)),
          tx_SetSavePoint = (\<lambda>a. on_pending a (\<lambda>(cs, ns). (cs, length cs # ns))),
          tx_RollbackToSavePoint = (\<lambda>a v. (sp a v, on_pending a (\<lambda>x. snd (rollback_content x)) v)),
          tx_PopSavePoint = (\<lambda>a v. (sp a v, on_pending a (\<lambda>(cs, ns). (cs, tl ns)) v)),
          tx_GetID = (\<lambda>a v. of_nat a), tx_GetWaitingTxns = (\<lambda>a v. ([], None))\<rparr>)"

lemma list_txn_laws: "txn_laws (list_txn cls mrg) id mrg"
  by (simp add: txn_laws_def list_txn_def Let_def reads_def status_ok_def ok_status_def on_pending_def split: option.split)

text \<open>A database for both kinds, for the instances.\<close>

definition txn_heap :: ref_heap where
  "txn_heap = snd (CreateDbObject empty_heap True False)"

definition no_txns :: txn_view where
  "no_txns = \<lparr>pending = (\<lambda>_. ([], [])), committed = (\<lambda>_. []), home = (\<lambda>_. 0)\<rparr>"

lemma txn_heap_open: "db_open txn_heap 0" "next_addr txn_heap = 1" "mem txn_heap 1 = None"
    "begins kn (list_txn (class_of_kind kn) mrg) no_txns txn_heap 0"
  by (simp_all add: txn_heap_def CreateDbObject_def enif_alloc_resource_def empty_heap_def new_object_def
      db_open_def RefInc_mem put_obj_def begins_def list_txn_def Let_def)

definition tx_heap :: ref_heap where
  "tx_heap = snd (CreateTransactionObject txn_heap (Some 0))"

lemma tx_heap_open: "tx_open tx_heap 1"
  by code_simp

section \<open>Properties\<close>

text \<open>
  Claim C16. A transaction is all or nothing, for both kinds: after a transaction is begun
  and any sequence of puts and deletes is made in it, nothing is committed yet; a
  \<open>commit\<close> that answers \<open>ok\<close> appends to the database exactly the operations whose calls
  answered \<open>ok\<close>, in order, one that answers an error appends none, and a \<open>rollback\<close> appends
  none and empties the transaction.
\<close>

theorem transaction_all_or_nothing:
  assumes "txn_laws R view mrg" "begins kn R w h d" "mem h (next_addr h) = None"
    and "new_nif kn R w h [ERef d, opts] = ((r0, w0), h0)"
    and "\<forall>c \<in> set cs. is_write c \<and> op_ok c \<and> cf_usable h (op_cf c)"
    and "txn_writes (put_nif kn) (delete_nif kn) R (next_addr h) cs w0 h0 = (rs, w1, h1)"
  shows "r0 = Ok (ok_tuple (ERef (next_addr h))) \<and> h1 = h0 \<and> committed (view w1) = committed (view w) \<and>
    (\<exists>r w2. commit_nif kn R w1 h0 [ERef (next_addr h)] = ((Ok r, w2), h0) \<and>
      committed (view w2) =
        (if r = e_ok then (committed (view w))(d := committed (view w) d @ accepted cs rs) else committed (view w))) \<and>
    (\<exists>r w2. rollback_nif kn R w1 h0 [ERef (next_addr h)] = ((Ok r, w2), h0) \<and> committed (view w2) = committed (view w) \<and>
      (r = e_ok \<longrightarrow> pending (view w2) (next_addr h) = ([], [])))"
proof -
  have new: "r0 = Ok (ok_tuple (ERef (next_addr h)))" "tx_open h0 (next_addr h)"
      "view w0 = begin_spec (next_addr h) d (view w)" "\<forall>cf. cf_usable h cf \<longrightarrow> cf_usable h0 cf"
    using new_transaction_open [OF assms(1-4)] by auto
  have "\<forall>c \<in> set cs. is_write c \<and> op_ok c \<and> cf_usable h0 (op_cf c)"
    using assms(5) new(4) by blast
  moreover have v0: "committed (view w0) = committed (view w)" "home (view w0) (next_addr h) = d"
      "pending (view w0) (next_addr h) = ([], [])"
    using new(3) by (simp_all add: begin_spec_def)
  ultimately show ?thesis
    using transaction_api.session_commits [OF kind_api assms(1) new(2) _ v0(3) assms(6), unfolded v0(1,2)] new(1)
    by blast
qed

theorem transaction_all_or_nothing_witness:
  "\<exists>w0 h0 rs w1 r w2. new_nif Pessimistic (list_txn TransactionDB (\<lambda>_ _ _ v. v)) no_txns txn_heap [ERef 0, ENil] =
      ((Ok (ok_tuple (ERef 1)), w0), h0) \<and>
    txn_writes (put_nif Pessimistic) (delete_nif Pessimistic) (list_txn TransactionDB (\<lambda>_ _ _ v. v)) 1
      [WPut NoCf [1] [2], WDelete NoCf [3]] w0 h0 = (rs, w1, h0) \<and> committed w1 0 = [] \<and>
    commit_nif Pessimistic (list_txn TransactionDB (\<lambda>_ _ _ v. v)) w1 h0 [ERef 1] = ((Ok r, w2), h0) \<and>
    committed w2 0 = (if r = e_ok then accepted [WPut NoCf [1] [2], WDelete NoCf [3]] rs else [])"
proof -
  let ?R = "list_txn TransactionDB (\<lambda>_ _ _ v. v)" and ?cs = "[WPut NoCf [1] [2], WDelete NoCf [3]]"
  obtain r0 w0 h0 where new: "new_nif Pessimistic ?R no_txns txn_heap [ERef 0, ENil] = ((r0, w0), h0)"
    by (metis surj_pair)
  obtain rs w1 h1 where run: "txn_writes (put_nif Pessimistic) (delete_nif Pessimistic) ?R (next_addr txn_heap) ?cs w0 h0 =
      (rs, w1, h1)"
    by (metis prod_cases3)
  have b: "begins Pessimistic ?R no_txns txn_heap 0"
    using txn_heap_open(4) [of Pessimistic] by (simp add: class_of_kind_def)
  have ok: "\<forall>c \<in> set ?cs. is_write c \<and> op_ok c \<and> cf_usable txn_heap (op_cf c)"
    by (simp add: op_ok_def cf_usable_def)
  have free: "mem txn_heap (next_addr txn_heap) = None"
    by (simp only: txn_heap_open(2,3))
  from transaction_all_or_nothing [OF list_txn_laws b free new ok run] new run show ?thesis
    by (auto simp: txn_heap_open(2) no_txns_def simp del: One_nat_def)
qed

text \<open>
  Claim C18. Save points are a stack: in any sequence of puts, deletes, set, rollback-to and
  pop of save points on an open pessimistic transaction, the operations waiting in the
  transaction are those the specification gives; rolling back to or popping a save
  point answers \<open>ok\<close> exactly when there is one and \<open>no savepoint set\<close> otherwise; nothing
  else changes.
\<close>

theorem savepoints_refine_stack:
  assumes "txn_laws R view mrg" "tx_open h a" "\<forall>c \<in> set cs. txn_cmd_ok h c"
  shows "\<exists>rs w1 y. txn_calls R a cs w h = (rs, w1, h) \<and> txn_spec cs rs (pending (view w) a) y \<and>
    view w1 = on_pending a (\<lambda>_. y) (view w)"
  by (rule txn_calls_refine [OF assms(1,2)]) (use assms(3) in simp)

theorem savepoints_refine_stack_witness:
  "\<exists>rs w1 y. txn_calls (list_txn TransactionDB (\<lambda>_ _ _ v. v)) 1
      [Write (WPut NoCf [1] [2]), SetSave, Write (WDelete NoCf [1]), BackToSave, PopSave] no_txns tx_heap = (rs, w1, tx_heap) \<and>
    txn_spec [Write (WPut NoCf [1] [2]), SetSave, Write (WDelete NoCf [1]), BackToSave, PopSave] rs ([], []) y \<and>
    pending w1 1 = y"
  using savepoints_refine_stack [OF list_txn_laws tx_heap_open,
      of "[Write (WPut NoCf [1] [2]), SetSave, Write (WDelete NoCf [1]), BackToSave, PopSave]"
        TransactionDB "\<lambda>_ _ _ v. v" no_txns]
  by (auto simp: op_ok_def cf_usable_def no_txns_def on_pending_def)

text \<open>
  Claim C19. A transaction reads its own writes: after puts and deletes in an open
  transaction of either kind, \<open>get\<close> and \<open>get_for_update\<close> without a snapshot answer the value
  the committed operations of the database followed by the accepted ones of the
  transaction give to the key, or \<open>not_found\<close> when they give none, or an error; they
  change neither.
\<close>

theorem transaction_reads_own_writes:
  assumes "txn_laws R view mrg" "tx_open h a" "\<forall>c \<in> set cs. is_write c \<and> op_ok c \<and> cf_usable h (op_cf c)"
    and "txn_writes (put_nif kn) (delete_nif kn) R a cs w h = (rs, w1, h1)"
    and "cf_usable h cf" "read_options_of h opts = (h2, ropts)" "read_tier ropts = kReadAllTier" "snapshot ropts = None"
    and "ops = visible a (view w) @ accepted cs rs" "single_safe cf k ops" "get \<in> {get_nif kn, get_for_update_nif kn}"
  shows "\<exists>r w2. get R w1 h1 (ERef a # cf_terms cf @ [EBin k, opts]) = ((Ok r, w2), h) \<and> view w2 = view w1 \<and>
    ((\<exists>v. r = ok_tuple (EBin v) \<and> value_of mrg cf k ops = Some v) \<or>
     r = EAtom ''not_found'' \<and> value_of mrg cf k ops = None \<or> (\<exists>e. r = ETuple [EAtom ''error'', e]))"
proof -
  have w1: "h1 = h" "view w1 = on_pending a (\<lambda>(os, ns). (os @ accepted cs rs, ns)) (view w)"
    using transaction_api.writes_pending [OF kind_api assms(1-3,4)] by auto
  then have vis: "visible a (view w1) = ops"
    using assms(9) by (simp add: visible_def on_pending_def case_prod_beta)
  obtain classes call where call: "get R w1 h (ERef a # cf_terms cf @ [EBin k, opts]) =
      ((Ok (value_result classes (fst (call a ropts cf k w1))), snd (call a ropts cf k w1)), h)"
      "call = tx_GetForUpdate R \<or> call = (\<lambda>tx opts cf k w. (tx_Get R tx opts cf k w, w))"
  proof (cases kn)
    case Optimistic
    then show thesis
      using assms(11) that tx_read_runs [OF assms(2,5), of _ "tx_GetForUpdate R" w1 k opts] assms(6)
      by (auto simp: get_nif_def get_for_update_nif_def GetTransaction_def GetForUpdateTransaction_def)
  next
    case Pessimistic
    then consider "get = PessimisticTransactionGet" | "get = PessimisticTransactionGetForUpdate"
      using assms(11) by (auto simp: get_nif_def get_for_update_nif_def)
    then show thesis
    proof cases
      case 1
      show thesis
        by (rule that [of read_classes "\<lambda>tx opts cf k w. (tx_Get R tx opts cf k w, w)"])
          (simp_all add: 1 PessimisticTransactionGet_def tx_read_runs [OF assms(2,5)] assms(6))
    next
      case 2
      show thesis
        by (rule that [OF _ disjI1 [OF refl]]) (simp add: 2 PessimisticTransactionGetForUpdate_def tx_read_runs [OF assms(2,5)] assms(6))
    qed
  qed
  obtain st v where st: "fst (call a ropts cf k w1) = (st, v)"
    by fastforce
  have "reads mrg cf k ops (st, v)" "view (snd (call a ropts cf k w1)) = view w1"
    using call(2) st txn_lawsD(12,13) [OF assms(1,7,8), of cf k a w1] txn_lawsD(14) [OF assms(1), of a ropts cf k w1]
      assms(10) vis by auto
  then show ?thesis
    using call(1) w1(1) st value_result_cases [of classes st v] by (auto simp: reads_def)
qed

theorem transaction_reads_own_writes_witness:
  "\<exists>rs w1 r w2. txn_writes (put_nif Optimistic) (delete_nif Optimistic) (list_txn OptimisticTransactionDB (\<lambda>_ _ _ v. v)) 1
      [WPut NoCf [1] [2], WDelete NoCf [3]] no_txns tx_heap = (rs, w1, tx_heap) \<and>
    get_nif Optimistic (list_txn OptimisticTransactionDB (\<lambda>_ _ _ v. v)) w1 tx_heap [ERef 1, EBin [3], ENil] =
      ((Ok r, w2), tx_heap) \<and> (r = EAtom ''not_found'' \<or> (\<exists>e. r = ETuple [EAtom ''error'', e]))"
proof -
  let ?R = "list_txn OptimisticTransactionDB (\<lambda>_ _ _ v. v)" and ?cs = "[WPut NoCf [1] [2], WDelete NoCf [3]]"
  obtain rs w1 h1 where run: "txn_writes (put_nif Optimistic) (delete_nif Optimistic) ?R 1 ?cs no_txns tx_heap = (rs, w1, h1)"
    by (metis prod_cases3)
  have ok: "\<forall>c \<in> set ?cs. is_write c \<and> op_ok c \<and> cf_usable tx_heap (op_cf c)" "cf_usable tx_heap NoCf"
    by (simp_all add: op_ok_def cf_usable_def)
  have opts: "read_options_of tx_heap ENil = (tx_heap, ReadOptions_init)" "read_tier ReadOptions_init = kReadAllTier"
      "snapshot ReadOptions_init = None"
    by (simp_all add: read_options_of_def nif_fold_def ReadOptions_init_def)
  have w1: "h1 = tx_heap" "length rs = 2"
    using transaction_api.writes_pending [OF kind_api list_txn_laws tx_heap_open ok(1) run] by auto
  then obtain r1 r2 where rs: "rs = [r1, r2]"
    by (auto simp: numeral_2_eq_2 length_Suc_conv)
  have "value_of (\<lambda>_ _ _ v. v) NoCf [3] (visible 1 no_txns @ accepted ?cs rs) = None"
      "single_safe NoCf [3] (visible 1 no_txns @ accepted ?cs rs)"
    by (auto simp: rs accepted_def visible_def no_txns_def value_of_def single_safe_def)
  from transaction_reads_own_writes [OF list_txn_laws tx_heap_open ok(1) run ok(2) opts _ this(2), of "get_nif Optimistic"]
    this(1) w1(1) run show ?thesis
    by auto
qed

definition demo_tx_itr :: "(nif_result \<times> unit itrs \<times> slice_store) \<times> ref_heap" where
  "demo_tx_itr = IteratorTransaction (list_txn OptimisticTransactionDB (\<lambda>_ _ _ v. v)) no_txns (\<lambda>_. None) no_slices tx_heap
     [ERef 1, ENil]"

definition demo_tx_released :: ref_heap where
  "demo_tx_released = snd (ReleaseTransaction (snd demo_tx_itr) [ERef 1])"

lemma demo_tx_itr_runs:
  "fst (fst demo_tx_itr) = Ok (ok_tuple (ERef 2))" "fst (snd (fst demo_tx_itr)) 2 \<noteq> None"
  by code_simp+

lemma demo_tx_released_log:
  "fst (ReleaseTransaction (snd demo_tx_itr) [ERef 1]) = Ok e_ok" "log demo_tx_released = [DeleteTransaction (Some 0) 1]"
  by code_simp+

lemma demo_tx_released_itr:
  "\<exists>it. mem demo_tx_released 2 = Some it \<and> kind it = ItrObject \<and> m_CloseRequested it = 0 \<and> m_DbPtr it = Some 0"
proof -
  have "case mem demo_tx_released 2 of Some it \<Rightarrow> kind it = ItrObject \<and> m_CloseRequested it = 0 \<and> m_DbPtr it = Some 0
      | None \<Rightarrow> False"
    by code_simp
  then show ?thesis
    by (simp split: option.splits)
qed

lemma demo_tx_released_db: "\<exists>db. mem demo_tx_released 0 = Some db \<and> m_CloseRequested db = 0"
proof -
  have "case mem demo_tx_released 0 of Some db \<Rightarrow> m_CloseRequested db = 0 | None \<Rightarrow> False"
    by code_simp
  then show ?thesis
    by (simp split: option.splits)
qed

text \<open>
  An iterator of a transaction can outlive it: the object created by
  \<open>transaction_iterator\<close> holds the database and not the transaction, so after
  \<open>release_transaction\<close> the RocksDB transaction is deleted while the iterator that reads its
  writes is still open, owned and accepted by every iterator call.
\<close>

theorem iterator_outlives_transaction:
  "\<exists>its1 sl1 h1 h2 n. tx_open tx_heap 1 \<and>
    IteratorTransaction (list_txn OptimisticTransactionDB (\<lambda>_ _ _ v. v)) no_txns (\<lambda>_. None) no_slices tx_heap
      [ERef 1, ENil] = ((Ok (ok_tuple (ERef 2)), its1, sl1), h1) \<and>
    ReleaseTransaction h1 [ERef 1] = (Ok e_ok, h2) \<and>
    log h2 = [DeleteTransaction (Some 0) 1] \<and> itr_open h2 2 \<and> its1 2 = Some n"
proof -
  obtain r its1 sl1 h1 where itr: "demo_tx_itr = ((r, its1, sl1), h1)"
    by (metis prod.collapse)
  obtain n where "r = Ok (ok_tuple (ERef 2))" "its1 2 = Some n"
    using demo_tx_itr_runs unfolding itr by auto
  moreover obtain h2 where h2: "ReleaseTransaction h1 [ERef 1] = (Ok e_ok, h2)"
    using demo_tx_released_log(1) unfolding itr by (metis prod.collapse snd_conv)
  then have "h2 = demo_tx_released"
    by (simp add: demo_tx_released_def itr)
  moreover have "itr_open demo_tx_released 2"
    unfolding itr_open_def using demo_tx_released_itr demo_tx_released_db by blast
  ultimately show ?thesis
    using tx_heap_open h2 itr [unfolded demo_tx_itr_def] demo_tx_released_log(2) by blast
qed

end
