(* ===== verification/Shared_Objects.thy ===== *)
theory Shared_Objects
  imports Db_Props
begin

text \<open>
  The resources that share a RocksDB object with databases: caches (\<open>cache.cc\<close>), rate
  limiters (\<open>rate_limiter.cc\<close>), write buffer managers (\<open>write_buffer_manager.cc\<close>), SST file
  managers (\<open>sst_file_manager.cc\<close>), statistics (\<open>statistics.cc\<close>) and environments (\<open>env.cc\<close>).
  A wrapper is a resource that holds a \<open>std::shared_ptr\<close>; the object it points to lives
  while some \<open>shared_ptr\<close> owns it. The RocksDB classes are the record \<open>rocks_shared\<close>, an
  argument, on states \<open>'n\<close> of their objects. Doubles are their 64 bits.
\<close>

section \<open>Wrappers and shared pointers\<close>

datatype shared_kind = CacheRes | RateLimiterRes | WriteBufferManagerRes | SstFileManagerRes | StatisticsRes | EnvRes

text \<open>\<open>wlive\<close> is false once the destructor has run.\<close>

record wrapper =
  wkind :: shared_kind
  wptr :: "nat option"
  wlive :: bool

record 'n shared_heap =
  wrappers :: "addr \<Rightarrow> wrapper option"
  next_wrapper :: addr
  natives :: "nat \<Rightarrow> 'n option"
  use_count :: "nat \<Rightarrow> nat"
  next_native :: nat

text \<open>Object 0 is the environment of \<open>Env::Default()\<close>, which lives for ever.\<close>

definition shared_init :: "'n \<Rightarrow> 'n shared_heap" where
  "shared_init default_env =
     \<lparr>wrappers = (\<lambda>_. None), next_wrapper = 0, natives = [0 \<mapsto> default_env], use_count = (\<lambda>_. 0)(0 := 1), next_native = 1\<rparr>"

text \<open>A new object with one owner, another owner, and one owner less.\<close>

definition make_shared :: "'n \<Rightarrow> 'n shared_heap \<Rightarrow> nat \<times> 'n shared_heap" where
  "make_shared x S =
     (next_native S,
      S\<lparr>natives := (natives S)(next_native S \<mapsto> x), use_count := (use_count S)(next_native S := 1),
        next_native := next_native S + 1\<rparr>)"

definition shared_copy :: "nat \<Rightarrow> 'n shared_heap \<Rightarrow> 'n shared_heap" where
  "shared_copy p S = S\<lparr>use_count := (use_count S)(p := use_count S p + 1)\<rparr>"

definition shared_reset :: "nat \<Rightarrow> 'n shared_heap \<Rightarrow> 'n shared_heap" where
  "shared_reset p S =
     (let S1 = S\<lparr>use_count := (use_count S)(p := use_count S p - 1)\<rparr>
      in if use_count S p = 1 then S1\<lparr>natives := (natives S)(p := None)\<rparr> else S1)"

text \<open>
  The \<open>Create...Resource\<close> functions: the owner that was the argument becomes the owner in
  the wrapper.
\<close>

definition create_wrapper :: "shared_kind \<Rightarrow> nat \<Rightarrow> 'n shared_heap \<Rightarrow> addr \<times> 'n shared_heap" where
  "create_wrapper k p S =
     (next_wrapper S,
      S\<lparr>wrappers := (wrappers S)(next_wrapper S \<mapsto> \<lparr>wkind = k, wptr = Some p, wlive = True\<rparr>),
        next_wrapper := next_wrapper S + 1\<rparr>)"

text \<open>\<open>enif_get_resource\<close> with the resource type of the class.\<close>

definition retrieve_wrapper :: "'n shared_heap \<Rightarrow> shared_kind \<Rightarrow> eterm \<Rightarrow> addr option" where
  "retrieve_wrapper S k t =
     (case t of
        ERef a \<Rightarrow> (case wrappers S a of Some w \<Rightarrow> if wkind w = k then Some a else None | None \<Rightarrow> None)
      | _ \<Rightarrow> None)"

text \<open>
  The destructor of a wrapper: it sets the pointer to null, which gives up the ownership.
  Running it again is undefined.
\<close>

definition wrapper_dtor :: "'n shared_heap \<Rightarrow> addr \<Rightarrow> 'n shared_heap outcome" where
  "wrapper_dtor S a =
     (case wrappers S a of
        None \<Rightarrow> Undef
      | Some w \<Rightarrow>
          if \<not> wlive w then Undef
          else Ok ((case wptr w of None \<Rightarrow> S | Some p \<Rightarrow> shared_reset p S)
                 \<lparr>wrappers := (wrappers S)(a \<mapsto> w\<lparr>wptr := None, wlive := False\<rparr>)\<rparr>))"

text \<open>
  The \<open>...ResourceCleanup\<close> callbacks, when the term is collected: those of environments and
  rate limiters do nothing. The memory of the resource is freed.
\<close>

definition wrapper_cleanup :: "'n shared_heap \<Rightarrow> addr \<Rightarrow> 'n shared_heap outcome" where
  "wrapper_cleanup S a =
     (case wrappers S a of
        None \<Rightarrow> Undef
      | Some w \<Rightarrow>
          bind_outcome (if wkind w \<in> {EnvRes, RateLimiterRes} then Ok S else wrapper_dtor S a)
            (\<lambda>S1. Ok (S1\<lparr>wrappers := (wrappers S1)(a := None)\<rparr>)))"

text \<open>The pointer of a wrapper whose destructor has not run.\<close>

definition wrapper_ptr :: "'n shared_heap \<Rightarrow> addr \<Rightarrow> nat option" where
  "wrapper_ptr S a = (case wrappers S a of Some w \<Rightarrow> if wlive w then wptr w else None | None \<Rightarrow> None)"

text \<open>
  A NIF on a wrapper: \<open>bad\<close> is the answer for another term, \<open>f\<close> uses the object. A wrapper
  whose destructor ran must not be used.
\<close>

definition on_shared ::
    "'n shared_heap \<Rightarrow> shared_kind \<Rightarrow> eterm \<Rightarrow> nif_result \<Rightarrow> ('n \<Rightarrow> nif_result \<times> 'n) \<Rightarrow> nif_result \<times> 'n shared_heap" where
  "on_shared S k t bad f =
     (case retrieve_wrapper S k t of
        None \<Rightarrow> (bad, S)
      | Some a \<Rightarrow>
          (case wrapper_ptr S a of
             None \<Rightarrow> (Undef, S)
           | Some p \<Rightarrow>
               (case natives S p of
                  Some x \<Rightarrow> (case f x of (r, x1) \<Rightarrow> (r, S\<lparr>natives := (natives S)(p \<mapsto> x1)\<rparr>))
                | None \<Rightarrow> (Undef, S))))"

text \<open>
  The release NIFs of caches, write buffer managers and SST file managers copy the
  \<open>shared_ptr\<close> to a local variable and reset the copy.
\<close>

definition release_copy :: "shared_kind \<Rightarrow> 'n shared_heap \<Rightarrow> eterm list \<Rightarrow> nif_result \<times> 'n shared_heap" where
  "release_copy k S argv =
     (case retrieve_wrapper S k (argv ! 0) of
        None \<Rightarrow> (Ok e_ok, S)
      | Some a \<Rightarrow>
          (case wrappers S a of
             Some w \<Rightarrow>
               (case wptr w of None \<Rightarrow> (Ok e_ok, S) | Some p \<Rightarrow> (Ok e_ok, shared_reset p (shared_copy p S)))
           | None \<Rightarrow> (Undef, S)))"

text \<open>Those of rate limiters and statistics run the destructor.\<close>

definition release_dtor :: "shared_kind \<Rightarrow> 'n shared_heap \<Rightarrow> eterm list \<Rightarrow> nif_result \<times> 'n shared_heap" where
  "release_dtor k S argv =
     (case retrieve_wrapper S k (argv ! 0) of
        None \<Rightarrow> (Ok e_ok, S)
      | Some a \<Rightarrow> (case wrapper_dtor S a of Ok S1 \<Rightarrow> (Ok e_ok, S1) | _ \<Rightarrow> (Undef, S)))"

definition new_wrapper :: "shared_kind \<Rightarrow> 'n \<Rightarrow> 'n shared_heap \<Rightarrow> nif_result \<times> 'n shared_heap" where
  "new_wrapper k x S =
     (case make_shared x S of
        (p, S1) \<Rightarrow> (case create_wrapper k p S1 of (a, S2) \<Rightarrow> (Ok (ok_tuple (ERef a)), S2)))"

section \<open>RocksDB objects\<close>

fun enif_get_double :: "eterm \<Rightarrow> u64 option" where
  "enif_get_double (EFloat d) = Some d"
| "enif_get_double _ = None"

record histogram_data =
  h_doubles :: "u64 list"
  h_count :: u64
  h_sum :: u64

record 'n rocks_shared =
  NewLRUCache :: "u64 \<Rightarrow> 'n"
  HyperClockCache :: "u64 \<Rightarrow> 'n"
  cache_GetUsage :: "'n \<Rightarrow> u64"
  cache_GetPinnedUsage :: "'n \<Rightarrow> u64"
  cache_GetCapacity :: "'n \<Rightarrow> u64"
  cache_HasStrictCapacityLimit :: "'n \<Rightarrow> bool"
  cache_SetCapacity :: "u64 \<Rightarrow> 'n \<Rightarrow> 'n"
  cache_SetStrictCapacityLimit :: "bool \<Rightarrow> 'n \<Rightarrow> 'n"
  NewGenericRateLimiter :: "int \<Rightarrow> int \<Rightarrow> int \<Rightarrow> bool \<Rightarrow> 'n"
  NewWriteBufferManager_rocks :: "u64 \<Rightarrow> nat option \<Rightarrow> 'n"
  wbm_memory_usage :: "'n \<Rightarrow> u64"
  wbm_mutable_memtable_memory_usage :: "'n \<Rightarrow> u64"
  wbm_buffer_size :: "'n \<Rightarrow> u64"
  wbm_enabled :: "'n \<Rightarrow> bool"
  NewSstFileManager_rocks :: "nat option \<Rightarrow> int \<Rightarrow> u64 \<Rightarrow> u64 \<Rightarrow> status \<times> 'n"
  sfm_SetMaxAllowedSpaceUsage :: "u64 \<Rightarrow> 'n \<Rightarrow> 'n"
  sfm_SetCompactionBufferSize :: "u64 \<Rightarrow> 'n \<Rightarrow> 'n"
  sfm_SetDeleteRateBytesPerSecond :: "int \<Rightarrow> 'n \<Rightarrow> 'n"
  sfm_SetMaxTrashDBRatio :: "u64 \<Rightarrow> 'n \<Rightarrow> 'n"
  sfm_GetTotalSize :: "'n \<Rightarrow> u64"
  sfm_GetDeleteRateBytesPerSecond :: "'n \<Rightarrow> int"
  sfm_GetMaxTrashDBRatio :: "'n \<Rightarrow> u64"
  sfm_GetTotalTrashSize :: "'n \<Rightarrow> u64"
  sfm_IsMaxAllowedSpaceReached :: "'n \<Rightarrow> bool"
  sfm_IsMaxAllowedSpaceReachedIncludingCompactions :: "'n \<Rightarrow> bool"
  sfm_GetTrackedFiles :: "'n \<Rightarrow> (bytes \<times> u64) list"
  CreateDBStatistics :: 'n
  st_set_stats_level :: "nat \<Rightarrow> 'n \<Rightarrow> 'n"
  st_get_stats_level :: "'n \<Rightarrow> nat"
  st_getTickerCount :: "string \<Rightarrow> 'n \<Rightarrow> u64"
  st_histogramData :: "string \<Rightarrow> 'n \<Rightarrow> histogram_data"
  env_NewMemEnv :: 'n
  env_CreateDir :: "string \<Rightarrow> 'n \<Rightarrow> 'n"
  env_SetBackgroundThreads :: "int \<Rightarrow> env_priority \<Rightarrow> 'n \<Rightarrow> 'n"

text \<open>
  An info NIF: with an item it answers the item, without one the list of all items, each
  put in front of those before it.
\<close>

definition info_result :: "(eterm \<Rightarrow> nif_result) \<Rightarrow> string list \<Rightarrow> eterm list \<Rightarrow> nif_result" where
  "info_result item_info items argv =
     (if 1 < length argv then item_info (argv ! 1)
      else Ok (fold (\<lambda>item. ECons (ETuple [EAtom item, (case item_info (EAtom item) of Ok t \<Rightarrow> t | _ \<Rightarrow> EAtom ''badarg'')]))
             items (enif_make_list [])))"

section \<open>Caches\<close>

definition NewCache :: "'n rocks_shared \<Rightarrow> 'n shared_heap \<Rightarrow> eterm list \<Rightarrow> nif_result \<times> 'n shared_heap" where
  "NewCache R S argv =
     (case enif_get_uint64 (argv ! 1) of
        Some capacity \<Rightarrow>
          if \<not> enif_is_atom (argv ! 0) then (Failed, S)
          else if argv ! 0 = EAtom ''lru'' then new_wrapper CacheRes (NewLRUCache R capacity) S
          else if argv ! 0 = EAtom ''clock'' then new_wrapper CacheRes (HyperClockCache R capacity) S
          else (Failed, S)
      | None \<Rightarrow> (Failed, S))"

definition ReleaseCache :: "'n shared_heap \<Rightarrow> eterm list \<Rightarrow> nif_result \<times> 'n shared_heap" where
  "ReleaseCache S argv = release_copy CacheRes S argv"

definition cache_info_1 :: "'n rocks_shared \<Rightarrow> 'n \<Rightarrow> eterm \<Rightarrow> nif_result" where
  "cache_info_1 R c item =
     (if item = EAtom ''usage'' then Ok (EInt (uint (cache_GetUsage R c)))
      else if item = EAtom ''pinned_usage'' then Ok (EInt (uint (cache_GetPinnedUsage R c)))
      else if item = EAtom ''capacity'' then Ok (EInt (uint (cache_GetCapacity R c)))
      else if item = EAtom ''strict_capacity'' then Ok (e_bool (cache_HasStrictCapacityLimit R c))
      else Failed)"

definition CacheInfo :: "'n rocks_shared \<Rightarrow> 'n shared_heap \<Rightarrow> eterm list \<Rightarrow> nif_result \<times> 'n shared_heap" where
  "CacheInfo R S argv =
     on_shared S CacheRes (argv ! 0) Failed (\<lambda>c.
       (info_result (cache_info_1 R c) [''pinned_usage'', ''usage'', ''strict_capacity'', ''capacity''] argv, c))"

definition SetCapacity :: "'n rocks_shared \<Rightarrow> 'n shared_heap \<Rightarrow> eterm list \<Rightarrow> nif_result \<times> 'n shared_heap" where
  "SetCapacity R S argv =
     (if retrieve_wrapper S CacheRes (argv ! 0) = None then (Failed, S)
      else case enif_get_uint64 (argv ! 1) of
             None \<Rightarrow> (Failed, S)
           | Some capacity \<Rightarrow> on_shared S CacheRes (argv ! 0) Failed (\<lambda>c. (Ok e_ok, cache_SetCapacity R capacity c)))"

definition SetStrictCapacityLimit :: "'n rocks_shared \<Rightarrow> 'n shared_heap \<Rightarrow> eterm list \<Rightarrow> nif_result \<times> 'n shared_heap" where
  "SetStrictCapacityLimit R S argv =
     on_shared S CacheRes (argv ! 0) Failed (\<lambda>c.
       (Ok e_ok, cache_SetStrictCapacityLimit R (argv ! 1 = EAtom ''true'') c))"

section \<open>Rate limiters\<close>

text \<open>The rate is an \<open>int64_t\<close> in RocksDB.\<close>

definition NewRateLimiter :: "'n rocks_shared \<Rightarrow> 'n shared_heap \<Rightarrow> eterm list \<Rightarrow> nif_result \<times> 'n shared_heap" where
  "NewRateLimiter R S argv =
     (if length argv \<noteq> 2 then (Failed, S)
      else case enif_get_uint64 (argv ! 0) of
             None \<Rightarrow> (Failed, S)
           | Some rate_bytes_per_sec \<Rightarrow>
               new_wrapper RateLimiterRes
                 (NewGenericRateLimiter R (sint rate_bytes_per_sec) (100 * 1000) 10 (argv ! 1 = EAtom ''true'')) S)"

definition ReleaseRateLimiter :: "'n shared_heap \<Rightarrow> eterm list \<Rightarrow> nif_result \<times> 'n shared_heap" where
  "ReleaseRateLimiter S argv = release_dtor RateLimiterRes S argv"

section \<open>Write buffer managers\<close>

text \<open>The buffer size is an \<open>int\<close> converted to \<open>size_t\<close>; the manager owns the cache too.\<close>

definition NewWriteBufferManager :: "'n rocks_shared \<Rightarrow> 'n shared_heap \<Rightarrow> eterm list \<Rightarrow> nif_result \<times> 'n shared_heap" where
  "NewWriteBufferManager R S argv =
     (case enif_get_int (argv ! 0) of
        None \<Rightarrow> (Failed, S)
      | Some buffer_size \<Rightarrow>
          if length argv = 1
          then new_wrapper WriteBufferManagerRes (NewWriteBufferManager_rocks R (word_of_int buffer_size) None) S
          else (case retrieve_wrapper S CacheRes (argv ! 1) of
                  None \<Rightarrow> (Failed, S)
                | Some a \<Rightarrow>
                    (case wrapper_ptr S a of
                       Some p \<Rightarrow>
                         new_wrapper WriteBufferManagerRes
                           (NewWriteBufferManager_rocks R (word_of_int buffer_size) (Some p)) (shared_copy p S)
                     | None \<Rightarrow> (Undef, S))))"

definition ReleaseWriteBufferManager :: "'n shared_heap \<Rightarrow> eterm list \<Rightarrow> nif_result \<times> 'n shared_heap" where
  "ReleaseWriteBufferManager S argv = release_copy WriteBufferManagerRes S argv"

definition wbf_info :: "'n rocks_shared \<Rightarrow> 'n \<Rightarrow> eterm \<Rightarrow> nif_result" where
  "wbf_info R m item =
     (if item = EAtom ''memory_usage'' then Ok (EInt (uint (wbm_memory_usage R m)))
      else if item = EAtom ''mutable_memtable_memory_usage'' then Ok (EInt (uint (wbm_mutable_memtable_memory_usage R m)))
      else if item = EAtom ''buffer_size'' then Ok (EInt (uint (wbm_buffer_size R m)))
      else if item = EAtom ''enabled'' then Ok (e_bool (wbm_enabled R m))
      else Failed)"

definition WriteBufferManagerInfo :: "'n rocks_shared \<Rightarrow> 'n shared_heap \<Rightarrow> eterm list \<Rightarrow> nif_result \<times> 'n shared_heap" where
  "WriteBufferManagerInfo R S argv =
     on_shared S WriteBufferManagerRes (argv ! 0) Failed (\<lambda>m.
       (info_result (wbf_info R m) [''enabled'', ''buffer_size'', ''mutable_memtable_memory_usage'', ''memory_usage''] argv, m))"

section \<open>SST file managers\<close>

record sfm_options =
  rate_bytes_per_sec :: u64
  max_trash_db_ratio :: u64
  bytes_max_delete_chunk :: u64

text \<open>0.25 is the double with the bits \<open>0x3FD0000000000000\<close>.\<close>

definition sfm_options_init :: sfm_options where
  "sfm_options_init = \<lparr>rate_bytes_per_sec = 0, max_trash_db_ratio = 0x3FD0000000000000, bytes_max_delete_chunk = 64 * 1024 * 1024\<rparr>"

text \<open>An item that is not understood ends the loop with \<open>badarg\<close>.\<close>

definition parse_sfm_option :: "eterm \<Rightarrow> sfm_options \<Rightarrow> sfm_options option" where
  "parse_sfm_option head opts =
     (case enif_get_tuple head of
        Some [name, val] \<Rightarrow>
          if name = EAtom ''delete_rate_bytes_per_sec''
          then map_option (\<lambda>n. opts\<lparr>rate_bytes_per_sec := n\<rparr>) (enif_get_uint64 val)
          else if name = EAtom ''max_trash_db_ratio''
          then map_option (\<lambda>d. opts\<lparr>max_trash_db_ratio := d\<rparr>) (enif_get_double val)
          else if name = EAtom ''bytes_max_delete_chunk''
          then map_option (\<lambda>n. opts\<lparr>bytes_max_delete_chunk := n\<rparr>) (enif_get_uint64 val)
          else None
      | _ \<Rightarrow> None)"

fun parse_sfm_options :: "eterm list \<Rightarrow> sfm_options \<Rightarrow> sfm_options option" where
  "parse_sfm_options [] opts = Some opts"
| "parse_sfm_options (head # rest) opts =
     (case parse_sfm_option head opts of None \<Rightarrow> None | Some opts1 \<Rightarrow> parse_sfm_options rest opts1)"

definition NewSstFileManager :: "'n rocks_shared \<Rightarrow> 'n shared_heap \<Rightarrow> eterm list \<Rightarrow> nif_result \<times> 'n shared_heap" where
  "NewSstFileManager R S argv =
     (case retrieve_wrapper S EnvRes (argv ! 0) of
        None \<Rightarrow> (Failed, S)
      | Some a \<Rightarrow>
          (case parse_sfm_options (list_cells (argv ! 1)) sfm_options_init of
             None \<Rightarrow> (Failed, S)
           | Some opts \<Rightarrow>
               (case NewSstFileManager_rocks R (wrapper_ptr S a)
                       (sint (rate_bytes_per_sec opts)) (max_trash_db_ratio opts) (bytes_max_delete_chunk opts) of
                  (st, m) \<Rightarrow>
                    if \<not> status_ok st then (Ok (error_tuple (EAtom ''error'') st), S)
                    else new_wrapper SstFileManagerRes m S)))"

definition ReleaseSstFileManager :: "'n shared_heap \<Rightarrow> eterm list \<Rightarrow> nif_result \<times> 'n shared_heap" where
  "ReleaseSstFileManager S argv = release_copy SstFileManagerRes S argv"

definition SstFileManagerFlag :: "'n rocks_shared \<Rightarrow> 'n shared_heap \<Rightarrow> eterm list \<Rightarrow> nif_result \<times> 'n shared_heap" where
  "SstFileManagerFlag R S argv =
     (let set_u64 = (\<lambda>f m. case enif_get_uint64 (argv ! 2) of None \<Rightarrow> (Failed, m) | Some n \<Rightarrow> (Ok e_ok, f n m))
      in on_shared S SstFileManagerRes (argv ! 0) Failed (\<lambda>m.
           if argv ! 1 = EAtom ''max_allowed_space_usage'' then set_u64 (sfm_SetMaxAllowedSpaceUsage R) m
           else if argv ! 1 = EAtom ''compaction_buffer_size'' then set_u64 (sfm_SetCompactionBufferSize R) m
           else if argv ! 1 = EAtom ''delete_rate_bytes_per_sec''
           then set_u64 (\<lambda>n. sfm_SetDeleteRateBytesPerSecond R (sint n)) m
           else if argv ! 1 = EAtom ''max_trash_db_ratio''
           then (case enif_get_double (argv ! 2) of None \<Rightarrow> (Failed, m) | Some d \<Rightarrow> (Ok e_ok, sfm_SetMaxTrashDBRatio R d m))
           else (Failed, m)))"

definition sst_file_manager_info_1 :: "'n rocks_shared \<Rightarrow> 'n \<Rightarrow> eterm \<Rightarrow> nif_result" where
  "sst_file_manager_info_1 R m item =
     (if item = EAtom ''total_size'' then Ok (EInt (uint (sfm_GetTotalSize R m)))
      else if item = EAtom ''delete_rate_bytes_per_sec''
      then Ok (EInt (uint (word_of_int (sfm_GetDeleteRateBytesPerSecond R m) :: u64)))
      else if item = EAtom ''max_trash_db_ratio'' then Ok (EFloat (sfm_GetMaxTrashDBRatio R m))
      else if item = EAtom ''total_trash_size'' then Ok (EInt (uint (sfm_GetTotalTrashSize R m)))
      else if item = EAtom ''is_max_allowed_space_reached'' then Ok (e_bool (sfm_IsMaxAllowedSpaceReached R m))
      else if item = EAtom ''max_allowed_space_reached_including_compactions''
      then Ok (e_bool (sfm_IsMaxAllowedSpaceReachedIncludingCompactions R m))
      else Failed)"

definition SstFileManagerInfo :: "'n rocks_shared \<Rightarrow> 'n shared_heap \<Rightarrow> eterm list \<Rightarrow> nif_result \<times> 'n shared_heap" where
  "SstFileManagerInfo R S argv =
     on_shared S SstFileManagerRes (argv ! 0) Failed (\<lambda>m.
       (info_result (sst_file_manager_info_1 R m)
          [''max_allowed_space_reached_including_compactions'', ''is_max_allowed_space_reached'', ''total_trash_size'',
           ''max_trash_db_ratio'', ''delete_rate_bytes_per_sec'', ''total_size''] argv, m))"

definition SstFileManagerTrackedFiles :: "'n rocks_shared \<Rightarrow> 'n shared_heap \<Rightarrow> eterm list \<Rightarrow> nif_result \<times> 'n shared_heap" where
  "SstFileManagerTrackedFiles R S argv =
     on_shared S SstFileManagerRes (argv ! 0) Failed (\<lambda>m.
       (Ok (fold (\<lambda>(path, sz). ECons (ETuple [EBin path, EInt (uint sz)])) (sfm_GetTrackedFiles R m) (enif_make_list [])), m))"

section \<open>Statistics\<close>

definition NewStatistics :: "'n rocks_shared \<Rightarrow> 'n shared_heap \<Rightarrow> eterm list \<Rightarrow> nif_result \<times> 'n shared_heap" where
  "NewStatistics R S argv = new_wrapper StatisticsRes (CreateDBStatistics R) S"

definition ReleaseStatistics :: "'n shared_heap \<Rightarrow> eterm list \<Rightarrow> nif_result \<times> 'n shared_heap" where
  "ReleaseStatistics S argv = release_dtor StatisticsRes S argv"

text \<open>
  The enumeration \<open>StatsLevel\<close>, by value: \<open>kExceptTickers\<close> is another name of
  \<open>kDisableAll\<close> (\<open>rocksdb/statistics.h\<close>).
\<close>

definition kDisableAll :: nat where "kDisableAll = 0"
definition kExceptTickers :: nat where "kExceptTickers = kDisableAll"
definition kExceptHistogramOrTimers :: nat where "kExceptHistogramOrTimers = 1"
definition kExceptTimers :: nat where "kExceptTimers = 2"
definition kExceptDetailedTimers :: nat where "kExceptDetailedTimers = 3"
definition kExceptTimeForMutex :: nat where "kExceptTimeForMutex = 4"
definition kAll :: nat where "kAll = 5"

definition StatsLevelAtomToEnum :: "eterm \<Rightarrow> nat option" where
  "StatsLevelAtomToEnum a =
     (if a = EAtom ''stats_disable_all'' then Some kDisableAll
      else if a = EAtom ''stats_except_tickers'' then Some kExceptTickers
      else if a = EAtom ''stats_except_histogram_or_timers'' then Some kExceptHistogramOrTimers
      else if a = EAtom ''stats_except_timers'' then Some kExceptTimers
      else if a = EAtom ''stats_except_detailed_timers'' then Some kExceptDetailedTimers
      else if a = EAtom ''stats_except_time_for_mutex'' then Some kExceptTimeForMutex
      else if a = EAtom ''stats_all'' then Some kAll
      else None)"

definition StatsLevelEnumToAtom :: "nat \<Rightarrow> eterm" where
  "StatsLevelEnumToAtom l =
     (if l = kDisableAll then EAtom ''stats_disable_all''
      else if l = kExceptTickers then EAtom ''stats_except_tickers''
      else if l = kExceptHistogramOrTimers then EAtom ''stats_except_histogram_or_timers''
      else if l = kExceptTimers then EAtom ''stats_except_timers''
      else if l = kExceptDetailedTimers then EAtom ''stats_except_detailed_timers''
      else if l = kExceptTimeForMutex then EAtom ''stats_except_time_for_mutex''
      else EAtom ''stats_all'')"

definition SetStatsLevel :: "'n rocks_shared \<Rightarrow> 'n shared_heap \<Rightarrow> eterm list \<Rightarrow> nif_result \<times> 'n shared_heap" where
  "SetStatsLevel R S argv =
     on_shared S StatisticsRes (argv ! 0) Failed (\<lambda>s.
       (Ok e_ok, case StatsLevelAtomToEnum (argv ! 1) of None \<Rightarrow> s | Some l \<Rightarrow> st_set_stats_level R l s))"

definition StatisticsInfo :: "'n rocks_shared \<Rightarrow> 'n shared_heap \<Rightarrow> eterm list \<Rightarrow> nif_result \<times> 'n shared_heap" where
  "StatisticsInfo R S argv =
     on_shared S StatisticsRes (argv ! 0) Failed (\<lambda>s.
       (Ok (ECons (ETuple [EAtom ''stats_level'', StatsLevelEnumToAtom (st_get_stats_level R s)]) (enif_make_list [])), s))"

text \<open>The chains of \<open>TickerAtomToEnum\<close> and \<open>HistogramAtomToEnum\<close>, from atoms to names of enumerators.\<close>

definition blob_db_tickers :: "(string \<times> string) list" where
  "blob_db_tickers =
    [(''blob_db_num_put'', ''BLOB_DB_NUM_PUT''), (''blob_db_num_write'', ''BLOB_DB_NUM_WRITE''),
     (''blob_db_num_get'', ''BLOB_DB_NUM_GET''), (''blob_db_num_multiget'', ''BLOB_DB_NUM_MULTIGET''),
     (''blob_db_num_seek'', ''BLOB_DB_NUM_SEEK''), (''blob_db_num_next'', ''BLOB_DB_NUM_NEXT''),
     (''blob_db_num_prev'', ''BLOB_DB_NUM_PREV''),
     (''blob_db_num_keys_written'', ''BLOB_DB_NUM_KEYS_WRITTEN''),
     (''blob_db_num_keys_read'', ''BLOB_DB_NUM_KEYS_READ''),
     (''blob_db_bytes_written'', ''BLOB_DB_BYTES_WRITTEN''), (''blob_db_bytes_read'', ''BLOB_DB_BYTES_READ''),
     (''blob_db_write_inlined'', ''BLOB_DB_WRITE_INLINED''),
     (''blob_db_write_inlined_ttl'', ''BLOB_DB_WRITE_INLINED_TTL''),
     (''blob_db_write_blob'', ''BLOB_DB_WRITE_BLOB''),
     (''blob_db_write_blob_ttl'', ''BLOB_DB_WRITE_BLOB_TTL''),
     (''blob_db_blob_file_bytes_written'', ''BLOB_DB_BLOB_FILE_BYTES_WRITTEN''),
     (''blob_db_blob_file_bytes_read'', ''BLOB_DB_BLOB_FILE_BYTES_READ''),
     (''blob_db_blob_file_synced'', ''BLOB_DB_BLOB_FILE_SYNCED''),
     (''blob_db_blob_index_expired_count'', ''BLOB_DB_BLOB_INDEX_EXPIRED_COUNT''),
     (''blob_db_blob_index_expired_size'', ''BLOB_DB_BLOB_INDEX_EXPIRED_SIZE''),
     (''blob_db_blob_index_evicted_count'', ''BLOB_DB_BLOB_INDEX_EVICTED_COUNT''),
     (''blob_db_blob_index_evicted_size'', ''BLOB_DB_BLOB_INDEX_EVICTED_SIZE''),
     (''blob_db_gc_num_files'', ''BLOB_DB_GC_NUM_FILES''),
     (''blob_db_gc_num_new_files'', ''BLOB_DB_GC_NUM_NEW_FILES''),
     (''blob_db_gc_failures'', ''BLOB_DB_GC_FAILURES''),
     (''blob_db_gc_num_keys_relocated'', ''BLOB_DB_GC_NUM_KEYS_RELOCATED''),
     (''blob_db_gc_bytes_relocated'', ''BLOB_DB_GC_BYTES_RELOCATED''),
     (''blob_db_fifo_num_files_evicted'', ''BLOB_DB_FIFO_NUM_FILES_EVICTED''),
     (''blob_db_fifo_num_keys_evicted'', ''BLOB_DB_FIFO_NUM_KEYS_EVICTED''),
     (''blob_db_fifo_bytes_evicted'', ''BLOB_DB_FIFO_BYTES_EVICTED''),
     (''blob_db_cache_miss'', ''BLOB_DB_CACHE_MISS''), (''blob_db_cache_hit'', ''BLOB_DB_CACHE_HIT''),
     (''blob_db_cache_add'', ''BLOB_DB_CACHE_ADD''),
     (''blob_db_cache_add_failures'', ''BLOB_DB_CACHE_ADD_FAILURES''),
     (''blob_db_cache_bytes_read'', ''BLOB_DB_CACHE_BYTES_READ''),
     (''blob_db_cache_bytes_write'', ''BLOB_DB_CACHE_BYTES_WRITE'')]"

definition compaction_tickers :: "(string \<times> string) list" where
  "compaction_tickers =
    [(''compact_read_bytes'', ''COMPACT_READ_BYTES''), (''compact_write_bytes'', ''COMPACT_WRITE_BYTES''),
     (''flush_write_bytes'', ''FLUSH_WRITE_BYTES''),
     (''compaction_key_drop_newer_entry'', ''COMPACTION_KEY_DROP_NEWER_ENTRY''),
     (''compaction_key_drop_obsolete'', ''COMPACTION_KEY_DROP_OBSOLETE''),
     (''compaction_key_drop_range_del'', ''COMPACTION_KEY_DROP_RANGE_DEL''),
     (''compaction_key_drop_user'', ''COMPACTION_KEY_DROP_USER''),
     (''compaction_cancelled'', ''COMPACTION_CANCELLED''),
     (''number_superversion_acquires'', ''NUMBER_SUPERVERSION_ACQUIRES''),
     (''number_superversion_releases'', ''NUMBER_SUPERVERSION_RELEASES'')]"

definition operation_tickers :: "(string \<times> string) list" where
  "operation_tickers =
    [(''number_keys_written'', ''NUMBER_KEYS_WRITTEN''), (''number_keys_read'', ''NUMBER_KEYS_READ''),
     (''number_keys_updated'', ''NUMBER_KEYS_UPDATED''), (''bytes_written'', ''BYTES_WRITTEN''),
     (''bytes_read'', ''BYTES_READ''), (''iter_bytes_read'', ''ITER_BYTES_READ''),
     (''number_db_seek'', ''NUMBER_DB_SEEK''), (''number_db_next'', ''NUMBER_DB_NEXT''),
     (''number_db_prev'', ''NUMBER_DB_PREV''), (''number_db_seek_found'', ''NUMBER_DB_SEEK_FOUND''),
     (''number_db_next_found'', ''NUMBER_DB_NEXT_FOUND''),
     (''number_db_prev_found'', ''NUMBER_DB_PREV_FOUND'')]"

definition block_cache_tickers :: "(string \<times> string) list" where
  "block_cache_tickers =
    [(''block_cache_miss'', ''BLOCK_CACHE_MISS''), (''block_cache_hit'', ''BLOCK_CACHE_HIT''),
     (''block_cache_add'', ''BLOCK_CACHE_ADD''), (''block_cache_add_failures'', ''BLOCK_CACHE_ADD_FAILURES''),
     (''block_cache_index_miss'', ''BLOCK_CACHE_INDEX_MISS''),
     (''block_cache_index_hit'', ''BLOCK_CACHE_INDEX_HIT''),
     (''block_cache_filter_miss'', ''BLOCK_CACHE_FILTER_MISS''),
     (''block_cache_filter_hit'', ''BLOCK_CACHE_FILTER_HIT''),
     (''block_cache_data_miss'', ''BLOCK_CACHE_DATA_MISS''),
     (''block_cache_data_hit'', ''BLOCK_CACHE_DATA_HIT''),
     (''block_cache_bytes_read'', ''BLOCK_CACHE_BYTES_READ''),
     (''block_cache_bytes_write'', ''BLOCK_CACHE_BYTES_WRITE'')]"

definition memtable_tickers :: "(string \<times> string) list" where
  "memtable_tickers =
    [(''memtable_hit'', ''MEMTABLE_HIT''), (''memtable_miss'', ''MEMTABLE_MISS''),
     (''stall_micros'', ''STALL_MICROS''), (''write_done_by_self'', ''WRITE_DONE_BY_SELF''),
     (''write_done_by_other'', ''WRITE_DONE_BY_OTHER''), (''wal_file_synced'', ''WAL_FILE_SYNCED'')]"

definition transaction_tickers :: "(string \<times> string) list" where
  "transaction_tickers =
    [(''txn_prepare_mutex_overhead'', ''TXN_PREPARE_MUTEX_OVERHEAD''),
     (''txn_old_commit_map_mutex_overhead'', ''TXN_OLD_COMMIT_MAP_MUTEX_OVERHEAD''),
     (''txn_duplicate_key_overhead'', ''TXN_DUPLICATE_KEY_OVERHEAD''),
     (''txn_snapshot_mutex_overhead'', ''TXN_SNAPSHOT_MUTEX_OVERHEAD''),
     (''txn_get_try_again'', ''TXN_GET_TRY_AGAIN'')]"

definition ticker_table :: "(string \<times> string) list" where
  "ticker_table = blob_db_tickers @ compaction_tickers @ operation_tickers @ block_cache_tickers @ memtable_tickers @
     transaction_tickers"

definition histogram_table :: "(string \<times> string) list" where
  "histogram_table =
    [(''blob_db_key_size'', ''BLOB_DB_KEY_SIZE''), (''blob_db_value_size'', ''BLOB_DB_VALUE_SIZE''),
     (''blob_db_write_micros'', ''BLOB_DB_WRITE_MICROS''), (''blob_db_get_micros'', ''BLOB_DB_GET_MICROS''),
     (''blob_db_multiget_micros'', ''BLOB_DB_MULTIGET_MICROS''),
     (''blob_db_seek_micros'', ''BLOB_DB_SEEK_MICROS''), (''blob_db_next_micros'', ''BLOB_DB_NEXT_MICROS''),
     (''blob_db_prev_micros'', ''BLOB_DB_PREV_MICROS''),
     (''blob_db_blob_file_write_micros'', ''BLOB_DB_BLOB_FILE_WRITE_MICROS''),
     (''blob_db_blob_file_read_micros'', ''BLOB_DB_BLOB_FILE_READ_MICROS''),
     (''blob_db_blob_file_sync_micros'', ''BLOB_DB_BLOB_FILE_SYNC_MICROS''),
     (''blob_db_compression_micros'', ''BLOB_DB_COMPRESSION_MICROS''),
     (''blob_db_decompression_micros'', ''BLOB_DB_DECOMPRESSION_MICROS''), (''db_get'', ''DB_GET''),
     (''db_write'', ''DB_WRITE''), (''db_multiget'', ''DB_MULTIGET''), (''db_seek'', ''DB_SEEK''),
     (''compaction_time'', ''COMPACTION_TIME''), (''flush_time'', ''FLUSH_TIME''),
     (''sst_read_micros'', ''SST_READ_MICROS''), (''sst_write_micros'', ''SST_WRITE_MICROS''),
     (''table_sync_micros'', ''TABLE_SYNC_MICROS''), (''wal_file_sync_micros'', ''WAL_FILE_SYNC_MICROS''),
     (''bytes_per_read'', ''BYTES_PER_READ''), (''bytes_per_write'', ''BYTES_PER_WRITE''),
     (''num_op_per_transaction'', ''NUM_OP_PER_TRANSACTION'')]"

definition atom_to_enum :: "(string \<times> string) list \<Rightarrow> eterm \<Rightarrow> string option" where
  "atom_to_enum table a = (case a of EAtom s \<Rightarrow> map_of table s | _ \<Rightarrow> None)"

definition StatisticsTicker :: "'n rocks_shared \<Rightarrow> 'n shared_heap \<Rightarrow> eterm list \<Rightarrow> nif_result \<times> 'n shared_heap" where
  "StatisticsTicker R S argv =
     (if retrieve_wrapper S StatisticsRes (argv ! 0) = None then (Failed, S)
      else case atom_to_enum ticker_table (argv ! 1) of
             None \<Rightarrow> (Failed, S)
           | Some ticker \<Rightarrow>
               on_shared S StatisticsRes (argv ! 0) Failed (\<lambda>s.
                 (Ok (ok_tuple (EInt (uint (st_getTickerCount R ticker s)))), s)))"

definition histogram_map :: "histogram_data \<Rightarrow> eterm" where
  "histogram_map d =
     EMap (zip (map EAtom [''median'', ''percentile95'', ''percentile99'', ''average'', ''standard_deviation'', ''max''])
             (map EFloat (h_doubles d)) @
           [(EAtom ''count'', EInt (uint (h_count d))), (EAtom ''sum'', EInt (uint (h_sum d)))])"

definition StatisticsHistogram :: "'n rocks_shared \<Rightarrow> 'n shared_heap \<Rightarrow> eterm list \<Rightarrow> nif_result \<times> 'n shared_heap" where
  "StatisticsHistogram R S argv =
     (if retrieve_wrapper S StatisticsRes (argv ! 0) = None then (Failed, S)
      else case atom_to_enum histogram_table (argv ! 1) of
             None \<Rightarrow> (Failed, S)
           | Some histogram \<Rightarrow>
               on_shared S StatisticsRes (argv ! 0) Failed (\<lambda>s.
                 (Ok (ok_tuple (histogram_map (st_histogramData R histogram s))), s)))"

section \<open>Environments\<close>

text \<open>
  The wrapper holds a plain pointer to the default environment or to a new one in
  memory; its destructor is never run and \<open>DestroyEnv\<close> only forgets a local pointer.
\<close>

definition NewEnv :: "'n rocks_shared \<Rightarrow> 'n shared_heap \<Rightarrow> eterm list \<Rightarrow> nif_result \<times> 'n shared_heap" where
  "NewEnv R S argv =
     (if argv ! 0 = EAtom ''default'' then (case create_wrapper EnvRes 0 S of (a, S1) \<Rightarrow> (Ok (ok_tuple (ERef a)), S1))
      else if argv ! 0 = EAtom ''memenv'' then new_wrapper EnvRes (env_NewMemEnv R) S
      else (Failed, S))"

definition SetEnvBackgroundThreads :: "'n rocks_shared \<Rightarrow> 'n shared_heap \<Rightarrow> eterm list \<Rightarrow> nif_result \<times> 'n shared_heap" where
  "SetEnvBackgroundThreads R S argv =
     on_shared S EnvRes (argv ! 0) Failed (\<lambda>e.
       case enif_get_int (argv ! 1) of
         None \<Rightarrow> (Failed, e)
       | Some n \<Rightarrow>
           if length argv = 3 then
             (if argv ! 2 = EAtom ''priority_high'' then (Ok e_ok, env_SetBackgroundThreads R n HIGH e)
              else if argv ! 2 = EAtom ''priority_low'' then (Ok e_ok, env_SetBackgroundThreads R n LOW e)
              else (Failed, e))
           else (Ok e_ok, env_SetBackgroundThreads R n LOW e))"

definition DestroyEnv :: "'n shared_heap \<Rightarrow> eterm list \<Rightarrow> nif_result \<times> 'n shared_heap" where
  "DestroyEnv S argv = (Ok e_ok, S)"

end
