(* ===== verification/Compaction_Filter.thy ===== *)
theory Compaction_Filter
  imports Erl_Terms "HOL-Library.Sublist"
begin

text \<open>
  The compaction filter (\<open>c_src/compaction_filter.cc\<close>, \<open>compaction_filter.h\<close>, and the
  option parser in \<open>c_src/erocksdb_db.cc\<close>): declarative rules evaluated in C++, or a
  message to an Erlang process and a wait for its reply with a timeout. The clock,
  the Erlang process and the allocator are arguments.
\<close>

section \<open>Data\<close>

datatype FilterDecision = Keep | Remove | ChangeValue

record FilterResult =
  decision :: FilterDecision
  new_value :: bytes

definition filter_result :: "FilterDecision \<Rightarrow> FilterResult" where
  "filter_result d = \<lparr>decision = d, new_value = []\<rparr>"

datatype RuleType = KeyPrefix | KeySuffix | KeyContains | ValueEmpty | ValuePrefix | TTLFromKey | Always

record FilterRule =
  rtype :: RuleType
  pattern :: bytes
  offset :: u64
  ts_length :: u64
  ttl_seconds :: u64

definition FilterRule_init :: FilterRule where
  "FilterRule_init = \<lparr>rtype = Always, pattern = [], offset = 0, ts_length = 0, ttl_seconds = 0\<rparr>"

text \<open>The kinds of entry of \<open>rocksdb::CompactionFilter\<close>, and the answers the filter gives.\<close>

datatype ValueType = kValue | kMergeOperand | kBlobIndex | kWideColumnEntity

datatype Decision = kKeep | kRemove | kPurge | kChangeValue

section \<open>Rules\<close>

definition starts_with :: "bytes \<Rightarrow> bytes \<Rightarrow> bool" where
  "starts_with s p \<longleftrightarrow> length p \<le> length s \<and> take (length p) s = p"

text \<open>\<open>std::string::find\<close>: the first position of the pattern.\<close>

fun string_find :: "bytes \<Rightarrow> bytes \<Rightarrow> nat option" where
  "string_find s p =
     (if starts_with s p then Some 0
      else case s of [] \<Rightarrow> None | c # cs \<Rightarrow> map_option Suc (string_find cs p))"

declare string_find.simps [simp del]

text \<open>
  The timestamp loop reads \<open>data[i]\<close> for \<open>i < length\<close>, at most eight bytes, most
  significant first; a read past the key is undefined.
\<close>

fun read_timestamp :: "bytes \<Rightarrow> nat \<Rightarrow> nat \<Rightarrow> u64 \<Rightarrow> u64 outcome" where
  "read_timestamp key pos 0 timestamp = Ok timestamp"
| "read_timestamp key pos (Suc n) timestamp =
     (if pos < length key
      then read_timestamp key (Suc pos) n (push_bit 8 timestamp OR ucast (key ! pos))
      else Undef)"

text \<open>\<open>now_seconds\<close> is the system clock; sums are on 64 bits.\<close>

definition CheckTTL :: "u64 \<Rightarrow> bytes \<Rightarrow> u64 \<Rightarrow> u64 \<Rightarrow> u64 \<Rightarrow> bool outcome" where
  "CheckTTL now_seconds key off len ttl =
     (if of_nat (length key) < off + len then Ok False
      else bind_outcome (read_timestamp key (unat off) (min (unat len) 8) 0) (\<lambda>timestamp.
             Ok (timestamp + ttl < now_seconds)))"

definition rule_removes :: "u64 \<Rightarrow> bytes \<Rightarrow> bytes \<Rightarrow> FilterRule \<Rightarrow> bool outcome" where
  "rule_removes now_seconds key value rule =
     (case rtype rule of
        KeyPrefix \<Rightarrow> Ok (starts_with key (pattern rule))
      | KeySuffix \<Rightarrow>
          Ok (length (pattern rule) \<le> length key \<and>
              drop (length key - length (pattern rule)) key = pattern rule)
      | KeyContains \<Rightarrow> Ok (string_find key (pattern rule) \<noteq> None)
      | ValueEmpty \<Rightarrow> Ok (value = [])
      | ValuePrefix \<Rightarrow> Ok (starts_with value (pattern rule))
      | TTLFromKey \<Rightarrow> CheckTTL now_seconds key (offset rule) (ts_length rule) (ttl_seconds rule)
      | Always \<Rightarrow> Ok True)"

text \<open>The first rule that matches removes the entry.\<close>

fun ApplyRules :: "u64 \<Rightarrow> FilterRule list \<Rightarrow> bytes \<Rightarrow> bytes \<Rightarrow> FilterResult outcome" where
  "ApplyRules now_seconds [] key value = Ok (filter_result Keep)"
| "ApplyRules now_seconds (rule # rules) key value =
     bind_outcome (rule_removes now_seconds key value rule) (\<lambda>r.
       if r then Ok (filter_result Remove) else ApplyRules now_seconds rules key value)"

section \<open>The batch resource\<close>

record CompactionBatchResource =
  m_HasResponse :: bool
  m_Results :: "FilterResult list"

definition batch_init :: CompactionBatchResource where
  "batch_init = \<lparr>m_HasResponse = False, m_Results = []\<rparr>"

definition SetResponse :: "CompactionBatchResource \<Rightarrow> FilterResult list \<Rightarrow> CompactionBatchResource" where
  "SetResponse b results = b\<lparr>m_Results := results, m_HasResponse := True\<rparr>"

definition HasResponse :: "CompactionBatchResource \<Rightarrow> bool" where
  "HasResponse b = m_HasResponse b"

definition GetResult :: "CompactionBatchResource \<Rightarrow> nat \<Rightarrow> FilterResult" where
  "GetResult b index = (if index < length (m_Results b) then m_Results b ! index else filter_result Keep)"

definition Reset :: "CompactionBatchResource \<Rightarrow> CompactionBatchResource" where
  "Reset b = b\<lparr>m_HasResponse := False, m_Results := []\<rparr>"

text \<open>One decision of a reply; anything unknown keeps the entry.\<close>

definition parse_decision :: "eterm \<Rightarrow> FilterResult" where
  "parse_decision head =
     (if head = EAtom ''keep'' then filter_result Keep
      else if head = EAtom ''remove'' then filter_result Remove
      else
        case enif_get_tuple head of
          Some [tag, arg] \<Rightarrow>
            if tag = EAtom ''change_value'' then
              (case enif_inspect_binary arg of
                 Some b \<Rightarrow> \<lparr>decision = ChangeValue, new_value = b\<rparr>
               | None \<Rightarrow> filter_result Keep)
            else filter_result Keep
        | _ \<Rightarrow> filter_result Keep)"

text \<open>The NIF \<open>compaction_filter_reply\<close>; the first argument names a batch resource or not.\<close>

definition CompactionFilterReply ::
    "(eterm \<Rightarrow> CompactionBatchResource option) \<Rightarrow> eterm list \<Rightarrow> nif_result \<times> CompactionBatchResource option" where
  "CompactionFilterReply batches argv =
     (case argv of
        [ref, decisions] \<Rightarrow>
          (case batches ref of
             None \<Rightarrow> (Failed, None)
           | Some b \<Rightarrow>
               (Ok (EAtom ''ok''), Some (SetResponse b (map parse_decision (list_cells decisions)))))
      | _ \<Rightarrow> (Failed, None))"

text \<open>
  What happens to the batch while the compaction thread waits: replies of the
  handler, in order, and the end of the timeout.
\<close>

datatype wait_event = Reply eterm | Expire

fun WaitForResponse :: "CompactionBatchResource \<Rightarrow> wait_event list \<Rightarrow> bool \<times> CompactionBatchResource" where
  "WaitForResponse b evs =
     (if m_HasResponse b then (True, b)
      else
        case evs of
          Reply decisions # evs' \<Rightarrow>
            WaitForResponse (SetResponse b (map parse_decision (list_cells decisions))) evs'
        | _ \<Rightarrow> (False, b))"

declare WaitForResponse.simps [simp del]

section \<open>The filter\<close>

record filter_state =
  m_UseErlangCallback :: bool
  m_Rules :: "FilterRule list"
  m_HandlerPid :: nat
  m_BatchSize :: u32
  m_TimeoutMs :: u32
  m_HandlerDead :: bool

definition ErlangCompactionFilter_rules :: "FilterRule list \<Rightarrow> filter_state" where
  "ErlangCompactionFilter_rules rules =
     \<lparr>m_UseErlangCallback = False, m_Rules = rules, m_HandlerPid = 0, m_BatchSize = 0, m_TimeoutMs = 0,
      m_HandlerDead = False\<rparr>"

definition ErlangCompactionFilter_handler :: "nat \<Rightarrow> u32 \<Rightarrow> u32 \<Rightarrow> filter_state" where
  "ErlangCompactionFilter_handler pid batch_size timeout_ms =
     \<lparr>m_UseErlangCallback = True, m_Rules = [], m_HandlerPid = pid, m_BatchSize = batch_size,
      m_TimeoutMs = timeout_ms, m_HandlerDead = False\<rparr>"

text \<open>
  The runtime system during one call of the handler: allocations, whether the
  process is alive, whether the message is accepted, and what happens during the
  wait.
\<close>

record handler_env =
  env_ok :: bool
  process_alive :: bool
  resource_ok :: bool
  batch_ref :: nat
  binary_ok :: "nat \<Rightarrow> bool"
  send_ok :: bool
  during_wait :: "wait_event list"

definition handler_message :: "handler_env \<Rightarrow> int \<Rightarrow> bytes \<Rightarrow> bytes \<Rightarrow> eterm" where
  "handler_message E level key value =
     ETuple [EAtom ''compaction_filter'', ERef (batch_ref E),
       enif_make_list [ETuple [EInt level, EBin key, EBin value]]]"

text \<open>The result, the filter afterwards, and the process and message of a successful send.\<close>

definition CallErlangHandler ::
    "handler_env \<Rightarrow> filter_state \<Rightarrow> int \<Rightarrow> bytes \<Rightarrow> bytes \<Rightarrow>
       FilterResult \<times> filter_state \<times> (nat \<times> eterm) option" where
  "CallErlangHandler E f level key value =
     (if \<not> env_ok E then (filter_result Keep, f, None)
      else if \<not> process_alive E then (filter_result Keep, f\<lparr>m_HandlerDead := True\<rparr>, None)
      else if \<not> resource_ok E then (filter_result Keep, f, None)
      else if \<not> binary_ok E (length key) then (filter_result Keep, f, None)
      else if \<not> binary_ok E (length value) then (filter_result Keep, f, None)
      else if \<not> send_ok E then (filter_result Keep, f\<lparr>m_HandlerDead := True\<rparr>, None)
      else
        let (got_response, batch) = WaitForResponse batch_init (during_wait E)
        in (if got_response then GetResult batch 0 else filter_result Keep, f,
            Some (m_HandlerPid f, handler_message E level key value)))"

definition evaluate ::
    "u64 \<Rightarrow> handler_env \<Rightarrow> filter_state \<Rightarrow> int \<Rightarrow> bytes \<Rightarrow> bytes \<Rightarrow>
       (FilterResult \<times> filter_state \<times> (nat \<times> eterm) option) outcome" where
  "evaluate now_seconds E f level key value =
     (if m_UseErlangCallback f then
        (if m_HandlerDead f then Ok (filter_result Keep, f, None)
         else Ok (CallErlangHandler E f level key value))
      else bind_outcome (ApplyRules now_seconds (m_Rules f) key value) (\<lambda>r. Ok (r, f, None)))"

definition FilterV2 ::
    "u64 \<Rightarrow> handler_env \<Rightarrow> filter_state \<Rightarrow> int \<Rightarrow> bytes \<Rightarrow> ValueType \<Rightarrow> bytes \<Rightarrow>
       (Decision \<times> bytes option \<times> filter_state \<times> (nat \<times> eterm) option) outcome" where
  "FilterV2 now_seconds E f level key value_type existing_value =
     bind_outcome (evaluate now_seconds E f level key existing_value) (\<lambda>(result, f', sent).
       Ok (if value_type = kMergeOperand
           then (if decision result = Remove then kRemove else kKeep, None, f', sent)
           else
             (case decision result of
                Remove \<Rightarrow> (kPurge, None, f', sent)
              | ChangeValue \<Rightarrow> (kChangeValue, Some (new_value result), f', sent)
              | Keep \<Rightarrow> (kKeep, None, f', sent))))"

section \<open>The factory and its options\<close>

datatype factory = RulesFactory "FilterRule list" | HandlerFactory nat u32 u32

definition CreateCompactionFilter :: "factory \<Rightarrow> filter_state" where
  "CreateCompactionFilter fac =
     (case fac of
        RulesFactory rules \<Rightarrow> ErlangCompactionFilter_rules rules
      | HandlerFactory pid batch_size timeout_ms \<Rightarrow> ErlangCompactionFilter_handler pid batch_size timeout_ms)"

definition pattern_rule :: "RuleType \<Rightarrow> eterm \<Rightarrow> FilterRule list" where
  "pattern_rule ty t =
     (case enif_inspect_binary t of
        Some b \<Rightarrow> [FilterRule_init\<lparr>rtype := ty, pattern := b\<rparr>]
      | None \<Rightarrow> [])"

text \<open>One entry of the \<open>rules\<close> list: the rules it adds; what is not understood is skipped.\<close>

definition parse_rule :: "eterm \<Rightarrow> FilterRule list" where
  "parse_rule head =
     (case enif_get_tuple head of
        Some [t0, t1] \<Rightarrow>
          if t0 = EAtom ''key_prefix'' then pattern_rule KeyPrefix t1
          else if t0 = EAtom ''key_suffix'' then pattern_rule KeySuffix t1
          else if t0 = EAtom ''key_contains'' then pattern_rule KeyContains t1
          else if t0 = EAtom ''value_prefix'' then pattern_rule ValuePrefix t1
          else []
      | Some [t0] \<Rightarrow>
          if t0 = EAtom ''value_empty'' then [FilterRule_init\<lparr>rtype := ValueEmpty\<rparr>]
          else if t0 = EAtom ''always_delete'' then [FilterRule_init\<lparr>rtype := Always\<rparr>]
          else []
      | Some [t0, t1, t2, t3] \<Rightarrow>
          if t0 = EAtom ''ttl_from_key'' then
            (case (enif_get_uint t1, enif_get_uint t2, enif_get_uint64 t3) of
               (Some off, Some len, Some ttl) \<Rightarrow>
                 [FilterRule_init\<lparr>rtype := TTLFromKey, offset := ucast off, ts_length := ucast len,
                    ttl_seconds := ttl\<rparr>]
             | _ \<Rightarrow> [])
          else []
      | _ \<Rightarrow> [])"

text \<open>
  The value of the option \<open>compaction_filter\<close>: \<open>Ok None\<close> leaves the options as they
  are, \<open>Failed\<close> is the answer \<open>badarg\<close> of the option parser.
\<close>

definition parse_compaction_filter :: "eterm \<Rightarrow> factory option outcome" where
  "parse_compaction_filter t =
     (if \<not> enif_is_map t then Ok None
      else
        case enif_get_map_value t (EAtom ''rules'') of
          Some rules_term \<Rightarrow>
            let rules = concat (map parse_rule (list_cells rules_term))
            in Ok (if rules = [] then None else Some (RulesFactory rules))
        | None \<Rightarrow>
            (case enif_get_map_value t (EAtom ''handler'') of
               None \<Rightarrow> Ok None
             | Some handler_term \<Rightarrow>
                 (case enif_get_local_pid handler_term of
                    None \<Rightarrow> Failed
                  | Some pid \<Rightarrow>
                      let get = (\<lambda>k d. case enif_get_map_value t (EAtom k) of
                                   None \<Rightarrow> d
                                 | Some v \<Rightarrow> (case enif_get_uint v of None \<Rightarrow> d | Some n \<Rightarrow> n))
                      in Ok (Some (HandlerFactory pid (get ''batch_size'' 100) (get ''timeout'' 5000))))))"

section \<open>Helper lemmas\<close>

lemma starts_with_prefix: "starts_with s p \<longleftrightarrow> prefix p s"
  by (auto simp: starts_with_def prefix_def) (metis append_take_drop_id)

lemma suffix_test: "length p \<le> length s \<and> drop (length s - length p) s = p \<longleftrightarrow> suffix p s"
  by (auto simp: suffix_def) (metis append_take_drop_id)

lemma string_find_sublist: "string_find s p \<noteq> None \<longleftrightarrow> sublist p s"
proof (induction s)
  case Nil
  then show ?case
    by (simp add: string_find.simps starts_with_prefix)
next
  case (Cons c s)
  then show ?case
    by (simp add: string_find.simps [of "c # s"] starts_with_prefix sublist_Cons_right)
qed

text \<open>The value of bytes, most significant first.\<close>

definition big_endian :: "bytes \<Rightarrow> nat" where
  "big_endian bs = foldl (\<lambda>v b. v * 256 + unat b) 0 bs"

lemma unat_byte: "unat (b :: byte) < 256"
  using unsigned_less [of b, where 'a = nat] by simp

lemma unat_ucast_u32: "unat (ucast (w :: u32) :: u64) = unat w"
  by transfer simp

lemma shift_or_byte:
  fixes t :: u64
  assumes "unat t < 256 ^ 7"
  shows "unat (push_bit 8 t OR ucast (b :: byte)) = unat t * 256 + unat b"
proof -
  have "push_bit 8 t OR ucast b = push_bit 8 t + ucast b"
    by (rule disjunctive_add [symmetric])
      (auto simp: bit_push_bit_iff bit_ucast_iff dest: bit_imp_le_length)
  moreover have "unat (push_bit 8 t) = unat t * 256"
    using assms by (simp add: push_bit_eq_mult unat_word_ariths mult.commute)
  moreover have "unat (ucast b :: u64) = unat b"
    by transfer simp
  ultimately show ?thesis
    using assms unat_byte [of b] by (simp add: unat_word_ariths)
qed

lemma read_timestamp_value:
  assumes "pos + n \<le> length key" "n \<le> 8" "unat t < 256 ^ (8 - n)"
  shows "\<exists>r. read_timestamp key pos n t = Ok r \<and>
    unat r = foldl (\<lambda>v b. v * 256 + unat b) (unat t) (take n (drop pos key))"
  using assms
proof (induction n arbitrary: pos t)
  case (Suc n)
  let ?t = "push_bit 8 t OR ucast (key ! pos)"
  have "unat t < 256 ^ 7"
    using Suc.prems(2,3) power_increasing [of "8 - Suc n" 7 "256 :: nat"] by linarith
  then have t: "unat ?t = unat t * 256 + unat (key ! pos)"
    by (rule shift_or_byte)
  have "256 ^ (8 - n) = 256 * (256 :: nat) ^ (8 - Suc n)"
    using Suc.prems(2) by (metis Suc_diff_le diff_Suc_Suc power_Suc)
  then have "unat ?t < 256 ^ (8 - n)"
    using t Suc.prems(3) unat_byte [of "key ! pos"] by linarith
  then obtain r where "read_timestamp key (Suc pos) n ?t = Ok r"
      "unat r = foldl (\<lambda>v b. v * 256 + unat b) (unat ?t) (take n (drop (Suc pos) key))"
    using Suc.IH [of "Suc pos" ?t] Suc.prems(1,2) by auto
  moreover have "take (Suc n) (drop pos key) = key ! pos # take n (drop (Suc pos) key)"
    using Suc.prems(1) by (simp add: Cons_nth_drop_Suc [symmetric])
  ultimately show ?case
    using Suc.prems(1) t by simp
qed simp

text \<open>Offsets and lengths of a rule come from 32-bit integers.\<close>

definition rule_ok :: "FilterRule \<Rightarrow> bool" where
  "rule_ok rule \<longleftrightarrow> unat (offset rule) < 2 ^ 32 \<and> unat (ts_length rule) < 2 ^ 32"

definition timestamp_of :: "bytes \<Rightarrow> FilterRule \<Rightarrow> nat" where
  "timestamp_of key rule =
     big_endian (take (min (unat (ts_length rule)) 8) (drop (unat (offset rule)) key))"

lemma foldl_bytes_bound: "foldl (\<lambda>v b. v * 256 + unat b) v (xs :: bytes) < (v + 1) * 256 ^ length xs"
proof (induction xs arbitrary: v)
  case (Cons x xs)
  let ?v = "v * 256 + unat x"
  have "foldl (\<lambda>v b. v * 256 + unat b) v (x # xs) < (?v + 1) * 256 ^ length xs"
    using Cons.IH [of ?v] by simp
  also have "\<dots> \<le> ((v + 1) * 256) * 256 ^ length xs"
    using unat_byte [of x] by (intro mult_right_mono) auto
  also have "\<dots> = (v + 1) * 256 ^ length (x # xs)"
    by (simp add: algebra_simps)
  finally show ?case .
qed simp

lemma timestamp_bound: "timestamp_of key rule < 2 ^ 64"
proof -
  let ?bs = "take (min (unat (ts_length rule)) 8) (drop (unat (offset rule)) key)"
  have "timestamp_of key rule < 256 ^ length ?bs"
    using foldl_bytes_bound [of 0 ?bs] by (simp add: timestamp_of_def big_endian_def)
  also have "\<dots> \<le> 256 ^ 8"
    by (intro power_increasing) auto
  finally show ?thesis by simp
qed

lemma WaitForResponse_cases:
  "m_HasResponse b \<Longrightarrow> WaitForResponse b evs = (True, b)"
  "\<not> m_HasResponse b \<Longrightarrow> WaitForResponse b (Reply t # evs) =
     WaitForResponse (SetResponse b (map parse_decision (list_cells t))) evs"
  "\<not> m_HasResponse b \<Longrightarrow> WaitForResponse b (Expire # evs) = (False, b)"
  by (subst WaitForResponse.simps; simp)+

lemma CheckTTL_value:
  assumes "rule_ok rule" "length key < 2 ^ 64"
  shows "CheckTTL now key (offset rule) (ts_length rule) (ttl_seconds rule) =
    Ok (unat (offset rule) + unat (ts_length rule) \<le> length key \<and>
        (timestamp_of key rule + unat (ttl_seconds rule)) mod 2 ^ 64 < unat now)"
proof -
  let ?o = "unat (offset rule)" and ?l = "unat (ts_length rule)"
  have sum: "unat (offset rule + ts_length rule) = ?o + ?l"
    using assms(1) by (simp add: rule_ok_def unat_word_ariths)
  have len: "unat (of_nat (length key) :: u64) = length key"
    using assms(2) by (simp add: unat_of_nat)
  have guard: "of_nat (length key) < offset rule + ts_length rule \<longleftrightarrow> length key < ?o + ?l"
    by (simp add: word_less_nat_alt sum len)
  show ?thesis
  proof (cases "length key < ?o + ?l")
    case True
    then show ?thesis
      by (simp add: CheckTTL_def guard)
  next
    case False
    then have "?o + min ?l 8 \<le> length key"
      by linarith
    then obtain r where r: "read_timestamp key ?o (min ?l 8) 0 = Ok r" "unat r = timestamp_of key rule"
      using read_timestamp_value [of ?o "min ?l 8" key 0] by (auto simp: timestamp_of_def big_endian_def)
    then have "r + ttl_seconds rule < now \<longleftrightarrow>
        (timestamp_of key rule + unat (ttl_seconds rule)) mod 2 ^ 64 < unat now"
      by (simp add: word_less_nat_alt unat_word_ariths)
    with False r show ?thesis
      by (simp add: CheckTTL_def guard)
  qed
qed

section \<open>What the rules mean\<close>

text \<open>
  When a rule applies to an entry, given the expiry time of a key under a TTL rule. The
  code adds the timestamp and \<open>ttl_seconds\<close> on 64 bits, so its expiry time wraps; the
  documented one is the sum.
\<close>

definition rule_selects :: "(bytes \<Rightarrow> FilterRule \<Rightarrow> nat) \<Rightarrow> nat \<Rightarrow> bytes \<Rightarrow> bytes \<Rightarrow> FilterRule \<Rightarrow> bool" where
  "rule_selects expiry now key value rule \<longleftrightarrow>
     (case rtype rule of
        KeyPrefix \<Rightarrow> prefix (pattern rule) key
      | KeySuffix \<Rightarrow> suffix (pattern rule) key
      | KeyContains \<Rightarrow> sublist (pattern rule) key
      | ValueEmpty \<Rightarrow> value = []
      | ValuePrefix \<Rightarrow> prefix (pattern rule) value
      | TTLFromKey \<Rightarrow>
          unat (offset rule) + unat (ts_length rule) \<le> length key \<and> expiry key rule < now
      | Always \<Rightarrow> True)"

definition expiry_time :: "bytes \<Rightarrow> FilterRule \<Rightarrow> nat" where
  "expiry_time key rule = timestamp_of key rule + unat (ttl_seconds rule)"

definition expiry_64 :: "bytes \<Rightarrow> FilterRule \<Rightarrow> nat" where
  "expiry_64 key rule = expiry_time key rule mod 2 ^ 64"

abbreviation rule_matches :: "nat \<Rightarrow> bytes \<Rightarrow> bytes \<Rightarrow> FilterRule \<Rightarrow> bool" where
  "rule_matches \<equiv> rule_selects expiry_time"

abbreviation rule_matches_64 :: "nat \<Rightarrow> bytes \<Rightarrow> bytes \<Rightarrow> FilterRule \<Rightarrow> bool" where
  "rule_matches_64 \<equiv> rule_selects expiry_64"

text \<open>The expiry time of the key fits in 64 bits.\<close>

definition expiry_fits :: "bytes \<Rightarrow> FilterRule \<Rightarrow> bool" where
  "expiry_fits key rule \<longleftrightarrow> rtype rule = TTLFromKey \<longrightarrow> expiry_time key rule < 2 ^ 64"

lemma expiry_fits_matches: "expiry_fits key rule \<Longrightarrow> rule_matches_64 now key value rule = rule_matches now key value rule"
  by (auto simp: rule_selects_def expiry_fits_def expiry_64_def split: RuleType.split)

lemma rule_removes_matches:
  assumes "rule_ok rule" "length key < 2 ^ 64"
  shows "rule_removes now key value rule = Ok (rule_matches_64 (unat now) key value rule)"
  using assms
  by (cases "rtype rule")
    (auto simp: rule_removes_def rule_selects_def starts_with_prefix string_find_sublist CheckTTL_value
      expiry_64_def expiry_time_def suffix_test simp flip: not_None_eq)

lemma ApplyRules_matches:
  assumes "\<forall>rule \<in> set rules. rule_ok rule" "length key < 2 ^ 64"
  shows "ApplyRules now rules key value =
    Ok (filter_result (if \<exists>rule \<in> set rules. rule_matches_64 (unat now) key value rule then Remove else Keep))"
  using assms by (induction rules) (auto simp: rule_removes_matches)

section \<open>Properties\<close>

text \<open>
  Claim C29. Declarative mode: an entry is removed exactly when some rule applies to it
  (prefix, suffix, substring, empty value, expired timestamp), where the expiry time
  of a key is its timestamp plus the TTL modulo \<open>2 ^ 64\<close>, the sum the code computes.
  Where that sum fits in 64 bits for every TTL rule, this is the documented
  meaning: the timestamp is older than the TTL. Values are never changed, no message is
  sent and no byte outside the key is read; merge operands are dropped with
  \<open>kRemove\<close>, other entries with \<open>kPurge\<close>. Offset and length of a rule are
  below \<open>2 ^ 32\<close>, as the option parser makes them.
\<close>

theorem rules_filter_decides:
  assumes "f = CreateCompactionFilter (RulesFactory rules)" "length key < 2 ^ 64" "\<forall>rule \<in> set rules. rule_ok rule"
  shows "FilterV2 now E f level key vt value =
      Ok (if \<exists>rule \<in> set rules. rule_matches_64 (unat now) key value rule
          then (if vt = kMergeOperand then kRemove else kPurge) else kKeep, None, f, None) \<and>
    ((\<forall>rule \<in> set rules. expiry_fits key rule) \<longrightarrow>
      (\<exists>rule \<in> set rules. rule_matches_64 (unat now) key value rule) =
      (\<exists>rule \<in> set rules. rule_matches (unat now) key value rule))"
  using ApplyRules_matches [OF assms(3,2)] expiry_fits_matches
  by (simp add: assms(1) CreateCompactionFilter_def ErlangCompactionFilter_rules_def FilterV2_def evaluate_def
      filter_result_def)

definition demo_rule :: FilterRule where
  "demo_rule = FilterRule_init\<lparr>rtype := TTLFromKey, offset := 1, ts_length := 2, ttl_seconds := 10\<rparr>"

definition quiet_env :: handler_env where
  "quiet_env = \<lparr>env_ok = True, process_alive = True, resource_ok = True, batch_ref = 0,
     binary_ok = (\<lambda>_. True), send_ok = True, during_wait = []\<rparr>"

theorem rules_filter_decides_witness:
  "FilterV2 300 quiet_env (CreateCompactionFilter (RulesFactory [demo_rule])) 0 [7, 1, 0] kValue [] =
     Ok (kPurge, None, CreateCompactionFilter (RulesFactory [demo_rule]), None) \<and>
   rule_matches 300 [7, 1, 0] [] demo_rule"
proof -
  let ?f = "CreateCompactionFilter (RulesFactory [demo_rule])"
  have "timestamp_of [7, 1, 0] demo_rule = 256"
    by (simp add: timestamp_of_def demo_rule_def FilterRule_init_def big_endian_def)
  then have m: "rule_matches_64 (unat (300 :: u64)) [7, 1, 0] [] demo_rule" "expiry_fits [7, 1, 0] demo_rule"
      "rule_ok demo_rule"
    by (simp_all add: rule_selects_def expiry_fits_def expiry_64_def expiry_time_def rule_ok_def demo_rule_def
        FilterRule_init_def)
  have "FilterV2 300 quiet_env ?f 0 [7, 1, 0] kValue [] =
      Ok (if \<exists>rule \<in> set [demo_rule]. rule_matches_64 (unat (300 :: u64)) [7, 1, 0] [] rule
          then (if kValue = kMergeOperand then kRemove else kPurge) else kKeep, None, ?f, None) \<and>
    ((\<forall>rule \<in> set [demo_rule]. expiry_fits [7, 1, 0] rule) \<longrightarrow>
      (\<exists>rule \<in> set [demo_rule]. rule_matches_64 (unat (300 :: u64)) [7, 1, 0] [] rule) =
      (\<exists>rule \<in> set [demo_rule]. rule_matches (unat (300 :: u64)) [7, 1, 0] [] rule))"
    by (rule rules_filter_decides [OF refl]) (use m in simp_all)
  then show ?thesis
    using m by simp
qed

text \<open>
  The expiry time is a 64-bit sum: a TTL so large that the sum wraps, such
  as one meant to mean \<open>never\<close>, makes the rule remove entries that are not expired.
\<close>

theorem ttl_wrap_removes_fresh_key:
  assumes "rtype rule = TTLFromKey" "rule_ok rule" "length key < 2 ^ 64"
    and "unat (offset rule) + unat (ts_length rule) \<le> length key"
    and "2 ^ 64 \<le> timestamp_of key rule + unat (ttl_seconds rule)"
    and "timestamp_of key rule + unat (ttl_seconds rule) - 2 ^ 64 < unat now"
  shows "rule_removes now key value rule = Ok True \<and> \<not> rule_matches (unat now) key value rule"
proof -
  have "timestamp_of key rule < 2 ^ 64"
    by (rule timestamp_bound)
  moreover have "unat (ttl_seconds rule) < 2 ^ 64" "unat now < 2 ^ 64"
    using unsigned_less [of "ttl_seconds rule", where 'a = nat] unsigned_less [of now, where 'a = nat] by simp_all
  ultimately have "(timestamp_of key rule + unat (ttl_seconds rule)) mod 2 ^ 64 =
      timestamp_of key rule + unat (ttl_seconds rule) - 2 ^ 64"
    using assms(5) by (simp add: mod_if)
  then show ?thesis
    using assms CheckTTL_value [OF assms(2,3), of now] \<open>unat now < 2 ^ 64\<close>
    by (simp add: rule_removes_def rule_selects_def expiry_time_def)
qed

definition never_rule :: FilterRule where
  "never_rule = FilterRule_init\<lparr>rtype := TTLFromKey, offset := 0, ts_length := 1, ttl_seconds := 18446744073709551615\<rparr>"

theorem ttl_wrap_removes_fresh_key_witness:
  "rule_removes 100 [50] [] never_rule = Ok True \<and> \<not> rule_matches (unat (100 :: u64)) [50] [] never_rule"
  by (rule ttl_wrap_removes_fresh_key)
    (simp_all add: never_rule_def FilterRule_init_def rule_ok_def timestamp_of_def big_endian_def)

text \<open>
  Handler mode: a reply received in time decides as documented, the first
  decision of the list counting and anything unknown keeping the entry; a new value
  is used for plain entries and ignored for merge operands.
\<close>

theorem handler_reply_decides:
  assumes "m_UseErlangCallback f" "\<not> m_HandlerDead f"
    and "env_ok E" "process_alive E" "resource_ok E" "binary_ok E (length key)" "binary_ok E (length value)" "send_ok E"
    and "during_wait E = Reply (enif_make_list (d # ds)) # evs"
    and "sent = Some (m_HandlerPid f, handler_message E level key value)"
  shows "FilterV2 now E f level key vt value =
    Ok (if d = EAtom ''remove'' then (if vt = kMergeOperand then kRemove else kPurge, None, f, sent)
        else if vt \<noteq> kMergeOperand \<and> (\<exists>b. d = ETuple [EAtom ''change_value'', EBin b])
        then (kChangeValue, Some (new_value (parse_decision d)), f, sent)
        else (kKeep, None, f, sent))"
proof -
  have wait: "WaitForResponse batch_init (during_wait E) =
      (True, SetResponse batch_init (parse_decision d # map parse_decision ds))"
    by (simp add: assms(9) WaitForResponse_cases batch_init_def SetResponse_def)
  have eval: "evaluate now E f level key value = Ok (parse_decision d, f, sent)"
    using assms(1-8,10) by (simp add: evaluate_def CallErlangHandler_def Let_def wait GetResult_def SetResponse_def)
  have dec: "decision (parse_decision d) =
      (if d = EAtom ''remove'' then Remove
       else if \<exists>b. d = ETuple [EAtom ''change_value'', EBin b] then ChangeValue else Keep)"
    by (auto simp: parse_decision_def filter_result_def split: option.splits list.splits)
  show ?thesis
    using dec by (cases "d = EAtom ''remove''") (auto simp: FilterV2_def eval)
qed

definition reply_env :: "eterm \<Rightarrow> handler_env" where
  "reply_env d = quiet_env\<lparr>during_wait := [Reply (enif_make_list [d])]\<rparr>"

theorem handler_reply_decides_witness:
  "FilterV2 0 (reply_env (EAtom ''remove'')) (CreateCompactionFilter (HandlerFactory 9 100 5000)) 0 [1] kValue [2] =
     Ok (kPurge, None, CreateCompactionFilter (HandlerFactory 9 100 5000),
         Some (9, handler_message (reply_env (EAtom ''remove'')) 0 [1] [2]))"
  using handler_reply_decides [of "CreateCompactionFilter (HandlerFactory 9 100 5000)" "reply_env (EAtom ''remove'')"
      "[1]" "[2]" "EAtom ''remove''" "[]" "[]" _ 0 0 kValue, OF _ _ _ _ _ _ _ _ _ refl]
  by (simp add: CreateCompactionFilter_def ErlangCompactionFilter_handler_def reply_env_def quiet_env_def)

text \<open>
  Claim C30. Handler mode fails safe: without a reply in time (the handler is dead or
  dies, the message is refused, memory is short, the timeout ends the wait) the entry
  is kept, whatever its type. Once the handler is known to be dead it stays so and no
  message is sent to it any more.
\<close>

theorem handler_failure_keeps:
  assumes "m_UseErlangCallback f"
    and "m_HandlerDead f \<or> \<not> env_ok E \<or> \<not> process_alive E \<or> \<not> resource_ok E \<or> \<not> binary_ok E (length key) \<or>
         \<not> binary_ok E (length value) \<or> \<not> send_ok E \<or> during_wait E = Expire # evs"
  shows "\<exists>f' sent. FilterV2 now E f level key vt value = Ok (kKeep, None, f', sent) \<and>
    (m_HandlerDead f \<longrightarrow> f' = f \<and> sent = None)"
proof -
  have "WaitForResponse batch_init (Expire # evs) = (False, batch_init)"
    by (simp add: WaitForResponse_cases batch_init_def)
  then show ?thesis
    using assms
    by (auto simp: FilterV2_def evaluate_def CallErlangHandler_def Let_def filter_result_def split: prod.splits)
qed

theorem handler_failure_keeps_witness:
  "\<exists>f' sent. FilterV2 0 (quiet_env\<lparr>during_wait := [Expire]\<rparr>) (CreateCompactionFilter (HandlerFactory 1 100 5000)) 0 [1]
     kMergeOperand [2] = Ok (kKeep, None, f', sent)"
  using handler_failure_keeps [of "CreateCompactionFilter (HandlerFactory 1 100 5000)" "quiet_env\<lparr>during_wait := [Expire]\<rparr>"
      "[1]" "[2]" "[]" 0 0 kMergeOperand]
  by (auto simp: CreateCompactionFilter_def ErlangCompactionFilter_handler_def)

lemma pattern_rule_ok: "rule \<in> set (pattern_rule ty u) \<Longrightarrow> rule_ok rule"
  by (auto simp: pattern_rule_def FilterRule_init_def rule_ok_def split: option.splits)

lemma unat_widened: "unat (ucast (w :: u32) :: u64) < 2 ^ 32"
  using unsigned_less [of w, where 'a = nat] by (simp add: unat_ucast_u32)

lemma ttl_rule_ok:
  "rule_ok (FilterRule_init\<lparr>rtype := TTLFromKey, offset := ucast (off :: u32), ts_length := ucast (len :: u32),
      ttl_seconds := ttl\<rparr>)"
  using unat_widened [of off] unat_widened [of len] by (simp add: rule_ok_def)

lemma plain_rule_ok: "rule_ok (FilterRule_init\<lparr>rtype := ty\<rparr>)"
  by (simp add: rule_ok_def FilterRule_init_def)

lemma short_list_cases:
  obtains "ts = []" | t0 where "ts = [t0]" | t0 t1 where "ts = [t0, t1]" | t0 t1 t2 where "ts = [t0, t1, t2]"
  | t0 t1 t2 t3 where "ts = [t0, t1, t2, t3]" | t0 t1 t2 t3 t4 r where "ts = t0 # t1 # t2 # t3 # t4 # r"
proof (cases ts)
  case c0: (Cons t0 ts1)
  then show ?thesis
  proof (cases ts1)
    case c1: (Cons t1 ts2)
    then show ?thesis
    proof (cases ts2)
      case c2: (Cons t2 ts3)
      then show ?thesis
        using that c0 c1 by (cases ts3; cases "tl ts3") auto
    qed (use that c0 in simp)
  qed (use that in simp)
qed (use that in simp)

lemma parse_rule_ok: "list_all rule_ok (parse_rule head)"
proof (cases "enif_get_tuple head")
  case None
  then show ?thesis
    by (simp add: parse_rule_def)
next
  case (Some ts)
  have pat: "list_all rule_ok (pattern_rule ty u)" for ty u
    using pattern_rule_ok by (auto simp: list_all_iff)
  show ?thesis
  proof (cases ts rule: short_list_cases)
    case (3 t0 t1)
    then show ?thesis
      by (simp add: parse_rule_def Some pat)
  next
    case (5 t0 t1 t2 t3)
    then show ?thesis
      by (simp add: parse_rule_def Some ttl_rule_ok split: option.split)
  qed (simp_all add: parse_rule_def Some plain_rule_ok)
qed

lemma parse_compaction_filter_rules:
  assumes "parse_compaction_filter t = Ok (Some (RulesFactory rules))"
  shows "\<exists>heads. rules = concat (map parse_rule heads) \<and> rules \<noteq> []"
  using assms
  by (auto simp: parse_compaction_filter_def Let_def split: if_split_asm option.split_asm)

text \<open>
  Claim C31. The option parser only builds rules whose offset and length fit in 32
  bits, so their sum cannot wrap and the bounds check of \<open>CheckTTL\<close> is sound for
  every rule a filter can have; a parsed rule list is never empty.
\<close>

theorem parsed_rules_in_range:
  assumes "parse_compaction_filter t = Ok (Some (RulesFactory rules))"
  shows "rules \<noteq> [] \<and> (\<forall>rule \<in> set rules. rule_ok rule)"
  using parse_compaction_filter_rules [OF assms] parse_rule_ok by (fastforce simp: list_all_iff)

theorem parsed_rules_in_range_witness:
  "\<exists>rules. parse_compaction_filter (EMap [(EAtom ''rules'', enif_make_list
       [ETuple [EAtom ''ttl_from_key'', EInt 1, EInt 2, EInt 10]])]) = Ok (Some (RulesFactory rules)) \<and>
     rules \<noteq> [] \<and> rule_ok (hd rules)"
proof -
  let ?t = "EMap [(EAtom ''rules'', enif_make_list [ETuple [EAtom ''ttl_from_key'', EInt 1, EInt 2, EInt 10]])]"
  have p: "parse_compaction_filter ?t = Ok (Some (RulesFactory
      [FilterRule_init\<lparr>rtype := TTLFromKey, offset := 1, ts_length := 2, ttl_seconds := 10\<rparr>]))"
    by (simp add: parse_compaction_filter_def parse_rule_def)
  with parsed_rules_in_range [OF p] show ?thesis
    by simp
qed

end
