(* ===== verification/Db_Options.thy ===== *)
theory Db_Options
  imports Shared_Objects Compaction_Filter
begin

text \<open>
  The option lists of \<open>c_src/erocksdb_db.cc\<close>: database options (\<open>parse_db_option\<close>), column
  family options (\<open>parse_cf_option\<close>), block based tables and FIFO compaction. A RocksDB
  options structure is a map from the names of the fields that were assigned to their
  values; a field outside the map has its default. An option that assigns one field is a
  row of a table: the atom, the field and the conversion of the value. The getter of a row
  answers the value to assign (or none), \<open>Failed\<close> where the parser returns \<open>badarg\<close>, or
  \<open>Undef\<close>.
\<close>

section \<open>Values\<close>

datatype double = Bits u64 | OfInt int

datatype wal_recovery_mode =
    kTolerateCorruptedTailRecords | kAbsoluteConsistency | kPointInTimeRecovery | kSkipAnyCorruptedRecords

datatype compaction_style =
    kCompactionStyleLevel | kCompactionStyleUniversal | kCompactionStyleFIFO | kCompactionStyleNone

datatype compaction_pri = kByCompensatedSize | kOldestLargestSeqFirst | kOldestSmallestSeqFirst

datatype prepopulate = kDisable | kFlushOnly

datatype prefix_transform = FixedPrefix u64 | CappedPrefix u64

datatype merge_operator =
    ErlangMergeOperator | BitsetMergeOperator u32 | CounterMergeOperator | PostingListMergeOperator

datatype comparator = BytewiseComparator | ReverseBytewiseComparator

record compression_options =
  window_bits :: int
  co_level :: int
  strategy :: int
  max_dict_bytes :: u32
  zstd_max_train_bytes :: u32
  co_enabled :: bool

record fifo_options =
  max_table_files_size :: u64
  allow_compaction :: bool

record bbt_options =
  no_block_cache :: bool
  block_size :: u64
  block_cache :: "nat option"
  filter_policy :: "int option"
  format_version :: u32
  cache_index_and_filter_blocks :: bool

datatype table_factory = BlockBasedTable bbt_options | PlainTable

datatype opt_val =
    VBool bool | VInt int | VU32 u32 | VU64 u64 | VDouble double | VString bytes | VPaths "(bytes \<times> u64) list"
  | VRecovery wal_recovery_mode | VCompression compression_type | VCompressions "compression_type list"
  | VCompressionOptions compression_options | VStyle compaction_style | VPri compaction_pri | VFifo fifo_options
  | VTable table_factory | VMerge merge_operator | VPrefix prefix_transform | VComparator comparator
  | VFilter factory | VPrepopulate prepopulate | VShared nat | VEnv nat

type_synonym options = "string \<Rightarrow> opt_val option"

type_synonym 'n getter = "'n shared_heap \<Rightarrow> eterm \<Rightarrow> opt_val option outcome"

type_synonym 'n option_table = "(string \<times> string \<times> 'n getter) list"

section \<open>Getters\<close>

text \<open>
  The conversions of the source: a getter of \<open>erl_nif.h\<close> and the implicit conversion of its
  result to the type of the field.
\<close>

definition to_bool :: "'n getter" where
  "to_bool S t = Ok (Some (VBool (t = EAtom ''true'')))"

definition to_int :: "'n getter" where
  "to_int S t = Ok (map_option VInt (enif_get_int t))"

definition int_to_u64 :: "'n getter" where
  "int_to_u64 S t = Ok (map_option (\<lambda>i. VU64 (word_of_int i)) (enif_get_int t))"

definition int_to_double :: "'n getter" where
  "int_to_double S t = Ok (map_option (\<lambda>i. VDouble (OfInt i)) (enif_get_int t))"

definition to_uint :: "'n getter" where
  "to_uint S t = Ok (map_option VU32 (enif_get_uint t))"

definition uint_to_size :: "'n getter" where
  "uint_to_size S t = Ok (map_option (\<lambda>n. VU64 (ucast n)) (enif_get_uint t))"

definition to_uint64 :: "'n getter" where
  "to_uint64 S t = Ok (map_option VU64 (enif_get_uint64 t))"

definition to_double :: "'n getter" where
  "to_double S t = Ok (map_option (\<lambda>d. VDouble (Bits d)) (enif_get_double t))"

definition to_path :: "'n getter" where
  "to_path S t = Ok (map_option VString (enif_get_string t 4096))"

definition to_enum :: "(string \<times> opt_val) list \<Rightarrow> 'n getter" where
  "to_enum atoms S t = Ok (case t of EAtom a \<Rightarrow> map_of atoms a | _ \<Rightarrow> None)"

text \<open>
  The \<open>shared_ptr\<close> of a resource: a term of another kind leaves the field, a handle whose
  destructor was run must not be used.
\<close>

definition shared_of :: "'n shared_heap \<Rightarrow> shared_kind \<Rightarrow> eterm \<Rightarrow> nat option outcome" where
  "shared_of S k t =
     (case retrieve_wrapper S k t of
        None \<Rightarrow> Ok None
      | Some a \<Rightarrow> (case wrapper_ptr S a of None \<Rightarrow> Undef | Some p \<Rightarrow> Ok (Some p)))"

definition to_shared :: "shared_kind \<Rightarrow> 'n getter" where
  "to_shared k S t = bind_outcome (shared_of S k t) (\<lambda>p. Ok (map_option VShared p))"

text \<open>
  One option: \<open>option[0]\<close> selects the row, and the fold goes on unless the getter asks for
  \<open>badarg\<close>.
\<close>

definition assign_option :: "'n option_table \<Rightarrow> 'n shared_heap \<Rightarrow> eterm \<Rightarrow> eterm \<Rightarrow> options \<Rightarrow> (eterm \<times> options) outcome" where
  "assign_option table S name val opts =
     (case (case name of EAtom a \<Rightarrow> map_of table a | _ \<Rightarrow> None) of
        None \<Rightarrow> Ok (e_ok, opts)
      | Some (field, get) \<Rightarrow>
          (case get S val of
             Ok v \<Rightarrow> Ok (e_ok, case v of None \<Rightarrow> opts | Some x \<Rightarrow> opts(field \<mapsto> x))
           | Failed \<Rightarrow> Ok (EAtom ''badarg'', opts)
           | Thrown \<Rightarrow> Thrown
           | Undef \<Rightarrow> Undef))"

text \<open>\<open>fold\<close> of \<open>atoms.h\<close> with a parser that may not return.\<close>

fun fold_options :: "(eterm \<Rightarrow> 'a \<Rightarrow> (eterm \<times> 'a) outcome) \<Rightarrow> eterm list \<Rightarrow> 'a \<Rightarrow> (eterm \<times> 'a) outcome" where
  "fold_options f [] acc = Ok (e_ok, acc)"
| "fold_options f (x # xs) acc =
     bind_outcome (f x acc) (\<lambda>(r, acc1). if r \<noteq> e_ok then Ok (r, acc1) else fold_options f xs acc1)"

section \<open>Tables and FIFO compaction\<close>

definition BlockBasedTableOptions_init :: bbt_options where
  "BlockBasedTableOptions_init = \<lparr>no_block_cache = False, block_size = 4 * 1024, block_cache = None, filter_policy = None,
     format_version = 6, cache_index_and_filter_blocks = False\<rparr>"

text \<open>\<open>block_size\<close> and \<open>format_version\<close> are read as \<open>int\<close> and stored in unsigned fields.\<close>

definition parse_bbt_option :: "'n shared_heap \<Rightarrow> eterm \<Rightarrow> bbt_options \<Rightarrow> (eterm \<times> bbt_options) outcome" where
  "parse_bbt_option S item opts =
     (case enif_get_tuple item of
        Some [name, val] \<Rightarrow>
          let b = (val = EAtom ''true''); n = enif_get_int val
          in if name = EAtom ''no_block_cache'' then Ok (e_ok, opts\<lparr>no_block_cache := b\<rparr>)
             else if name = EAtom ''block_size''
             then Ok (e_ok, case n of None \<Rightarrow> opts | Some i \<Rightarrow> opts\<lparr>block_size := word_of_int i\<rparr>)
             else if name = EAtom ''block_cache''
             then bind_outcome (shared_of S CacheRes val)
                    (\<lambda>p. Ok (e_ok, case p of None \<Rightarrow> opts | Some c \<Rightarrow> opts\<lparr>block_cache := Some c\<rparr>))
             else if name = EAtom ''bloom_filter_policy''
             then Ok (e_ok, case n of None \<Rightarrow> opts | Some i \<Rightarrow> opts\<lparr>filter_policy := Some i\<rparr>)
             else if name = EAtom ''format_version''
             then Ok (e_ok, case n of None \<Rightarrow> opts | Some i \<Rightarrow> opts\<lparr>format_version := word_of_int i\<rparr>)
             else if name = EAtom ''cache_index_and_filter_blocks''
             then Ok (e_ok, opts\<lparr>cache_index_and_filter_blocks := b\<rparr>)
             else Ok (e_ok, opts)
      | _ \<Rightarrow> Ok (e_ok, opts))"

definition to_table :: "'n getter" where
  "to_table S t =
     bind_outcome (fold_options (parse_bbt_option S) (list_cells t) BlockBasedTableOptions_init)
       (\<lambda>(r, opts). Ok (Some (VTable (BlockBasedTable opts))))"

definition CompactionOptionsFIFO_init :: fifo_options where
  "CompactionOptionsFIFO_init = \<lparr>max_table_files_size = 1 * 1024 * 1024 * 1024, allow_compaction = False\<rparr>"

definition parse_compaction_options_fifo :: "eterm \<Rightarrow> fifo_options \<Rightarrow> eterm \<times> fifo_options" where
  "parse_compaction_options_fifo item opts =
     (e_ok,
      case enif_get_tuple item of
        Some [name, val] \<Rightarrow>
          if name = EAtom ''max_table_files_size''
          then (case enif_get_uint64 val of None \<Rightarrow> opts | Some n \<Rightarrow> opts\<lparr>max_table_files_size := n\<rparr>)
          else if name = EAtom ''allow_compaction'' then opts\<lparr>allow_compaction := (val = EAtom ''true'')\<rparr>
          else opts
      | _ \<Rightarrow> opts)"

definition to_fifo :: "'n getter" where
  "to_fifo S t = Ok (Some (VFifo (snd (nif_fold parse_compaction_options_fifo t CompactionOptionsFIFO_init))))"

section \<open>Database options\<close>

definition recovery_modes :: "(string \<times> opt_val) list" where
  "recovery_modes =
     [(''tolerate_corrupted_tail_records'', VRecovery kTolerateCorruptedTailRecords),
      (''absolute_consistency'', VRecovery kAbsoluteConsistency),
      (''point_in_time_recovery'', VRecovery kPointInTimeRecovery),
      (''skip_any_corrupted_records'', VRecovery kSkipAnyCorruptedRecords)]"

definition db_option_table :: "'n option_table" where
  "db_option_table =
    [(''statistics'', ''statistics'', to_shared StatisticsRes),
     (''create_if_missing'', ''create_if_missing'', to_bool),
     (''create_missing_column_families'', ''create_missing_column_families'', to_bool),
     (''error_if_exists'', ''error_if_exists'', to_bool),
     (''paranoid_checks'', ''paranoid_checks'', to_bool),
     (''max_open_files'', ''max_open_files'', to_int),
     (''max_total_wal_size'', ''max_total_wal_size'', to_uint64),
     (''use_fsync'', ''use_fsync'', to_bool),
     (''db_log_dir'', ''db_log_dir'', to_path),
     (''wal_dir'', ''wal_dir'', to_path),
     (''delete_obsolete_files_period_micros'', ''delete_obsolete_files_period_micros'', to_uint64),
     (''max_background_jobs'', ''max_background_jobs'', to_int),
     (''max_background_compactions'', ''max_background_compactions'', to_int),
     (''max_background_flushes'', ''max_background_flushes'', to_int),
     (''max_log_file_size'', ''max_log_file_size'', uint_to_size),
     (''log_file_time_to_roll'', ''log_file_time_to_roll'', uint_to_size),
     (''keep_log_file_num'', ''keep_log_file_num'', uint_to_size),
     (''max_manifest_file_size'', ''max_manifest_file_size'', to_uint64),
     (''table_cache_numshardbits'', ''table_cache_numshardbits'', to_int),
     (''wal_ttl_seconds'', ''WAL_ttl_seconds'', to_uint64),
     (''wal_size_limit_mb'', ''WAL_size_limit_MB'', to_uint64),
     (''manifest_preallocation_size'', ''manifest_preallocation_size'', uint_to_size),
     (''allow_mmap_reads'', ''allow_mmap_reads'', to_bool),
     (''allow_mmap_writes'', ''allow_mmap_writes'', to_bool),
     (''is_fd_close_on_exec'', ''is_fd_close_on_exec'', to_bool),
     (''stats_dump_period_sec'', ''stats_dump_period_sec'', to_uint),
     (''advise_random_on_open'', ''advise_random_on_open'', to_bool),
     (''compaction_readahead_size'', ''compaction_readahead_size'', uint_to_size),
     (''use_adaptive_mutex'', ''use_adaptive_mutex'', to_bool),
     (''bytes_per_sync'', ''bytes_per_sync'', to_uint64),
     (''skip_stats_update_on_db_open'', ''skip_stats_update_on_db_open'', to_bool),
     (''wal_recovery_mode'', ''wal_recovery_mode'', to_enum recovery_modes),
     (''allow_concurrent_memtable_write'', ''allow_concurrent_memtable_write'', to_bool),
     (''enable_write_thread_adaptive_yield'', ''enable_write_thread_adaptive_yield'', to_bool),
     (''db_write_buffer_size'', ''db_write_buffer_size'', uint_to_size),
     (''rate_limiter'', ''rate_limiter'', to_shared RateLimiterRes),
     (''sst_file_manager'', ''sst_file_manager'', to_shared SstFileManagerRes),
     (''write_buffer_manager'', ''write_buffer_manager'', to_shared WriteBufferManagerRes),
     (''max_subcompactions'', ''max_subcompactions'', to_uint),
     (''atomic_flush'', ''atomic_flush'', to_bool),
     (''manual_wal_flush'', ''manual_wal_flush'', to_bool),
     (''use_direct_reads'', ''use_direct_reads'', to_bool),
     (''use_direct_io_for_flush_and_compaction'', ''use_direct_io_for_flush_and_compaction'', to_bool),
     (''enable_pipelined_write'', ''enable_pipelined_write'', to_bool),
     (''unordered_write'', ''unordered_write'', to_bool),
     (''two_write_queues'', ''two_write_queues'', to_bool),
     (''max_manifest_space_amp_pct'', ''max_manifest_space_amp_pct'', to_int)]"

text \<open>\<open>NewMemEnv\<close> on the default environment, with the directory \<open>test\<close>; the object is not owned by a wrapper.\<close>

definition use_mem_env :: "'n rocks_shared \<Rightarrow> options \<times> 'n shared_heap \<Rightarrow> options \<times> 'n shared_heap" where
  "use_mem_env R acc =
     (case acc of (opts, S) \<Rightarrow>
        (case make_shared (env_CreateDir R ''test'' (env_NewMemEnv R)) S of
           (p, S1) \<Rightarrow> (opts(''env'' \<mapsto> VEnv p, ''create_if_missing'' \<mapsto> VBool True), S1)))"

text \<open>The environment of the options; by default \<open>Env::Default()\<close>.\<close>

definition env_of :: "options \<Rightarrow> nat" where
  "env_of opts = (case opts ''env'' of Some (VEnv p) \<Rightarrow> p | _ \<Rightarrow> 0)"

text \<open>\<open>DBOptions::IncreaseParallelism\<close> (\<open>options/options.cc\<close>).\<close>

definition IncreaseParallelism :: "'n rocks_shared \<Rightarrow> int \<Rightarrow> options \<times> 'n shared_heap \<Rightarrow> (options \<times> 'n shared_heap) outcome" where
  "IncreaseParallelism R total_threads acc =
     (case acc of (opts, S) \<Rightarrow>
        (case natives S (env_of opts) of
           None \<Rightarrow> Undef
         | Some e \<Rightarrow>
             Ok (opts(''max_background_jobs'' \<mapsto> VInt total_threads),
                 S\<lparr>natives := (natives S)(env_of opts \<mapsto>
                     env_SetBackgroundThreads R 1 HIGH (env_SetBackgroundThreads R total_threads LOW e))\<rparr>)))"

text \<open>\<open>opts.db_paths.push_back(...)\<close> for every string of the list; other elements are skipped.\<close>

definition push_paths :: "eterm \<Rightarrow> options \<Rightarrow> options" where
  "push_paths t opts =
     (let old = (case opts ''db_paths'' of Some (VPaths ps) \<Rightarrow> ps | _ \<Rightarrow> []);
          new = map (\<lambda>path. (path, 0)) (List.map_filter (\<lambda>head. enif_get_string head 4096) (list_cells t))
      in if new = [] then opts else opts(''db_paths'' \<mapsto> VPaths (old @ new)))"

definition parse_db_option ::
    "'n rocks_shared \<Rightarrow> eterm \<Rightarrow> options \<times> 'n shared_heap \<Rightarrow> (eterm \<times> options \<times> 'n shared_heap) outcome" where
  "parse_db_option R item acc =
     (case acc of (opts, S) \<Rightarrow>
        (case enif_get_tuple item of
           Some [name, val] \<Rightarrow>
             if name = EAtom ''env'' then
               (if enif_is_atom val then Ok (e_ok, if val = EAtom ''memenv'' then use_mem_env R acc else acc)
                else bind_outcome (shared_of S EnvRes val)
                       (\<lambda>p. Ok (e_ok, (case p of None \<Rightarrow> opts | Some e \<Rightarrow> opts(''env'' \<mapsto> VEnv e)), S)))
             else if name = EAtom ''total_threads'' then
               (case enif_get_int val of
                  None \<Rightarrow> Ok (e_ok, acc)
                | Some n \<Rightarrow> bind_outcome (IncreaseParallelism R n acc) (\<lambda>acc1. Ok (e_ok, acc1)))
             else if name = EAtom ''db_paths'' then Ok (e_ok, push_paths val opts, S)
             else if name = EAtom ''in_memory''
             then Ok (e_ok, if val = EAtom ''true'' then use_mem_env R acc else acc)
             else bind_outcome (assign_option db_option_table S name val opts) (\<lambda>(r, opts1). Ok (r, opts1, S))
         | _ \<Rightarrow> Ok (e_ok, acc)))"

section \<open>Column family options\<close>

text \<open>
  \<open>compression\<close> and \<open>bottommost_compression\<close>: with an atom that names no compression the
  local variable is copied without having been set. \<open>blob_compression_type\<close> starts with
  \<open>kNoCompression\<close>.
\<close>

definition compression_types :: "(string \<times> compression_type) list" where
  "compression_types =
     [(''snappy'', kSnappyCompression), (''zlib'', kZlibCompression), (''bzip2'', kBZip2Compression),
      (''lz4'', kLZ4Compression), (''lz4h'', kLZ4HCCompression), (''zstd'', kZSTD), (''none'', kNoCompression)]"

definition compression_of :: "eterm \<Rightarrow> compression_type option" where
  "compression_of t = (case t of EAtom a \<Rightarrow> map_of compression_types a | _ \<Rightarrow> None)"

definition to_compression :: "'n getter" where
  "to_compression S t = (case compression_of t of Some c \<Rightarrow> Ok (Some (VCompression c)) | None \<Rightarrow> Undef)"

definition to_blob_compression :: "'n getter" where
  "to_blob_compression S t =
     Ok (Some (VCompression (case compression_of t of Some c \<Rightarrow> c | None \<Rightarrow> kNoCompression)))"

definition CompressionOptions_init :: compression_options where
  "CompressionOptions_init = \<lparr>window_bits = - 14, co_level = 32767, strategy = 0, max_dict_bytes = 0,
     zstd_max_train_bytes = 0, co_enabled = False\<rparr>"

definition parse_compression_opt :: "eterm \<Rightarrow> compression_options \<Rightarrow> compression_options" where
  "parse_compression_opt head opts =
     (case enif_get_tuple head of
        Some [name, val] \<Rightarrow>
          let n = enif_get_int val; u = enif_get_uint val
          in if name = EAtom ''enabled'' then opts\<lparr>co_enabled := (val = EAtom ''true'')\<rparr>
             else if name = EAtom ''window_bits'' then (case n of None \<Rightarrow> opts | Some i \<Rightarrow> opts\<lparr>window_bits := i\<rparr>)
             else if name = EAtom ''level'' then (case n of None \<Rightarrow> opts | Some i \<Rightarrow> opts\<lparr>co_level := i\<rparr>)
             else if name = EAtom ''strategy'' then (case n of None \<Rightarrow> opts | Some i \<Rightarrow> opts\<lparr>strategy := i\<rparr>)
             else if name = EAtom ''max_dict_bytes'' then (case u of None \<Rightarrow> opts | Some i \<Rightarrow> opts\<lparr>max_dict_bytes := i\<rparr>)
             else if name = EAtom ''zstd_max_train_bytes''
             then (case u of None \<Rightarrow> opts | Some i \<Rightarrow> opts\<lparr>zstd_max_train_bytes := i\<rparr>)
             else opts
      | _ \<Rightarrow> opts)"

definition to_compression_options :: "'n getter" where
  "to_compression_options S t =
     Ok (Some (VCompressionOptions (fold parse_compression_opt (list_cells t) CompressionOptions_init)))"

definition compaction_styles :: "(string \<times> opt_val) list" where
  "compaction_styles =
     [(''level'', VStyle kCompactionStyleLevel), (''universal'', VStyle kCompactionStyleUniversal),
      (''fifo'', VStyle kCompactionStyleFIFO), (''none'', VStyle kCompactionStyleNone)]"

definition compaction_pris :: "(string \<times> opt_val) list" where
  "compaction_pris =
     [(''compensated_size'', VPri kByCompensatedSize), (''oldest_largest_seq_first'', VPri kOldestLargestSeqFirst),
      (''oldest_smallest_seq_first'', VPri kOldestSmallestSeqFirst)]"

definition comparators :: "(string \<times> opt_val) list" where
  "comparators =
     [(''bytewise_comparator'', VComparator BytewiseComparator),
      (''reverse_bytewise_comparator'', VComparator ReverseBytewiseComparator)]"

definition prepopulate_modes :: "(string \<times> opt_val) list" where
  "prepopulate_modes = [(''disable'', VPrepopulate kDisable), (''flush_only'', VPrepopulate kFlushOnly)]"

definition merge_operators :: "(string \<times> merge_operator) list" where
  "merge_operators =
     [(''erlang_merge_operator'', ErlangMergeOperator), (''bitset_merge_operator'', BitsetMergeOperator 0x3E80),
      (''counter_merge_operator'', CounterMergeOperator), (''posting_list_merge_operator'', PostingListMergeOperator)]"

definition to_merge_operator :: "'n getter" where
  "to_merge_operator S t =
     (case t of
        EAtom a \<Rightarrow> Ok (map_option VMerge (map_of merge_operators a))
      | ETuple (m0 # m1 # rest) \<Rightarrow>
          if m0 = EAtom ''bitset_merge_operator''
          then (case enif_get_uint m1 of None \<Rightarrow> Failed | Some cap \<Rightarrow> Ok (Some (VMerge (BitsetMergeOperator cap))))
          else Ok None
      | _ \<Rightarrow> Ok None)"

text \<open>The length is read as \<open>int\<close> and passed as \<open>size_t\<close>.\<close>

definition to_prefix_extractor :: "'n getter" where
  "to_prefix_extractor S t =
     (case t of
        ETuple [e0, e1] \<Rightarrow>
          if e0 = EAtom ''fixed_prefix_transform''
          then (case enif_get_int e1 of None \<Rightarrow> Failed | Some len \<Rightarrow> Ok (Some (VPrefix (FixedPrefix (word_of_int len)))))
          else if e0 = EAtom ''capped_prefix_transform''
          then (case enif_get_int e1 of None \<Rightarrow> Failed | Some len \<Rightarrow> Ok (Some (VPrefix (CappedPrefix (word_of_int len)))))
          else Ok None
      | _ \<Rightarrow> Ok None)"

definition to_compaction_filter :: "'n getter" where
  "to_compaction_filter S t = bind_outcome (parse_compaction_filter t) (\<lambda>f. Ok (map_option VFilter f))"

definition cf_option_table :: "'n option_table" where
  "cf_option_table =
    [(''write_buffer_size'', ''write_buffer_size'', uint_to_size),
     (''max_write_buffer_number'', ''max_write_buffer_number'', to_int),
     (''min_write_buffer_number_to_merge'', ''min_write_buffer_number_to_merge'', to_int),
     (''compression'', ''compression'', to_compression),
     (''bottommost_compression'', ''bottommost_compression'', to_compression),
     (''compression_opts'', ''compression_opts'', to_compression_options),
     (''bottommost_compression_opts'', ''bottommost_compression_opts'', to_compression_options),
     (''num_levels'', ''num_levels'', to_int),
     (''ttl'', ''ttl'', to_uint64),
     (''level0_file_num_compaction_trigger'', ''level0_file_num_compaction_trigger'', to_int),
     (''level0_slowdown_writes_trigger'', ''level0_slowdown_writes_trigger'', to_int),
     (''level0_stop_writes_trigger'', ''level0_stop_writes_trigger'', to_int),
     (''target_file_size_base'', ''target_file_size_base'', to_uint64),
     (''target_file_size_multiplier'', ''target_file_size_multiplier'', to_int),
     (''target_file_size_is_upper_bound'', ''target_file_size_is_upper_bound'', to_bool),
     (''max_bytes_for_level_base'', ''max_bytes_for_level_base'', to_uint64),
     (''max_bytes_for_level_multiplier'', ''max_bytes_for_level_multiplier'', int_to_double),
     (''max_compaction_bytes'', ''max_compaction_bytes'', int_to_u64),
     (''arena_block_size'', ''arena_block_size'', uint_to_size),
     (''disable_auto_compactions'', ''disable_auto_compactions'', to_bool),
     (''compaction_style'', ''compaction_style'', to_enum compaction_styles),
     (''compaction_pri'', ''compaction_pri'', to_enum compaction_pris),
     (''compaction_options_fifo'', ''compaction_options_fifo'', to_fifo),
     (''max_sequential_skip_in_iterations'', ''max_sequential_skip_in_iterations'', to_uint64),
     (''inplace_update_support'', ''inplace_update_support'', to_bool),
     (''inplace_update_num_locks'', ''inplace_update_num_locks'', uint_to_size),
     (''block_based_table_options'', ''table_factory'', to_table),
     (''level_compaction_dynamic_level_bytes'', ''level_compaction_dynamic_level_bytes'', to_bool),
     (''optimize_filters_for_hits'', ''optimize_filters_for_hits'', to_bool),
     (''merge_operator'', ''merge_operator'', to_merge_operator),
     (''prefix_extractor'', ''prefix_extractor'', to_prefix_extractor),
     (''comparator'', ''comparator'', to_enum comparators),
     (''compaction_filter'', ''compaction_filter_factory'', to_compaction_filter),
     (''enable_blob_files'', ''enable_blob_files'', to_bool),
     (''min_blob_size'', ''min_blob_size'', to_uint64),
     (''blob_file_size'', ''min_blob_size'', to_uint64),
     (''blob_compression_type'', ''blob_compression_type'', to_blob_compression),
     (''enable_blob_garbage_collection'', ''enable_blob_garbage_collection'', to_bool),
     (''blob_garbage_collection_age_cutoff'', ''blob_garbage_collection_age_cutoff'', to_double),
     (''blob_garbage_collection_force_threshold'', ''blob_garbage_collection_force_threshold'', to_double),
     (''blob_compaction_readahead_size'', ''blob_compaction_readahead_size'', to_uint64),
     (''blob_file_starting_level'', ''blob_file_starting_level'', to_int),
     (''blob_cache'', ''blob_cache'', to_shared CacheRes),
     (''prepopulate_blob_cache'', ''prepopulate_blob_cache'', to_enum prepopulate_modes)]"

text \<open>
  \<open>ColumnFamilyOptions::OptimizeLevelStyleCompaction\<close> (\<open>options/options.cc\<close>). A negative
  number of levels becomes a huge size, and \<open>resize\<close> throws \<open>std::length_error\<close>.
  \<open>supported\<close> are the compressions RocksDB was built with.
\<close>

definition OptimizeLevelStyleCompaction :: "compression_type list \<Rightarrow> u64 \<Rightarrow> options \<Rightarrow> options outcome" where
  "OptimizeLevelStyleCompaction supported budget opts =
     (let opts1 = opts(''write_buffer_size'' \<mapsto> VU64 (budget div 4), ''min_write_buffer_number_to_merge'' \<mapsto> VInt 2,
            ''max_write_buffer_number'' \<mapsto> VInt 6, ''level0_file_num_compaction_trigger'' \<mapsto> VInt 2,
            ''target_file_size_base'' \<mapsto> VU64 (budget div 8), ''max_bytes_for_level_base'' \<mapsto> VU64 budget,
            ''compaction_style'' \<mapsto> VStyle kCompactionStyleLevel);
          num_levels = (case opts ''num_levels'' of Some (VInt n) \<Rightarrow> n | _ \<Rightarrow> 7);
          fast = (if kLZ4Compression \<in> set supported then kLZ4Compression
                  else if kSnappyCompression \<in> set supported then kSnappyCompression else kNoCompression)
      in if num_levels < 0 then Thrown
         else Ok (opts1(''compression_per_level'' \<mapsto>
                VCompressions (map (\<lambda>i. if i < 2 then kNoCompression else fast) [0..<nat num_levels]))))"

definition in_memory_mode :: "options \<Rightarrow> options" where
  "in_memory_mode opts =
     opts(''prefix_extractor'' \<mapsto> VPrefix (FixedPrefix 10), ''table_factory'' \<mapsto> VTable PlainTable,
       ''compression'' \<mapsto> VCompression kNoCompression,
       ''memtable_prefix_bloom_size_ratio'' \<mapsto> VDouble (Bits 0x3FD0000000000000),
       ''compaction_style'' \<mapsto> VStyle kCompactionStyleUniversal,
       ''compaction_options_universal.size_ratio'' \<mapsto> VU32 10,
       ''compaction_options_universal.min_merge_width'' \<mapsto> VU32 2,
       ''compaction_options_universal.max_size_amplification_percent'' \<mapsto> VU32 50,
       ''level0_file_num_compaction_trigger'' \<mapsto> VInt 0, ''level0_slowdown_writes_trigger'' \<mapsto> VInt 8,
       ''level0_stop_writes_trigger'' \<mapsto> VInt 16, ''bloom_locality'' \<mapsto> VU32 1,
       ''write_buffer_size'' \<mapsto> VU64 (push_bit 20 32), ''max_write_buffer_number'' \<mapsto> VInt 2,
       ''min_write_buffer_number_to_merge'' \<mapsto> VInt 1)"

definition parse_cf_option ::
    "compression_type list \<Rightarrow> 'n shared_heap \<Rightarrow> eterm \<Rightarrow> options \<Rightarrow> (eterm \<times> options) outcome" where
  "parse_cf_option supported S item opts =
     (case enif_get_tuple item of
        Some [name, val] \<Rightarrow>
          if name = EAtom ''block_cache_size_mb_for_point_lookup'' then Ok (e_ok, opts)
          else if name = EAtom ''memtable_memory_budget'' then
            (case enif_get_uint64 val of
               None \<Rightarrow> Ok (e_ok, opts)
             | Some budget \<Rightarrow>
                 bind_outcome (OptimizeLevelStyleCompaction supported budget opts) (\<lambda>opts1. Ok (e_ok, opts1)))
          else if name = EAtom ''in_memory_mode''
          then Ok (e_ok, if val = EAtom ''true'' then in_memory_mode opts else opts)
          else assign_option cf_option_table S name val opts
      | _ \<Rightarrow> Ok (e_ok, opts))"

text \<open>The folds over an option list, as the opening NIFs call them; their result is dropped.\<close>

definition db_options_of ::
    "'n rocks_shared \<Rightarrow> 'n shared_heap \<Rightarrow> eterm \<Rightarrow> (options \<times> 'n shared_heap) outcome" where
  "db_options_of R S t =
     bind_outcome (fold_options (parse_db_option R) (list_cells t) (\<lambda>_. None, S)) (\<lambda>(r, acc). Ok acc)"

definition cf_options_of :: "compression_type list \<Rightarrow> 'n shared_heap \<Rightarrow> eterm \<Rightarrow> options outcome" where
  "cf_options_of supported S t =
     bind_outcome (fold_options (parse_cf_option supported S) (list_cells t) (\<lambda>_. None)) (\<lambda>(r, opts). Ok opts)"

end
