(* ===== verification/Sst_Files.thy ===== *)
theory Sst_Files
  imports Db_Options
begin

text \<open>
  The NIFs of \<open>c_src/sst_file_writer.cc\<close> and \<open>c_src/sst_file_reader.cc\<close>: writing a table
  file outside a database, and reading one with its iterators. A writer is a resource of
  its own; an iterator holds a reference of the run-time system to the resource of its
  reader (\<open>enif_keep_resource\<close>), which is counted here. The RocksDB classes are the record
  \<open>rocks_sst\<close>, an argument, on files \<open>'fs\<close>; the iterators move as those of \<open>Iterator_Nifs\<close>.
\<close>

section \<open>RocksDB\<close>

record ext_file_info =
  fi_file_path :: bytes
  smallest_key :: bytes
  largest_key :: bytes
  smallest_range_del_key :: bytes
  largest_range_del_key :: bytes
  fi_file_size :: u64
  num_entries :: u64
  num_range_del_entries :: u64
  sequence_number :: u64

text \<open>The table properties, by the name of the field.\<close>

record table_props =
  tp_number :: "string \<Rightarrow> u64"
  tp_string :: "string \<Rightarrow> bytes"

record ('wr, 'rd, 'it, 'fs) rocks_sst =
  wr_Open :: "options \<Rightarrow> options \<Rightarrow> bytes \<Rightarrow> 'fs \<Rightarrow> status \<times> 'wr \<times> 'fs"
  wr_Put :: "bytes \<Rightarrow> bytes \<Rightarrow> 'wr \<Rightarrow> status \<times> 'wr"
  wr_PutEntity :: "bytes \<Rightarrow> columns \<Rightarrow> 'wr \<Rightarrow> status \<times> 'wr"
  wr_Merge :: "bytes \<Rightarrow> bytes \<Rightarrow> 'wr \<Rightarrow> status \<times> 'wr"
  wr_Delete :: "bytes \<Rightarrow> 'wr \<Rightarrow> status \<times> 'wr"
  wr_DeleteRange :: "bytes \<Rightarrow> bytes \<Rightarrow> 'wr \<Rightarrow> status \<times> 'wr"
  wr_Finish :: "'wr \<Rightarrow> 'fs \<Rightarrow> status \<times> ext_file_info \<times> 'wr \<times> 'fs"
  wr_FileSize :: "'wr \<Rightarrow> u64"
  rd_Open :: "options \<Rightarrow> options \<Rightarrow> bytes \<Rightarrow> 'fs \<Rightarrow> status \<times> 'rd"
  rd_NewIterator :: "read_options \<Rightarrow> 'rd \<Rightarrow> 'it option"
  rd_GetTableProperties :: "'rd \<Rightarrow> table_props option"
  rd_VerifyChecksum :: "read_options \<Rightarrow> 'rd \<Rightarrow> status"

section \<open>Resources\<close>

text \<open>
  \<open>sr_refs\<close> counts the references to the resource of a reader: one for its term while it
  lives, one for each iterator that keeps it. \<open>itr_source\<close> is the reader whose table the
  RocksDB iterator reads.
\<close>

record 'rd sst_reader =
  sr_refs :: nat
  sr_reader :: 'rd

record 'it sst_itr =
  m_Iterator :: "'it option"
  m_ReaderRef :: "addr option"
  itr_source :: addr

datatype sst_event = ReaderDestroyed addr | IteratorDeleted addr addr

record ('wr, 'rd, 'it) sst_heap =
  sst_writers :: "addr \<Rightarrow> 'wr option"
  sst_readers :: "addr \<Rightarrow> 'rd sst_reader option"
  sst_itrs :: "addr \<Rightarrow> 'it sst_itr option"
  sst_next :: addr
  sst_events :: "sst_event list"

definition sst_empty :: "('wr, 'rd, 'it) sst_heap" where
  "sst_empty = \<lparr>sst_writers = (\<lambda>_. None), sst_readers = (\<lambda>_. None), sst_itrs = (\<lambda>_. None), sst_next = 0, sst_events = []\<rparr>"

text \<open>The resource of a term, by the kind of resource.\<close>

definition resource_of :: "(addr \<Rightarrow> 'x option) \<Rightarrow> eterm \<Rightarrow> (addr \<times> 'x) option" where
  "resource_of m t = (case t of ERef a \<Rightarrow> map_option (Pair a) (m a) | _ \<Rightarrow> None)"

text \<open>\<open>enif_keep_resource\<close> and \<open>enif_release_resource\<close> of a reader; the last release runs the destructor.\<close>

definition keep_reader :: "addr \<Rightarrow> ('wr, 'rd, 'it) sst_heap \<Rightarrow> ('wr, 'rd, 'it) sst_heap" where
  "keep_reader r H =
     (case sst_readers H r of
        None \<Rightarrow> H
      | Some rd \<Rightarrow> H\<lparr>sst_readers := (sst_readers H)(r \<mapsto> rd\<lparr>sr_refs := sr_refs rd + 1\<rparr>)\<rparr>)"

definition release_reader :: "addr \<Rightarrow> ('wr, 'rd, 'it) sst_heap \<Rightarrow> ('wr, 'rd, 'it) sst_heap" where
  "release_reader r H =
     (case sst_readers H r of
        None \<Rightarrow> H
      | Some rd \<Rightarrow>
          if sr_refs rd \<le> 1
          then H\<lparr>sst_readers := (sst_readers H)(r := None), sst_events := sst_events H @ [ReaderDestroyed r]\<rparr>
          else H\<lparr>sst_readers := (sst_readers H)(r \<mapsto> rd\<lparr>sr_refs := sr_refs rd - 1\<rparr>)\<rparr>)"

text \<open>\<open>delete m_Iterator; m_Iterator = nullptr;\<close>\<close>

definition delete_iterator :: "addr \<Rightarrow> ('wr, 'rd, 'it) sst_heap \<Rightarrow> ('wr, 'rd, 'it) sst_heap" where
  "delete_iterator i H =
     (case sst_itrs H i of
        Some it \<Rightarrow>
          (case m_Iterator it of
             None \<Rightarrow> H
           | Some _ \<Rightarrow> H\<lparr>sst_itrs := (sst_itrs H)(i \<mapsto> it\<lparr>m_Iterator := None\<rparr>),
                          sst_events := sst_events H @ [IteratorDeleted i (itr_source it)]\<rparr>)
      | None \<Rightarrow> H)"

text \<open>
  The cleanup callbacks, when a term is collected. The destructor of an iterator deletes
  the RocksDB iterator and leaves the reference to the reader.
\<close>

definition SstFileWriterResourceCleanup :: "addr \<Rightarrow> ('wr, 'rd, 'it) sst_heap \<Rightarrow> ('wr, 'rd, 'it) sst_heap" where
  "SstFileWriterResourceCleanup a H = H\<lparr>sst_writers := (sst_writers H)(a := None)\<rparr>"

definition SstFileReaderItrResourceCleanup :: "addr \<Rightarrow> ('wr, 'rd, 'it) sst_heap \<Rightarrow> ('wr, 'rd, 'it) sst_heap" where
  "SstFileReaderItrResourceCleanup i H =
     (let H1 = delete_iterator i H in H1\<lparr>sst_itrs := (sst_itrs H1)(i := None)\<rparr>)"

section \<open>Paths and options\<close>

text \<open>\<open>enif_inspect_iolist_as_binary\<close>: bytes, binaries and nested lists, with a list or a binary as the last tail.\<close>

fun iolist :: "eterm \<Rightarrow> bytes option" where
  "iolist (EBin b) = Some b"
| "iolist ENil = Some []"
| "iolist (ECons h t) =
     (case (case h of EInt i \<Rightarrow> if 0 \<le> i \<and> i < 256 then Some [word_of_int i] else None | _ \<Rightarrow> iolist h) of
        None \<Rightarrow> None
      | Some b \<Rightarrow> (case iolist t of None \<Rightarrow> None | Some bs \<Rightarrow> Some (b @ bs)))"
| "iolist _ = None"

definition get_file_path :: "eterm \<Rightarrow> bytes option" where
  "get_file_path t = (case enif_inspect_binary t of Some b \<Rightarrow> Some b | None \<Rightarrow> iolist t)"

text \<open>
  The option loop of both \<open>Open\<close> functions: the column family parser is called only for an
  option that the database parser does not answer with \<open>ok\<close>.
\<close>

fun sst_options ::
    "'n rocks_shared \<Rightarrow> compression_type list \<Rightarrow> eterm list \<Rightarrow> options \<times> options \<times> 'n shared_heap \<Rightarrow>
       (options \<times> options \<times> 'n shared_heap) outcome" where
  "sst_options R supported [] acc = Ok acc"
| "sst_options R supported (head # tail) acc =
     (case acc of (db_opts, cf_opts, S) \<Rightarrow>
        bind_outcome (parse_db_option R head (db_opts, S)) (\<lambda>(r, db1, S1).
          if r \<noteq> e_ok
          then bind_outcome (parse_cf_option supported S1 head cf_opts) (\<lambda>(r1, cf1). sst_options R supported tail (db1, cf1, S1))
          else sst_options R supported tail (db1, cf_opts, S1)))"

definition sst_options_of ::
    "'n rocks_shared \<Rightarrow> compression_type list \<Rightarrow> 'n shared_heap \<Rightarrow> eterm \<Rightarrow> (options \<times> options \<times> 'n shared_heap) outcome" where
  "sst_options_of R supported S t = sst_options R supported (list_cells t) (\<lambda>_. None, \<lambda>_. None, S)"

section \<open>Writers\<close>

type_synonym ('wr, 'rd, 'it, 'fs, 'n) sst_state = "'fs \<times> 'n shared_heap \<times> ('wr, 'rd, 'it) sst_heap"

definition SstFileWriterOpen ::
    "'n rocks_shared \<Rightarrow> compression_type list \<Rightarrow> ('wr, 'rd, 'it, 'fs) rocks_sst \<Rightarrow> ('wr, 'rd, 'it, 'fs, 'n) sst_state \<Rightarrow>
       eterm list \<Rightarrow> nif_result \<times> ('wr, 'rd, 'it, 'fs, 'n) sst_state" where
  "SstFileWriterOpen R supported Q s argv =
     (case s of (fs, S, H) \<Rightarrow>
        (case sst_options_of R supported S (argv ! 0) of
           Ok (db_opts, cf_opts, S1) \<Rightarrow>
             (case get_file_path (argv ! 1) of
                None \<Rightarrow> (Failed, fs, S1, H)
              | Some path \<Rightarrow>
                  (case wr_Open Q db_opts cf_opts path fs of
                     (st, wr, fs1) \<Rightarrow>
                       if \<not> status_ok st then (Ok (error_tuple (EAtom ''error'') st), fs1, S1, H)
                       else (Ok (ok_tuple (ERef (sst_next H))), fs1, S1,
                             H\<lparr>sst_writers := (sst_writers H)(sst_next H \<mapsto> wr), sst_next := sst_next H + 1\<rparr>)))
         | Failed \<Rightarrow> (Failed, s) | Thrown \<Rightarrow> (Thrown, s) | Undef \<Rightarrow> (Undef, s)))"

text \<open>A NIF on a writer: \<open>call\<close> is \<open>None\<close> where it answers \<open>badarg\<close>.\<close>

definition on_writer ::
    "('wr, 'rd, 'it) sst_heap \<Rightarrow> eterm \<Rightarrow> ('wr \<Rightarrow> (status \<times> 'wr) option) \<Rightarrow> nif_result \<times> ('wr, 'rd, 'it) sst_heap" where
  "on_writer H t call =
     (case resource_of (sst_writers H) t of
        None \<Rightarrow> (Failed, H)
      | Some (a, wr) \<Rightarrow>
          (case call wr of
             None \<Rightarrow> (Failed, H)
           | Some (st, wr1) \<Rightarrow> (Ok (status_result st), H\<lparr>sst_writers := (sst_writers H)(a \<mapsto> wr1)\<rparr>)))"

definition two_binaries :: "eterm \<Rightarrow> eterm \<Rightarrow> (bytes \<Rightarrow> bytes \<Rightarrow> 'r) \<Rightarrow> 'r option" where
  "two_binaries a b f =
     (case (enif_inspect_binary a, enif_inspect_binary b) of (Some x, Some y) \<Rightarrow> Some (f x y) | _ \<Rightarrow> None)"

definition SstFileWriterPut ::
    "('wr, 'rd, 'it, 'fs) rocks_sst \<Rightarrow> ('wr, 'rd, 'it) sst_heap \<Rightarrow> eterm list \<Rightarrow> nif_result \<times> ('wr, 'rd, 'it) sst_heap" where
  "SstFileWriterPut Q H argv = on_writer H (argv ! 0) (\<lambda>wr. two_binaries (argv ! 1) (argv ! 2) (\<lambda>k v. wr_Put Q k v wr))"

definition SstFileWriterPutEntity ::
    "('wr, 'rd, 'it, 'fs) rocks_sst \<Rightarrow> ('wr, 'rd, 'it) sst_heap \<Rightarrow> eterm list \<Rightarrow> nif_result \<times> ('wr, 'rd, 'it) sst_heap" where
  "SstFileWriterPutEntity Q H argv =
     on_writer H (argv ! 0) (\<lambda>wr.
       case enif_inspect_binary (argv ! 1) of
         None \<Rightarrow> None
       | Some key \<Rightarrow> map_option (\<lambda>cols. wr_PutEntity Q key cols wr) (parse_columns (list_cells (argv ! 2))))"

definition SstFileWriterMerge ::
    "('wr, 'rd, 'it, 'fs) rocks_sst \<Rightarrow> ('wr, 'rd, 'it) sst_heap \<Rightarrow> eterm list \<Rightarrow> nif_result \<times> ('wr, 'rd, 'it) sst_heap" where
  "SstFileWriterMerge Q H argv = on_writer H (argv ! 0) (\<lambda>wr. two_binaries (argv ! 1) (argv ! 2) (\<lambda>k v. wr_Merge Q k v wr))"

definition SstFileWriterDelete ::
    "('wr, 'rd, 'it, 'fs) rocks_sst \<Rightarrow> ('wr, 'rd, 'it) sst_heap \<Rightarrow> eterm list \<Rightarrow> nif_result \<times> ('wr, 'rd, 'it) sst_heap" where
  "SstFileWriterDelete Q H argv =
     on_writer H (argv ! 0) (\<lambda>wr. map_option (\<lambda>k. wr_Delete Q k wr) (enif_inspect_binary (argv ! 1)))"

definition SstFileWriterDeleteRange ::
    "('wr, 'rd, 'it, 'fs) rocks_sst \<Rightarrow> ('wr, 'rd, 'it) sst_heap \<Rightarrow> eterm list \<Rightarrow> nif_result \<times> ('wr, 'rd, 'it) sst_heap" where
  "SstFileWriterDeleteRange Q H argv =
     on_writer H (argv ! 0) (\<lambda>wr. two_binaries (argv ! 1) (argv ! 2) (\<lambda>b e. wr_DeleteRange Q b e wr))"

definition file_info_map :: "ext_file_info \<Rightarrow> eterm" where
  "file_info_map i =
     EMap [(EAtom ''file_path'', EBin (fi_file_path i)),
           (EAtom ''smallest_key'', EBin (smallest_key i)),
           (EAtom ''largest_key'', EBin (largest_key i)),
           (EAtom ''smallest_range_del_key'', EBin (smallest_range_del_key i)),
           (EAtom ''largest_range_del_key'', EBin (largest_range_del_key i)),
           (EAtom ''file_size'', EInt (uint (fi_file_size i))),
           (EAtom ''num_entries'', EInt (uint (num_entries i))),
           (EAtom ''num_range_del_entries'', EInt (uint (num_range_del_entries i))),
           (EAtom ''sequence_number'', EInt (uint (sequence_number i)))]"

definition SstFileWriterFinish ::
    "('wr, 'rd, 'it, 'fs) rocks_sst \<Rightarrow> 'fs \<Rightarrow> ('wr, 'rd, 'it) sst_heap \<Rightarrow> eterm list \<Rightarrow>
       nif_result \<times> 'fs \<times> ('wr, 'rd, 'it) sst_heap" where
  "SstFileWriterFinish Q fs H argv =
     (case resource_of (sst_writers H) (argv ! 0) of
        None \<Rightarrow> (Failed, fs, H)
      | Some (a, wr) \<Rightarrow>
          let with_file_info = (1 < length argv \<and> argv ! 1 = EAtom ''with_file_info'')
          in case wr_Finish Q wr fs of
               (st, info, wr1, fs1) \<Rightarrow>
                 (Ok (if \<not> status_ok st then error_tuple (EAtom ''error'') st
                      else if with_file_info then ok_tuple (file_info_map info) else e_ok),
                  fs1, H\<lparr>sst_writers := (sst_writers H)(a \<mapsto> wr1)\<rparr>))"

definition SstFileWriterFileSize ::
    "('wr, 'rd, 'it, 'fs) rocks_sst \<Rightarrow> ('wr, 'rd, 'it) sst_heap \<Rightarrow> eterm list \<Rightarrow> nif_result" where
  "SstFileWriterFileSize Q H argv =
     (case resource_of (sst_writers H) (argv ! 0) of
        None \<Rightarrow> Failed
      | Some (a, wr) \<Rightarrow> Ok (EInt (uint (wr_FileSize Q wr))))"

text \<open>Releasing a writer or a reader leaves everything to the collector.\<close>

definition ReleaseSstFileWriter :: "('wr, 'rd, 'it) sst_heap \<Rightarrow> eterm list \<Rightarrow> nif_result \<times> ('wr, 'rd, 'it) sst_heap" where
  "ReleaseSstFileWriter H argv = (Ok e_ok, H)"

section \<open>Readers\<close>

definition SstFileReaderOpen ::
    "'n rocks_shared \<Rightarrow> compression_type list \<Rightarrow> ('wr, 'rd, 'it, 'fs) rocks_sst \<Rightarrow> ('wr, 'rd, 'it, 'fs, 'n) sst_state \<Rightarrow>
       eterm list \<Rightarrow> nif_result \<times> ('wr, 'rd, 'it, 'fs, 'n) sst_state" where
  "SstFileReaderOpen R supported Q s argv =
     (case s of (fs, S, H) \<Rightarrow>
        (case sst_options_of R supported S (argv ! 0) of
           Ok (db_opts, cf_opts, S1) \<Rightarrow>
             (case get_file_path (argv ! 1) of
                None \<Rightarrow> (Failed, fs, S1, H)
              | Some path \<Rightarrow>
                  (case rd_Open Q db_opts cf_opts path fs of
                     (st, rd) \<Rightarrow>
                       if \<not> status_ok st then (Ok (error_tuple (EAtom ''error'') st), fs, S1, H)
                       else (Ok (ok_tuple (ERef (sst_next H))), fs, S1,
                             H\<lparr>sst_readers := (sst_readers H)(sst_next H \<mapsto> \<lparr>sr_refs = 1, sr_reader = rd\<rparr>),
                               sst_next := sst_next H + 1\<rparr>)))
         | Failed \<Rightarrow> (Failed, s) | Thrown \<Rightarrow> (Thrown, s) | Undef \<Rightarrow> (Undef, s)))"

text \<open>The read options may name a snapshot, so that the heap of the handles is an argument.\<close>

definition SstFileReaderIterator ::
    "('wr, 'rd, 'it, 'fs) rocks_sst \<Rightarrow> ('wr, 'rd, 'it) sst_heap \<Rightarrow> ref_heap \<Rightarrow> eterm list \<Rightarrow>
       (nif_result \<times> ('wr, 'rd, 'it) sst_heap) \<times> ref_heap" where
  "SstFileReaderIterator Q H h argv =
     (case resource_of (sst_readers H) (argv ! 0) of
        None \<Rightarrow> ((Failed, H), h)
      | Some (r, rd) \<Rightarrow>
          (case read_options_of h (argv ! 1) of
             (h1, opts) \<Rightarrow>
               (case rd_NewIterator Q opts (sr_reader rd) of
                  None \<Rightarrow> ((Ok (error_tuple_msg (EAtom ''error'') ''Failed to create iterator''), H), h1)
                | Some it \<Rightarrow>
                    let H1 = keep_reader r H; i = sst_next H1
                    in ((Ok (ok_tuple (ERef i)),
                         H1\<lparr>sst_itrs := (sst_itrs H1)(i \<mapsto> \<lparr>m_Iterator = Some it, m_ReaderRef = Some r, itr_source = r\<rparr>),
                            sst_next := i + 1\<rparr>), h1))))"

definition table_numbers_1 :: "string list" where
  "table_numbers_1 =
     [''num_entries'', ''num_deletions'', ''num_merge_operands'', ''num_range_deletions'', ''data_size'', ''index_size'',
      ''index_partitions'', ''top_level_index_size'', ''filter_size'', ''raw_key_size'', ''raw_value_size'',
      ''num_data_blocks'', ''format_version'', ''fixed_key_len'', ''column_family_id'']"

definition table_strings :: "string list" where
  "table_strings =
     [''column_family_name'', ''filter_policy_name'', ''comparator_name'', ''merge_operator_name'', ''prefix_extractor_name'',
      ''property_collectors_names'', ''compression_name'', ''compression_options'']"

definition table_numbers_2 :: "string list" where
  "table_numbers_2 =
     [''creation_time'', ''oldest_key_time'', ''file_creation_time'', ''slow_compression_estimated_data_size'',
      ''fast_compression_estimated_data_size'', ''external_sst_file_global_seqno_offset'']"

definition table_props_map :: "table_props \<Rightarrow> eterm" where
  "table_props_map p =
     (let num = (\<lambda>n. (EAtom n, EInt (uint (tp_number p n)))); str = (\<lambda>n. (EAtom n, EBin (tp_string p n)))
      in EMap (map num table_numbers_1 @ map str table_strings @ map num table_numbers_2))"

definition SstFileReaderGetTableProperties ::
    "('wr, 'rd, 'it, 'fs) rocks_sst \<Rightarrow> ('wr, 'rd, 'it) sst_heap \<Rightarrow> eterm list \<Rightarrow> nif_result" where
  "SstFileReaderGetTableProperties Q H argv =
     (case resource_of (sst_readers H) (argv ! 0) of
        None \<Rightarrow> Failed
      | Some (r, rd) \<Rightarrow>
          (case rd_GetTableProperties Q (sr_reader rd) of
             None \<Rightarrow> Ok (error_tuple_msg (EAtom ''error'') ''Failed to get table properties'')
           | Some p \<Rightarrow> Ok (ok_tuple (table_props_map p))))"

definition SstFileReaderVerifyChecksum ::
    "('wr, 'rd, 'it, 'fs) rocks_sst \<Rightarrow> ('wr, 'rd, 'it) sst_heap \<Rightarrow> ref_heap \<Rightarrow> eterm list \<Rightarrow> nif_result \<times> ref_heap" where
  "SstFileReaderVerifyChecksum Q H h argv =
     (case resource_of (sst_readers H) (argv ! 0) of
        None \<Rightarrow> (Failed, h)
      | Some (r, rd) \<Rightarrow>
          (case (if 1 < length argv then read_options_of h (argv ! 1) else (h, ReadOptions_init)) of
             (h1, opts) \<Rightarrow> (Ok (status_result (rd_VerifyChecksum Q opts (sr_reader rd))), h1)))"

definition ReleaseSstFileReader :: "('wr, 'rd, 'it) sst_heap \<Rightarrow> eterm list \<Rightarrow> nif_result \<times> ('wr, 'rd, 'it) sst_heap" where
  "ReleaseSstFileReader H argv = (Ok e_ok, H)"

section \<open>Iterators\<close>

text \<open>The move an action asks for; \<open>next\<close> and \<open>prev\<close> need a valid iterator.\<close>

datatype sst_action = BadAction | InvalidFirst | MoveTo itr_move

definition sst_action_of :: "'it rocks_itr \<Rightarrow> 'it \<Rightarrow> eterm \<Rightarrow> sst_action" where
  "sst_action_of I it action =
     (if action = EAtom ''first'' then MoveTo SeekToFirst
      else if action = EAtom ''last'' then MoveTo SeekToLast
      else if action = EAtom ''next'' then (if it_Valid I it then MoveTo Next else InvalidFirst)
      else if action = EAtom ''prev'' then (if it_Valid I it then MoveTo Prev else InvalidFirst)
      else case enif_get_tuple action of
             Some [tag, target] \<Rightarrow>
               (case enif_inspect_binary target of
                  None \<Rightarrow> BadAction
                | Some key \<Rightarrow>
                    if tag = EAtom ''seek'' then MoveTo (Seek key)
                    else if tag = EAtom ''seek_for_prev'' then MoveTo (SeekForPrev key)
                    else BadAction)
           | _ \<Rightarrow> BadAction)"

text \<open>Unlike the iterators of a database these answer the error of RocksDB before the end.\<close>

definition sst_entry :: "'it rocks_itr \<Rightarrow> 'it \<Rightarrow> eterm" where
  "sst_entry I it =
     (if \<not> status_ok (it_status I it) then error_tuple (EAtom ''error'') (it_status I it)
      else if \<not> it_Valid I it then invalid_iterator
      else ETuple [EAtom ''ok'', EBin (it_key I it), EBin (it_value I it)])"

definition SstFileReaderIteratorMove ::
    "'it rocks_itr \<Rightarrow> ('wr, 'rd, 'it) sst_heap \<Rightarrow> eterm list \<Rightarrow> nif_result \<times> ('wr, 'rd, 'it) sst_heap" where
  "SstFileReaderIteratorMove I H argv =
     (case resource_of (sst_itrs H) (argv ! 0) of
        None \<Rightarrow> (Failed, H)
      | Some (i, itr) \<Rightarrow>
          (case m_Iterator itr of
             None \<Rightarrow> (Failed, H)
           | Some it \<Rightarrow>
               (case sst_action_of I it (argv ! 1) of
                  BadAction \<Rightarrow> (Failed, H)
                | InvalidFirst \<Rightarrow> (Ok invalid_iterator, H)
                | MoveTo m \<Rightarrow>
                    let it1 = it_move I (None, None) m it
                    in (Ok (sst_entry I it1), H\<lparr>sst_itrs := (sst_itrs H)(i \<mapsto> itr\<lparr>m_Iterator := Some it1\<rparr>)\<rparr>))))"

text \<open>The reference to the reader is given up before the RocksDB iterator is deleted.\<close>

definition SstFileReaderIteratorClose ::
    "('wr, 'rd, 'it) sst_heap \<Rightarrow> eterm list \<Rightarrow> nif_result \<times> ('wr, 'rd, 'it) sst_heap" where
  "SstFileReaderIteratorClose H argv =
     (case resource_of (sst_itrs H) (argv ! 0) of
        None \<Rightarrow> (Ok e_ok, H)
      | Some (i, itr) \<Rightarrow>
          let H1 = (case m_ReaderRef itr of
                      None \<Rightarrow> H
                    | Some r \<Rightarrow> (release_reader r H)\<lparr>sst_itrs := (sst_itrs H)(i \<mapsto> itr\<lparr>m_ReaderRef := None\<rparr>)\<rparr>)
          in (Ok e_ok, delete_iterator i H1))"

end
