(* ===== verification/Shared_Props.thy ===== *)
theory Shared_Props
  imports Shared_Objects
begin

text \<open>
  Properties of the shared resources: while no release and no collection has run into undefined
  behaviour, an object lives as long as a wrapper or another owner has it, and the calls on
  a handle that are unsafe are those on statistics and limiters that were released by
  hand. Then the tables of the statistics.
\<close>

section \<open>Owners\<close>

text \<open>
  The life of the shared objects. \<open>held p\<close> counts the other owners of object \<open>p\<close>: \<open>Hold\<close> and
  \<open>Unhold\<close> stand for any code that copies the shared pointer of a handle and drops the copy later,
  such as the options of a database. A collection or a release by hand is a step only where it
  ends without undefined behaviour: the collection of a handle that was released by hand,
  which runs its destructor twice, is not a step, so what follows describes the states before such a
  collection. Environments are left out: nothing frees them.
\<close>

inductive shared_step ::
    "'n shared_heap \<times> (nat \<Rightarrow> nat) \<Rightarrow> 'n shared_heap \<times> (nat \<Rightarrow> nat) \<Rightarrow> bool" where
  Create: "k \<noteq> EnvRes \<Longrightarrow> shared_step (S, held) (snd (new_wrapper k x S), held)"
| Hold: "wrapper_ptr S a = Some p \<Longrightarrow> shared_step (S, held) (shared_copy p S, held(p := held p + 1))"
| Unhold: "0 < held p \<Longrightarrow> shared_step (S, held) (shared_reset p S, held(p := held p - 1))"
| Use: "shared_step (S, held) (snd (on_shared S k t bad f), held)"
| ReleaseCopy: "k \<in> {CacheRes, WriteBufferManagerRes, SstFileManagerRes} \<Longrightarrow>
    shared_step (S, held) (snd (release_copy k S argv), held)"
| ReleaseDtor: "k \<in> {StatisticsRes, RateLimiterRes} \<Longrightarrow> release_dtor k S argv = (Ok t, S') \<Longrightarrow>
    shared_step (S, held) (S', held)"
| Collect: "wrapper_cleanup S a = Ok S' \<Longrightarrow> shared_step (S, held) (S', held)"

definition shared_reachable :: "'n shared_heap \<Rightarrow> (nat \<Rightarrow> nat) \<Rightarrow> bool" where
  "shared_reachable S held \<longleftrightarrow> (\<exists>e. shared_step\<^sup>*\<^sup>* (shared_init e, \<lambda>_. 0) (S, held))"

definition owners :: "'n shared_heap \<Rightarrow> nat \<Rightarrow> addr set" where
  "owners S p = {a. wrapper_ptr S a = Some p}"

definition wrappers_ok :: "'n shared_heap \<Rightarrow> bool" where
  "wrappers_ok S \<longleftrightarrow>
     (\<forall>a w. wrappers S a = Some w \<longrightarrow> a < next_wrapper S \<and> wkind w \<noteq> EnvRes \<and>
        (\<not> wlive w \<longrightarrow> wkind w \<in> {StatisticsRes, RateLimiterRes}) \<and>
        (wlive w \<longrightarrow> (\<exists>p < next_native S. wptr w = Some p)))"

definition counts_ok :: "'n shared_heap \<Rightarrow> (nat \<Rightarrow> nat) \<Rightarrow> bool" where
  "counts_ok S held \<longleftrightarrow>
     (\<forall>p. card (owners S p) + held p \<le> use_count S p \<and> (natives S p \<noteq> None \<longleftrightarrow> 0 < use_count S p) \<and>
        (next_native S \<le> p \<longrightarrow> use_count S p = 0))"

lemma wrapper_ptr_upd:
  "wrapper_ptr (S\<lparr>wrappers := (wrappers S)(a := w)\<rparr>) b =
     (if b = a then (case w of Some v \<Rightarrow> if wlive v then wptr v else None | None \<Rightarrow> None) else wrapper_ptr S b)"
  by (simp add: wrapper_ptr_def)

lemma wrapper_ptr_frame [simp]:
  "wrapper_ptr (S\<lparr>natives := n\<rparr>) b = wrapper_ptr S b" "wrapper_ptr (S\<lparr>use_count := c\<rparr>) b = wrapper_ptr S b"
  "wrapper_ptr (S\<lparr>next_native := k\<rparr>) b = wrapper_ptr S b" "wrapper_ptr (S\<lparr>next_wrapper := k\<rparr>) b = wrapper_ptr S b"
  by (simp_all add: wrapper_ptr_def)

lemma wrapper_ptr_shared [simp]:
  "wrapper_ptr (shared_copy p S) b = wrapper_ptr S b" "wrapper_ptr (shared_reset p S) b = wrapper_ptr S b"
  by (simp_all add: shared_copy_def shared_reset_def Let_def)

lemma owners_shared [simp]:
  "owners (shared_copy p S) q = owners S q" "owners (shared_reset p S) q = owners S q"
  by (simp_all add: owners_def)

lemma wrappers_ok_live:
  "wrappers_ok S \<Longrightarrow> wrappers S a = Some w \<Longrightarrow> wkind w \<notin> {StatisticsRes, RateLimiterRes} \<Longrightarrow> wlive w"
  by (fastforce simp: wrappers_ok_def)

lemma finite_owners: "wrappers_ok S \<Longrightarrow> finite (owners S p)"
  by (rule finite_subset [of _ "{..<next_wrapper S}"])
    (auto simp: owners_def wrapper_ptr_def wrappers_ok_def split: option.splits if_splits)

text \<open>One owner less keeps the counts, when it was counted.\<close>

lemma counts_ok_reset:
  assumes "counts_ok S held" "card (owners S p) + h \<le> use_count S p - 1"
    and "\<And>q. q \<noteq> p \<Longrightarrow> held' q = held q" "held' p = h"
  shows "counts_ok (shared_reset p S) held'"
  using assms by (auto simp: counts_ok_def shared_reset_def Let_def owners_def)

definition shared_ok :: "'n shared_heap \<times> (nat \<Rightarrow> nat) \<Rightarrow> bool" where
  "shared_ok c \<longleftrightarrow> wrappers_ok (fst c) \<and> counts_ok (fst c) (snd c)"

lemma shared_ok_init: "shared_ok (shared_init e, \<lambda>_. 0)"
  by (auto simp: shared_ok_def wrappers_ok_def counts_ok_def shared_init_def owners_def wrapper_ptr_def)

lemma wrappers_ok_shared [simp]:
  "wrappers_ok (shared_copy p S) = wrappers_ok S" "wrappers_ok (shared_reset p S) = wrappers_ok S"
  by (simp_all add: wrappers_ok_def shared_copy_def shared_reset_def Let_def)

lemma shared_ok_create:
  assumes "shared_ok (S, held)" "k \<noteq> EnvRes"
  shows "shared_ok (snd (new_wrapper k x S), held)"
proof -
  let ?S = "snd (new_wrapper k x S)"
  let ?p = "next_native S" and ?a = "next_wrapper S"
  have S: "?S = S\<lparr>natives := (natives S)(?p \<mapsto> x), use_count := (use_count S)(?p := 1), next_native := ?p + 1,
      wrappers := (wrappers S)(?a \<mapsto> \<lparr>wkind = k, wptr = Some ?p, wlive = True\<rparr>), next_wrapper := ?a + 1\<rparr>"
    by (simp add: new_wrapper_def make_shared_def create_wrapper_def)
  have old: "wrappers_ok S" "counts_ok S held"
    using assms(1) by (simp_all add: shared_ok_def)
  have fresh: "owners S ?p = {}"
    using old(1) by (force simp: wrappers_ok_def owners_def wrapper_ptr_def split: option.splits if_splits)
  have none: "wrapper_ptr S ?a = None"
    using old(1) by (force simp: wrappers_ok_def wrapper_ptr_def split: option.splits)
  have own: "owners ?S q = (if q = ?p then {?a} else owners S q)" for q
    using fresh none by (auto simp: S owners_def wrapper_ptr_def split: if_splits)
  have "held ?p = 0"
    using old(2) by (auto simp: counts_ok_def dest: spec [of _ ?p])
  then have "counts_ok ?S held"
    using old(2) by (auto simp: counts_ok_def own) (auto simp: S)
  moreover have "wrappers_ok ?S"
    using old(1) assms(2) by (fastforce simp: S wrappers_ok_def)
  ultimately show ?thesis
    by (simp add: shared_ok_def)
qed

lemma shared_ok_dtor:
  assumes "shared_ok (S, held)" "wrappers S a = Some w" "wlive w"
    and "v = None \<or> (\<exists>u. v = Some u \<and> wkind u = wkind w \<and> wkind w \<in> {StatisticsRes, RateLimiterRes} \<and> \<not> wlive u)"
  shows "shared_ok ((case wptr w of None \<Rightarrow> S | Some p \<Rightarrow> shared_reset p S)\<lparr>wrappers := (wrappers S)(a := v)\<rparr>, held)"
proof -
  have old: "wrappers_ok S" "counts_ok S held"
    using assms(1) by (simp_all add: shared_ok_def)
  obtain p where p: "wptr w = Some p" "p < next_native S"
    using old(1) assms(2,3) by (auto simp: wrappers_ok_def)
  let ?R = "shared_reset p S" and ?S = "shared_reset p S\<lparr>wrappers := (wrappers S)(a := v)\<rparr>"
  have ptr: "wrapper_ptr ?S b = (if b = a then None else wrapper_ptr S b)" for b
    using assms(4) by (auto simp: wrapper_ptr_def)
  have own: "owners ?S q = owners S q - {a}" for q
    by (auto simp: owners_def ptr split: if_splits)
  have "a \<in> owners S p"
    using assms(2,3) p by (simp add: owners_def wrapper_ptr_def)
  then have card_p: "card (owners S p - {a}) = card (owners S p) - 1" "0 < card (owners S p)"
    using finite_owners [OF old(1), of p] by (auto simp: card_gt_0_iff)
  have card_q: "card (owners S q - {a}) \<le> card (owners S q)" for q
    using finite_owners [OF old(1), of q] by (rule card_mono) auto
  have keep: "card (owners S q) + held q \<le> use_count S q"
    "(natives S q \<noteq> None) = (0 < use_count S q)" "next_native S \<le> q \<longrightarrow> use_count S q = 0" for q
    using old(2) by (simp_all add: counts_ok_def)
  have cnt: "use_count ?S q = (if q = p then use_count S p - 1 else use_count S q)" for q
    by (simp add: shared_reset_def Let_def)
  have le: "card (owners ?S q) + held q \<le> use_count ?S q" for q
  proof (cases "q = p")
    case True
    then show ?thesis
      unfolding own cnt using keep(1) [of p] card_p by simp
  next
    case False
    then show ?thesis
      unfolding own cnt using keep(1) [of q] card_q [of q] by simp
  qed
  have "counts_ok ?S held"
    unfolding counts_ok_def
  proof (intro allI conjI)
    show "card (owners ?S q) + held q \<le> use_count ?S q" for q
      by (rule le)
  qed (use keep in \<open>auto simp: shared_reset_def Let_def\<close>)
  moreover have "wrappers_ok ?S"
    using old(1) assms(2,4) by (fastforce simp: wrappers_ok_def shared_reset_def Let_def)
  ultimately show ?thesis
    by (simp add: shared_ok_def p(1))
qed

lemma shared_ok_copy_reset:
  assumes "shared_ok (S, held)" "0 < use_count S p"
  shows "shared_reset p (shared_copy p S) = S"
  using assms by (cases S) (auto simp: shared_reset_def shared_copy_def Let_def fun_eq_iff)

lemma shared_ok_owner:
  assumes "shared_ok (S, held)" "wrapper_ptr S a = Some p \<or> 0 < held p"
  shows "0 < use_count S p"
proof -
  have "wrapper_ptr S a = Some p \<Longrightarrow> 0 < card (owners S p)"
    using assms(1) finite_owners [of S p] by (auto simp: shared_ok_def card_gt_0_iff owners_def)
  then show ?thesis
    using assms by (fastforce simp: shared_ok_def counts_ok_def dest: spec [of _ p])
qed

lemma wrapper_dtor_ok:
  assumes "shared_ok (S, held)" "wrapper_dtor S a = Ok S'" "wrappers S a = Some w"
    "wkind w \<in> {StatisticsRes, RateLimiterRes}"
  shows "shared_ok (S', held)"
  using assms shared_ok_dtor [OF assms(1,3), of "Some (w\<lparr>wptr := None, wlive := False\<rparr>)"]
  by (auto simp: wrapper_dtor_def split: if_splits)

lemma shared_ok_cleanup:
  assumes "shared_ok (S, held)" "wrapper_cleanup S a = Ok S'"
  shows "shared_ok (S', held)"
proof -
  obtain w where w: "wrappers S a = Some w"
    using assms(2) by (auto simp: wrapper_cleanup_def split: option.splits)
  then have kind: "wkind w \<noteq> EnvRes"
    using assms(1) by (auto simp: shared_ok_def wrappers_ok_def)
  show ?thesis
  proof (cases "wkind w = RateLimiterRes")
    case True
    then have S': "S' = S\<lparr>wrappers := (wrappers S)(a := None)\<rparr>"
      using assms(2) w by (simp add: wrapper_cleanup_def)
    have "owners S' q \<subseteq> owners S q" for q
      by (auto simp: S' owners_def wrapper_ptr_def)
    then have "card (owners S' q) \<le> card (owners S q)" for q
      using finite_owners [of S q] assms(1) by (auto simp: shared_ok_def intro: card_mono)
    then have "counts_ok S' held"
      using assms(1) by (auto simp: shared_ok_def counts_ok_def S' intro: order_trans [OF add_right_mono])
    then show ?thesis
      using assms(1) by (auto simp: shared_ok_def wrappers_ok_def S')
  next
    case False
    then have "wlive w" "S' = (case wptr w of None \<Rightarrow> S | Some p \<Rightarrow> shared_reset p S)\<lparr>wrappers := (wrappers S)(a := None)\<rparr>"
      using assms(2) w kind
      by (auto simp: wrapper_cleanup_def wrapper_dtor_def shared_reset_def Let_def split: if_splits option.splits)
    then show ?thesis
      using shared_ok_dtor [OF assms(1) w, of None] by simp
  qed
qed

lemma on_shared_frame:
  assumes "shared_ok (S, held)"
  shows "shared_ok (snd (on_shared S k t bad f), held)"
proof (cases "snd (on_shared S k t bad f) = S")
  case False
  then obtain p x where "natives S p \<noteq> None" "snd (on_shared S k t bad f) = S\<lparr>natives := (natives S)(p \<mapsto> x)\<rparr>"
    by (auto simp: on_shared_def split: option.splits prod.splits)
  then show ?thesis
    using assms by (auto simp: shared_ok_def wrappers_ok_def counts_ok_def owners_def)
qed (use assms in simp)

lemma retrieve_wrapperE:
  assumes "retrieve_wrapper S k t = Some a"
  obtains w where "wrappers S a = Some w" "wkind w = k"
  using assms by (auto simp: retrieve_wrapper_def split: eterm.splits option.splits if_splits)

text \<open>The NIFs that copy the pointer and reset the copy leave the store as it was.\<close>

lemma release_copy_same:
  assumes ok: "shared_ok (S, held)" and k: "k \<noteq> StatisticsRes" "k \<noteq> RateLimiterRes"
  shows "snd (release_copy k S argv) = S"
proof (cases "retrieve_wrapper S k (argv ! 0)")
  case (Some a)
  then obtain w where w: "wrappers S a = Some w" "wkind w = k"
    by (rule retrieve_wrapperE)
  then have live: "wlive w"
    using ok k wrappers_ok_live [of S a w] by (auto simp: shared_ok_def)
  show ?thesis
  proof (cases "wptr w")
    case (Some p)
    then have "shared_reset p (shared_copy p S) = S"
      using shared_ok_copy_reset [OF ok] shared_ok_owner [OF ok, of a p] w live by (simp add: wrapper_ptr_def)
    then show ?thesis
      by (simp add: release_copy_def \<open>retrieve_wrapper S k (argv ! 0) = Some a\<close> w Some)
  qed (simp add: release_copy_def Some w)
qed (simp add: release_copy_def)

lemma shared_ok_step:
  assumes "shared_step c d" "shared_ok c"
  shows "shared_ok d"
  using assms
proof (induction rule: shared_step.induct)
  case (Hold S a p held)
  then show ?case
    using shared_ok_owner [OF Hold(2), of a p]
    by (auto simp: shared_ok_def counts_ok_def) (auto simp: shared_copy_def)
next
  case (Unhold held p S)
  then have "card (owners S p) + (held p - 1) \<le> use_count S p - 1"
    by (auto simp: shared_ok_def counts_ok_def dest: spec [of _ p])
  then show ?case
    using Unhold counts_ok_reset [of S held p "held p - 1" "held(p := held p - 1)"] by (simp add: shared_ok_def)
next
  case (ReleaseCopy k S held argv)
  then show ?case
    using release_copy_same [OF ReleaseCopy(2), of k argv] by auto
next
  case (ReleaseDtor k S argv t S' held)
  show ?case
  proof (cases "retrieve_wrapper S k (argv ! 0)")
    case None
    then show ?thesis
      using ReleaseDtor by (simp add: release_dtor_def)
  next
    case (Some a)
    then obtain w where w: "wrappers S a = Some w" "wkind w = k"
      by (rule retrieve_wrapperE)
    have "wrapper_dtor S a = Ok S'"
      using ReleaseDtor(2) Some by (simp add: release_dtor_def split: outcome.splits)
    then show ?thesis
      using wrapper_dtor_ok [OF ReleaseDtor(3) _ w(1)] w(2) ReleaseDtor(1) by blast
  qed
next
  case (Create k S held x)
  then show ?case
    by (simp add: shared_ok_create)
next
  case (Use S held k t bad f)
  then show ?case
    by (rule on_shared_frame)
next
  case (Collect S a S' held)
  then show ?case
    using shared_ok_cleanup by blast
qed

interpretation sharing: kept_by_steps shared_step shared_ok
  by unfold_locales (rule shared_ok_step)

lemma shared_reachable_ok: "shared_reachable S held \<Longrightarrow> shared_ok (S, held)"
  using sharing.steps_keep [OF _ shared_ok_init] by (auto simp: shared_reachable_def)

text \<open>
  A shared object lives as long as it is owned: in every state that these steps reach, the
  object of a handle that was not destroyed, and every object another owner holds, exists.
\<close>

theorem shared_objects_live:
  assumes "shared_reachable S held" "wrapper_ptr S a = Some p \<or> 0 < held p"
  shows "natives S p \<noteq> None"
  using shared_ok_owner [OF shared_reachable_ok [OF assms(1)] assms(2)] shared_reachable_ok [OF assms(1)]
  by (auto simp: shared_ok_def counts_ok_def)

text \<open>A cache with another owner whose handle was released and collected.\<close>

definition cache_story :: "nat shared_heap" where
  "cache_story =
     (case wrapper_cleanup (shared_copy 1 (snd (new_wrapper CacheRes 7 (shared_init 0)))) 0 of Ok S \<Rightarrow> S | _ \<Rightarrow> shared_init 0)"

lemma cache_story_reachable: "shared_reachable cache_story ((\<lambda>_. 0)(1 := 1))"
proof -
  let ?S1 = "snd (new_wrapper CacheRes 7 (shared_init 0)) :: nat shared_heap" and ?none = "\<lambda>_ :: nat. 0 :: nat"
  have "shared_step (shared_init 0, ?none) (?S1, ?none)"
    by (rule shared_step.Create) simp
  moreover have "shared_step (?S1, ?none) (shared_copy 1 ?S1, ?none(1 := ?none 1 + 1))"
    by (rule shared_step.Hold [of _ 0]) code_simp
  moreover have "shared_step (shared_copy 1 ?S1, ?none(1 := ?none 1 + 1)) (cache_story, ?none(1 := ?none 1 + 1))"
    unfolding cache_story_def
    by (rule shared_step.Collect [of _ 0])
      (simp add: wrapper_cleanup_def wrapper_dtor_def new_wrapper_def make_shared_def create_wrapper_def shared_init_def
        shared_copy_def)
  ultimately have "shared_step\<^sup>*\<^sup>* (shared_init 0, ?none) (cache_story, ?none(1 := ?none 1 + 1))"
    by (meson converse_rtranclp_into_rtranclp rtranclp.rtrancl_refl)
  then show ?thesis
    by (auto simp: shared_reachable_def)
qed

theorem shared_objects_live_witness: "wrappers cache_story 0 = None \<and> natives cache_story 1 \<noteq> None"
proof
  show "wrappers cache_story 0 = None"
    by code_simp
  show "natives cache_story 1 \<noteq> None"
    by (rule shared_objects_live [OF cache_story_reachable, of 0]) simp
qed

section \<open>Released handles\<close>

lemma on_shared_Undef:
  assumes "shared_reachable S held" "bad \<noteq> Undef" "\<And>x. fst (f x) \<noteq> Undef"
  shows "fst (on_shared S k t bad f) = Undef \<longleftrightarrow> (\<exists>a w. t = ERef a \<and> wrappers S a = Some w \<and> wkind w = k \<and> \<not> wlive w)"
proof (cases "retrieve_wrapper S k t")
  case None
  then show ?thesis
    using assms(2) by (auto simp: on_shared_def retrieve_wrapper_def split: eterm.splits option.splits if_splits)
next
  case (Some a)
  then obtain w where w: "t = ERef a" "wrappers S a = Some w" "wkind w = k"
    by (auto simp: retrieve_wrapper_def split: eterm.splits option.splits if_splits)
  show ?thesis
  proof (cases "wlive w")
    case True
    then obtain p where p: "wrapper_ptr S a = Some p"
      using shared_reachable_ok [OF assms(1)] w by (auto simp: shared_ok_def wrappers_ok_def wrapper_ptr_def)
    then obtain x where "natives S p = Some x"
      using shared_ok_owner [OF shared_reachable_ok [OF assms(1)], of a p] shared_reachable_ok [OF assms(1)]
      by (auto simp: shared_ok_def counts_ok_def)
    then show ?thesis
      using assms(3) [of x] w True p Some by (cases "f x") (auto simp: on_shared_def)
  next
    case False
    then show ?thesis
      using w Some by (auto simp: on_shared_def wrapper_ptr_def)
  qed
qed

text \<open>
  The only unsafe handles: information about a cache is always defined, that about
  statistics exactly when they were not released by hand; releasing open statistics
  makes the handle such a one, since the destructor leaves a null pointer that the other
  calls follow.
\<close>

theorem released_statistics_unsafe:
  assumes "shared_reachable S held"
  shows "fst (CacheInfo R S [t]) \<noteq> Undef \<and>
    (fst (StatisticsInfo R S [t]) = Undef \<longleftrightarrow>
      (\<exists>a w. t = ERef a \<and> wrappers S a = Some w \<and> wkind w = StatisticsRes \<and> \<not> wlive w)) \<and>
    (\<forall>S'. ReleaseStatistics S [t] = (Ok e_ok, S') \<longrightarrow> retrieve_wrapper S StatisticsRes t \<noteq> None \<longrightarrow>
      fst (StatisticsInfo R S' [t]) = Undef)"
proof (intro conjI allI impI)
  have "fst (CacheInfo R S [t]) = Undef \<longleftrightarrow>
      (\<exists>a w. t = ERef a \<and> wrappers S a = Some w \<and> wkind w = CacheRes \<and> \<not> wlive w)"
    unfolding CacheInfo_def by (subst on_shared_Undef [OF assms]) (simp_all add: info_result_def)
  then show "fst (CacheInfo R S [t]) \<noteq> Undef"
    using shared_reachable_ok [OF assms] wrappers_ok_live [of S] by (auto simp: shared_ok_def)
  show "fst (StatisticsInfo R S [t]) = Undef \<longleftrightarrow>
      (\<exists>a w. t = ERef a \<and> wrappers S a = Some w \<and> wkind w = StatisticsRes \<and> \<not> wlive w)"
    unfolding StatisticsInfo_def by (subst on_shared_Undef [OF assms]) simp_all
next
  fix S'
  assume rel: "ReleaseStatistics S [t] = (Ok e_ok, S')" and "retrieve_wrapper S StatisticsRes t \<noteq> None"
  then obtain a w where w: "t = ERef a" "wrappers S a = Some w" "wkind w = StatisticsRes"
    by (auto simp: retrieve_wrapper_def split: eterm.splits option.splits if_splits)
  have "wrapper_dtor S a = Ok S'"
    using rel w by (simp add: ReleaseStatistics_def release_dtor_def retrieve_wrapper_def split: outcome.splits)
  then have "wrappers S' a = Some (w\<lparr>wptr := None, wlive := False\<rparr>)"
    using w by (auto simp: wrapper_dtor_def split: if_splits)
  then show "fst (StatisticsInfo R S' [t]) = Undef"
    using w by (simp add: StatisticsInfo_def on_shared_def retrieve_wrapper_def wrapper_ptr_def)
qed

definition stats_story :: "nat shared_heap" where
  "stats_story = snd (new_wrapper StatisticsRes 7 (shared_init 0))"

lemma stats_story_reachable: "shared_reachable stats_story (\<lambda>_. 0)"
proof -
  have "shared_step (shared_init 0, \<lambda>_. 0) (stats_story, \<lambda>_. 0)"
    unfolding stats_story_def by (rule shared_step.Create) simp
  then show ?thesis
    by (auto simp: shared_reachable_def)
qed

lemma stats_story_wrapper:
  "wrappers stats_story 0 = Some \<lparr>wkind = StatisticsRes, wptr = Some 1, wlive = True\<rparr>" "natives stats_story 1 = Some 7"
  by (simp_all add: stats_story_def new_wrapper_def make_shared_def create_wrapper_def shared_init_def)

definition plain_shared :: "nat rocks_shared" where
  "plain_shared =
     \<lparr>NewLRUCache = unat, HyperClockCache = unat, cache_GetUsage = (\<lambda>_. 0), cache_GetPinnedUsage = (\<lambda>_. 0),
      cache_GetCapacity = of_nat, cache_HasStrictCapacityLimit = (\<lambda>_. False), cache_SetCapacity = (\<lambda>n _. unat n),
      cache_SetStrictCapacityLimit = (\<lambda>_ c. c), NewGenericRateLimiter = (\<lambda>_ _ _ _. 0),
      NewWriteBufferManager_rocks = (\<lambda>n _. unat n), wbm_memory_usage = (\<lambda>_. 0), wbm_mutable_memtable_memory_usage = (\<lambda>_. 0),
      wbm_buffer_size = of_nat, wbm_enabled = (\<lambda>n. 0 < n), NewSstFileManager_rocks = (\<lambda>_ _ _ _. (ok_status, 0)),
      sfm_SetMaxAllowedSpaceUsage = (\<lambda>_ m. m), sfm_SetCompactionBufferSize = (\<lambda>_ m. m),
      sfm_SetDeleteRateBytesPerSecond = (\<lambda>_ m. m), sfm_SetMaxTrashDBRatio = (\<lambda>_ m. m), sfm_GetTotalSize = (\<lambda>_. 0),
      sfm_GetDeleteRateBytesPerSecond = (\<lambda>_. 0), sfm_GetMaxTrashDBRatio = (\<lambda>_. 0), sfm_GetTotalTrashSize = (\<lambda>_. 0),
      sfm_IsMaxAllowedSpaceReached = (\<lambda>_. False), sfm_IsMaxAllowedSpaceReachedIncludingCompactions = (\<lambda>_. False),
      sfm_GetTrackedFiles = (\<lambda>_. []), CreateDBStatistics = 0, st_set_stats_level = (\<lambda>l _. l), st_get_stats_level = id,
      st_getTickerCount = (\<lambda>_ _. 0), st_histogramData = (\<lambda>_ _. \<lparr>h_doubles = [], h_count = 0, h_sum = 0\<rparr>),
      env_NewMemEnv = 0, env_CreateDir = (\<lambda>_ e. e), env_SetBackgroundThreads = (\<lambda>_ _ e. e)\<rparr>"

theorem released_statistics_unsafe_witness:
  "fst (StatisticsInfo plain_shared (snd (ReleaseStatistics stats_story [ERef 0])) [ERef 0]) = Undef"
proof -
  have "ReleaseStatistics stats_story [ERef 0] = (Ok e_ok, snd (ReleaseStatistics stats_story [ERef 0]))"
    "retrieve_wrapper stats_story StatisticsRes (ERef 0) \<noteq> None"
    by (simp_all add: ReleaseStatistics_def release_dtor_def retrieve_wrapper_def wrapper_dtor_def stats_story_wrapper)
  then show ?thesis
    using released_statistics_unsafe [OF stats_story_reachable, of plain_shared "ERef 0"] by blast
qed

section \<open>Tables\<close>

text \<open>
  \<open>SetStatsLevel\<close> and \<open>StatisticsInfo\<close>: a level is read back as it was set, but for
  \<open>stats_except_tickers\<close>, which RocksDB does not distinguish from \<open>stats_disable_all\<close>.
\<close>

theorem stats_level_roundtrip:
  assumes "\<And>l s. st_get_stats_level R (st_set_stats_level R l s) = l"
    and "wrappers S a = Some w" "wkind w = StatisticsRes" "wrapper_ptr S a = Some p" "natives S p = Some s"
    and "StatsLevelAtomToEnum x = Some l"
  shows "fst (StatisticsInfo R (snd (SetStatsLevel R S [ERef a, x])) [ERef a]) =
    Ok (enif_make_list [ETuple [EAtom ''stats_level'',
      if x = EAtom ''stats_except_tickers'' then EAtom ''stats_disable_all'' else x]])"
proof -
  have retrieve: "retrieve_wrapper S StatisticsRes (ERef a) = Some a"
    using assms(2,3) by (simp add: retrieve_wrapper_def)
  have "snd (SetStatsLevel R S [ERef a, x]) = S\<lparr>natives := (natives S)(p \<mapsto> st_set_stats_level R l s)\<rparr>"
    by (simp add: SetStatsLevel_def on_shared_def retrieve assms(4-6))
  then have "fst (StatisticsInfo R (snd (SetStatsLevel R S [ERef a, x])) [ERef a]) =
      Ok (ECons (ETuple [EAtom ''stats_level'', StatsLevelEnumToAtom l]) (enif_make_list []))"
    using assms(2,3) by (simp add: StatisticsInfo_def on_shared_def retrieve_wrapper_def assms(1,4))
  moreover have "StatsLevelEnumToAtom l = (if x = EAtom ''stats_except_tickers'' then EAtom ''stats_disable_all'' else x)"
    using assms(6)
    by (simp add: StatsLevelAtomToEnum_def StatsLevelEnumToAtom_def kDisableAll_def kExceptTickers_def
        kExceptHistogramOrTimers_def kExceptTimers_def kExceptDetailedTimers_def kExceptTimeForMutex_def kAll_def
        split: if_splits)
  ultimately show ?thesis
    by (simp add: enif_make_list_def)
qed

theorem stats_level_roundtrip_witness:
  "fst (StatisticsInfo plain_shared (snd (SetStatsLevel plain_shared stats_story [ERef 0, EAtom ''stats_all''])) [ERef 0]) =
     Ok (enif_make_list [ETuple [EAtom ''stats_level'', EAtom ''stats_all'']])"
proof -
  have level: "st_get_stats_level plain_shared (st_set_stats_level plain_shared l s) = l" for l s
    by (simp add: plain_shared_def)
  have ptr: "wrapper_ptr stats_story 0 = Some 1"
    by (simp add: wrapper_ptr_def stats_story_wrapper(1))
  show ?thesis
    using stats_level_roundtrip [OF level stats_story_wrapper(1) _ ptr stats_story_wrapper(2), of "EAtom ''stats_all''" kAll]
    by (simp add: StatsLevelAtomToEnum_def)
qed

end
