(* ===== verification/Option_Props.thy ===== *)
theory Option_Props
  imports Db_Options Shared_Props
begin

text \<open>
  What the option parsers guarantee: a database option sets the field of its own name, and the
  last well-formed occurrence of an option counts.
\<close>

section \<open>Getters\<close>

text \<open>A getter reads no more of the shared objects than their wrappers.\<close>

definition getter_local :: "'n getter \<Rightarrow> bool" where
  "getter_local get \<longleftrightarrow> (\<forall>S S' val. wrappers S = wrappers S' \<longrightarrow> get S val = get S' val)"

lemma shared_of_local: "wrappers S = wrappers S' \<Longrightarrow> shared_of S = shared_of S'"
proof (intro ext)
  fix k t
  assume w: "wrappers S = wrappers S'"
  have "retrieve_wrapper S k t = retrieve_wrapper S' k t" "wrapper_ptr S = wrapper_ptr S'"
    by (cases t) (simp_all add: retrieve_wrapper_def wrapper_ptr_def w fun_eq_iff)
  then show "shared_of S k t = shared_of S' k t"
    by (simp add: shared_of_def split: option.split)
qed

lemma local_getters:
  "getter_local to_bool" "getter_local to_int" "getter_local to_uint" "getter_local uint_to_size" "getter_local to_uint64"
  "getter_local to_path" "getter_local (to_enum es)" "getter_local (to_shared k)"
proof -
  show "getter_local (to_shared k)"
    by (auto simp: getter_local_def to_shared_def outcome_simps) (metis shared_of_local)
qed (simp_all add: getter_local_def to_bool_def to_int_def to_uint_def uint_to_size_def to_uint64_def to_path_def to_enum_def)

lemma db_rows_local:
  assumes "map_of (db_option_table :: 'n option_table) a = Some (f, get)"
  shows "getter_local get"
proof -
  have "list_all (\<lambda>row. getter_local (snd (snd row))) (db_option_table :: 'n option_table)"
    by (simp add: db_option_table_def local_getters)
  then show ?thesis
    using map_of_SomeD [OF assms] by (fastforce simp: list_all_iff)
qed

lemma option_cases:
  obtains name val where "item = ETuple [name, val]" | "\<nexists>name val. item = ETuple [name, val]"
  by blast

lemma no_option:
  "\<nexists>name val. item = ETuple [name, val] \<Longrightarrow>
     (case enif_get_tuple item of Some [name, val] \<Rightarrow> f name val | _ \<Rightarrow> d) = d"
  by (cases "enif_get_tuple item") (auto split: list.split)

section \<open>The last occurrence counts\<close>

text \<open>The values a list gives for an option: those of its occurrences that can be converted.\<close>

definition given :: "string \<Rightarrow> 'n getter \<Rightarrow> 'n shared_heap \<Rightarrow> eterm \<Rightarrow> opt_val list" where
  "given name get S item =
     (case enif_get_tuple item of
        Some [n, val] \<Rightarrow>
          if n = EAtom name then (case get S val of Ok (Some v) \<Rightarrow> [v] | _ \<Rightarrow> []) else []
      | _ \<Rightarrow> [])"

definition last_value :: "'a list \<Rightarrow> 'a option \<Rightarrow> 'a option" where
  "last_value vs old = (if vs = [] then old else Some (last vs))"

lemma last_value_simps [simp]:
  "last_value [] d = d" "last_value [v] d = Some v" "last_value (vs @ ws) d = last_value ws (last_value vs d)"
  by (simp_all add: last_value_def)

text \<open>One row: an option changes its own field and no other.\<close>

lemma assign_option_field:
  assumes "assign_option table S n val opts = Ok (e_ok, opts1)" "map_of table name = Some (field, get)"
    and "distinct (map (fst \<circ> snd) table) \<or> (\<forall>row \<in> set table. fst (snd row) = field \<longrightarrow> fst row = name)"
  shows "opts1 field = last_value (given name get S (ETuple [n, val])) (opts field)"
proof -
  have own: "a = name" if "map_of table a = Some (field, h)" for a h
  proof -
    have rows: "(name, field, get) \<in> set table" "(a, field, h) \<in> set table"
      using assms(2) that by (auto dest: map_of_SomeD)
    from assms(3) show ?thesis
    proof
      assume "distinct (map (fst \<circ> snd) table)"
      then have "inj_on (fst \<circ> snd) (set table)"
        by (simp only: distinct_map)
      from inj_onD [OF this _ rows] show ?thesis
        by simp
    qed (use rows in force)
  qed
  show ?thesis
  proof (cases "n = EAtom name")
    case True
    then show ?thesis
      using assms(1,2) by (auto simp: assign_option_def given_def e_ok_def split: outcome.splits option.splits)
  next
    case False
    have "opts1 field = opts field"
    proof (cases "case n of EAtom a \<Rightarrow> map_of table a | _ \<Rightarrow> None")
      case (Some fg)
      then obtain a where a: "n = EAtom a" "map_of table a = Some (fst fg, snd fg)"
        by (cases n) auto
      then have "fst fg \<noteq> field"
        using own False by blast
      then show ?thesis
        using assms(1) Some a by (auto simp: assign_option_def e_ok_def split: outcome.splits option.splits prod.splits)
    qed (use assms(1) in \<open>simp add: assign_option_def\<close>)
    then show ?thesis
      using False by (simp add: given_def)
  qed
qed

lemma db_fields_distinct: "distinct (map (fst \<circ> snd) (db_option_table :: 'n option_table))"
  by (simp add: db_option_table_def)

lemma db_other_fields:
  "map_of db_option_table name = Some (field, get) \<Longrightarrow> field \<noteq> ''env'' \<and> field \<noteq> ''db_paths''"
proof -
  have "list_all (\<lambda>row. fst (snd row) \<noteq> ''env'' \<and> fst (snd row) \<noteq> ''db_paths'') (db_option_table :: 'n option_table)"
    by (simp add: db_option_table_def)
  then show "map_of db_option_table name = Some (field, get) \<Longrightarrow> field \<noteq> ''env'' \<and> field \<noteq> ''db_paths''"
    by (fastforce simp: list_all_iff dest: map_of_SomeD)
qed

text \<open>The database options: the fields outside the rows that a composite option assigns.\<close>

lemma db_getters_total:
  assumes "map_of (db_option_table :: 'n option_table) a = Some (f, get)"
  shows "get S t \<noteq> Failed"
proof -
  have fail: "to_bool S t \<noteq> Failed" "to_int S t \<noteq> Failed" "to_uint S t \<noteq> Failed" "uint_to_size S t \<noteq> Failed"
    "to_uint64 S t \<noteq> Failed" "to_path S t \<noteq> Failed" "to_enum es S t \<noteq> Failed" "to_shared k S t \<noteq> Failed"
    for S :: "'n shared_heap" and t es k
    by (auto simp: to_bool_def to_int_def to_uint_def uint_to_size_def to_uint64_def to_path_def to_enum_def to_shared_def
        shared_of_def split: option.split)
  have "list_all (\<lambda>row. \<forall>S t. snd (snd row) S t \<noteq> Failed) (db_option_table :: 'n option_table)"
    by (simp add: db_option_table_def fail)
  then show ?thesis
    using map_of_SomeD [OF assms] by (fastforce simp: list_all_iff)
qed

lemma assign_db_ok:
  assumes "assign_option db_option_table S n val opts = Ok (r, opts1)"
  shows "r = e_ok"
proof (cases "case n of EAtom a \<Rightarrow> map_of (db_option_table :: 'a option_table) a | _ \<Rightarrow> None")
  case (Some fg)
  obtain f get where fg: "fg = (f, get)"
    by (cases fg)
  then obtain a where "map_of (db_option_table :: 'a option_table) a = Some (f, get)"
    using Some by (cases n) auto
  then have "get S val \<noteq> Failed"
    by (rule db_getters_total)
  then show ?thesis
    using assms Some fg by (auto simp: assign_option_def split: outcome.splits)
qed (use assms in \<open>simp add: assign_option_def\<close>)

definition composite :: "string list" where
  "composite = [''env'', ''total_threads'', ''db_paths'', ''in_memory'']"

lemma composite_names: "name \<in> set composite \<Longrightarrow> map_of (db_option_table :: 'n option_table) name = None"
proof -
  have "list_all (\<lambda>name. name \<notin> set (map fst (db_option_table :: 'n option_table))) composite"
    by (simp add: db_option_table_def composite_def)
  then show "name \<in> set composite \<Longrightarrow> map_of (db_option_table :: 'n option_table) name = None"
    by (auto simp: list_all_iff map_of_eq_None_iff)
qed

lemma push_paths_frame: "f \<noteq> ''db_paths'' \<Longrightarrow> push_paths t opts f = opts f"
  by (simp add: push_paths_def Let_def)

lemma composite_step:
  assumes "n \<in> EAtom ` set composite" "parse_db_option R (ETuple [n, val]) (opts, S) = Ok (r, opts1, S1)"
    and "f \<notin> {''env'', ''db_paths'', ''create_if_missing'', ''max_background_jobs''}"
  shows "r = e_ok \<and> wrappers S1 = wrappers S \<and> opts1 f = opts f"
proof -
  from assms(1) consider "n = EAtom ''env''" | "n = EAtom ''total_threads''" | "n = EAtom ''db_paths''" | "n = EAtom ''in_memory''"
    by (auto simp: composite_def)
  then show ?thesis
    using assms(2,3)
    by cases (auto simp: parse_db_option_def outcome_simps use_mem_env_def make_shared_def IncreaseParallelism_def
        push_paths_frame split: if_splits option.splits)
qed

lemma db_row_step:
  assumes "n \<notin> EAtom ` set composite"
  shows "parse_db_option R (ETuple [n, val]) (opts, S) =
    bind_outcome (assign_option db_option_table S n val opts) (\<lambda>(r, opts1). Ok (r, opts1, S))"
proof -
  have "n \<noteq> EAtom ''env''" "n \<noteq> EAtom ''total_threads''" "n \<noteq> EAtom ''db_paths''" "n \<noteq> EAtom ''in_memory''"
    using assms by (auto simp: composite_def)
  then show ?thesis
    by (simp add: parse_db_option_def)
qed

lemma row_not_composite:
  fixes get :: "'n getter"
  assumes "map_of db_option_table name = Some (field, get)" "n \<in> EAtom ` set composite"
  shows "n \<noteq> EAtom name"
proof
  assume "n = EAtom name"
  then have "name \<in> set composite"
    using assms(2) by blast
  then have "map_of (db_option_table :: 'n option_table) name = None"
    by (rule composite_names)
  with assms(1) show False
    by simp
qed

lemma db_step_field:
  fixes R :: "'n rocks_shared"
  assumes row: "map_of db_option_table name = Some (field, get)" "field \<notin> {''create_if_missing'', ''max_background_jobs''}"
    and step: "parse_db_option R item (opts, S) = Ok (r, opts1, S1)"
  shows "r = e_ok \<and> wrappers S1 = wrappers S \<and> opts1 field = last_value (given name get S item) (opts field)"
proof (cases item rule: option_cases)
  case (1 n val)
  note step1 = step [unfolded 1]
  show ?thesis
  proof (cases "n \<in> EAtom ` set composite")
    case True
    have "given name get S item = []"
      using row_not_composite [OF row(1) True] by (simp add: 1 given_def)
    moreover have "field \<notin> {''env'', ''db_paths'', ''create_if_missing'', ''max_background_jobs''}"
      using db_other_fields [OF row(1)] row(2) by blast
    ultimately show ?thesis
      using composite_step [OF True step1] by simp
  next
    case False
    obtain o1 where o1: "assign_option db_option_table S n val opts = Ok (r, o1)" "opts1 = o1" "S1 = S"
      using step1 unfolding db_row_step [OF False]
      by (cases "assign_option db_option_table S n val opts") auto
    have r: "r = e_ok"
      using o1(1) by (rule assign_db_ok)
    have "o1 field = last_value (given name get S (ETuple [n, val])) (opts field)"
      using o1(1) [unfolded r] row(1) disjI1 [OF db_fields_distinct] by (rule assign_option_field)
    then show ?thesis
      by (simp only: r o1(2,3) 1)
  qed
next
  case 2
  then have "given name get S item = []" "parse_db_option R item (opts, S) = Ok (e_ok, opts, S)"
    by (simp_all add: parse_db_option_def given_def no_option)
  then show ?thesis
    using step by simp
qed

lemma given_local:
  fixes get :: "'n getter" and S S' :: "'n shared_heap"
  assumes "map_of db_option_table name = Some (field, get)" "wrappers S' = wrappers S"
  shows "given name get S' = given name get S"
proof -
  have "get S' = get S"
    using db_rows_local [OF assms(1)] assms(2) unfolding getter_local_def by blast
  then show ?thesis
    by (simp only: given_def [abs_def])
qed

lemma db_fold_last:
  fixes R :: "'n rocks_shared" and S :: "'n shared_heap"
  assumes row: "map_of db_option_table name = Some (field, get)" "field \<notin> {''create_if_missing'', ''max_background_jobs''}"
    and "fold_options (parse_db_option R) items (opts0, S0) = Ok (r, opts, S1)" "wrappers S0 = wrappers S"
  shows "opts field = last_value (concat (map (given name get S) items)) (opts0 field)"
  using assms(3,4)
proof (induction items arbitrary: opts0 S0)
  case (Cons x items)
  obtain r2 opts2 S2 where step: "parse_db_option R x (opts0, S0) = Ok (r2, opts2, S2)"
    using Cons.prems(1) by (cases "parse_db_option R x (opts0, S0)") auto
  note field = db_step_field [OF row step]
  have rest: "fold_options (parse_db_option R) items (opts2, S2) = Ok (r, opts, S1)"
    using Cons.prems(1) step field by simp
  have "opts field = last_value (concat (map (given name get S) items)) (opts2 field)"
    using Cons.IH [OF rest] field Cons.prems(2) by simp
  moreover have "given name get S0 = given name get S"
    using row(1) Cons.prems(2) by (rule given_local)
  ultimately show ?case
    using field by simp
qed simp

text \<open>The field of \<open>rocksdb::DBOptions\<close> that an option is named after: two names differ in case.\<close>

definition db_field :: "string \<Rightarrow> string" where
  "db_field name =
     (if name = ''wal_ttl_seconds'' then ''WAL_ttl_seconds''
      else if name = ''wal_size_limit_mb'' then ''WAL_size_limit_MB'' else name)"

lemma db_rows_named:
  assumes "map_of (db_option_table :: 'n option_table) name = Some (field, get)"
  shows "field = db_field name"
proof -
  have "list_all (\<lambda>row. fst (snd row) = db_field (fst row)) (db_option_table :: 'n option_table)"
    by (simp add: db_option_table_def db_field_def)
  then show ?thesis
    using map_of_SomeD [OF assms] by (fastforce simp: list_all_iff)
qed

text \<open>
  Claim C33. The last occurrence counts: every database option that assigns one field assigns the field
  of its own name, and the parsed options hold there the value of its last occurrence that could be
  converted, whatever else the list contains, and nothing if there is none; occurrences that cannot be
  converted are ignored. (The two fields that other options assign as well, \<open>create_if_missing\<close> and
  \<open>max_background_jobs\<close>, are left out.)
\<close>

theorem db_options_last_wins:
  fixes get :: "'n getter"
  assumes "map_of db_option_table name = Some (field, get)" "name \<notin> {''create_if_missing'', ''max_background_jobs''}"
    and "db_options_of R S (enif_make_list items) = Ok (opts, S1)"
  shows "opts (db_field name) = last_value (concat (map (given name get S) items)) None"
proof -
  obtain r where fold: "fold_options (parse_db_option R) items (\<lambda>_. None, S) = Ok (r, opts, S1)"
    using assms(3) unfolding db_options_of_def
    by (cases "fold_options (parse_db_option R) (list_cells (enif_make_list items)) (\<lambda>_. None, S)") auto
  have field: "field = db_field name"
    using assms(1) by (rule db_rows_named)
  then have "field \<notin> {''create_if_missing'', ''max_background_jobs''}"
    using assms(2) by (auto simp: db_field_def split: if_splits)
  then show ?thesis
    using db_fold_last [OF assms(1) _ fold refl] field by simp
qed

text \<open>An option list for the concrete instances, with one option given twice and one that cannot be converted.\<close>

definition option_story :: "eterm list" where
  "option_story =
     [ETuple [EAtom ''max_open_files'', EInt 100], ETuple [EAtom ''create_if_missing'', EAtom ''true''],
      ETuple [EAtom ''max_open_files'', EInt 200], ETuple [EAtom ''max_open_files'', EAtom ''many'']]"

lemma option_story_runs:
  "db_options_of plain_shared stats_story (enif_make_list option_story) =
     Ok ([''max_open_files'' \<mapsto> VInt 200, ''create_if_missing'' \<mapsto> VBool True], stats_story)"
proof -
  have row: "map_of (db_option_table :: nat option_table) ''max_open_files'' = Some (''max_open_files'', to_int)"
    "map_of (db_option_table :: nat option_table) ''create_if_missing'' = Some (''create_if_missing'', to_bool)"
    by (simp_all add: db_option_table_def)
  show ?thesis
    by (simp add: db_options_of_def option_story_def parse_db_option_def assign_option_def row to_int_def to_bool_def e_ok_def
        fun_upd_twist)
qed

theorem db_options_last_wins_witness:
  "\<exists>opts S1. db_options_of plain_shared stats_story (enif_make_list option_story) = Ok (opts, S1) \<and>
     opts ''max_open_files'' = Some (VInt 200)"
proof -
  have row: "map_of (db_option_table :: nat option_table) ''max_open_files'' = Some (''max_open_files'', to_int)"
    by (simp add: db_option_table_def)
  show ?thesis
    using db_options_last_wins [OF row _ option_story_runs] option_story_runs
    by (auto simp: option_story_def given_def to_int_def last_value_def db_field_def)
qed

section \<open>Options that end the list\<close>

lemma fold_options_append:
  "fold_options f (xs @ ys) acc =
     bind_outcome (fold_options f xs acc) (\<lambda>(r, acc1). if r \<noteq> e_ok then Ok (r, acc1) else fold_options f ys acc1)"
proof (induction xs arbitrary: acc)
  case (Cons x xs)
  show ?case
    by (cases "f x acc") (auto simp: Cons.IH)
qed simp

lemma cf_special_names:
  assumes "map_of (cf_option_table :: 'n option_table) name = Some row"
  shows "name \<noteq> ''block_cache_size_mb_for_point_lookup''" "name \<noteq> ''memtable_memory_budget''" "name \<noteq> ''in_memory_mode''"
proof -
  have "list_all (\<lambda>row. fst row \<noteq> ''block_cache_size_mb_for_point_lookup'' \<and> fst row \<noteq> ''memtable_memory_budget'' \<and>
      fst row \<noteq> ''in_memory_mode'') (cf_option_table :: 'n option_table)"
    by (simp add: cf_option_table_def)
  then show "name \<noteq> ''block_cache_size_mb_for_point_lookup''" "name \<noteq> ''memtable_memory_budget''" "name \<noteq> ''in_memory_mode''"
    using map_of_SomeD [OF assms] by (fastforce simp: list_all_iff)+
qed

text \<open>
  A column family option whose value is refused: a prefix extractor or a bitset operator whose number
  is not one. The fold stops there with \<open>badarg\<close>.
\<close>

definition refused_at :: "compression_type list \<Rightarrow> 'n shared_heap \<Rightarrow> eterm list \<Rightarrow> options \<Rightarrow> bool" where
  "refused_at supported S items opts \<longleftrightarrow>
     (\<exists>before name val after field get. items = before @ ETuple [EAtom name, val] # after \<and>
        map_of (cf_option_table :: 'n option_table) name = Some (field, get) \<and> get S val = Failed \<and>
        fold_options (parse_cf_option supported S) before (\<lambda>_. None) = Ok (e_ok, opts))"

lemma refused_fold:
  assumes "refused_at supported S items opts"
  shows "fold_options (parse_cf_option supported S) items (\<lambda>_. None) = Ok (EAtom ''badarg'', opts)"
proof -
  obtain before name val rest field get where items: "items = before @ ETuple [EAtom name, val] # rest"
      and row: "map_of cf_option_table name = Some (field, get)" "get S val = Failed"
      and ok: "fold_options (parse_cf_option supported S) before (\<lambda>_. None) = Ok (e_ok, opts)"
    using assms unfolding refused_at_def by blast
  have "parse_cf_option supported S (ETuple [EAtom name, val]) opts = Ok (EAtom ''badarg'', opts)"
    using cf_special_names [OF row(1)] row by (simp add: parse_cf_option_def assign_option_def)
  then show ?thesis
    by (simp add: items fold_options_append ok e_ok_def)
qed

end
