(* ===== verification/Sst_Props.thy ===== *)
theory Sst_Props
  imports Sst_Files Option_Props
begin

text \<open>
  Properties of the table file NIFs: the life of a reader and its iterators, what the option
  loop ignores, and that a file that was written is read back.
\<close>

section \<open>Readers and their iterators\<close>

text \<open>
  The state with the terms that were not collected yet, and for each reader the number of
  iterators that were collected without having been closed. Every step is a whole call or
  a whole cleanup: the NIFs take no lock, and calls on one iterator that overlap are left out.
\<close>

type_synonym ('wr, 'rd, 'it) sst_system = "('wr, 'rd, 'it) sst_heap \<times> addr set \<times> (addr \<Rightarrow> nat)"

definition writer_nifs ::
    "('wr, 'rd, 'it, 'fs) rocks_sst \<Rightarrow> (('wr, 'rd, 'it) sst_heap \<Rightarrow> eterm list \<Rightarrow> nif_result \<times> ('wr, 'rd, 'it) sst_heap) set" where
  "writer_nifs Q =
     {SstFileWriterPut Q, SstFileWriterPutEntity Q, SstFileWriterMerge Q, SstFileWriterDelete Q, SstFileWriterDeleteRange Q,
      ReleaseSstFileWriter, ReleaseSstFileReader}"

inductive sst_step ::
    "'n rocks_shared \<Rightarrow> compression_type list \<Rightarrow> ('wr, 'rd, 'it, 'fs) rocks_sst \<Rightarrow> 'it rocks_itr \<Rightarrow>
       ('wr, 'rd, 'it) sst_system \<Rightarrow> ('wr, 'rd, 'it) sst_system \<Rightarrow> bool"
  for R supported Q I where
  open_writer:
    "SstFileWriterOpen R supported Q (fs, S, H) argv = (Ok (ok_tuple (ERef a)), fs1, S1, H1) \<Longrightarrow>
     sst_step R supported Q I (H, T, L) (H1, insert a T, L)"
| call_writer:
    "nif \<in> writer_nifs Q \<Longrightarrow> nif H argv = (res, H1) \<Longrightarrow> sst_step R supported Q I (H, T, L) (H1, T, L)"
| finish_writer:
    "SstFileWriterFinish Q fs H argv = (res, fs1, H1) \<Longrightarrow> sst_step R supported Q I (H, T, L) (H1, T, L)"
| open_reader:
    "SstFileReaderOpen R supported Q (fs, S, H) argv = (Ok (ok_tuple (ERef a)), fs1, S1, H1) \<Longrightarrow>
     sst_step R supported Q I (H, T, L) (H1, insert a T, L)"
| new_iterator:
    "r \<in> T \<Longrightarrow> SstFileReaderIterator Q H h [ERef r, opts] = ((Ok (ok_tuple (ERef i)), H1), h1) \<Longrightarrow>
     sst_step R supported Q I (H, T, L) (H1, insert i T, L)"
| move_iterator:
    "SstFileReaderIteratorMove I H [ERef i, action] = (res, H1) \<Longrightarrow> sst_step R supported Q I (H, T, L) (H1, T, L)"
| close_iterator:
    "i \<in> T \<Longrightarrow> SstFileReaderIteratorClose H [ERef i] = (res, H1) \<Longrightarrow> sst_step R supported Q I (H, T, L) (H1, T, L)"
| collect_writer:
    "a \<in> T \<Longrightarrow> sst_writers H a \<noteq> None \<Longrightarrow>
     sst_step R supported Q I (H, T, L) (SstFileWriterResourceCleanup a H, T - {a}, L)"
| collect_reader:
    "r \<in> T \<Longrightarrow> sst_readers H r \<noteq> None \<Longrightarrow> sst_step R supported Q I (H, T, L) (release_reader r H, T - {r}, L)"
| collect_iterator:
    "i \<in> T \<Longrightarrow> sst_itrs H i = Some it \<Longrightarrow>
     sst_step R supported Q I (H, T, L)
       (SstFileReaderItrResourceCleanup i H, T - {i},
        case m_ReaderRef it of None \<Rightarrow> L | Some r \<Rightarrow> L(r := L r + 1))"

definition sst_reachable ::
    "'n rocks_shared \<Rightarrow> compression_type list \<Rightarrow> ('wr, 'rd, 'it, 'fs) rocks_sst \<Rightarrow> 'it rocks_itr \<Rightarrow>
       ('wr, 'rd, 'it) sst_system \<Rightarrow> bool" where
  "sst_reachable R supported Q I s \<longleftrightarrow> (sst_step R supported Q I)\<^sup>*\<^sup>* (sst_empty, {}, \<lambda>_. 0) s"

text \<open>The iterators that keep a reader.\<close>

definition keepers :: "('wr, 'rd, 'it) sst_heap \<Rightarrow> addr \<Rightarrow> addr set" where
  "keepers H r = {i. \<exists>it. sst_itrs H i = Some it \<and> m_ReaderRef it = Some r}"

definition sst_ok :: "('wr, 'rd, 'it) sst_system \<Rightarrow> bool" where
  "sst_ok s \<longleftrightarrow> (case s of (H, T, L) \<Rightarrow>
     (\<forall>a \<in> T. a < sst_next H) \<and>
     (\<forall>a. sst_writers H a \<noteq> None \<longrightarrow> a < sst_next H \<and> sst_readers H a = None \<and> sst_itrs H a = None) \<and>
     (\<forall>r rd. sst_readers H r = Some rd \<longrightarrow> r < sst_next H \<and> sst_itrs H r = None \<and>
        sr_refs rd = of_bool (r \<in> T) + card (keepers H r) + L r) \<and>
     (\<forall>i it. sst_itrs H i = Some it \<longrightarrow> i < sst_next H \<and>
        (m_Iterator it \<noteq> None \<longrightarrow> m_ReaderRef it = Some (itr_source it)) \<and>
        (\<forall>r. m_ReaderRef it = Some r \<longrightarrow> sst_readers H r \<noteq> None)) \<and>
     (\<forall>r. 0 < L r \<longrightarrow> sst_readers H r \<noteq> None))"

lemma sst_okD:
  assumes "sst_ok (H, T, L)"
  shows "a \<in> T \<Longrightarrow> a < sst_next H"
    "sst_writers H a = Some w \<Longrightarrow> a < sst_next H \<and> sst_readers H a = None \<and> sst_itrs H a = None"
    "sst_readers H r = Some rd \<Longrightarrow> r < sst_next H \<and> sst_itrs H r = None \<and> sr_refs rd = of_bool (r \<in> T) + card (keepers H r) + L r"
    "sst_itrs H i = Some it \<Longrightarrow> i < sst_next H"
    "sst_itrs H i = Some it \<Longrightarrow> m_Iterator it \<noteq> None \<Longrightarrow> m_ReaderRef it = Some (itr_source it)"
    "sst_itrs H i = Some it \<Longrightarrow> m_ReaderRef it = Some r \<Longrightarrow> sst_readers H r \<noteq> None"
    "0 < L r \<Longrightarrow> sst_readers H r \<noteq> None"
  using assms unfolding sst_ok_def by auto

lemma sst_okI:
  assumes "\<And>a. a \<in> T \<Longrightarrow> a < sst_next H"
    and "\<And>a w. sst_writers H a = Some w \<Longrightarrow> a < sst_next H \<and> sst_readers H a = None \<and> sst_itrs H a = None"
    and "\<And>r rd. sst_readers H r = Some rd \<Longrightarrow>
      r < sst_next H \<and> sst_itrs H r = None \<and> sr_refs rd = of_bool (r \<in> T) + card (keepers H r) + L r"
    and "\<And>i it. sst_itrs H i = Some it \<Longrightarrow> i < sst_next H \<and> (m_Iterator it \<noteq> None \<longrightarrow> m_ReaderRef it = Some (itr_source it)) \<and>
      (\<forall>r. m_ReaderRef it = Some r \<longrightarrow> sst_readers H r \<noteq> None)"
    and "\<And>r. 0 < L r \<Longrightarrow> sst_readers H r \<noteq> None"
  shows "sst_ok (H, T, L)"
  using assms unfolding sst_ok_def prod.case by blast

lemma finite_keepers: "sst_ok (H, T, L) \<Longrightarrow> finite (keepers H r)"
  by (rule finite_subset [of _ "{..<sst_next H}"]) (auto simp: keepers_def dest: sst_okD(4))

lemma keepers_cong: "sst_itrs H1 = sst_itrs H \<Longrightarrow> keepers H1 = keepers H"
  by (simp add: keepers_def fun_eq_iff)

text \<open>A step that adds nothing and changes no reader or iterator reference.\<close>

lemma sst_ok_same:
  assumes "sst_ok (H, T, L)" "sst_readers H1 = sst_readers H" "sst_itrs H1 = sst_itrs H" "sst_next H1 = sst_next H"
    and "\<And>a. sst_writers H1 a \<noteq> None \<Longrightarrow> sst_writers H a \<noteq> None"
  shows "sst_ok (H1, T, L)"
  using assms keepers_cong [OF assms(3)] unfolding sst_ok_def by simp

lemma keepers_fresh:
  assumes "sst_ok (H, T, L)" "sst_next H \<le> r"
  shows "keepers H r = {}" "L r = 0" "sst_readers H r = None" "sst_itrs H r = None" "r \<notin> T"
proof -
  show none: "sst_readers H r = None"
    using sst_okD(3) [OF assms(1), of r] assms(2) by (cases "sst_readers H r") auto
  show "sst_itrs H r = None"
    using sst_okD(4) [OF assms(1), of r] assms(2) by (cases "sst_itrs H r") auto
  show "keepers H r = {}"
    using sst_okD(6) [OF assms(1)] none by (fastforce simp: keepers_def)
  show "L r = 0"
    using sst_okD(7) [OF assms(1), of r] none by auto
  show "r \<notin> T"
    using sst_okD(1) [OF assms(1), of r] assms(2) by auto
qed

lemma sst_ok_open_writer:
  assumes ok: "sst_ok (H, T, L)" and H1: "H1 = H\<lparr>sst_writers := (sst_writers H)(sst_next H \<mapsto> wr), sst_next := sst_next H + 1\<rparr>"
  shows "sst_ok (H1, insert (sst_next H) T, L)"
proof -
  have fields: "sst_readers H1 = sst_readers H" "sst_itrs H1 = sst_itrs H" "sst_next H1 = sst_next H + 1"
    "sst_writers H1 = (sst_writers H)(sst_next H \<mapsto> wr)"
    by (simp_all add: H1)
  have keep: "keepers H1 = keepers H"
    by (rule keepers_cong) (simp add: H1)
  show ?thesis
    using ok keepers_fresh [OF ok order_refl] unfolding sst_ok_def by (auto simp: fields keep less_Suc_eq)
qed

lemma sst_ok_open_reader:
  assumes ok: "sst_ok (H, T, L)"
    and H1: "H1 = H\<lparr>sst_readers := (sst_readers H)(sst_next H \<mapsto> \<lparr>sr_refs = 1, sr_reader = rd\<rparr>), sst_next := sst_next H + 1\<rparr>"
  shows "sst_ok (H1, insert (sst_next H) T, L)"
proof -
  have fields: "sst_readers H1 = (sst_readers H)(sst_next H \<mapsto> \<lparr>sr_refs = 1, sr_reader = rd\<rparr>)" "sst_itrs H1 = sst_itrs H"
    "sst_next H1 = sst_next H + 1" "sst_writers H1 = sst_writers H"
    by (simp_all add: H1)
  have keep: "keepers H1 = keepers H"
    by (rule keepers_cong) (simp add: H1)
  show ?thesis
    using ok keepers_fresh [OF ok order_refl] unfolding sst_ok_def by (auto simp: fields keep less_Suc_eq)
qed

lemma sst_ok_new_iterator:
  assumes ok: "sst_ok (H, T, L)" and rd: "sst_readers H r = Some rd"
    and H1: "H1 = (keep_reader r H)\<lparr>sst_itrs := (sst_itrs H)(sst_next H \<mapsto> \<lparr>m_Iterator = Some x, m_ReaderRef = Some r, itr_source = r\<rparr>),
      sst_next := sst_next H + 1\<rparr>"
  shows "sst_ok (H1, insert (sst_next H) T, L)"
proof -
  let ?i = "sst_next H"
  note fresh = keepers_fresh [OF ok order_refl]
  have fields: "sst_readers H1 = (sst_readers H)(r \<mapsto> rd\<lparr>sr_refs := sr_refs rd + 1\<rparr>)" "sst_next H1 = ?i + 1"
    "sst_writers H1 = sst_writers H"
    "sst_itrs H1 = (sst_itrs H)(?i \<mapsto> \<lparr>m_Iterator = Some x, m_ReaderRef = Some r, itr_source = r\<rparr>)"
    using rd by (simp_all add: H1 keep_reader_def)
  have keep: "keepers H1 q = (if q = r then insert ?i (keepers H r) else keepers H q)" for q
    using fresh(4) by (auto simp: keepers_def fields)
  have "?i \<notin> keepers H r"
    using fresh(4) by (simp add: keepers_def)
  then have cards: "card (keepers H1 r) = Suc (card (keepers H r))"
    using finite_keepers [OF ok, of r] by (simp add: keep)
  have "r < ?i"
    using sst_okD(3) [OF ok rd] by simp
  then show ?thesis
    using ok rd fresh cards unfolding sst_ok_def by (auto simp: fields keep less_Suc_eq)
qed

lemma sst_ok_collect_reader:
  assumes ok: "sst_ok (H, T, L)" and "r \<in> T" "sst_readers H r = Some rd"
  shows "sst_ok (release_reader r H, T - {r}, L)"
proof -
  have refs: "sr_refs rd = 1 + card (keepers H r) + L r"
    using sst_okD(3) [OF ok assms(3)] assms(2) by simp
  have keep: "keepers (release_reader r H) = keepers H"
    by (rule keepers_cong) (simp add: release_reader_def split: option.split)
  show ?thesis
  proof (cases "sr_refs rd \<le> 1")
    case True
    then have "keepers H r = {}" "L r = 0"
      using refs finite_keepers [OF ok, of r] by auto
    then show ?thesis
      using ok True assms(3) unfolding sst_ok_def release_reader_def by (auto simp: keepers_def)
  next
    case False
    then show ?thesis
      using ok assms refs keep unfolding sst_ok_def by (auto simp: release_reader_def)
  qed
qed

text \<open>The reference of an iterator is given up, by a close, or stays as a leak, when it is collected.\<close>

lemma sst_ok_close:
  assumes ok: "sst_ok (H, T, L)" and it: "sst_itrs H i = Some it" "m_ReaderRef it = Some r"
    and H1: "H1 = (release_reader r H)\<lparr>sst_itrs := (sst_itrs H)(i \<mapsto> it\<lparr>m_ReaderRef := None, m_Iterator := None\<rparr>)\<rparr>"
  shows "sst_ok (H1, T, L)"
proof -
  obtain rd where rd: "sst_readers H r = Some rd"
    using sst_okD(6) [OF ok it] by blast
  have none: "sst_readers H i = None"
    using sst_okD(3) [OF ok, of i] it(1) by (cases "sst_readers H i") auto
  have keep: "keepers H1 q = keepers H q - {i}" for q
    using it by (auto simp: keepers_def H1)
  have member: "i \<in> keepers H r" "i \<notin> keepers H q" if "q \<noteq> r" for q
    using it that by (auto simp: keepers_def)
  have one: "i \<in> keepers H r"
    using it by (auto simp: keepers_def)
  have refs: "sr_refs rd = of_bool (r \<in> T) + Suc (card (keepers H r - {i})) + L r"
    using sst_okD(3) [OF ok rd] card_Suc_Diff1 [OF finite_keepers [OF ok] one] by simp
  have same: "keepers H q - {i} = keepers H q" if "q \<noteq> r" for q
    using member(2) [OF that] by simp
  have base: "sst_writers H1 = sst_writers H" "sst_next H1 = sst_next H" "sst_itrs H1 = (sst_itrs H)(i \<mapsto> it\<lparr>m_ReaderRef := None, m_Iterator := None\<rparr>)"
    by (simp_all add: H1 release_reader_def split: option.split)
  show ?thesis
  proof (cases "sr_refs rd \<le> 1")
    case True
    then have gone: "r \<notin> T" "keepers H r - {i} = {}" "L r = 0"
      using refs finite_keepers [OF ok, of r] by (auto split: if_splits)
    have "sst_readers H1 = (sst_readers H)(r := None)"
      using True rd by (simp add: H1 release_reader_def)
    moreover have "m_ReaderRef x \<noteq> Some r" if "sst_itrs H j = Some x" "j \<noteq> i" for j x
      using gone(2) that by (auto simp: keepers_def)
    ultimately show ?thesis
      using ok it gone same none unfolding sst_ok_def by (auto simp: base keep)
  next
    case False
    then have "sst_readers H1 = (sst_readers H)(r \<mapsto> rd\<lparr>sr_refs := sr_refs rd - 1\<rparr>)"
      using rd by (simp add: H1 release_reader_def)
    then show ?thesis
      using ok it rd refs same none unfolding sst_ok_def by (auto simp: base keep)
  qed
qed

lemma sst_ok_drop_iterator:
  assumes ok: "sst_ok (H, T, L)" and it: "sst_itrs H i = Some it"
    and H1: "sst_readers H1 = sst_readers H" "sst_writers H1 = sst_writers H" "sst_next H1 = sst_next H"
      "sst_itrs H1 = (sst_itrs H)(i := None)"
  shows "sst_ok (H1, T - {i}, case m_ReaderRef it of None \<Rightarrow> L | Some r \<Rightarrow> L(r := L r + 1))"
proof -
  let ?L = "case m_ReaderRef it of None \<Rightarrow> L | Some r \<Rightarrow> L(r := L r + 1)"
  have none: "sst_readers H i = None"
    using sst_okD(3) [OF ok, of i] it by (cases "sst_readers H i") auto
  have keep: "keepers H1 q = keepers H q - {i}" for q
    by (auto simp: keepers_def H1)
  have sum: "card (keepers H q - {i}) + ?L q = card (keepers H q) + L q" for q
  proof (cases "m_ReaderRef it = Some q")
    case True
    then have "i \<in> keepers H q"
      using it by (simp add: keepers_def)
    with True show ?thesis
      using card_Suc_Diff1 [OF finite_keepers [OF ok, of q]] by simp
  next
    case False
    then have "i \<notin> keepers H q"
      using it by (simp add: keepers_def)
    with False show ?thesis
      by (auto split: option.split)
  qed
  have leaked: "sst_readers H q \<noteq> None" if "0 < ?L q" for q
    using that sst_okD(6) [OF ok it, of q] sst_okD(7) [OF ok, of q] by (auto split: option.splits if_splits)
  have refs: "sr_refs rd = of_bool (q \<in> T - {i}) + card (keepers H1 q) + ?L q" if "sst_readers H q = Some rd" for q rd
    using sst_okD(3) [OF ok that] sum [of q] none that by (auto simp: keep)
  show ?thesis
  proof (rule sst_okI)
    show "a < sst_next H1" if "a \<in> T - {i}" for a
      using that sst_okD(1) [OF ok, of a] H1(3) by simp
    show "a < sst_next H1 \<and> sst_readers H1 a = None \<and> sst_itrs H1 a = None" if "sst_writers H1 a = Some w" for a w
      using that sst_okD(2) [OF ok, of a w] H1 by simp
    show "r < sst_next H1 \<and> sst_itrs H1 r = None \<and> sr_refs rd = of_bool (r \<in> T - {i}) + card (keepers H1 r) + ?L r"
      if "sst_readers H1 r = Some rd" for r rd
      using that sst_okD(3) [OF ok, of r rd] refs [of r rd] H1 by simp
    show "j < sst_next H1 \<and> (m_Iterator x \<noteq> None \<longrightarrow> m_ReaderRef x = Some (itr_source x)) \<and>
        (\<forall>r. m_ReaderRef x = Some r \<longrightarrow> sst_readers H1 r \<noteq> None)" if "sst_itrs H1 j = Some x" for j x
      using that sst_okD(4-6) [OF ok, of j x] H1 by (auto split: if_splits)
    show "sst_readers H1 r \<noteq> None" if "0 < ?L r" for r
      using leaked [OF that] H1(1) by simp
  qed
qed

lemma sst_ok_itr_state:
  assumes ok: "sst_ok (H, T, L)" and it: "sst_itrs H i = Some it" "m_Iterator it \<noteq> None"
    and H1: "H1 = H\<lparr>sst_itrs := (sst_itrs H)(i \<mapsto> it\<lparr>m_Iterator := x\<rparr>)\<rparr>"
  shows "sst_ok (H1, T, L)"
proof -
  have keep: "keepers H1 = keepers H"
    using it(1) by (auto simp: keepers_def fun_eq_iff H1)
  have fields: "sst_writers H1 = sst_writers H" "sst_next H1 = sst_next H" "sst_readers H1 = sst_readers H"
    "sst_itrs H1 = (sst_itrs H)(i \<mapsto> it\<lparr>m_Iterator := x\<rparr>)"
    by (simp_all add: H1)
  have none: "sst_readers H i = None" "sst_writers H i = None"
    using sst_okD(2,3) [OF ok, of i] it(1) by (cases "sst_readers H i"; cases "sst_writers H i"; auto)+
  show ?thesis
    using ok it none unfolding sst_ok_def by (auto simp: fields keep)
qed

lemma close_iterator_eq:
  assumes "sst_itrs H i = Some it"
  shows "snd (SstFileReaderIteratorClose H [ERef i]) =
    (let H1 = (case m_ReaderRef it of None \<Rightarrow> H | Some r \<Rightarrow> release_reader r H)
     in H1\<lparr>sst_itrs := (sst_itrs H)(i \<mapsto> it\<lparr>m_ReaderRef := None, m_Iterator := None\<rparr>),
           sst_events := sst_events H1 @ (case m_Iterator it of None \<Rightarrow> [] | Some _ \<Rightarrow> [IteratorDeleted i (itr_source it)])\<rparr>)"
proof -
  have "sst_itrs (release_reader r H) = sst_itrs H" for r
    by (simp add: release_reader_def split: option.split)
  then show ?thesis
    using assms
    by (cases it; cases "m_ReaderRef it"; cases "m_Iterator it")
      (auto simp: SstFileReaderIteratorClose_def resource_of_def delete_iterator_def Let_def fun_upd_idem)
qed

text \<open>The steps one by one.\<close>

definition writer_frame :: "('wr, 'rd, 'it) sst_heap \<Rightarrow> ('wr, 'rd, 'it) sst_heap \<Rightarrow> bool" where
  "writer_frame H H1 \<longleftrightarrow> sst_readers H1 = sst_readers H \<and> sst_itrs H1 = sst_itrs H \<and> sst_next H1 = sst_next H \<and>
     (\<forall>a. sst_writers H1 a \<noteq> None \<longrightarrow> sst_writers H a \<noteq> None)"

lemma sst_ok_frame: "sst_ok (H, T, L) \<Longrightarrow> writer_frame H H1 \<Longrightarrow> sst_ok (H1, T, L)"
  unfolding writer_frame_def by (elim conjE, rule sst_ok_same) blast+

lemma resource_of_Some: "resource_of m t = Some (a, x) \<longleftrightarrow> t = ERef a \<and> m a = Some x"
  by (cases t) (auto simp: resource_of_def)

lemma writer_call_frame:
  assumes "on_writer H t call = (res, H1)"
  shows "writer_frame H H1"
proof (cases "resource_of (sst_writers H) t")
  case (Some ax)
  obtain a wr where ax: "ax = (a, wr)"
    by (cases ax)
  then show ?thesis
    using assms Some by (cases "call wr") (auto simp: on_writer_def writer_frame_def resource_of_Some split: if_splits)
qed (use assms in \<open>simp add: on_writer_def writer_frame_def\<close>)

lemma writer_nif_frame:
  assumes "nif \<in> writer_nifs Q" "nif H argv = (res, H1)"
  shows "writer_frame H H1"
proof -
  have "(\<exists>call. on_writer H (argv ! 0) call = (res, H1)) \<or> H1 = H"
    using assms unfolding writer_nifs_def
    by (auto simp: SstFileWriterPut_def SstFileWriterPutEntity_def SstFileWriterMerge_def SstFileWriterDelete_def
        SstFileWriterDeleteRange_def ReleaseSstFileWriter_def ReleaseSstFileReader_def)
  then show ?thesis
    using writer_call_frame by (auto simp: writer_frame_def [of H H])
qed

lemma writer_finish_frame:
  assumes "SstFileWriterFinish Q fs H argv = (res, fs1, H1)"
  shows "writer_frame H H1"
proof (cases "resource_of (sst_writers H) (argv ! 0)")
  case (Some ax)
  obtain a wr where ax: "ax = (a, wr)"
    by (cases ax)
  then show ?thesis
    using assms Some
    by (cases "wr_Finish Q wr fs") (auto simp: SstFileWriterFinish_def Let_def writer_frame_def resource_of_Some split: if_splits)
qed (use assms in \<open>simp add: SstFileWriterFinish_def writer_frame_def\<close>)

lemma writer_open_eq:
  assumes "SstFileWriterOpen R supported Q (fs, S, H) argv = (Ok (ok_tuple (ERef a)), fs1, S1, H1)"
  shows "\<exists>wr. H1 = H\<lparr>sst_writers := (sst_writers H)(sst_next H \<mapsto> wr), sst_next := sst_next H + 1\<rparr> \<and> a = sst_next H"
  using assms
  by (auto simp: SstFileWriterOpen_def ok_tuple_def error_tuple_def split: outcome.splits option.splits prod.splits if_splits)

lemma reader_open_eq:
  assumes "SstFileReaderOpen R supported Q (fs, S, H) argv = (Ok (ok_tuple (ERef a)), fs1, S1, H1)"
  shows "\<exists>rd. H1 = H\<lparr>sst_readers := (sst_readers H)(sst_next H \<mapsto> \<lparr>sr_refs = 1, sr_reader = rd\<rparr>), sst_next := sst_next H + 1\<rparr> \<and>
    a = sst_next H"
  using assms
  by (auto simp: SstFileReaderOpen_def ok_tuple_def error_tuple_def split: outcome.splits option.splits prod.splits if_splits)

lemma new_iterator_eq:
  assumes "SstFileReaderIterator Q H h [ERef r, opts] = ((Ok (ok_tuple (ERef i)), H1), h1)"
  shows "\<exists>rd x. sst_readers H r = Some rd \<and> i = sst_next H \<and>
    H1 = (keep_reader r H)\<lparr>sst_itrs := (sst_itrs H)(sst_next H \<mapsto> \<lparr>m_Iterator = Some x, m_ReaderRef = Some r, itr_source = r\<rparr>),
      sst_next := sst_next H + 1\<rparr>"
proof -
  obtain rd where rd: "sst_readers H r = Some rd"
    using assms by (cases "sst_readers H r") (auto simp: SstFileReaderIterator_def resource_of_def)
  then have keeps: "sst_next (keep_reader r H) = sst_next H" "sst_itrs (keep_reader r H) = sst_itrs H"
    by (simp_all add: keep_reader_def)
  obtain h2 ro where ro: "read_options_of h opts = (h2, ro)"
    by (cases "read_options_of h opts")
  show ?thesis
    using assms rd keeps ro
    by (cases "rd_NewIterator Q ro (sr_reader rd)")
      (auto simp: SstFileReaderIterator_def resource_of_def Let_def error_tuple_msg_def ok_tuple_def)
qed

lemma sst_ok_move:
  assumes "sst_ok (H, T, L)" "SstFileReaderIteratorMove I H [ERef i, action] = (res, H1)"
  shows "sst_ok (H1, T, L)"
proof (cases "\<exists>itr it m. sst_itrs H i = Some itr \<and> m_Iterator itr = Some it \<and> sst_action_of I it action = MoveTo m")
  case True
  then obtain itr it m where i: "sst_itrs H i = Some itr" "m_Iterator itr = Some it" "sst_action_of I it action = MoveTo m"
    by blast
  then have "H1 = H\<lparr>sst_itrs := (sst_itrs H)(i \<mapsto> itr\<lparr>m_Iterator := Some (it_move I (None, None) m it)\<rparr>)\<rparr>"
    using assms(2) by (simp add: SstFileReaderIteratorMove_def resource_of_def Let_def)
  then show ?thesis
    using sst_ok_itr_state [OF assms(1) i(1)] i(2) by blast
next
  case False
  then have "H1 = H"
    using assms(2)
    by (auto simp: SstFileReaderIteratorMove_def resource_of_def split: option.splits sst_action.splits)
  with assms(1) show ?thesis
    by simp
qed

lemma sst_ok_events: "sst_ok (H\<lparr>sst_events := es\<rparr>, T, L) = sst_ok (H, T, L)"
  by (simp add: sst_ok_def keepers_def)

lemma sst_ok_close_iterator:
  assumes ok: "sst_ok (H, T, L)" and close: "SstFileReaderIteratorClose H [ERef i] = (res, H1)"
  shows "sst_ok (H1, T, L)"
proof (cases "sst_itrs H i")
  case None
  then show ?thesis
    using close ok by (simp add: SstFileReaderIteratorClose_def resource_of_def)
next
  case (Some it)
  have H1: "H1 = snd (SstFileReaderIteratorClose H [ERef i])"
    by (simp add: close)
  show ?thesis
  proof (cases "m_ReaderRef it")
    case None
    then have "m_Iterator it = None"
      using sst_okD(5) [OF ok Some] by (cases "m_Iterator it") auto
    then have "it\<lparr>m_ReaderRef := None, m_Iterator := None\<rparr> = it"
      using None by simp
    then show ?thesis
      using ok Some None \<open>m_Iterator it = None\<close> by (simp add: H1 close_iterator_eq [OF Some] fun_upd_idem)
  next
    case (Some r)
    then show ?thesis
      using sst_ok_close [OF ok \<open>sst_itrs H i = Some it\<close> Some refl]
      by (simp add: H1 close_iterator_eq [OF \<open>sst_itrs H i = Some it\<close>] Let_def sst_ok_events)
  qed
qed

lemma sst_ok_collect_writer:
  assumes ok: "sst_ok (H, T, L)" and "sst_writers H a \<noteq> None"
  shows "sst_ok (SstFileWriterResourceCleanup a H, T - {a}, L)"
proof -
  have none: "sst_readers H a = None"
    using sst_okD(2) [OF ok, of a] assms(2) by auto
  have keep: "keepers (SstFileWriterResourceCleanup a H) = keepers H"
    by (rule keepers_cong) (simp add: SstFileWriterResourceCleanup_def)
  show ?thesis
    using ok none unfolding sst_ok_def prod.case keep by (auto simp: SstFileWriterResourceCleanup_def)
qed

lemma sst_ok_collect_iterator:
  assumes "sst_ok (H, T, L)" "sst_itrs H i = Some it"
  shows "sst_ok (SstFileReaderItrResourceCleanup i H, T - {i}, case m_ReaderRef it of None \<Rightarrow> L | Some r \<Rightarrow> L(r := L r + 1))"
  by (rule sst_ok_drop_iterator [OF assms])
    (use assms(2) in \<open>simp_all add: SstFileReaderItrResourceCleanup_def delete_iterator_def Let_def split: option.split\<close>)

lemma sst_ok_step:
  assumes "sst_step R supported Q I s s'" "sst_ok s"
  shows "sst_ok s'"
  using assms
proof cases
  case (open_writer fs S H argv a fs1 S1 H1 T L)
  show ?thesis
    using writer_open_eq [OF open_writer(3)] sst_ok_open_writer [of H T L] assms(2) unfolding open_writer(1,2) by blast
next
  case (call_writer nif H argv res H1 T L)
  show ?thesis
    using sst_ok_frame [OF _ writer_nif_frame [OF call_writer(3,4)]] assms(2) unfolding call_writer(1,2) .
next
  case (finish_writer fs H argv res fs1 H1 T L)
  show ?thesis
    using sst_ok_frame [OF _ writer_finish_frame [OF finish_writer(3)]] assms(2) unfolding finish_writer(1,2) .
next
  case (open_reader fs S H argv a fs1 S1 H1 T L)
  show ?thesis
    using reader_open_eq [OF open_reader(3)] sst_ok_open_reader [of H T L] assms(2) unfolding open_reader(1,2) by blast
next
  case (new_iterator r T H h opts i H1 h1 L)
  show ?thesis
    using new_iterator_eq [OF new_iterator(4)] sst_ok_new_iterator [of H T L r] assms(2) unfolding new_iterator(1,2) by blast
next
  case (move_iterator H i action res H1 T L)
  show ?thesis
    using sst_ok_move [OF _ move_iterator(3)] assms(2) unfolding move_iterator(1,2) .
next
  case (close_iterator i T H res H1 L)
  show ?thesis
    using sst_ok_close_iterator [OF _ close_iterator(4)] assms(2) unfolding close_iterator(1,2) .
next
  case (collect_writer a T H L)
  show ?thesis
    using sst_ok_collect_writer [OF _ collect_writer(4)] assms(2) unfolding collect_writer(1,2) .
next
  case (collect_reader r T H L)
  show ?thesis
    using sst_ok_collect_reader [OF _ collect_reader(3)] collect_reader(4) assms(2) unfolding collect_reader(1,2) by blast
next
  case (collect_iterator i T H it L)
  show ?thesis
    using sst_ok_collect_iterator [OF _ collect_iterator(4)] assms(2) unfolding collect_iterator(1,2) .
qed

interpretation tables: kept_by_steps "sst_step R supported Q I" sst_ok for R supported Q I
  by unfold_locales (rule sst_ok_step)

lemma sst_reachable_ok: "sst_reachable R supported Q I s \<Longrightarrow> sst_ok s"
proof -
  have "sst_ok (sst_empty, {}, \<lambda>_. 0)"
    by (simp add: sst_ok_def sst_empty_def)
  then show "sst_reachable R supported Q I s \<Longrightarrow> sst_ok s"
    unfolding sst_reachable_def by (rule tables.steps_keep [rotated])
qed

section \<open>The life of a reader\<close>

text \<open>
  Between calls, the reader of a RocksDB iterator that was not deleted is alive: neither the
  collection of the term of the reader nor closing or collecting other iterators destroys it. The steps
  are whole calls; inside the close of an iterator the reader goes first, as the next
  theorem shows, and two closes of one iterator at the same time are not described.
\<close>

theorem sst_reader_outlives_iterators:
  assumes "sst_reachable R supported Q I (H, T, L)" "sst_itrs H i = Some it" "m_Iterator it \<noteq> None"
  shows "\<exists>rd. sst_readers H (itr_source it) = Some rd \<and> 0 < sr_refs rd"
proof -
  note ok = sst_reachable_ok [OF assms(1)]
  have ref: "m_ReaderRef it = Some (itr_source it)"
    by (rule sst_okD(5) [OF ok assms(2,3)])
  then obtain rd where rd: "sst_readers H (itr_source it) = Some rd"
    using sst_okD(6) [OF ok assms(2)] by blast
  have "keepers H (itr_source it) \<noteq> {}"
    using assms(2) ref by (auto simp: keepers_def)
  then show ?thesis
    using sst_okD(3) [OF ok rd] finite_keepers [OF ok, of "itr_source it"] rd by (auto simp: card_gt_0_iff)
qed

text \<open>
  Claim C40. The order of a close: when the iterator is the last that holds the reader the reader is
  destroyed first, and the RocksDB iterator is deleted after the reader it reads.
\<close>

theorem sst_close_destroys_reader_first:
  assumes "sst_reachable R supported Q I (H, T, L)" "sst_itrs H i = Some it" "m_Iterator it \<noteq> None" "r = itr_source it"
  shows "sst_events (snd (SstFileReaderIteratorClose H [ERef i])) = sst_events H @
    (if r \<notin> T \<and> keepers H r = {i} \<and> L r = 0 then [ReaderDestroyed r, IteratorDeleted i r] else [IteratorDeleted i r])"
proof -
  note ok = sst_reachable_ok [OF assms(1)]
  have ref: "m_ReaderRef it = Some r"
    using sst_okD(5) [OF ok assms(2,3)] assms(4) by simp
  then obtain rd where rd: "sst_readers H r = Some rd"
    using sst_okD(6) [OF ok assms(2)] by blast
  have member: "i \<in> keepers H r"
    using assms(2) ref by (auto simp: keepers_def)
  have refs: "sr_refs rd = of_bool (r \<in> T) + card (keepers H r) + L r"
    using sst_okD(3) [OF ok rd] by simp
  have one: "card (keepers H r) = 1 \<longleftrightarrow> keepers H r = {i}"
    using member by (auto simp: card_1_singleton_iff)
  have "0 < card (keepers H r)"
    using member finite_keepers [OF ok, of r] by (auto simp: card_gt_0_iff)
  then have last: "sr_refs rd \<le> 1 \<longleftrightarrow> r \<notin> T \<and> keepers H r = {i} \<and> L r = 0"
    unfolding one [symmetric] refs by auto
  have "sst_events (release_reader r H) = sst_events H @ (if sr_refs rd \<le> 1 then [ReaderDestroyed r] else [])"
    by (simp add: release_reader_def rd)
  then show ?thesis
    using assms(3,4) unfolding close_iterator_eq [OF assms(2)] last by (auto simp: ref Let_def)
qed

text \<open>An iterator that is collected without having been closed keeps its reader for ever.\<close>

lemma leak_grows: "sst_step R supported Q I (H, T, L) (H1, T1, L1) \<Longrightarrow> L r \<le> L1 r"
  by (erule sst_step.cases) (auto split: option.splits)

interpretation leaks: kept_by_steps "sst_step R supported Q I" "\<lambda>s. n \<le> snd (snd s) r" for R supported Q I n r
proof unfold_locales
  show "n \<le> snd (snd s') r" if "sst_step R supported Q I s s'" "n \<le> snd (snd s) r" for s s'
    using that leak_grows [of R supported Q I "fst s" "fst (snd s)" "snd (snd s)" "fst s'" "fst (snd s')" "snd (snd s')" r] by simp
qed

text \<open>
  An iterator that is collected before it was closed: its reader is never destroyed, whatever follows.
\<close>

theorem sst_unclosed_iterator_leaks:
  assumes "sst_reachable R supported Q I (H, T, L)" "i \<in> T" "sst_itrs H i = Some it" "m_Iterator it \<noteq> None" "r = itr_source it"
    and "(sst_step R supported Q I)\<^sup>*\<^sup>* (SstFileReaderItrResourceCleanup i H, T - {i}, L(r := L r + 1)) (H1, T1, L1)"
  shows "sst_readers H1 r \<noteq> None"
proof -
  have "m_ReaderRef it = Some r"
    using sst_okD(5) [OF sst_reachable_ok [OF assms(1)] assms(3,4)] assms(5) by simp
  then have "sst_step R supported Q I (H, T, L) (SstFileReaderItrResourceCleanup i H, T - {i}, L(r := L r + 1))"
    using sst_step.collect_iterator [OF assms(2,3)] by simp
  then have "sst_reachable R supported Q I (H1, T1, L1)"
    using assms(1,6) unfolding sst_reachable_def by (meson converse_rtranclp_into_rtranclp rtranclp_trans)
  then have "sst_ok (H1, T1, L1)"
    by (rule sst_reachable_ok)
  moreover have "0 < L1 r"
    using leaks.steps_keep [OF assms(6), of "L r + 1" r] by simp
  ultimately show ?thesis
    by (rule sst_okD(7))
qed

section \<open>The options\<close>

lemma parse_db_option_ok:
  assumes "parse_db_option R item (opts, S) = Ok (r, opts1, S1)"
  shows "r = e_ok"
proof (cases "enif_get_tuple item")
  case None
  then show ?thesis
    using assms by (simp add: parse_db_option_def)
next
  case (Some ts)
  show ?thesis
    using assms Some
    by (auto simp: parse_db_option_def outcome_simps dest: assign_db_ok split: if_splits option.splits list.splits prod.splits)
qed

lemma sst_options_cf:
  "sst_options R supported items (db_opts, cf_opts, S) = Ok (db1, cf1, S1) \<Longrightarrow> cf1 = cf_opts"
proof (induction items arbitrary: db_opts S)
  case (Cons head tail)
  then obtain r db2 S2 where step: "parse_db_option R head (db_opts, S) = Ok (r, db2, S2)"
    by (auto simp: outcome_simps)
  then have "r = e_ok"
    by (rule parse_db_option_ok)
  then show ?case
    using Cons step by (simp add: outcome_simps)
qed simp

text \<open>
  A writer or reader is opened with the default column family options, whatever the list
  says: the comparator, the compression and the merge operator of the caller are ignored.
\<close>

theorem sst_ignores_cf_options:
  assumes "sst_options_of R supported S t = Ok (db_opts, cf_opts, S1)"
  shows "cf_opts = (\<lambda>_. None)"
  using assms sst_options_cf unfolding sst_options_of_def by blast

section \<open>Written files are read back\<close>

text \<open>
  What RocksDB promises of a table file: \<open>content\<close> are the entries a writer has taken, in
  order, and \<open>target\<close> its path; \<open>files\<close> are the finished tables by path, \<open>table\<close> the
  entries of a reader. A refused entry leaves the writer as it was, and an iterator with the
  default options runs over the whole table.
\<close>

definition sst_laws ::
    "('wr, 'rd, 'it, 'fs) rocks_sst \<Rightarrow> ('wr \<Rightarrow> (bytes \<times> bytes) list) \<Rightarrow> ('wr \<Rightarrow> bytes) \<Rightarrow> ('fs \<Rightarrow> bytes \<rightharpoonup> (bytes \<times> bytes) list) \<Rightarrow>
       ('rd \<Rightarrow> (bytes \<times> bytes) list) \<Rightarrow> ('it \<Rightarrow> (bytes \<times> bytes) list) \<Rightarrow> bool" where
  "sst_laws Q content target files table entries \<longleftrightarrow>
     (\<forall>db cf path fs st wr fs1. wr_Open Q db cf path fs = (st, wr, fs1) \<and> status_ok st \<longrightarrow> content wr = [] \<and> target wr = path) \<and>
     (\<forall>k v wr st wr1. wr_Put Q k v wr = (st, wr1) \<longrightarrow>
        content wr1 = content wr @ (if status_ok st then [(k, v)] else []) \<and> target wr1 = target wr) \<and>
     (\<forall>wr fs st info wr1 fs1. wr_Finish Q wr fs = (st, info, wr1, fs1) \<and> status_ok st \<longrightarrow>
        files fs1 (target wr) = Some (content wr)) \<and>
     (\<forall>db cf path fs st rd. rd_Open Q db cf path fs = (st, rd) \<and> status_ok st \<longrightarrow> files fs path = Some (table rd)) \<and>
     (\<forall>rd it. rd_NewIterator Q ReadOptions_init rd = Some it \<longrightarrow> entries it = table rd)"

lemma sst_lawsD:
  assumes "sst_laws Q content target files table entries"
  shows "wr_Open Q db cf path fs = (st, wr, fs1) \<Longrightarrow> status_ok st \<Longrightarrow> content wr = [] \<and> target wr = path"
    "wr_Put Q k v wr = (st, wr1) \<Longrightarrow> content wr1 = content wr @ (if status_ok st then [(k, v)] else []) \<and> target wr1 = target wr"
    "wr_Finish Q wr fs = (st, info, wr1, fs2) \<Longrightarrow> status_ok st \<Longrightarrow> files fs2 (target wr) = Some (content wr)"
    "rd_Open Q db cf path fs = (st, rd) \<Longrightarrow> status_ok st \<Longrightarrow> files fs path = Some (table rd)"
    "rd_NewIterator Q ReadOptions_init rd = Some it \<Longrightarrow> entries it = table rd"
  using assms unfolding sst_laws_def by (simp_all del: split_paired_All) metis

text \<open>A program that puts entries one by one, and one that moves an iterator until it gets no entry.\<close>

fun sst_put_all ::
    "('wr, 'rd, 'it, 'fs) rocks_sst \<Rightarrow> addr \<Rightarrow> (bytes \<times> bytes) list \<Rightarrow> ('wr, 'rd, 'it) sst_heap \<Rightarrow>
       nif_result list \<times> ('wr, 'rd, 'it) sst_heap" where
  "sst_put_all Q w [] H = ([], H)"
| "sst_put_all Q w ((k, v) # es) H =
     (case SstFileWriterPut Q H [ERef w, EBin k, EBin v] of
        (r, H1) \<Rightarrow> (case sst_put_all Q w es H1 of (rs, H2) \<Rightarrow> (r # rs, H2)))"

fun sst_walk :: "'it rocks_itr \<Rightarrow> addr \<Rightarrow> eterm \<Rightarrow> nat \<Rightarrow> eterm \<Rightarrow> ('wr, 'rd, 'it) sst_heap \<Rightarrow> (bytes \<times> bytes) list \<times> nif_result option" where
  "sst_walk I i again 0 action H = ([], None)"
| "sst_walk I i again (Suc n) action H =
     (case SstFileReaderIteratorMove I H [ERef i, action] of
        (Ok (ETuple [EAtom tag, EBin k, EBin v]), H1) \<Rightarrow>
          (case sst_walk I i again n again H1 of (es, r) \<Rightarrow> ((k, v) # es, r))
      | (r, H1) \<Rightarrow> ([], Some r))"

definition accepted :: "nif_result list \<Rightarrow> (bytes \<times> bytes) list \<Rightarrow> (bytes \<times> bytes) list" where
  "accepted rs es = map snd (filter (\<lambda>(r, e). r = Ok e_ok) (zip rs es))"

lemma accepted_simps [simp]:
  "accepted [] [] = []" "accepted (r # rs) (e # es) = (if r = Ok e_ok then e # accepted rs es else accepted rs es)"
  by (simp_all add: accepted_def)

lemma put_all_content:
  assumes "sst_laws Q content target files table entries"
  shows "sst_writers H w = Some wr \<Longrightarrow> sst_put_all Q w es H = (rs, H1) \<Longrightarrow>
    \<exists>wr1. sst_writers H1 w = Some wr1 \<and> content wr1 = content wr @ accepted rs es \<and> target wr1 = target wr"
proof (induction es arbitrary: H wr rs)
  case (Cons e es)
  obtain k v st wr1 where e: "e = (k, v)" and put: "wr_Put Q k v wr = (st, wr1)"
    by (metis surj_pair)
  let ?H = "H\<lparr>sst_writers := (sst_writers H)(w \<mapsto> wr1)\<rparr>"
  have call: "SstFileWriterPut Q H [ERef w, EBin k, EBin v] = (Ok (status_result st), ?H)"
    using Cons.prems(1) put by (simp add: SstFileWriterPut_def on_writer_def resource_of_def two_binaries_def)
  obtain rs1 where rs: "rs = Ok (status_result st) # rs1" "sst_put_all Q w es ?H = (rs1, H1)"
    using Cons.prems(2) by (auto simp: e call split: prod.splits)
  obtain wr2 where "sst_writers H1 w = Some wr2" "content wr2 = content wr1 @ accepted rs1 es" "target wr2 = target wr1"
    using Cons.IH [of ?H wr1 rs1] rs(2) by auto
  then show ?case
    using sst_lawsD(2) [OF assms put] by (auto simp: rs(1) e status_result_ok)
qed simp

lemma sst_entry_ahead:
  assumes "itr_laws I entries ahead" "\<And>it. status_ok (it_status I it)"
  shows "sst_entry I it =
    (case ahead b fwd it of [] \<Rightarrow> invalid_iterator | e # es \<Rightarrow> ETuple [EAtom ''ok'', EBin (fst e), EBin (snd e)])"
  using itr_lawsD(1,3) [OF assms(1), of it b fwd] assms(2) by (cases "ahead b fwd it") (auto simp: sst_entry_def)

definition itr_at :: "('wr, 'rd, 'it) sst_heap \<Rightarrow> addr \<Rightarrow> 'it \<Rightarrow> bool" where
  "itr_at H i it \<longleftrightarrow> (\<exists>itr. sst_itrs H i = Some itr \<and> m_Iterator itr = Some it)"

lemma sst_move_to:
  assumes "itr_at H i it" "sst_action_of I it action = MoveTo m"
  shows "\<exists>H1. SstFileReaderIteratorMove I H [ERef i, action] = (Ok (sst_entry I (it_move I (None, None) m it)), H1) \<and>
    itr_at H1 i (it_move I (None, None) m it)"
  using assms by (auto simp: itr_at_def SstFileReaderIteratorMove_def resource_of_def Let_def)

lemma sst_move_next:
  assumes laws: "itr_laws I entries ahead" and "itr_at H i it" "ahead (None, None) fwd it = e # es"
  shows "\<exists>it1 H1. SstFileReaderIteratorMove I H [ERef i, step_action fwd] = (Ok (sst_entry I it1), H1) \<and> itr_at H1 i it1 \<and>
    ahead (None, None) fwd it1 = es"
proof -
  let ?m = "if fwd then Next else Prev"
  have valid: "it_Valid I it"
    using assms(3) itr_lawsD(1) [OF laws, of it "(None, None)" fwd] by simp
  then have action: "sst_action_of I it (step_action fwd) = MoveTo ?m"
    by (simp add: sst_action_of_def step_action_def)
  have "ahead (None, None) fwd (it_move I (None, None) ?m it) = es"
    using itr_lawsD(9,10) [OF laws valid] assms(3) by auto
  with sst_move_to [OF assms(2) action] show ?thesis
    by blast
qed

lemma sst_walk_rest:
  assumes laws: "itr_laws I entries ahead" and ok: "\<And>it. status_ok (it_status I it)"
  shows "itr_at H i it \<Longrightarrow> ahead (None, None) fwd it = e # es \<Longrightarrow> length es < n \<Longrightarrow>
    sst_walk I i (step_action fwd) n (step_action fwd) H = (es, Some (Ok invalid_iterator))"
proof (induction es arbitrary: H it e n)
  case Nil
  from sst_move_next [OF laws Nil.prems(1,2)] Nil.prems(3) show ?case
    by (cases n) (auto simp: sst_entry_ahead [OF laws ok, of _ "(None, None)" fwd] invalid_iterator_def)
next
  case (Cons e' es)
  obtain it1 H1 where move: "SstFileReaderIteratorMove I H [ERef i, step_action fwd] = (Ok (sst_entry I it1), H1)" "itr_at H1 i it1"
      and ahead: "ahead (None, None) fwd it1 = e' # es"
    using sst_move_next [OF laws Cons.prems(1,2)] by blast
  obtain k where k: "n = Suc k" "length es < k"
    using Cons.prems(3) by (cases n) auto
  show ?case
    using Cons.IH [OF move(2) ahead k(2)] move(1) ahead by (simp add: k(1) sst_entry_ahead [OF laws ok, of _ "(None, None)" fwd])
qed

lemma sst_walk_delivers:
  assumes laws: "itr_laws I entries ahead" and ok: "\<And>it. status_ok (it_status I it)" and at: "itr_at H i it"
    and "walk_from (entries it) action = Some (fwd, m, es)" "\<And>k. action \<noteq> EBin k" "length es < n"
  shows "sst_walk I i (step_action fwd) n action H = (es, Some (Ok invalid_iterator))"
proof -
  let ?it = "it_move I (None, None) m it"
  have all: "filter (within (None, None)) es = es" for es :: "(bytes \<times> bytes) list"
    by (simp add: within_def)
  have "sst_action_of I it action = MoveTo m \<and> ahead (None, None) fwd ?it = es"
    using assms(4,5) itr_lawsD(5-8) [OF laws, of "(None, None)"]
    by (cases "(entries it, action)" rule: walk_from.cases) (auto simp: sst_action_of_def all split: if_splits)
  then obtain H1 where move: "SstFileReaderIteratorMove I H [ERef i, action] = (Ok (sst_entry I ?it), H1)" "itr_at H1 i ?it"
      and ahead: "ahead (None, None) fwd ?it = es"
    using sst_move_to [OF at] by blast
  obtain k where k: "n = Suc k"
    using assms(6) by (cases n) auto
  show ?thesis
  proof (cases es)
    case Nil
    then show ?thesis
      using move ahead by (simp add: k sst_entry_ahead [OF laws ok, of _ "(None, None)" fwd] invalid_iterator_def)
  next
    case (Cons e es')
    then show ?thesis
      using sst_walk_rest [OF laws ok move(2), of fwd e es' k] move(1) ahead assms(6)
      by (simp add: k sst_entry_ahead [OF laws ok, of _ "(None, None)" fwd])
  qed
qed

text \<open>The steps of a program that writes a file and reads it.\<close>

lemma opened_writer:
  assumes "sst_laws Q content target files table entries"
    and "SstFileWriterOpen R supported Q (fs, S, H) [opts, path] = (Ok (ok_tuple (ERef w)), fs1, S1, H1)"
  shows "\<exists>p wr. get_file_path path = Some p \<and> sst_writers H1 w = Some wr \<and> content wr = [] \<and> target wr = p"
  using assms(2)
  by (auto simp: SstFileWriterOpen_def ok_tuple_def error_tuple_def dest: sst_lawsD(1) [OF assms(1)]
      split: outcome.splits option.splits prod.splits if_splits)

lemma finished_writer:
  assumes "sst_laws Q content target files table entries" "sst_writers H w = Some wr"
    and "SstFileWriterFinish Q fs H [ERef w] = (Ok e_ok, fs1, H1)"
  shows "files fs1 (target wr) = Some (content wr)"
  using assms(2,3)
  by (auto simp: SstFileWriterFinish_def resource_of_def e_ok_def error_tuple_def dest: sst_lawsD(3) [OF assms(1)]
      split: prod.splits if_splits)

lemma opened_reader:
  assumes "sst_laws Q content target files table entries"
    and "SstFileReaderOpen R supported Q (fs, S, H) [opts, path] = (Ok (ok_tuple (ERef r)), fs1, S1, H1)"
  shows "\<exists>p rd. get_file_path path = Some p \<and> sst_readers H1 r = Some rd \<and> files fs p = Some (table (sr_reader rd))"
  using assms(2)
  by (auto simp: SstFileReaderOpen_def ok_tuple_def error_tuple_def dest: sst_lawsD(4) [OF assms(1)]
      split: outcome.splits option.splits prod.splits if_splits)

lemma opened_iterator:
  assumes "sst_laws Q content target files table entries" "sst_readers H r = Some rd"
    and "SstFileReaderIterator Q H h [ERef r, ENil] = ((Ok (ok_tuple (ERef i)), H1), h1)"
  shows "\<exists>it. itr_at H1 i it \<and> entries it = table (sr_reader rd)"
proof -
  have "read_options_of h ENil = (h, ReadOptions_init)"
    by (simp add: read_options_of_def nif_fold_def)
  then show ?thesis
    using assms(2,3)
    by (cases "rd_NewIterator Q ReadOptions_init (sr_reader rd)")
      (auto simp: SstFileReaderIterator_def resource_of_def ok_tuple_def error_tuple_msg_def itr_at_def Let_def
        dest: sst_lawsD(5) [OF assms(1)])
qed

text \<open>
  Claim C39. A table file is read back as it was written: after a writer was opened on a path, given
  entries one by one and finished, a reader on that path has an iterator that delivers exactly
  the entries the writer took, from the start the first action names and in its direction; the
  entries that were answered with an error are not in the file.
\<close>

theorem sst_file_roundtrip:
  assumes "sst_laws Q content target files table entries" "itr_laws I entries ahead" "\<And>it. status_ok (it_status I it)"
    and "SstFileWriterOpen R supported Q (fs, S, H) [wopts, path] = (Ok (ok_tuple (ERef w)), fs1, S1, H1)"
    and "sst_put_all Q w es H1 = (rs, H2)"
    and "SstFileWriterFinish Q fs1 H2 [ERef w] = (Ok e_ok, fs2, H3)"
    and "SstFileReaderOpen R supported Q (fs2, S2, H3) [ropts, path] = (Ok (ok_tuple (ERef r)), fs3, S3, H4)"
    and "SstFileReaderIterator Q H4 h [ERef r, ENil] = ((Ok (ok_tuple (ERef i)), H5), h1)"
    and "walk_from (accepted rs es) action = Some (fwd, m, out)" "\<And>k. action \<noteq> EBin k" "length out < n"
  shows "sst_walk I i (step_action fwd) n action H5 = (out, Some (Ok invalid_iterator))"
proof -
  obtain p wr where wr: "get_file_path path = Some p" "sst_writers H1 w = Some wr" "content wr = []" "target wr = p"
    using opened_writer [OF assms(1,4)] by blast
  obtain wr1 where wr1: "sst_writers H2 w = Some wr1" "content wr1 = accepted rs es" "target wr1 = p"
    using put_all_content [OF assms(1) wr(2) assms(5)] wr(3,4) by auto
  have stored: "files fs2 p = Some (accepted rs es)"
    using finished_writer [OF assms(1) wr1(1) assms(6)] wr1(2,3) by simp
  obtain rd where rd: "sst_readers H4 r = Some rd" "table (sr_reader rd) = accepted rs es"
    using opened_reader [OF assms(1,7)] wr(1) stored by auto
  obtain it where it: "itr_at H5 i it" "entries it = accepted rs es"
    using opened_iterator [OF assms(1) rd(1) assms(8)] rd(2) by auto
  show ?thesis
    by (rule sst_walk_delivers [OF assms(2,3) it(1)]) (use it(2) assms(9-11) in simp_all)
qed

section \<open>Instances\<close>

text \<open>Tables as lists of entries: a writer with its path, readers that hold the list.\<close>

definition list_sst :: "(bytes \<times> (bytes \<times> bytes) list, (bytes \<times> bytes) list, list_itr, bytes \<rightharpoonup> (bytes \<times> bytes) list) rocks_sst" where
  "list_sst =
     \<lparr>wr_Open = (\<lambda>_ _ path fs. (ok_status, (path, []), fs)),
      wr_Put = (\<lambda>k v wr. if list_all (\<lambda>e. fst e < k) (snd wr) then (ok_status, fst wr, snd wr @ [(k, v)])
                          else (\<lparr>code = kOther, ToString = ''Invalid argument''\<rparr>, wr)),
      wr_PutEntity = (\<lambda>_ _ wr. (ok_status, wr)), wr_Merge = (\<lambda>_ _ wr. (ok_status, wr)), wr_Delete = (\<lambda>_ wr. (ok_status, wr)),
      wr_DeleteRange = (\<lambda>_ _ wr. (ok_status, wr)),
      wr_Finish = (\<lambda>wr fs. (ok_status, \<lparr>fi_file_path = fst wr, smallest_key = [], largest_key = [], smallest_range_del_key = [],
         largest_range_del_key = [], fi_file_size = 0, num_entries = 0, num_range_del_entries = 0, sequence_number = 0\<rparr>,
         wr, fs(fst wr \<mapsto> snd wr))),
      wr_FileSize = (\<lambda>_. 0),
      rd_Open = (\<lambda>_ _ path fs. case fs path of Some es \<Rightarrow> (ok_status, es) | None \<Rightarrow> (\<lparr>code = kNotFound, ToString = ''NotFound''\<rparr>, [])),
      rd_NewIterator = (\<lambda>_ es. Some (es, [], None)), rd_GetTableProperties = (\<lambda>_. None), rd_VerifyChecksum = (\<lambda>_ _. ok_status)\<rparr>"

lemma list_sst_laws: "sst_laws list_sst snd fst id id fst"
  by (auto simp: sst_laws_def list_sst_def status_ok_def ok_status_def split: option.splits if_splits)

type_synonym list_sst_heap = "(bytes \<times> (bytes \<times> bytes) list, (bytes \<times> bytes) list, list_itr) sst_heap"

text \<open>A writer with some entries, then a reader of the file, then its iterator.\<close>

definition sst_story_writer :: "(bytes \<times> bytes) list \<Rightarrow> list_sst_heap" where
  "sst_story_writer es = sst_empty\<lparr>sst_writers := [0 \<mapsto> ([97], es)], sst_next := 1\<rparr>"

definition sst_story_table :: "(bytes \<times> bytes) list" where
  "sst_story_table = [([1], [10]), ([2], [20])]"

definition sst_story_reader :: list_sst_heap where
  "sst_story_reader = (sst_story_writer sst_story_table)
     \<lparr>sst_readers := [1 \<mapsto> \<lparr>sr_refs = 1, sr_reader = sst_story_table\<rparr>], sst_next := 2\<rparr>"

definition sst_story_itr :: list_sst_heap where
  "sst_story_itr = (sst_story_writer sst_story_table)
     \<lparr>sst_readers := [1 \<mapsto> \<lparr>sr_refs = 2, sr_reader = sst_story_table\<rparr>],
      sst_itrs := [2 \<mapsto> \<lparr>m_Iterator = Some (sst_story_table, [], None), m_ReaderRef = Some 1, itr_source = 1\<rparr>], sst_next := 3\<rparr>"

definition sst_story_files :: "bytes \<rightharpoonup> (bytes \<times> bytes) list" where
  "sst_story_files = [[97] \<mapsto> sst_story_table]"

definition sst_story_puts :: "nif_result list" where
  "sst_story_puts = [Ok e_ok, Ok (error_tuple (EAtom ''error'') \<lparr>code = kOther, ToString = ''Invalid argument''\<rparr>), Ok e_ok]"

lemma sst_story_put:
  "SstFileWriterPut list_sst (sst_story_writer es) [ERef 0, EBin k, EBin v] =
     (if list_all (\<lambda>e. fst e < k) es then (Ok e_ok, sst_story_writer (es @ [(k, v)]))
      else (Ok (error_tuple (EAtom ''error'') \<lparr>code = kOther, ToString = ''Invalid argument''\<rparr>), sst_story_writer es))"
  by (simp add: SstFileWriterPut_def on_writer_def resource_of_def two_binaries_def list_sst_def status_result_def status_ok_def
      ok_status_def sst_story_writer_def sst_empty_def)

lemma sst_story_runs:
  "SstFileWriterOpen plain_shared [] list_sst (\<lambda>_. None, stats_story, sst_empty) [ENil, EBin [97]] =
     (Ok (ok_tuple (ERef 0)), \<lambda>_. None, stats_story, sst_story_writer [])"
  "sst_put_all list_sst 0 [([1], [10]), ([0], [5]), ([2], [20])] (sst_story_writer []) = (sst_story_puts, sst_story_writer sst_story_table)"
  "SstFileWriterFinish list_sst (\<lambda>_. None) (sst_story_writer sst_story_table) [ERef 0] =
     (Ok e_ok, sst_story_files, sst_story_writer sst_story_table)"
  "SstFileReaderOpen plain_shared [] list_sst (sst_story_files, stats_story, sst_story_writer sst_story_table) [ENil, EBin [97]] =
     (Ok (ok_tuple (ERef 1)), sst_story_files, stats_story, sst_story_reader)"
  "SstFileReaderIterator list_sst sst_story_reader h [ERef 1, ENil] = ((Ok (ok_tuple (ERef 2)), sst_story_itr), h)"
proof -
  have opts: "sst_options_of plain_shared [] stats_story ENil = Ok (\<lambda>_. None, \<lambda>_. None, stats_story)"
    by (simp add: sst_options_of_def)
  show "SstFileWriterOpen plain_shared [] list_sst (\<lambda>_. None, stats_story, sst_empty) [ENil, EBin [97]] =
      (Ok (ok_tuple (ERef 0)), \<lambda>_. None, stats_story, sst_story_writer [])"
    by (simp add: SstFileWriterOpen_def opts get_file_path_def list_sst_def status_ok_def ok_status_def sst_story_writer_def sst_empty_def)
  show "sst_put_all list_sst 0 [([1], [10]), ([0], [5]), ([2], [20])] (sst_story_writer []) =
      (sst_story_puts, sst_story_writer sst_story_table)"
    by (simp add: sst_story_put sst_story_puts_def sst_story_table_def)
  show "SstFileWriterFinish list_sst (\<lambda>_. None) (sst_story_writer sst_story_table) [ERef 0] =
      (Ok e_ok, sst_story_files, sst_story_writer sst_story_table)"
    by (simp add: SstFileWriterFinish_def resource_of_def list_sst_def status_ok_def ok_status_def sst_story_writer_def sst_story_files_def)
  show "SstFileReaderOpen plain_shared [] list_sst (sst_story_files, stats_story, sst_story_writer sst_story_table) [ENil, EBin [97]] =
      (Ok (ok_tuple (ERef 1)), sst_story_files, stats_story, sst_story_reader)"
    by (simp add: SstFileReaderOpen_def opts get_file_path_def list_sst_def status_ok_def ok_status_def sst_story_files_def
        sst_story_writer_def sst_story_reader_def sst_empty_def)
  show "SstFileReaderIterator list_sst sst_story_reader h [ERef 1, ENil] = ((Ok (ok_tuple (ERef 2)), sst_story_itr), h)"
    by (simp add: SstFileReaderIterator_def resource_of_def read_options_of_def nif_fold_def list_sst_def keep_reader_def
        sst_story_writer_def sst_story_reader_def sst_story_itr_def sst_empty_def Let_def numeral_2_eq_2)
qed

theorem sst_file_roundtrip_witness:
  "sst_walk (list_rocks_itr []) 2 (EAtom ''prev'') 3 (EAtom ''last'') sst_story_itr =
     ([([2], [20]), ([1], [10])], Some (Ok invalid_iterator))"
proof -
  have ok: "status_ok (it_status (list_rocks_itr []) it)" for it
    by (simp add: list_rocks_itr_def status_ok_def ok_status_def)
  have start: "walk_from (accepted sst_story_puts [([1], [10]), ([0], [5]), ([2], [20])]) (EAtom ''last'') =
      Some (False, SeekToLast, [([2], [20]), ([1], [10])])"
    by (simp add: sst_story_puts_def e_ok_def error_tuple_def)
  from sst_file_roundtrip [OF list_sst_laws list_itr_laws ok sst_story_runs start, of 3] show ?thesis
    by (simp add: step_action_def)
qed

text \<open>The same story as steps, and then the term of the reader collected.\<close>

lemma sst_story_reachable:
  "sst_reachable plain_shared [] list_sst (list_rocks_itr []) (sst_story_itr, {2, 1, 0}, \<lambda>_. 0)"
  "sst_reachable plain_shared [] list_sst (list_rocks_itr []) (release_reader 1 sst_story_itr, {2, 1, 0} - {1}, \<lambda>_. 0)"
proof -
  let ?step = "sst_step plain_shared [] list_sst (list_rocks_itr [])"
  have writer: "?step (sst_empty, {}, \<lambda>_. 0) (sst_story_writer [], {0}, \<lambda>_. 0)"
    by (rule sst_step.open_writer [OF sst_story_runs(1)])
  have put: "?step (sst_story_writer es, {0}, \<lambda>_. 0) (sst_story_writer (es @ [(k, v)]), {0}, \<lambda>_. 0)"
    if "list_all (\<lambda>e. fst e < k) es" for es k v
    by (rule sst_step.call_writer [of "SstFileWriterPut list_sst" _ _ "[ERef 0, EBin k, EBin v]" "Ok e_ok"])
      (simp_all add: writer_nifs_def sst_story_put that)
  have puts: "?step (sst_story_writer [], {0}, \<lambda>_. 0) (sst_story_writer [([1], [10])], {0}, \<lambda>_. 0)"
    "?step (sst_story_writer [([1], [10])], {0}, \<lambda>_. 0) (sst_story_writer sst_story_table, {0}, \<lambda>_. 0)"
    using put [of "[1]" "[]" "[10]"] put [of "[2]" "[([1], [10])]" "[20]"] by (simp_all add: sst_story_table_def)
  have reader: "?step (sst_story_writer sst_story_table, {0}, \<lambda>_. 0) (sst_story_reader, {1, 0}, \<lambda>_. 0)"
    by (rule sst_step.open_reader [OF sst_story_runs(4)])
  have itr: "?step (sst_story_reader, {1, 0}, \<lambda>_. 0) (sst_story_itr, {2, 1, 0}, \<lambda>_. 0)"
    by (rule sst_step.new_iterator [OF _ sst_story_runs(5)]) simp
  show reach: "sst_reachable plain_shared [] list_sst (list_rocks_itr []) (sst_story_itr, {2, 1, 0}, \<lambda>_. 0)"
    unfolding sst_reachable_def
    by (rule converse_rtranclp_into_rtranclp [of ?step, OF writer], rule converse_rtranclp_into_rtranclp [of ?step, OF puts(1)],
        rule converse_rtranclp_into_rtranclp [of ?step, OF puts(2)], rule converse_rtranclp_into_rtranclp [of ?step, OF reader],
        rule r_into_rtranclp [of ?step, OF itr])
  have "?step (sst_story_itr, {2, 1, 0}, \<lambda>_. 0) (release_reader 1 sst_story_itr, {2, 1, 0} - {1}, \<lambda>_. 0)"
    by (rule sst_step.collect_reader) (simp_all add: sst_story_itr_def)
  with reach show "sst_reachable plain_shared [] list_sst (list_rocks_itr [])
      (release_reader 1 sst_story_itr, {2, 1, 0} - {1}, \<lambda>_. 0)"
    unfolding sst_reachable_def by (meson rtranclp.rtrancl_into_rtrancl)
qed

lemma sst_story_released:
  "sst_itrs (release_reader 1 sst_story_itr) 2 =
     Some \<lparr>m_Iterator = Some (sst_story_table, [], None), m_ReaderRef = Some 1, itr_source = 1\<rparr>"
  "sst_events (release_reader 1 sst_story_itr) = []" "keepers (release_reader 1 sst_story_itr) 1 = {2}"
  by (auto simp: release_reader_def sst_story_itr_def sst_story_writer_def sst_empty_def keepers_def split: if_splits)

theorem sst_reader_outlives_iterators_witness:
  "\<exists>rd. sst_readers (release_reader 1 sst_story_itr) 1 = Some rd \<and> 0 < sr_refs rd"
  using sst_reader_outlives_iterators [OF sst_story_reachable(2) sst_story_released(1)] by simp

theorem sst_close_destroys_reader_first_witness:
  "sst_events (snd (SstFileReaderIteratorClose (release_reader 1 sst_story_itr) [ERef 2])) = [ReaderDestroyed 1, IteratorDeleted 2 1]"
  using sst_close_destroys_reader_first [OF sst_story_reachable(2) sst_story_released(1)] by (simp add: sst_story_released [simplified])

theorem sst_unclosed_iterator_leaks_witness:
  "sst_readers (SstFileReaderItrResourceCleanup 2 (release_reader 1 sst_story_itr)) 1 \<noteq> None"
  using sst_unclosed_iterator_leaks [OF sst_story_reachable(2) _ sst_story_released(1) _ _ rtranclp.rtrancl_refl] by simp

text \<open>A comparator in the option list is not set.\<close>

theorem sst_ignores_cf_options_witness:
  "\<exists>db_opts S1. sst_options_of plain_shared [] stats_story (enif_make_list [ETuple [EAtom ''comparator'', EAtom ''reverse_bytewise_comparator'']])
     = Ok (db_opts, \<lambda>_. None, S1)"
proof -
  let ?t = "enif_make_list [ETuple [EAtom ''comparator'', EAtom ''reverse_bytewise_comparator'']]"
  have "map_of (db_option_table :: nat option_table) ''comparator'' = None"
    by (simp add: db_option_table_def)
  then obtain db_opts cf_opts S1 where "sst_options_of plain_shared [] stats_story ?t = Ok (db_opts, cf_opts, S1)"
    by (simp add: sst_options_of_def parse_db_option_def assign_option_def outcome_simps)
  then show ?thesis
    using sst_ignores_cf_options by blast
qed

end
