(* ===== verification/Backup_Nifs.thy ===== *)
theory Backup_Nifs
  imports Db_Props
begin

text \<open>
  The NIFs of \<open>c_src/backup.cc\<close>. The class \<open>rocksdb::BackupEngine\<close> is the record
  \<open>rocks_backup\<close>, an argument, on a state \<open>'w\<close> that holds the databases, the engines and
  the files on disk; \<open>backup_laws\<close> states what its documentation promises. Sessions of
  calls refine a list of backups.
\<close>

section \<open>The NIFs\<close>

record backup_info =
  backup_id :: u32
  timestamp :: u64
  backup_size :: u64
  number_files :: u32

record 'w rocks_backup =
  be_Open :: "addr \<Rightarrow> bytes \<Rightarrow> 'w \<Rightarrow> status \<times> 'w"
  be_GarbageCollect :: "addr \<Rightarrow> 'w \<Rightarrow> status \<times> 'w"
  be_CreateNewBackup :: "addr \<Rightarrow> addr \<Rightarrow> 'w \<Rightarrow> status \<times> 'w"
  be_GetBackupInfo :: "addr \<Rightarrow> 'w \<Rightarrow> backup_info list"
  be_VerifyBackup :: "addr \<Rightarrow> u32 \<Rightarrow> 'w \<Rightarrow> status \<times> 'w"
  be_StopBackup :: "addr \<Rightarrow> 'w \<Rightarrow> 'w"
  be_DeleteBackup :: "addr \<Rightarrow> u32 \<Rightarrow> 'w \<Rightarrow> status \<times> 'w"
  be_PurgeOldBackups :: "addr \<Rightarrow> u32 \<Rightarrow> 'w \<Rightarrow> status \<times> 'w"
  be_RestoreDBFromBackup :: "addr \<Rightarrow> u32 \<Rightarrow> bytes \<Rightarrow> bytes \<Rightarrow> 'w \<Rightarrow> status \<times> 'w"
  be_RestoreDBFromLatestBackup :: "addr \<Rightarrow> bytes \<Rightarrow> bytes \<Rightarrow> 'w \<Rightarrow> status \<times> 'w"

text \<open>\<open>!enif_get_string(env, t, buf, 4096, ERL_NIF_LATIN1) || !enif_is_list(env, t)\<close> answers \<open>badarg\<close>.\<close>

definition get_path :: "eterm \<Rightarrow> bytes option" where
  "get_path t =
     (case enif_get_string t 4096 of None \<Rightarrow> None | Some path \<Rightarrow> if \<not> enif_is_list t then None else Some path)"

definition OpenBackupEngine ::
    "'w rocks_backup \<Rightarrow> 'w \<Rightarrow> ref_heap \<Rightarrow> eterm list \<Rightarrow> (nif_result \<times> 'w) \<times> ref_heap" where
  "OpenBackupEngine R w h argv =
     (case get_path (argv ! 0) of
        None \<Rightarrow> ((Failed, w), h)
      | Some path \<Rightarrow>
          (case be_Open R (next_addr h) path w of
             (s, w1) \<Rightarrow>
               if \<not> status_ok s then ((Ok (error_tuple (EAtom ''backup_engine_open'') s), w1), h)
               else (case CreateBackupEngineObject h of (a, h1) \<Rightarrow> ((Ok (ok_tuple (ERef a)), w1), h1))))"

definition GCBackupEngine ::
    "'w rocks_backup \<Rightarrow> 'w \<Rightarrow> ref_heap \<Rightarrow> eterm list \<Rightarrow> (nif_result \<times> 'w) \<times> ref_heap" where
  "GCBackupEngine R w h argv =
     with_backup_engine h (argv ! 0) (Failed, w) (\<lambda>be h1. (run_status (be_GarbageCollect R be w), h1))"

definition CreateNewBackup ::
    "'w rocks_backup \<Rightarrow> 'w \<Rightarrow> ref_heap \<Rightarrow> eterm list \<Rightarrow> (nif_result \<times> 'w) \<times> ref_heap" where
  "CreateNewBackup R w h argv =
     with_backup_engine h (argv ! 0) (Failed, w) (\<lambda>be h1.
       with_db h1 (argv ! 1) (Failed, w) (\<lambda>db h2. (run_status (be_CreateNewBackup R be db w), h2)))"

text \<open>\<open>number_files\<close> is filled with the backup id.\<close>

definition backup_info_map :: "backup_info \<Rightarrow> eterm" where
  "backup_info_map i =
     EMap [(EAtom ''backup_id'', EInt (uint (backup_id i))),
           (EAtom ''timestamp'', EInt (uint (timestamp i))),
           (EAtom ''size'', EInt (uint (backup_size i))),
           (EAtom ''number_files'', EInt (uint (backup_id i)))]"

definition GetBackupInfo ::
    "'w rocks_backup \<Rightarrow> 'w \<Rightarrow> ref_heap \<Rightarrow> eterm list \<Rightarrow> (nif_result \<times> 'w) \<times> ref_heap" where
  "GetBackupInfo R w h argv =
     with_backup_engine h (argv ! 0) (Failed, w) (\<lambda>be h1.
       ((Ok (ok_tuple (fold (\<lambda>i. ECons (backup_info_map i)) (be_GetBackupInfo R be w) (enif_make_list []))), w), h1))"

text \<open>The NIFs with a 32-bit number.\<close>

definition numbered_call ::
    "(addr \<Rightarrow> u32 \<Rightarrow> 'w \<Rightarrow> status \<times> 'w) \<Rightarrow> 'w \<Rightarrow> ref_heap \<Rightarrow> eterm list \<Rightarrow> (nif_result \<times> 'w) \<times> ref_heap" where
  "numbered_call f w h argv =
     with_backup_engine h (argv ! 0) (Failed, w) (\<lambda>be h1.
       (case enif_get_uint (argv ! 1) of None \<Rightarrow> (Failed, w) | Some n \<Rightarrow> run_status (f be n w), h1))"

definition VerifyBackup ::
    "'w rocks_backup \<Rightarrow> 'w \<Rightarrow> ref_heap \<Rightarrow> eterm list \<Rightarrow> (nif_result \<times> 'w) \<times> ref_heap" where
  "VerifyBackup R w h argv = numbered_call (be_VerifyBackup R) w h argv"

definition StopBackup ::
    "'w rocks_backup \<Rightarrow> 'w \<Rightarrow> ref_heap \<Rightarrow> eterm list \<Rightarrow> (nif_result \<times> 'w) \<times> ref_heap" where
  "StopBackup R w h argv =
     with_backup_engine h (argv ! 0) (Failed, w) (\<lambda>be h1. ((Ok e_ok, be_StopBackup R be w), h1))"

definition DeleteBackup ::
    "'w rocks_backup \<Rightarrow> 'w \<Rightarrow> ref_heap \<Rightarrow> eterm list \<Rightarrow> (nif_result \<times> 'w) \<times> ref_heap" where
  "DeleteBackup R w h argv = numbered_call (be_DeleteBackup R) w h argv"

definition PurgeOldBackup ::
    "'w rocks_backup \<Rightarrow> 'w \<Rightarrow> ref_heap \<Rightarrow> eterm list \<Rightarrow> (nif_result \<times> 'w) \<times> ref_heap" where
  "PurgeOldBackup R w h argv = numbered_call (be_PurgeOldBackups R) w h argv"

text \<open>Without an argument for it \<open>wal_dir\<close> is a copy of \<open>db_dir\<close>.\<close>

definition restore_dirs :: "eterm list \<Rightarrow> (bytes \<times> bytes) option" where
  "restore_dirs dirs =
     (case get_path (dirs ! 0) of
        None \<Rightarrow> None
      | Some db_dir \<Rightarrow>
          if length dirs = 2
          then (case get_path (dirs ! 1) of None \<Rightarrow> None | Some wal_dir \<Rightarrow> Some (db_dir, wal_dir))
          else Some (db_dir, db_dir))"

definition RestoreDBFromBackup ::
    "'w rocks_backup \<Rightarrow> 'w \<Rightarrow> ref_heap \<Rightarrow> eterm list \<Rightarrow> (nif_result \<times> 'w) \<times> ref_heap" where
  "RestoreDBFromBackup R w h argv =
     with_backup_engine h (argv ! 0) (Failed, w) (\<lambda>be h1.
       (case enif_get_uint (argv ! 1) of
          None \<Rightarrow> (Failed, w)
        | Some n \<Rightarrow>
            (case restore_dirs (drop 2 argv) of
               None \<Rightarrow> (Failed, w)
             | Some (db_dir, wal_dir) \<Rightarrow> run_status (be_RestoreDBFromBackup R be n db_dir wal_dir w)), h1))"

definition RestoreDBFromLatestBackup ::
    "'w rocks_backup \<Rightarrow> 'w \<Rightarrow> ref_heap \<Rightarrow> eterm list \<Rightarrow> (nif_result \<times> 'w) \<times> ref_heap" where
  "RestoreDBFromLatestBackup R w h argv =
     with_backup_engine h (argv ! 0) (Failed, w) (\<lambda>be h1.
       (case restore_dirs (drop 1 argv) of
          None \<Rightarrow> (Failed, w)
        | Some (db_dir, wal_dir) \<Rightarrow> run_status (be_RestoreDBFromLatestBackup R be db_dir wal_dir w), h1))"

section \<open>References\<close>

lemma with_backup_engine_neutral [neutral]:
  assumes "\<And>a h1. snd (f a h1) = h1"
  shows "snd (with_backup_engine h t bad f) = h"
  using scope_neutral [of h BackupEngineObject t "RetrieveBackupEngineObject h t" f] assms
  by (auto simp: scope_defs RetrieveBackupEngineObject_def ReferencePtr_assign_def split: option.split)

lemma backup_heap [neutral]:
  "snd (GCBackupEngine R w h argv) = h" "snd (CreateNewBackup R w h argv) = h" "snd (GetBackupInfo R w h argv) = h"
  "snd (VerifyBackup R w h argv) = h" "snd (StopBackup R w h argv) = h" "snd (DeleteBackup R w h argv) = h"
  "snd (PurgeOldBackup R w h argv) = h" "snd (RestoreDBFromBackup R w h argv) = h"
  "snd (RestoreDBFromLatestBackup R w h argv) = h"
  by (auto simp: GCBackupEngine_def CreateNewBackup_def GetBackupInfo_def VerifyBackup_def StopBackup_def
      DeleteBackup_def PurgeOldBackup_def numbered_call_def RestoreDBFromBackup_def RestoreDBFromLatestBackup_def
      intro!: neutral)

definition engine_open :: "ref_heap \<Rightarrow> addr \<Rightarrow> bool" where
  "engine_open h a \<longleftrightarrow>
     (case mem h a of
        None \<Rightarrow> False
      | Some ob \<Rightarrow> kind ob = BackupEngineObject \<and> m_CloseRequested ob = 0 \<and> m_Native ob)"

lemma with_engine_runs:
  assumes "engine_open h a" "f a (RefInc h a) = (r, RefInc h a)"
  shows "with_backup_engine h (ERef a) bad f = (r, h)"
proof -
  obtain ob where ob: "mem h a = Some ob" "kind ob = BackupEngineObject" "m_CloseRequested ob = 0" "m_Native ob"
    using assms(1) by (auto simp: engine_open_def split: option.splits)
  then show ?thesis
    by (simp add: scope_defs in_scope_def RetrieveBackupEngineObject_def Retrieve_def ReferencePtr_assign_def
        ReferencePtr_drop_def assms(2) RefDec_RefInc)
qed

section \<open>RocksDB backup engines\<close>

text \<open>
  The documented behaviour of \<open>rocksdb::BackupEngine\<close>. \<open>backups w e\<close> are the backups of an
  engine in chronological order, \<open>latest w e\<close> the largest number it has given,
  \<open>durable w d\<close> what the files of a database hold and \<open>disk w db_dir wal_dir\<close> the database
  found in two directories. A new backup gets a number larger than all before it, also
  those of deleted backups. No other call adds a backup, whether it succeeds or not. A
  restore that succeeds leaves the content of the backup on disk.
\<close>

definition adds_none ::
    "('w \<Rightarrow> addr \<Rightarrow> (u32 \<times> 'c) list) \<Rightarrow> ('w \<Rightarrow> addr \<Rightarrow> u32) \<Rightarrow> addr \<Rightarrow> 'w \<Rightarrow> 'w \<Rightarrow> bool" where
  "adds_none backups latest e w w1 \<longleftrightarrow> set (backups w1 e) \<subseteq> set (backups w e) \<and> latest w e \<le> latest w1 e"

definition backup_laws ::
    "'w rocks_backup \<Rightarrow> ('w \<Rightarrow> addr \<Rightarrow> (u32 \<times> 'c) list) \<Rightarrow> ('w \<Rightarrow> addr \<Rightarrow> u32) \<Rightarrow> ('w \<Rightarrow> addr \<Rightarrow> 'c) \<Rightarrow>
       ('w \<Rightarrow> bytes \<Rightarrow> bytes \<Rightarrow> 'c option) \<Rightarrow> bool" where
  "backup_laws R backups latest durable disk \<longleftrightarrow>
     (\<forall>w e. map backup_id (be_GetBackupInfo R e w) = map fst (backups w e)) \<and>
     (\<forall>w e d s w1. be_CreateNewBackup R e d w = (s, w1) \<longrightarrow>
        (if status_ok s
         then latest w e < latest w1 e \<and> backups w1 e = backups w e @ [(latest w1 e, durable w d)]
         else adds_none backups latest e w w1)) \<and>
     (\<forall>w e n. adds_none backups latest e w (snd (be_DeleteBackup R e n w)) \<and>
        adds_none backups latest e w (snd (be_PurgeOldBackups R e n w)) \<and>
        adds_none backups latest e w (snd (be_VerifyBackup R e n w)) \<and>
        adds_none backups latest e w (snd (be_GarbageCollect R e w)) \<and>
        adds_none backups latest e w (be_StopBackup R e w)) \<and>
     (\<forall>w e n db_dir wal_dir. adds_none backups latest e w (snd (be_RestoreDBFromBackup R e n db_dir wal_dir w)) \<and>
        adds_none backups latest e w (snd (be_RestoreDBFromLatestBackup R e db_dir wal_dir w))) \<and>
     (\<forall>w e n db_dir wal_dir s w1. be_RestoreDBFromBackup R e n db_dir wal_dir w = (s, w1) \<longrightarrow> status_ok s \<longrightarrow>
        (\<exists>c. (n, c) \<in> set (backups w e) \<and> disk w1 db_dir wal_dir = Some c))"

lemma backup_lawsD:
  assumes "backup_laws R backups latest durable disk"
  shows info_numbers: "map backup_id (be_GetBackupInfo R e w) = map fst (backups w e)"
    and create_adds: "be_CreateNewBackup R e d w = (s, w1) \<Longrightarrow> status_ok s \<Longrightarrow>
      latest w e < latest w1 e \<and> backups w1 e = backups w e @ [(latest w1 e, durable w d)]"
    and create_fails: "be_CreateNewBackup R e d w = (s, w1) \<Longrightarrow> \<not> status_ok s \<Longrightarrow> adds_none backups latest e w w1"
    and restore_content: "be_RestoreDBFromBackup R e n db_dir wal_dir w = (s, w1) \<Longrightarrow> status_ok s \<Longrightarrow>
      \<exists>c. (n, c) \<in> set (backups w e) \<and> disk w1 db_dir wal_dir = Some c"
proof -
  note laws = assms [unfolded backup_laws_def]
  show "map backup_id (be_GetBackupInfo R e w) = map fst (backups w e)"
    using laws by meson
  show "be_CreateNewBackup R e d w = (s, w1) \<Longrightarrow> status_ok s \<Longrightarrow>
      latest w e < latest w1 e \<and> backups w1 e = backups w e @ [(latest w1 e, durable w d)]"
    "be_CreateNewBackup R e d w = (s, w1) \<Longrightarrow> \<not> status_ok s \<Longrightarrow> adds_none backups latest e w w1"
    using laws [THEN conjunct2, THEN conjunct1, rule_format, of e d w s w1] by simp_all
  show "be_RestoreDBFromBackup R e n db_dir wal_dir w = (s, w1) \<Longrightarrow> status_ok s \<Longrightarrow>
      \<exists>c. (n, c) \<in> set (backups w e) \<and> disk w1 db_dir wal_dir = Some c"
    using laws by meson
qed

lemma backup_laws_none:
  assumes "backup_laws R backups latest durable disk"
  shows "adds_none backups latest e w (snd (be_DeleteBackup R e n w))"
    "adds_none backups latest e w (snd (be_PurgeOldBackups R e n w))"
    "adds_none backups latest e w (snd (be_VerifyBackup R e n w))"
    "adds_none backups latest e w (snd (be_GarbageCollect R e w))"
    "adds_none backups latest e w (be_StopBackup R e w)"
    "adds_none backups latest e w (snd (be_RestoreDBFromBackup R e n db_dir wal_dir w))"
    "adds_none backups latest e w (snd (be_RestoreDBFromLatestBackup R e db_dir wal_dir w))"
  using assms by (simp_all add: backup_laws_def)

section \<open>Sessions\<close>

text \<open>The calls a program makes on an engine, with a database or a number or directories.\<close>

datatype backup_call =
    CallCreate addr | CallDelete u32 | CallPurge u32 | CallVerify u32 | CallGC | CallStop
  | CallRestore u32 bytes | CallRestoreLatest bytes

definition path_term :: "bytes \<Rightarrow> eterm" where
  "path_term p = enif_make_list (map (\<lambda>c. EInt (uint c)) p)"

fun run_backup_call ::
    "'w rocks_backup \<Rightarrow> addr \<Rightarrow> backup_call \<Rightarrow> 'w \<Rightarrow> ref_heap \<Rightarrow> (nif_result \<times> 'w) \<times> ref_heap" where
  "run_backup_call R e (CallCreate d) w h = CreateNewBackup R w h [ERef e, ERef d]"
| "run_backup_call R e (CallDelete n) w h = DeleteBackup R w h [ERef e, EInt (uint n)]"
| "run_backup_call R e (CallPurge n) w h = PurgeOldBackup R w h [ERef e, EInt (uint n)]"
| "run_backup_call R e (CallVerify n) w h = VerifyBackup R w h [ERef e, EInt (uint n)]"
| "run_backup_call R e CallGC w h = GCBackupEngine R w h [ERef e]"
| "run_backup_call R e CallStop w h = StopBackup R w h [ERef e]"
| "run_backup_call R e (CallRestore n dir) w h = RestoreDBFromBackup R w h [ERef e, EInt (uint n), path_term dir]"
| "run_backup_call R e (CallRestoreLatest dir) w h = RestoreDBFromLatestBackup R w h [ERef e, path_term dir]"

fun run_backup_calls ::
    "'w rocks_backup \<Rightarrow> addr \<Rightarrow> backup_call list \<Rightarrow> 'w \<Rightarrow> ref_heap \<Rightarrow> nif_result list \<times> 'w \<times> ref_heap" where
  "run_backup_calls R e [] w h = ([], w, h)"
| "run_backup_calls R e (c # cs) w h =
     (case run_backup_call R e c w h of
        ((r, w1), h1) \<Rightarrow> (case run_backup_calls R e cs w1 h1 of (rs, w2, h2) \<Rightarrow> (r # rs, w2, h2)))"

definition path_ok :: "bytes \<Rightarrow> bool" where
  "path_ok p \<longleftrightarrow> 0 \<notin> set p \<and> length p < 4096"

lemma get_path_term [simp]:
  assumes "path_ok p"
  shows "get_path (path_term p) = Some p"
proof -
  have "latin1_list (enif_make_list (map (\<lambda>c. EInt (uint c)) p)) = Some p"
  proof (induction p)
    case (Cons c p)
    have "latin1 (EInt (uint c)) = Some c"
      using uint_lt2p [of c] by simp
    then show ?case
      using Cons by (simp add: enif_make_list_def)
  qed (simp add: enif_make_list_def)
  then show ?thesis
    using assms by (auto simp: get_path_def path_term_def enif_get_string_def path_ok_def takeWhile_eq_all_conv)
qed

lemma get_uint_term: "enif_get_uint (EInt (uint (n :: u32))) = Some n"
  using uint_lt2p [of n] by simp

lemma run_status_Ok: "run_status r = (Ok t, w1) \<longleftrightarrow> t = status_result (fst r) \<and> w1 = snd r"
  by (cases r) (auto simp: run_status_def)

declare status_result_ok [simp]

lemmas backup_nif_defs = CreateNewBackup_def DeleteBackup_def PurgeOldBackup_def VerifyBackup_def GCBackupEngine_def
  StopBackup_def RestoreDBFromBackup_def RestoreDBFromLatestBackup_def numbered_call_def

text \<open>A call on an open engine leaves the heap as it was and, but for a successful creation, adds no backup.\<close>

lemma backup_call_heap: "snd (run_backup_call R e c w h) = h"
  by (cases c) (simp_all add: backup_heap)

lemma backup_call_adds_none:
  assumes laws: "backup_laws R backups latest durable disk" and open_e: "engine_open h e"
    and c: "\<And>d. c \<noteq> CallCreate d"
  shows "adds_none backups latest e w (snd (fst (run_backup_call R e c w h)))"
proof -
  have none: "adds_none backups latest e w w"
    by (simp add: adds_none_def)
  have run: "snd (fst (with_backup_engine h (ERef e) (Failed, w) (\<lambda>be h1. (f be, h1)))) = snd (f e)"
    for f :: "addr \<Rightarrow> nif_result \<times> 'a"
    by (subst with_engine_runs [OF open_e]) simp_all
  show ?thesis
    using c backup_laws_none [OF laws] none
    by (cases c) (auto simp: backup_nif_defs run run_status_def case_prod_beta split: option.split)
qed

lemma create_backup_runs:
  assumes "engine_open h e" "db_open h d"
  shows "CreateNewBackup R w h [ERef e, ERef d] = (run_status (be_CreateNewBackup R e d w), h)"
  unfolding CreateNewBackup_def nth_Cons_0
  by (intro with_engine_runs [OF assms(1)], simp, intro with_db_runs) (use assms(2) in simp_all)

lemma numbered_call_runs:
  assumes "engine_open h e"
  shows "numbered_call f w h [ERef e, EInt (uint n)] = (run_status (f e n w), h)"
  unfolding numbered_call_def nth_Cons_0
  by (intro with_engine_runs [OF assms]) (simp add: get_uint_term del: enif_get_uint.simps)

lemma restore_runs:
  assumes "engine_open h e" "path_ok dir"
  shows "RestoreDBFromBackup R w h [ERef e, EInt (uint n), path_term dir] =
    (run_status (be_RestoreDBFromBackup R e n dir dir w), h)"
  unfolding RestoreDBFromBackup_def nth_Cons_0
  by (intro with_engine_runs [OF assms(1)])
    (simp add: restore_dirs_def assms(2) get_uint_term del: enif_get_uint.simps)

text \<open>The backup with a number that was given once holds the same content ever after.\<close>

definition fixed_backup ::
    "('w \<Rightarrow> addr \<Rightarrow> (u32 \<times> 'c) list) \<Rightarrow> ('w \<Rightarrow> addr \<Rightarrow> u32) \<Rightarrow> addr \<Rightarrow> u32 \<Rightarrow> 'c \<Rightarrow> 'w \<Rightarrow> bool" where
  "fixed_backup backups latest e n x w \<longleftrightarrow>
     n \<le> latest w e \<and> (\<forall>b \<in> set (backups w e). fst b = n \<longrightarrow> snd b = x)"

lemma fixed_backup_step:
  assumes laws: "backup_laws R backups latest durable disk" and open_e: "engine_open h e"
    and dbs: "\<And>d. c = CallCreate d \<Longrightarrow> db_open h d" and fixed: "fixed_backup backups latest e n x w"
  shows "fixed_backup backups latest e n x (snd (fst (run_backup_call R e c w h)))"
proof -
  have keep: "fixed_backup backups latest e n x w1" if "adds_none backups latest e w w1" for w1
    using that fixed by (force simp: adds_none_def fixed_backup_def)
  show ?thesis
  proof (cases "\<exists>d. c = CallCreate d")
    case True
    then obtain d where c: "c = CallCreate d" "db_open h d"
      using dbs by blast
    obtain s w1 where create: "be_CreateNewBackup R e d w = (s, w1)"
      by fastforce
    have "fixed_backup backups latest e n x w1"
    proof (cases "status_ok s")
      case True
      then show ?thesis
        using create_adds [OF laws create] fixed by (auto simp: fixed_backup_def)
    qed (use create_fails [OF laws create] keep in blast)
    then show ?thesis
      using c by (simp add: create_backup_runs [OF open_e] run_status_def create)
  qed (use backup_call_adds_none [OF laws open_e] keep in blast)
qed

lemma fixed_backup_calls:
  assumes "backup_laws R backups latest durable disk" "engine_open h e" "\<And>d. CallCreate d \<in> set cs \<Longrightarrow> db_open h d"
    and "fixed_backup backups latest e n x w" "run_backup_calls R e cs w h = (rs, w1, h1)"
  shows "h1 = h \<and> fixed_backup backups latest e n x w1"
  using assms(3-)
proof (induction cs arbitrary: w rs)
  case (Cons c cs)
  obtain r v where call: "run_backup_call R e c w h = ((r, v), h)"
    using backup_call_heap [of R e c w h] by (cases "run_backup_call R e c w h") auto
  have "fixed_backup backups latest e n x v"
    using fixed_backup_step [OF assms(1,2) _ Cons.prems(2), of c] Cons.prems(1) call by auto
  then show ?case
    using Cons.IH [of v] Cons.prems(1,3) call by (auto split: prod.splits)
qed simp

text \<open>The number of a backup as a program reads it: of the first map of the answer.\<close>

fun newest_backup :: "nif_result \<Rightarrow> eterm option" where
  "newest_backup (Ok (ETuple [EAtom ok, ECons (EMap kvs) rest])) = map_of kvs (EAtom ''backup_id'')"
| "newest_backup _ = None"

lemma GetBackupInfo_open:
  assumes "engine_open h e"
  shows "GetBackupInfo R w h [ERef e] =
    ((Ok (ok_tuple (enif_make_list (rev (map backup_info_map (be_GetBackupInfo R e w))))), w), h)"
proof -
  have "fold (\<lambda>i. ECons (backup_info_map i)) xs t = foldr ECons (rev (map backup_info_map xs)) t" for xs t
    by (induction xs arbitrary: t) simp_all
  then show ?thesis
    unfolding GetBackupInfo_def nth_Cons_0
    by (intro with_engine_runs [OF assms]) (simp add: enif_make_list_def)
qed

lemma newest_backup_last:
  assumes "map backup_id infos = ns @ [n]"
  shows "newest_backup (Ok (ok_tuple (enif_make_list (rev (map backup_info_map infos))))) = Some (EInt (uint n))"
  using assms
  by (cases infos rule: rev_cases) (auto simp: ok_tuple_def enif_make_list_def backup_info_map_def)

text \<open>
  Claim C32. A backup is what it was: when a backup is created and its number is read from the
  newest entry of the backup information, then after any other calls on the engine
  (creations, deletions, purges, restores) a restore of that number that succeeds puts on
  disk what the database held when the backup was made, never another backup. No call
  keeps a reference.
\<close>

theorem backup_restore_roundtrip:
  assumes "backup_laws R backups latest durable disk" "engine_open h e" "db_open h d"
    and "\<forall>b \<in> set (backups w e). fst b \<le> latest w e"
    and "CreateNewBackup R w h [ERef e, ERef d] = ((Ok e_ok, w1), h1)"
    and "newest_backup (fst (fst (GetBackupInfo R w1 h1 [ERef e]))) = Some number"
    and "\<And>d. CallCreate d \<in> set cs \<Longrightarrow> db_open h d"
    and "run_backup_calls R e cs w1 h1 = (rs, w2, h2)"
    and "RestoreDBFromBackup R w2 h2 [ERef e, number, path_term dir] = ((Ok e_ok, w3), h3)" "path_ok dir"
  shows "disk w3 dir dir = Some (durable w d) \<and> h3 = h"
proof -
  obtain s where s: "be_CreateNewBackup R e d w = (s, w1)" "status_ok s" and h1: "h1 = h"
    using assms(5) by (cases "be_CreateNewBackup R e d w") (auto simp: create_backup_runs [OF assms(2,3)] run_status_Ok)
  note new = create_adds [OF assms(1) s]
  define n where "n = latest w1 e"
  have number: "number = EInt (uint n)"
    using assms(6) info_numbers [OF assms(1), of e w1] new
    by (simp add: h1 GetBackupInfo_open [OF assms(2)] newest_backup_last n_def)
  have "fixed_backup backups latest e n (durable w d) w1"
    using new assms(4) by (force simp: fixed_backup_def n_def)
  then have fixed: "h2 = h \<and> fixed_backup backups latest e n (durable w d) w2"
    using fixed_backup_calls [OF assms(1,2) assms(7) _ assms(8) [unfolded h1]] by blast
  have "RestoreDBFromBackup R w2 h [ERef e, number, path_term dir] =
      (run_status (be_RestoreDBFromBackup R e n dir dir w2), h)"
    unfolding number by (rule restore_runs [OF assms(2,10)])
  then have "be_RestoreDBFromBackup R e n dir dir w2 = (fst (be_RestoreDBFromBackup R e n dir dir w2), w3)" "h3 = h"
    "status_ok (fst (be_RestoreDBFromBackup R e n dir dir w2))"
    using assms(9) fixed by (auto simp: run_status_Ok)
  then show ?thesis
    using restore_content [OF assms(1)] fixed by (fastforce simp: fixed_backup_def)
qed

text \<open>An engine that keeps its backups in a list.\<close>

record backup_world =
  bw_content :: "addr \<Rightarrow> bytes"
  bw_backups :: "(u32 \<times> bytes) list"
  bw_latest :: u32
  bw_disk :: "bytes \<Rightarrow> bytes \<Rightarrow> bytes option"

definition not_found_status :: status where
  "not_found_status = \<lparr>code = kNotFound, ToString = ''NotFound: ''\<rparr>"

definition restore_to :: "bytes option \<Rightarrow> bytes \<Rightarrow> bytes \<Rightarrow> backup_world \<Rightarrow> status \<times> backup_world" where
  "restore_to found db_dir wal_dir w =
     (case found of
        None \<Rightarrow> (not_found_status, w)
      | Some c \<Rightarrow> (ok_status, w\<lparr>bw_disk := (bw_disk w)(db_dir := (bw_disk w db_dir)(wal_dir := Some c))\<rparr>))"

definition list_engine :: "backup_world rocks_backup" where
  "list_engine =
     \<lparr>be_Open = (\<lambda>e path w. (ok_status, w)),
      be_GarbageCollect = (\<lambda>e w. (ok_status, w)),
      be_CreateNewBackup = (\<lambda>e d w.
        if bw_latest w = - 1 then (not_found_status, w)
        else (ok_status, w\<lparr>bw_backups := bw_backups w @ [(bw_latest w + 1, bw_content w d)],
                           bw_latest := bw_latest w + 1\<rparr>)),
      be_GetBackupInfo = (\<lambda>e w. map (\<lambda>b. \<lparr>backup_id = fst b, timestamp = 0, backup_size = of_nat (length (snd b)),
        number_files = 1\<rparr>) (bw_backups w)),
      be_VerifyBackup = (\<lambda>e n w. (ok_status, w)),
      be_StopBackup = (\<lambda>e w. w),
      be_DeleteBackup = (\<lambda>e n w. (ok_status, w\<lparr>bw_backups := filter (\<lambda>b. fst b \<noteq> n) (bw_backups w)\<rparr>)),
      be_PurgeOldBackups = (\<lambda>e n w. (ok_status, w\<lparr>bw_backups := drop (length (bw_backups w) - unat n) (bw_backups w)\<rparr>)),
      be_RestoreDBFromBackup = (\<lambda>e n db_dir wal_dir w. restore_to (map_of (bw_backups w) n) db_dir wal_dir w),
      be_RestoreDBFromLatestBackup = (\<lambda>e db_dir wal_dir w.
        restore_to (if bw_backups w = [] then None else Some (snd (last (bw_backups w)))) db_dir wal_dir w)\<rparr>"

abbreviation "list_backups \<equiv> (\<lambda>w (e :: addr). bw_backups w)"
abbreviation "list_latest \<equiv> (\<lambda>w (e :: addr). bw_latest w)"

lemma next_number: "n \<noteq> - 1 \<Longrightarrow> n < n + 1" for n :: u32
  by (meson inc_less_eq_triv_imp not_le)

lemma list_engine_laws: "backup_laws list_engine list_backups list_latest bw_content bw_disk"
  unfolding backup_laws_def
proof (intro conjI allI impI)
  fix w e d s w1
  assume "be_CreateNewBackup list_engine e d w = (s, w1)"
  then show "if status_ok s
      then bw_latest w < bw_latest w1 \<and> bw_backups w1 = bw_backups w @ [(bw_latest w1, bw_content w d)]
      else adds_none list_backups list_latest e w w1"
    using next_number [of "bw_latest w"]
    by (auto simp: list_engine_def adds_none_def status_ok_def not_found_status_def ok_status_def split: if_splits)
qed (auto simp: list_engine_def adds_none_def restore_to_def status_ok_def not_found_status_def map_of_SomeD
    dest: in_set_dropD split: option.splits)

definition engine_heap :: ref_heap where
  "engine_heap = snd (CreateBackupEngineObject db_heap)"

definition demo_world :: backup_world where
  "demo_world = \<lparr>bw_content = (\<lambda>d. [7]), bw_backups = [], bw_latest = 0, bw_disk = (\<lambda>d l. None)\<rparr>"

lemma engine_heap_open: "engine_open engine_heap 1 \<and> db_open engine_heap 0"
  by code_simp

lemma demo_create:
  "fst (CreateNewBackup list_engine demo_world engine_heap [ERef 1, ERef 0]) =
     (Ok e_ok, demo_world\<lparr>bw_backups := [(1, [7])], bw_latest := 1\<rparr>)"
  using engine_heap_open by (simp add: create_backup_runs list_engine_def demo_world_def run_status_def status_result_def
      status_ok_def ok_status_def)

theorem backup_restore_roundtrip_witness:
  "\<exists>w2 w3.
     run_backup_calls list_engine 1 [CallCreate 0, CallPurge 2, CallDelete 2]
       (snd (fst (CreateNewBackup list_engine demo_world engine_heap [ERef 1, ERef 0]))) engine_heap =
       ([Ok e_ok, Ok e_ok, Ok e_ok], w2, engine_heap) \<and>
     RestoreDBFromBackup list_engine w2 engine_heap [ERef 1, EInt 1, path_term [100]] = ((Ok e_ok, w3), engine_heap) \<and>
     bw_disk w3 [100] [100] = Some [7]"
proof -
  have o: "engine_open engine_heap 1" "db_open engine_heap 0"
    using engine_heap_open by simp_all
  let ?w1 = "demo_world\<lparr>bw_backups := [(1, [7])], bw_latest := 1\<rparr>"
  let ?w2 = "demo_world\<lparr>bw_backups := [(1, [7])], bw_latest := 2\<rparr>"
  have create: "CreateNewBackup list_engine demo_world engine_heap [ERef 1, ERef 0] = ((Ok e_ok, ?w1), engine_heap)"
    using demo_create backup_heap(2) [of list_engine demo_world engine_heap "[ERef 1, ERef 0]"] by (metis prod.collapse)
  have num: "numbered_call f w engine_heap [ERef 1, EInt 2] = (run_status (f 1 2 w), engine_heap)"
    for f and w :: backup_world
    using numbered_call_runs [OF o(1), of f w 2] by (simp del: One_nat_def)
  have calls: "run_backup_calls list_engine 1 [CallCreate 0, CallPurge 2, CallDelete 2] ?w1 engine_heap =
      ([Ok e_ok, Ok e_ok, Ok e_ok], ?w2, engine_heap)"
    by (simp add: create_backup_runs [OF o] PurgeOldBackup_def DeleteBackup_def num
        list_engine_def demo_world_def run_status_def status_result_def status_ok_def ok_status_def del: One_nat_def)
  have path: "path_ok [100]"
    by (simp add: path_ok_def)
  let ?w3 = "snd (restore_to (Some [7]) [100] [100] ?w2)"
  have restore: "RestoreDBFromBackup list_engine ?w2 engine_heap [ERef 1, EInt 1, path_term [100]] = ((Ok e_ok, ?w3), engine_heap)"
    using restore_runs [OF o(1) path, of list_engine ?w2 1]
    by (simp add: list_engine_def restore_to_def run_status_def status_result_def status_ok_def ok_status_def)
  have number: "newest_backup (fst (fst (GetBackupInfo list_engine ?w1 engine_heap [ERef 1]))) = Some (EInt 1)"
    by (simp add: GetBackupInfo_open [OF o(1)] list_engine_def ok_tuple_def enif_make_list_def backup_info_map_def del: One_nat_def)
  have "bw_disk ?w3 [100] [100] = Some (bw_content demo_world 0) \<and> engine_heap = engine_heap"
    by (rule backup_restore_roundtrip [OF list_engine_laws o _ create number _ calls restore path])
      (use o in \<open>simp_all add: demo_world_def\<close>)
  then have "bw_disk ?w3 [100] [100] = Some [7]"
    by (simp add: demo_world_def)
  then show ?thesis
    unfolding create fst_conv snd_conv by (intro exI conjI) (rule calls, rule restore)
qed

end
