(* ===== verification/Db_Open.thy ===== *)
theory Db_Open
  imports Option_Props Backup_Nifs Handle_Nifs
begin

text \<open>
  Opening databases and what goes with it: the opening NIFs of \<open>c_src/erocksdb_db.cc\<close> (plain,
  read only, with column families, with a time to live, optimistic and pessimistic
  transactions), destroying and repairing a database, time to live, ingestion and column
  family metadata, and the NIFs of \<open>c_src/erocksdb_column_family.cc\<close> that list and create
  column families. The static functions and methods of RocksDB are the record
  \<open>rocks_open\<close>, an argument, on a state \<open>'w\<close>; the shared objects an option list can name
  are in the heap of \<open>Shared_Objects\<close>. A RocksDB database or column family handle is named
  by the address of the object that holds the pointer; \<open>AttachHandle\<close> stands for storing
  \<open>handles[i]\<close> of an open in such an object.
\<close>

section \<open>RocksDB\<close>

record txn_db_options =
  max_num_locks :: int
  num_stripes :: u64
  transaction_lock_timeout :: int
  default_lock_timeout :: int

datatype db_class = PlainDb | ReadOnlyDb | TtlDb "int list" bool | OptimisticDb | PessimisticDb txn_db_options

record blob_meta =
  blob_file_number :: u64
  blob_file_name :: bytes
  blob_file_path :: bytes
  bm_file_size :: u64
  total_blob_count :: u64
  total_blob_bytes :: u64
  garbage_blob_count :: u64
  garbage_blob_bytes :: u64

record cf_meta =
  cm_size :: u64
  file_count :: u64
  cm_name :: bytes
  cm_blob_file_size :: u64
  blob_files :: "blob_meta list"

record ingest_options =
  move_files :: bool
  failed_move_fall_back_to_copy :: bool
  snapshot_consistency :: bool
  allow_global_seqno :: bool
  allow_blocking_flush :: bool
  ingest_behind :: bool
  verify_checksums_before_ingest :: bool
  verify_checksums_readahead_size :: u64
  verify_file_checksum :: bool
  fail_if_not_bottommost_level :: bool
  allow_db_generated_files :: bool
  ingest_fill_cache :: bool

type_synonym cf_descriptor = "bytes \<times> options"

text \<open>
  The calls that open a database get the address of the object that will hold it and answer
  the number of handles, \<open>handles.size()\<close>. \<open>compressions\<close> are the compressions that RocksDB was built with.
\<close>

record 'w rocks_open =
  compressions :: "compression_type list"
  OpenDB :: "addr \<Rightarrow> db_class \<Rightarrow> options \<Rightarrow> options \<Rightarrow> bytes \<Rightarrow> 'w \<Rightarrow> status \<times> 'w"
  OpenCfs :: "addr \<Rightarrow> db_class \<Rightarrow> options \<Rightarrow> bytes \<Rightarrow> cf_descriptor list \<Rightarrow> 'w \<Rightarrow> status \<times> nat \<times> 'w"
  AttachHandle :: "addr \<Rightarrow> nat \<Rightarrow> addr \<Rightarrow> 'w \<Rightarrow> 'w"
  DestroyDB :: "bytes \<Rightarrow> options \<Rightarrow> options \<Rightarrow> 'w \<Rightarrow> status \<times> 'w"
  RepairDB :: "bytes \<Rightarrow> options \<Rightarrow> options \<Rightarrow> 'w \<Rightarrow> status \<times> 'w"
  ListCfs :: "options \<Rightarrow> bytes \<Rightarrow> 'w \<Rightarrow> status \<times> bytes list"
  CreateCf :: "addr \<Rightarrow> options \<Rightarrow> bytes \<Rightarrow> addr \<Rightarrow> 'w \<Rightarrow> status \<times> 'w"
  CreateCfWithTtl :: "addr \<Rightarrow> options \<Rightarrow> bytes \<Rightarrow> int \<Rightarrow> addr \<Rightarrow> 'w \<Rightarrow> status \<times> 'w"
  ttl_Get :: "addr \<Rightarrow> cf_arg \<Rightarrow> 'w \<Rightarrow> status \<times> int"
  ttl_Set :: "addr \<Rightarrow> cf_arg \<Rightarrow> int \<Rightarrow> 'w \<Rightarrow> 'w"
  CfMetaData :: "addr \<Rightarrow> cf_arg \<Rightarrow> 'w \<Rightarrow> cf_meta"
  IngestFiles :: "addr \<Rightarrow> cf_arg \<Rightarrow> bytes list \<Rightarrow> ingest_options \<Rightarrow> 'w \<Rightarrow> status \<times> 'w"

text \<open>The state of RocksDB with the shared objects.\<close>

type_synonym ('w, 'n) opened = "'w \<times> 'n shared_heap"

type_synonym ('w, 'n) open_nif =
  "'n rocks_shared \<Rightarrow> 'w rocks_open \<Rightarrow> ('w, 'n) opened \<Rightarrow> ref_heap \<Rightarrow> eterm list \<Rightarrow> (nif_result \<times> ('w, 'n) opened) \<times> ref_heap"

section \<open>Column family descriptors\<close>

text \<open>
  \<open>Ok e_ok\<close> goes on; \<open>Failed\<close> is the exception of \<open>enif_make_badarg\<close>, while a refused
  column family option ends the call with the atom \<open>badarg\<close>. An element that is no pair is
  skipped.
\<close>

definition parse_cf_descriptor ::
    "compression_type list \<Rightarrow> 'n shared_heap \<Rightarrow> eterm \<Rightarrow> cf_descriptor list \<Rightarrow> nif_result \<times> cf_descriptor list" where
  "parse_cf_descriptor supported S item cfs =
     (case enif_get_tuple item of
        Some [name, opts] \<Rightarrow>
          (case enif_get_string name 4096 of
             None \<Rightarrow> (Failed, cfs)
           | Some cf_name \<Rightarrow>
               if \<not> enif_is_list opts then (Failed, cfs)
               else (case fold_options (parse_cf_option supported S) (list_cells opts) (\<lambda>_. None) of
                       Ok (r, cf_opts) \<Rightarrow>
                         if r \<noteq> e_ok then (Ok r, cfs) else (Ok e_ok, cfs @ [(cf_name, cf_opts)])
                     | Failed \<Rightarrow> (Failed, cfs)
                     | Thrown \<Rightarrow> (Thrown, cfs)
                     | Undef \<Rightarrow> (Undef, cfs)))
      | _ \<Rightarrow> (Ok e_ok, cfs))"

text \<open>The loop \<open>while(enif_get_list_cell(...))\<close> of the opening NIFs, for a parser \<open>f\<close>.\<close>

fun parse_descriptors :: "(eterm \<Rightarrow> 'c list \<Rightarrow> nif_result \<times> 'c list) \<Rightarrow> eterm list \<Rightarrow> 'c list \<Rightarrow> nif_result \<times> 'c list" where
  "parse_descriptors f [] cfs = (Ok e_ok, cfs)"
| "parse_descriptors f (item # items) cfs =
     (case f item cfs of
        (r, cfs1) \<Rightarrow> if r = Ok e_ok then parse_descriptors f items cfs1 else (r, cfs1))"

text \<open>
  The loop that makes an object for each of the first \<open>n\<close> handles, where \<open>i\<close> of \<open>size\<close>
  handles were used; \<open>handles[i]\<close> beyond the end of the vector is undefined.
\<close>

fun create_cfs ::
    "'w rocks_open \<Rightarrow> addr \<Rightarrow> nat \<Rightarrow> nat list \<Rightarrow> 'w \<Rightarrow> ref_heap \<Rightarrow> eterm list outcome \<times> 'w \<times> ref_heap" where
  "create_cfs RO db handles [] w h = (Ok [], w, h)"
| "create_cfs RO db handles (i # is) w h =
     (if handles \<le> i then (Undef, w, h)
      else case CreateColumnFamilyObject h (Some db) of
        (a, h1) \<Rightarrow>
          (case create_cfs RO db handles is (AttachHandle RO db i a w) h1 of
             (r, w1, h2) \<Rightarrow> (bind_outcome r (\<lambda>ts. Ok (ERef a # ts)), w1, h2)))"

text \<open>The end of an open with column families, for the number of objects to make.\<close>

definition finish_open ::
    "'w rocks_open \<Rightarrow> 'n shared_heap \<Rightarrow> bool \<Rightarrow> nat option \<Rightarrow> status \<times> nat \<times> 'w \<Rightarrow> ref_heap \<Rightarrow>
       (nif_result \<times> ('w, 'n) opened) \<times> ref_heap" where
  "finish_open RO S pessimistic num_cols opened h =
     (case opened of
        (st, handles, w1) \<Rightarrow>
          if \<not> status_ok st then ((Ok (error_tuple (EAtom ''db_open'') st), w1, S), h)
          else (case CreateDbObject h pessimistic False of
            (db, h1) \<Rightarrow>
              (case num_cols of
                 None \<Rightarrow> ((Undef, w1, S), h1)
               | Some n \<Rightarrow>
                   (case create_cfs RO db handles [0..<n] w1 h1 of
                      (r, w2, h2) \<Rightarrow>
                        ((bind_outcome r (\<lambda>cfs. Ok (ETuple [e_ok, ERef db, enif_make_list cfs])), w2, S), h2)))))"

section \<open>Opening\<close>

text \<open>\<open>fold\<close> with both parsers over one list; the results of the folds are dropped.\<close>

definition both_options ::
    "'n rocks_shared \<Rightarrow> 'w rocks_open \<Rightarrow> 'n shared_heap \<Rightarrow> eterm \<Rightarrow> (options \<times> options \<times> 'n shared_heap) outcome" where
  "both_options R RO S t =
     bind_outcome (db_options_of R S t) (\<lambda>(db_opts, S1).
       bind_outcome (cf_options_of (compressions RO) S1 t) (\<lambda>cf_opts. Ok (db_opts, cf_opts, S1)))"

text \<open>The conversion of an outcome that is not a value to the result of the NIF.\<close>

definition on_outcome ::
    "'a outcome \<Rightarrow> ('a \<Rightarrow> (nif_result \<times> 's) \<times> ref_heap) \<Rightarrow> 's \<Rightarrow> ref_heap \<Rightarrow> (nif_result \<times> 's) \<times> ref_heap" where
  "on_outcome r f s h =
     (case r of Ok x \<Rightarrow> f x | Failed \<Rightarrow> ((Failed, s), h) | Thrown \<Rightarrow> ((Thrown, s), h) | Undef \<Rightarrow> ((Undef, s), h))"

text \<open>The end of an open without column families.\<close>

definition open_single ::
    "bool \<Rightarrow> status \<times> 'w \<Rightarrow> 'n shared_heap \<Rightarrow> ref_heap \<Rightarrow> (nif_result \<times> ('w, 'n) opened) \<times> ref_heap" where
  "open_single ttl opened S h =
     (case opened of
        (st, w1) \<Rightarrow>
          if \<not> status_ok st then ((Ok (error_tuple (EAtom ''db_open'') st), w1, S), h)
          else (case CreateDbObject h False ttl of (db, h1) \<Rightarrow> ((Ok (ok_tuple (ERef db)), w1, S), h1)))"

text \<open>The checks \<open>enif_get_string\<close> of the name and \<open>enif_is_list\<close> of the options.\<close>

definition name_and_list :: "eterm \<Rightarrow> eterm \<Rightarrow> bytes option" where
  "name_and_list name opts =
     (case enif_get_string name 4096 of None \<Rightarrow> None | Some db_name \<Rightarrow> if enif_is_list opts then Some db_name else None)"

definition Open_base :: "db_class \<Rightarrow> ('w, 'n) open_nif" where
  "Open_base cls R RO s h argv =
     (case s of (w, S) \<Rightarrow>
        (case name_and_list (argv ! 0) (argv ! 1) of
           None \<Rightarrow> ((Failed, s), h)
         | Some db_name \<Rightarrow>
             on_outcome (both_options R RO S (argv ! 1)) (\<lambda>(db_opts, cf_opts, S1).
               open_single False (OpenDB RO (next_addr h) cls db_opts cf_opts db_name w) S1 h) s h))"

definition Open :: "('w, 'n) open_nif" where
  "Open = Open_base PlainDb"

definition OpenReadOnly :: "('w, 'n) open_nif" where
  "OpenReadOnly = Open_base ReadOnlyDb"

definition OpenWithTTL :: "('w, 'n) open_nif" where
  "OpenWithTTL R RO s h argv =
     (case s of (w, S) \<Rightarrow>
        (case name_and_list (argv ! 0) (argv ! 1) of
           None \<Rightarrow> ((Failed, s), h)
         | Some db_name \<Rightarrow>
             if \<not> enif_is_atom (argv ! 3) then ((Failed, s), h)
             else (case enif_get_int (argv ! 2) of
                     None \<Rightarrow> ((Failed, s), h)
                   | Some ttl \<Rightarrow>
                       on_outcome (both_options R RO S (argv ! 1)) (\<lambda>(db_opts, cf_opts, S1).
                         open_single True
                           (OpenDB RO (next_addr h) (TtlDb [ttl] (argv ! 3 = EAtom ''true'')) db_opts cf_opts db_name w) S1 h)
                         s h)))"

text \<open>
  With column families: the number of objects is the length of the list, which is not set
  for an improper list.
\<close>

definition OpenWithCf_base :: "db_class \<Rightarrow> ('w, 'n) open_nif" where
  "OpenWithCf_base cls R RO s h argv =
     (case s of (w, S) \<Rightarrow>
        (case name_and_list (argv ! 0) (argv ! 1) of
           None \<Rightarrow> ((Failed, s), h)
         | Some db_name \<Rightarrow>
             if \<not> enif_is_list (argv ! 2) then ((Failed, s), h)
             else on_outcome (db_options_of R S (argv ! 1)) (\<lambda>(db_opts, S1).
               case parse_descriptors (parse_cf_descriptor (compressions RO) S1) (list_cells (argv ! 2)) [] of
                 (r, cfs) \<Rightarrow>
                   if r \<noteq> Ok e_ok then ((r, w, S1), h)
                   else finish_open RO S1 False (enif_get_list_length (argv ! 2))
                          (OpenCfs RO (next_addr h) cls db_opts db_name cfs w) h) s h))"

definition OpenWithCf :: "('w, 'n) open_nif" where
  "OpenWithCf = OpenWithCf_base PlainDb"

definition OpenWithCfReadOnly :: "('w, 'n) open_nif" where
  "OpenWithCfReadOnly = OpenWithCf_base ReadOnlyDb"

definition OpenOptimisticTransactionDB :: "('w, 'n) open_nif" where
  "OpenOptimisticTransactionDB = OpenWithCf_base OptimisticDb"

definition TransactionDBOptions_init :: txn_db_options where
  "TransactionDBOptions_init =
     \<lparr>max_num_locks = - 1, num_stripes = 16, transaction_lock_timeout = 1000, default_lock_timeout = 1000\<rparr>"

definition parse_txn_db_option :: "eterm \<Rightarrow> txn_db_options \<Rightarrow> eterm \<times> txn_db_options" where
  "parse_txn_db_option item opts =
     (e_ok,
      case enif_get_tuple item of
        Some [name, val] \<Rightarrow>
          let i = enif_get_int64 val
          in if name = EAtom ''max_num_locks'' then (case i of None \<Rightarrow> opts | Some n \<Rightarrow> opts\<lparr>max_num_locks := n\<rparr>)
             else if name = EAtom ''num_stripes''
             then (case enif_get_uint64 val of None \<Rightarrow> opts | Some n \<Rightarrow> opts\<lparr>num_stripes := n\<rparr>)
             else if name = EAtom ''transaction_lock_timeout''
             then (case i of None \<Rightarrow> opts | Some n \<Rightarrow> opts\<lparr>transaction_lock_timeout := n\<rparr>)
             else if name = EAtom ''default_lock_timeout''
             then (case i of None \<Rightarrow> opts | Some n \<Rightarrow> opts\<lparr>default_lock_timeout := n\<rparr>)
             else opts
      | _ \<Rightarrow> opts)"

text \<open>Without a list of column families there is the default one; the number of objects is \<open>column_families.size()\<close>.\<close>

definition default_descriptors :: "cf_descriptor list" where
  "default_descriptors = [(map (\<lambda>c. of_char c) ''default'', \<lambda>_. None)]"

definition OpenPessimisticTransactionDB :: "('w, 'n) open_nif" where
  "OpenPessimisticTransactionDB R RO s h argv =
     (case s of (w, S) \<Rightarrow>
        (case name_and_list (argv ! 0) (argv ! 1) of
           None \<Rightarrow> ((Failed, s), h)
         | Some db_name \<Rightarrow>
             on_outcome (db_options_of R S (argv ! 1)) (\<lambda>(db_opts, S1).
               let txn_db_opts = snd (nif_fold parse_txn_db_option (argv ! 1) TransactionDBOptions_init);
                   parsed = (if length argv = 3
                             then if \<not> enif_is_list (argv ! 2) then (Failed, [])
                                  else parse_descriptors (parse_cf_descriptor (compressions RO) S1) (list_cells (argv ! 2)) []
                             else (Ok e_ok, default_descriptors))
               in case parsed of
                    (r, cfs) \<Rightarrow>
                      if r \<noteq> Ok e_ok then ((r, w, S1), h)
                      else finish_open RO S1 True (Some (length cfs))
                             (OpenCfs RO (next_addr h) (PessimisticDb txn_db_opts) db_opts db_name cfs w) h) s h))"

text \<open>
  A time to live for each column family. Here an element must be a triple, and the result of
  the fold over the options of a column family is dropped. The objects are made from the
  last handle to the first.
\<close>

definition parse_ttl_descriptor ::
    "compression_type list \<Rightarrow> 'n shared_heap \<Rightarrow> eterm \<Rightarrow> (cf_descriptor \<times> int) list \<Rightarrow>
       nif_result \<times> (cf_descriptor \<times> int) list" where
  "parse_ttl_descriptor supported S item cfs =
     (case enif_get_tuple item of
        Some [name, opts, t] \<Rightarrow>
          (case name_and_list name opts of
             None \<Rightarrow> (Failed, cfs)
           | Some cf_name \<Rightarrow>
               (case cf_options_of supported S opts of
                  Ok cf_opts \<Rightarrow>
                    (case enif_get_int t of
                       None \<Rightarrow> (Failed, cfs)
                     | Some ttl \<Rightarrow> (Ok e_ok, cfs @ [((cf_name, cf_opts), ttl)]))
                | Failed \<Rightarrow> (Failed, cfs)
                | Thrown \<Rightarrow> (Thrown, cfs)
                | Undef \<Rightarrow> (Undef, cfs)))
      | _ \<Rightarrow> (Failed, cfs))"

definition OpenWithTTLCf :: "('w, 'n) open_nif" where
  "OpenWithTTLCf R RO s h argv =
     (case s of (w, S) \<Rightarrow>
        (case name_and_list (argv ! 0) (argv ! 1) of
           None \<Rightarrow> ((Failed, s), h)
         | Some db_name \<Rightarrow>
             if \<not> enif_is_list (argv ! 2) \<or> \<not> enif_is_atom (argv ! 3) then ((Failed, s), h)
             else on_outcome (db_options_of R S (argv ! 1)) (\<lambda>(db_opts, S1).
               case parse_descriptors (parse_ttl_descriptor (compressions RO) S1) (list_cells (argv ! 2)) [] of
                 (r, cfs) \<Rightarrow>
                   if r \<noteq> Ok e_ok then ((r, w, S1), h)
                   else (case OpenCfs RO (next_addr h) (TtlDb (map snd cfs) (argv ! 3 = EAtom ''true'')) db_opts db_name
                                (map fst cfs) w of
                     (st, handles, w1) \<Rightarrow>
                       if \<not> status_ok st then ((Ok (error_tuple (EAtom ''db_open'') st), w1, S1), h)
                       else (case CreateDbObject h False True of
                         (db, h1) \<Rightarrow>
                           (case create_cfs RO db handles (rev [0..<handles]) w1 h1 of
                              (r, w2, h2) \<Rightarrow>
                                ((bind_outcome r (\<lambda>ts. Ok (ETuple [e_ok, ERef db, enif_make_list (rev ts)])), w2, S1), h2)))))
                 s h))"

section \<open>Databases on disk\<close>

definition on_disk ::
    "string \<Rightarrow> (bytes \<Rightarrow> options \<Rightarrow> options \<Rightarrow> 'w \<Rightarrow> status \<times> 'w) \<Rightarrow> ('w, 'n) open_nif" where
  "on_disk error call R RO s h argv =
     (case s of (w, S) \<Rightarrow>
        (case name_and_list (argv ! 0) (argv ! 1) of
           None \<Rightarrow> ((Failed, s), h)
         | Some name \<Rightarrow>
             on_outcome (both_options R RO S (argv ! 1)) (\<lambda>(db_opts, cf_opts, S1).
               case call name db_opts cf_opts w of
                 (st, w1) \<Rightarrow> ((Ok (if status_ok st then e_ok else error_tuple (EAtom error) st), w1, S1), h)) s h))"

definition Destroy :: "('w, 'n) open_nif" where
  "Destroy R RO = on_disk ''error_db_destroy'' (DestroyDB RO) R RO"

definition Repair :: "('w, 'n) open_nif" where
  "Repair R RO = on_disk ''error_db_repair'' (RepairDB RO) R RO"

text \<open>\<open>enif_make_string(env, name.c_str(), ERL_NIF_LATIN1)\<close>\<close>

definition c_string_term :: "bytes \<Rightarrow> eterm" where
  "c_string_term name = enif_make_list (map (\<lambda>c. EInt (uint c)) (takeWhile (\<lambda>c. c \<noteq> 0) name))"

definition ListColumnFamilies :: "('w, 'n) open_nif" where
  "ListColumnFamilies R RO s h argv =
     (case s of (w, S) \<Rightarrow>
        (case name_and_list (argv ! 0) (argv ! 1) of
           None \<Rightarrow> ((Failed, s), h)
         | Some db_name \<Rightarrow>
             on_outcome (db_options_of R S (argv ! 1)) (\<lambda>(db_opts, S1).
               case ListCfs RO db_opts db_name w of
                 (st, names) \<Rightarrow>
                   ((Ok (if status_ok st then ok_tuple (enif_make_list (map c_string_term names))
                         else error_tuple (EAtom ''db_open'') st), w, S1), h)) s h))"

section \<open>Column families\<close>

definition CreateColumnFamily :: "('w, 'n) open_nif" where
  "CreateColumnFamily R RO s h argv =
     (case s of (w, S) \<Rightarrow>
        with_db h (argv ! 0) (Failed, s) (\<lambda>db h1.
          if (case mem h1 db of None \<Rightarrow> True | Some ob \<Rightarrow> m_CloseRequested ob \<noteq> 0) then ((Failed, s), h1)
          else case name_and_list (argv ! 1) (argv ! 2) of
            None \<Rightarrow> ((Failed, s), h1)
          | Some cf_name \<Rightarrow>
              on_outcome (fold_options (parse_cf_option (compressions RO) S) (list_cells (argv ! 2)) (\<lambda>_. None)) (\<lambda>(r, opts).
                if r \<noteq> e_ok then ((Ok r, s), h1)
                else case CreateCf RO db opts cf_name (next_addr h1) w of
                  (st, w1) \<Rightarrow>
                    if \<not> status_ok st then ((Ok (error_tuple (EAtom ''error'') st), w1, S), h1)
                    else case CreateColumnFamilyObject h1 (Some db) of
                      (cf, h2) \<Rightarrow> ((Ok (ok_tuple (ERef cf)), w1, S), h2)) s h1))"

section \<open>Time to live\<close>

text \<open>The pointers of these NIFs are not counted.\<close>

definition on_ttl ::
    "ref_heap \<Rightarrow> eterm \<Rightarrow> 's \<Rightarrow> (addr \<Rightarrow> (nif_result \<times> 's) \<times> ref_heap) \<Rightarrow> (nif_result \<times> 's) \<times> ref_heap" where
  "on_ttl h t s f =
     (case RetrieveDbObject h t of
        None \<Rightarrow> ((Failed, s), h)
      | Some db \<Rightarrow>
          if \<not> (case mem h db of Some ob \<Rightarrow> m_IsTTL ob | None \<Rightarrow> False)
          then ((Ok (error_tuple_msg (EAtom ''error'') ''not a TTL database''), s), h)
          else f db)"

definition GetTtl :: "'w rocks_open \<Rightarrow> 'w \<Rightarrow> ref_heap \<Rightarrow> eterm list \<Rightarrow> (nif_result \<times> 'w) \<times> ref_heap" where
  "GetTtl RO w h argv =
     on_ttl h (argv ! 0) w (\<lambda>db.
       case RetrieveColumnFamilyObject h (argv ! 1) of
         None \<Rightarrow> ((Failed, w), h)
       | Some cf \<Rightarrow>
           (case ttl_Get RO db (cf_handle h cf) w of
              (st, ttl) \<Rightarrow>
                ((Ok (if status_ok st then ok_tuple (EInt ttl) else error_tuple (EAtom ''error'') st), w), h)))"

definition SetTtl :: "'w rocks_open \<Rightarrow> 'w \<Rightarrow> ref_heap \<Rightarrow> eterm list \<Rightarrow> (nif_result \<times> 'w) \<times> ref_heap" where
  "SetTtl RO w h argv =
     on_ttl h (argv ! 0) w (\<lambda>db.
       if length argv = 2
       then (case enif_get_int (argv ! 1) of
               None \<Rightarrow> ((Failed, w), h)
             | Some ttl \<Rightarrow> ((Ok e_ok, ttl_Set RO db NoCf ttl w), h))
       else (case RetrieveColumnFamilyObject h (argv ! 1) of
               None \<Rightarrow> ((Failed, w), h)
             | Some cf \<Rightarrow>
                 (case enif_get_int (argv ! 2) of
                    None \<Rightarrow> ((Failed, w), h)
                  | Some ttl \<Rightarrow> ((Ok e_ok, ttl_Set RO db (cf_handle h cf) ttl w), h))))"

definition CreateColumnFamilyWithTtl :: "('w, 'n) open_nif" where
  "CreateColumnFamilyWithTtl R RO s h argv =
     (case s of (w, S) \<Rightarrow>
        on_ttl h (argv ! 0) s (\<lambda>db.
          case name_and_list (argv ! 1) (argv ! 2) of
            None \<Rightarrow> ((Failed, s), h)
          | Some cf_name \<Rightarrow>
              (case enif_get_int (argv ! 3) of
                 None \<Rightarrow> ((Failed, s), h)
               | Some ttl \<Rightarrow>
                   on_outcome (cf_options_of (compressions RO) S (argv ! 2)) (\<lambda>cf_opts.
                     case CreateCfWithTtl RO db cf_opts cf_name ttl (next_addr h) w of
                       (st, w1) \<Rightarrow>
                         if \<not> status_ok st then ((Ok (error_tuple (EAtom ''error'') st), w1, S), h)
                         else case CreateColumnFamilyObject h (Some db) of
                           (cf, h1) \<Rightarrow> ((Ok (ok_tuple (ERef cf)), w1, S), h1)) s h)))"

section \<open>Metadata and ingestion\<close>

definition blob_map :: "blob_meta \<Rightarrow> eterm" where
  "blob_map b =
     EMap [(EAtom ''blob_file_number'', EInt (uint (blob_file_number b))),
           (EAtom ''blob_file_name'', EBin (blob_file_name b)),
           (EAtom ''blob_file_path'', EBin (blob_file_path b)),
           (EAtom ''size'', EInt (uint (bm_file_size b))),
           (EAtom ''total_blob_count'', EInt (uint (total_blob_count b))),
           (EAtom ''total_blob_bytes'', EInt (uint (total_blob_bytes b))),
           (EAtom ''garbage_blob_count'', EInt (uint (garbage_blob_count b))),
           (EAtom ''garbage_blob_bytes'', EInt (uint (garbage_blob_bytes b)))]"

text \<open>The loop runs from the last blob file to the first, and its list is reversed once more.\<close>

definition cf_meta_map :: "cf_meta \<Rightarrow> eterm" where
  "cf_meta_map m =
     EMap [(EAtom ''size'', EInt (uint (cm_size m))), (EAtom ''file_count'', EInt (uint (file_count m))),
           (EAtom ''name'', EBin (cm_name m)), (EAtom ''blob_file_size'', EInt (uint (cm_blob_file_size m))),
           (EAtom ''blob_files'', enif_make_list (rev (fold (\<lambda>b ts. blob_map b # ts) (rev (blob_files m)) [])))]"

definition GetColumnFamilyMetaData :: "'w rocks_open \<Rightarrow> 'w \<Rightarrow> ref_heap \<Rightarrow> eterm list \<Rightarrow> nif_result \<times> ref_heap" where
  "GetColumnFamilyMetaData RO w h argv =
     with_db h (argv ! 0) Failed (\<lambda>db h1.
       if length argv = 2
       then with_cf h1 (argv ! 1) Failed (\<lambda>cf h2. (Ok (ok_tuple (cf_meta_map (CfMetaData RO db (cf_handle h2 cf) w))), h2))
       else (Ok (ok_tuple (cf_meta_map (CfMetaData RO db NoCf w))), h1))"

definition IngestExternalFileOptions_init :: ingest_options where
  "IngestExternalFileOptions_init =
     \<lparr>move_files = False, failed_move_fall_back_to_copy = True, snapshot_consistency = True, allow_global_seqno = True,
      allow_blocking_flush = True, ingest_behind = False, verify_checksums_before_ingest = False,
      verify_checksums_readahead_size = 0, verify_file_checksum = True, fail_if_not_bottommost_level = False,
      allow_db_generated_files = False, ingest_fill_cache = True\<rparr>"

definition parse_ingest_external_file_option :: "eterm \<Rightarrow> ingest_options \<Rightarrow> eterm \<times> ingest_options" where
  "parse_ingest_external_file_option item opts =
     (e_ok,
      case enif_get_tuple item of
        Some [name, val] \<Rightarrow>
          let b = (val = EAtom ''true'')
          in if name = EAtom ''move_files'' then opts\<lparr>move_files := b\<rparr>
             else if name = EAtom ''failed_move_fall_back_to_copy'' then opts\<lparr>failed_move_fall_back_to_copy := b\<rparr>
             else if name = EAtom ''snapshot_consistency'' then opts\<lparr>snapshot_consistency := b\<rparr>
             else if name = EAtom ''allow_global_seqno'' then opts\<lparr>allow_global_seqno := b\<rparr>
             else if name = EAtom ''allow_blocking_flush'' then opts\<lparr>allow_blocking_flush := b\<rparr>
             else if name = EAtom ''ingest_behind'' then opts\<lparr>ingest_behind := b\<rparr>
             else if name = EAtom ''verify_checksums_before_ingest'' then opts\<lparr>verify_checksums_before_ingest := b\<rparr>
             else if name = EAtom ''verify_checksums_readahead_size''
             then (case enif_get_uint64 val of None \<Rightarrow> opts | Some n \<Rightarrow> opts\<lparr>verify_checksums_readahead_size := n\<rparr>)
             else if name = EAtom ''verify_file_checksum'' then opts\<lparr>verify_file_checksum := b\<rparr>
             else if name = EAtom ''fail_if_not_bottommost_level'' then opts\<lparr>fail_if_not_bottommost_level := b\<rparr>
             else if name = EAtom ''allow_db_generated_files'' then opts\<lparr>allow_db_generated_files := b\<rparr>
             else if name = EAtom ''fill_cache'' then opts\<lparr>ingest_fill_cache := b\<rparr>
             else opts
      | _ \<Rightarrow> opts)"

text \<open>
  A path is a binary or a string; here a result of \<open>enif_get_string\<close> that is not positive,
  for a string that does not fit, is refused as well.
\<close>

definition file_path :: "eterm \<Rightarrow> bytes option" where
  "file_path t =
     (case enif_inspect_binary t of
        Some path \<Rightarrow> Some path
      | None \<Rightarrow>
          (case latin1_list t of
             Some cs \<Rightarrow> if length cs < 4096 then enif_get_string t 4096 else None
           | None \<Rightarrow> None))"

fun file_paths :: "eterm list \<Rightarrow> bytes list option" where
  "file_paths [] = Some []"
| "file_paths (t # ts) =
     (case file_path t of
        None \<Rightarrow> None
      | Some p \<Rightarrow> (case file_paths ts of None \<Rightarrow> None | Some ps \<Rightarrow> Some (p # ps)))"

definition IngestExternalFile :: "'w rocks_open \<Rightarrow> 'w \<Rightarrow> ref_heap \<Rightarrow> eterm list \<Rightarrow> (nif_result \<times> 'w) \<times> ref_heap" where
  "IngestExternalFile RO w h argv =
     with_db h (argv ! 0) (Failed, w) (\<lambda>db h1.
       let run = (\<lambda>cf i.
             case enif_get_list_length (argv ! i) of
               None \<Rightarrow> (Failed, w)
             | Some n \<Rightarrow>
                 if n = 0 then (Failed, w)
                 else (case file_paths (list_cells (argv ! i)) of
                         None \<Rightarrow> (Failed, w)
                       | Some files \<Rightarrow>
                           run_status (IngestFiles RO db cf files
                             (snd (nif_fold parse_ingest_external_file_option (argv ! (i + 1)) IngestExternalFileOptions_init)) w)))
       in if length argv = 4
          then with_cf h1 (argv ! 1) (Failed, w) (\<lambda>cf h2. (run (cf_handle h2 cf) 2, h2))
          else (run NoCf 1, h1))"

end
