(* ===== verification/Open_Props.thy ===== *)
theory Open_Props
  imports Db_Open
begin

text \<open>
  What opening a database guarantees: the handles of the column families are those of the
  descriptors, in their order, and the reference counts of the new objects are such that
  the protocol of \<open>Ref_Props\<close> applies to them.
\<close>

section \<open>The new objects\<close>

text \<open>A database under construction, with the column family objects \<open>as\<close> and room for \<open>n\<close> more.\<close>

definition under_construction :: "ref_heap \<Rightarrow> addr multiset \<Rightarrow> addr \<Rightarrow> addr list \<Rightarrow> nat \<Rightarrow> bool" where
  "under_construction h H d as n \<longleftrightarrow>
     managed h H \<and> db_open h d \<and> (\<forall>a \<in> set as. cf_open h a) \<and> live_children h d = set as \<and> distinct as \<and>
     (\<exists>db. mem h d = Some db \<and> m_DbPtr db = None \<and> unat (m_RefCount db) + n < 2 ^ 32)"

lemma count_room: "unat (x :: u32) + Suc n < 2 ^ 32 \<Longrightarrow> x \<noteq> - 1 \<and> unat (x + 1) + n < 2 ^ 32"
proof -
  assume room: "unat x + Suc n < 2 ^ 32"
  have "unat (- 1 :: u32) = 2 ^ 32 - 1"
    by (simp add: unsigned_minus_1_eq_mask mask_eq_exp_minus_1)
  with room have "x \<noteq> - 1"
    by auto
  moreover have "unat (x + 1) = unat x + 1"
    using room by (simp add: unat_word_ariths)
  ultimately show ?thesis
    using room by simp
qed

lemma construction_step:
  assumes "under_construction h H d as (Suc n)"
  shows "\<exists>h1. CreateColumnFamilyObject h (Some d) = (next_addr h, h1) \<and> next_addr h1 = next_addr h + 1 \<and>
    under_construction h1 H d (as @ [next_addr h]) n"
proof -
  obtain db where db: "mem h d = Some db" "kind db = DbObject" "m_CloseRequested db = 0" "m_Native db" "m_DbPtr db = None"
      "unat (m_RefCount db) + Suc n < 2 ^ 32" and m: "managed h H"
    and kids: "live_children h d = set as" "distinct as" "\<forall>a \<in> set as. cf_open h a"
    using assms by (auto simp: under_construction_def db_open_def split: option.splits)
  let ?a = "next_addr h" and ?db = "enlist ColumnFamilyObject (next_addr h) (db\<lparr>m_RefCount := m_RefCount db + 1\<rparr>)"
  define h1 where "h1 = put_obj (alloc (RefInc h d) (first_object ColumnFamilyObject (Some d))) d ?db"
  have none: "mem h ?a = None"
    using m fresh(1) by (auto simp: managed_def)
  have ne: "?a \<noteq> d"
    using none db(1) by auto
  have room: "m_RefCount db \<noteq> - 1" "unat (m_RefCount db + 1) + n < 2 ^ 32"
    using count_room [OF db(6)] by auto
  have create: "CreateColumnFamilyObject h (Some d) = (?a, h1)"
    using CreateChildObject_eq [OF db(1) _ ne, of ColumnFamilyObject] db(3) by (simp add: h1_def)
  have "managed h1 H"
    using managed_create_child [OF m db(1,2) _ room(1), of ColumnFamilyObject] db(3) create by simp
  moreover have mem: "mem h1 b = (if b = d then Some ?db else if b = ?a then Some (first_object ColumnFamilyObject (Some d))
      else mem h b)" for b
    using db(1,3) by (auto simp: h1_def put_obj_def RefInc_def with_live_eq)
  moreover have "next_addr h1 = ?a + 1"
    using db(1,3) by (simp add: h1_def put_obj_def RefInc_def with_live_eq)
  moreover have "live_children h1 d = insert ?a (live_children h d)"
    using ne db(5) none db(1) by (auto simp: live_children_def mem)
  moreover have "cf_open h1 b" if "cf_open h b" for b
    using that ne none db(1,2) by (auto simp: cf_open_def mem split: option.splits)
  moreover have "?a \<notin> set as"
    using kids(3) none by (auto simp: cf_open_def)
  ultimately show ?thesis
    using create kids room(2) ne db by (auto simp: under_construction_def db_open_def cf_open_def)
qed

lemma construction_init:
  assumes "managed h H"
  shows "\<exists>h1. CreateDbObject h b1 b2 = (next_addr h, h1) \<and> next_addr h1 = next_addr h + 1 \<and> under_construction h1 H (next_addr h) [] (2 ^ 32 - 2)"
proof -
  let ?db = "first_object DbObject None\<lparr>m_IsPessimistic := b1, m_IsTTL := b2\<rparr>"
  have create: "CreateDbObject h b1 b2 = (next_addr h, alloc h ?db)"
    by (rule CreateDbObject_eq)
  have new: "kind ?db = DbObject" "m_DbPtr ?db = None" "m_CloseRequested ?db = 0" "m_RefCount ?db = 1" "m_Native ?db"
    by (simp_all add: first_object_def new_object_def)
  have "managed (alloc h ?db) H"
    by (rule managed_open [OF assms refl]) simp
  moreover have "live_children (alloc h ?db) (next_addr h) = {}"
    using fresh(2) [of h H] assms new(2) by (auto simp: managed_def live_children_def)
  ultimately show ?thesis
    using create new by (auto simp: under_construction_def db_open_def)
qed

text \<open>The loop over the handles: the objects have consecutive addresses.\<close>

definition addrs :: "addr \<Rightarrow> nat \<Rightarrow> addr list" where
  "addrs a n = [a..<a + n]"

lemma addrs_simps [simp]: "addrs a 0 = []" "addrs a (Suc n) = a # addrs (Suc a) n" "length (addrs a n) = n"
  by (simp_all add: addrs_def upt_conv_Cons del: upt_Suc)

lemma set_addrs [simp]: "set (addrs a n) = {a..<a + n}"
  by (simp add: addrs_def)

definition attach_all :: "'w rocks_open \<Rightarrow> addr \<Rightarrow> (nat \<times> addr) list \<Rightarrow> 'w \<Rightarrow> 'w" where
  "attach_all RO d = fold (\<lambda>(i, a). AttachHandle RO d i a)"

lemma create_cfs_objects:
  assumes "under_construction h H d as (length is)" "\<forall>i \<in> set is. i < n"
  shows "\<exists>h1. create_cfs RO d n is w h =
      (Ok (map ERef (addrs (next_addr h) (length is))), attach_all RO d (zip is (addrs (next_addr h) (length is))) w, h1) \<and>
    under_construction h1 H d (as @ addrs (next_addr h) (length is)) 0"
  using assms
proof (induction "is" arbitrary: as w h)
  case (Cons i "is")
  let ?a = "next_addr h"
  obtain h1 where h1: "CreateColumnFamilyObject h (Some d) = (?a, h1)" "next_addr h1 = Suc ?a"
      "under_construction h1 H d (as @ [?a]) (length is)"
    using construction_step [of h H d as "length is"] Cons.prems(1) by auto
  show ?case
    using Cons.IH [OF h1(3), of "AttachHandle RO d i ?a w"] Cons.prems(2) h1(1,2) by (auto simp: attach_all_def)
qed (simp add: attach_all_def)

lemma create_cfs_out_of_range:
  "\<exists>i \<in> set is. n \<le> i \<Longrightarrow> fst (create_cfs RO d n is w h) = Undef"
proof (induction "is" arbitrary: w h)
  case (Cons i "is")
  then show ?case
    by (cases "n \<le> i") (auto split: prod.split dest: arg_cong [where f = fst])
qed simp

lemma create_cfs_Ok:
  "create_cfs RO d n is w h = (Ok ts, w1, h1) \<Longrightarrow> length ts = length is \<and> (\<forall>i \<in> set is. i < n)"
proof (induction "is" arbitrary: ts w h)
  case (Cons i "is")
  then show ?case
    by (auto simp: outcome_simps split: prod.splits if_splits)
qed simp

text \<open>The end of an open.\<close>

lemma finish_open_objects:
  assumes "managed h H" "n < 2 ^ 32 - 1" "status_ok st" "n \<le> handles"
  shows "\<exists>h1. finish_open RO S b (Some n) (st, handles, w) h =
      ((Ok (ETuple [e_ok, ERef (next_addr h), enif_make_list (map ERef (addrs (Suc (next_addr h)) n))]),
        attach_all RO (next_addr h) (zip [0..<n] (addrs (Suc (next_addr h)) n)) w, S), h1) \<and>
    under_construction h1 H (next_addr h) (addrs (Suc (next_addr h)) n) 0"
proof -
  obtain h0 where h0: "CreateDbObject h b False = (next_addr h, h0)" "next_addr h0 = Suc (next_addr h)"
      "under_construction h0 H (next_addr h) [] (2 ^ 32 - 2)"
    using construction_init [OF assms(1), of b False] by auto
  have "under_construction h0 H (next_addr h) [] (length [0..<n])"
    using h0(3) assms(2) by (auto simp: under_construction_def)
  from create_cfs_objects [OF this, of handles RO w] show ?thesis
    using h0 assms(3,4) by (auto simp: finish_open_def)
qed

section \<open>Handles in the order of the descriptors\<close>

text \<open>
  What RocksDB documents of an open: on success there is one handle for each descriptor, in
  their order. \<open>handles\<close> are the names of the column families of the vector that the last
  open of a database delivered, \<open>names\<close> the column family of an object.
\<close>

definition open_laws :: "'w rocks_open \<Rightarrow> ('w \<Rightarrow> addr \<Rightarrow> bytes list) \<Rightarrow> ('w \<Rightarrow> addr \<Rightarrow> bytes option) \<Rightarrow> bool" where
  "open_laws RO handles names \<longleftrightarrow>
     (\<forall>d cls opts name cfs w st n w1. OpenCfs RO d cls opts name cfs w = (st, n, w1) \<longrightarrow> status_ok st \<longrightarrow>
        n = length cfs \<and> handles w1 d = map fst cfs) \<and>
     (\<forall>d i a w. handles (AttachHandle RO d i a w) = handles w \<and>
        names (AttachHandle RO d i a w) = (names w)(a \<mapsto> handles w d ! i))"

lemma attach_frame:
  assumes "open_laws RO handles names"
  shows "handles (attach_all RO d ias w) = handles w \<and> (a \<notin> snd ` set ias \<longrightarrow> names (attach_all RO d ias w) a = names w a)"
  by (induction ias arbitrary: w) (use assms in \<open>auto simp: attach_all_def open_laws_def\<close>)

lemma attach_names:
  assumes laws: "open_laws RO handles names" and "length is = length as" "distinct as"
  shows "map (names (attach_all RO d (zip is as) w)) as = map (\<lambda>i. Some (handles w d ! i)) is"
  using assms(2,3)
proof (induction "is" as arbitrary: w rule: list_induct2)
  case (Cons i "is" a as)
  let ?w = "AttachHandle RO d i a w"
  have w: "handles ?w = handles w" "names ?w a = Some (handles w d ! i)"
    using laws by (auto simp: open_laws_def)
  have "names (attach_all RO d (zip is as) ?w) a = names ?w a"
    using attach_frame [OF laws, of d "zip is as" ?w a] Cons.prems by (auto dest: set_zip_rightD)
  then show ?case
    using Cons.IH [of ?w] Cons.prems w by (simp add: attach_all_def)
qed simp

lemma get_string_path [simp]: "path_ok p \<Longrightarrow> enif_get_string (path_term p) 4096 = Some p"
  using get_path_term [of p] by (auto simp: get_path_def split: option.splits if_splits)

definition descriptor :: "bytes \<times> eterm list \<Rightarrow> eterm" where
  "descriptor d = ETuple [path_term (fst d), enif_make_list (snd d)]"

definition good_descriptor :: "compression_type list \<Rightarrow> 'n shared_heap \<Rightarrow> bytes \<times> eterm list \<Rightarrow> bool" where
  "good_descriptor supported S d \<longleftrightarrow>
     path_ok (fst d) \<and> (\<exists>opts. fold_options (parse_cf_option supported S) (snd d) (\<lambda>_. None) = Ok (e_ok, opts))"

lemma parse_good_descriptors:
  assumes "\<forall>d \<in> set ds. good_descriptor supported S d"
  shows "\<exists>cfs. parse_descriptors (parse_cf_descriptor supported S) (map descriptor ds) cfs0 = (Ok e_ok, cfs0 @ cfs) \<and>
    map fst cfs = map fst ds"
  using assms
proof (induction ds arbitrary: cfs0)
  case (Cons d ds)
  then obtain opts where opts: "fold_options (parse_cf_option supported S) (snd d) (\<lambda>_. None) = Ok (e_ok, opts)" "path_ok (fst d)"
    by (auto simp: good_descriptor_def)
  have "parse_cf_descriptor supported S (descriptor d) cfs0 = (Ok e_ok, cfs0 @ [(fst d, opts)])"
    using opts by (simp add: parse_cf_descriptor_def descriptor_def)
  then show ?case
    using Cons.IH [of "cfs0 @ [(fst d, opts)]"] Cons.prems by fastforce
qed simp

text \<open>The four NIFs with pairs as descriptors.\<close>

lemma open_pairs:
  fixes R :: "'n rocks_shared" and RO :: "'w rocks_open"
  assumes "nif \<in> {OpenWithCf, OpenWithCfReadOnly, OpenOptimisticTransactionDB, OpenPessimisticTransactionDB}"
    and "path_ok name" "enif_is_list opts" "db_options_of R S opts = Ok (db_opts, S1)"
    and "\<forall>d \<in> set ds. good_descriptor (compressions RO) S1 d"
  shows "\<exists>b cls cfs. map fst cfs = map fst ds \<and>
    nif R RO (w, S) h [path_term name, opts, enif_make_list (map descriptor ds)] =
      finish_open RO S1 b (Some (length ds)) (OpenCfs RO (next_addr h) cls db_opts name cfs w) h"
proof -
  obtain cfs where cfs: "parse_descriptors (parse_cf_descriptor (compressions RO) S1) (map descriptor ds) [] = (Ok e_ok, cfs)"
      "map fst cfs = map fst ds"
    using parse_good_descriptors [OF assms(5), of "[]"] by auto
  have len: "length cfs = length ds"
    using cfs(2) by (metis length_map)
  have base: "OpenWithCf_base cls R RO (w, S) h [path_term name, opts, enif_make_list (map descriptor ds)] =
      finish_open RO S1 False (Some (length ds)) (OpenCfs RO (next_addr h) cls db_opts name cfs w) h" for cls
    using assms(2-4) cfs(1) by (simp add: OpenWithCf_base_def name_and_list_def on_outcome_def)
  have "\<exists>cls. OpenPessimisticTransactionDB R RO (w, S) h [path_term name, opts, enif_make_list (map descriptor ds)] =
      finish_open RO S1 True (Some (length ds)) (OpenCfs RO (next_addr h) cls db_opts name cfs w) h"
    using assms(2-4) cfs(1) len by (auto simp: OpenPessimisticTransactionDB_def name_and_list_def on_outcome_def Let_def)
  then show ?thesis
    using assms(1) cfs(2) base
    by (auto simp: OpenWithCf_def OpenWithCfReadOnly_def OpenOptimisticTransactionDB_def)
qed

text \<open>
  Claim C35. Opening with well-formed column family descriptors: the answer is either the error of
  RocksDB, and then no object was made, or an open database with one open column family
  handle for each descriptor, in the order of the descriptors: the \<open>i\<close>-th handle is that
  of the \<open>i\<close>-th name.
\<close>

theorem open_handles_in_order:
  fixes R :: "'n rocks_shared"
  assumes "open_laws RO handles names" "reachable s" "length ds < 2 ^ 32 - 1"
    and "nif \<in> {OpenWithCf, OpenWithCfReadOnly, OpenOptimisticTransactionDB, OpenPessimisticTransactionDB}"
    and "path_ok name" "enif_is_list opts" "db_options_of R S opts = Ok (db_opts, S1)"
    and "\<forall>d \<in> set ds. good_descriptor (compressions RO) S1 d"
  shows "\<exists>r w1 h1. nif R RO (w, S) (objects s) [path_term name, opts, enif_make_list (map descriptor ds)] = ((Ok r, w1, S1), h1) \<and>
    ((\<exists>st. \<not> status_ok st \<and> r = error_tuple (EAtom ''db_open'') st \<and> h1 = objects s) \<or>
     (\<exists>db cfs. r = ETuple [e_ok, ERef db, enif_make_list (map ERef cfs)] \<and> distinct (db # cfs) \<and> db_open h1 db \<and>
        (\<forall>cf \<in> set cfs. cf_open h1 cf) \<and> map (names w1) cfs = map (\<lambda>d. Some (fst d)) ds))"
proof -
  let ?h = "objects s" and ?d = "next_addr (objects s)" and ?n = "length ds"
  let ?as = "addrs (Suc ?d) ?n"
  obtain b cls cfs where call: "map fst cfs = map fst ds"
      "nif R RO (w, S) ?h [path_term name, opts, enif_make_list (map descriptor ds)] =
        finish_open RO S1 b (Some ?n) (OpenCfs RO ?d cls db_opts name cfs w) ?h"
    using open_pairs [OF assms(4-8), of w ?h] by blast
  obtain st n w1 where st: "OpenCfs RO ?d cls db_opts name cfs w = (st, n, w1)"
    by (cases "OpenCfs RO ?d cls db_opts name cfs w") auto
  show ?thesis
  proof (cases "status_ok st")
    case False
    then show ?thesis
      by (auto simp: call(2) st finish_open_def)
  next
    case True
    have n: "n = ?n" "handles w1 ?d = map fst ds"
      using assms(1) st True call(1) by (auto simp: open_laws_def dest: map_eq_imp_length_eq)
    obtain h1 where h1: "finish_open RO S1 b (Some ?n) (st, n, w1) ?h =
          ((Ok (ETuple [e_ok, ERef ?d, enif_make_list (map ERef ?as)]), attach_all RO ?d (zip [0..<?n] ?as) w1, S1), h1)"
        "under_construction h1 (holders s) ?d ?as 0"
      using finish_open_objects [OF reachable_managed [OF assms(2)] assms(3) True, of n RO S1 b w1] n by auto
    have "map (names (attach_all RO ?d (zip [0..<?n] ?as) w1)) ?as = map (\<lambda>i. Some (handles w1 ?d ! i)) [0..<?n]"
      using h1(2) by (intro attach_names [OF assms(1)]) (simp_all add: under_construction_def)
    also have "\<dots> = map (\<lambda>d. Some (fst d)) ds"
      by (rule nth_equalityI) (simp_all add: n(2))
    finally have names: "map (names (attach_all RO ?d (zip [0..<?n] ?as) w1)) ?as = map (\<lambda>d. Some (fst d)) ds" .
    have objs: "distinct (?d # ?as)" "db_open h1 ?d" "\<forall>cf \<in> set ?as. cf_open h1 cf"
      using h1(2) by (simp_all add: under_construction_def)
    show ?thesis
      unfolding call(2) st h1(1) using names objs by blast
  qed
qed

text \<open>
  A list element that is no pair is skipped by the parser but counted by the loop over the
  handles: when RocksDB opens the database, the NIF reads \<open>handles[i]\<close> past the end of the
  vector.
\<close>

lemma skipped_descriptor_out_of_bounds:
  fixes R :: "'n rocks_shared"
  assumes "open_laws RO handles names" "path_ok name" "enif_is_list opts" "db_options_of R S opts = Ok (db_opts, S1)"
    and "\<forall>d \<in> set ds. good_descriptor (compressions RO) S1 d" "\<forall>x \<in> set others. \<forall>a b. x \<noteq> ETuple [a, b]" "others \<noteq> []"
    and "\<And>cfs. status_ok (fst (OpenCfs RO (next_addr h) PlainDb db_opts name cfs w))"
  shows "fst (fst (OpenWithCf R RO (w, S) h [path_term name, opts, enif_make_list (map descriptor ds @ others)])) = Undef"
proof -
  have skip: "parse_descriptors (parse_cf_descriptor (compressions RO) S1) others cfs = (Ok e_ok, cfs)" for cfs
    using assms(6)
  proof (induction others)
    case (Cons x others)
    then have "parse_cf_descriptor (compressions RO) S1 x cfs = (Ok e_ok, cfs)"
      by (auto simp: parse_cf_descriptor_def split: option.split list.split)
    then show ?case
      using Cons by simp
  qed simp
  have app: "parse_descriptors f (xs @ ys) cfs =
      (case parse_descriptors f xs cfs of (r, cfs1) \<Rightarrow> if r = Ok e_ok then parse_descriptors f ys cfs1 else (r, cfs1))"
    for f :: "eterm \<Rightarrow> cf_descriptor list \<Rightarrow> nif_result \<times> cf_descriptor list" and xs ys cfs
    by (induction xs arbitrary: cfs) (auto split: prod.split)
  obtain cfs where cfs: "parse_descriptors (parse_cf_descriptor (compressions RO) S1) (map descriptor ds @ others) [] = (Ok e_ok, cfs)"
      "map fst cfs = map fst ds"
    using parse_good_descriptors [OF assms(5), of "[]"] by (auto simp: app skip)
  obtain st n w1 where st: "OpenCfs RO (next_addr h) PlainDb db_opts name cfs w = (st, n, w1)" "status_ok st"
    using assms(8) [of cfs] by (cases "OpenCfs RO (next_addr h) PlainDb db_opts name cfs w") auto
  have "n = length ds"
    using assms(1) st cfs(2) by (auto simp: open_laws_def dest: map_eq_imp_length_eq)
  moreover have "length ds < length (map descriptor ds @ others)"
    using assms(7) by simp
  ultimately have "\<exists>i \<in> set [0..<length (map descriptor ds @ others)]. n \<le> i"
    by (auto intro!: bexI [of _ "length ds"])
  then have "fst (create_cfs RO d n [0..<length (map descriptor ds @ others)] w1 h1) = Undef" for d h1
    by (rule create_cfs_out_of_range)
  then show ?thesis
    using assms(2-4) cfs(1) st
    by (auto simp: OpenWithCf_def OpenWithCf_base_def name_and_list_def on_outcome_def finish_open_def
        split: prod.split dest: arg_cong [where f = fst])
qed

section \<open>Opened databases close\<close>

lemma new_not_held:
  assumes "managed h H" "next_addr h \<le> a"
  shows "a \<notin># H"
proof
  assume "a \<in># H"
  then obtain ob where "mem h a = Some ob"
    using assms(1) unfolding managed_def heap_ok_def by blast
  then have "a < next_addr h"
    using assms(1) unfolding managed_def heap_ok_def by blast
  then show False
    using assms(2) by simp
qed

lemma construction_closes:
  assumes "managed h H" "under_construction h1 H (next_addr h) as 0" "\<forall>a \<in> set as. next_addr h < a"
  shows "\<exists>h2. Close h1 [ERef (next_addr h)] = (Ok e_ok, h2) \<and> \<not> fault h2 \<and>
    (\<forall>a \<in> set (next_addr h # as). releases h2 a = 1 \<and> (\<exists>ob. mem h2 a = Some ob \<and> m_CloseRequested ob = 3))"
proof -
  have get: "RetrieveDbObject h1 (ERef (next_addr h)) = Some (next_addr h)"
    using assms(2) by (auto simp: under_construction_def db_open_def RetrieveDbObject_def Retrieve_def split: option.splits)
  have kids: "live_children h1 (next_addr h) = set as" "managed h1 H"
    using assms(2) by (auto simp: under_construction_def)
  have "next_addr h \<notin># H" "\<And>c. c \<in> live_children h1 (next_addr h) \<Longrightarrow> c \<notin># H"
    using new_not_held [OF assms(1)] assms(3) kids by (auto simp: less_imp_le)
  from close_managed [OF kids(2) get this] show ?thesis
    by (auto simp: kids(1))
qed

lemma objects_close:
  assumes m: "managed h H" and db: "CreateDbObject h b1 b2 = (d, h0)"
    and cfs: "create_cfs RO d n is w h0 = (Ok ts, w1, h1)" "length ts < 2 ^ 32 - 1"
  shows "\<exists>as h2. ts = map ERef as \<and> distinct (d # as) \<and> Close h1 [ERef d] = (Ok e_ok, h2) \<and> \<not> fault h2 \<and>
    (\<forall>a \<in> set (d # as). releases h2 a = 1 \<and> (\<exists>ob. mem h2 a = Some ob \<and> m_CloseRequested ob = 3))"
proof -
  let ?as = "addrs (Suc d) (length is)"
  have d: "d = next_addr h" "next_addr h0 = Suc d" "under_construction h0 H d [] (2 ^ 32 - 2)"
    using construction_init [OF m, of b1 b2] db by auto
  have "length is < 2 ^ 32 - 1" "\<forall>i \<in> set is. i < n"
    using create_cfs_Ok [OF cfs(1)] cfs(2) by auto
  moreover from this have "under_construction h0 H d [] (length is)"
    using d(3) by (auto simp: under_construction_def)
  ultimately have made: "ts = map ERef ?as" "under_construction h1 H d ?as 0"
    using create_cfs_objects [of h0 H d "[]" "is" n RO w] cfs(1) d(2) by auto
  have "\<forall>a \<in> set ?as. next_addr h < a"
    by (simp add: d(1))
  from construction_closes [OF m made(2) [unfolded d(1)]] this show ?thesis
    using made(1) by (intro exI [of _ ?as]) (auto simp: d(1) addrs_def)
qed

lemma finish_open_closes:
  assumes "managed h H" "length cfs < 2 ^ 32 - 1"
    and fin: "finish_open RO S b num opened h = ((Ok (ETuple [e_ok, ERef d, enif_make_list cfs]), s1), h1)"
  shows "\<exists>as h2. cfs = map ERef as \<and> distinct (d # as) \<and> Close h1 [ERef d] = (Ok e_ok, h2) \<and> \<not> fault h2 \<and>
    (\<forall>a \<in> set (d # as). releases h2 a = 1 \<and> (\<exists>ob. mem h2 a = Some ob \<and> m_CloseRequested ob = 3))"
proof -
  obtain st handles w n where o: "opened = (st, handles, w)" "num = Some n" "status_ok st"
    using fin by (auto simp: finish_open_def error_tuple_def e_ok_def split: prod.splits if_splits option.splits)
  obtain h0 w2 where "CreateDbObject h b False = (d, h0)" "create_cfs RO d handles [0..<n] w h0 = (Ok cfs, w2, h1)"
    using fin o by (auto simp: finish_open_def outcome_simps split: prod.splits)
  from objects_close [OF assms(1) this assms(2)] show ?thesis .
qed

text \<open>An answer \<open>{ok, Db, Handles}\<close> can only come from the end of the open: the parsers answer atoms.\<close>

lemma cf_fold_atoms:
  assumes "fold_options (parse_cf_option supported S) xs opts = Ok (r, opts1)"
  shows "r \<in> {e_ok, EAtom ''badarg''}"
  using assms
proof (induction xs arbitrary: opts)
  case (Cons x xs)
  obtain r1 o1 where step: "parse_cf_option supported S x opts = Ok (r1, o1)"
    using Cons.prems by (auto simp: outcome_simps)
  have "r1 \<in> {e_ok, EAtom ''badarg''}"
  proof (cases x rule: option_cases)
    case (1 n val)
    then show ?thesis
      using step by (auto simp: parse_cf_option_def assign_option_def outcome_simps
          split: if_splits option.splits outcome.splits prod.splits)
  next
    case 2
    then show ?thesis
      using step by (auto simp: parse_cf_option_def no_option)
  qed
  then show ?case
    using Cons step by (auto split: if_splits)
qed simp

lemma parse_descriptors_atoms:
  assumes "\<And>x cs r cs1. f x cs = (Ok r, cs1) \<Longrightarrow> r \<in> {e_ok, EAtom ''badarg''}" "parse_descriptors f xs cfs = (Ok r, cfs1)"
  shows "r \<in> {e_ok, EAtom ''badarg''}"
  using assms(2)
proof (induction xs arbitrary: cfs)
  case (Cons x xs)
  then show ?case
    using assms(1) by (auto split: prod.splits if_splits)
qed simp

lemma parse_cf_descriptor_atoms: "parse_cf_descriptor supported S x cs = (Ok r, cs1) \<Longrightarrow> r \<in> {e_ok, EAtom ''badarg''}"
  unfolding parse_cf_descriptor_def
  by (auto split: option.splits list.splits if_splits outcome.splits prod.splits dest: cf_fold_atoms)

lemma parsed_pairs_no_tuple: "fst (parse_descriptors (parse_cf_descriptor supported S) xs cfs) \<noteq> Ok (ETuple ts)"
proof
  assume "fst (parse_descriptors (parse_cf_descriptor supported S) xs cfs) = Ok (ETuple ts)"
  then obtain cfs1 where "parse_descriptors (parse_cf_descriptor supported S) xs cfs = (Ok (ETuple ts), cfs1)"
    by (metis prod.collapse)
  from parse_descriptors_atoms [OF parse_cf_descriptor_atoms this] show False
    by (simp add: e_ok_def)
qed

lemma base_answer:
  assumes ans: "OpenWithCf_base cls R RO s h argv = ((Ok (ETuple ts), s1), h1)"
  shows "\<exists>S b num opened. finish_open RO S b num opened h = ((Ok (ETuple ts), s1), h1)"
proof -
  obtain w S where s: "s = (w, S)"
    by (cases s)
  obtain name db_opts S1 where ok: "name_and_list (argv ! 0) (argv ! 1) = Some name" "enif_is_list (argv ! 2)"
      "db_options_of R S (argv ! 1) = Ok (db_opts, S1)"
    using ans by (auto simp: s OpenWithCf_base_def on_outcome_def split: option.splits if_splits outcome.splits)
  obtain r cfs where parse: "parse_descriptors (parse_cf_descriptor (compressions RO) S1) (list_cells (argv ! 2)) [] = (r, cfs)"
    by (cases "parse_descriptors (parse_cf_descriptor (compressions RO) S1) (list_cells (argv ! 2)) []")
  have "r = Ok e_ok"
    using ans ok parse parsed_pairs_no_tuple [of "compressions RO" S1 "list_cells (argv ! 2)" "[]" ts]
    by (simp add: s OpenWithCf_base_def on_outcome_def split: if_splits)
  then have "finish_open RO S1 False (enif_get_list_length (argv ! 2)) (OpenCfs RO (next_addr h) cls db_opts name cfs w) h =
      ((Ok (ETuple ts), s1), h1)"
    using ans ok parse by (simp add: s OpenWithCf_base_def on_outcome_def)
  then show ?thesis
    by blast
qed

lemma pessimistic_answer:
  assumes ans: "OpenPessimisticTransactionDB R RO s h argv = ((Ok (ETuple ts), s1), h1)"
  shows "\<exists>S b num opened. finish_open RO S b num opened h = ((Ok (ETuple ts), s1), h1)"
proof -
  obtain w S where s: "s = (w, S)"
    by (cases s)
  obtain name db_opts S1 where ok: "name_and_list (argv ! 0) (argv ! 1) = Some name"
      "db_options_of R S (argv ! 1) = Ok (db_opts, S1)"
    using ans by (auto simp: s OpenPessimisticTransactionDB_def on_outcome_def split: option.splits outcome.splits)
  define parsed where "parsed = (if length argv = 3
     then if \<not> enif_is_list (argv ! 2) then (Failed, [])
          else parse_descriptors (parse_cf_descriptor (compressions RO) S1) (list_cells (argv ! 2)) []
     else (Ok e_ok, default_descriptors))"
  obtain r cfs where parse: "parsed = (r, cfs)"
    by (cases parsed)
  have run: "((Ok (ETuple ts), s1), h1) = (if r \<noteq> Ok e_ok then ((r, w, S1), h)
      else finish_open RO S1 True (Some (length cfs)) (OpenCfs RO (next_addr h)
        (PessimisticDb (snd (nif_fold parse_txn_db_option (argv ! 1) TransactionDBOptions_init))) db_opts name cfs w) h)"
    unfolding ans [symmetric] s OpenPessimisticTransactionDB_def on_outcome_def Let_def
    by (simp only: ok parsed_def [symmetric] parse prod.case option.case outcome.case)
  have "fst parsed \<noteq> Ok (ETuple ts)"
    using parsed_pairs_no_tuple [of "compressions RO" S1 "list_cells (argv ! 2)" "[]" ts] by (simp add: parsed_def e_ok_def)
  then have "r = Ok e_ok"
    using run parse by (auto split: if_splits)
  then have "finish_open RO S1 True (Some (length cfs)) (OpenCfs RO (next_addr h)
        (PessimisticDb (snd (nif_fold parse_txn_db_option (argv ! 1) TransactionDBOptions_init))) db_opts name cfs w) h =
      ((Ok (ETuple ts), s1), h1)"
    using run by simp
  then show ?thesis
    by blast
qed

lemma ttl_descriptors_ok:
  "fst (parse_descriptors (parse_ttl_descriptor supported S) xs cfs) \<noteq> Ok (ETuple ts)"
proof (induction xs arbitrary: cfs)
  case (Cons x xs)
  have "fst (parse_ttl_descriptor supported S x cfs) \<in> {Ok e_ok, Failed, Thrown, Undef}"
    by (auto simp: parse_ttl_descriptor_def split: option.split list.split outcome.split)
  then show ?case
    using Cons.IH by (auto split: prod.split)
qed (simp add: e_ok_def)

lemma ttl_answer:
  assumes ans: "OpenWithTTLCf R RO s h argv = ((Ok (ETuple [e_ok, db, cfs]), s1), h1)"
  shows "\<exists>d h0 n w1 ts w2. CreateDbObject h False True = (d, h0) \<and>
    create_cfs RO d n (rev [0..<n]) w1 h0 = (Ok ts, w2, h1) \<and> db = ERef d \<and> cfs = enif_make_list (rev ts)"
proof -
  obtain w S where s: "s = (w, S)"
    by (cases s)
  obtain name db_opts S1 where ok: "name_and_list (argv ! 0) (argv ! 1) = Some name" "enif_is_list (argv ! 2)" "enif_is_atom (argv ! 3)"
      "db_options_of R S (argv ! 1) = Ok (db_opts, S1)"
    using ans by (auto simp: s OpenWithTTLCf_def on_outcome_def split: option.splits if_splits outcome.splits)
  obtain r ds where parse: "parse_descriptors (parse_ttl_descriptor (compressions RO) S1) (list_cells (argv ! 2)) [] = (r, ds)"
    by (cases "parse_descriptors (parse_ttl_descriptor (compressions RO) S1) (list_cells (argv ! 2)) []")
  have "r = Ok e_ok"
    using ans ok parse ttl_descriptors_ok [of "compressions RO" S1 "list_cells (argv ! 2)" "[]" "[e_ok, db, cfs]"]
    by (simp add: s OpenWithTTLCf_def on_outcome_def split: if_splits)
  then show ?thesis
    using ans ok parse
    by (auto simp: s OpenWithTTLCf_def on_outcome_def outcome_simps error_tuple_def split: prod.splits if_splits)
qed

text \<open>
  Claim C36. Whatever NIF opened a database with column families, the objects it made obey the close
  protocol: closing the database with no call in progress destroys it and every column
  family handle, each of which gives its RocksDB object back exactly once.
\<close>

theorem opened_database_closes:
  assumes "reachable s" "length cfs < 2 ^ 32 - 1"
    and "nif \<in> {OpenWithCf, OpenWithCfReadOnly, OpenOptimisticTransactionDB, OpenPessimisticTransactionDB, OpenWithTTLCf}"
    and "nif R RO st (objects s) argv = ((Ok (ETuple [e_ok, ERef d, enif_make_list cfs]), st1), h1)"
  shows "\<exists>as h2. cfs = map ERef as \<and> distinct (d # as) \<and> Close h1 [ERef d] = (Ok e_ok, h2) \<and> \<not> fault h2 \<and>
    (\<forall>a \<in> set (d # as). releases h2 a = 1 \<and> (\<exists>ob. mem h2 a = Some ob \<and> m_CloseRequested ob = 3))"
proof (cases "nif = OpenWithTTLCf")
  case True
  then obtain h0 n w1 ts w2 where made: "CreateDbObject (objects s) False True = (d, h0)"
      "create_cfs RO d n (rev [0..<n]) w1 h0 = (Ok ts, w2, h1)" and cfs: "cfs = rev ts"
    using ttl_answer [of R RO st "objects s" argv "ERef d" "enif_make_list cfs" st1 h1] assms(4) by auto
  from objects_close [OF reachable_managed [OF assms(1)] made] assms(2) obtain as h2 where
    as: "ts = map ERef as" "distinct (d # as)" "Close h1 [ERef d] = (Ok e_ok, h2)" "\<not> fault h2"
      "\<forall>a \<in> set (d # as). releases h2 a = 1 \<and> (\<exists>ob. mem h2 a = Some ob \<and> m_CloseRequested ob = 3)"
    by (auto simp: cfs)
  then show ?thesis
    by (intro exI [of _ "rev as"] exI [of _ h2]) (simp add: cfs rev_map)
next
  case False
  then have "\<exists>S b num opened. finish_open RO S b num opened (objects s) =
      ((Ok (ETuple [e_ok, ERef d, enif_make_list cfs]), st1), h1)"
    using assms(3,4) base_answer [of _ R RO st "objects s" argv "[e_ok, ERef d, enif_make_list cfs]" st1 h1]
      pessimistic_answer [of R RO st "objects s" argv "[e_ok, ERef d, enif_make_list cfs]" st1 h1]
    by (auto simp: OpenWithCf_def OpenWithCfReadOnly_def OpenOptimisticTransactionDB_def)
  then show ?thesis
    using finish_open_closes [OF reachable_managed [OF assms(1)] assms(2)] by blast
qed

section \<open>Column families of open databases\<close>

text \<open>
  \<open>CreateColumnFamily\<close> on an open database keeps the invariant of the reference counts and
  delivers an open handle.
\<close>

lemma create_in_scope:
  assumes m: "managed h H" and d: "db_open h d" "mem h d = Some db" "unat (m_RefCount db) + 2 < 2 ^ 32"
    and f: "f d (RefInc h d) = ((r, s1), snd (CreateColumnFamilyObject (RefInc h d) (Some d)))"
  shows "\<exists>h1. with_db h (ERef d) bad f = ((r, s1), h1) \<and> managed h1 H \<and> cf_open h1 (next_addr h)"
proof -
  let ?h = "RefInc h d" and ?a = "next_addr h" and ?db = "db\<lparr>m_RefCount := m_RefCount db + 1\<rparr>"
  let ?h1 = "snd (CreateColumnFamilyObject ?h (Some d))"
  have db: "kind db = DbObject" "m_CloseRequested db = 0" "m_Native db"
    using d(1,2) by (auto simp: db_open_def)
  have room: "m_RefCount db \<noteq> - 1" "m_RefCount db + 1 \<noteq> - 1"
    using count_room [of "m_RefCount db" 1] count_room [of "m_RefCount db + 1" 0] d(3) by auto
  have inc: "?h = put_obj h d ?db"
    using d(2) db(2) by (simp add: RefInc_def with_live_eq)
  have m1: "managed ?h (add_mset d H)"
    by (rule managed_RefInc [OF m d(2)]) (use db room in simp_all)
  have mem: "mem ?h d = Some ?db"
    by (simp add: inc)
  have ne: "next_addr ?h \<noteq> d"
    using fresh(1) [of ?h "add_mset d H"] m1 mem by (auto simp: managed_def)
  have create: "CreateColumnFamilyObject ?h (Some d) =
      (?a, put_obj (alloc (RefInc ?h d) (first_object ColumnFamilyObject (Some d))) d
             (enlist ColumnFamilyObject ?a (?db\<lparr>m_RefCount := m_RefCount ?db + 1\<rparr>)))"
    using CreateChildObject_eq [OF mem _ ne, of ColumnFamilyObject] db by simp
  have m2: "managed ?h1 (add_mset d H)"
    using managed_create_child [OF m1 mem _ _ _, of ColumnFamilyObject] db room by simp
  obtain db1 where db1: "mem ?h1 d = Some db1" "m_CloseRequested db1 = 0"
    using create db by simp
  have "with_db h (ERef d) bad f = ((r, s1), put_obj ?h1 d (db1\<lparr>m_RefCount := m_RefCount db1 - 1\<rparr>))"
    using d(1) f db1 by (rule with_db_creates [where f = f])
  moreover have "RefDec ?h1 d = put_obj ?h1 d (db1\<lparr>m_RefCount := m_RefCount db1 - 1\<rparr>)"
    by (rule RefDec_keep) (use db1 in simp_all)
  moreover have "managed (RefDec ?h1 d) H"
    using m2 by (rule managed.I_dec)
  moreover have "cf_open (put_obj ?h1 d (db1\<lparr>m_RefCount := m_RefCount db1 - 1\<rparr>)) ?a"
    using ne by (simp add: create cf_open_def)
  ultimately show ?thesis
    by auto
qed

lemma create_column_family_opens:
  assumes "managed h H" "db_open h d" "mem h d = Some db" "unat (m_RefCount db) + 2 < 2 ^ 32" "path_ok name"
    and "fold_options (parse_cf_option (compressions RO) S) opts (\<lambda>_. None) = Ok (e_ok, cf_opts)"
    and "CreateCf RO d cf_opts name (next_addr h) w = (st, w1)" "status_ok st"
  shows "\<exists>h1. CreateColumnFamily R RO (w, S) h [ERef d, path_term name, enif_make_list opts] =
      ((Ok (ok_tuple (ERef (next_addr h))), w1, S), h1) \<and> managed h1 H \<and> cf_open h1 (next_addr h)"
proof -
  have open1: "mem (RefInc h d) d = Some (db\<lparr>m_RefCount := m_RefCount db + 1\<rparr>)" "m_CloseRequested db = 0"
    using RefInc_open [OF assms(3)] assms(2,3) by (auto simp: db_open_def)
  obtain h1 where h1: "CreateColumnFamilyObject (RefInc h d) (Some d) = (next_addr h, h1)"
    by (auto simp: CreateColumnFamilyObject_def create_child_def enif_alloc_resource_def split: prod.splits)
  show ?thesis
    unfolding CreateColumnFamily_def prod.case nth_Cons_0
    by (rule create_in_scope [OF assms(1-4)])
      (use assms(5-8) open1 h1 in \<open>simp add: name_and_list_def on_outcome_def\<close>)
qed

section \<open>Time to live and metadata\<close>

text \<open>
  A time to live that was set for a column family is read back, on databases that
  \<open>OpenWithTTL\<close> opened and on no other.
\<close>

theorem ttl_roundtrip:
  assumes "\<And>d cf t w. ttl_Get RO d cf (ttl_Set RO d cf t w) = (ok_status, t)"
    and "db_open h d" "mem h d = Some db" "cf_open h c" "enif_get_int t = Some ttl"
  shows "fst (fst (GetTtl RO (snd (fst (SetTtl RO w h [ERef d, ERef c, t]))) h [ERef d, ERef c])) =
    Ok (if m_IsTTL db then ok_tuple (EInt ttl) else error_tuple_msg (EAtom ''error'') ''not a TTL database'')"
proof -
  have "RetrieveDbObject h (ERef d) = Some d" "RetrieveColumnFamilyObject h (ERef c) = Some c"
    using assms(2-4)
    by (auto simp: db_open_def cf_open_def RetrieveDbObject_def RetrieveColumnFamilyObject_def Retrieve_def split: option.splits)
  then show ?thesis
    using assms by (simp add: GetTtl_def SetTtl_def on_ttl_def status_ok_def ok_status_def)
qed

lemma open_with_ttl_is_ttl:
  assumes "managed h H" "OpenWithTTL R RO s h argv = ((Ok (ok_tuple (ERef d)), s1), h1)"
  shows "\<exists>db. db_open h1 d \<and> mem h1 d = Some db \<and> m_IsTTL db"
  using assms construction_init [OF assms(1), of False True]
  by (auto simp: OpenWithTTL_def on_outcome_def open_single_def CreateDbObject_eq error_tuple_def ok_tuple_def e_ok_def
      db_open_def first_object_def new_object_def split: prod.splits option.splits if_splits outcome.splits)

text \<open>The loop of \<open>GetColumnFamilyMetaData\<close> reverses twice, so the blob files come last to first.\<close>

lemma fold_cons_rev: "fold (\<lambda>b ts. f b # ts) xs acc = rev (map f xs) @ acc"
  by (induction xs arbitrary: acc) simp_all

lemma blob_files_reversed:
  assumes "db_open h d"
  shows "\<exists>m. CfMetaData RO d NoCf w = m \<and> fst (GetColumnFamilyMetaData RO w h [ERef d]) =
    Ok (ok_tuple (EMap [(EAtom ''size'', EInt (uint (cm_size m))), (EAtom ''file_count'', EInt (uint (file_count m))),
      (EAtom ''name'', EBin (cm_name m)), (EAtom ''blob_file_size'', EInt (uint (cm_blob_file_size m))),
      (EAtom ''blob_files'', enif_make_list (rev (map blob_map (blob_files m))))]))"
  unfolding GetColumnFamilyMetaData_def nth_Cons_0
  by (subst with_db_runs [OF assms]) (simp_all add: cf_meta_map_def fold_cons_rev rev_map)

section \<open>Refused options\<close>

lemma parse_descriptors_append:
  "parse_descriptors f xs cfs = (Ok e_ok, cfs1) \<Longrightarrow> parse_descriptors f (xs @ ys) cfs = parse_descriptors f ys cfs1"
  by (induction xs arbitrary: cfs) (auto split: prod.splits if_splits)

text \<open>The loop over the descriptors stops at the one with a refused option.\<close>

lemma refused_descriptor:
  assumes "\<forall>d \<in> set ds. good_descriptor supported S d" "path_ok cf" "refused_at supported S items opts0"
  shows "\<exists>cfs. parse_descriptors (parse_cf_descriptor supported S) (map descriptor ds @ descriptor (cf, items) # rest) [] =
    (Ok (EAtom ''badarg''), cfs)"
proof -
  obtain cfs where cfs: "parse_descriptors (parse_cf_descriptor supported S) (map descriptor ds) [] = (Ok e_ok, cfs)"
    using parse_good_descriptors [OF assms(1), of "[]"] by auto
  show ?thesis
    using parse_descriptors_append [OF cfs] refused_fold [OF assms(3)] assms(2)
    by (simp add: parse_cf_descriptor_def descriptor_def e_ok_def)
qed

text \<open>
  Claim C34. A refused column family option (a prefix extractor or a bitset operator whose number is not
  one) has two outcomes. Given to \<open>open\<close> or \<open>open_readonly\<close> it is silent: the fold over the options
  ends there, its result is dropped, and RocksDB is opened with the column family options in front
  of it only, those after it being lost. In the options of a column family given to the opening NIFs
  with descriptors, and in \<open>create_column_family\<close>, the call answers the atom \<open>badarg\<close>, RocksDB is not called
  and no object is made. (The opening NIF with times to live, \<open>create_column_family_with_ttl\<close>, \<open>destroy\<close>
  and \<open>repair\<close> drop the result as \<open>open\<close> does.)
\<close>

theorem refused_cf_option:
  fixes R :: "'n rocks_shared" and RO :: "'w rocks_open"
  assumes "refused_at (compressions RO) S1 items opts0" "path_ok name" "path_ok cf"
    and "db_options_of R S t = Ok (db_opts, S1)" "enif_is_list t" "\<forall>d \<in> set ds. good_descriptor (compressions RO) S1 d"
    and "(single, cls) \<in> {(Open, PlainDb), (OpenReadOnly, ReadOnlyDb)}"
    and "nif \<in> {OpenWithCf, OpenWithCfReadOnly, OpenOptimisticTransactionDB, OpenPessimisticTransactionDB}"
    and "db_open h d"
  shows "(t = enif_make_list items \<longrightarrow>
      single R RO (w, S) h [path_term name, t] =
        open_single False (OpenDB RO (next_addr h) cls db_opts opts0 name w) S1 h) \<and>
    nif R RO (w, S) h [path_term name, t, enif_make_list (map descriptor ds @ descriptor (cf, items) # rest)] =
      ((Ok (EAtom ''badarg''), w, S1), h) \<and>
    CreateColumnFamily R RO (w, S1) h [ERef d, path_term cf, enif_make_list items] = ((Ok (EAtom ''badarg''), w, S1), h)"
proof (intro conjI impI)
  note fold = refused_fold [OF assms(1)]
  have ne: "EAtom ''badarg'' \<noteq> e_ok"
    by (simp add: e_ok_def)
  obtain cfs where cfs: "parse_descriptors (parse_cf_descriptor (compressions RO) S1)
      (map descriptor ds @ descriptor (cf, items) # rest) [] = (Ok (EAtom ''badarg''), cfs)"
    using refused_descriptor [OF assms(6,3,1)] by blast
  have "cf_options_of (compressions RO) S1 (enif_make_list items) = Ok opts0"
    by (simp add: cf_options_of_def fold)
  then show "single R RO (w, S) h [path_term name, t] =
      open_single False (OpenDB RO (next_addr h) cls db_opts opts0 name w) S1 h" if "t = enif_make_list items"
    using that assms(2,4,5,7)
    by (auto simp: Open_def OpenReadOnly_def Open_base_def name_and_list_def on_outcome_def both_options_def)
  show "nif R RO (w, S) h [path_term name, t, enif_make_list (map descriptor ds @ descriptor (cf, items) # rest)] =
      ((Ok (EAtom ''badarg''), w, S1), h)"
    using assms(2,4,5,8) cfs ne
    by (auto simp: OpenWithCf_def OpenWithCfReadOnly_def OpenOptimisticTransactionDB_def OpenWithCf_base_def
        OpenPessimisticTransactionDB_def name_and_list_def on_outcome_def Let_def)
  obtain db where db: "mem h d = Some db" "m_CloseRequested db = 0"
    using assms(9) by (auto simp: db_open_def split: option.splits)
  have mem: "mem (RefInc h d) d = Some (db\<lparr>m_RefCount := m_RefCount db + 1\<rparr>)"
    using RefInc_open [OF db] .
  have "CreateColumnFamily R RO (w, S1) h [ERef d, path_term cf, enif_make_list items] =
      ((Ok (EAtom ''badarg''), w, S1), put_obj (RefInc h d) d (db\<lparr>m_RefCount := m_RefCount db + 1, m_RefCount := m_RefCount db\<rparr>))"
    unfolding CreateColumnFamily_def prod.case nth_Cons_0
    by (subst with_db_creates [OF assms(9) _ mem])
      (use db mem assms(3) fold ne in \<open>simp_all add: name_and_list_def on_outcome_def\<close>)
  moreover have "put_obj (RefInc h d) d (db\<lparr>m_RefCount := m_RefCount db + 1, m_RefCount := m_RefCount db\<rparr>) = h"
    using db by (simp add: RefInc_def with_live_eq put_obj_def fun_upd_idem)
  ultimately show "CreateColumnFamily R RO (w, S1) h [ERef d, path_term cf, enif_make_list items] =
      ((Ok (EAtom ''badarg''), w, S1), h)"
    by simp
qed

section \<open>Concrete instances\<close>

text \<open>A RocksDB whose opens succeed.\<close>

record open_world =
  ow_handles :: "addr \<Rightarrow> bytes list"
  ow_names :: "addr \<Rightarrow> bytes option"
  ow_ttl :: "addr \<Rightarrow> cf_arg \<Rightarrow> int"

definition list_open :: "open_world rocks_open" where
  "list_open =
     \<lparr>compressions = [], OpenDB = (\<lambda>d cls db_opts cf_opts name w. (ok_status, w)),
      OpenCfs = (\<lambda>d cls opts name cfs w. (ok_status, length cfs, w\<lparr>ow_handles := (ow_handles w)(d := map fst cfs)\<rparr>)),
      AttachHandle = (\<lambda>d i a w. w\<lparr>ow_names := (ow_names w)(a \<mapsto> ow_handles w d ! i)\<rparr>),
      DestroyDB = (\<lambda>name db_opts cf_opts w. (ok_status, w)), RepairDB = (\<lambda>name db_opts cf_opts w. (ok_status, w)),
      ListCfs = (\<lambda>opts name w. (ok_status, [])),
      CreateCf = (\<lambda>d opts name a w. (ok_status, w\<lparr>ow_names := (ow_names w)(a \<mapsto> name)\<rparr>)),
      CreateCfWithTtl = (\<lambda>d opts name t a w.
        (ok_status, w\<lparr>ow_names := (ow_names w)(a \<mapsto> name), ow_ttl := (ow_ttl w)(d := (ow_ttl w d)(CfArg (Some a) := t))\<rparr>)),
      ttl_Get = (\<lambda>d cf w. (ok_status, ow_ttl w d cf)),
      ttl_Set = (\<lambda>d cf t w. w\<lparr>ow_ttl := (ow_ttl w)(d := (ow_ttl w d)(cf := t))\<rparr>),
      CfMetaData = (\<lambda>d cf w. \<lparr>cm_size = 0, file_count = 0, cm_name = [], cm_blob_file_size = 0, blob_files = []\<rparr>),
      IngestFiles = (\<lambda>d cf files opts w. (ok_status, w))\<rparr>"

lemma list_open_laws: "open_laws list_open ow_handles ow_names"
  by (simp add: open_laws_def list_open_def)

definition open_world_init :: open_world where
  "open_world_init = \<lparr>ow_handles = (\<lambda>_. []), ow_names = (\<lambda>_. None), ow_ttl = (\<lambda>_ _. 0)\<rparr>"

text \<open>Two column families, in the environment of \<open>stats_story\<close>.\<close>

definition open_args :: "eterm list" where
  "open_args = [path_term [100, 98], enif_make_list [], enif_make_list (map descriptor [([97], []), ([98], [])])]"

theorem open_handles_in_order_witness:
  "\<exists>r w1 h1. OpenWithCf plain_shared list_open (open_world_init, stats_story) (objects initial_system) open_args =
      ((Ok r, w1, stats_story), h1) \<and>
    ((\<exists>st. \<not> status_ok st \<and> r = error_tuple (EAtom ''db_open'') st \<and> h1 = objects initial_system) \<or>
     (\<exists>db cfs. r = ETuple [e_ok, ERef db, enif_make_list (map ERef cfs)] \<and> distinct (db # cfs) \<and> db_open h1 db \<and>
        (\<forall>cf \<in> set cfs. cf_open h1 cf) \<and> map (ow_names w1) cfs = [Some [97], Some [98]]))"
proof -
  let ?ds = "[([97], []), ([98], [])] :: (bytes \<times> eterm list) list"
  have good: "\<forall>d \<in> set ?ds. good_descriptor (compressions list_open) stats_story d"
    by (simp add: good_descriptor_def path_ok_def)
  have len: "length ?ds < 2 ^ 32 - 1"
    by simp
  have opts: "db_options_of plain_shared stats_story (enif_make_list []) = Ok (\<lambda>_. None, stats_story)"
    by (simp add: db_options_of_def)
  have path: "path_ok [100, 98]" "enif_is_list (enif_make_list [])"
    by (simp_all add: path_ok_def)
  show ?thesis
    using open_handles_in_order [OF list_open_laws reachable.init len _ path opts good, of OpenWithCf open_world_init]
    by (simp add: open_args_def)
qed

theorem opened_database_closes_witness:
  "\<exists>h2. Close (snd (OpenWithCf plain_shared list_open (open_world_init, stats_story) (objects initial_system) open_args)) [ERef 0] =
      (Ok e_ok, h2) \<and> \<not> fault h2 \<and> (\<forall>a \<in> {0, 1, 2}. releases h2 a = 1)"
proof -
  let ?run = "OpenWithCf plain_shared list_open (open_world_init, stats_story) (objects initial_system) open_args"
  have "fst (fst ?run) = Ok (ETuple [e_ok, ERef 0, enif_make_list [ERef 1, ERef 2]])"
    by code_simp
  then have run: "?run = ((Ok (ETuple [e_ok, ERef 0, enif_make_list [ERef 1, ERef 2]]), snd (fst ?run)), snd ?run)"
    by (metis prod.collapse)
  have len: "length [ERef 1, ERef 2] < 2 ^ 32 - 1"
    by simp
  show ?thesis
    using opened_database_closes [where nif = OpenWithCf, OF reachable.init len _ run] by auto
qed

definition ttl_heap :: ref_heap where
  "ttl_heap = snd (CreateColumnFamilyObject (snd (CreateDbObject empty_heap False True)) (Some 0))"

theorem ttl_roundtrip_witness:
  "fst (fst (GetTtl list_open (snd (fst (SetTtl list_open open_world_init ttl_heap [ERef 0, ERef 1, EInt 60]))) ttl_heap [ERef 0, ERef 1])) =
     Ok (ok_tuple (EInt 60))"
proof -
  have laws: "ttl_Get list_open d cf (ttl_Set list_open d cf t w) = (ok_status, t)" for d cf t w
    by (simp add: list_open_def)
  have heap: "db_open ttl_heap 0" "cf_open ttl_heap 1" "mem ttl_heap 0 \<noteq> None" "m_IsTTL (the (mem ttl_heap 0))"
    by code_simp+
  then obtain db where db: "mem ttl_heap 0 = Some db" "m_IsTTL db"
    by auto
  have "enif_get_int (EInt 60) = Some 60"
    by simp
  from ttl_roundtrip [OF laws heap(1) db(1) heap(2) this] show ?thesis
    using db(2) by simp
qed

definition refused_items :: "eterm list" where
  "refused_items =
     [ETuple [EAtom ''num_levels'', EInt 4],
      ETuple [EAtom ''prefix_extractor'', ETuple [EAtom ''fixed_prefix_transform'', EAtom ''long'']],
      ETuple [EAtom ''merge_operator'', EAtom ''counter_merge_operator'']]"

lemma refused_items_at: "refused_at [] stats_story refused_items [''num_levels'' \<mapsto> VInt 4]"
proof -
  have row: "map_of (cf_option_table :: nat option_table) ''prefix_extractor'' = Some (''prefix_extractor'', to_prefix_extractor)"
    "map_of (cf_option_table :: nat option_table) ''num_levels'' = Some (''num_levels'', to_int)"
    by (simp_all add: cf_option_table_def)
  have bad: "to_prefix_extractor stats_story (ETuple [EAtom ''fixed_prefix_transform'', EAtom ''long'']) = Failed"
    by (simp add: to_prefix_extractor_def)
  have "fold_options (parse_cf_option [] stats_story) [ETuple [EAtom ''num_levels'', EInt 4]] (\<lambda>_. None) =
      Ok (e_ok, [''num_levels'' \<mapsto> VInt 4])"
    by (simp add: parse_cf_option_def assign_option_def row to_int_def e_ok_def)
  then show ?thesis
    using row(1) bad unfolding refused_at_def refused_items_def
    by (intro exI [of _ "[ETuple [EAtom ''num_levels'', EInt 4]]"]) auto
qed

lemma refused_items_db: "db_options_of plain_shared stats_story (enif_make_list refused_items) = Ok (\<lambda>_. None, stats_story)"
proof -
  have "map_of (db_option_table :: nat option_table) ''num_levels'' = None"
      "map_of (db_option_table :: nat option_table) ''prefix_extractor'' = None"
      "map_of (db_option_table :: nat option_table) ''merge_operator'' = None"
    by (simp_all add: db_option_table_def)
  then show ?thesis
    by (simp add: db_options_of_def refused_items_def parse_db_option_def assign_option_def e_ok_def)
qed

theorem refused_cf_option_witness:
  "Open plain_shared list_open (open_world_init, stats_story) ttl_heap [path_term [100, 98], enif_make_list refused_items] =
     open_single False (OpenDB list_open 2 PlainDb (\<lambda>_. None) [''num_levels'' \<mapsto> VInt 4] [100, 98] open_world_init) stats_story ttl_heap \<and>
   OpenWithCf plain_shared list_open (open_world_init, stats_story) ttl_heap
     [path_term [100, 98], enif_make_list refused_items, enif_make_list [descriptor ([97], refused_items)]] =
     ((Ok (EAtom ''badarg''), open_world_init, stats_story), ttl_heap) \<and>
   CreateColumnFamily plain_shared list_open (open_world_init, stats_story) ttl_heap
     [ERef 0, path_term [97], enif_make_list refused_items] = ((Ok (EAtom ''badarg''), open_world_init, stats_story), ttl_heap)"
proof -
  have none: "compressions list_open = []"
    by (simp add: list_open_def)
  have path: "path_ok [100, 98]" "path_ok [97]"
    by (simp_all add: path_ok_def)
  have heap: "db_open ttl_heap 0" "next_addr ttl_heap = 2"
    by code_simp+
  show ?thesis
    using refused_cf_option [OF refused_items_at [folded none] path refused_items_db _ _ _ _ heap(1),
        of "[]" Open PlainDb OpenWithCf open_world_init "[]"] heap(2) by simp
qed

end
