(* ===== verification/Ingest_Props.thy ===== *)
theory Ingest_Props
  imports Sst_Props Db_Props Open_Props
begin

text \<open>
  Bulk loading, from end to end: a table file is written with the NIFs of
  \<open>sst_file_writer.cc\<close>, \<open>ingest_external_file\<close> (\<open>erocksdb_db.cc\<close>) gives it to a database, and
  \<open>get\<close> reads what the file holds.
\<close>

section \<open>Ingestion\<close>

text \<open>
  The documented behaviour of \<open>DB::IngestExternalFile\<close>: when it succeeds the files exist, and
  unless they are ingested behind the others their entries are newer than what the column
  family held. A database with a time to live does not obey this law together with that of
  \<open>Get\<close>: the values of an ingested file carry no timestamp, and its \<open>Get\<close> takes the last four
  bytes of every value for one.
\<close>

definition file_puts :: "cf_arg \<Rightarrow> (bytes \<times> bytes) list \<Rightarrow> batch_op list" where
  "file_puts cf es = map (\<lambda>e. WPut cf (fst e) (snd e)) es"

definition ingest_laws ::
    "'db rocks_open \<Rightarrow> ('db \<Rightarrow> addr \<Rightarrow> batch_op list) \<Rightarrow> ('db \<Rightarrow> bytes \<rightharpoonup> (bytes \<times> bytes) list) \<Rightarrow> bool" where
  "ingest_laws RO history stored \<longleftrightarrow>
     (\<forall>d cf names opts w st w1. IngestFiles RO d cf names opts w = (st, w1) \<longrightarrow> status_ok st \<longrightarrow> \<not> ingest_behind opts \<longrightarrow>
        (\<forall>f \<in> set names. stored w f \<noteq> None) \<and>
        history w1 = (history w)(d := history w d @ concat (map (\<lambda>f. file_puts cf (the (stored w f))) names)))"

lemma ingest_lawsD:
  assumes "ingest_laws RO history stored" "IngestFiles RO d cf [f] opts w = (st, w1)" "status_ok st" "\<not> ingest_behind opts"
    "stored w f = Some es"
  shows "history w1 = (history w)(d := history w d @ file_puts cf es)"
  using assms(1) [unfolded ingest_laws_def, rule_format, OF assms(2-4)] assms(5) by simp

text \<open>What a key has after the entries of a file: its last entry in the file, else what it had.\<close>

lemma value_of_file_puts:
  "value_of mrg cf k (cs @ file_puts cf es) =
     (case map_of (rev es) k of Some v \<Rightarrow> Some v | None \<Rightarrow> value_of mrg cf k cs)"
proof (induction es rule: rev_induct)
  case (snoc e es)
  then show ?case
    by (cases "fst e = k") (auto simp: value_of_def file_puts_def)
qed (simp add: file_puts_def)

lemma ingest_init [simp]: "snd (nif_fold parse_ingest_external_file_option ENil IngestExternalFileOptions_init) = IngestExternalFileOptions_init"
  by (simp add: nif_fold_def)

lemma IngestExternalFile_runs:
  assumes "db_open h d" "cf_usable h cf" "IngestFiles RO d cf [p] IngestExternalFileOptions_init w = (st, w1)"
  shows "IngestExternalFile RO w h (ERef d # cf_terms cf @ [enif_make_list [EBin p], ENil]) = ((Ok (status_result st), w1), h)"
  using assms(2)
proof (cases rule: cf_usableE)
  case 1
  then show ?thesis
    unfolding IngestExternalFile_def nth_Cons_0
    by (intro with_db_runs [OF assms(1)]) (use assms(3) in \<open>simp add: file_path_def run_status_def Let_def\<close>)
next
  case (2 a)
  show ?thesis
    unfolding IngestExternalFile_def nth_Cons_0
    by (intro with_db_runs [OF assms(1)], simp add: 2(1) Let_def, intro with_cf_runs)
      (use 2 assms(3) in \<open>simp_all add: file_path_def run_status_def numeral_2_eq_2 numeral_3_eq_3\<close>)
qed

section \<open>Properties\<close>

text \<open>
  Claim C38. Bulk loading is read back: the entries that a table file accepted, once the file was
  finished and ingested with an answer of \<open>ok\<close>, are what \<open>get\<close> answers for their keys in that
  column family, in place of what the database held; other keys keep their value. This is
  for a database without time to live and without compaction filter, as the laws of its
  calls require.
\<close>

theorem bulk_load_is_read:
  assumes laws: "sst_laws Q content target files table entries" "db_laws R history seen mrg" "ingest_laws RO history stored"
    and file_calls: "SstFileWriterOpen RS supported Q (fs, S, H) [wopts, EBin p] = (Ok (ok_tuple (ERef w)), fs1, S1, H1)"
      "sst_put_all Q w es H1 = (rs, H2)" "SstFileWriterFinish Q fs1 H2 [ERef w] = (Ok e_ok, fs2, H3)"
    and disk: "stored dbs p = files fs2 p"
    and db: "db_open h d" "cf_usable h cf"
    and ingest: "IngestExternalFile RO dbs h (ERef d # cf_terms cf @ [enif_make_list [EBin p], ENil]) = ((Ok e_ok, dbs1), h1)"
    and safe: "single_safe cf k (history dbs d @ file_puts cf (accepted rs es))"
  shows "h1 = h \<and> (\<exists>r. Get R dbs1 h1 (ERef d # cf_terms cf @ [EBin k, ENil]) = (Ok r, h) \<and>
    ((\<exists>e. r = ETuple [EAtom ''error'', e]) \<or>
     r = (case map_of (rev (accepted rs es)) k of
            Some v \<Rightarrow> ok_tuple (EBin v)
          | None \<Rightarrow> (case value_of mrg cf k (history dbs d) of
                       Some v \<Rightarrow> ok_tuple (EBin v) | None \<Rightarrow> EAtom ''not_found''))))"
proof -
  obtain wr where wr: "sst_writers H1 w = Some wr" "content wr = []" "target wr = p"
    using opened_writer [OF laws(1) file_calls(1)] by (auto simp: get_file_path_def)
  obtain wr1 where wr1: "sst_writers H2 w = Some wr1" "content wr1 = accepted rs es" "target wr1 = p"
    using put_all_content [OF laws(1) wr(1) file_calls(2)] wr(2,3) by auto
  have stored: "stored dbs p = Some (accepted rs es)"
    using finished_writer [OF laws(1) wr1(1) file_calls(3)] wr1(2,3) disk by simp
  obtain st dbs' where ing: "IngestFiles RO d cf [p] IngestExternalFileOptions_init dbs = (st, dbs')"
    by fastforce
  then have eq: "h1 = h" "dbs1 = dbs'" "status_ok st"
    using ingest IngestExternalFile_runs [OF db ing] by (auto simp: status_result_ok)
  have hist: "history dbs1 d = history dbs d @ file_puts cf (accepted rs es)"
    using ingest_lawsD [OF laws(3) ing eq(3) _ stored] eq(2) by (simp add: IngestExternalFileOptions_init_def)
  have init: "snd (read_options_of h ENil) = ReadOptions_init"
    by (simp add: read_options_of_def nif_fold_def)
  obtain st' v where get: "db_Get R d ReadOptions_init cf k dbs1 = (st', v)"
    by fastforce
  have "status_ok st' \<longrightarrow> value_of mrg cf k (history dbs1 d) = Some v" "code st' = kNotFound \<longrightarrow> value_of mrg cf k (history dbs1 d) = None"
    using db_lawsD(2) [OF laws(2) get _ refl] safe hist by (simp_all add: ReadOptions_init_def)
  then show ?thesis
    using Get_open [OF db, of R dbs1 k ENil] value_result_cases [of read_classes st' v] eq(1) get
    by (auto simp: init hist value_of_file_puts split: option.splits)
qed

text \<open>Two entries of a file, the third refused because it is out of order; a key the file does not have.\<close>

definition ingest_open :: "histories rocks_open" where
  "ingest_open =
     \<lparr>compressions = [], OpenDB = (\<lambda>_ _ _ _ _ w. (ok_status, w)), OpenCfs = (\<lambda>_ _ _ _ cfs w. (ok_status, length cfs, w)),
      AttachHandle = (\<lambda>_ _ _ w. w), DestroyDB = (\<lambda>_ _ _ w. (ok_status, w)), RepairDB = (\<lambda>_ _ _ w. (ok_status, w)),
      ListCfs = (\<lambda>_ _ _. (ok_status, [])), CreateCf = (\<lambda>_ _ _ _ w. (ok_status, w)), CreateCfWithTtl = (\<lambda>_ _ _ _ _ w. (ok_status, w)),
      ttl_Get = (\<lambda>_ _ _. (ok_status, 0)), ttl_Set = (\<lambda>_ _ _ w. w),
      CfMetaData = (\<lambda>_ _ _. \<lparr>cm_size = 0, file_count = 0, cm_name = [], cm_blob_file_size = 0, blob_files = []\<rparr>),
      IngestFiles = (\<lambda>d cf names _ w.
        if \<forall>f \<in> set names. sst_story_files f \<noteq> None
        then (ok_status, (fst w)(d := fst w d @ concat (map (\<lambda>f. file_puts cf (the (sst_story_files f))) names)), snd w)
        else (\<lparr>code = kNotFound, ToString = ''NotFound''\<rparr>, w))\<rparr>"

lemma ingest_open_laws: "ingest_laws ingest_open fst (\<lambda>_. sst_story_files)"
  by (auto simp: ingest_laws_def ingest_open_def status_ok_def ok_status_def split: if_splits)

theorem bulk_load_is_read_witness:
  "\<exists>dbs1 r. IngestExternalFile ingest_open (\<lambda>_. [], \<lambda>_. []) db_heap [ERef 0, enif_make_list [EBin [97]], ENil] = ((Ok e_ok, dbs1), db_heap) \<and>
    Get (list_db (\<lambda>_ _ _ v. v)) dbs1 db_heap [ERef 0, EBin [2], ENil] = (Ok r, db_heap) \<and>
    (r = ok_tuple (EBin [20]) \<or> (\<exists>e. r = ETuple [EAtom ''error'', e]))"
proof -
  let ?dbs = "(\<lambda>_. [], \<lambda>_. []) :: histories" and ?es = "[([1], [10]), ([0], [5]), ([2], [20])] :: (bytes \<times> bytes) list"
  let ?dbs1 = "((\<lambda>_. [])(0 := file_puts NoCf sst_story_table), \<lambda>_. []) :: histories"
  have acc: "accepted sst_story_puts ?es = sst_story_table"
    by (simp add: accepted_def sst_story_puts_def sst_story_table_def e_ok_def error_tuple_def)
  have cf: "cf_usable db_heap NoCf"
    by (simp add: cf_usable_def)
  have "IngestFiles ingest_open 0 NoCf [[97]] IngestExternalFileOptions_init ?dbs = (ok_status, ?dbs1)"
    by (simp add: ingest_open_def sst_story_files_def)
  from IngestExternalFile_runs [OF db_heap_open(1) cf this]
  have ing: "IngestExternalFile ingest_open ?dbs db_heap (ERef 0 # cf_terms NoCf @ [enif_make_list [EBin [97]], ENil]) =
      ((Ok e_ok, ?dbs1), db_heap)"
    by (simp add: status_result_def status_ok_def ok_status_def)
  have "single_safe NoCf [2] (fst ?dbs 0 @ file_puts NoCf (accepted sst_story_puts ?es))"
    unfolding acc by (simp add: single_safe_def file_puts_def sst_story_table_def)
  from bulk_load_is_read [OF list_sst_laws list_db_laws ingest_open_laws sst_story_runs(1-3) _ db_heap_open(1) cf ing this] ing
  show ?thesis
    unfolding acc by (auto simp: sst_story_table_def)
qed

end
