(* ===== verification/Std_Containers.thy ===== *)
theory Std_Containers
  imports Prelude
begin

text \<open>
  The two ordered containers of the C++ standard library that the sources use:
  \<open>std::map<std::string, bool>\<close> and \<open>std::set<std::string>\<close>. Both iterate in
  increasing key order, and \<open>std::string\<close> compares its bytes as unsigned
  characters, lexicographically, which is the order of \<open>List_Lexorder\<close> on lists
  of 8-bit words. A map is the list of its entries in iteration order, a set the
  list of its elements. The locales \<open>ordered_map\<close> and \<open>ordered_set\<close> are the
  interfaces the clients rely on; the interpretations \<open>smap\<close> and \<open>sset\<close> discharge
  their laws for the entry lists.
\<close>

section \<open>Interfaces\<close>

locale ordered_map =
  fixes empty :: "'m"
    and assign :: "'k::linorder \<Rightarrow> 'v \<Rightarrow> 'm \<Rightarrow> 'm"
    and find :: "'m \<Rightarrow> 'k \<Rightarrow> 'v option"
    and entries :: "'m \<Rightarrow> ('k \<times> 'v) list"
    and invar :: "'m \<Rightarrow> bool"
  assumes find_empty: "find empty = (\<lambda>_. None)"
    and find_assign: "invar m \<Longrightarrow> find (assign k v m) = (find m)(k := Some v)"
    and invar_empty: "invar empty"
    and invar_assign: "invar m \<Longrightarrow> invar (assign k v m)"
    and entries_increasing: "invar m \<Longrightarrow> sorted_wrt (<) (map fst (entries m))"
    and entries_find: "invar m \<Longrightarrow> map_of (entries m) = find m"
begin

text \<open>Replaying a sequence of writes: the last write to a key wins.\<close>

definition replay :: "('k \<times> 'v) list \<Rightarrow> 'm \<Rightarrow> 'm" where
  "replay ws m = fold (\<lambda>(k, v). assign k v) ws m"

lemma replay_simps [simp]:
  "replay [] m = m" "replay (w # ws) m = replay ws (assign (fst w) (snd w) m)"
  by (simp_all add: replay_def case_prod_beta)

lemma replay_append: "replay (ws @ ws') m = replay ws' (replay ws m)"
  by (simp add: replay_def)

lemma invar_replay: "invar m \<Longrightarrow> invar (replay ws m)"
  by (induction ws arbitrary: m) (auto intro: invar_assign)

lemma find_replay: "invar m \<Longrightarrow> find (replay ws m) = find m ++ map_of (rev ws)"
proof (induction ws arbitrary: m)
  case (Cons w ws)
  then have "find (replay ws (assign (fst w) (snd w) m))
      = find (assign (fst w) (snd w) m) ++ map_of (rev ws)"
    by (simp add: invar_assign)
  also have "\<dots> = find m ++ map_of (rev (w # ws))"
    using Cons.prems by (simp add: find_assign map_add_upd_left map_add_def fun_eq_iff split: option.splits)
  finally show ?case by simp
qed simp

lemma entries_keys_distinct: "invar m \<Longrightarrow> distinct (map fst (entries m))"
  by (rule sorted_wrt_less_distinct) (rule entries_increasing)

lemma in_entries_iff: "invar m \<Longrightarrow> (k, v) \<in> set (entries m) \<longleftrightarrow> find m k = Some v"
  using entries_keys_distinct [of m] entries_find [of m]
  by (metis map_of_eq_Some_iff)

end

locale ordered_set =
  fixes empty :: "'s"
    and insert :: "'k::linorder \<Rightarrow> 's \<Rightarrow> 's"
    and contains :: "'s \<Rightarrow> 'k \<Rightarrow> bool"
    and elems :: "'s \<Rightarrow> 'k list"
    and invar :: "'s \<Rightarrow> bool"
  assumes elems_empty: "elems empty = []"
    and set_elems_insert: "invar s \<Longrightarrow> set (elems (insert k s)) = Set.insert k (set (elems s))"
    and contains_iff: "invar s \<Longrightarrow> contains s k \<longleftrightarrow> k \<in> set (elems s)"
    and invar_empty: "invar empty"
    and invar_insert: "invar s \<Longrightarrow> invar (insert k s)"
    and elems_increasing: "invar s \<Longrightarrow> sorted_wrt (<) (elems s)"
begin

lemma invar_insert_all: "invar s \<Longrightarrow> invar (fold insert ks s)"
  by (induction ks arbitrary: s) (auto intro: invar_insert)

lemma set_elems_insert_all: "invar s \<Longrightarrow> set (elems (fold insert ks s)) = set (elems s) \<union> set ks"
  by (induction ks arbitrary: s) (auto simp: set_elems_insert invar_insert)

lemma insert_all_sorted:
  assumes "sorted_wrt (<) ks"
  shows "elems (fold insert ks empty) = ks"
proof (rule sorted_wrt_less_unique)
  show "sorted_wrt (<) (elems (fold insert ks empty))"
    by (rule elems_increasing) (rule invar_insert_all [OF invar_empty])
  show "set (elems (fold insert ks empty)) = set ks"
    by (simp add: set_elems_insert_all invar_empty elems_empty)
qed (rule assms)

end

section \<open>\<open>std::set\<close>\<close>

fun sset_insert :: "'k::linorder \<Rightarrow> 'k list \<Rightarrow> 'k list" where
  "sset_insert k [] = [k]"
| "sset_insert k (x # s) =
     (if x = k then x # s else if x < k then x # sset_insert k s else k # x # s)"

definition sset_count :: "'k list \<Rightarrow> 'k \<Rightarrow> nat" where
  "sset_count s k = (if k \<in> set s then 1 else 0)"

lemma set_sset_insert: "set (sset_insert k s) = insert k (set s)"
  by (induction s) auto

lemma sset_insert_increasing: "sorted_wrt (<) s \<Longrightarrow> sorted_wrt (<) (sset_insert k s)"
  by (induction s) (auto simp: set_sset_insert)

interpretation sset: ordered_set "[]" sset_insert "\<lambda>s k. 0 < sset_count s k" id "sorted_wrt (<)"
  by unfold_locales (auto simp: set_sset_insert sset_insert_increasing sset_count_def)

lemma sset_insert_all_increasing: "sorted_wrt (<) s \<Longrightarrow> sorted_wrt (<) (fold sset_insert ks s)"
  by (rule sset.invar_insert_all)

lemma set_sset_insert_all: "sorted_wrt (<) s \<Longrightarrow> set (fold sset_insert ks s) = set s \<union> set ks"
  using sset.set_elems_insert_all [of s ks] by simp

lemma sset_count_pos [simp]: "0 < sset_count s k \<longleftrightarrow> k \<in> set s"
  by (simp add: sset_count_def)

lemma sset_count_zero [simp]: "sset_count s k = 0 \<longleftrightarrow> k \<notin> set s"
  by (simp add: sset_count_def)

section \<open>\<open>std::map\<close>\<close>

type_synonym 'v smap = "(bytes \<times> 'v) list"

text \<open>\<open>m[k] = v\<close>\<close>

fun smap_assign :: "'k::linorder \<Rightarrow> 'v \<Rightarrow> ('k \<times> 'v) list \<Rightarrow> ('k \<times> 'v) list" where
  "smap_assign k v [] = [(k, v)]"
| "smap_assign k v (e # m) =
     (if fst e = k then (k, v) # m
      else if fst e < k then e # smap_assign k v m
      else (k, v) # e # m)"

definition smap_invar :: "('k::linorder \<times> 'v) list \<Rightarrow> bool" where
  "smap_invar m \<longleftrightarrow> sorted_wrt (<) (map fst m)"

lemma smap_assign_keys: "map fst (smap_assign k v m) = sset_insert k (map fst m)"
  by (induction m) auto

lemma smap_assign_find: "smap_invar m \<Longrightarrow> map_of (smap_assign k v m) = (map_of m)(k := Some v)"
  by (induction m) (auto simp: smap_invar_def fun_eq_iff)

lemma smap_assign_invar: "smap_invar m \<Longrightarrow> smap_invar (smap_assign k v m)"
  unfolding smap_invar_def smap_assign_keys by (rule sset_insert_increasing)

interpretation smap: ordered_map "[]" smap_assign map_of id smap_invar
  by unfold_locales (simp_all add: smap_assign_find smap_assign_invar, simp_all add: smap_invar_def)

end
