(* ===== verification/Posting_Codec.thy ===== *)
theory Posting_Codec
  imports Std_Containers
begin

text \<open>
  The posting-list value formats of \<open>c_src/posting_list_merge_operator.cc\<close>: version
  detection, the parsers of both formats, the key hash and the V2 writer. A
  pointer into the value is the list of the bytes from the pointer to the end,
  so \<open>ptr + n <= end\<close> is \<open>n \<le> length p\<close>. The host is little-endian, as
  \<open>HashKey\<close> copies eight bytes into a \<open>uint64_t\<close>. CRoaring is the argument
  \<open>cfg\<close>: \<open>Some rb\<close> for a build with \<open>WITH_CROARING\<close>, where \<open>rb\<close> holds the
  functions of \<open>roaring64.h\<close> the code calls, \<open>None\<close> for a build without.
\<close>

section \<open>CRoaring\<close>

record 'bm roaring =
  rb_create :: "'bm"
  rb_add :: "'bm \<Rightarrow> u64 \<Rightarrow> 'bm"
  rb_contains :: "'bm \<Rightarrow> u64 \<Rightarrow> bool"
  rb_serialize :: "'bm \<Rightarrow> bytes"
  rb_deserialize_safe :: "bytes \<Rightarrow> 'bm option"
  rb_and_cardinality :: "'bm \<Rightarrow> 'bm \<Rightarrow> nat"

definition rb_set :: "'bm roaring \<Rightarrow> 'bm \<Rightarrow> u64 set" where
  "rb_set rb b = {h. rb_contains rb b h}"

text \<open>
  The documented behaviour the code relies on: a bitmap is a set of 64-bit
  values, the portable serialization is not empty and reads back as the same
  set, and \<open>and_cardinality\<close> counts the common elements.
\<close>

definition roaring_ok :: "'bm roaring \<Rightarrow> bool" where
  "roaring_ok rb \<longleftrightarrow>
     rb_set rb (rb_create rb) = {} \<and>
     (\<forall>b h. rb_set rb (rb_add rb b h) = insert h (rb_set rb b)) \<and>
     (\<forall>b. rb_serialize rb b \<noteq> []) \<and>
     (\<forall>b. \<exists>b'. rb_deserialize_safe rb (rb_serialize rb b) = Some b' \<and> rb_set rb b' = rb_set rb b) \<and>
     (\<forall>b b'. rb_and_cardinality rb b b' = card (rb_set rb b \<inter> rb_set rb b'))"

section \<open>Versions\<close>

definition POSTING_LIST_V1 :: byte where "POSTING_LIST_V1 = 0x01"
definition POSTING_LIST_V2 :: byte where "POSTING_LIST_V2 = 0x02"

definition DetectVersion :: "bytes \<Rightarrow> byte" where
  "DetectVersion data =
     (if data = [] then POSTING_LIST_V1
      else if data ! 0 = POSTING_LIST_V2 then POSTING_LIST_V2
      else POSTING_LIST_V1)"

lemma version_distinct [simp]: "POSTING_LIST_V1 \<noteq> POSTING_LIST_V2"
  by (simp add: POSTING_LIST_V1_def POSTING_LIST_V2_def)

section \<open>Hash\<close>

definition fmix64 :: "u64 \<Rightarrow> u64" where
  "fmix64 k0 =
     (let k = k0 XOR drop_bit 33 k0;
          k = k * 0xff51afd7ed558ccd;
          k = k XOR drop_bit 33 k;
          k = k * 0xc4ceb9fe1a85ec53;
          k = k XOR drop_bit 33 k
      in k)"

text \<open>\<open>memcpy(&k, data, 8)\<close> on a little-endian host.\<close>

definition load64 :: "bytes \<Rightarrow> u64" where
  "load64 p = foldr (\<lambda>b acc. ucast b OR push_bit 8 acc) (take 8 p) 0"

text \<open>The fall-through \<open>switch\<close> on the remaining bytes, from the last to the first.\<close>

definition tail_bits :: "bytes \<Rightarrow> u64" where
  "tail_bits t = fold (\<lambda>(i, b) k. k XOR push_bit (8 * i) (ucast b)) (rev (enumerate 0 t)) 0"

fun HashKey_blocks :: "nat \<Rightarrow> bytes \<Rightarrow> u64 \<Rightarrow> u64" where
  "HashKey_blocks 0 data h = h"
| "HashKey_blocks (Suc n) data h =
     (let h = h XOR fmix64 (load64 data);
          h = push_bit 27 h OR drop_bit 37 h;
          h = h * 5 + 0x52dce729
      in HashKey_blocks n (drop 8 data) h)"

definition HashKey :: "bytes \<Rightarrow> u64" where
  "HashKey key =
     (let len = length key;
          nblocks = len div 8;
          h = HashKey_blocks nblocks key 0x9e3779b97f4a7c15;
          tail = drop (nblocks * 8) key;
          h = (if tail = [] then h else h XOR fmix64 (tail_bits tail))
      in fmix64 (h XOR of_nat len))"

section \<open>Parsers\<close>

type_synonym key_states = "bool smap"

function ParseV1Value :: "bytes \<Rightarrow> key_states \<Rightarrow> key_states" where
  "ParseV1Value p ks =
     (if length p < 5 then ks
      else
        let len = rd32 p;
            flag = p ! 4;
            q = drop 5 p;
            is_tombstone = (flag \<noteq> 0)
        in if length q < unat len then ks
           else ParseV1Value (drop (unat len) q) (smap_assign (take (unat len) q) is_tombstone ks))"
  by pat_completeness auto
termination
  by (relation "measure (length \<circ> fst)") auto

declare ParseV1Value.simps [simp del]

fun ParseV2Keys :: "nat \<Rightarrow> bytes \<Rightarrow> key_states \<Rightarrow> key_states" where
  "ParseV2Keys 0 p ks = ks"
| "ParseV2Keys (Suc n) p ks =
     (if length p < 4 then ks
      else
        let len = rd32 p;
            q = drop 4 p
        in if length q < unat len then ks
           else ParseV2Keys n (drop (unat len) q) (smap_assign (take (unat len) q) False ks))"

definition ParseV2Value :: "bytes \<Rightarrow> key_states \<Rightarrow> key_states" where
  "ParseV2Value value ks =
     (if length value < 1 then ks
      else let p = drop 1 value in
      if length p < 4 then ks
      else let bitmap_size = rd32 p; p = drop 4 p in
      if length p < unat bitmap_size then ks
      else let p = drop (unat bitmap_size) p in
      if length p < 4 then ks
      else let key_count = rd32 p; p = drop 4 p in
      ParseV2Keys (unat key_count) p ks)"

definition ParseExistingValue :: "bytes \<Rightarrow> key_states \<Rightarrow> key_states" where
  "ParseExistingValue value ks =
     (if DetectVersion value = POSTING_LIST_V2 then ParseV2Value value ks
      else ParseV1Value value ks)"

section \<open>Writers\<close>

definition active_keys :: "key_states \<Rightarrow> bytes list" where
  "active_keys ks = map fst (filter (\<lambda>(key, is_tombstone). \<not> is_tombstone) ks)"

definition v2_header :: "'bm roaring option \<Rightarrow> (bytes \<Rightarrow> u64) \<Rightarrow> bytes list \<Rightarrow> bytes" where
  "v2_header cfg hash keys =
     (case cfg of
        Some rb \<Rightarrow>
          let bitmap = fold (\<lambda>key b. rb_add rb b (hash key)) keys (rb_create rb);
              bitmap_data = rb_serialize rb bitmap
          in POSTING_LIST_V2 # put_be32 (of_nat (length bitmap_data)) @ bitmap_data
      | None \<Rightarrow> [POSTING_LIST_V2, 0, 0, 0, 0])"

definition v2_entry :: "bytes \<Rightarrow> bytes" where
  "v2_entry key = put_be32 (of_nat (length key)) @ key"

definition SerializeV2 :: "'bm roaring option \<Rightarrow> key_states \<Rightarrow> bytes" where
  "SerializeV2 cfg ks =
     (let keys = active_keys ks
      in v2_header cfg HashKey keys @ put_be32 (of_nat (length keys)) @ concat (map v2_entry keys))"

definition AppendEntryV1 :: "bytes \<Rightarrow> bytes \<Rightarrow> bool \<Rightarrow> bytes" where
  "AppendEntryV1 result key is_tombstone =
     result @ put_be32 (of_nat (length key)) @ [if is_tombstone then 1 else 0] @ key"

section \<open>Parsers as replayed write logs\<close>

text \<open>
  Every parser of the operator has the same contract: it replays on the map a log
  of writes that depends on the parsed bytes only. Clients use this contract; the
  interpretations below discharge it for the parsers, and \<open>Posting_Merge\<close> for
  the treatment of a merge operand.
\<close>

locale log_replayer =
  fixes step :: "'v \<Rightarrow> key_states \<Rightarrow> key_states"
    and log :: "'v \<Rightarrow> (bytes \<times> bool) list"
  assumes step_replay: "step v ks = smap.replay (log v) ks"
begin

lemma step_invar: "smap_invar ks \<Longrightarrow> smap_invar (step v ks)"
  by (simp add: step_replay smap.invar_replay)

lemma step_find: "smap_invar ks \<Longrightarrow> map_of (step v ks) = map_of ks ++ map_of (rev (log v))"
  by (simp add: step_replay smap.find_replay)

lemma fold_step: "fold step vs ks = smap.replay (concat (map log vs)) ks"
  by (induction vs arbitrary: ks) (simp_all add: step_replay smap.replay_append)

lemma fold_step_invar: "smap_invar ks \<Longrightarrow> smap_invar (fold step vs ks)"
  by (simp add: fold_step smap.invar_replay)

end

function v1_log :: "bytes \<Rightarrow> (bytes \<times> bool) list" where
  "v1_log p =
     (if length p < 5 \<or> length (drop 5 p) < unat (rd32 p) then []
      else (take (unat (rd32 p)) (drop 5 p), p ! 4 \<noteq> 0) # v1_log (drop (unat (rd32 p)) (drop 5 p)))"
  by pat_completeness auto
termination
  by (relation "measure length") auto

declare v1_log.simps [simp del]

fun v2_keys_log :: "nat \<Rightarrow> bytes \<Rightarrow> bytes list" where
  "v2_keys_log 0 p = []"
| "v2_keys_log (Suc n) p =
     (if length p < 4 \<or> length (drop 4 p) < unat (rd32 p) then []
      else take (unat (rd32 p)) (drop 4 p) # v2_keys_log n (drop (unat (rd32 p)) (drop 4 p)))"

text \<open>The key section of a V2 value: what follows the bitmap, if it is there.\<close>

definition v2_key_section :: "bytes \<Rightarrow> (nat \<times> bytes) option" where
  "v2_key_section value =
     (let p = drop 1 value; q = drop (unat (rd32 p)) (drop 4 p)
      in if length p < 4 \<or> length (drop 4 p) < unat (rd32 p) \<or> length q < 4 then None
         else Some (unat (rd32 q), drop 4 q))"

definition v2_keys :: "bytes \<Rightarrow> bytes list" where
  "v2_keys value = (case v2_key_section value of None \<Rightarrow> [] | Some (n, p) \<Rightarrow> v2_keys_log n p)"

definition posting_log :: "bytes \<Rightarrow> (bytes \<times> bool) list" where
  "posting_log value =
     (if DetectVersion value = POSTING_LIST_V2 then map (\<lambda>k. (k, False)) (v2_keys value)
      else v1_log value)"

lemma ParseV1Value_replay: "ParseV1Value p ks = smap.replay (v1_log p) ks"
proof (induction p ks rule: ParseV1Value.induct)
  case (1 p ks)
  show ?case
  proof (cases "length p < 5 \<or> length (drop 5 p) < unat (rd32 p)")
    case True
    then show ?thesis
      by (auto simp: ParseV1Value.simps [of p] v1_log.simps [of p] Let_def)
  next
    case False
    with 1 show ?thesis
      by (simp add: ParseV1Value.simps [of p] v1_log.simps [of p] Let_def)
  qed
qed

lemma ParseV2Keys_replay: "ParseV2Keys n p ks = smap.replay (map (\<lambda>k. (k, False)) (v2_keys_log n p)) ks"
  by (induction n p ks rule: ParseV2Keys.induct) (simp_all add: Let_def)

lemma ParseV2Value_replay: "ParseV2Value p ks = smap.replay (map (\<lambda>k. (k, False)) (v2_keys p)) ks"
  by (auto simp: ParseV2Value_def v2_keys_def v2_key_section_def ParseV2Keys_replay Let_def add.commute)

interpretation v1: log_replayer ParseV1Value v1_log
  by unfold_locales (rule ParseV1Value_replay)

interpretation v2: log_replayer ParseV2Value "\<lambda>p. map (\<lambda>k. (k, False)) (v2_keys p)"
  by unfold_locales (rule ParseV2Value_replay)

interpretation existing: log_replayer ParseExistingValue posting_log
  by unfold_locales (simp add: ParseExistingValue_def posting_log_def ParseV1Value_replay ParseV2Value_replay)

section \<open>Active keys\<close>

lemma set_active_keys: "smap_invar ks \<Longrightarrow> set (active_keys ks) = {k. map_of ks k = Some False}"
proof -
  assume "smap_invar ks"
  then have "(k, False) \<in> set ks \<longleftrightarrow> map_of ks k = Some False" for k
    using smap.in_entries_iff [of ks k False] by simp
  moreover have "set (active_keys ks) = {k. (k, False) \<in> set ks}"
    by (auto simp: active_keys_def intro: rev_image_eqI)
  ultimately show ?thesis by simp
qed

lemma active_keys_increasing: "smap_invar ks \<Longrightarrow> sorted_wrt (<) (active_keys ks)"
proof (induction ks)
  case (Cons e ks)
  then show ?case
    by (auto simp: smap_invar_def active_keys_def)
qed (simp add: active_keys_def)

section \<open>Reading back\<close>

definition v2_image :: "'bm roaring option \<Rightarrow> (bytes \<Rightarrow> u64) \<Rightarrow> bytes list \<Rightarrow> bytes" where
  "v2_image cfg hash keys =
     v2_header cfg hash keys @ put_be32 (of_nat (length keys)) @ concat (map v2_entry keys)"

definition v2_bitmap_bytes :: "'bm roaring option \<Rightarrow> (bytes \<Rightarrow> u64) \<Rightarrow> bytes list \<Rightarrow> bytes" where
  "v2_bitmap_bytes cfg hash keys =
     (case cfg of
        Some rb \<Rightarrow> rb_serialize rb (fold (\<lambda>key b. rb_add rb b (hash key)) keys (rb_create rb))
      | None \<Rightarrow> [])"

text \<open>The sizes that the format stores in 32 bits fit.\<close>

definition v2_fits :: "'bm roaring option \<Rightarrow> (bytes \<Rightarrow> u64) \<Rightarrow> bytes list \<Rightarrow> bool" where
  "v2_fits cfg hash keys \<longleftrightarrow>
     length (v2_bitmap_bytes cfg hash keys) < 2 ^ 32 \<and> length keys < 2 ^ 32 \<and>
     (\<forall>k \<in> set keys. length k < 2 ^ 32)"

lemma SerializeV2_image: "SerializeV2 cfg ks = v2_image cfg HashKey (active_keys ks)"
  by (simp add: SerializeV2_def v2_image_def Let_def)

lemma v2_header_eq:
  "v2_header cfg hash keys =
     POSTING_LIST_V2 # put_be32 (of_nat (length (v2_bitmap_bytes cfg hash keys)))
       @ v2_bitmap_bytes cfg hash keys"
  by (cases cfg) (simp_all add: v2_header_def v2_bitmap_bytes_def put_be32_def Let_def)

lemma DetectVersion_image [simp]: "DetectVersion (v2_image cfg hash keys) = POSTING_LIST_V2"
  by (simp add: v2_image_def v2_header_eq DetectVersion_def)

lemma v2_keys_log_entries:
  "(\<forall>k \<in> set keys. length k < 2 ^ 32) \<Longrightarrow>
     v2_keys_log (length keys) (concat (map v2_entry keys) @ rest) = keys"
  by (induction keys) (simp_all add: v2_entry_def)

lemma v2_key_section_image:
  assumes "v2_fits cfg hash keys"
  shows "v2_key_section (v2_image cfg hash keys) = Some (length keys, concat (map v2_entry keys))"
  using assms by (simp add: v2_key_section_def v2_image_def v2_header_eq v2_fits_def)

lemma v2_keys_image: "v2_fits cfg hash keys \<Longrightarrow> v2_keys (v2_image cfg hash keys) = keys"
  using v2_keys_log_entries [of keys "[]"]
  by (simp add: v2_keys_def v2_key_section_image v2_fits_def)

lemma posting_log_image:
  "v2_fits cfg hash keys \<Longrightarrow> posting_log (v2_image cfg hash keys) = map (\<lambda>k. (k, False)) keys"
  by (simp add: posting_log_def v2_keys_image)

lemma v1_log_entry:
  assumes "length key < 2 ^ 32"
  shows "v1_log (AppendEntryV1 [] key t @ rest) = (key, t) # v1_log rest"
proof -
  let ?p = "put_be32 (of_nat (length key)) @ (if t then 1 else 0) # key @ rest"
  have "drop 5 ?p = key @ rest"
    by (simp add: put_be32_def)
  moreover have "?p ! 4 = (if t then 1 else 0)"
    by (simp add: nth_append)
  ultimately show ?thesis
    using assms by (simp add: AppendEntryV1_def v1_log.simps [of ?p])
qed

lemma v1_log_Nil [simp]: "v1_log [] = []"
  by (simp add: v1_log.simps)

end
