(* ===== verification/Posting_Merge.thy ===== *)
theory Posting_Merge
  imports Posting_Codec Erl_Terms
begin

text \<open>
  \<open>PostingListMergeOperator\<close> of \<open>c_src/posting_list_merge_operator.cc\<close>: the operand
  parser and the two merge callbacks RocksDB makes. A posting list stands for the
  set of its active keys; the abstract merge \<open>spec_merge\<close> applies a log of writes
  to that set, and the callbacks are shown to refine it. The record \<open>R\<close> gives the
  runtime system's external term format.
\<close>

section \<open>Operands\<close>

definition ParseOperand :: "erts \<Rightarrow> bytes \<Rightarrow> (bytes \<times> bool) option" where
  "ParseOperand R operand =
     (if \<not> alloc_env R then None
      else case binary_to_term R operand of
        None \<Rightarrow> None
      | Some term \<Rightarrow>
          (case enif_get_tuple term of
             None \<Rightarrow> None
           | Some tuple \<Rightarrow>
               if length tuple \<noteq> 2 then None
               else if tuple ! 0 = EAtom ''posting_add'' then
                 map_option (\<lambda>key. (key, False)) (enif_inspect_binary (tuple ! 1))
               else if tuple ! 0 = EAtom ''posting_delete'' then
                 map_option (\<lambda>key. (key, True)) (enif_inspect_binary (tuple ! 1))
               else None))"

text \<open>The loop body of both callbacks.\<close>

definition apply_operand :: "erts \<Rightarrow> bytes \<Rightarrow> key_states \<Rightarrow> key_states" where
  "apply_operand R operand ks =
     (case ParseOperand R operand of
        Some (key, is_tombstone) \<Rightarrow> smap_assign key is_tombstone ks
      | None \<Rightarrow> ParseExistingValue operand ks)"

definition operand_log :: "erts \<Rightarrow> bytes \<Rightarrow> (bytes \<times> bool) list" where
  "operand_log R operand =
     (case ParseOperand R operand of Some w \<Rightarrow> [w] | None \<Rightarrow> posting_log operand)"

interpretation operand: log_replayer "apply_operand R" "operand_log R" for R
  by unfold_locales
    (auto simp: apply_operand_def operand_log_def existing.step_replay split: option.splits)

section \<open>Merge callbacks\<close>

definition existing_states :: "bytes option \<Rightarrow> key_states" where
  "existing_states existing =
     (case existing of
        Some value \<Rightarrow> if value \<noteq> [] then ParseExistingValue value [] else []
      | None \<Rightarrow> [])"

definition PostingList_FullMergeV2 ::
    "erts \<Rightarrow> 'bm roaring option \<Rightarrow> bytes option \<Rightarrow> bytes list \<Rightarrow> bytes outcome" where
  "PostingList_FullMergeV2 R cfg existing operand_list =
     Ok (SerializeV2 cfg (fold (apply_operand R) operand_list (existing_states existing)))"

definition PostingList_PartialMergeMulti ::
    "erts \<Rightarrow> 'bm roaring option \<Rightarrow> bytes list \<Rightarrow> bytes outcome" where
  "PostingList_PartialMergeMulti R cfg operand_list =
     (if length operand_list < 2 then Failed
      else Ok (SerializeV2 cfg (fold (apply_operand R) operand_list [])))"

section \<open>Abstract posting lists\<close>

definition posting_of :: "bytes \<Rightarrow> bytes set" where
  "posting_of value = {k. map_of (rev (posting_log value)) k = Some False}"

definition posting_of_existing :: "bytes option \<Rightarrow> bytes set" where
  "posting_of_existing existing = (case existing of Some value \<Rightarrow> posting_of value | None \<Rightarrow> {})"

definition spec_write :: "bytes \<times> bool \<Rightarrow> bytes set \<Rightarrow> bytes set" where
  "spec_write w S = (if snd w then S - {fst w} else insert (fst w) S)"

definition spec_merge :: "(bytes \<times> bool) list \<Rightarrow> bytes set \<Rightarrow> bytes set" where
  "spec_merge ws S = fold spec_write ws S"

definition merge_log :: "erts \<Rightarrow> bytes list \<Rightarrow> (bytes \<times> bool) list" where
  "merge_log R operand_list = concat (map (operand_log R) operand_list)"

text \<open>The keys whose last write adds them, and those whose last write deletes them.\<close>

definition added :: "(bytes \<times> bool) list \<Rightarrow> bytes set" where
  "added ws = {k. map_of (rev ws) k = Some False}"

definition deleted :: "(bytes \<times> bool) list \<Rightarrow> bytes set" where
  "deleted ws = {k. map_of (rev ws) k = Some True}"

lemma map_of_rev_Cons:
  "map_of (rev (w # ws)) k =
     (case map_of (rev ws) k of Some t \<Rightarrow> Some t | None \<Rightarrow> if k = fst w then Some (snd w) else None)"
  by (cases w) (auto simp: map_add_def split: option.splits)

lemma spec_merge_eq: "spec_merge ws S = (S - deleted ws) \<union> added ws"
proof (induction ws arbitrary: S)
  case Nil
  then show ?case by (simp add: spec_merge_def added_def deleted_def)
next
  case (Cons w ws)
  then have "spec_merge (w # ws) S = (spec_write w S - deleted ws) \<union> added ws"
    by (simp add: spec_merge_def)
  also have "\<dots> = (S - deleted (w # ws)) \<union> added (w # ws)"
    unfolding added_def deleted_def map_of_rev_Cons spec_write_def
    by (auto split: option.splits if_splits)
  finally show ?case .
qed

lemma posting_of_added: "posting_of value = added (posting_log value)"
  by (simp add: posting_of_def added_def)

lemma posting_of_image: "v2_fits cfg hash keys \<Longrightarrow> posting_of (v2_image cfg hash keys) = set keys"
  by (auto simp: posting_of_def posting_log_image rev_map map_of_map_restrict restrict_map_def)

lemma existing_states_invar [simp]: "smap_invar (existing_states existing)"
  by (auto simp: existing_states_def smap_invar_def split: option.splits
      intro: existing.step_invar [unfolded smap_invar_def])

lemma posting_log_Nil [simp]: "posting_log [] = []"
  by (simp add: posting_log_def DetectVersion_def)

lemma existing_states_find:
  "{k. map_of (existing_states existing) k = Some False} = posting_of_existing existing"
  by (auto simp: existing_states_def posting_of_existing_def posting_of_def
      existing.step_find smap.invar_empty split: option.splits)

lemma active_replay:
  assumes "smap_invar ks"
  shows "set (active_keys (smap.replay ws ks)) = spec_merge ws {k. map_of ks k = Some False}"
  unfolding set_active_keys [OF smap.invar_replay [OF assms]] smap.find_replay [OF assms] spec_merge_eq
  by (auto simp: added_def deleted_def map_add_def split: option.splits)


section \<open>Correctness of the callbacks\<close>

definition merged_keys :: "erts \<Rightarrow> bytes option \<Rightarrow> bytes list \<Rightarrow> bytes list" where
  "merged_keys R existing operand_list =
     active_keys (fold (apply_operand R) operand_list (existing_states existing))"

lemma set_merged_keys:
  "set (merged_keys R existing ops) = spec_merge (merge_log R ops) (posting_of_existing existing)"
  by (simp add: merged_keys_def merge_log_def operand.fold_step active_replay existing_states_find)

lemma merged_keys_increasing: "sorted_wrt (<) (merged_keys R existing ops)"
  unfolding merged_keys_def by (rule active_keys_increasing, rule operand.fold_step_invar, simp)

lemma FullMergeV2_image:
  "PostingList_FullMergeV2 R cfg existing ops = Ok (v2_image cfg HashKey (merged_keys R existing ops))"
  by (simp add: PostingList_FullMergeV2_def SerializeV2_image merged_keys_def)

lemma PartialMergeMulti_image:
  "2 \<le> length ops \<Longrightarrow>
     PostingList_PartialMergeMulti R cfg ops = Ok (v2_image cfg HashKey (merged_keys R None ops))"
  by (simp add: PostingList_PartialMergeMulti_def SerializeV2_image merged_keys_def existing_states_def)

lemma posting_of_existing_None [simp]: "posting_of_existing None = {}"
  by (simp add: posting_of_existing_def)

lemma posting_of_existing_Some [simp]: "posting_of_existing (Some v) = posting_of v"
  by (simp add: posting_of_existing_def)

text \<open>
  A term operand: what the Erlang side writes for \<open>{posting_add, Key}\<close> and
  \<open>{posting_delete, Key}\<close>.
\<close>

definition posting_op_term :: "bytes \<times> bool \<Rightarrow> eterm" where
  "posting_op_term w =
     ETuple [EAtom (if snd w then ''posting_delete'' else ''posting_add''), EBin (fst w)]"

lemma operand_log_term:
  "alloc_env R \<Longrightarrow> binary_to_term R operand = Some (posting_op_term w) \<Longrightarrow> operand_log R operand = [w]"
  by (cases w) (simp add: operand_log_def ParseOperand_def posting_op_term_def)

lemma merge_log_terms:
  assumes "alloc_env R"
  shows "map (binary_to_term R) ops = map (Some \<circ> posting_op_term) ws \<Longrightarrow> merge_log R ops = ws"
proof (induction ops arbitrary: ws)
  case (Cons op ops)
  then obtain w ws' where ws: "ws = w # ws'" and op: "binary_to_term R op = Some (posting_op_term w)"
      and rest: "map (binary_to_term R) ops = map (Some \<circ> posting_op_term) ws'"
    by (cases ws) auto
  show ?case
    using Cons.IH [OF rest] operand_log_term [OF assms op] by (simp add: ws merge_log_def)
qed (simp add: merge_log_def)

section \<open>A concrete runtime for evaluation\<close>

text \<open>
  A small external term format that encodes the two posting operands only, used
  to evaluate the callbacks on concrete operands.
\<close>

fun demo_decode :: "bytes \<Rightarrow> eterm option" where
  "demo_decode (v # t # k) = (if v = 131 then Some (posting_op_term (k, t \<noteq> 0)) else None)"
| "demo_decode _ = None"

definition demo_erts :: erts where
  "demo_erts = \<lparr>alloc_env = True, binary_to_term = demo_decode,
     term_to_binary = (\<lambda>_. None), compare_eq = (=), new_binary_ok = (\<lambda>_. True)\<rparr>"

definition no_croaring :: "unit roaring option" where
  "no_croaring = None"

lemma v2_fits_no_croaring [simp]:
  "v2_fits no_croaring hash keys \<longleftrightarrow> length keys < 2 ^ 32 \<and> (\<forall>k \<in> set keys. length k < 2 ^ 32)"
  by (simp add: v2_fits_def no_croaring_def v2_bitmap_bytes_def)

text \<open>
  Claim C1. \<open>FullMergeV2\<close> never fails, and the value it writes stands for the set
  that results from applying the writes of all operands, in order, to the set the
  existing value stands for (in either format, or the empty set when there is no
  value); the written keys are strictly increasing. The sizes of the result must
  fit the 32-bit fields of the format.
\<close>

theorem full_merge_refines_spec:
  assumes "v2_fits cfg HashKey (merged_keys R existing ops)"
  shows "\<exists>out. PostingList_FullMergeV2 R cfg existing ops = Ok out \<and>
           posting_of out = spec_merge (merge_log R ops) (posting_of_existing existing) \<and>
           DetectVersion out = POSTING_LIST_V2 \<and> sorted_wrt (<) (v2_keys out)"
  using assms
  by (simp add: FullMergeV2_image posting_of_image set_merged_keys v2_keys_image merged_keys_increasing)

theorem full_merge_refines_spec_witness:
  "v2_fits no_croaring HashKey (merged_keys demo_erts (Some [0,0,0,1,0,7]) [[131,0,5], [131,1,7]]) \<and>
   (\<exists>out. PostingList_FullMergeV2 demo_erts no_croaring (Some [0,0,0,1,0,7]) [[131,0,5], [131,1,7]] = Ok out \<and>
      posting_of out = spec_merge (merge_log demo_erts [[131,0,5], [131,1,7]]) (posting_of [0,0,0,1,0,7]))"
proof -
  have "merged_keys demo_erts (Some [0,0,0,1,0,7]) [[131,0,5], [131,1,7]] = [[5]]"
    by code_simp
  then have fits: "v2_fits no_croaring HashKey (merged_keys demo_erts (Some [0,0,0,1,0,7]) [[131,0,5], [131,1,7]])"
    by simp
  show ?thesis
    using fits full_merge_refines_spec [OF fits] by auto
qed

text \<open>
  With \<open>{posting_add, K}\<close> and \<open>{posting_delete, K}\<close> operands only, a key
  is in the merged list exactly when the last operand about it adds it, or no
  operand is about it and it was in the existing list.
\<close>

theorem full_merge_last_operand_wins:
  assumes "alloc_env R"
    and "map (binary_to_term R) ops = map (Some \<circ> posting_op_term) ws"
    and "v2_fits cfg HashKey (merged_keys R existing ops)"
  shows "\<exists>out. PostingList_FullMergeV2 R cfg existing ops = Ok out \<and>
           (\<forall>k. k \<in> posting_of out \<longleftrightarrow>
              (case map_of (rev ws) k of
                 Some is_tombstone \<Rightarrow> \<not> is_tombstone
               | None \<Rightarrow> k \<in> posting_of_existing existing))"
  using assms(3) merge_log_terms [OF assms(1,2)]
  by (auto simp: FullMergeV2_image posting_of_image set_merged_keys spec_merge_eq added_def deleted_def split: option.splits)

theorem full_merge_last_operand_wins_witness:
  "v2_fits no_croaring HashKey (merged_keys demo_erts None [[131,0,5], [131,1,5], [131,0,6]]) \<and>
   (\<exists>out. PostingList_FullMergeV2 demo_erts no_croaring None [[131,0,5], [131,1,5], [131,0,6]] = Ok out \<and>
      [5] \<notin> posting_of out \<and> [6] \<in> posting_of out)"
proof -
  have env: "alloc_env demo_erts"
    by (simp add: demo_erts_def)
  have ops: "map (binary_to_term demo_erts) [[131,0,5], [131,1,5], [131,0,6]]
      = map (Some \<circ> posting_op_term) [([5], False), ([5], True), ([6], False)]"
    by (simp add: demo_erts_def)
  have "merged_keys demo_erts None [[131,0,5], [131,1,5], [131,0,6]] = [[6]]"
    by code_simp
  then have fits: "v2_fits no_croaring HashKey (merged_keys demo_erts None [[131,0,5], [131,1,5], [131,0,6]])"
    by simp
  obtain out where out: "PostingList_FullMergeV2 demo_erts no_croaring None [[131,0,5], [131,1,5], [131,0,6]] = Ok out"
    and mem: "\<And>k. k \<in> posting_of out \<longleftrightarrow>
       (case map_of (rev [([5], False), ([5], True), ([6], False)]) k of
          Some is_tombstone \<Rightarrow> \<not> is_tombstone | None \<Rightarrow> k \<in> posting_of_existing None)"
    using full_merge_last_operand_wins [OF env ops fits] by blast
  have "[5] \<notin> posting_of out" "[6] \<in> posting_of out"
    by (simp_all add: mem)
  with fits out show ?thesis by blast
qed

text \<open>
  Claim C11. \<open>PartialMergeMulti\<close> writes no tombstones, so merging its output later
  on an existing value adds the keys the operands add but removes none. It agrees
  with merging the operands directly exactly when no key of the existing value has
  a deletion as its last operand. RocksDB's term decoder must reject the partial
  result (it does not start with the external term format's version byte).
\<close>

theorem partial_merge_agrees_iff_no_delete_hits:
  assumes "2 \<le> length ops"
    and "v2_fits cfg HashKey (merged_keys R None ops)"
    and "binary_to_term R (v2_image cfg HashKey (merged_keys R None ops)) = None"
    and "v2_fits cfg HashKey (merged_keys R existing ops)"
    and "v2_fits cfg HashKey (merged_keys R existing [v2_image cfg HashKey (merged_keys R None ops)])"
  shows "\<exists>part out direct. PostingList_PartialMergeMulti R cfg ops = Ok part \<and>
           PostingList_FullMergeV2 R cfg existing [part] = Ok out \<and>
           PostingList_FullMergeV2 R cfg existing ops = Ok direct \<and>
           (posting_of out = posting_of direct \<longleftrightarrow>
              posting_of_existing existing \<inter> deleted (merge_log R ops) = {})"
proof -
  let ?part = "v2_image cfg HashKey (merged_keys R None ops)"
  let ?S = "posting_of_existing existing" and ?ws = "merge_log R ops"
  have "operand_log R ?part = posting_log ?part"
    using assms(3) by (simp add: operand_log_def ParseOperand_def)
  then have log: "merge_log R [?part] = map (\<lambda>k. (k, False)) (merged_keys R None ops)"
    using assms(2) by (simp add: merge_log_def posting_log_image)
  have "added (merge_log R [?part]) = spec_merge ?ws {}" "deleted (merge_log R [?part]) = {}"
    by (auto simp: log added_def deleted_def rev_map map_of_map_restrict restrict_map_def
        set_merged_keys)
  then have "posting_of (v2_image cfg HashKey (merged_keys R existing [?part])) = ?S \<union> added ?ws"
    using assms(5) by (simp add: posting_of_image set_merged_keys spec_merge_eq)
  moreover have "posting_of (v2_image cfg HashKey (merged_keys R existing ops)) = ?S - deleted ?ws \<union> added ?ws"
    using assms(4) by (simp add: posting_of_image set_merged_keys spec_merge_eq)
  moreover have "added ?ws \<inter> deleted ?ws = {}"
    by (auto simp: added_def deleted_def)
  ultimately show ?thesis
    using assms(1) by (simp add: FullMergeV2_image PartialMergeMulti_image) blast
qed


text \<open>A deletion of an existing key, combined with another operand by \<open>PartialMergeMulti\<close>, is lost.\<close>

theorem partial_merge_agrees_iff_no_delete_hits_witness:
  "\<exists>part out direct.
     PostingList_PartialMergeMulti demo_erts no_croaring [[131,1,7], [131,0,5]] = Ok part \<and>
     PostingList_FullMergeV2 demo_erts no_croaring (Some [0,0,0,1,0,7]) [part] = Ok out \<and>
     PostingList_FullMergeV2 demo_erts no_croaring (Some [0,0,0,1,0,7]) [[131,1,7], [131,0,5]] = Ok direct \<and>
     posting_of out \<noteq> posting_of direct"
proof -
  let ?ops = "[[131,1,7], [131,0,5]] :: bytes list" and ?e = "Some [0,0,0,1,0,7] :: bytes option"
  let ?part = "v2_image no_croaring HashKey (merged_keys demo_erts None ?ops)"
  have len: "2 \<le> length ?ops" by simp
  have "merged_keys demo_erts None ?ops = [[5]]" "merged_keys demo_erts ?e ?ops = [[5]]"
      "merged_keys demo_erts ?e [?part] = [[5], [7]]"
    by code_simp+
  then have fits: "v2_fits no_croaring HashKey (merged_keys demo_erts None ?ops)"
      "v2_fits no_croaring HashKey (merged_keys demo_erts ?e ?ops)"
      "v2_fits no_croaring HashKey (merged_keys demo_erts ?e [?part])"
    by simp_all
  have rej: "binary_to_term demo_erts ?part = None"
    by code_simp
  have "map_of (rev (merge_log demo_erts ?ops)) [7] = Some True"
       "map_of (rev (posting_log [0,0,0,1,0,7])) [7] = Some False"
    by code_simp+
  then have "[7] \<in> posting_of_existing ?e \<inter> deleted (merge_log demo_erts ?ops)"
    by (simp add: posting_of_def deleted_def)
  then show ?thesis
    using partial_merge_agrees_iff_no_delete_hits [OF len fits(1) rej fits(2) fits(3)] by blast
qed

end
