(* ===== verification/Merge_Ops.thy ===== *)
theory Merge_Ops
  imports Cpp_Strings
begin

text \<open>
  The counter and bitset merge operators (\<open>c_src/counter_merge_operator.cc\<close>,
  \<open>c_src/bitset_merge_operator.cc\<close>). \<open>Failed\<close> is \<open>return false\<close>; \<open>Undef\<close> is a signed
  overflow or a write past the buffer. The bitset operator works in the memory
  of the existing value, so its model also returns that memory.
\<close>

section \<open>Counter\<close>

text \<open>\<open>std::stoi\<close> in a \<open>try\<close> block whose handler returns false.\<close>

definition try_stoi :: "bytes \<Rightarrow> int outcome" where
  "try_stoi s = (case std_stoi s of Ok (i, n) \<Rightarrow> Ok i | Thrown \<Rightarrow> Failed | Failed \<Rightarrow> Failed | Undef \<Rightarrow> Undef)"

definition CounterMerge :: "bytes option \<Rightarrow> bytes \<Rightarrow> bytes outcome" where
  "CounterMerge existing_value value =
     bind_outcome (case existing_value of None \<Rightarrow> Ok 0 | Some e \<Rightarrow> try_stoi e) (\<lambda>counter.
       bind_outcome (try_stoi value) (\<lambda>oper.
         if int32 (counter + oper) then Ok (std_to_string (counter + oper)) else Undef))"

section \<open>Bitset\<close>

definition bit_mask :: "byte list" where
  "bit_mask = [0x80, 0x40, 0x20, 0x10, 0x08, 0x04, 0x02, 0x01]"

text \<open>
  One operand on the buffer: an empty operand clears it; otherwise the number
  after the first character is a bit position. \<open>pos >> 3\<close> of a negative number
  becomes a huge \<open>size_t\<close>; \<open>pos % bits_per_char\<close> is computed in \<open>size_t\<close>, which
  agrees with the remainder on the integers. The range check lets \<open>ofs = size\<close>
  pass.
\<close>

definition bitset_operand :: "bytes \<Rightarrow> bytes \<Rightarrow> bytes outcome" where
  "bitset_operand data s =
     (if s = [] then Ok (replicate (length data) 0)
      else
        bind_outcome (try_stoi (tl s)) (\<lambda>pos.
          if pos < 0 then Failed
          else
            let ofs = nat pos div 8; mask = bit_mask ! (nat pos mod 8)
            in if ofs > length data then Failed
               else if hd s = 43 then
                 (if ofs < length data then Ok (data[ofs := data ! ofs OR mask]) else Undef)
               else if hd s = 45 then
                 (if ofs < length data then Ok (data[ofs := data ! ofs AND NOT mask]) else Undef)
               else Failed))"

text \<open>The loop over the operands; on an early return the buffer keeps what was written so far.\<close>

fun bitset_loop :: "bytes \<Rightarrow> bytes list \<Rightarrow> bytes outcome \<times> bytes" where
  "bitset_loop data [] = (Ok data, data)"
| "bitset_loop data (s # ss) =
     (case bitset_operand data s of
        Ok data' \<Rightarrow> bitset_loop data' ss
      | r \<Rightarrow> (r, data))"

text \<open>
  \<open>FullMergeV2\<close>: the result, and the memory of the existing value afterwards (the
  buffer is a fresh array when there is no existing value).
\<close>

definition Bitset_FullMergeV2 :: "nat \<Rightarrow> bytes option \<Rightarrow> bytes list \<Rightarrow> bytes outcome \<times> bytes option" where
  "Bitset_FullMergeV2 cap existing_value ops =
     (let max_size = cap div 8
      in case existing_value of
           None \<Rightarrow> (fst (bitset_loop (replicate max_size 0) ops), None)
         | Some e \<Rightarrow>
             if length e < max_size then (Failed, Some e)
             else (case bitset_loop e ops of (r, e') \<Rightarrow> (r, Some e')))"

definition Bitset_PartialMergeMulti :: "bytes list \<Rightarrow> bytes option" where
  "Bitset_PartialMergeMulti operand_list = None"

section \<open>The set of bits\<close>

datatype bit_op = SetBit nat | UnsetBit nat | ClearAll

fun bit_op_bytes :: "bit_op \<Rightarrow> bytes" where
  "bit_op_bytes (SetBit p) = 43 # std_to_string (int p)"
| "bit_op_bytes (UnsetBit p) = 45 # std_to_string (int p)"
| "bit_op_bytes ClearAll = []"

fun bit_op_ok :: "nat \<Rightarrow> bit_op \<Rightarrow> bool" where
  "bit_op_ok n (SetBit p) = (p < 8 * n \<and> p < 2 ^ 31)"
| "bit_op_ok n (UnsetBit p) = (p < 8 * n \<and> p < 2 ^ 31)"
| "bit_op_ok n ClearAll = True"

fun apply_bit_op :: "bit_op \<Rightarrow> nat set \<Rightarrow> nat set" where
  "apply_bit_op (SetBit p) S = insert p S"
| "apply_bit_op (UnsetBit p) S = S - {p}"
| "apply_bit_op ClearAll S = {}"

text \<open>Position 0 is the most significant bit of the first byte.\<close>

definition bits_of :: "bytes \<Rightarrow> nat set" where
  "bits_of data = {p. p < 8 * length data \<and> bit (data ! (p div 8)) (7 - p mod 8)}"

lemma try_stoi_nat: "p < 2 ^ 31 \<Longrightarrow> try_stoi (std_to_string (int p)) = Ok (int p)"
  using stoi_to_string [of "int p"] by (simp add: try_stoi_def int32_def)

lemma bit_mask_eq:
  assumes "k < 8"
  shows "bit_mask ! k = push_bit (7 - k) 1"
proof -
  have "k \<in> {0, 1, 2, 3, 4, 5, 6, 7}"
    using assms by auto
  then show ?thesis
    by (auto simp: bit_mask_def)
qed

lemma bit_mask_bit: "k < 8 \<Longrightarrow> j < 8 \<Longrightarrow> bit (bit_mask ! k) j \<longleftrightarrow> j = 7 - k"
  by (auto simp: bit_mask_eq bit_exp_iff)

lemma bits_of_update:
  assumes "p < 8 * length data"
  shows "bits_of (data[p div 8 := v]) =
    {q \<in> bits_of data. q div 8 \<noteq> p div 8} \<union> {q. q div 8 = p div 8 \<and> bit v (7 - q mod 8)}"
proof -
  have "p div 8 < length data"
    using assms by auto
  moreover have "q < 8 * length data" if "q div 8 = p div 8" for q
    using that assms by (metis div_less_iff_less_mult mult.commute zero_less_numeral)
  ultimately show ?thesis
    by (auto simp: bits_of_def nth_list_update)
qed

lemma same_position:
  assumes "q div 8 = p div 8"
  shows "7 - q mod 8 = 7 - p mod 8 \<longleftrightarrow> q = (p :: nat)"
proof
  assume "7 - q mod 8 = 7 - p mod 8"
  moreover have "q mod 8 < 8" "p mod 8 < 8"
    by simp_all
  ultimately have "q mod 8 = p mod 8"
    by linarith
  with assms show "q = p"
    by (metis div_mult_mod_eq)
qed simp

lemma bits_of_set:
  assumes "p < 8 * length data"
  shows "bits_of (data[p div 8 := data ! (p div 8) OR bit_mask ! (p mod 8)]) = insert p (bits_of data)"
proof -
  have "bit (bit_mask ! (p mod 8)) (7 - q mod 8) \<longleftrightarrow> q = p" if "q div 8 = p div 8" for q
    using bit_mask_bit [of "p mod 8" "7 - q mod 8"] same_position [OF that] by simp
  moreover have "q < 8 * length data" if "q div 8 = p div 8" for q
    using that assms by (metis div_less_iff_less_mult mult.commute zero_less_numeral)
  ultimately show ?thesis
    unfolding bits_of_update [OF assms] by (auto simp: bit_or_iff bits_of_def)
qed

lemma bits_of_unset:
  assumes "p < 8 * length data"
  shows "bits_of (data[p div 8 := data ! (p div 8) AND NOT (bit_mask ! (p mod 8))]) = bits_of data - {p}"
proof -
  have "bit (bit_mask ! (p mod 8)) (7 - q mod 8) \<longleftrightarrow> q = p" if "q div 8 = p div 8" for q
    using bit_mask_bit [of "p mod 8" "7 - q mod 8"] same_position [OF that] by simp
  moreover have "q < 8 * length data" if "q div 8 = p div 8" for q
    using that assms by (metis div_less_iff_less_mult mult.commute zero_less_numeral)
  ultimately show ?thesis
    unfolding bits_of_update [OF assms] by (auto simp: bit_and_iff bit_not_iff bits_of_def)
qed

lemma bitset_operand_apply:
  assumes "bit_op_ok (length data) c"
  shows "\<exists>data'. bitset_operand data (bit_op_bytes c) = Ok data' \<and> length data' = length data \<and>
    bits_of data' = apply_bit_op c (bits_of data)"
proof (cases c)
  case (SetBit p)
  then have p: "p < 8 * length data" "p < 2 ^ 31"
    using assms by auto
  then have "p div 8 < length data"
    by (simp add: div_less_iff_less_mult mult.commute)
  then show ?thesis
    using SetBit p bits_of_set [OF p(1)] try_stoi_nat [OF p(2)] by (simp add: bitset_operand_def Let_def)
next
  case (UnsetBit p)
  then have p: "p < 8 * length data" "p < 2 ^ 31"
    using assms by auto
  then have "p div 8 < length data"
    by (simp add: div_less_iff_less_mult mult.commute)
  then show ?thesis
    using UnsetBit p bits_of_unset [OF p(1)] try_stoi_nat [OF p(2)] by (simp add: bitset_operand_def Let_def)
next
  case ClearAll
  then show ?thesis
    by (auto simp: bitset_operand_def bits_of_def)
qed

lemma bitset_loop_apply:
  assumes "\<forall>c \<in> set cs. bit_op_ok (length data) c"
  shows "\<exists>data'. bitset_loop data (map bit_op_bytes cs) = (Ok data', data') \<and> length data' = length data \<and>
    bits_of data' = fold apply_bit_op cs (bits_of data)"
  using assms
proof (induction cs arbitrary: data)
  case (Cons c cs)
  obtain d where d: "bitset_operand data (bit_op_bytes c) = Ok d" "length d = length data"
      "bits_of d = apply_bit_op c (bits_of data)"
    using bitset_operand_apply Cons.prems by fastforce
  then show ?case
    using Cons.IH [of d] Cons.prems by auto
qed simp

lemma bits_of_zero [simp]: "bits_of (replicate n 0) = {}"
  by (auto simp: bits_of_def)

section \<open>Properties\<close>

text \<open>
  Claim C25. The bitset operator maintains a set of bit positions: with positions
  inside the bitmap, \<open>+P\<close> adds a position, \<open>-P\<close> removes it and an empty operand
  clears the set, in order; the size of the bitmap does not change, and a missing
  value starts as the empty set of the configured capacity.
\<close>

theorem bitset_merge_refines_sets:
  assumes "case existing of None \<Rightarrow> n = cap div 8 \<and> S = {}
             | Some e \<Rightarrow> n = length e \<and> cap div 8 \<le> n \<and> S = bits_of e"
    and "\<forall>c \<in> set cs. bit_op_ok n c"
  shows "\<exists>out. fst (Bitset_FullMergeV2 cap existing (map bit_op_bytes cs)) = Ok out \<and>
    length out = n \<and> bits_of out = fold apply_bit_op cs S"
proof (cases existing)
  case None
  then show ?thesis
    using assms bitset_loop_apply [of cs "replicate n 0"]
    by (auto simp: Bitset_FullMergeV2_def Let_def)
next
  case (Some e)
  then show ?thesis
    using assms bitset_loop_apply [of cs e] by (auto simp: Bitset_FullMergeV2_def Let_def)
qed

theorem bitset_merge_refines_sets_witness:
  "\<exists>out. fst (Bitset_FullMergeV2 16 None (map bit_op_bytes [SetBit 2, SetBit 11, UnsetBit 2])) = Ok out \<and>
     length out = 2 \<and> bits_of out = {11}"
proof -
  have "\<exists>out. fst (Bitset_FullMergeV2 16 None (map bit_op_bytes [SetBit 2, SetBit 11, UnsetBit 2])) = Ok out \<and>
     length out = 2 \<and> bits_of out = fold apply_bit_op [SetBit 2, SetBit 11, UnsetBit 2] {}"
    by (rule bitset_merge_refines_sets) simp_all
  moreover have "fold apply_bit_op [SetBit 2, SetBit 11, UnsetBit 2] {} = {11}"
    by auto
  ultimately show ?thesis
    by simp
qed

text \<open>
  The range check is off by one: the first position after the bitmap
  passes it and the operand writes one byte past the end of the buffer, for every
  bitmap of the configured size.
\<close>

theorem bitset_write_past_end:
  assumes "length e = cap div 8" "8 * length e < 2 ^ 31"
  shows "fst (Bitset_FullMergeV2 cap (Some e) [bit_op_bytes (SetBit (8 * length e))]) = Undef"
proof -
  have "try_stoi (std_to_string (int (8 * length e))) = Ok (int (8 * length e))"
    using assms(2) by (rule try_stoi_nat)
  then have "bitset_operand e (43 # std_to_string (int (8 * length e))) = Undef"
    by (simp add: bitset_operand_def nat_mult_distrib)
  then show ?thesis
    using assms(1) by (simp add: Bitset_FullMergeV2_def)
qed

theorem bitset_write_past_end_witness:
  "fst (Bitset_FullMergeV2 16 (Some [0, 0]) [bit_op_bytes (SetBit (8 * length [0 :: byte, 0]))]) = Undef"
  by (rule bitset_write_past_end) simp_all

text \<open>
  The operator writes into the memory of the existing value: after a merge
  on an existing value that memory holds the merged bitmap, although RocksDB hands
  it out as constant.
\<close>

theorem bitset_overwrites_existing:
  assumes "cap div 8 \<le> length e" "\<forall>c \<in> set cs. bit_op_ok (length e) c"
    and "Bitset_FullMergeV2 cap (Some e) (map bit_op_bytes cs) = (r, e')"
  shows "\<exists>out. r = Ok out \<and> e' = Some out \<and> bits_of out = fold apply_bit_op cs (bits_of e)"
  using assms bitset_loop_apply [of cs e] by (auto simp: Bitset_FullMergeV2_def Let_def)

theorem bitset_overwrites_existing_witness:
  "\<exists>out. snd (Bitset_FullMergeV2 8 (Some [0]) (map bit_op_bytes [SetBit 0])) = Some out \<and>
     bits_of out = {0}"
proof -
  let ?r = "Bitset_FullMergeV2 8 (Some [0]) (map bit_op_bytes [SetBit 0])"
  have "\<exists>out. fst ?r = Ok out \<and> snd ?r = Some out \<and> bits_of out = fold apply_bit_op [SetBit 0] (bits_of [0])"
    by (rule bitset_overwrites_existing [where cap = 8]) simp_all
  moreover have "bits_of [0] = {}"
    using bits_of_zero [of 1] by simp
  ultimately show ?thesis
    by auto
qed

text \<open>
  The counter operator adds integers in decimal text and is associative,
  as an associative merge operator must be: merging two operands into a value one
  by one or merging the operands first gives the same text, while every sum fits
  in a C \<open>int\<close>.
\<close>

theorem counter_merge_associative:
  assumes "try_stoi e = Ok x" "try_stoi a = Ok y" "try_stoi b = Ok z"
    and "int32 (x + y)" "int32 (y + z)" "int32 (x + y + z)"
  shows "bind_outcome (CounterMerge (Some e) a) (\<lambda>v. CounterMerge (Some v) b) = Ok (std_to_string (x + y + z)) \<and>
    bind_outcome (CounterMerge (Some a) b) (\<lambda>v. CounterMerge (Some e) v) = Ok (std_to_string (x + y + z))"
proof -
  have read_back: "try_stoi (std_to_string i) = Ok i" if "int32 i" for i
    using stoi_to_string [OF that] by (simp add: try_stoi_def)
  show ?thesis
    using assms read_back [OF assms(4)] read_back [OF assms(5)] by (simp add: CounterMerge_def add.assoc)
qed

theorem counter_merge_associative_witness:
  "bind_outcome (CounterMerge (Some [49, 48]) [53]) (\<lambda>v. CounterMerge (Some v) [45, 50]) = Ok (std_to_string 13) \<and>
   bind_outcome (CounterMerge (Some [53]) [45, 50]) (\<lambda>v. CounterMerge (Some [49, 48]) v) = Ok (std_to_string 13)"
proof -
  have "try_stoi [49, 48] = Ok 10" "try_stoi [53] = Ok 5" "try_stoi [45, 50] = Ok (- 2)"
    by code_simp+
  from counter_merge_associative [OF this] show ?thesis
    by (simp add: int32_def)
qed

end
