(* ===== verification/Erlang_Merge.thy ===== *)
theory Erlang_Merge
  imports Erl_Terms "HOL-Library.Multiset"
begin

text \<open>
  The Erlang merge operator (\<open>c_src/erlang_merge.cc\<close>): values and operands are
  Erlang terms in the external term format, and a value is an integer, a list or
  a binary that the operands update in order. \<open>Failed\<close> is \<open>return false\<close>,
  \<open>Thrown\<close> a C++ exception that leaves the operator, \<open>Undef\<close> a read past the
  elements of a tuple or a signed overflow. The properties relate the operator
  to plain functions on integers, lists and byte strings.
\<close>

section \<open>Operands\<close>

text \<open>\<open>enif_binary_to_term\<close> and \<open>enif_get_tuple\<close>, then \<open>op[i]\<close>, which is not checked against the arity.\<close>

definition operand_tuple :: "erts \<Rightarrow> bytes \<Rightarrow> eterm list outcome" where
  "operand_tuple R b =
     (case binary_to_term R b of
        None \<Rightarrow> Failed
      | Some t \<Rightarrow> (case enif_get_tuple t of None \<Rightarrow> Failed | Some op \<Rightarrow> Ok op))"

definition elem :: "eterm list \<Rightarrow> nat \<Rightarrow> eterm outcome" where
  "elem op i = (if i < length op then Ok (op ! i) else Undef)"

text \<open>Run one operand after the other, stopping at the first that does not succeed.\<close>

fun run_operands :: "erts \<Rightarrow> ('s \<Rightarrow> eterm list \<Rightarrow> 's outcome) \<Rightarrow> 's \<Rightarrow> bytes list \<Rightarrow> 's outcome" where
  "run_operands R step s [] = Ok s"
| "run_operands R step s (b # bs) =
     bind_outcome (operand_tuple R b) (\<lambda>op.
       bind_outcome (step s op) (\<lambda>s'. run_operands R step s' bs))"

text \<open>\<open>std::advance(it, 1)\<close> when the first operand was used to start.\<close>

definition operands_from :: "bool \<Rightarrow> bytes list \<Rightarrow> bytes list" where
  "operands_from next_one ops = (if next_one then tl ops else ops)"

definition encode_result :: "erts \<Rightarrow> eterm \<Rightarrow> bytes outcome" where
  "encode_result R t = (case term_to_binary R t of None \<Rightarrow> Failed | Some b \<Rightarrow> Ok b)"

section \<open>Integers\<close>

definition add_int64 :: "int \<Rightarrow> int \<Rightarrow> int outcome" where
  "add_int64 x y = (if - (2 ^ 63) \<le> x + y \<and> x + y < 2 ^ 63 then Ok (x + y) else Undef)"

definition int_operand :: "int \<Rightarrow> eterm list \<Rightarrow> int outcome" where
  "int_operand new_val op =
     bind_outcome (elem op 0) (\<lambda>tag.
       if tag \<noteq> EAtom ''int_add'' then Failed
       else bind_outcome (elem op 1) (\<lambda>arg.
              case enif_get_int64 arg of None \<Rightarrow> Failed | Some val \<Rightarrow> add_int64 new_val val))"

definition mergeErlangInt :: "erts \<Rightarrow> int \<Rightarrow> bool \<Rightarrow> bytes list \<Rightarrow> bytes outcome" where
  "mergeErlangInt R new_val next_one ops =
     bind_outcome (run_operands R int_operand new_val (operands_from next_one ops)) (\<lambda>v.
       encode_result R (EInt v))"

section \<open>Lists\<close>

text \<open>Erase the first element that compares equal.\<close>

fun erase_first :: "erts \<Rightarrow> eterm \<Rightarrow> eterm list \<Rightarrow> eterm list" where
  "erase_first R x [] = []"
| "erase_first R x (y # ys) = (if compare_eq R y x then ys else y # erase_first R x ys)"

text \<open>Erase \<open>n\<close> times at a position, the iterator moving to the element that follows.\<close>

fun erase_at :: "nat \<Rightarrow> nat \<Rightarrow> 'a list \<Rightarrow> 'a list" where
  "erase_at 0 pos l = l"
| "erase_at (Suc n) pos l = erase_at n pos (take pos l @ drop (Suc pos) l)"

text \<open>Insert the cells one by one before the element the iterator stands on.\<close>

fun insert_before :: "'a list \<Rightarrow> nat \<Rightarrow> 'a list \<Rightarrow> 'a list" where
  "insert_before [] pos l = l"
| "insert_before (x # xs) pos l = insert_before xs (Suc pos) (take pos l @ x # drop pos l)"

definition list_operand2 :: "erts \<Rightarrow> eterm list \<Rightarrow> eterm \<Rightarrow> eterm \<Rightarrow> eterm list outcome" where
  "list_operand2 R l tag arg =
     (if tag = EAtom ''list_append'' then
        (if enif_is_list arg then Ok (l @ list_cells arg) else Failed)
      else if tag = EAtom ''list_substract'' then
        (case enif_get_list_length arg of
           None \<Rightarrow> Failed
         | Some len \<Rightarrow> Ok (if 0 < len then fold (erase_first R) (list_cells arg) l else l))
      else if tag = EAtom ''list_delete'' then
        (case enif_get_uint arg of
           None \<Rightarrow> Failed
         | Some pos \<Rightarrow> Ok (if unat pos < length l then erase_at 1 (unat pos) l else l))
      else Failed)"

definition list_operand3 :: "eterm list \<Rightarrow> eterm \<Rightarrow> eterm \<Rightarrow> eterm \<Rightarrow> eterm list outcome" where
  "list_operand3 l tag arg1 arg2 =
     (if tag = EAtom ''list_set'' then
        (case enif_get_uint arg1 of
           None \<Rightarrow> Failed
         | Some pos \<Rightarrow> Ok (if unat pos < length l then l[unat pos := arg2] else l))
      else if tag = EAtom ''list_delete'' then
        (case (enif_get_uint arg1, enif_get_uint arg2) of
           (Some start, Some end1) \<Rightarrow>
             if start \<ge> end1 then Failed
             else Ok (if unat end1 < length l then erase_at (unat end1 - unat start + 1) (unat start) l else l)
         | _ \<Rightarrow> Failed)
      else if tag = EAtom ''list_insert'' then
        (case enif_get_uint arg1 of
           None \<Rightarrow> Failed
         | Some pos \<Rightarrow>
             if \<not> enif_is_list arg2 then Failed
             else Ok (if unat pos < length l then insert_before (list_cells arg2) (unat pos) l else l))
      else Failed)"

definition list_operand :: "erts \<Rightarrow> eterm list \<Rightarrow> eterm list \<Rightarrow> eterm list outcome" where
  "list_operand R l op =
     (case op of
        [tag, arg] \<Rightarrow> list_operand2 R l tag arg
      | [tag, arg1, arg2] \<Rightarrow> list_operand3 l tag arg1 arg2
      | _ \<Rightarrow> Failed)"

definition mergeErlangList :: "erts \<Rightarrow> eterm list \<Rightarrow> bool \<Rightarrow> bytes list \<Rightarrow> bytes outcome" where
  "mergeErlangList R list_in next_one ops =
     bind_outcome (run_operands R (list_operand R) list_in (operands_from next_one ops)) (\<lambda>l.
       encode_result R (enif_make_list l))"

section \<open>Binaries\<close>

text \<open>\<open>std::string::erase\<close>, \<open>insert\<close> and \<open>replace\<close>: a position past the end throws \<open>std::out_of_range\<close>.\<close>

definition string_erase :: "bytes \<Rightarrow> nat \<Rightarrow> nat \<Rightarrow> bytes outcome" where
  "string_erase s pos n = (if pos > length s then Thrown else Ok (take pos s @ drop (pos + n) s))"

definition string_insert :: "bytes \<Rightarrow> nat \<Rightarrow> bytes \<Rightarrow> bytes outcome" where
  "string_insert s pos chunk = (if pos > length s then Thrown else Ok (take pos s @ chunk @ drop pos s))"

definition string_replace :: "bytes \<Rightarrow> nat \<Rightarrow> nat \<Rightarrow> bytes \<Rightarrow> bytes outcome" where
  "string_replace s pos n chunk =
     (if pos > length s then Thrown else Ok (take pos s @ chunk @ drop (pos + n) s))"

text \<open>\<open>pos2 = pos + count\<close> is computed in \<open>unsigned int\<close>.\<close>

definition binary_operand :: "bytes \<Rightarrow> eterm list \<Rightarrow> bytes outcome" where
  "binary_operand s op =
     (case op of
        [tag, a1] \<Rightarrow>
          if tag = EAtom ''binary_append'' then
            (case enif_inspect_binary a1 of None \<Rightarrow> Failed | Some b \<Rightarrow> Ok (s @ b))
          else Failed
      | [tag, a1, a2] \<Rightarrow>
          if tag = EAtom ''binary_erase'' then
            (case (enif_get_uint a1, enif_get_uint a2) of
               (Some pos, Some n) \<Rightarrow>
                 if unat pos < length s then string_erase s (unat pos) (unat n) else Ok s
             | _ \<Rightarrow> Failed)
          else if tag = EAtom ''binary_insert'' then
            (case (enif_get_uint a1, enif_inspect_binary a2) of
               (Some pos, Some b) \<Rightarrow>
                 if unat pos \<le> length s then string_insert s (unat pos) b else Ok s
             | _ \<Rightarrow> Failed)
          else Failed
      | [tag, a1, a2, a3] \<Rightarrow>
          if tag = EAtom ''binary_replace'' then
            (case (enif_get_uint a1, enif_get_uint a2, enif_inspect_binary a3) of
               (Some pos, Some n, Some b) \<Rightarrow>
                 if unat (pos + n) < length s then string_replace s (unat pos) (unat n) b else Ok s
             | _ \<Rightarrow> Failed)
          else Failed
      | _ \<Rightarrow> Failed)"

text \<open>The result of \<open>enif_make_new_binary\<close> is not checked before the copy.\<close>

definition mergeErlangBinary :: "erts \<Rightarrow> bytes \<Rightarrow> bool \<Rightarrow> bytes list \<Rightarrow> bytes outcome" where
  "mergeErlangBinary R s next_one ops =
     bind_outcome (run_operands R binary_operand s (operands_from next_one ops)) (\<lambda>s'.
       if new_binary_ok R (length s') then encode_result R (EBin s') else Undef)"

section \<open>The merge callbacks\<close>

text \<open>No existing value: the first operand chooses the type. The operand list is not empty.\<close>

definition merge_first :: "erts \<Rightarrow> bytes list \<Rightarrow> bytes outcome" where
  "merge_first R ops =
     bind_outcome (operand_tuple R (hd ops)) (\<lambda>op.
       bind_outcome (elem op 0) (\<lambda>tag.
         if tag = EAtom ''int_add'' then
           bind_outcome (elem op 1) (\<lambda>arg.
             case enif_get_int64 arg of None \<Rightarrow> Failed | Some val \<Rightarrow> mergeErlangInt R val True ops)
         else if tag \<in> {EAtom ''list_append'', EAtom ''list_substract'', EAtom ''binary_append''} then
           bind_outcome (elem op 1) (\<lambda>arg.
             if tag = EAtom ''list_append'' \<and> enif_is_list arg then mergeErlangList R [] False ops
             else if tag = EAtom ''list_substract'' \<and> enif_is_list arg then mergeErlangList R [] True ops
             else if tag = EAtom ''binary_append'' \<and> enif_is_binary arg then
               (case enif_inspect_binary arg of None \<Rightarrow> Failed | Some b \<Rightarrow> mergeErlangBinary R b True ops)
             else Failed)
         else Failed))"

definition ErlangMerge_FullMergeV2 :: "erts \<Rightarrow> bytes option \<Rightarrow> bytes list \<Rightarrow> bytes outcome" where
  "ErlangMerge_FullMergeV2 R existing_value ops =
     (if \<not> alloc_env R then Undef
      else
        case existing_value of
          Some value \<Rightarrow>
            (case binary_to_term R value of
               None \<Rightarrow> Failed
             | Some existing_term \<Rightarrow>
                 if enif_is_number existing_term then
                   (case enif_get_int64 existing_term of
                      None \<Rightarrow> Failed
                    | Some old_val \<Rightarrow> mergeErlangInt R old_val False ops)
                 else if enif_is_list existing_term then
                   mergeErlangList R (list_cells existing_term) False ops
                 else if enif_is_binary existing_term then
                   (case enif_inspect_binary existing_term of
                      None \<Rightarrow> Failed
                    | Some s \<Rightarrow> mergeErlangBinary R s False ops)
                 else Failed)
        | None \<Rightarrow> merge_first R ops)"

definition ErlangMerge_PartialMergeMulti :: "bytes list \<Rightarrow> bytes option" where
  "ErlangMerge_PartialMergeMulti operand_list = None"

section \<open>Reference functions\<close>

text \<open>An operand as a function on the value, decoded from its term.\<close>

datatype list_op =
    Append "eterm list" | Subtract "eterm list" | Delete nat | DeleteRange nat nat
  | Set nat eterm | Insert nat "eterm list"

fun list_op_term :: "list_op \<Rightarrow> eterm" where
  "list_op_term (Append xs) = ETuple [EAtom ''list_append'', enif_make_list xs]"
| "list_op_term (Subtract xs) = ETuple [EAtom ''list_substract'', enif_make_list xs]"
| "list_op_term (Delete i) = ETuple [EAtom ''list_delete'', EInt (int i)]"
| "list_op_term (DeleteRange i j) = ETuple [EAtom ''list_delete'', EInt (int i), EInt (int j)]"
| "list_op_term (Set i x) = ETuple [EAtom ''list_set'', EInt (int i), x]"
| "list_op_term (Insert i xs) = ETuple [EAtom ''list_insert'', EInt (int i), enif_make_list xs]"

text \<open>Positions fit in \<open>unsigned int\<close> and a range is not empty.\<close>

fun list_op_ok :: "list_op \<Rightarrow> bool" where
  "list_op_ok (Append xs) = True"
| "list_op_ok (Subtract xs) = True"
| "list_op_ok (Delete i) = (i < 2 ^ 32)"
| "list_op_ok (DeleteRange i j) = (i < j \<and> j < 2 ^ 32)"
| "list_op_ok (Set i x) = (i < 2 ^ 32)"
| "list_op_ok (Insert i xs) = (i < 2 ^ 32)"

text \<open>
  The list functions; positions past the end leave the list unchanged.
  Subtracting compares with \<open>enif_compare\<close>, which is Erlang's \<open>==\<close>: an integer and
  a float of the same value are equal.
\<close>

definition without_first :: "(eterm \<Rightarrow> eterm \<Rightarrow> bool) \<Rightarrow> eterm \<Rightarrow> eterm list \<Rightarrow> eterm list" where
  "without_first eq x l = takeWhile (\<lambda>y. \<not> eq y x) l @ drop 1 (dropWhile (\<lambda>y. \<not> eq y x) l)"

fun apply_list_op :: "(eterm \<Rightarrow> eterm \<Rightarrow> bool) \<Rightarrow> list_op \<Rightarrow> eterm list \<Rightarrow> eterm list" where
  "apply_list_op eq (Append xs) l = l @ xs"
| "apply_list_op eq (Subtract xs) l = fold (without_first eq) xs l"
| "apply_list_op eq (Delete i) l = take i l @ drop (i + 1) l"
| "apply_list_op eq (DeleteRange i j) l = (if j < length l then take i l @ drop (j + 1) l else l)"
| "apply_list_op eq (Set i x) l = l[i := x]"
| "apply_list_op eq (Insert i xs) l = (if i < length l then take i l @ xs @ drop i l else l)"

datatype bin_op = BAppend bytes | BErase nat nat | BInsert nat bytes | BReplace nat nat bytes

fun bin_op_term :: "bin_op \<Rightarrow> eterm" where
  "bin_op_term (BAppend b) = ETuple [EAtom ''binary_append'', EBin b]"
| "bin_op_term (BErase i n) = ETuple [EAtom ''binary_erase'', EInt (int i), EInt (int n)]"
| "bin_op_term (BInsert i b) = ETuple [EAtom ''binary_insert'', EInt (int i), EBin b]"
| "bin_op_term (BReplace i n b) = ETuple [EAtom ''binary_replace'', EInt (int i), EInt (int n), EBin b]"

text \<open>Positions and counts fit in \<open>unsigned int\<close>, and so does the end of a replaced range.\<close>

fun bin_op_ok :: "bin_op \<Rightarrow> bool" where
  "bin_op_ok (BAppend b) = True"
| "bin_op_ok (BErase i n) = (i < 2 ^ 32 \<and> n < 2 ^ 32)"
| "bin_op_ok (BInsert i b) = (i < 2 ^ 32)"
| "bin_op_ok (BReplace i n b) = (i + n < 2 ^ 32)"

text \<open>A replaced range must end before the last byte; otherwise nothing is replaced.\<close>

fun apply_bin_op :: "bin_op \<Rightarrow> bytes \<Rightarrow> bytes" where
  "apply_bin_op (BAppend b) s = s @ b"
| "apply_bin_op (BErase i n) s = take i s @ drop (i + n) s"
| "apply_bin_op (BInsert i b) s = (if i \<le> length s then take i s @ b @ drop i s else s)"
| "apply_bin_op (BReplace i n b) s = (if i + n < length s then take i s @ b @ drop (i + n) s else s)"

definition int_op_term :: "int \<Rightarrow> eterm" where
  "int_op_term v = ETuple [EAtom ''int_add'', EInt v]"

definition int64 :: "int \<Rightarrow> bool" where
  "int64 i \<longleftrightarrow> - (2 ^ 63) \<le> i \<and> i < 2 ^ 63"

text \<open>Every partial sum is a 64-bit integer.\<close>

fun sums_fit :: "int \<Rightarrow> int list \<Rightarrow> bool" where
  "sums_fit v [] = int64 v"
| "sums_fit v (x # xs) = (int64 v \<and> sums_fit (v + x) xs)"

section \<open>Helper lemmas\<close>

lemma enif_get_uint_int [simp]: "n < 2 ^ 32 \<Longrightarrow> enif_get_uint (EInt (int n)) = Some (of_nat n)"
  by simp

lemma erase_at_eq: "pos + n \<le> length l \<Longrightarrow> erase_at n pos l = take pos l @ drop (pos + n) l"
  by (induction n arbitrary: l) (auto simp: take_append drop_append min_def add.commute)

lemma insert_before_eq: "pos \<le> length l \<Longrightarrow> insert_before xs pos l = take pos l @ xs @ drop pos l"
  by (induction xs arbitrary: pos l) (auto simp: min_def)

lemma without_first_simps [simp]:
  "without_first eq x [] = []"
  "without_first eq x (y # ys) = (if eq y x then ys else y # without_first eq x ys)"
  by (simp_all add: without_first_def)

lemma erase_first_without: "erase_first R = without_first (compare_eq R)"
proof (intro ext)
  show "erase_first R x ys = without_first (compare_eq R) x ys" for x ys
    by (induction ys) auto
qed

text \<open>
  Where the comparison is exact on the elements involved, subtracting is
  \<open>lists:subtract/2\<close>: the first occurrence of each element goes.
\<close>

lemma subtract_exact:
  assumes "\<forall>x \<in> set xs. \<forall>y \<in> set l. eq y x \<longleftrightarrow> y = x"
  shows "apply_list_op eq (Subtract xs) l = fold remove1 xs l"
  using assms
proof (induction xs arbitrary: l)
  case (Cons x xs)
  have "without_first eq x l = remove1 x l"
    using Cons.prems by (induction l) auto
  moreover have "set (remove1 x l) \<subseteq> set l"
    by (rule set_remove1_subset)
  ultimately show ?case
    using Cons.IH [of "remove1 x l"] Cons.prems by auto
qed simp

lemma list_operand_apply:
  assumes "list_op_ok c" "list_op_term c = ETuple op"
  shows "list_operand R l op = Ok (apply_list_op (compare_eq R) c l)"
proof (cases c)
  case (Subtract xs)
  then show ?thesis
    using assms by (auto simp: list_operand_def list_operand2_def erase_first_without)
next
  case (Delete i)
  then show ?thesis
    using assms unat_of_nat_u32 [of i]
    by (auto simp: list_operand_def list_operand2_def erase_at_eq simp del: erase_at.simps)
next
  case (DeleteRange i j)
  then show ?thesis
    using assms unat_of_nat_u32 [of i] unat_of_nat_u32 [of j]
    by (auto simp: list_operand_def list_operand3_def erase_at_eq word_le_nat_alt simp del: erase_at.simps)
next
  case (Set i x)
  then show ?thesis
    using assms unat_of_nat_u32 [of i] by (auto simp: list_operand_def list_operand3_def list_update_beyond)
next
  case (Insert i xs)
  then show ?thesis
    using assms unat_of_nat_u32 [of i] by (auto simp: list_operand_def list_operand3_def insert_before_eq)
qed (use assms in \<open>auto simp: list_operand_def list_operand2_def\<close>)

lemma bin_operand_apply:
  assumes "bin_op_ok c" "bin_op_term c = ETuple op"
  shows "binary_operand s op = Ok (apply_bin_op c s)"
proof (cases c)
  case (BErase i n)
  then show ?thesis
    using assms unat_of_nat_u32 [of i] unat_of_nat_u32 [of n]
    by (auto simp: binary_operand_def string_erase_def)
next
  case (BInsert i b)
  then show ?thesis
    using assms unat_of_nat_u32 [of i] by (auto simp: binary_operand_def string_insert_def)
next
  case (BReplace i n b)
  have "unat (of_nat i + of_nat n :: u32) = i + n"
    using BReplace assms(1) unat_of_nat_u32 [of "i + n"] by simp
  then show ?thesis
    using BReplace assms unat_of_nat_u32 [of i] unat_of_nat_u32 [of n]
    by (auto simp: binary_operand_def string_replace_def)
qed (use assms in \<open>auto simp: binary_operand_def\<close>)

text \<open>The operands of one value type, run in order.\<close>

lemma run_operands_apply:
  assumes "map (binary_to_term R) bs = map (\<lambda>c. Some (enc c)) cs"
    and "\<And>c s. c \<in> set cs \<Longrightarrow> \<exists>op. enc c = ETuple op \<and> step s op = Ok (app c s)"
  shows "run_operands R step s bs = Ok (fold app cs s)"
  using assms
proof (induction cs arbitrary: s bs)
  case (Cons c cs)
  then obtain b bs' where bs: "bs = b # bs'" "binary_to_term R b = Some (enc c)"
      "map (binary_to_term R) bs' = map (\<lambda>c. Some (enc c)) cs"
    by (auto simp: map_eq_Cons_conv)
  obtain op where "enc c = ETuple op" "step s op = Ok (app c s)"
    using Cons.prems(2) [of c] by auto
  then show ?case
    using Cons.IH [OF bs(3)] Cons.prems(2) bs by (simp add: operand_tuple_def)
qed simp

lemma run_operands_int:
  assumes "map (binary_to_term R) bs = map (\<lambda>v. Some (int_op_term v)) vs" "int64 v" "\<forall>x \<in> set vs. int64 x"
  shows "run_operands R int_operand v bs = (if sums_fit v vs then Ok (v + sum_list vs) else Undef)"
  using assms
proof (induction vs arbitrary: v bs)
  case (Cons x vs)
  then obtain b bs' where bs: "bs = b # bs'" "binary_to_term R b = Some (int_op_term x)"
      "map (binary_to_term R) bs' = map (\<lambda>v. Some (int_op_term v)) vs"
    by (auto simp: map_eq_Cons_conv)
  have step: "int_operand v [EAtom ''int_add'', EInt x] = (if int64 (v + x) then Ok (v + x) else Undef)"
    using Cons.prems(3) by (simp add: int_operand_def elem_def add_int64_def int64_def)
  show ?case
  proof (cases "int64 (v + x)")
    case True
    then show ?thesis
      using Cons.IH [OF bs(3) True] Cons.prems bs step
      by (simp add: operand_tuple_def int_op_term_def add.assoc)
  next
    case False
    then show ?thesis
      using bs step by (cases vs) (simp_all add: operand_tuple_def int_op_term_def)
  qed
qed simp

lemma list_op_runs:
  "list_op_ok c \<Longrightarrow>
     \<exists>op. list_op_term c = ETuple op \<and> list_operand R l op = Ok (apply_list_op (compare_eq R) c l)"
  using list_operand_apply [of c _ R] by (cases c) auto

lemma bin_op_runs:
  "bin_op_ok c \<Longrightarrow> \<exists>op. bin_op_term c = ETuple op \<and> binary_operand s op = Ok (apply_bin_op c s)"
  using bin_operand_apply [of c] by (cases c) auto

section \<open>Properties\<close>

text \<open>
  A small codec for the examples: one byte chooses between an integer, a binary,
  a list of small integers and some operands, one of them with the float \<open>1.0\<close>.
\<close>

definition float_one :: u64 where
  "float_one = 0x3FF0000000000000"

text \<open>\<open>enif_compare\<close> on the terms of the examples: \<open>1\<close> and \<open>1.0\<close> are equal.\<close>

definition sample_equal :: "eterm \<Rightarrow> eterm \<Rightarrow> bool" where
  "sample_equal x y \<longleftrightarrow> x = y \<or> (x, y) \<in> {(EInt 1, EFloat float_one), (EFloat float_one, EInt 1)}"

definition byte_ints :: "bytes \<Rightarrow> eterm list" where
  "byte_ints bs = map (\<lambda>b. EInt (uint b)) bs"

fun sample_decode :: "bytes \<Rightarrow> eterm option" where
  "sample_decode (t # bs) =
     (if t = 0 then (case bs of [i] \<Rightarrow> Some (EInt (uint i)) | _ \<Rightarrow> None)
      else if t = 1 then Some (EBin bs)
      else if t = 2 then Some (enif_make_list (byte_ints bs))
      else if t = 3 then (case bs of [i] \<Rightarrow> Some (int_op_term (uint i)) | _ \<Rightarrow> None)
      else if t = 4 then Some (list_op_term (Append (byte_ints bs)))
      else if t = 5 then Some (list_op_term (Subtract (byte_ints bs)))
      else if t = 6 then (case bs of i # n # b \<Rightarrow> Some (bin_op_term (BReplace (unat i) (unat n) b)) | _ \<Rightarrow> None)
      else if t = 7 then Some (bin_op_term (BReplace 7 (2 ^ 32 - 6) bs))
      else if t = 8 then Some (int_op_term (2 ^ 63 - 1))
      else if t = 9 then Some (list_op_term (Subtract [EFloat float_one]))
      else None)"
| "sample_decode [] = None"

fun small_bytes :: "eterm \<Rightarrow> bytes option" where
  "small_bytes ENil = Some []"
| "small_bytes (ECons (EInt i) t) =
     (if 0 \<le> i \<and> i < 256 then map_option ((#) (word_of_int i)) (small_bytes t) else None)"
| "small_bytes _ = None"

fun sample_encode :: "eterm \<Rightarrow> bytes option" where
  "sample_encode (EInt i) = (if 0 \<le> i \<and> i < 256 then Some [0, word_of_int i] else None)"
| "sample_encode (EBin b) = Some (1 # b)"
| "sample_encode t = map_option ((#) 2) (small_bytes t)"

definition sample_erts :: erts where
  "sample_erts = \<lparr>alloc_env = True, binary_to_term = sample_decode, term_to_binary = sample_encode,
     compare_eq = sample_equal, new_binary_ok = (\<lambda>_. True)\<rparr>"

text \<open>
  Integer values: from an integer \<open>v\<close>, or from nothing (counted as 0),
  \<open>{int_add, X}\<close> operands give the sum, encoded; if some partial sum is not a
  64-bit integer the addition overflows and the behaviour is undefined.
\<close>

theorem int_merge_adds:
  assumes "alloc_env R" "map (binary_to_term R) bs = map (\<lambda>v. Some (int_op_term v)) vs" "\<forall>x \<in> set vs. int64 x"
    and "case existing of Some b \<Rightarrow> binary_to_term R b = Some (EInt v) \<and> int64 v | None \<Rightarrow> v = 0 \<and> bs \<noteq> []"
  shows "ErlangMerge_FullMergeV2 R existing bs =
    (if sums_fit v vs then encode_result R (EInt (v + sum_list vs)) else Undef)"
proof (cases existing)
  case (Some b)
  then show ?thesis
    using assms run_operands_int [OF assms(2) _ assms(3), of v]
    by (simp add: ErlangMerge_FullMergeV2_def mergeErlangInt_def operands_from_def int64_def)
next
  case None
  then have bs: "v = 0" "bs \<noteq> []"
    using assms(4) by auto
  then obtain b bs' x xs where split: "bs = b # bs'" "vs = x # xs"
    using assms(2) by (cases bs; cases vs) auto
  then have "run_operands R int_operand x bs' = (if sums_fit x xs then Ok (x + sum_list xs) else Undef)"
    using assms(2,3) by (intro run_operands_int) auto
  moreover have "int64 x" "int64 0"
    using assms(3) split by (auto simp: int64_def)
  ultimately show ?thesis
    using assms(1,2) None bs split
    by (simp add: ErlangMerge_FullMergeV2_def merge_first_def operand_tuple_def int_op_term_def elem_def
        mergeErlangInt_def operands_from_def int64_def)
qed

theorem int_merge_adds_witness:
  "ErlangMerge_FullMergeV2 sample_erts (Some [0, 5]) [[3, 7], [3, 1]] = Ok [0, 13] \<and>
   ErlangMerge_FullMergeV2 sample_erts (Some [0, 5]) [[8]] = Undef"
proof -
  have "ErlangMerge_FullMergeV2 sample_erts (Some [0, 5]) [[3, 7], [3, 1]] =
      (if sums_fit 5 [7, 1] then encode_result sample_erts (EInt (5 + sum_list [7, 1])) else Undef)"
    by (rule int_merge_adds) (simp_all add: sample_erts_def int64_def)
  moreover have "ErlangMerge_FullMergeV2 sample_erts (Some [0, 5]) [[8]] =
      (if sums_fit 5 [2 ^ 63 - 1] then encode_result sample_erts (EInt (5 + sum_list [2 ^ 63 - 1])) else Undef)"
    by (rule int_merge_adds) (simp_all add: sample_erts_def int64_def)
  ultimately show ?thesis
    by (simp add: int64_def encode_result_def sample_erts_def)
qed

lemma list_merge_fold:
  assumes "alloc_env R"
    and "map (binary_to_term R) bs = map (\<lambda>c. Some (list_op_term c)) cs" "\<forall>c \<in> set cs. list_op_ok c"
    and "case existing of
           Some b \<Rightarrow> binary_to_term R b = Some (enif_make_list l)
         | None \<Rightarrow> l = [] \<and> (\<exists>xs cs'. cs = Append xs # cs' \<or> cs = Subtract xs # cs')"
  shows "ErlangMerge_FullMergeV2 R existing bs = encode_result R (enif_make_list (fold (apply_list_op (compare_eq R)) cs l))"
proof -
  have run: "run_operands R (list_operand R) s bs' = Ok (fold (apply_list_op (compare_eq R)) cs' s)"
    if "map (binary_to_term R) bs' = map (\<lambda>c. Some (list_op_term c)) cs'" "set cs' \<subseteq> set cs" for s bs' cs'
    by (rule run_operands_apply [OF that(1)]) (use that(2) assms(3) list_op_runs in blast)
  show ?thesis
  proof (cases existing)
    case (Some b)
    then have "binary_to_term R b = Some (enif_make_list l)"
      using assms(4) by simp
    moreover have "\<not> enif_is_number (enif_make_list l)"
      by (cases l) (auto simp: enif_make_list_def)
    ultimately show ?thesis
      using assms(1) run [OF assms(2)] Some
      by (simp add: ErlangMerge_FullMergeV2_def mergeErlangList_def operands_from_def)
  next
    case None
    then obtain xs cs' where cs: "l = []" "cs = Append xs # cs' \<or> cs = Subtract xs # cs'"
      using assms(4) by auto
    then obtain b bs' where bs: "bs = b # bs'" "map (binary_to_term R) bs' = map (\<lambda>c. Some (list_op_term c)) cs'"
        "binary_to_term R b = Some (list_op_term (hd cs))"
      using assms(2) by (cases bs) auto
    have none: "fold (without_first (compare_eq R)) xs [] = []"
      by (induction xs) auto
    show ?thesis
      using cs(2)
    proof
      assume "cs = Append xs # cs'"
      then show ?thesis
        using assms(1) run [OF assms(2)] None bs cs(1)
        by (simp add: ErlangMerge_FullMergeV2_def merge_first_def operand_tuple_def elem_def mergeErlangList_def
            operands_from_def)
    next
      assume sub: "cs = Subtract xs # cs'"
      then have "run_operands R (list_operand R) [] bs' = Ok (fold (apply_list_op (compare_eq R)) cs' [])"
        by (intro run [OF bs(2)]) auto
      with sub show ?thesis
        using assms(1) None bs cs(1) none
        by (auto simp: ErlangMerge_FullMergeV2_def merge_first_def operand_tuple_def elem_def mergeErlangList_def
            operands_from_def)
    qed
  qed
qed

text \<open>
  Claim C27. List values: from a list, or from nothing when the first operand
  appends or subtracts, the operator applies the list functions in order and
  encodes the result. Appending is list append; subtracting removes, for each
  element, the first one that compares equal to it with \<open>enif_compare\<close>, whatever
  that comparison is (Erlang's \<open>==\<close>, where 1 and 1.0 are equal); positions past the
  end change nothing. In the second example \<open>1.0\<close> removes the integer \<open>1\<close>, which
  \<open>lists:subtract/2\<close> would keep.
\<close>

theorem list_merge_applies:
  assumes "alloc_env R"
    and "map (binary_to_term R) bs = map (\<lambda>c. Some (list_op_term c)) cs" "\<forall>c \<in> set cs. list_op_ok c"
    and "case existing of
           Some b \<Rightarrow> binary_to_term R b = Some (enif_make_list l)
         | None \<Rightarrow> l = [] \<and> (\<exists>xs cs'. cs = Append xs # cs' \<or> cs = Subtract xs # cs')"
  shows "ErlangMerge_FullMergeV2 R existing bs = encode_result R (enif_make_list (fold (apply_list_op (compare_eq R)) cs l))"
  by (rule list_merge_fold [OF assms])

theorem list_merge_applies_witness:
  "ErlangMerge_FullMergeV2 sample_erts (Some [2, 1, 2, 3, 1]) [[5, 1, 3], [4, 9]] = Ok [2, 2, 1, 9] \<and>
   ErlangMerge_FullMergeV2 sample_erts (Some [2, 2, 1, 1]) [[9]] = Ok [2, 2, 1] \<and>
   fold remove1 [EFloat float_one] [EInt 2, EInt 1, EInt 1] = [EInt 2, EInt 1, EInt 1]"
proof -
  let ?cs = "[Subtract [EInt 1, EInt 3], Append [EInt 9]]"
  have "ErlangMerge_FullMergeV2 sample_erts (Some [2, 1, 2, 3, 1]) [[5, 1, 3], [4, 9]] =
      encode_result sample_erts (enif_make_list
        (fold (apply_list_op (compare_eq sample_erts)) ?cs [EInt 1, EInt 2, EInt 3, EInt 1]))"
    by (rule list_merge_applies) (simp_all add: sample_erts_def byte_ints_def)
  moreover have "ErlangMerge_FullMergeV2 sample_erts (Some [2, 2, 1, 1]) [[9]] =
      encode_result sample_erts (enif_make_list
        (fold (apply_list_op (compare_eq sample_erts)) [Subtract [EFloat float_one]] [EInt 2, EInt 1, EInt 1]))"
    by (rule list_merge_applies) (simp_all add: sample_erts_def byte_ints_def)
  ultimately show ?thesis
    by (simp add: encode_result_def sample_erts_def enif_make_list_def sample_equal_def)
qed

text \<open>
  Claim C28. Binary values: while no replaced range ends past \<open>2 ^ 32\<close>, the operator
  applies append, erase, insert and replace in order and encodes the result. A
  range to replace that reaches the last byte is skipped.
\<close>

theorem binary_merge_applies:
  assumes "alloc_env R" "binary_to_term R b = Some (EBin s)"
    and "map (binary_to_term R) bs = map (\<lambda>c. Some (bin_op_term c)) cs" "\<forall>c \<in> set cs. bin_op_ok c"
    and "new_binary_ok R (length (fold apply_bin_op cs s))"
  shows "ErlangMerge_FullMergeV2 R (Some b) bs = encode_result R (EBin (fold apply_bin_op cs s))"
proof -
  have "run_operands R binary_operand s bs = Ok (fold apply_bin_op cs s)"
    by (rule run_operands_apply [OF assms(3)]) (use assms(4) bin_op_runs in blast)
  then show ?thesis
    using assms(1,2,5) by (simp add: ErlangMerge_FullMergeV2_def mergeErlangBinary_def operands_from_def)
qed

theorem binary_merge_applies_witness:
  "ErlangMerge_FullMergeV2 sample_erts (Some [1, 10, 11, 12, 13]) [[6, 1, 2, 7]] = Ok [1, 10, 7, 13] \<and>
   ErlangMerge_FullMergeV2 sample_erts (Some [1, 10, 11, 12, 13]) [[6, 2, 2, 7]] = Ok [1, 10, 11, 12, 13]"
proof -
  have "ErlangMerge_FullMergeV2 sample_erts (Some [1, 10, 11, 12, 13]) [[6, 1, 2, 7]] =
      encode_result sample_erts (EBin (fold apply_bin_op [BReplace 1 2 [7]] [10, 11, 12, 13]))"
    by (rule binary_merge_applies) (simp_all add: sample_erts_def)
  moreover have "ErlangMerge_FullMergeV2 sample_erts (Some [1, 10, 11, 12, 13]) [[6, 2, 2, 7]] =
      encode_result sample_erts (EBin (fold apply_bin_op [BReplace 2 2 [7]] [10, 11, 12, 13]))"
    by (rule binary_merge_applies) (simp_all add: sample_erts_def)
  ultimately show ?thesis
    by (simp add: encode_result_def sample_erts_def)
qed

text \<open>
  The end of the range of \<open>binary_replace\<close> is computed in 32 bits. When it
  wraps to a position inside the binary while the start is past its end,
  \<open>std::string::replace\<close> throws and the exception leaves the merge operator.
\<close>

theorem binary_replace_wrap_throws:
  assumes "alloc_env R" "binary_to_term R b = Some (EBin s)"
    and "binary_to_term R c = Some (bin_op_term (BReplace i n chunk))"
    and "i < 2 ^ 32" "n < 2 ^ 32" "2 ^ 32 \<le> i + n" "length s < i" "i + n - 2 ^ 32 < length s"
  shows "ErlangMerge_FullMergeV2 R (Some b) (c # bs) = Thrown"
proof -
  have "unat (of_nat i + of_nat n :: u32) = i + n - 2 ^ 32"
  proof -
    have "unat (of_nat (i + n) :: u32) = (i + n) mod 2 ^ 32"
      by (simp only: unat_of_nat) simp
    also have "\<dots> = i + n - 2 ^ 32"
      using assms(4-6) by (simp add: mod_if)
    finally show ?thesis by simp
  qed
  then have "binary_operand s [EAtom ''binary_replace'', EInt (int i), EInt (int n), EBin chunk] = Thrown"
    using assms(4-8) unat_of_nat_u32 [of i] by (simp add: binary_operand_def string_replace_def)
  then show ?thesis
    using assms(1-3)
    by (simp add: ErlangMerge_FullMergeV2_def mergeErlangBinary_def operands_from_def operand_tuple_def)
qed

theorem binary_replace_wrap_throws_witness:
  "ErlangMerge_FullMergeV2 sample_erts (Some [1, 10, 11, 12]) [[7, 0]] = Thrown"
  by (rule binary_replace_wrap_throws [where i = 7 and n = "2 ^ 32 - 6" and chunk = "[0]" and s = "[10, 11, 12]"])
    (simp_all add: sample_erts_def)

end
