(* ===== verification/Merge_Runs.thy ===== *)
theory Merge_Runs
  imports Posting_Merge Merge_Ops Erlang_Merge
begin

text \<open>
  How RocksDB uses a merge operator. It keeps the operands of a key and may, during any
  read, flush or compaction, merge the oldest operands into the value (\<open>FullMergeV2\<close>) or
  combine neighbouring operands (\<open>PartialMergeMulti\<close>), in any grouping. The locale
  \<open>merge_operator\<close> states what an operator must promise for every grouping to give the same
  value; it is interpreted on the counter, bitset and Erlang operators. The posting list
  operator does not keep the promise; what it gives in every grouping is stated apart.
\<close>

section \<open>Groupings\<close>

inductive merge_run ::
    "(bytes option \<Rightarrow> bytes list \<Rightarrow> bytes outcome) \<Rightarrow> (bytes list \<Rightarrow> bytes outcome) \<Rightarrow> bytes option \<Rightarrow> bytes list \<Rightarrow> bytes \<Rightarrow> bool"
  for full partial where
  merged: "merge_run full partial (Some v) [] v"
| full_merge:
    "xs \<noteq> [] \<Longrightarrow> full e xs = Ok v \<Longrightarrow> merge_run full partial (Some v) ys out \<Longrightarrow> merge_run full partial e (xs @ ys) out"
| partial_merge:
    "2 \<le> length seg \<Longrightarrow> partial seg = Ok p \<Longrightarrow> merge_run full partial e (xs @ p # ys) out \<Longrightarrow>
     merge_run full partial e (xs @ seg @ ys) out"

lemma merge_run_once: "ops \<noteq> [] \<Longrightarrow> full e ops = Ok out \<Longrightarrow> merge_run full partial e ops out"
  using merge_run.full_merge [of ops full e out partial "[]" out] merge_run.merged [of full partial out] by simp

inductive_cases merge_run_NilE: "merge_run full partial e [] out"

lemma merge_run_Nil: "merge_run full partial e [] out \<longleftrightarrow> e = Some out"
  by (auto elim!: merge_run_NilE intro: merge_run.merged)

lemma merge_run_snoc: "merge_run full partial e ops v \<Longrightarrow> full (Some v) [op] = Ok w \<Longrightarrow> merge_run full partial e (ops @ [op]) w"
proof (induction rule: merge_run.induct)
  case (full_merge xs e v ys out)
  then show ?case
    using merge_run.full_merge [of xs full e v partial "ys @ [op]" w] by simp
next
  case (partial_merge seg p e xs ys out)
  then show ?case
    using merge_run.partial_merge [of seg partial p full e xs "ys @ [op]" w] by simp
qed (simp add: merge_run_once)

text \<open>
  The interface of an operator: \<open>meaning\<close> is what a value stands for and \<open>effect\<close> what an
  operand does to it; \<open>safe\<close> are the values with operands it handles.
\<close>

locale merge_operator =
  fixes full :: "bytes option \<Rightarrow> bytes list \<Rightarrow> bytes outcome" and partial :: "bytes list \<Rightarrow> bytes outcome"
    and safe :: "bytes option \<Rightarrow> bytes list \<Rightarrow> bool" and meaning :: "bytes option \<Rightarrow> 's" and effect :: "bytes \<Rightarrow> 's \<Rightarrow> 's"
  assumes full_merges: "safe e (xs @ ys) \<Longrightarrow> xs \<noteq> [] \<Longrightarrow>
      \<exists>v. full e xs = Ok v \<and> meaning (Some v) = fold effect xs (meaning e) \<and> safe (Some v) ys"
    and partial_combines: "safe e (xs @ seg @ ys) \<Longrightarrow> 2 \<le> length seg \<Longrightarrow> partial seg = Ok p \<Longrightarrow>
      safe e (xs @ p # ys) \<and> effect p = fold effect seg"
begin

lemma run_meaning:
  "merge_run full partial e ops out \<Longrightarrow> safe e ops \<Longrightarrow> meaning (Some out) = fold effect ops (meaning e)"
proof (induction rule: merge_run.induct)
  case (full_merge xs e v ys out)
  then show ?case
    using full_merges [of e xs ys] by auto
next
  case (partial_merge seg p e xs ys out)
  then show ?case
    using partial_combines [of e xs seg ys p] by auto
qed simp

lemma run_exists: "safe e ops \<Longrightarrow> ops \<noteq> [] \<Longrightarrow> \<exists>out. merge_run full partial e ops out"
  using full_merges [of e ops "[]"] merge_run_once [of ops full e _ partial] by fastforce

end

section \<open>Counters\<close>

text \<open>
  The callbacks an associative operator gets from RocksDB: \<open>Merge\<close> on one operand after the
  other; with no operand the output is left as it was, the empty string.
\<close>

fun Associative_FullMergeV2 :: "(bytes option \<Rightarrow> bytes \<Rightarrow> bytes outcome) \<Rightarrow> bytes \<Rightarrow> bytes option \<Rightarrow> bytes list \<Rightarrow> bytes outcome" where
  "Associative_FullMergeV2 merge new_value existing_value [] = Ok new_value"
| "Associative_FullMergeV2 merge new_value existing_value (operand # ops) =
     bind_outcome (merge existing_value operand) (\<lambda>temp. Associative_FullMergeV2 merge temp (Some temp) ops)"

fun Associative_PartialMergeMulti :: "(bytes option \<Rightarrow> bytes \<Rightarrow> bytes outcome) \<Rightarrow> bytes list \<Rightarrow> bytes outcome" where
  "Associative_PartialMergeMulti merge [] = Undef"
| "Associative_PartialMergeMulti merge (operand # ops) =
     Associative_FullMergeV2 merge [] (Some operand) ops"

definition counter_value :: "bytes \<Rightarrow> int" where
  "counter_value v = (case try_stoi v of Ok i \<Rightarrow> i | _ \<Rightarrow> 0)"

definition counter_of :: "bytes option \<Rightarrow> int" where
  "counter_of e = (case e of None \<Rightarrow> 0 | Some v \<Rightarrow> counter_value v)"

definition is_counter :: "bytes \<Rightarrow> bool" where
  "is_counter v \<longleftrightarrow> (\<exists>i. try_stoi v = Ok i)"

text \<open>Every operand is a number and no sum of some of them with the value can leave the C \<open>int\<close>.\<close>

definition counter_safe :: "bytes option \<Rightarrow> bytes list \<Rightarrow> bool" where
  "counter_safe e ops \<longleftrightarrow> (\<forall>v. e = Some v \<longrightarrow> is_counter v) \<and> list_all is_counter ops \<and>
     \<bar>counter_of e\<bar> + (\<Sum>v\<leftarrow>ops. \<bar>counter_value v\<bar>) < 2 ^ 31"

lemma try_stoi_to_string: "int32 i \<Longrightarrow> try_stoi (std_to_string i) = Ok i"
  using stoi_to_string [of i] by (simp add: try_stoi_def)

lemma counter_to_string: "int32 i \<Longrightarrow> is_counter (std_to_string i) \<and> counter_value (std_to_string i) = i"
  by (simp add: is_counter_def counter_value_def try_stoi_to_string)

lemma int32_abs: "\<bar>i\<bar> < 2 ^ 31 \<Longrightarrow> int32 i"
  by (auto simp: int32_def)

lemma counter_safe_Cons:
  assumes "counter_safe e (op # ops)"
  shows "CounterMerge e op = Ok (std_to_string (counter_of e + counter_value op)) \<and>
    counter_safe (Some (std_to_string (counter_of e + counter_value op))) ops \<and>
    counter_value (std_to_string (counter_of e + counter_value op)) = counter_of e + counter_value op"
proof -
  let ?n = "counter_of e + counter_value op"
  have "0 \<le> (\<Sum>v\<leftarrow>ops. \<bar>counter_value v\<bar>)"
    by (induction ops) auto
  then have fits: "int32 ?n"
    using assms by (intro int32_abs) (auto simp: counter_safe_def)
  have "try_stoi op = Ok (counter_value op)" "\<And>v. e = Some v \<Longrightarrow> try_stoi v = Ok (counter_value v)"
    using assms by (auto simp: counter_safe_def is_counter_def counter_value_def)
  then have "CounterMerge e op = Ok (std_to_string ?n)"
    using fits by (cases e) (auto simp: CounterMerge_def counter_of_def)
  moreover have "counter_safe (Some (std_to_string ?n)) ops"
    using assms counter_to_string [OF fits] by (auto simp: counter_safe_def counter_of_def)
  ultimately show ?thesis
    using counter_to_string [OF fits] by simp
qed

lemma counter_full_merges:
  "counter_safe e (xs @ ys) \<Longrightarrow> xs \<noteq> [] \<Longrightarrow>
     \<exists>v. Associative_FullMergeV2 CounterMerge new e xs = Ok v \<and>
       counter_value v = counter_of e + (\<Sum>x\<leftarrow>xs. counter_value x) \<and> counter_safe (Some v) ys"
proof (induction xs arbitrary: e new)
  case (Cons x xs)
  let ?n = "std_to_string (counter_of e + counter_value x)"
  have step: "CounterMerge e x = Ok ?n" "counter_safe (Some ?n) (xs @ ys)" "counter_value ?n = counter_of e + counter_value x"
    using counter_safe_Cons [of e x "xs @ ys"] Cons.prems(1) by auto
  show ?case
  proof (cases "xs = []")
    case False
    then show ?thesis
      using Cons.IH [OF step(2), of ?n] step by (auto simp: counter_of_def)
  qed (use step in simp)
qed simp

interpretation counter: merge_operator "Associative_FullMergeV2 CounterMerge []" "Associative_PartialMergeMulti CounterMerge"
  counter_safe counter_of "\<lambda>op. (+) (counter_value op)"
proof unfold_locales
  have sum: "fold (\<lambda>op. (+) (counter_value op)) xs n = n + (\<Sum>x\<leftarrow>xs. counter_value x)" for xs n
    by (induction xs arbitrary: n) auto
  show "\<exists>v. Associative_FullMergeV2 CounterMerge [] e xs = Ok v \<and>
      counter_of (Some v) = fold (\<lambda>op. (+) (counter_value op)) xs (counter_of e) \<and> counter_safe (Some v) ys"
    if "counter_safe e (xs @ ys)" "xs \<noteq> []" for e xs ys
    using counter_full_merges [OF that, of "[]"] by (simp add: sum counter_of_def)
  show "counter_safe e (xs @ p # ys) \<and> (+) (counter_value p) = fold (\<lambda>op. (+) (counter_value op)) seg"
    if safe: "counter_safe e (xs @ seg @ ys)" and two: "2 \<le> length seg" and part: "Associative_PartialMergeMulti CounterMerge seg = Ok p"
    for e xs seg ys p
  proof -
    obtain x s where seg: "seg = x # s" "s \<noteq> []"
      using two by (cases seg; cases "tl seg") auto
    have abs: "0 \<le> (\<Sum>v\<leftarrow>zs. \<bar>counter_value v\<bar>)" "\<bar>\<Sum>v\<leftarrow>zs. counter_value v\<bar> \<le> (\<Sum>v\<leftarrow>zs. \<bar>counter_value v\<bar>)" for zs
      by (induction zs) auto
    have "counter_safe (Some x) (s @ [])"
      using safe abs(1) [of xs] abs(1) [of ys] by (auto simp: seg counter_safe_def counter_of_def)
    then have p: "counter_value p = (\<Sum>v\<leftarrow>seg. counter_value v)" "is_counter p"
      using counter_full_merges [of "Some x" s "[]" "[]"] seg part by (auto simp: counter_of_def counter_safe_def)
    have "counter_safe e (xs @ p # ys)"
      using safe p abs(2) [of seg] by (auto simp: counter_safe_def)
    moreover have "(+) (counter_value p) = fold (\<lambda>op. (+) (counter_value op)) seg"
      by (rule ext) (simp add: sum p(1))
    ultimately show ?thesis ..
  qed
qed

section \<open>Bitsets\<close>

text \<open>The position of an operand; the operator refuses to combine operands.\<close>

definition bit_effect :: "bytes \<Rightarrow> nat set \<Rightarrow> nat set" where
  "bit_effect s S =
     (if s = [] then {}
      else let p = nat (counter_value (tl s)) in if hd s = 43 then insert p S else S - {p})"

definition bitset_of :: "bytes option \<Rightarrow> nat set" where
  "bitset_of e = (case e of None \<Rightarrow> {} | Some v \<Rightarrow> bits_of v)"

definition bitset_safe :: "nat \<Rightarrow> bytes option \<Rightarrow> bytes list \<Rightarrow> bool" where
  "bitset_safe cap e ops \<longleftrightarrow> (\<forall>v. e = Some v \<longrightarrow> cap div 8 \<le> length v) \<and>
     (\<exists>cs. ops = map bit_op_bytes cs \<and> (\<forall>c \<in> set cs. bit_op_ok (cap div 8) c))"

lemma bit_op_ok_mono: "bit_op_ok m c \<Longrightarrow> m \<le> n \<Longrightarrow> bit_op_ok n c"
  by (cases c) auto

lemma bit_effect_op: "bit_op_ok n c \<Longrightarrow> bit_effect (bit_op_bytes c) = apply_bit_op c"
  by (cases c; rule ext) (auto simp: bit_effect_def counter_value_def try_stoi_nat)

lemma fold_bit_effect:
  "\<forall>c \<in> set cs. bit_op_ok n c \<Longrightarrow> fold bit_effect (map bit_op_bytes cs) S = fold apply_bit_op cs S"
  by (induction cs arbitrary: S) (auto simp: bit_effect_op)

lemma bitset_full_merge:
  assumes "\<forall>v. e = Some v \<longrightarrow> cap div 8 \<le> length v" "\<forall>c \<in> set cs. bit_op_ok (cap div 8) c"
  shows "\<exists>v. fst (Bitset_FullMergeV2 cap e (map bit_op_bytes cs)) = Ok v \<and>
    bits_of v = fold apply_bit_op cs (bitset_of e) \<and> cap div 8 \<le> length v"
proof (cases e)
  case None
  then show ?thesis
    using bitset_loop_apply [of cs "replicate (cap div 8) 0"] assms(2)
    by (auto simp: Bitset_FullMergeV2_def bitset_of_def)
next
  case (Some v)
  then have "\<forall>c \<in> set cs. bit_op_ok (length v) c"
    using assms bit_op_ok_mono by blast
  then show ?thesis
    using bitset_loop_apply [of cs v] assms(1) Some by (auto simp: Bitset_FullMergeV2_def bitset_of_def)
qed

interpretation bitset: merge_operator "\<lambda>e ops. fst (Bitset_FullMergeV2 cap e ops)"
  "\<lambda>ops. case Bitset_PartialMergeMulti ops of None \<Rightarrow> Failed | Some p \<Rightarrow> Ok p" "bitset_safe cap" bitset_of bit_effect for cap
proof unfold_locales
  show "\<exists>v. fst (Bitset_FullMergeV2 cap e xs) = Ok v \<and> bitset_of (Some v) = fold bit_effect xs (bitset_of e) \<and>
      bitset_safe cap (Some v) ys" if safe: "bitset_safe cap e (xs @ ys)" and ne: "xs \<noteq> []" for e xs ys
  proof -
    obtain cs cs' where cs: "xs = map bit_op_bytes cs" "ys = map bit_op_bytes cs'" "\<forall>c \<in> set cs \<union> set cs'. bit_op_ok (cap div 8) c"
      using safe unfolding bitset_safe_def append_eq_map_conv by fastforce
    have "\<forall>v. e = Some v \<longrightarrow> cap div 8 \<le> length v"
      using safe by (simp add: bitset_safe_def)
    from bitset_full_merge [OF this, of cs] cs show ?thesis
      by (auto simp: bitset_safe_def bitset_of_def [of "Some _"] fold_bit_effect [of cs "cap div 8"])
  qed
qed (simp add: Bitset_PartialMergeMulti_def)

section \<open>Erlang terms\<close>

lemma map_append_eqE:
  assumes "map f (xs @ ys) = map g zs"
  obtains us ws where "zs = us @ ws" "map f xs = map g us" "map f ys = map g ws"
  using assms by (auto simp: append_eq_map_conv)

text \<open>A run-time system that encodes every 64-bit integer and decodes it again.\<close>

definition codes_ints :: "erts \<Rightarrow> bool" where
  "codes_ints R \<longleftrightarrow> alloc_env R \<and>
     (\<forall>i. int64 i \<longrightarrow> (\<exists>b. term_to_binary R (EInt i) = Some b \<and> binary_to_term R b = Some (EInt i)))"

definition added_int :: "erts \<Rightarrow> bytes \<Rightarrow> int option" where
  "added_int R op =
     (case binary_to_term R op of
        Some (ETuple [tag, EInt i]) \<Rightarrow> if tag = EAtom ''int_add'' \<and> int64 i then Some i else None
      | _ \<Rightarrow> None)"

definition int_of_value :: "erts \<Rightarrow> bytes option \<Rightarrow> int" where
  "int_of_value R e = (case e of None \<Rightarrow> 0 | Some b \<Rightarrow> (case binary_to_term R b of Some (EInt i) \<Rightarrow> i | _ \<Rightarrow> 0))"

definition int_safe :: "erts \<Rightarrow> bytes option \<Rightarrow> bytes list \<Rightarrow> bool" where
  "int_safe R e ops \<longleftrightarrow> codes_ints R \<and> (\<forall>b. e = Some b \<longrightarrow> (\<exists>i. binary_to_term R b = Some (EInt i))) \<and>
     (\<exists>vs. map (added_int R) ops = map Some vs \<and> \<bar>int_of_value R e\<bar> + (\<Sum>v\<leftarrow>vs. \<bar>v\<bar>) < 2 ^ 63)"

lemma added_int_Some: "added_int R op = Some i \<Longrightarrow> binary_to_term R op = Some (int_op_term i) \<and> int64 i"
  by (auto simp: added_int_def int_op_term_def split: option.splits eterm.splits list.splits if_splits)

lemma abs_sum: "0 \<le> (\<Sum>v\<leftarrow>vs. \<bar>v :: int\<bar>)"
  by (induction vs) auto

lemma sums_fit_abs: "\<bar>v\<bar> + (\<Sum>x\<leftarrow>vs. \<bar>x\<bar>) < 2 ^ 63 \<Longrightarrow> sums_fit v vs"
proof (induction vs arbitrary: v)
  case (Cons x vs)
  have "\<bar>v + x\<bar> + (\<Sum>x\<leftarrow>vs. \<bar>x\<bar>) < 2 ^ 63" "\<bar>v\<bar> < 2 ^ 63"
    using Cons.prems abs_sum [of vs] by auto
  then show ?case
    using Cons.IH [of "v + x"] by (auto simp: int64_def)
qed (auto simp: int64_def)

lemma added_ints_Some:
  "map (added_int R) ops = map Some vs \<Longrightarrow>
     map (binary_to_term R) ops = map (\<lambda>v. Some (int_op_term v)) vs \<and> (\<forall>v \<in> set vs. int64 v)"
proof (induction vs arbitrary: ops)
  case (Cons v vs)
  then show ?case
    using added_int_Some [of R "hd ops" v] by (cases ops) auto
qed simp

lemma fold_added_int:
  "map (added_int R) ops = map Some vs \<Longrightarrow> fold (\<lambda>op n. n + the (added_int R op)) ops n = n + sum_list vs"
proof (induction vs arbitrary: ops n)
  case (Cons v vs)
  then show ?case
    by (cases ops) auto
qed simp

interpretation ints: merge_operator "ErlangMerge_FullMergeV2 R"
  "\<lambda>ops. case ErlangMerge_PartialMergeMulti ops of None \<Rightarrow> Failed | Some p \<Rightarrow> Ok p"
  "int_safe R" "int_of_value R" "\<lambda>op n. n + the (added_int R op)" for R
proof unfold_locales
  show "\<exists>v. ErlangMerge_FullMergeV2 R e xs = Ok v \<and>
      int_of_value R (Some v) = fold (\<lambda>op n. n + the (added_int R op)) xs (int_of_value R e) \<and> int_safe R (Some v) ys"
    if safe: "int_safe R e (xs @ ys)" and ne: "xs \<noteq> []" for e xs ys
  proof -
    obtain vs where vs: "map (added_int R) (xs @ ys) = map Some vs" "\<bar>int_of_value R e\<bar> + (\<Sum>v\<leftarrow>vs. \<bar>v\<bar>) < 2 ^ 63"
        and R: "codes_ints R" and e: "\<And>b. e = Some b \<Longrightarrow> \<exists>i. binary_to_term R b = Some (EInt i)"
      using safe by (auto simp: int_safe_def)
    obtain us ws where split: "map (added_int R) xs = map Some us" "map (added_int R) ys = map Some ws" "vs = us @ ws"
      using vs(1) by (rule map_append_eqE)
    have sum: "\<bar>int_of_value R e\<bar> + (\<Sum>v\<leftarrow>us. \<bar>v\<bar>) + (\<Sum>v\<leftarrow>ws. \<bar>v\<bar>) < 2 ^ 63"
      using vs(2) split(3) by simp
    let ?n = "int_of_value R e + sum_list us"
    have "\<bar>sum_list us\<bar> \<le> (\<Sum>v\<leftarrow>us. \<bar>v\<bar>)"
      by (induction us) auto
    then have room: "\<bar>?n\<bar> + (\<Sum>v\<leftarrow>ws. \<bar>v\<bar>) < 2 ^ 63" "int64 ?n" "sums_fit (int_of_value R e) us" "int64 (int_of_value R e)"
      using sum abs_sum [of ws] abs_sum [of us] sums_fit_abs [of "int_of_value R e" us] by (auto simp: int64_def)
    obtain b where b: "term_to_binary R (EInt ?n) = Some b" "binary_to_term R b = Some (EInt ?n)"
      using R room(2) by (auto simp: codes_ints_def)
    have "case e of Some b \<Rightarrow> binary_to_term R b = Some (EInt (int_of_value R e)) \<and> int64 (int_of_value R e)
        | None \<Rightarrow> int_of_value R e = 0 \<and> xs \<noteq> []"
      using e room(4) ne by (cases e) (auto simp: int_of_value_def)
    then have "ErlangMerge_FullMergeV2 R e xs = Ok b"
      using int_merge_adds [of R xs us "int_of_value R e" e] added_ints_Some [OF split(1)] R room(3) b(1)
      by (simp add: codes_ints_def encode_result_def)
    moreover have "int_of_value R (Some b) = ?n"
      by (simp add: int_of_value_def b(2))
    moreover have "int_safe R (Some b) ys"
      using R room(1) split(2) b(2) by (auto simp: int_safe_def int_of_value_def)
    ultimately show ?thesis
      using fold_added_int [OF split(1)] by auto
  qed
qed (simp add: ErlangMerge_PartialMergeMulti_def)

text \<open>Lists of terms; the operand that a term stands for.\<close>

fun list_op_of :: "eterm \<Rightarrow> list_op option" where
  "list_op_of (ETuple [EAtom tag, t]) =
     (if tag = ''list_append'' then Some (Append (list_cells t))
      else if tag = ''list_substract'' then Some (Subtract (list_cells t))
      else if tag = ''list_delete'' then (case t of EInt i \<Rightarrow> Some (Delete (nat i)) | _ \<Rightarrow> None)
      else None)"
| "list_op_of (ETuple [EAtom tag, EInt i, t]) =
     (if tag = ''list_delete'' then (case t of EInt j \<Rightarrow> Some (DeleteRange (nat i) (nat j)) | _ \<Rightarrow> None)
      else if tag = ''list_set'' then Some (Set (nat i) t)
      else if tag = ''list_insert'' then Some (Insert (nat i) (list_cells t))
      else None)"
| "list_op_of _ = None"

definition list_effect :: "erts \<Rightarrow> bytes \<Rightarrow> eterm list \<Rightarrow> eterm list" where
  "list_effect R op l = (case Option.bind (binary_to_term R op) list_op_of of None \<Rightarrow> l | Some c \<Rightarrow> apply_list_op (compare_eq R) c l)"

definition list_of_value :: "erts \<Rightarrow> bytes option \<Rightarrow> eterm list" where
  "list_of_value R e = (case e of None \<Rightarrow> [] | Some b \<Rightarrow> (case binary_to_term R b of Some t \<Rightarrow> list_cells t | None \<Rightarrow> []))"

definition codes_lists :: "erts \<Rightarrow> bool" where
  "codes_lists R \<longleftrightarrow> alloc_env R \<and>
     (\<forall>l. \<exists>b. term_to_binary R (enif_make_list l) = Some b \<and> binary_to_term R b = Some (enif_make_list l))"

definition list_safe :: "erts \<Rightarrow> bytes option \<Rightarrow> bytes list \<Rightarrow> bool" where
  "list_safe R e ops \<longleftrightarrow> codes_lists R \<and>
     (\<exists>cs. map (binary_to_term R) ops = map (\<lambda>c. Some (list_op_term c)) cs \<and> (\<forall>c \<in> set cs. list_op_ok c) \<and>
       (case e of None \<Rightarrow> cs = [] \<or> (\<exists>xs cs'. cs = Append xs # cs' \<or> cs = Subtract xs # cs')
        | Some b \<Rightarrow> \<exists>l. binary_to_term R b = Some (enif_make_list l)))"

lemma list_cells_make [simp]: "list_cells (enif_make_list l) = l"
  by (induction l) (simp_all add: enif_make_list_def)

lemma list_op_of_term [simp]: "list_op_of (list_op_term c) = Some c"
  by (cases c) simp_all

lemma fold_list_effect:
  "map (binary_to_term R) ops = map (\<lambda>c. Some (list_op_term c)) cs \<Longrightarrow> fold (list_effect R) ops l = fold (apply_list_op (compare_eq R)) cs l"
proof (induction cs arbitrary: ops l)
  case (Cons c cs)
  then show ?case
    by (cases ops) (auto simp: list_effect_def)
qed simp

interpretation lists: merge_operator "ErlangMerge_FullMergeV2 R"
  "\<lambda>ops. case ErlangMerge_PartialMergeMulti ops of None \<Rightarrow> Failed | Some p \<Rightarrow> Ok p"
  "list_safe R" "list_of_value R" "list_effect R" for R
proof unfold_locales
  show "\<exists>v. ErlangMerge_FullMergeV2 R e xs = Ok v \<and> list_of_value R (Some v) = fold (list_effect R) xs (list_of_value R e) \<and>
      list_safe R (Some v) ys" if safe: "list_safe R e (xs @ ys)" and ne: "xs \<noteq> []" for e xs ys
  proof -
    obtain cs where cs: "map (binary_to_term R) (xs @ ys) = map (\<lambda>c. Some (list_op_term c)) cs" "\<forall>c \<in> set cs. list_op_ok c"
        and first: "case e of None \<Rightarrow> cs = [] \<or> (\<exists>xs cs'. cs = Append xs # cs' \<or> cs = Subtract xs # cs')
          | Some b \<Rightarrow> \<exists>l. binary_to_term R b = Some (enif_make_list l)" and R: "codes_lists R"
      using safe unfolding list_safe_def by blast
    obtain us ws where split: "map (binary_to_term R) xs = map (\<lambda>c. Some (list_op_term c)) us"
        "map (binary_to_term R) ys = map (\<lambda>c. Some (list_op_term c)) ws" "cs = us @ ws"
      using cs(1) by (rule map_append_eqE)
    have "us \<noteq> []"
      using split(1) ne by auto
    then have "case e of Some b \<Rightarrow> binary_to_term R b = Some (enif_make_list (list_of_value R e))
        | None \<Rightarrow> list_of_value R e = [] \<and> (\<exists>xs cs'. us = Append xs # cs' \<or> us = Subtract xs # cs')"
      using first split(3) by (cases e; cases us) (auto simp: list_of_value_def)
    then have full: "ErlangMerge_FullMergeV2 R e xs = encode_result R (enif_make_list (fold (apply_list_op (compare_eq R)) us (list_of_value R e)))"
      using list_merge_fold [of R xs us "list_of_value R e" e] split(1,3) cs(2) R by (simp add: codes_lists_def)
    obtain b where b: "term_to_binary R (enif_make_list (fold (apply_list_op (compare_eq R)) us (list_of_value R e))) = Some b"
        "binary_to_term R b = Some (enif_make_list (fold (apply_list_op (compare_eq R)) us (list_of_value R e)))"
      using R unfolding codes_lists_def by blast
    have "list_safe R (Some b) ys"
      unfolding list_safe_def using R split(2,3) cs(2) b(2) by auto
    then show ?thesis
      using full b by (auto simp: encode_result_def list_of_value_def fold_list_effect [OF split(1)])
  qed
qed (simp add: ErlangMerge_PartialMergeMulti_def)

section \<open>Posting lists\<close>

text \<open>
  Lists over a set of keys fit the format, and the term decoder rejects them (a posting list
  does not start with the version byte of the external term format).
\<close>

definition roomy :: "erts \<Rightarrow> 'bm roaring option \<Rightarrow> bytes set \<Rightarrow> bool" where
  "roomy R cfg K \<longleftrightarrow> (\<forall>keys. sorted_wrt (<) keys \<longrightarrow> set keys \<subseteq> K \<longrightarrow>
     v2_fits cfg HashKey keys \<and> length (v2_bitmap_bytes cfg HashKey keys) + 4 < 2 ^ 32 \<and>
     binary_to_term R (v2_image cfg HashKey keys) = None)"

text \<open>The keys some operand adds.\<close>

definition ever_added :: "erts \<Rightarrow> bytes list \<Rightarrow> bytes set" where
  "ever_added R ops = fst ` {w \<in> set (merge_log R ops). \<not> snd w}"

lemma merge_log_append [simp]: "merge_log R (xs @ ys) = merge_log R xs @ merge_log R ys"
  by (simp add: merge_log_def)

lemma merge_log_Cons: "merge_log R (x # xs) = operand_log R x @ merge_log R xs"
  by (simp add: merge_log_def)

lemma spec_merge_append: "spec_merge (ws @ vs) S = spec_merge vs (spec_merge ws S)"
  by (simp add: spec_merge_def)

lemma spec_merge_mono: "S \<subseteq> S' \<Longrightarrow> spec_merge ws S \<subseteq> spec_merge ws S'"
  by (auto simp: spec_merge_eq)

text \<open>Without deletions the result is a union.\<close>

lemma spec_merge_adds:
  assumes "\<forall>w \<in> set ws. \<not> snd w"
  shows "spec_merge ws S = S \<union> fst ` set ws"
  using assms
proof (induction ws arbitrary: S)
  case (Cons w ws)
  then have "spec_merge (w # ws) S = spec_merge ws (insert (fst w) S)"
    by (simp add: spec_merge_def spec_write_def)
  then show ?case
    using Cons by simp
qed (simp add: spec_merge_def)

lemma ever_added_adds: "\<forall>w \<in> set (merge_log R ops). \<not> snd w \<Longrightarrow> ever_added R ops = fst ` set (merge_log R ops)"
  by (auto simp: ever_added_def)

lemma ever_added_append [simp]: "ever_added R (xs @ ys) = ever_added R xs \<union> ever_added R ys"
  by (auto simp: ever_added_def)

lemma added_ever: "added (merge_log R ops) \<subseteq> ever_added R ops"
proof
  fix k assume "k \<in> added (merge_log R ops)"
  then have "(k, False) \<in> set (merge_log R ops)"
    by (auto simp: added_def dest: map_of_SomeD)
  then show "k \<in> ever_added R ops"
    by (force simp: ever_added_def)
qed

lemma spec_merge_within: "spec_merge (merge_log R ops) S \<subseteq> S \<union> ever_added R ops"
  using added_ever [of R ops] by (auto simp: spec_merge_eq)

lemma roomy_mono: "roomy R cfg K \<Longrightarrow> K' \<subseteq> K \<Longrightarrow> roomy R cfg K'"
  by (auto simp: roomy_def)

lemma roomyD:
  assumes "roomy R cfg K" "spec_merge (merge_log R ops) (posting_of_existing e) \<subseteq> K"
  shows "v2_fits cfg HashKey (merged_keys R e ops)" "binary_to_term R (v2_image cfg HashKey (merged_keys R e ops)) = None"
  using assms merged_keys_increasing [of R e ops] by (auto simp: roomy_def set_merged_keys)

lemma posting_full_merge:
  assumes "roomy R cfg (posting_of_existing e \<union> ever_added R xs)" "PostingList_FullMergeV2 R cfg e xs = Ok v"
  shows "posting_of v = spec_merge (merge_log R xs) (posting_of_existing e)"
  using assms(2) roomyD(1) [OF assms(1) spec_merge_within] by (auto simp: FullMergeV2_image posting_of_image set_merged_keys)

lemma posting_partial_merge:
  assumes "roomy R cfg (ever_added R seg)" "2 \<le> length seg" "PostingList_PartialMergeMulti R cfg seg = Ok p"
  shows "spec_merge (operand_log R p) S = S \<union> added (merge_log R seg)" "ever_added R [p] = added (merge_log R seg)"
proof -
  let ?keys = "merged_keys R None seg"
  have keys: "set ?keys = added (merge_log R seg)"
    by (simp add: set_merged_keys spec_merge_eq)
  have p: "p = v2_image cfg HashKey ?keys" "v2_fits cfg HashKey ?keys" "binary_to_term R p = None"
    using assms(3) roomyD [OF assms(1), of seg None] spec_merge_within [of R seg "{}"] by (auto simp: PartialMergeMulti_image [OF assms(2)])
  then have log: "operand_log R p = map (\<lambda>k. (k, False)) ?keys"
    by (simp add: operand_log_def ParseOperand_def posting_log_image)
  then show "spec_merge (operand_log R p) S = S \<union> added (merge_log R seg)"
    by (auto simp: spec_merge_eq added_def [of "map _ _"] deleted_def rev_map map_of_map_restrict restrict_map_def keys)
  show "ever_added R [p] = added (merge_log R seg)"
    by (force simp: ever_added_def merge_log_def log keys)
qed

lemma posting_run_between:
  "merge_run (PostingList_FullMergeV2 R cfg) (PostingList_PartialMergeMulti R cfg) e ops out \<Longrightarrow>
     roomy R cfg (posting_of_existing e \<union> ever_added R ops) \<Longrightarrow>
     spec_merge (merge_log R ops) (posting_of_existing e) \<subseteq> posting_of out \<and>
     posting_of out \<subseteq> posting_of_existing e \<union> ever_added R ops \<and>
     (ops \<noteq> [] \<longrightarrow> (\<exists>keys. sorted_wrt (<) keys \<and> out = v2_image cfg HashKey keys \<and>
        set keys \<subseteq> posting_of_existing e \<union> ever_added R ops))"
proof (induction rule: merge_run.induct)
  case (merged v)
  then show ?case
    by (simp add: merge_log_def spec_merge_def)
next
  case (full_merge xs e v ys out)
  have "roomy R cfg (posting_of_existing e \<union> ever_added R xs)"
    using full_merge.prems by (rule roomy_mono) auto
  then have v: "posting_of v = spec_merge (merge_log R xs) (posting_of_existing e)"
    using full_merge.hyps(2) by (rule posting_full_merge)
  then have within: "posting_of v \<subseteq> posting_of_existing e \<union> ever_added R xs"
    using spec_merge_within by simp
  then have "roomy R cfg (posting_of_existing (Some v) \<union> ever_added R ys)"
    using full_merge.prems by (intro roomy_mono [OF full_merge.prems]) auto
  note rest = full_merge.IH [OF this]
  have "v = v2_image cfg HashKey (merged_keys R e xs)" "set (merged_keys R e xs) \<subseteq> posting_of_existing e \<union> ever_added R xs"
    using full_merge.hyps(2) spec_merge_within by (auto simp: FullMergeV2_image set_merged_keys)
  then have "ys = [] \<longrightarrow> (\<exists>keys. sorted_wrt (<) keys \<and> out = v2_image cfg HashKey keys \<and>
      set keys \<subseteq> posting_of_existing e \<union> ever_added R xs)"
    using full_merge.hyps(3) merged_keys_increasing [of R e xs] by (auto simp: merge_run_Nil)
  moreover have "posting_of_existing (Some v) \<union> ever_added R ys \<subseteq> posting_of_existing e \<union> ever_added R (xs @ ys)"
    using within by auto
  moreover have "ever_added R ys = {}" if "ys = []"
    using that by (simp add: ever_added_def merge_log_def)
  ultimately show ?case
    using rest unfolding merge_log_append spec_merge_append posting_of_existing_Some v [symmetric] ever_added_append
    by (cases "ys = []") (blast intro: order_trans)+
next
  case (partial_merge seg p e xs ys out)
  have "roomy R cfg (ever_added R seg)"
    using partial_merge.prems by (rule roomy_mono) auto
  note p = posting_partial_merge [OF this partial_merge.hyps(1,2)]
  have less: "ever_added R (xs @ p # ys) \<subseteq> ever_added R (xs @ seg @ ys)"
    using ever_added_append [of R "[p]" ys] p(2) added_ever [of R seg] by auto
  then have "roomy R cfg (posting_of_existing e \<union> ever_added R (xs @ p # ys))"
    by (intro roomy_mono [OF partial_merge.prems]) auto
  moreover have "spec_merge (merge_log R (xs @ seg @ ys)) S \<subseteq> spec_merge (merge_log R (xs @ p # ys)) S" for S
    unfolding merge_log_append merge_log_Cons spec_merge_append p(1)
    by (intro spec_merge_mono) (auto simp: spec_merge_eq)
  ultimately show ?case
    using partial_merge.IH less by blast
qed

section \<open>Properties\<close>

text \<open>
  Claim C26. The counter is independent of the grouping: while no sum can leave the C \<open>int\<close>, whatever RocksDB
  merges first, and whether it combines operands before they reach the value, the counter
  read at the end is the value plus the sum of all operands.
\<close>

theorem counter_any_grouping:
  assumes "counter_safe e ops"
    and "merge_run (Associative_FullMergeV2 CounterMerge []) (Associative_PartialMergeMulti CounterMerge) e ops out"
  shows "counter_value out = counter_of e + (\<Sum>op\<leftarrow>ops. counter_value op)"
proof -
  have "fold (\<lambda>op. (+) (counter_value op)) ops n = n + (\<Sum>op\<leftarrow>ops. counter_value op)" for n
    by (induction ops arbitrary: n) auto
  then show ?thesis
    using counter.run_meaning [OF assms(2,1)] by (simp add: counter_of_def)
qed

text \<open>Ten, plus five, minus two and plus one: the last two operands are combined first.\<close>

theorem counter_any_grouping_witness:
  "\<exists>out. merge_run (Associative_FullMergeV2 CounterMerge []) (Associative_PartialMergeMulti CounterMerge)
     (Some [49, 48]) [[53], [45, 50], [49]] out \<and> counter_value out = 14"
proof -
  let ?run = "merge_run (Associative_FullMergeV2 CounterMerge []) (Associative_PartialMergeMulti CounterMerge)"
  have part: "Associative_PartialMergeMulti CounterMerge [[45, 50], [49]] = Ok [45, 49]"
    and full: "Associative_FullMergeV2 CounterMerge [] (Some [49, 48]) [[53], [45, 49]] = Ok [49, 52]"
    by code_simp+
  have "?run (Some [49, 48]) ([[53]] @ [45, 49] # []) [49, 52]"
    using full by (simp add: merge_run_once del: Associative_FullMergeV2.simps)
  then have run: "?run (Some [49, 48]) ([[53]] @ [[45, 50], [49]] @ []) [49, 52]"
    by (rule merge_run.partial_merge [of "[[45, 50], [49]]" "Associative_PartialMergeMulti CounterMerge" "[45, 49]", rotated 2])
      (simp_all add: part del: Associative_PartialMergeMulti.simps)
  have nums: "try_stoi [49, 48] = Ok 10" "try_stoi [53] = Ok 5" "try_stoi [45, 50] = Ok (- 2)" "try_stoi [49] = Ok 1"
    by code_simp+
  then have "counter_safe (Some [49, 48]) ([[53]] @ [[45, 50], [49]] @ [])"
    by (simp add: counter_safe_def is_counter_def counter_of_def counter_value_def)
  from counter_any_grouping [OF this run] run show ?thesis
    by (auto simp: counter_of_def counter_value_def nums)
qed

text \<open>
  The Erlang operator and the bitset operator combine no operands, and merging some operands
  first leaves the same value: the list, the integer or the set of bits read at the end is the
  one all operands give in order.
\<close>

theorem erlang_any_grouping:
  assumes "merge_run (ErlangMerge_FullMergeV2 R) (\<lambda>ops. case ErlangMerge_PartialMergeMulti ops of None \<Rightarrow> Failed | Some p \<Rightarrow> Ok p) e ops out"
  shows "list_safe R e ops \<Longrightarrow> list_of_value R (Some out) = fold (list_effect R) ops (list_of_value R e)"
    "int_safe R e ops \<Longrightarrow> int_of_value R (Some out) = fold (\<lambda>op n. n + the (added_int R op)) ops (int_of_value R e)"
  using lists.run_meaning [OF assms] ints.run_meaning [OF assms] by blast+

theorem bitset_any_grouping:
  assumes "bitset_safe cap e ops"
    and "merge_run (\<lambda>e ops. fst (Bitset_FullMergeV2 cap e ops))
      (\<lambda>ops. case Bitset_PartialMergeMulti ops of None \<Rightarrow> Failed | Some p \<Rightarrow> Ok p) e ops out"
  shows "bits_of out = fold bit_effect ops (bitset_of e)"
  using bitset.run_meaning [OF assms(2,1)] by (simp add: bitset_of_def)

text \<open>
  Claim C10. The posting list operator under every grouping: the keys read at the end contain those the
  operands give in order, and are keys of the value or keys some operand adds. So combining
  operands can only bring deleted keys back; when no operand deletes, every grouping gives
  the same set.
\<close>

theorem posting_any_grouping:
  assumes "merge_run (PostingList_FullMergeV2 R cfg) (PostingList_PartialMergeMulti R cfg) e ops out"
    and "roomy R cfg (posting_of_existing e \<union> ever_added R ops)"
  shows "spec_merge (merge_log R ops) (posting_of_existing e) \<subseteq> posting_of out \<and>
    posting_of out \<subseteq> posting_of_existing e \<union> ever_added R ops \<and>
    ((\<forall>w \<in> set (merge_log R ops). \<not> snd w) \<longrightarrow> posting_of out = posting_of_existing e \<union> ever_added R ops)"
  using posting_run_between [OF assms] spec_merge_adds ever_added_adds by (metis subset_antisym)

text \<open>Lists over two small keys, in the format of the concrete run-time system.\<close>

lemma demo_roomy: "\<forall>k \<in> K. length k < 2 ^ 32 \<Longrightarrow> finite K \<Longrightarrow> card K < 2 ^ 32 \<Longrightarrow> roomy demo_erts no_croaring K"
proof -
  assume K: "\<forall>k \<in> K. length k < 2 ^ 32" "finite K" "card K < 2 ^ 32"
  have "length keys < 2 ^ 32" if "sorted_wrt (<) keys" "set keys \<subseteq> K" for keys :: "bytes list"
    using K that distinct_card [of keys] card_mono [OF K(2) that(2)] by (simp add: strict_sorted_iff)
  moreover have "demo_decode (POSTING_LIST_V2 # bs) = None" for bs
    by (cases bs) (simp_all add: POSTING_LIST_V2_def)
  then have "binary_to_term demo_erts (v2_image no_croaring HashKey keys) = None" for keys
    by (simp add: demo_erts_def v2_image_def v2_header_eq)
  moreover have "length (v2_bitmap_bytes no_croaring HashKey keys) + 4 < 2 ^ 32" for keys
    by (simp add: v2_bitmap_bytes_def no_croaring_def)
  ultimately show ?thesis
    using K(1) by (auto simp: roomy_def)
qed

theorem posting_any_grouping_witness:
  "\<exists>out. merge_run (PostingList_FullMergeV2 demo_erts no_croaring) (PostingList_PartialMergeMulti demo_erts no_croaring)
      (Some [0,0,0,1,0,7]) [[131,1,7], [131,0,5]] out \<and> [5] \<in> posting_of out \<and> posting_of out \<subseteq> {[5], [7]}"
proof -
  let ?full = "PostingList_FullMergeV2 demo_erts no_croaring" and ?part = "PostingList_PartialMergeMulti demo_erts no_croaring"
  let ?e = "Some [0,0,0,1,0,7] :: bytes option" and ?ops = "[[131,1,7], [131,0,5]] :: bytes list"
  obtain p where p: "?part ?ops = Ok p"
    by (simp add: PostingList_PartialMergeMulti_def)
  obtain out where "?full ?e [p] = Ok out"
    by (simp add: PostingList_FullMergeV2_def)
  then have "merge_run ?full ?part ?e ([] @ p # []) out"
    by (simp add: merge_run_once)
  then have run: "merge_run ?full ?part ?e ([] @ ?ops @ []) out"
    by (rule merge_run.partial_merge [of ?ops ?part p, rotated 2]) (simp_all add: p)
  have log: "merge_log demo_erts ?ops = [([7], True), ([5], False)]" "posting_log [0,0,0,1,0,7] = [([7], False)]"
    by code_simp+
  then have sets: "ever_added demo_erts ?ops = {[5]}" "posting_of [0,0,0,1,0,7] = {[7]}"
    by (force simp: ever_added_def, auto simp: posting_of_def split: if_splits)
  have "roomy demo_erts no_croaring (posting_of_existing ?e \<union> ever_added demo_erts ([] @ ?ops @ []))"
    by (rule demo_roomy) (simp_all add: sets)
  from posting_any_grouping [OF run this] have "[5] \<in> posting_of out" "posting_of out \<subseteq> {[5], [7]}"
    by (auto simp: sets log spec_merge_def spec_write_def)
  with run show ?thesis
    by auto
qed

end
