(* ===== verification/Posting_Nif.thy ===== *)
theory Posting_Nif
  imports Posting_Merge
begin

text \<open>
  The posting-list NIFs of \<open>c_src/posting_list_nif.cc\<close>: a second copy of the key
  hash and of the parsers (into \<open>std::set\<close>), the binary search over a V2 value,
  the set operations, the bitmap lookups, and the parsed-list resource. A NIF
  takes its argument list \<open>argv\<close>, whose length is \<open>argc\<close>. Resources live in a
  store from handles to \<open>PostingListResource\<close> values.
\<close>

section \<open>Hash and version\<close>

definition nif_fmix64 :: "u64 \<Rightarrow> u64" where
  "nif_fmix64 k0 =
     (let k = k0 XOR drop_bit 33 k0;
          k = k * 0xff51afd7ed558ccd;
          k = k XOR drop_bit 33 k;
          k = k * 0xc4ceb9fe1a85ec53;
          k = k XOR drop_bit 33 k
      in k)"

fun hash_key_blocks :: "nat \<Rightarrow> bytes \<Rightarrow> u64 \<Rightarrow> u64" where
  "hash_key_blocks 0 data h = h"
| "hash_key_blocks (Suc n) data h =
     (let h = h XOR nif_fmix64 (load64 data);
          h = push_bit 27 h OR drop_bit 37 h;
          h = h * 5 + 0x52dce729
      in hash_key_blocks n (drop 8 data) h)"

definition hash_key :: "bytes \<Rightarrow> u64" where
  "hash_key key =
     (let len = length key;
          nblocks = len div 8;
          h = hash_key_blocks nblocks key 0x9e3779b97f4a7c15;
          tail = drop (nblocks * 8) key;
          h = (if tail = [] then h else h XOR nif_fmix64 (tail_bits tail))
      in nif_fmix64 (h XOR of_nat len))"

definition detect_version :: "bytes \<Rightarrow> byte" where
  "detect_version data =
     (if length data = 0 then POSTING_LIST_V1
      else if data ! 0 = POSTING_LIST_V2 then POSTING_LIST_V2
      else POSTING_LIST_V1)"

section \<open>Parsers\<close>

text \<open>The V1 loop into the map \<open>states\<close>, which three of the NIFs contain.\<close>

function v1_states :: "bytes \<Rightarrow> key_states \<Rightarrow> key_states" where
  "v1_states p states =
     (if length p < 5 then states
      else
        let len = rd32 p;
            is_tombstone = (drop 4 p ! 0 \<noteq> 0);
            q = drop 5 p
        in if length q < unat len then states
           else v1_states (drop (unat len) q) (smap_assign (take (unat len) q) is_tombstone states))"
  by pat_completeness auto
termination
  by (relation "measure (length \<circ> fst)") auto

declare v1_states.simps [simp del]

definition parse_posting_list_v1 :: "bytes \<Rightarrow> bytes list" where
  "parse_posting_list_v1 data =
     fold (\<lambda>(key, is_tombstone) result. if \<not> is_tombstone then sset_insert key result else result)
       (v1_states data []) []"

fun v2_insert_keys :: "nat \<Rightarrow> bytes \<Rightarrow> bytes list \<Rightarrow> bytes list" where
  "v2_insert_keys 0 p result = result"
| "v2_insert_keys (Suc n) p result =
     (if length p < 4 then result
      else
        let len = rd32 p; q = drop 4 p
        in if length q < unat len then result
           else v2_insert_keys n (drop (unat len) q) (sset_insert (take (unat len) q) result))"

definition parse_posting_list_v2 :: "bytes \<Rightarrow> bytes list" where
  "parse_posting_list_v2 data =
     (if length data < 1 then []
      else let p = drop 1 data in
      if length p < 4 then []
      else let bitmap_size = rd32 p; p = drop 4 p in
      if length p < unat bitmap_size then []
      else let p = drop (unat bitmap_size) p in
      if length p < 4 then []
      else let key_count = rd32 p; p = drop 4 p in
      v2_insert_keys (unat key_count) p [])"

definition parse_posting_list :: "bytes \<Rightarrow> bytes list" where
  "parse_posting_list data =
     (if detect_version data = POSTING_LIST_V2 then parse_posting_list_v2 data
      else parse_posting_list_v1 data)"

section \<open>Bitmaps and the writer\<close>

definition extract_bitmap_v2 :: "'bm roaring \<Rightarrow> bytes \<Rightarrow> 'bm option" where
  "extract_bitmap_v2 rb data =
     (if detect_version data \<noteq> POSTING_LIST_V2 then None
      else let p = drop 1 data in
      if length p < 4 then None
      else let bitmap_size = rd32 p; p = drop 4 p in
      if bitmap_size = 0 then None
      else if length p < unat bitmap_size then None
      else rb_deserialize_safe rb (take (unat bitmap_size) p))"

definition build_bitmap_from_keys :: "'bm roaring \<Rightarrow> bytes list \<Rightarrow> 'bm" where
  "build_bitmap_from_keys rb keys = fold (\<lambda>key b. rb_add rb b (hash_key key)) keys (rb_create rb)"

definition serialize_v2 :: "'bm roaring option \<Rightarrow> bytes list \<Rightarrow> bytes" where
  "serialize_v2 cfg keys =
     v2_header cfg hash_key keys @ put_be32 (of_nat (length keys)) @ concat (map v2_entry keys)"

section \<open>Binary search\<close>

text \<open>\<open>memcmp\<close> on two byte runs of the same length: the sign of the first difference.\<close>

fun memcmp :: "bytes \<Rightarrow> bytes \<Rightarrow> int" where
  "memcmp (x # xs) (y # ys) = (if x = y then memcmp xs ys else if x < y then -1 else 1)"
| "memcmp _ _ = 0"

definition compare_key :: "bytes \<Rightarrow> bytes \<Rightarrow> int" where
  "compare_key key search_key =
     (let cmp_len = (if length key < length search_key then length key else length search_key);
          cmp = memcmp (take cmp_len key) (take cmp_len search_key)
      in if cmp = 0 then
           if length key < length search_key then -1
           else if length key > length search_key then 1
           else cmp
         else cmp)"

function bsearch_loop :: "bytes list \<Rightarrow> bytes \<Rightarrow> nat \<Rightarrow> nat \<Rightarrow> bool" where
  "bsearch_loop key_offsets search_key lo hi =
     (if lo < hi then
        let mid = lo + (hi - lo) div 2;
            cmp = compare_key (key_offsets ! mid) search_key
        in if cmp = 0 then True
           else if cmp < 0 then bsearch_loop key_offsets search_key (mid + 1) hi
           else bsearch_loop key_offsets search_key lo mid
      else False)"
  by pat_completeness auto
termination
  by (relation "measure (\<lambda>(ks, k, lo, hi). hi - lo)") auto

declare bsearch_loop.simps [simp del]

fun scan_key_offsets :: "nat \<Rightarrow> bytes \<Rightarrow> bytes list" where
  "scan_key_offsets 0 p = []"
| "scan_key_offsets (Suc n) p =
     (if length p < 4 then []
      else
        let len = rd32 p; q = drop 4 p
        in if length q < unat len then []
           else take (unat len) q # scan_key_offsets n (drop (unat len) q))"

text \<open>
  The skip \<open>ptr += 4 + bitmap_size\<close> is a 32-bit sum. The call \<open>key_offsets.reserve(key_count)\<close>, made
  before any key is read and with the count the binary claims, is taken to find the memory (16
  bytes for each claimed key, so up to 64 GiB on a corrupt binary, where it may throw).
\<close>

definition binary_search_v2_keys :: "bytes \<Rightarrow> bytes \<Rightarrow> bool" where
  "binary_search_v2_keys data search_key =
     (if data = [] \<or> data ! 0 \<noteq> POSTING_LIST_V2 then False
      else let p = drop 1 data in
      if length p < 4 then False
      else let bitmap_size = rd32 p; p = drop (unat (4 + bitmap_size)) p in
      if length p < 4 then False
      else let key_count = rd32 p; p = drop 4 p in
      if key_count = 0 then False
      else let key_offsets = scan_key_offsets (unat key_count) p in
      bsearch_loop key_offsets search_key 0 (length key_offsets))"

section \<open>NIFs on values\<close>

definition with_bin1 :: "eterm list \<Rightarrow> (bytes \<Rightarrow> nif_result) \<Rightarrow> nif_result" where
  "with_bin1 argv f =
     (case argv of
        [a] \<Rightarrow> (case enif_inspect_binary a of None \<Rightarrow> Failed | Some bin \<Rightarrow> f bin)
      | _ \<Rightarrow> Failed)"

definition with_bin2 :: "eterm list \<Rightarrow> (bytes \<Rightarrow> bytes \<Rightarrow> nif_result) \<Rightarrow> nif_result" where
  "with_bin2 argv f =
     (case argv of
        [a, b] \<Rightarrow>
          (case (enif_inspect_binary a, enif_inspect_binary b) of
             (Some bin1, Some bin2) \<Rightarrow> f bin1 bin2
           | _ \<Rightarrow> Failed)
      | _ \<Rightarrow> Failed)"

text \<open>The list-building loop, which visits the keys from the last to the first.\<close>

fun cons_keys :: "erts \<Rightarrow> bytes list \<Rightarrow> eterm \<Rightarrow> nif_result" where
  "cons_keys R [] list = Ok list"
| "cons_keys R (key # keys) list =
     bind_outcome (make_binary R key) (\<lambda>key_bin. cons_keys R keys (ECons key_bin list))"

definition PostingListKeys :: "erts \<Rightarrow> eterm list \<Rightarrow> nif_result" where
  "PostingListKeys R argv =
     with_bin1 argv (\<lambda>bin. cons_keys R (rev (parse_posting_list bin)) ENil)"

definition PostingListContains :: "eterm list \<Rightarrow> nif_result" where
  "PostingListContains argv =
     with_bin2 argv (\<lambda>bin search_key.
       if detect_version bin = POSTING_LIST_V2 then
         if binary_search_v2_keys bin search_key then Ok (EAtom ''true'') else Ok (EAtom ''false'')
       else if 0 < sset_count (parse_posting_list_v1 bin) search_key then Ok (EAtom ''true'')
       else Ok (EAtom ''false''))"

definition PostingListFind :: "eterm list \<Rightarrow> nif_result" where
  "PostingListFind argv =
     with_bin2 argv (\<lambda>bin key_str.
       if detect_version bin = POSTING_LIST_V2 then
         if 0 < sset_count (parse_posting_list_v2 bin) key_str
         then Ok (ETuple [EAtom ''ok'', EAtom ''false''])
         else Ok (EAtom ''not_found'')
       else
         case map_of (v1_states bin []) key_str of
           None \<Rightarrow> Ok (EAtom ''not_found'')
         | Some is_tombstone \<Rightarrow>
             Ok (ETuple [EAtom ''ok'', if is_tombstone then EAtom ''true'' else EAtom ''false'']))"

definition PostingListCount :: "eterm list \<Rightarrow> nif_result" where
  "PostingListCount argv = with_bin1 argv (\<lambda>bin. Ok (EInt (int (length (parse_posting_list bin)))))"

fun put_entries :: "erts \<Rightarrow> (bytes \<times> eterm) list \<Rightarrow> (eterm \<times> eterm) list \<Rightarrow> nif_result" where
  "put_entries R [] m = Ok (EMap m)"
| "put_entries R ((key, value) # es) m =
     bind_outcome (make_binary R key) (\<lambda>key_bin. put_entries R es (m @ [(key_bin, value)]))"

definition PostingListToMap :: "erts \<Rightarrow> eterm list \<Rightarrow> nif_result" where
  "PostingListToMap R argv =
     with_bin1 argv (\<lambda>bin.
       if detect_version bin = POSTING_LIST_V2 then
         put_entries R (map (\<lambda>key. (key, EAtom ''active'')) (parse_posting_list_v2 bin)) []
       else
         put_entries R
           (map (\<lambda>(key, is_tombstone). (key, EAtom (if is_tombstone then ''tombstone'' else ''active'')))
             (v1_states bin [])) [])"

definition PostingListVersion :: "eterm list \<Rightarrow> nif_result" where
  "PostingListVersion argv = with_bin1 argv (\<lambda>bin. Ok (EInt (uint (detect_version bin))))"

definition PostingListIntersection :: "erts \<Rightarrow> 'bm roaring option \<Rightarrow> eterm list \<Rightarrow> nif_result" where
  "PostingListIntersection R cfg argv =
     with_bin2 argv (\<lambda>bin1 bin2.
       let keys1 = parse_posting_list bin1;
           keys2 = parse_posting_list bin2;
           result = fold (\<lambda>key s. if 0 < sset_count keys2 key then sset_insert key s else s) keys1 []
       in make_binary R (serialize_v2 cfg result))"

definition PostingListUnion :: "erts \<Rightarrow> 'bm roaring option \<Rightarrow> eterm list \<Rightarrow> nif_result" where
  "PostingListUnion R cfg argv =
     with_bin2 argv (\<lambda>bin1 bin2.
       let keys1 = parse_posting_list bin1;
           keys2 = parse_posting_list bin2;
           result = fold sset_insert keys2 keys1
       in make_binary R (serialize_v2 cfg result))"

definition PostingListDifference :: "erts \<Rightarrow> 'bm roaring option \<Rightarrow> eterm list \<Rightarrow> nif_result" where
  "PostingListDifference R cfg argv =
     with_bin2 argv (\<lambda>bin1 bin2.
       let keys1 = parse_posting_list bin1;
           keys2 = parse_posting_list bin2;
           result = fold (\<lambda>key s. if sset_count keys2 key = 0 then sset_insert key s else s) keys1 []
       in make_binary R (serialize_v2 cfg result))"

definition exact_intersection_count :: "bytes \<Rightarrow> bytes \<Rightarrow> nat" where
  "exact_intersection_count bin1 bin2 =
     fold (\<lambda>key count. if 0 < sset_count (parse_posting_list bin2) key then count + 1 else count)
       (parse_posting_list bin1) 0"

definition PostingListIntersectionCount :: "'bm roaring option \<Rightarrow> eterm list \<Rightarrow> nif_result" where
  "PostingListIntersectionCount cfg argv =
     with_bin2 argv (\<lambda>bin1 bin2.
       let exact = Ok (EInt (int (exact_intersection_count bin1 bin2)))
       in case cfg of
            None \<Rightarrow> exact
          | Some rb \<Rightarrow>
              if detect_version bin1 = POSTING_LIST_V2 \<and> detect_version bin2 = POSTING_LIST_V2 then
                (case (extract_bitmap_v2 rb bin1, extract_bitmap_v2 rb bin2) of
                   (Some bitmap1, Some bitmap2) \<Rightarrow>
                     Ok (EInt (int (rb_and_cardinality rb bitmap1 bitmap2)))
                 | _ \<Rightarrow> exact)
              else exact)"

definition PostingListBitmapContains :: "'bm roaring option \<Rightarrow> eterm list \<Rightarrow> nif_result" where
  "PostingListBitmapContains cfg argv =
     with_bin2 argv (\<lambda>bin search_key.
       let exact = Ok (e_bool (0 < sset_count (parse_posting_list bin) search_key))
       in case cfg of
            None \<Rightarrow> exact
          | Some rb \<Rightarrow>
              if detect_version bin = POSTING_LIST_V2 then
                (case extract_bitmap_v2 rb bin of
                   Some bitmap \<Rightarrow> Ok (e_bool (rb_contains rb bitmap (hash_key search_key)))
                 | None \<Rightarrow> exact)
              else exact)"

section \<open>The parsed-list resource\<close>

record 'bm PostingListResource =
  pl_keys :: "bytes list"
  pl_sorted_keys :: "bytes list"
  pl_bitmap :: "'bm option"

type_synonym 'bm postings = "nat \<rightharpoonup> 'bm PostingListResource"

fun get_postings :: "'bm postings \<Rightarrow> eterm \<Rightarrow> 'bm PostingListResource option" where
  "get_postings st (ERef n) = st n"
| "get_postings st _ = None"

text \<open>
  \<open>alloc\<close> is the handle \<open>enif_alloc_resource\<close> gives, or \<open>None\<close> when it fails. The
  NIF returns its result and the store.
\<close>

definition PostingsOpen ::
    "'bm roaring option \<Rightarrow> nat option \<Rightarrow> 'bm postings \<Rightarrow> eterm list \<Rightarrow> nif_result \<times> 'bm postings" where
  "PostingsOpen cfg alloc st argv =
     (case argv of
        [a] \<Rightarrow>
          (case enif_inspect_binary a of
             None \<Rightarrow> (Failed, st)
           | Some bin \<Rightarrow>
               (case alloc of
                  None \<Rightarrow> (Ok (ETuple [EAtom ''error'', EAtom ''alloc_failed'']), st)
                | Some n \<Rightarrow>
                    let keys = parse_posting_list bin;
                        sorted_keys = fold (\<lambda>key v. v @ [key]) keys [];
                        bitmap =
                          (case cfg of
                             None \<Rightarrow> None
                           | Some rb \<Rightarrow>
                               (case (if detect_version bin = POSTING_LIST_V2
                                      then extract_bitmap_v2 rb bin else None) of
                                  Some b \<Rightarrow> Some b
                                | None \<Rightarrow> Some (build_bitmap_from_keys rb keys)))
                    in (Ok (ETuple [EAtom ''ok'', ERef n]),
                        st(n \<mapsto> \<lparr>pl_keys = keys, pl_sorted_keys = sorted_keys, pl_bitmap = bitmap\<rparr>))))
      | _ \<Rightarrow> (Failed, st))"

definition with_postings ::
    "'bm postings \<Rightarrow> eterm \<Rightarrow> ('bm PostingListResource \<Rightarrow> nif_result) \<Rightarrow> nif_result" where
  "with_postings st a f = (case get_postings st a of None \<Rightarrow> Failed | Some res \<Rightarrow> f res)"

definition PostingsContains :: "'bm postings \<Rightarrow> eterm list \<Rightarrow> nif_result" where
  "PostingsContains st argv =
     (case argv of
        [a, b] \<Rightarrow>
          with_postings st a (\<lambda>res.
            case enif_inspect_binary b of
              None \<Rightarrow> Failed
            | Some search_key \<Rightarrow>
                if 0 < sset_count (pl_keys res) search_key then Ok (EAtom ''true'') else Ok (EAtom ''false''))
      | _ \<Rightarrow> Failed)"

definition PostingsBitmapContains ::
    "'bm roaring option \<Rightarrow> 'bm postings \<Rightarrow> eterm list \<Rightarrow> nif_result" where
  "PostingsBitmapContains cfg st argv =
     (case argv of
        [a, b] \<Rightarrow>
          with_postings st a (\<lambda>res.
            case enif_inspect_binary b of
              None \<Rightarrow> Failed
            | Some search_key \<Rightarrow>
                let exact = Ok (e_bool (0 < sset_count (pl_keys res) search_key))
                in (case cfg of
                      None \<Rightarrow> exact
                    | Some rb \<Rightarrow>
                        (case pl_bitmap res of
                           Some bitmap \<Rightarrow> Ok (e_bool (rb_contains rb bitmap (hash_key search_key)))
                         | None \<Rightarrow> exact)))
      | _ \<Rightarrow> Failed)"

definition PostingsCount :: "'bm postings \<Rightarrow> eterm list \<Rightarrow> nif_result" where
  "PostingsCount st argv =
     (case argv of
        [a] \<Rightarrow> with_postings st a (\<lambda>res. Ok (EInt (int (length (pl_keys res)))))
      | _ \<Rightarrow> Failed)"

definition PostingsKeys :: "erts \<Rightarrow> 'bm postings \<Rightarrow> eterm list \<Rightarrow> nif_result" where
  "PostingsKeys R st argv =
     (case argv of
        [a] \<Rightarrow> with_postings st a (\<lambda>res. cons_keys R (rev (pl_keys res)) ENil)
      | _ \<Rightarrow> Failed)"

definition PostingsToBinary ::
    "erts \<Rightarrow> 'bm roaring option \<Rightarrow> 'bm postings \<Rightarrow> eterm list \<Rightarrow> nif_result" where
  "PostingsToBinary R cfg st argv =
     (case argv of
        [a] \<Rightarrow> with_postings st a (\<lambda>res. make_binary R (serialize_v2 cfg (pl_keys res)))
      | _ \<Rightarrow> Failed)"

section \<open>The two copies agree\<close>

lemma nif_fmix64_eq: "nif_fmix64 = fmix64"
  by (simp add: fun_eq_iff nif_fmix64_def fmix64_def)

lemma hash_key_blocks_eq: "hash_key_blocks n data h = HashKey_blocks n data h"
  by (induction n data h rule: hash_key_blocks.induct) (simp_all add: nif_fmix64_eq)

lemma hash_key_eq: "hash_key = HashKey"
  by (simp add: fun_eq_iff hash_key_def HashKey_def hash_key_blocks_eq nif_fmix64_eq Let_def)

lemma detect_version_eq: "detect_version = DetectVersion"
  by (simp add: fun_eq_iff detect_version_def DetectVersion_def)

lemma v1_states_eq: "v1_states p states = ParseV1Value p states"
proof (induction p states rule: v1_states.induct)
  case (1 p states)
  then show ?case
    by (auto simp: v1_states.simps [of p] ParseV1Value.simps [of p] Let_def)
qed

lemma v2_insert_keys_eq: "v2_insert_keys n p result = fold sset_insert (v2_keys_log n p) result"
  by (induction n p result rule: v2_insert_keys.induct) (simp_all add: Let_def)

lemma parse_posting_list_v2_eq: "parse_posting_list_v2 data = fold sset_insert (v2_keys data) []"
  by (auto simp: parse_posting_list_v2_def v2_keys_def v2_key_section_def v2_insert_keys_eq Let_def
      add.commute)

lemma fold_insert_if:
  "fold (\<lambda>x s. if P x then sset_insert x s else s) xs s = fold sset_insert (filter P xs) s"
  by (induction xs arbitrary: s) auto

lemma parse_posting_list_v1_eq: "parse_posting_list_v1 data = fold sset_insert (active_keys (ParseV1Value data [])) []"
proof -
  have "fold (\<lambda>(key, t) s. if \<not> t then sset_insert key s else s) es s = fold sset_insert (active_keys es) s"
    for es :: key_states and s
    by (induction es arbitrary: s) (auto simp: active_keys_def)
  then show ?thesis
    by (simp add: parse_posting_list_v1_def v1_states_eq)
qed

lemma serialize_v2_image: "serialize_v2 cfg keys = v2_image cfg HashKey keys"
  by (simp add: serialize_v2_def v2_image_def hash_key_eq)

section \<open>Parsing gives the abstract set\<close>

lemma parse_posting_list_increasing: "sorted_wrt (<) (parse_posting_list data)"
  unfolding parse_posting_list_def parse_posting_list_v1_eq parse_posting_list_v2_eq
  by (simp add: sset_insert_all_increasing)

lemma set_parse_posting_list: "set (parse_posting_list data) = posting_of data"
proof (cases "DetectVersion data = POSTING_LIST_V2")
  case True
  then show ?thesis
    by (auto simp: set_sset_insert_all parse_posting_list_def detect_version_eq parse_posting_list_v2_eq posting_of_def
        posting_log_def rev_map map_of_map_restrict restrict_map_def)
next
  case False
  have "set (active_keys (ParseV1Value data [])) = posting_of data"
    using False by (simp add: set_active_keys v1.step_invar smap.invar_empty v1.step_find
        posting_of_def posting_log_def)
  then show ?thesis
    using False by (simp add: set_sset_insert_all parse_posting_list_def detect_version_eq parse_posting_list_v1_eq)
qed

lemma parse_posting_list_unique:
  "sorted_wrt (<) keys \<Longrightarrow> set keys = posting_of data \<Longrightarrow> parse_posting_list data = keys"
  by (rule sorted_wrt_less_unique [OF parse_posting_list_increasing]) (simp_all add: set_parse_posting_list)

lemma length_parse_posting_list: "length (parse_posting_list data) = card (posting_of data)"
  by (metis distinct_card parse_posting_list_increasing set_parse_posting_list sorted_wrt_less_distinct)

section \<open>Binary search\<close>

lemma memcmp_sign:
  "length xs = length ys \<Longrightarrow>
     (memcmp xs ys = 0 \<longleftrightarrow> xs = ys) \<and> (memcmp xs ys < 0 \<longleftrightarrow> xs < ys)"
  by (induction xs ys rule: list_induct2) auto

lemma less_list_append_iff:
  fixes xs ys :: bytes
  assumes "length xs = length ys"
  shows "xs @ us < ys @ vs \<longleftrightarrow> xs < ys \<or> xs = ys \<and> us < vs"
  using assms by (induction xs ys rule: list_induct2) auto

lemma compare_key_sign:
  "(compare_key a b = 0 \<longleftrightarrow> a = b) \<and> (compare_key a b < 0 \<longleftrightarrow> a < b)"
proof -
  define m where "m = (if length a < length b then length a else length b)"
  have m: "m \<le> length a" "m \<le> length b" "m = length a \<or> m = length b"
    by (auto simp: m_def)
  have len: "length (take m a) = length (take m b)"
    using m by simp
  note prefix = memcmp_sign [OF len]
  note split = less_list_append_iff [OF len, of "drop m a" "drop m b", unfolded append_take_drop_id]
  show ?thesis
  proof (cases "take m a = take m b")
    case True
    then have lt: "a < b \<longleftrightarrow> drop m a < drop m b"
      using split by simp
    consider "length a < length b" | "length a = length b" | "length b < length a"
      by linarith
    then have "a < b \<longleftrightarrow> length a < length b" "a = b \<longleftrightarrow> length a = length b"
      using True lt by (cases; auto simp: m_def neq_Nil_conv drop_eq_Nil less_le_not_le)+
    with True prefix show ?thesis
      unfolding compare_key_def m_def [symmetric] Let_def by auto
  next
    case False
    then have "a < b \<longleftrightarrow> take m a < take m b" "a \<noteq> b"
      using split by auto
    with False prefix show ?thesis
      unfolding compare_key_def m_def [symmetric] Let_def by auto
  qed
qed

lemma bsearch_loop_iff:
  assumes "sorted_wrt (<) ks" "hi \<le> length ks"
  shows "bsearch_loop ks k lo hi \<longleftrightarrow> (\<exists>i. lo \<le> i \<and> i < hi \<and> ks ! i = k)"
  using assms
proof (induction ks k lo hi rule: bsearch_loop.induct)
  case (1 ks k lo hi)
  show ?case
  proof (cases "lo < hi")
    case True
    define mid where "mid = lo + (hi - lo) div 2"
    have mid: "lo \<le> mid" "mid < hi"
      using True by (auto simp: mid_def)
    have lt: "ks ! i < ks ! j" if "i < j" "j < hi" for i j
      using that "1.prems" by (auto intro: sorted_wrt_nth_less)
    note cmp = compare_key_sign [of "ks ! mid" k]
    consider "ks ! mid = k" | "ks ! mid < k" | "k < ks ! mid"
      by (meson linorder_cases)
    then show ?thesis
    proof cases
      case 1
      then show ?thesis
        using True mid cmp by (auto simp: bsearch_loop.simps [of ks k lo hi] Let_def simp flip: mid_def)
    next
      case 2
      have "bsearch_loop ks k lo hi = bsearch_loop ks k (mid + 1) hi"
        using True 2 cmp by (auto simp: bsearch_loop.simps [of ks k lo hi] Let_def simp flip: mid_def)
      also have "\<dots> \<longleftrightarrow> (\<exists>i. mid + 1 \<le> i \<and> i < hi \<and> ks ! i = k)"
        using "1.IH"(1) [OF True mid_def refl] cmp 2 "1.prems" by auto
      also have "\<dots> \<longleftrightarrow> (\<exists>i. lo \<le> i \<and> i < hi \<and> ks ! i = k)"
        using mid 2 lt by (metis Suc_eq_plus1 not_less_eq_eq linorder_not_le le_trans
            less_imp_le_nat nat_less_le order.asym)
      finally show ?thesis .
    next
      case 3
      have "bsearch_loop ks k lo hi = bsearch_loop ks k lo mid"
        using True 3 cmp by (auto simp: bsearch_loop.simps [of ks k lo hi] Let_def simp flip: mid_def)
      also have "\<dots> \<longleftrightarrow> (\<exists>i. lo \<le> i \<and> i < mid \<and> ks ! i = k)"
        using "1.IH"(2) [OF True mid_def refl] cmp 3 "1.prems" mid by auto
      also have "\<dots> \<longleftrightarrow> (\<exists>i. lo \<le> i \<and> i < hi \<and> ks ! i = k)"
        using mid 3 lt by (metis linorder_not_le nat_less_le order.asym order.strict_trans)
      finally show ?thesis .
    qed
  qed (simp add: bsearch_loop.simps [of ks k lo hi])
qed

lemma scan_key_offsets_eq: "scan_key_offsets n p = v2_keys_log n p"
  by (induction n p rule: scan_key_offsets.induct) (simp_all add: Let_def)

text \<open>The bitmap size field of a V2 value, which the skip in the binary search adds to in 32 bits.\<close>

definition v2_bitmap_size :: "bytes \<Rightarrow> nat" where
  "v2_bitmap_size data = unat (rd32 (drop 1 data))"

lemma binary_search_v2_keys_iff:
  assumes "DetectVersion data = POSTING_LIST_V2" "sorted_wrt (<) (v2_keys data)"
    and "v2_bitmap_size data + 4 < 2 ^ 32"
  shows "binary_search_v2_keys data k \<longleftrightarrow> k \<in> set (v2_keys data)"
proof -
  let ?p = "drop 1 data"
  have skip: "unat (4 + rd32 ?p) = 4 + unat (rd32 ?p)"
    using assms(3) by (simp add: v2_bitmap_size_def unat_word_ariths)
  have ne: "data \<noteq> []" "data ! 0 = POSTING_LIST_V2"
    using assms(1) by (auto simp: DetectVersion_def split: if_splits)
  show ?thesis
  proof (cases "v2_key_section data")
    case None
    then show ?thesis
      using ne skip
      by (auto simp: binary_search_v2_keys_def v2_keys_def v2_key_section_def Let_def add.commute split: if_splits)
  next
    case (Some np)
    then obtain n p where np: "np = (n, p)" by (cases np)
    have "binary_search_v2_keys data k = bsearch_loop (v2_keys data) k 0 (length (v2_keys data))"
      using Some ne skip np
      by (auto simp: binary_search_v2_keys_def v2_keys_def v2_key_section_def scan_key_offsets_eq Let_def
          add.commute bsearch_loop.simps [of "[]"] split: if_splits)
    then show ?thesis
      using bsearch_loop_iff [OF assms(2), of "length (v2_keys data)" k 0]
      by (auto simp: in_set_conv_nth)
  qed
qed

end
