(* ===== verification/Posting_Props.thy ===== *)
theory Posting_Props
  imports Posting_Nif
begin

text \<open>
  Correctness of the posting-list NIFs: lookups, enumeration, the set operations,
  the bitmap shortcuts and the parsed-list resource, all stated against the set
  \<open>posting_of\<close> a value stands for, and the agreement of the NIFs with what the merge
  operator writes. A sorted-list implementation of the CRoaring interface shows that
  the hypotheses on it can hold.
\<close>

section \<open>Bitmaps of written values\<close>

lemma rb_set_add_all:
  assumes "roaring_ok rb"
  shows "rb_set rb (fold (\<lambda>key b. rb_add rb b (hash key)) keys b) = rb_set rb b \<union> hash ` set keys"
  using assms by (induction keys arbitrary: b) (auto simp: roaring_ok_def)

lemma extract_bitmap_image:
  assumes ok: "roaring_ok rb" and fits: "v2_fits (Some rb) HashKey keys"
  shows "\<exists>b. extract_bitmap_v2 rb (v2_image (Some rb) HashKey keys) = Some b \<and>
             rb_set rb b = HashKey ` set keys"
proof -
  let ?bm = "fold (\<lambda>key b. rb_add rb b (HashKey key)) keys (rb_create rb)"
  let ?data = "rb_serialize rb ?bm"
  have "?data \<noteq> []"
    using ok by (simp add: roaring_ok_def)
  moreover have len: "length ?data < 2 ^ 32"
    using fits by (simp add: v2_fits_def v2_bitmap_bytes_def)
  ultimately have "(of_nat (length ?data) :: u32) \<noteq> 0"
    by (metis length_0_conv unat_0 unat_of_nat_u32)
  moreover have "\<exists>b. rb_deserialize_safe rb ?data = Some b \<and> rb_set rb b = rb_set rb ?bm"
    using ok by (simp add: roaring_ok_def)
  moreover have "rb_set rb ?bm = HashKey ` set keys"
    using ok by (simp add: rb_set_add_all) (simp add: roaring_ok_def)
  ultimately show ?thesis
    using len
    by (simp add: extract_bitmap_v2_def detect_version_eq)
       (simp add: v2_image_def v2_header_eq v2_bitmap_bytes_def)
qed

lemma cons_keys_ok:
  assumes "\<forall>n. new_binary_ok R n"
  shows "cons_keys R ks (enif_make_list ts) = Ok (enif_make_list (map EBin (rev ks) @ ts))"
  using assms
proof (induction ks arbitrary: ts)
  case (Cons k ks)
  have "ECons (EBin k) (enif_make_list ts) = enif_make_list (EBin k # ts)"
    by (simp add: enif_make_list_def)
  then show ?case
    using Cons.IH [of "EBin k # ts"] assms by (simp add: make_binary_def)
qed simp

section \<open>Lookups\<close>

lemma contains_v2:
  assumes "DetectVersion data = POSTING_LIST_V2" "sorted_wrt (<) (v2_keys data)"
    and "v2_bitmap_size data + 4 < 2 ^ 32"
  shows "PostingListContains [EBin data, EBin k] = Ok (e_bool (k \<in> posting_of data))"
proof -
  have "binary_search_v2_keys data k \<longleftrightarrow> k \<in> posting_of data"
    using assms(1) binary_search_v2_keys_iff [OF assms]
    by (simp add: posting_of_def posting_log_def rev_map map_of_map_restrict restrict_map_def)
  with assms(1) show ?thesis
    by (simp add: PostingListContains_def with_bin2_def detect_version_eq e_bool_def)
qed

lemma contains_v1:
  assumes "DetectVersion data \<noteq> POSTING_LIST_V2"
  shows "PostingListContains [EBin data, EBin k] = Ok (e_bool (k \<in> posting_of data))"
proof -
  have "set (parse_posting_list_v1 data) = posting_of data"
    using assms set_parse_posting_list [of data] by (simp add: parse_posting_list_def detect_version_eq)
  with assms show ?thesis
    by (simp add: PostingListContains_def with_bin2_def detect_version_eq e_bool_def)
qed

text \<open>
  Claim C12. \<open>posting_list_contains\<close> answers membership in the set the value stands
  for. On a V2 value this is the binary search, which needs the stored keys to be
  strictly increasing and the bitmap size to leave room for the 32-bit skip; on a V1
  value it needs nothing.
\<close>

theorem contains_decides_membership:
  assumes "DetectVersion data = POSTING_LIST_V2 \<longrightarrow>
             sorted_wrt (<) (v2_keys data) \<and> v2_bitmap_size data + 4 < 2 ^ 32"
  shows "PostingListContains [EBin data, EBin k] = Ok (e_bool (k \<in> posting_of data))"
  using assms contains_v1 contains_v2 by blast

theorem contains_decides_membership_witness:
  "PostingListContains [EBin [2,0,0,0,0, 0,0,0,2, 0,0,0,1,5, 0,0,0,1,7], EBin [7]] =
     Ok (e_bool ([7] \<in> posting_of [2,0,0,0,0, 0,0,0,2, 0,0,0,1,5, 0,0,0,1,7]))"
proof -
  let ?d = "[2,0,0,0,0, 0,0,0,2, 0,0,0,1,5, 0,0,0,1,7] :: bytes"
  have keys: "v2_keys ?d = [[5], [7]]" and "rd32 (drop 1 ?d) = 0"
    by code_simp+
  then have "v2_bitmap_size ?d + 4 < 2 ^ 32" "sorted_wrt (<) (v2_keys ?d)"
    by (simp_all add: v2_bitmap_size_def)
  then show ?thesis
    using contains_decides_membership [of ?d "[7]"] by blast
qed

text \<open>
  Looking a key up in the value \<open>FullMergeV2\<close> wrote gives exactly the
  abstract merge: the binary search of the NIF and the merge operator agree on the
  format.
\<close>

theorem contains_after_full_merge:
  assumes "v2_fits cfg HashKey (merged_keys R existing ops)"
    and "length (v2_bitmap_bytes cfg HashKey (merged_keys R existing ops)) + 4 < 2 ^ 32"
  shows "\<exists>out. PostingList_FullMergeV2 R cfg existing ops = Ok out \<and>
           PostingListContains [EBin out, EBin k] =
             Ok (e_bool (k \<in> spec_merge (merge_log R ops) (posting_of_existing existing)))"
proof -
  let ?keys = "merged_keys R existing ops"
  let ?out = "v2_image cfg HashKey ?keys"
  have "v2_bitmap_size ?out = length (v2_bitmap_bytes cfg HashKey ?keys)"
    using assms(1) by (simp add: v2_bitmap_size_def v2_image_def v2_header_eq v2_fits_def)
  then have "PostingListContains [EBin ?out, EBin k] = Ok (e_bool (k \<in> posting_of ?out))"
    using assms by (intro contains_v2) (simp_all add: v2_keys_image merged_keys_increasing)
  then show ?thesis
    using assms(1) by (simp add: FullMergeV2_image posting_of_image set_merged_keys)
qed


theorem contains_after_full_merge_witness:
  "\<exists>out. PostingList_FullMergeV2 demo_erts no_croaring None [[131,0,5], [131,0,6]] = Ok out \<and>
     PostingListContains [EBin out, EBin [6]] =
       Ok (e_bool ([6] \<in> spec_merge (merge_log demo_erts [[131,0,5], [131,0,6]]) (posting_of_existing None)))"
proof -
  have "merged_keys demo_erts None [[131,0,5], [131,0,6]] = [[5], [6]]"
    by code_simp
  then have "v2_fits no_croaring HashKey (merged_keys demo_erts None [[131,0,5], [131,0,6]])"
    by simp
  moreover have "length (v2_bitmap_bytes no_croaring HashKey (merged_keys demo_erts None [[131,0,5], [131,0,6]])) + 4 < 2 ^ 32"
    by (simp add: v2_bitmap_bytes_def no_croaring_def)
  ultimately show ?thesis
    by (rule contains_after_full_merge)
qed

section \<open>Enumeration\<close>

lemma finite_posting_of [simp]: "finite (posting_of data)"
  by (metis List.finite_set set_parse_posting_list)

lemma parse_eq_sorted_list: "parse_posting_list data = sorted_list_of_set (posting_of data)"
  by (rule parse_posting_list_unique) simp_all

text \<open>
  Claim C13. \<open>posting_list_keys\<close> returns the keys of the list in increasing order
  without repetition, \<open>posting_list_count\<close> their number, and
  \<open>posting_list_find\<close> says \<open>{ok, false}\<close> exactly for the keys of the list.
\<close>

theorem enumeration_of_posting:
  assumes "\<forall>n. new_binary_ok R n"
  shows "PostingListKeys R [EBin data] = Ok (enif_make_list (map EBin (sorted_list_of_set (posting_of data)))) \<and>
         PostingListCount [EBin data] = Ok (EInt (int (card (posting_of data)))) \<and>
         (PostingListFind [EBin data, EBin k] = Ok (ETuple [EAtom ''ok'', EAtom ''false'']) \<longleftrightarrow>
            k \<in> posting_of data)"
proof (intro conjI)
  show "PostingListKeys R [EBin data] = Ok (enif_make_list (map EBin (sorted_list_of_set (posting_of data))))"
    using cons_keys_ok [OF assms, of "rev (parse_posting_list data)" "[]"]
    by (simp add: PostingListKeys_def with_bin1_def parse_eq_sorted_list enif_make_list_def)
  show "PostingListCount [EBin data] = Ok (EInt (int (card (posting_of data))))"
    by (simp add: PostingListCount_def with_bin1_def length_parse_posting_list)
  show "PostingListFind [EBin data, EBin k] = Ok (ETuple [EAtom ''ok'', EAtom ''false'']) \<longleftrightarrow> k \<in> posting_of data"
  proof (cases "DetectVersion data = POSTING_LIST_V2")
    case True
    then show ?thesis
      using set_parse_posting_list [of data]
      by (simp add: PostingListFind_def with_bin2_def parse_posting_list_def detect_version_eq)
  next
    case False
    then show ?thesis
      by (auto simp: PostingListFind_def with_bin2_def detect_version_eq v1_states_eq
          v1.step_find smap.invar_empty posting_of_def posting_log_def split: option.splits)
  qed
qed

theorem enumeration_of_posting_witness:
  "PostingListCount [EBin [0,0,0,1,0,7, 0,0,0,1,1,7]] = Ok (EInt (int (card (posting_of [0,0,0,1,0,7, 0,0,0,1,1,7]))))"
proof -
  have "\<forall>n. new_binary_ok demo_erts n"
    by (simp add: demo_erts_def)
  then show ?thesis
    using enumeration_of_posting by blast
qed

section \<open>Set operations\<close>

lemma nif_set_op:
  assumes "\<forall>n. new_binary_ok R n" "v2_fits cfg HashKey keys"
  shows "\<exists>out. make_binary R (serialize_v2 cfg keys) = Ok (EBin out) \<and> posting_of out = set keys"
  using assms by (simp add: make_binary_def serialize_v2_image posting_of_image)

text \<open>The sorted lists over a set of keys fit the format.\<close>

definition fits_below :: "'bm roaring option \<Rightarrow> bytes set \<Rightarrow> bool" where
  "fits_below cfg S \<longleftrightarrow> (\<forall>keys. set keys \<subseteq> S \<longrightarrow> sorted_wrt (<) keys \<longrightarrow> v2_fits cfg HashKey keys)"

lemma fits_below_mono: "fits_below cfg S \<Longrightarrow> T \<subseteq> S \<Longrightarrow> fits_below cfg T"
  by (auto simp: fits_below_def)

lemma nif_set_of_keys:
  assumes "\<forall>n. new_binary_ok R n" "fits_below cfg S" "set keys = S" "sorted_wrt (<) keys"
  shows "\<exists>out. make_binary R (serialize_v2 cfg keys) = Ok (EBin out) \<and> posting_of out = S"
  using nif_set_op [OF assms(1), of cfg keys] assms(2-4) by (simp add: fits_below_def)

lemmas set_op_simps = with_bin2_def Let_def fold_insert_if set_parse_posting_list set_sset_insert_all
  sset_insert_all_increasing parse_posting_list_increasing

lemma intersection_denotes:
  assumes "\<forall>n. new_binary_ok R n" "fits_below cfg (posting_of b1 \<inter> posting_of b2)"
  shows "\<exists>out. PostingListIntersection R cfg [EBin b1, EBin b2] = Ok (EBin out) \<and> posting_of out = posting_of b1 \<inter> posting_of b2"
  using nif_set_of_keys [OF assms, of "fold sset_insert (filter (\<lambda>k. k \<in> posting_of b2) (parse_posting_list b1)) []"]
  by (auto simp: PostingListIntersection_def set_op_simps)

lemma union_denotes:
  assumes "\<forall>n. new_binary_ok R n" "fits_below cfg (posting_of b1 \<union> posting_of b2)"
  shows "\<exists>out. PostingListUnion R cfg [EBin b1, EBin b2] = Ok (EBin out) \<and> posting_of out = posting_of b1 \<union> posting_of b2"
  using nif_set_of_keys [OF assms, of "fold sset_insert (parse_posting_list b2) (parse_posting_list b1)"]
  by (auto simp: PostingListUnion_def set_op_simps)

lemma difference_denotes:
  assumes "\<forall>n. new_binary_ok R n" "fits_below cfg (posting_of b1 - posting_of b2)"
  shows "\<exists>out. PostingListDifference R cfg [EBin b1, EBin b2] = Ok (EBin out) \<and> posting_of out = posting_of b1 - posting_of b2"
  using nif_set_of_keys [OF assms, of "fold sset_insert (filter (\<lambda>k. k \<notin> posting_of b2) (parse_posting_list b1)) []"]
  by (auto simp: PostingListDifference_def set_op_simps)

text \<open>
  Claim C15. \<open>posting_list_intersection\<close>, \<open>posting_list_union\<close> and
  \<open>posting_list_difference\<close> return values that stand for the intersection, the union
  and the difference of the two lists, whatever the formats of the arguments. The
  sorted lists over their keys must fit the format.
\<close>

theorem set_operations_correct:
  assumes "\<forall>n. new_binary_ok R n"
    and "\<forall>keys. set keys \<subseteq> posting_of b1 \<union> posting_of b2 \<longrightarrow> sorted_wrt (<) keys \<longrightarrow> v2_fits cfg HashKey keys"
  shows "(\<exists>out. PostingListIntersection R cfg [EBin b1, EBin b2] = Ok (EBin out) \<and>
            posting_of out = posting_of b1 \<inter> posting_of b2) \<and>
         (\<exists>out. PostingListUnion R cfg [EBin b1, EBin b2] = Ok (EBin out) \<and>
            posting_of out = posting_of b1 \<union> posting_of b2) \<and>
         (\<exists>out. PostingListDifference R cfg [EBin b1, EBin b2] = Ok (EBin out) \<and>
            posting_of out = posting_of b1 - posting_of b2)"
proof -
  have "fits_below cfg (posting_of b1 \<union> posting_of b2)"
    using assms(2) by (simp add: fits_below_def)
  then show ?thesis
    using intersection_denotes [OF assms(1), of cfg b1 b2] union_denotes [OF assms(1), of cfg b1 b2]
      difference_denotes [OF assms(1), of cfg b1 b2] by (metis fits_below_mono inf_le1 le_supI1 Diff_subset)
qed

lemma fits_of_bounded:
  assumes "finite S" "card S < 2 ^ 32" "\<forall>k \<in> S. length k < 2 ^ 32" "set keys \<subseteq> S" "sorted_wrt (<) keys"
  shows "v2_fits no_croaring HashKey keys"
proof -
  have "length keys = card (set keys)"
    using assms(5) by (simp add: distinct_card sorted_wrt_less_distinct)
  also have "\<dots> \<le> card S"
    using assms(1,4) by (rule card_mono)
  finally show ?thesis
    using assms(2,3,4) by (simp add: subset_iff)
qed

theorem set_operations_correct_witness:
  "\<exists>out. PostingListDifference demo_erts no_croaring
       [EBin [0,0,0,1,0,7, 0,0,0,1,0,5], EBin [2,0,0,0,0, 0,0,0,1, 0,0,0,1,7]] = Ok (EBin out) \<and>
     posting_of out = posting_of [0,0,0,1,0,7, 0,0,0,1,0,5] - posting_of [2,0,0,0,0, 0,0,0,1, 0,0,0,1,7]"
proof -
  let ?b1 = "[0,0,0,1,0,7, 0,0,0,1,0,5] :: bytes" and ?b2 = "[2,0,0,0,0, 0,0,0,1, 0,0,0,1,7] :: bytes"
  have alloc: "\<forall>n. new_binary_ok demo_erts n"
    by (simp add: demo_erts_def)
  have "parse_posting_list ?b1 = [[5], [7]]" "parse_posting_list ?b2 = [[7]]"
    by code_simp+
  then have "posting_of ?b1 \<union> posting_of ?b2 = {[5], [7]}"
    using set_parse_posting_list [of ?b1] set_parse_posting_list [of ?b2] by auto
  then have "\<forall>keys. set keys \<subseteq> posting_of ?b1 \<union> posting_of ?b2 \<longrightarrow> sorted_wrt (<) keys \<longrightarrow>
      v2_fits no_croaring HashKey keys"
    using fits_of_bounded [of "{[5], [7]} :: bytes set"] by auto
  from set_operations_correct [OF alloc this] show ?thesis by blast
qed

section \<open>Bitmap shortcuts\<close>

text \<open>A CRoaring implementation on lists of hashes, serialized as a tag byte and 64-bit words.\<close>

definition put_be64 :: "u64 \<Rightarrow> bytes" where
  "put_be64 w = put_be32 (ucast (drop_bit 32 w)) @ put_be32 (ucast w)"

fun get_be64s :: "nat \<Rightarrow> bytes \<Rightarrow> u64 list" where
  "get_be64s 0 p = []"
| "get_be64s (Suc n) p = (push_bit 32 (ucast (rd32 p)) OR ucast (rd32 (drop 4 p))) # get_be64s n (drop 8 p)"

definition list_roaring :: "u64 list roaring" where
  "list_roaring =
     \<lparr>rb_create = [], rb_add = (\<lambda>b h. h # b), rb_contains = (\<lambda>b h. h \<in> set b),
      rb_serialize = (\<lambda>b. 1 # concat (map put_be64 b)),
      rb_deserialize_safe = (\<lambda>p. Some (get_be64s ((length p - 1) div 8) (drop 1 p))),
      rb_and_cardinality = (\<lambda>b b'. card (set b \<inter> set b'))\<rparr>"

lemma join_split_64: "push_bit 32 (ucast (ucast (drop_bit 32 w) :: u32)) OR ucast (ucast w :: u32) = (w :: u64)"
  by (rule bit_word_eqI) (auto simp: bit_simps not_less)

lemma length_put_be64 [simp]: "length (put_be64 w) = 8"
  by (simp add: put_be64_def)

lemma get_be64s_put: "get_be64s (length ws) (concat (map put_be64 ws)) = ws"
proof (induction ws)
  case (Cons w ws)
  have "drop 8 (put_be64 w @ rest) = rest" "rd32 (put_be64 w @ rest) = ucast (drop_bit 32 w)"
      "rd32 (drop 4 (put_be64 w @ rest)) = ucast w" for rest
    by (simp_all add: put_be64_def)
  then show ?case
    using Cons.IH by (simp add: join_split_64)
qed simp

lemma length_concat_put_be64 [simp]: "length (concat (map put_be64 ws)) = 8 * length ws"
  by (induction ws) simp_all

lemma list_roaring_ok: "roaring_ok list_roaring"
  by (auto simp: roaring_ok_def list_roaring_def rb_set_def get_be64s_put)

text \<open>
  In a build with CRoaring, \<open>posting_list_bitmap_contains\<close> on a value the
  merge operator wrote answers whether the hash of the key is the hash of some key of
  the list. So it never misses a key of the list, and a wrong \<open>true\<close> needs a key of
  the list with the same 64-bit hash.
\<close>

theorem bitmap_contains_after_full_merge:
  assumes "roaring_ok rb" "v2_fits (Some rb) HashKey (merged_keys R existing ops)"
  shows "\<exists>out. PostingList_FullMergeV2 R (Some rb) existing ops = Ok out \<and>
           PostingListBitmapContains (Some rb) [EBin out, EBin k] =
             Ok (e_bool (\<exists>k' \<in> posting_of out. HashKey k' = HashKey k))"
proof -
  let ?keys = "merged_keys R existing ops"
  obtain b where b: "extract_bitmap_v2 rb (v2_image (Some rb) HashKey ?keys) = Some b"
      "rb_set rb b = HashKey ` set ?keys"
    using extract_bitmap_image [OF assms] by blast
  have "rb_contains rb b (HashKey k) \<longleftrightarrow> (\<exists>k' \<in> set ?keys. HashKey k' = HashKey k)"
    using b(2) unfolding rb_set_def set_eq_iff mem_Collect_eq image_iff by metis
  then show ?thesis
    using assms(2) b(1)
    by (simp add: FullMergeV2_image PostingListBitmapContains_def with_bin2_def detect_version_eq
        posting_of_image hash_key_eq)
qed

theorem bitmap_contains_after_full_merge_witness:
  "\<exists>out. PostingList_FullMergeV2 demo_erts (Some list_roaring) None [[131,0,5]] = Ok out \<and>
     PostingListBitmapContains (Some list_roaring) [EBin out, EBin [5]] =
       Ok (e_bool (\<exists>k' \<in> posting_of out. HashKey k' = HashKey [5]))"
proof -
  have "merged_keys demo_erts None [[131,0,5]] = [[5]]"
    by code_simp
  then have "v2_fits (Some list_roaring) HashKey (merged_keys demo_erts None [[131,0,5]])"
    by (simp add: v2_fits_def v2_bitmap_bytes_def list_roaring_def)
  from bitmap_contains_after_full_merge [OF list_roaring_ok this] show ?thesis .
qed

text \<open>
  \<open>posting_list_intersection_count\<close> on two values the merge operator wrote
  counts the common hashes from the bitmaps; when no two keys of the lists have the
  same hash this is the number of common keys.
\<close>

theorem intersection_count_by_bitmap:
  assumes "roaring_ok rb"
    and "v2_fits (Some rb) HashKey ks1" "v2_fits (Some rb) HashKey ks2"
    and "inj_on HashKey (set ks1 \<union> set ks2)"
    and "b1 = SerializeV2 (Some rb) (map (\<lambda>k. (k, False)) ks1)"
    and "b2 = SerializeV2 (Some rb) (map (\<lambda>k. (k, False)) ks2)"
  shows "PostingListIntersectionCount (Some rb) [EBin b1, EBin b2] =
           Ok (EInt (int (card (posting_of b1 \<inter> posting_of b2))))"
proof -
  have act: "active_keys (map (\<lambda>k. (k, False)) ks) = ks" for ks
    by (simp add: active_keys_def filter_map comp_def case_prod_beta)
  obtain m1 where m1: "extract_bitmap_v2 rb b1 = Some m1" "rb_set rb m1 = HashKey ` set ks1"
    using extract_bitmap_image [OF assms(1,2)] by (auto simp: assms(5) SerializeV2_image act)
  obtain m2 where m2: "extract_bitmap_v2 rb b2 = Some m2" "rb_set rb m2 = HashKey ` set ks2"
    using extract_bitmap_image [OF assms(1,3)] by (auto simp: assms(6) SerializeV2_image act)
  have "rb_and_cardinality rb m1 m2 = card (HashKey ` set ks1 \<inter> HashKey ` set ks2)"
    using assms(1) m1 m2 by (simp add: roaring_ok_def)
  also have "\<dots> = card (HashKey ` (set ks1 \<inter> set ks2))"
    using assms(4) by (simp add: inj_on_image_Int)
  also have "\<dots> = card (set ks1 \<inter> set ks2)"
    by (rule card_image) (rule inj_on_subset [OF assms(4)], blast)
  finally show ?thesis
    using m1 m2 assms(2,3)
    by (simp add: PostingListIntersectionCount_def with_bin2_def detect_version_eq assms(5,6)
        SerializeV2_image act posting_of_image)
qed

theorem intersection_count_by_bitmap_witness:
  "PostingListIntersectionCount (Some list_roaring)
     [EBin (SerializeV2 (Some list_roaring) [([1], False), ([2], False)]),
      EBin (SerializeV2 (Some list_roaring) [([2], False)])] =
   Ok (EInt (int (card
     (posting_of (SerializeV2 (Some list_roaring) [([1], False), ([2], False)]) \<inter>
      posting_of (SerializeV2 (Some list_roaring) [([2], False)])))))"
proof -
  have fits: "v2_fits (Some list_roaring) HashKey [[1], [2]]"
      "v2_fits (Some list_roaring) HashKey [[2]]"
    by (simp_all add: v2_fits_def v2_bitmap_bytes_def list_roaring_def)
  have "HashKey [1] \<noteq> HashKey [2]"
    by code_simp
  then have "inj_on HashKey (set [[1], [2]] \<union> set [[2]])"
    by (auto simp: inj_on_def)
  from intersection_count_by_bitmap [OF list_roaring_ok fits this refl refl]
  show ?thesis by simp
qed

end
