(* ===== verification/Index_Props.thy ===== *)
theory Index_Props
  imports Merge_Runs Db_Props Posting_Props
begin

text \<open>
  An index kept with the posting list operator, from the calls of a program to what it
  reads: \<open>merge\<close> (\<open>erocksdb_db.cc\<close>) hands operands to RocksDB, RocksDB calls the operator
  (\<open>posting_list_merge_operator.cc\<close>) in any grouping, \<open>get\<close> answers the value and
  \<open>posting_list_contains\<close> (\<open>posting_list_nif.cc\<close>) looks a key up in it.
\<close>

section \<open>Reads of a database with a merge operator\<close>

text \<open>The last value of a key that was put, and the operands merged since.\<close>

fun merge_split :: "batch_op \<Rightarrow> bytes option \<times> bytes list \<Rightarrow> bytes option \<times> bytes list" where
  "merge_split (WPut c x v) be = (Some v, [])"
| "merge_split (WMerge c x v) be = (fst be, snd be @ [v])"
| "merge_split _ be = (None, [])"

definition base_and_operands :: "cf_arg \<Rightarrow> bytes \<Rightarrow> batch_op list \<Rightarrow> bytes option \<times> bytes list" where
  "base_and_operands cf k cs = fold merge_split (filter (touches cf k) cs) (None, [])"

text \<open>
  The documented behaviour of a database whose column families have the merge operator
  \<open>full\<close>, \<open>partial\<close>: a read that succeeds gives what the operator makes of the last value and
  the operands since, in some grouping, and \<open>NotFound\<close> is answered only when there are none.
\<close>

definition merge_read_laws ::
    "'db rocks_db \<Rightarrow> ('db \<Rightarrow> addr \<Rightarrow> batch_op list) \<Rightarrow> ('db \<Rightarrow> addr \<Rightarrow> batch_op list) \<Rightarrow>
       (bytes option \<Rightarrow> bytes list \<Rightarrow> bytes outcome) \<Rightarrow> (bytes list \<Rightarrow> bytes outcome) \<Rightarrow> bool" where
  "merge_read_laws R history seen full partial \<longleftrightarrow>
     apply_laws R history seen \<and>
     (\<forall>d opts cf k dbs st v cs. db_Get R d opts cf k dbs = (st, v) \<longrightarrow> read_tier opts = kReadAllTier \<longrightarrow>
        cs = (case snapshot opts of None \<Rightarrow> history dbs d | Some s \<Rightarrow> seen dbs s) \<longrightarrow> single_safe cf k cs \<longrightarrow>
        (status_ok st \<longrightarrow> merge_run full partial (fst (base_and_operands cf k cs)) (snd (base_and_operands cf k cs)) v) \<and>
        (code st = kNotFound \<longrightarrow> base_and_operands cf k cs = (None, [])))"

lemma merge_read_lawsD:
  assumes "merge_read_laws R history seen full partial" "db_Get R d opts cf k dbs = (st, v)" "read_tier opts = kReadAllTier"
    and "cs = (case snapshot opts of None \<Rightarrow> history dbs d | Some s \<Rightarrow> seen dbs s)" "single_safe cf k cs"
  shows "status_ok st \<Longrightarrow> merge_run full partial (fst (base_and_operands cf k cs)) (snd (base_and_operands cf k cs)) v"
    "code st = kNotFound \<Longrightarrow> base_and_operands cf k cs = (None, [])"
  using assms(1) [unfolded merge_read_laws_def, THEN conjunct2, rule_format, OF assms(2-5)] by simp_all

lemma base_and_operands_merges:
  "base_and_operands cf k (cs @ map (WMerge cf k) ops) =
     (fst (base_and_operands cf k cs), snd (base_and_operands cf k cs) @ ops)"
proof -
  have "fold merge_split (map (WMerge cf k) ops) be = (fst be, snd be @ ops)" for be
    by (induction ops arbitrary: be) auto
  moreover have "filter (touches cf k) (map (WMerge cf k) ops) = map (WMerge cf k) ops"
    by (induction ops) auto
  ultimately show ?thesis
    by (simp add: base_and_operands_def)
qed

text \<open>Merging one operand after the other is one of the groupings.\<close>

lemma value_of_run:
  assumes "\<And>e op. full e [op] = Ok (mrg cf k e op)"
  shows "(case value_of mrg cf k cs of
      None \<Rightarrow> base_and_operands cf k cs = (None, [])
    | Some v \<Rightarrow> merge_run full partial (fst (base_and_operands cf k cs)) (snd (base_and_operands cf k cs)) v)"
proof -
  have "(case fold (op_value (mrg cf k)) fs None of
      None \<Rightarrow> fold merge_split fs (None, []) = (None, [])
    | Some v \<Rightarrow> merge_run full partial (fst (fold merge_split fs (None, []))) (snd (fold merge_split fs (None, []))) v)" for fs
  proof (induction fs rule: rev_induct)
    case (snoc f fs)
    show ?case
    proof (cases f)
      case (WMerge c x op)
      then show ?thesis
        using snoc assms
        by (cases "fold (op_value (mrg cf k)) fs None") (auto intro: merge_run_once merge_run_snoc)
    qed (auto simp: merge_run_Nil)
  qed simp
  then show ?thesis
    unfolding value_of_def base_and_operands_def .
qed

lemma list_db_merge_laws:
  assumes "\<And>cf k e op. full e [op] = Ok (mrg cf k e op)"
  shows "merge_read_laws (list_db mrg) fst snd full partial"
proof -
  have get: "(status_ok st \<longrightarrow> merge_run full partial (fst (base_and_operands cf k cs)) (snd (base_and_operands cf k cs)) v) \<and>
      (code st = kNotFound \<longrightarrow> base_and_operands cf k cs = (None, []))"
    if "db_Get (list_db mrg) d opts cf k dbs = (st, v)" "cs = (case snapshot opts of None \<Rightarrow> fst dbs d | Some s \<Rightarrow> snd dbs s)"
    for d opts cf k dbs st v cs
    using that value_of_run [where mrg = mrg and cf = cf and k = k and cs = cs and partial = partial, OF assms]
    by (cases "value_of mrg cf k cs") (auto simp: status_ok_def ok_status_def)
  show ?thesis
    unfolding merge_read_laws_def using db_lawsD(1) [OF list_db_laws [of mrg]] get by (simp del: split_paired_All)
qed

section \<open>Properties\<close>

lemma contains_image:
  assumes "roomy E cfg K" "sorted_wrt (<) keys" "set keys \<subseteq> K"
  shows "PostingListContains [EBin (v2_image cfg HashKey keys), EBin x] =
    Ok (e_bool (x \<in> posting_of (v2_image cfg HashKey keys)))"
proof -
  have fits: "v2_fits cfg HashKey keys" "length (v2_bitmap_bytes cfg HashKey keys) + 4 < 2 ^ 32"
    using assms by (auto simp: roomy_def)
  then have "v2_bitmap_size (v2_image cfg HashKey keys) = length (v2_bitmap_bytes cfg HashKey keys)"
    by (simp add: v2_bitmap_size_def v2_image_def v2_header_eq v2_fits_def)
  then show ?thesis
    using fits assms(2) by (intro contains_v2) (simp_all add: v2_keys_image)
qed

text \<open>
  Claim C9. A posting list index from end to end: operands \<open>{posting_add, K}\<close> and \<open>{posting_delete, K}\<close>
  are merged into a key by \<open>merge\<close> calls that answered \<open>ok\<close>, RocksDB groups them as it likes,
  and \<open>get\<close> answers a value. Then \<open>posting_list_contains\<close> on that value answers \<open>true\<close> for
  every key the operands leave in the list, and \<open>true\<close> only for keys that were in the
  stored value or added; when nothing deletes, it decides membership exactly.
\<close>

theorem posting_index_lookup:
  assumes laws: "merge_read_laws R history seen (PostingList_FullMergeV2 E cfg) (PostingList_PartialMergeMulti E cfg)"
    and db: "db_open h d" "cf_usable h cf" and ops: "ops \<noteq> []" "\<forall>op \<in> set ops. op_ok (WMerge cf k op)"
    and ws: "alloc_env E" "map (binary_to_term E) ops = map (Some \<circ> posting_op_term) ws"
    and calls: "write_calls R d (map (\<lambda>op. (WMerge cf k op, wopts)) ops) dbs h = (rs, dbs1, h1)" "set rs \<subseteq> {Ok e_ok}"
    and base: "base_and_operands cf k (history dbs d) = (b, ops0)" "single_safe cf k (history dbs d @ map (WMerge cf k) ops)"
    and room: "roomy E cfg (posting_of_existing b \<union> ever_added E (ops0 @ ops))"
    and get: "Get R dbs1 h1 (ERef d # cf_terms cf @ [EBin k, ENil]) = (Ok (ok_tuple (EBin v)), h2)"
    and wlog: "wlog = merge_log E ops0 @ ws"
  shows "\<exists>found. PostingListContains [EBin v, EBin x] = Ok (e_bool found) \<and>
    (x \<in> spec_merge wlog (posting_of_existing b) \<longrightarrow> found) \<and>
    (found \<longrightarrow> x \<in> posting_of_existing b \<or> (x, False) \<in> set wlog) \<and>
    ((\<forall>w \<in> set wlog. \<not> snd w) \<longrightarrow> (found \<longleftrightarrow> x \<in> posting_of_existing b \<union> fst ` set wlog))"
proof -
  let ?full = "PostingList_FullMergeV2 E cfg" and ?part = "PostingList_PartialMergeMulti E cfg"
  have "\<forall>c \<in> set (map (\<lambda>op. (WMerge cf k op, wopts)) ops). op_ok (fst c) \<and> cf_usable h (op_cf (fst c))"
    using db(2) ops(2) by auto
  then have w: "h1 = h" "history dbs1 d = history dbs d @ map (WMerge cf k) ops"
    using write_calls_history [OF _ db(1) _ calls, of history seen] laws by (auto simp: merge_read_laws_def o_def)
  have init: "snd (read_options_of h ENil) = ReadOptions_init"
    by (simp add: read_options_of_def nif_fold_def)
  obtain st v' where rd: "db_Get R d ReadOptions_init cf k dbs1 = (st, v')"
    by fastforce
  have "value_result read_classes (st, v') = ok_tuple (EBin v)"
    using get Get_open [OF db, of R dbs1 k ENil] by (simp add: w(1) init rd)
  then have st: "status_ok st" "v' = v"
    using value_result_cases [of read_classes st v'] by (auto simp: ok_tuple_def)
  have "merge_run ?full ?part b (ops0 @ ops) v"
    using merge_read_lawsD(1) [OF laws rd _ refl, of] base st
    by (simp add: ReadOptions_init_def w(2) base_and_operands_merges)
  note run = this
  have log_eq: "merge_log E (ops0 @ ops) = wlog"
    using merge_log_terms [OF ws] by (simp add: wlog)
  note between = posting_run_between [OF run room]
  then obtain keys where keys: "sorted_wrt (<) keys" "v = v2_image cfg HashKey keys"
      "set keys \<subseteq> posting_of_existing b \<union> ever_added E (ops0 @ ops)"
    using ops(1) by auto
  have "PostingListContains [EBin v, EBin x] = Ok (e_bool (x \<in> posting_of v))"
    using contains_image [OF room keys(1,3)] keys(2) by simp
  moreover have "x \<in> ever_added E (ops0 @ ops) \<longleftrightarrow> (x, False) \<in> set wlog"
    unfolding ever_added_def log_eq by force
  moreover have "(x, False) \<in> set wlog \<longleftrightarrow> x \<in> fst ` set wlog" "spec_merge wlog S = S \<union> fst ` set wlog"
    if "\<forall>w \<in> set wlog. \<not> snd w" for S
    using that spec_merge_adds [OF that] by force+
  ultimately show ?thesis
    using between [unfolded log_eq] by (intro exI [of _ "x \<in> posting_of v"]) blast
qed

text \<open>Two keys added to an index that had none.\<close>

definition demo_index :: "histories rocks_db" where
  "demo_index = list_db (\<lambda>_ _ e op. v2_image no_croaring HashKey (merged_keys demo_erts e [op]))"

theorem posting_index_lookup_witness:
  "\<exists>rs dbs1 v h2. write_calls demo_index 0 [(WMerge NoCf [1] [131,0,5], ENil), (WMerge NoCf [1] [131,0,6], ENil)]
      (\<lambda>_. [], \<lambda>_. []) db_heap = (rs, dbs1, db_heap) \<and>
    Get demo_index dbs1 db_heap [ERef 0, EBin [1], ENil] = (Ok (ok_tuple (EBin v)), h2) \<and>
    PostingListContains [EBin v, EBin [6]] = Ok (e_bool True) \<and> PostingListContains [EBin v, EBin [7]] = Ok (e_bool False)"
proof -
  let ?full = "PostingList_FullMergeV2 demo_erts no_croaring" and ?part = "PostingList_PartialMergeMulti demo_erts no_croaring"
  let ?ops = "[[131,0,5], [131,0,6]] :: bytes list" and ?dbs = "(\<lambda>_. [], \<lambda>_. []) :: histories"
  have laws: "merge_read_laws demo_index fst snd ?full ?part"
    unfolding demo_index_def by (rule list_db_merge_laws) (simp add: FullMergeV2_image)
  have call: "write_call demo_index 0 (c, opts) dbs db_heap = ((Ok e_ok, ((fst dbs)(0 := fst dbs 0 @ [c]), snd dbs)), db_heap)"
    if "op_cf c = NoCf" for c opts dbs
    using that write_call_open [OF db_heap_open(1), of c demo_index opts dbs]
    by (simp add: demo_index_def cf_usable_def status_result_def)
  define dbs1 where "dbs1 = ((\<lambda>_ :: addr. [])(0 := map (WMerge NoCf [1]) ?ops), \<lambda>_ :: addr. [] :: batch_op list)"
  have calls: "write_calls demo_index 0 (map (\<lambda>op. (WMerge NoCf [1] op, ENil)) ?ops) ?dbs db_heap = ([Ok e_ok, Ok e_ok], dbs1, db_heap)"
    by (simp add: call dbs1_def)
  obtain v where get: "Get demo_index dbs1 db_heap (ERef 0 # cf_terms NoCf @ [EBin [1], ENil]) = (Ok (ok_tuple (EBin v)), db_heap)"
    using Get_open [OF db_heap_open(1), of NoCf demo_index dbs1 "[1]" ENil]
    by (simp add: demo_index_def dbs1_def cf_usable_def read_options_of_def nif_fold_def ReadOptions_init_def value_of_def
        value_result_def status_ok_def ok_status_def)
  have terms: "map (binary_to_term demo_erts) ?ops = map (Some \<circ> posting_op_term) [([5], False), ([6], False)]" "alloc_env demo_erts"
    by (simp_all add: demo_erts_def)
  have base: "base_and_operands NoCf [1] (fst ?dbs 0) = (None, [])"
    by (simp add: base_and_operands_def)
  have wlog: "merge_log demo_erts ?ops = [([5], False), ([6], False)]"
    using merge_log_terms [OF terms(2,1)] .
  have room: "roomy demo_erts no_croaring (posting_of_existing None \<union> ever_added demo_erts ([] @ ?ops))"
    by (rule demo_roomy) (simp_all add: ever_added_adds wlog)
  have found: "\<exists>found. PostingListContains [EBin v, EBin x] = Ok (e_bool found) \<and> (found \<longleftrightarrow> x \<in> {[5], [6]})" for x
    using posting_index_lookup [OF laws db_heap_open(1) _ _ _ terms(2,1) calls _ base _ room get refl, of x]
    by (auto simp: cf_usable_def op_ok_def single_safe_def merge_log_def)
  show ?thesis
    using calls get found [of "[6]"] found [of "[7]"] by fastforce
qed

end
