(* ===== verification/Erlang_Api.thy ===== *)
theory Erlang_Api
  imports Index_Props Iterator_Nifs Open_Props
begin

text \<open>
  The functions of \<open>src/rocksdb.erl\<close> that do more than call one NIF: folds over an iterator,
  writes of a list of actions through a batch, merges with posting operands, and the
  posting list functions over several lists. They are compositions of the NIFs modelled in
  the other theories.
\<close>

section \<open>Calls from Erlang\<close>

text \<open>
  What a call gives: a value, an \<open>error\<close> exception with its reason, the exception
  \<open>throw({iterator_closed, Acc})\<close>, or the end of the virtual machine. A NIF that answers
  \<open>enif_make_badarg\<close> raises \<open>badarg\<close>.
\<close>

datatype 'a api = Returns 'a | Raises string | Throws 'a | Crashed

fun of_nif :: "nif_result \<Rightarrow> eterm api" where
  "of_nif (Ok t) = Returns t"
| "of_nif Failed = Raises ''badarg''"
| "of_nif _ = Crashed"

fun bind_api :: "eterm api \<Rightarrow> (eterm \<Rightarrow> 'a api) \<Rightarrow> 'a api" where
  "bind_api (Returns t) f = f t"
| "bind_api (Raises x) f = Raises x"
| "bind_api _ f = Crashed"

section \<open>Folds\<close>

text \<open>The clauses of \<open>fold_loop\<close> on the answer of a move.\<close>

datatype fold_case = ClosedItr | AtEnd | Element eterm | NoClause

fun fold_clause :: "eterm \<Rightarrow> fold_case" where
  "fold_clause (ETuple [tag, x]) =
     (if tag = EAtom ''error'' \<and> x = EAtom ''iterator_closed'' then ClosedItr
      else if tag = EAtom ''error'' \<and> x = EAtom ''invalid_iterator'' then AtEnd
      else if tag = EAtom ''ok'' then Element x
      else NoClause)"
| "fold_clause (ETuple [tag, k, v]) = (if tag = EAtom ''ok'' then Element (ETuple [k, v]) else NoClause)"
| "fold_clause _ = NoClause"

text \<open>
  The function argument is a function of the element and the accumulator, and may raise;
  that it does not itself use the iterator is part of the model. The loop has no bound.
\<close>

partial_function (option) fold_loop ::
    "'it rocks_itr \<Rightarrow> slice_store \<Rightarrow> eterm \<Rightarrow> (eterm \<Rightarrow> 'a \<Rightarrow> 'a api) \<Rightarrow> (nif_result \<times> 'it itrs) \<times> ref_heap \<Rightarrow> 'a \<Rightarrow>
       ('a api \<times> 'it itrs \<times> ref_heap) option" where
  "fold_loop R sl itr f moved acc =
     (case moved of
        ((r, its), h) \<Rightarrow>
          (case of_nif r of
             Returns t \<Rightarrow>
               (case fold_clause t of
                  ClosedItr \<Rightarrow> Some (Throws acc, its, h)
                | AtEnd \<Rightarrow> Some (Returns acc, its, h)
                | NoClause \<Rightarrow> Some (Raises ''function_clause'', its, h)
                | Element e \<Rightarrow>
                    (case f e acc of
                       Returns acc1 \<Rightarrow> fold_loop R sl itr f (IteratorMove R sl its h [itr, EAtom ''next'']) acc1
                     | x \<Rightarrow> Some (x, its, h)))
           | Raises x \<Rightarrow> Some (Raises x, its, h)
           | _ \<Rightarrow> Some (Crashed, its, h)))"

text \<open>\<open>try ... after iterator_close(Itr) end\<close>: the close runs on every exit, and its own exception wins.\<close>

definition after_close :: "eterm \<Rightarrow> 'a api \<times> 'it itrs \<times> ref_heap \<Rightarrow> 'a api \<times> 'it itrs \<times> ref_heap" where
  "after_close itr res =
     (case res of
        (Crashed, its, h) \<Rightarrow> (Crashed, its, h)
      | (x, its, h) \<Rightarrow>
          (case IteratorClose h [itr] of
             (c, h1) \<Rightarrow> ((case of_nif c of Returns _ \<Rightarrow> x | Raises y \<Rightarrow> Raises y | _ \<Rightarrow> Crashed), its, h1)))"

definition do_fold ::
    "'it rocks_itr \<Rightarrow> slice_store \<Rightarrow> 'it itrs \<Rightarrow> ref_heap \<Rightarrow> eterm \<Rightarrow> (eterm \<Rightarrow> 'a \<Rightarrow> 'a api) \<Rightarrow> 'a \<Rightarrow>
       ('a api \<times> 'it itrs \<times> ref_heap) option" where
  "do_fold R sl its h itr f acc =
     map_option (after_close itr) (fold_loop R sl itr f (IteratorMove R sl its h [itr, EAtom ''first'']) acc)"

text \<open>\<open>fold/4\<close> and \<open>fold/5\<close>: \<open>argv\<close> are the arguments of \<open>iterator/2\<close> or \<open>iterator/3\<close>.\<close>

definition api_fold ::
    "'it rocks_itr \<Rightarrow> 'it itrs \<Rightarrow> slice_store \<Rightarrow> ref_heap \<Rightarrow> eterm list \<Rightarrow> (eterm \<Rightarrow> 'a \<Rightarrow> 'a api) \<Rightarrow> 'a \<Rightarrow>
       ('a api \<times> 'it itrs \<times> ref_heap) option" where
  "api_fold R its sl h argv f acc =
     (case Iterator R its sl h argv of
        ((r, its1, sl1), h1) \<Rightarrow>
          (case of_nif r of
             Returns t \<Rightarrow>
               (case t of
                  ETuple [tag, itr] \<Rightarrow>
                    if tag = EAtom ''ok'' then do_fold R sl1 its1 h1 itr f acc else Some (Raises ''badmatch'', its1, h1)
                | _ \<Rightarrow> Some (Raises ''badmatch'', its1, h1))
           | Raises x \<Rightarrow> Some (Raises x, its1, h1)
           | _ \<Rightarrow> Some (Crashed, its1, h1)))"

fun wrapper_fun :: "(eterm \<Rightarrow> 'a \<Rightarrow> 'a api) \<Rightarrow> eterm \<Rightarrow> 'a \<Rightarrow> 'a api" where
  "wrapper_fun f (ETuple [k, v]) acc = f k acc"
| "wrapper_fun f other acc = f other acc"

definition api_fold_keys ::
    "'it rocks_itr \<Rightarrow> 'it itrs \<Rightarrow> slice_store \<Rightarrow> ref_heap \<Rightarrow> eterm list \<Rightarrow> (eterm \<Rightarrow> 'a \<Rightarrow> 'a api) \<Rightarrow> 'a \<Rightarrow>
       ('a api \<times> 'it itrs \<times> ref_heap) option" where
  "api_fold_keys R its sl h argv f acc = api_fold R its sl h argv (wrapper_fun f) acc"

section \<open>Merges and writes\<close>

fun encode_merge_value :: "erts \<Rightarrow> eterm \<Rightarrow> eterm api" where
  "encode_merge_value E (ETuple [EAtom tag, EBin k]) =
     (if tag = ''posting_add'' \<or> tag = ''posting_delete''
      then (case term_to_binary E (ETuple [EAtom tag, EBin k]) of
              Some b \<Rightarrow> Returns (EBin b)
            | None \<Rightarrow> Raises ''system_limit'')
      else Raises ''function_clause'')"
| "encode_merge_value E (EBin v) = Returns (EBin v)"
| "encode_merge_value E _ = Raises ''function_clause''"

text \<open>\<open>merge/4\<close> and \<open>merge/5\<close>, with the column family first in \<open>cf\<close>.\<close>

definition api_merge ::
    "erts \<Rightarrow> 'db rocks_db \<Rightarrow> 'db \<Rightarrow> ref_heap \<Rightarrow> eterm \<Rightarrow> eterm list \<Rightarrow> eterm \<Rightarrow> eterm \<Rightarrow> eterm \<Rightarrow> (eterm api \<times> 'db) \<times> ref_heap" where
  "api_merge E R dbs h db cf k v opts =
     (case encode_merge_value E v of
        Returns b \<Rightarrow>
          (case Merge R dbs h (db # cf @ [k, b, opts]) of ((r, dbs1), h1) \<Rightarrow> ((of_nif r, dbs1), h1))
      | x \<Rightarrow> ((x, dbs), h))"

type_synonym 'wb call_result = "(eterm api \<times> 'wb batches) \<times> ref_heap"

definition nif_call :: "(nif_result \<times> 'wb batches) \<times> ref_heap \<Rightarrow> 'wb call_result" where
  "nif_call res = (case res of ((r, bs), h) \<Rightarrow> ((of_nif r, bs), h))"

definition batch_merge ::
    "erts \<Rightarrow> 'wb rocks_batch \<Rightarrow> 'wb batches \<Rightarrow> ref_heap \<Rightarrow> eterm \<Rightarrow> eterm list \<Rightarrow> eterm \<Rightarrow> eterm \<Rightarrow> 'wb call_result" where
  "batch_merge E R bs h batch cf k v =
     (case encode_merge_value E v of
        Returns b \<Rightarrow> nif_call (MergeBatch R bs h (batch # cf @ [k, b]))
      | x \<Rightarrow> ((x, bs), h))"

text \<open>The call of \<open>write_1\<close> for the head of the list.\<close>

fun write_action :: "erts \<Rightarrow> 'wb rocks_batch \<Rightarrow> eterm \<Rightarrow> eterm \<Rightarrow> 'wb batches \<Rightarrow> ref_heap \<Rightarrow> 'wb call_result" where
  "write_action E R batch (ETuple [EAtom tag, x]) bs h =
     (if tag = ''delete'' then nif_call (DeleteBatch R bs h [batch, x])
      else if tag = ''single_delete'' then nif_call (SingleDeleteBatch R bs h [batch, x])
      else ((Raises ''badarg'', bs), h))"
| "write_action E R batch (ETuple [EAtom tag, x, y]) bs h =
     (if tag = ''put'' then nif_call (PutBatch R bs h [batch, x, y])
      else if tag = ''merge'' then batch_merge E R bs h batch [] x y
      else if tag = ''delete'' then nif_call (DeleteBatch R bs h [batch, x, y])
      else if tag = ''single_delete'' then nif_call (SingleDeleteBatch R bs h [batch, x, y])
      else ((Raises ''badarg'', bs), h))"
| "write_action E R batch (ETuple [EAtom tag, cf, x, y]) bs h =
     (if tag = ''put'' then nif_call (PutBatch R bs h [batch, cf, x, y])
      else if tag = ''merge'' then batch_merge E R bs h batch [cf] x y
      else ((Raises ''badarg'', bs), h))"
| "write_action E R batch _ bs h = ((Raises ''badarg'', bs), h)"

type_synonym ('db, 'wb) rocks_write = "addr \<Rightarrow> write_options \<Rightarrow> 'wb \<Rightarrow> 'db \<Rightarrow> status \<times> 'db"

fun write_1 ::
    "erts \<Rightarrow> 'wb rocks_batch \<Rightarrow> ('db, 'wb) rocks_write \<Rightarrow> eterm \<Rightarrow> eterm \<Rightarrow> eterm \<Rightarrow> eterm \<Rightarrow> 'db \<Rightarrow> 'wb batches \<Rightarrow> ref_heap \<Rightarrow>
       (eterm api \<times> 'db \<times> 'wb batches) \<times> ref_heap" where
  "write_1 E R W (ECons x rest) batch db opts dbs bs h =
     (case write_action E R batch x bs h of
        ((Returns _, bs1), h1) \<Rightarrow> write_1 E R W rest batch db opts dbs bs1 h1
      | ((e, bs1), h1) \<Rightarrow> ((e, dbs, bs1), h1))"
| "write_1 E R W ENil batch db opts dbs bs h =
     (case WriteBatch R W dbs bs h [db, batch, opts] of ((r, dbs1, bs1), h1) \<Rightarrow> ((of_nif r, dbs1, bs1), h1))"
| "write_1 E R W _ batch db opts dbs bs h = ((Raises ''function_clause'', dbs, bs), h)"

definition api_write ::
    "erts \<Rightarrow> 'wb rocks_batch \<Rightarrow> ('db, 'wb) rocks_write \<Rightarrow> batch_alloc \<Rightarrow> 'db \<Rightarrow> 'wb batches \<Rightarrow> ref_heap \<Rightarrow> eterm list \<Rightarrow>
       (eterm api \<times> 'db \<times> 'wb batches) \<times> ref_heap" where
  "api_write E R W A dbs bs h argv =
     (case NewBatch R A bs h of
        ((r, bs1), h1) \<Rightarrow>
          (case of_nif r of
             Returns t \<Rightarrow>
               (case t of
                  ETuple [tag, batch] \<Rightarrow>
                    if tag = EAtom ''ok'' then
                      (case write_1 E R W (argv ! 1) batch (argv ! 0) (argv ! 2) dbs bs1 h1 of
                         ((Crashed, dbs1, bs2), h2) \<Rightarrow> ((Crashed, dbs1, bs2), h2)
                       | ((x, dbs1, bs2), h2) \<Rightarrow>
                           (case ReleaseBatch bs2 [batch] of
                              (c, bs3) \<Rightarrow>
                                (((case of_nif c of Returns _ \<Rightarrow> x | Raises y \<Rightarrow> Raises y | _ \<Rightarrow> Crashed), dbs1, bs3), h2)))
                    else ((Raises ''badmatch'', dbs, bs1), h1)
                | _ \<Rightarrow> ((Raises ''badmatch'', dbs, bs1), h1))
           | Raises x \<Rightarrow> ((Raises x, dbs, bs1), h1)
           | _ \<Rightarrow> ((Crashed, dbs, bs1), h1)))"

section \<open>Posting lists\<close>

text \<open>\<open>posting_list_decode\<close> matches entries of the first format only.\<close>

function posting_list_decode :: "bytes \<Rightarrow> (bytes \<times> bool) list api" where
  "posting_list_decode bin =
     (if bin = [] then Returns []
      else if 5 \<le> length bin \<and> unat (rd32 bin) \<le> length (drop 5 bin) then
        (case posting_list_decode (drop (unat (rd32 bin)) (drop 5 bin)) of
           Returns es \<Rightarrow> Returns ((take (unat (rd32 bin)) (drop 5 bin), bin ! 4 \<noteq> 0) # es)
         | x \<Rightarrow> x)
      else Raises ''function_clause'')"
  by pat_completeness auto
termination
  by (relation "measure length") auto

declare posting_list_decode.simps [simp del]

text \<open>\<open>lists:foldl\<close> with a function that may raise.\<close>

fun foldl_api :: "('e \<Rightarrow> 'a \<Rightarrow> 'a api) \<Rightarrow> 'a \<Rightarrow> 'e list \<Rightarrow> 'a api" where
  "foldl_api f acc [] = Returns acc"
| "foldl_api f acc (e # es) = (case f e acc of Returns acc1 \<Rightarrow> foldl_api f acc1 es | x \<Rightarrow> x)"

definition posting_list_fold :: "(bytes \<Rightarrow> bool \<Rightarrow> 'a \<Rightarrow> 'a api) \<Rightarrow> 'a \<Rightarrow> bytes \<Rightarrow> 'a api" where
  "posting_list_fold f acc bin =
     (case posting_list_decode bin of
        Returns es \<Rightarrow> foldl_api (\<lambda>(k, t). f k t) acc es
      | Raises x \<Rightarrow> Raises x
      | _ \<Rightarrow> Crashed)"

definition empty_v2 :: bytes where
  "empty_v2 = [2, 0, 0, 0, 0, 0, 0, 0, 0]"

definition intersect_nif :: "erts \<Rightarrow> 'bm roaring option \<Rightarrow> bytes \<Rightarrow> eterm \<Rightarrow> eterm api" where
  "intersect_nif E cfg b acc = of_nif (PostingListIntersection E cfg [EBin b, acc])"

text \<open>\<open>lists:sort/2\<close> with \<open>=<\<close> on the sizes is a stable sort.\<close>

fun posting_list_intersect_all :: "erts \<Rightarrow> 'bm roaring option \<Rightarrow> bytes list \<Rightarrow> eterm api" where
  "posting_list_intersect_all E cfg [] = Returns (EBin empty_v2)"
| "posting_list_intersect_all E cfg [single] = Returns (EBin single)"
| "posting_list_intersect_all E cfg bins =
     (let sorted_bins = sort_key length bins
      in foldl_api (intersect_nif E cfg) (EBin (hd sorted_bins)) (tl sorted_bins))"

text \<open>A posting list is given as a binary or as a parsed resource.\<close>

fun to_posting_binary :: "erts \<Rightarrow> 'bm roaring option \<Rightarrow> 'bm postings \<Rightarrow> eterm \<Rightarrow> eterm api" where
  "to_posting_binary E cfg st (EBin b) = Returns (EBin b)"
| "to_posting_binary E cfg st (ERef n) = of_nif (PostingsToBinary E cfg st [ERef n])"
| "to_posting_binary E cfg st _ = Raises ''function_clause''"

definition open_result :: "'bm roaring option \<Rightarrow> nat option \<Rightarrow> 'bm postings \<Rightarrow> eterm api \<Rightarrow> eterm api \<times> 'bm postings" where
  "open_result cfg slot st res =
     (case res of
        Returns b \<Rightarrow> (case PostingsOpen cfg slot st [b] of (r, st1) \<Rightarrow> (of_nif r, st1))
      | x \<Rightarrow> (x, st))"

definition postings_binop ::
    "(eterm list \<Rightarrow> nif_result) \<Rightarrow> erts \<Rightarrow> 'bm roaring option \<Rightarrow> nat option \<Rightarrow> 'bm postings \<Rightarrow> eterm \<Rightarrow> eterm \<Rightarrow> eterm api \<times> 'bm postings" where
  "postings_binop nif E cfg slot st a b =
     open_result cfg slot st
       (bind_api (to_posting_binary E cfg st a) (\<lambda>x.
          bind_api (to_posting_binary E cfg st b) (\<lambda>y. of_nif (nif [x, y]))))"

definition postings_intersection ::
    "erts \<Rightarrow> 'bm roaring option \<Rightarrow> nat option \<Rightarrow> 'bm postings \<Rightarrow> eterm \<Rightarrow> eterm \<Rightarrow> eterm api \<times> 'bm postings" where
  "postings_intersection E cfg = postings_binop (PostingListIntersection E cfg) E cfg"

definition postings_union ::
    "erts \<Rightarrow> 'bm roaring option \<Rightarrow> nat option \<Rightarrow> 'bm postings \<Rightarrow> eterm \<Rightarrow> eterm \<Rightarrow> eterm api \<times> 'bm postings" where
  "postings_union E cfg = postings_binop (PostingListUnion E cfg) E cfg"

definition postings_difference ::
    "erts \<Rightarrow> 'bm roaring option \<Rightarrow> nat option \<Rightarrow> 'bm postings \<Rightarrow> eterm \<Rightarrow> eterm \<Rightarrow> eterm api \<times> 'bm postings" where
  "postings_difference E cfg = postings_binop (PostingListDifference E cfg) E cfg"

definition postings_intersection_count ::
    "erts \<Rightarrow> 'bm roaring option \<Rightarrow> 'bm postings \<Rightarrow> eterm \<Rightarrow> eterm \<Rightarrow> eterm api" where
  "postings_intersection_count E cfg st a b =
     bind_api (to_posting_binary E cfg st a) (\<lambda>x.
       bind_api (to_posting_binary E cfg st b) (\<lambda>y. of_nif (PostingListIntersectionCount cfg [x, y])))"

fun map_api :: "('x \<Rightarrow> eterm api) \<Rightarrow> 'x list \<Rightarrow> eterm list api" where
  "map_api f [] = Returns []"
| "map_api f (x # xs) =
     bind_api (f x) (\<lambda>y. case map_api f xs of Returns ys \<Rightarrow> Returns (y # ys) | e \<Rightarrow> e)"

fun bin_bytes :: "eterm \<Rightarrow> bytes" where
  "bin_bytes (EBin b) = b"
| "bin_bytes _ = []"

fun is_ref :: "eterm \<Rightarrow> bool" where
  "is_ref (ERef n) = True"
| "is_ref _ = False"

definition postings_intersect_all ::
    "erts \<Rightarrow> 'bm roaring option \<Rightarrow> nat option \<Rightarrow> 'bm postings \<Rightarrow> eterm list \<Rightarrow> eterm api \<times> 'bm postings" where
  "postings_intersect_all E cfg slot st ps =
     (case ps of
        [] \<Rightarrow> open_result cfg slot st (Returns (EBin empty_v2))
      | [single] \<Rightarrow>
          if is_ref single then (Returns (ok_tuple single), st)
          else open_result cfg slot st (Returns single)
      | _ \<Rightarrow>
          open_result cfg slot st
            (case map_api (to_posting_binary E cfg st) ps of
               Returns bins \<Rightarrow> posting_list_intersect_all E cfg (map bin_bytes bins)
             | Raises x \<Rightarrow> Raises x
             | _ \<Rightarrow> Crashed))"

end
