(* ===== verification/Api_Props.thy ===== *)
theory Api_Props
  imports Erlang_Api
begin

text \<open>
  What the composed functions of \<open>src/rocksdb.erl\<close> give: a fold visits the entries of its
  range and leaves no iterator behind, a write applies all its actions or none, and the
  intersection of many posting lists is the intersection of their sets.
\<close>

section \<open>Folds\<close>

definition entry_term :: "bytes \<times> bytes \<Rightarrow> eterm" where
  "entry_term e = ETuple [EBin (fst e), EBin (snd e)]"

lemma fold_loop_entries:
  assumes laws: "itr_laws R entries ahead" and "itr_open h a"
  shows "bounds_are h sl n b \<Longrightarrow> ahead b True (it_state n) = es \<Longrightarrow>
    \<exists>its'. fold_loop R sl (ERef a) f (current_entry R a n its, h) acc = Some (foldl_api f acc (map entry_term es), its', h)"
proof (induction es arbitrary: n its acc)
  case Nil
  then show ?case
    by (simp add: fold_loop.simps current_entry_ahead [OF laws, of a n its b True] invalid_iterator_def)
next
  case (Cons e es)
  have cur: "current_entry R a n its = (Ok (ETuple [EAtom ''ok'', EBin (fst e), EBin (snd e)]), its(a \<mapsto> n))"
    using Cons.prems by (simp add: current_entry_ahead [OF laws, of a n its b True])
  show ?case
  proof (cases "f (entry_term e) acc")
    case (Returns acc1)
    obtain n' where n': "IteratorMove R sl (its(a \<mapsto> n)) h [ERef a, step_action True] = (current_entry R a n' (its(a \<mapsto> n)), h)"
        "ahead b True (it_state n') = es" "bounds_are h sl n' b"
      using move_step [OF laws assms(2), of "its(a \<mapsto> n)" n sl b True e es] Cons.prems by auto
    have "fold_loop R sl (ERef a) f (current_entry R a n its, h) acc =
        fold_loop R sl (ERef a) f (current_entry R a n' (its(a \<mapsto> n)), h) acc1"
      using Returns n'(1) by (subst fold_loop.simps) (simp add: cur entry_term_def step_action_def)
    moreover obtain its' where "fold_loop R sl (ERef a) f (current_entry R a n' (its(a \<mapsto> n)), h) acc1 =
        Some (foldl_api f acc1 (map entry_term es), its', h)"
      using Cons.IH [OF n'(3,2)] by blast
    ultimately show ?thesis
      using Returns by simp
  qed (simp_all add: fold_loop.simps cur entry_term_def)
qed

lemma with_db_RefDec:
  assumes "db_open h d" "f d (RefInc h d) = (r, h1)"
  shows "with_db h (ERef d) bad f = (r, RefDec h1 d)"
proof -
  obtain ob where ob: "mem h d = Some ob" "kind ob = DbObject" "m_CloseRequested ob = 0" "m_Native ob"
    using assms(1) by (auto simp: db_open_def split: option.splits)
  then show ?thesis
    by (simp add: scope_defs in_scope_def RetrieveDbObject_def Retrieve_def ReferencePtr_assign_def
        ReferencePtr_drop_def assms(2) RefInc_open)
qed

lemma managed_put_bound:
  assumes "managed h H" "mem h a = Some ob" "m_CloseRequested ob \<noteq> 3" "kind ob \<noteq> DbObject"
    and "ob' = ob\<lparr>upper_bound_slice := u, lower_bound_slice := l\<rparr>"
  shows "managed (put_obj h a ob') H"
proof -
  have "obj_ok h H a ob'"
    using heap_okD [of h H a ob] assms by (simp add: managed_def obj_ok_def split: option.splits)
  moreover have "child_list k ob' = child_list k ob" for k
    by (cases k) (simp_all add: assms(5))
  ultimately show ?thesis
    using assms unfolding managed_def
    by (auto intro: heap_ok_put log_ok_put lists_complete_put)
qed

lemma managed_set_bounds:
  assumes "managed h H" "mem h a = Some ob" "m_CloseRequested ob \<noteq> 3" "kind ob = ItrObject"
  shows "managed (set_bounds b a h) H"
proof -
  let ?ob = "ob\<lparr>upper_bound_slice := case upper_bound b of None \<Rightarrow> upper_bound_slice ob | Some p \<Rightarrow> Some p,
    lower_bound_slice := case lower_bound b of None \<Rightarrow> lower_bound_slice ob | Some p \<Rightarrow> Some p\<rparr>"
  have same: "put_obj h a ob = h" "\<And>x y. put_obj (put_obj h a x) a y = put_obj h a y"
    using assms(2) by (simp_all add: put_obj_def map_upd_triv)
  have upper: "SetUpperBoundSlice h a p = put_obj h a (ob\<lparr>upper_bound_slice := Some p\<rparr>)" for p
    unfolding SetUpperBoundSlice_def by (rule with_live_eq [OF assms(2,3)])
  have lower: "SetLowerBoundSlice (put_obj h a x) a p = put_obj h a (x\<lparr>lower_bound_slice := Some p\<rparr>)"
    if "m_CloseRequested x \<noteq> 3" for x p
    using that by (simp add: SetLowerBoundSlice_def with_live_eq [of _ _ x] same)
  have "set_bounds b a h = put_obj h a ?ob"
    using assms(3) lower [of ob] same(1)
    by (cases "upper_bound b"; cases "lower_bound b") (simp_all add: set_bounds_def upper lower)
  then show ?thesis
    using managed_put_bound [OF assms(1-3) _ refl] assms(4) by simp
qed

lemma create_itr_managed:
  assumes "managed h H" "mem h d = Some db" "kind db = DbObject" "m_CloseRequested db = 0" "m_RefCount db \<noteq> - 1"
    and "create_itr d b n its h = (a, its1, h1)"
  shows "managed h1 H"
proof -
  let ?h = "snd (CreateItrObject h (Some d))"
  have m: "managed ?h H"
    using managed_create_child [OF assms(1-3) _ assms(5), of ItrObject] assms(4) by simp
  have ne: "next_addr h \<noteq> d"
    using fresh(1) [of h H] assms(1,2) by (auto simp: managed_def)
  have "fst (CreateItrObject h (Some d)) = next_addr h" "mem ?h (next_addr h) = Some (first_object ItrObject (Some d))"
    using CreateChildObject_eq [OF assms(2) _ ne, of ItrObject] assms(4) ne by simp_all
  then have "h1 = set_bounds b (next_addr h) ?h" and "managed (set_bounds b (next_addr h) ?h) H"
    using assms(6) managed_set_bounds [OF m, of "next_addr h" _ b]
    by (auto simp: create_itr_def first_object_def new_object_def split: prod.splits)
  then show ?thesis
    by simp
qed

lemma Iterator_managed:
  assumes m: "managed h H" and db: "db_open h d" "mem h d = Some db" "unat (m_RefCount db) + 2 < 2 ^ 32"
    and "fresh_slices h sl" "Iterator R its sl h [ERef d, bound_options u l] = ((r, its1, sl1), h1)"
  shows "managed h1 H"
proof -
  let ?h = "RefInc h d" and ?db = "db\<lparr>m_RefCount := m_RefCount db + 1\<rparr>"
  have d: "kind db = DbObject" "m_CloseRequested db = 0"
    using db(1,2) by (auto simp: db_open_def)
  have room: "m_RefCount db \<noteq> - 1" "m_RefCount db + 1 \<noteq> - 1"
    using count_room [of "m_RefCount db" 1] count_room [of "m_RefCount db + 1" 0] db(3) by auto
  have m1: "managed ?h (add_mset d H)"
    by (rule managed_RefInc [OF m db(2)]) (use d room in simp_all)
  have mem: "mem ?h d = Some ?db"
    using db(2) d(2) by (simp add: RefInc_def with_live_eq)
  obtain ok s where s: "parse_iterator_options (bound_options u l) ?h sl = (ok, s)"
    by fastforce
  have "fresh_slices ?h sl"
    using assms(5) by (simp add: fresh_slices_def)
  note parsed = parse_bound_options [OF this s, of "NewIterator R d (p_opts s) NoCf"]
  obtain a its2 h2 where made:
      "create_itr d (p_bounds s) (native_of (p_opts s) (NewIterator R d (p_opts s) NoCf)) its ?h = (a, its2, h2)"
    by (metis prod_cases3)
  have "enif_is_list (bound_options u l)"
    by (simp add: bound_options_def)
  then have "Iterator R its sl h [ERef d, bound_options u l] = ((Ok (ok_tuple (ERef a)), its2, p_slices s), RefDec h2 d)"
    unfolding Iterator_def nth_Cons_0
    by (intro with_db_RefDec [OF db(1)]) (use parsed s made in \<open>simp add: Let_def\<close>)
  moreover have "managed h2 (add_mset d H)"
    by (rule create_itr_managed [OF m1 mem _ _ _ made]) (use d room in simp_all)
  ultimately show ?thesis
    using assms(6) managed.I_dec by auto
qed

text \<open>An iterator that no call holds is destroyed by \<open>iterator_close\<close>, which gives it back to RocksDB once.\<close>

definition given_back :: "ref_heap \<Rightarrow> addr \<Rightarrow> bool" where
  "given_back h a \<longleftrightarrow> releases h a = 1 \<and> (\<exists>ob. mem h a = Some ob \<and> m_CloseRequested ob = 3)"

lemma IteratorClose_destroys:
  assumes m: "managed h H" and "itr_open h a" "count H a = 0"
  shows "\<exists>h1. IteratorClose h [ERef a] = (Ok e_ok, h1) \<and> managed h1 H \<and> given_back h1 a"
proof -
  let ?h = "snd (InitiateCloseRequest h (Some a))"
  obtain ob where ob: "mem h a = Some ob" "kind ob = ItrObject" "m_CloseRequested ob = 0"
    using assms(2) by (auto simp: itr_open_def)
  have keeps: "managed ?h H"
    using managed.initiate_keeps [OF m ob(1)] by blast
  obtain ob' where ob': "mem ?h a = Some ob'" "m_CloseRequested ob' = 3"
    using InitiateCloseRequest_child_destroys [OF managed.I_ok [OF m] ob(1) _ _ assms(3)] ob(2,3) by auto
  have "IteratorClose h [ERef a] = (Ok e_ok, ?h)"
    using ob by (simp add: IteratorClose_def RetrieveItrObject_def)
  then show ?thesis
    using keeps ob' destroyed_released [OF keeps ob'] by (auto simp: given_back_def)
qed

lemma foldl_api_no_crash: "(\<And>e a. f e a \<noteq> Crashed) \<Longrightarrow> foldl_api f acc es \<noteq> Crashed"
  by (induction es arbitrary: acc) (auto split: api.split)

section \<open>Properties\<close>

text \<open>
  Claim C22. \<open>rocksdb:fold\<close> over the range between two optional bounds returns what its function gives
  on the entries of the range in key order, one after the other, or the exception the
  function raised first; the loop ends, and on every exit the iterator it opened was closed,
  destroyed and given back to RocksDB exactly once.
\<close>

theorem fold_visits_range:
  assumes laws: "itr_laws R entries ahead" "\<And>opts. entries (NewIterator R d opts NoCf) = es"
    and h: "reachable s" "h = objects s" "fresh_slices h sl"
    and db: "db_open h d" "mem h d = Some db" "unat (m_RefCount db) + 2 < 2 ^ 32"
    and f: "\<And>e a. f e a \<noteq> Crashed"
  shows "\<exists>its1 h1. api_fold R its sl h [ERef d, bound_options u l] f acc =
      Some (foldl_api f acc (map entry_term (filter (within (u, l)) es)), its1, h1) \<and>
    managed h1 (holders s) \<and> given_back h1 (next_addr h)"
proof -
  let ?a = "next_addr h" and ?res = "foldl_api f acc (map entry_term (filter (within (u, l)) es))"
  have m: "managed h (holders s)"
    using reachable_managed [OF h(1)] h(2) by simp
  then have new: "mem h ?a = None" "count (holders s) ?a = 0"
    using fresh(1,3) by (auto simp: managed_def)
  obtain its1 sl1 h1 opts where it: "Iterator R its sl h [ERef d, bound_options u l] = ((Ok (ok_tuple (ERef ?a)), its1, sl1), h1)"
      "its1 ?a = Some (native_of opts (NewIterator R d opts NoCf))" "itr_open h1 ?a"
      "bounds_are h1 sl1 (native_of opts (NewIterator R d opts NoCf)) (u, l)"
    using Iterator_creates [OF db(1) new(1) h(3), of R its u l] by auto
  have "walk_from (filter (within (u, l)) es) (EAtom ''first'') = Some (True, SeekToFirst, filter (within (u, l)) es)"
    by simp
  then obtain n where n: "IteratorMove R sl1 its1 h1 [ERef ?a, EAtom ''first''] = (current_entry R ?a n its1, h1)"
      "ahead (u, l) True (it_state n) = filter (within (u, l)) es" "bounds_are h1 sl1 n (u, l)"
    using move_start [OF laws(1) it(3), of its1 "native_of opts (NewIterator R d opts NoCf)" sl1 "(u, l)" "EAtom ''first''"
        True SeekToFirst "filter (within (u, l)) es"] it(2,4) laws(2)
    by (auto simp: native_of_def)
  obtain its2 where loop: "fold_loop R sl1 (ERef ?a) f (current_entry R ?a n its1, h1) acc = Some (?res, its2, h1)"
    using fold_loop_entries [OF laws(1) it(3) n(3,2), of f its1 acc] by blast
  obtain h2 where close: "IteratorClose h1 [ERef ?a] = (Ok e_ok, h2)" "managed h2 (holders s)" "given_back h2 ?a"
    using IteratorClose_destroys [OF Iterator_managed [OF m db h(3) it(1)] it(3) new(2)] by blast
  have "after_close (ERef ?a) (?res, its2, h1) = (?res, its2, h2)"
    using close(1) foldl_api_no_crash [of f, OF f] by (cases ?res) (auto simp: after_close_def)
  then have "api_fold R its sl h [ERef d, bound_options u l] f acc = Some (?res, its2, h2)"
    by (simp add: api_fold_def it(1) ok_tuple_def do_fold_def n(1) loop)
  with close(2,3) show ?thesis
    by blast
qed

text \<open>\<open>fold_keys\<close> gives its function the keys alone.\<close>

lemma fold_keys_elements: "foldl_api (wrapper_fun f) acc (map entry_term es) = foldl_api f acc (map (EBin \<circ> fst) es)"
  by (induction es arbitrary: acc) (auto simp: entry_term_def split: api.split)

text \<open>The entries of a small database below a bound, collected in a list.\<close>

theorem fold_visits_range_witness:
  "\<exists>its1 h1. api_fold (list_rocks_itr [([1], [10]), ([2], [20]), ([3], [30])]) (\<lambda>_. None) no_slices db_heap
      [ERef 0, bound_options (Some [3]) None] (\<lambda>e acc. Returns (acc @ [e])) [] =
    Some (Returns [ETuple [EBin [1], EBin [10]], ETuple [EBin [2], EBin [20]]], its1, h1) \<and> given_back h1 1"
proof -
  let ?R = "list_rocks_itr [([1], [10]), ([2], [20]), ([3], [30])]"
  have heap: "objects run_open = db_heap" "fresh_slices db_heap no_slices"
    by (simp_all add: run_open_def initial_system_def db_heap_def CreateDbObject_eq empty_heap_def fresh_slices_def)
  obtain db where db: "mem db_heap 0 = Some db" "unat (m_RefCount db) + 2 < 2 ^ 32"
    by (simp add: db_heap_def CreateDbObject_eq empty_heap_def first_object_def new_object_def)
  from fold_visits_range [of ?R fst list_ahead 0 _ run_open db_heap no_slices db "\<lambda>e acc. Returns (acc @ [e])"
      "\<lambda>_. None" "Some [3]" None "[]", OF list_itr_laws _ reachable_run_open _ heap(2) db_heap_open(1) db]
  show ?thesis
    by (auto simp: heap(1) list_rocks_itr_def within_def entry_term_def db_heap_open)
qed

section \<open>Writes\<close>

text \<open>The operation an action stands for; a merge may name a posting operand.\<close>

fun action_args :: "eterm list \<Rightarrow> cf_arg \<times> eterm list" where
  "action_args (ERef c # ts) = (CfArg (Some c), ts)"
| "action_args ts = (NoCf, ts)"

fun named_op :: "erts \<Rightarrow> string \<Rightarrow> cf_arg \<Rightarrow> eterm list \<Rightarrow> batch_op option" where
  "named_op E tag cf [EBin k] =
     (if tag = ''delete'' then Some (WDelete cf k)
      else if tag = ''single_delete'' then Some (WSingleDelete cf k)
      else None)"
| "named_op E tag cf [EBin k, v] =
     (if tag = ''put'' then map_option (WPut cf k) (enif_inspect_binary v)
      else if tag = ''merge''
      then (case encode_merge_value E v of Returns b \<Rightarrow> map_option (WMerge cf k) (enif_inspect_binary b) | _ \<Rightarrow> None)
      else None)"
| "named_op E tag cf _ = None"

fun action_op :: "erts \<Rightarrow> eterm \<Rightarrow> batch_op option" where
  "action_op E (ETuple (EAtom tag # args)) = (case action_args args of (cf, ts) \<Rightarrow> named_op E tag cf ts)"
| "action_op E _ = None"

lemma action_opE:
  assumes "action_op E t = Some c"
  obtains tag cf ts where "t = ETuple (EAtom tag # cf_terms cf @ ts)" "named_op E tag cf ts = Some c"
    "cf = NoCf \<or> (\<exists>a. cf = CfArg (Some a))"
proof -
  obtain tag args where "t = ETuple (EAtom tag # args)" "(case action_args args of (cf, ts) \<Rightarrow> named_op E tag cf ts) = Some c"
    using assms by (cases "(E, t)" rule: action_op.cases) auto
  moreover have "args = cf_terms (fst (action_args args)) @ snd (action_args args)"
    "fst (action_args args) = NoCf \<or> (\<exists>a. fst (action_args args) = CfArg (Some a))"
    by (cases args rule: action_args.cases; simp)+
  ultimately show ?thesis
    using that by (metis prod.collapse case_prod_conv)
qed

lemma write_action_adds:
  assumes "action_op E t = Some c" "bs p = Some (open_batch w)" "cf_usable h (op_cf c)"
  shows "write_action E R (ERef p) t bs h = ((Returns e_ok, bs(p \<mapsto> open_batch (wb_add R c w))), h)"
proof -
  have put: "PutBatch R bs h (ERef p # cf_terms cf @ [EBin k, EBin v]) = ((Ok e_ok, bs(p \<mapsto> open_batch (wb_add R (WPut cf k v) w))), h)"
    and merge: "MergeBatch R bs h (ERef p # cf_terms cf @ [EBin k, EBin v]) = ((Ok e_ok, bs(p \<mapsto> open_batch (wb_add R (WMerge cf k v) w))), h)"
    and delete: "DeleteBatch R bs h (ERef p # cf_terms cf @ [EBin k]) = ((Ok e_ok, bs(p \<mapsto> open_batch (wb_add R (WDelete cf k) w))), h)"
    and single: "SingleDeleteBatch R bs h (ERef p # cf_terms cf @ [EBin k]) =
      ((Ok e_ok, bs(p \<mapsto> open_batch (wb_add R (WSingleDelete cf k) w))), h)"
    if "cf_usable h cf" for cf k v
    using put.adds [of "[k, v]" bs p w h cf R] merge.adds [of "[k, v]" bs p w h cf R]
      delete.adds [of "[k]" bs p w h cf R] single_delete.adds [of "[k]" bs p w h cf R] that assms(2)
    by simp_all
  obtain tag cf ts where t: "t = ETuple (EAtom tag # cf_terms cf @ ts)" "named_op E tag cf ts = Some c"
      "cf = NoCf \<or> (\<exists>a. cf = CfArg (Some a))"
    using assms(1) by (rule action_opE)
  then have cf: "cf_usable h cf"
    using assms(3) by (cases "(E, tag, cf, ts)" rule: named_op.cases) (auto split: if_splits api.splits)
  note calls = put [OF cf] merge [OF cf] delete [OF cf] single [OF cf]
  show ?thesis
    using t(2,3) calls unfolding t(1)
    by (cases "(E, tag, cf, ts)" rule: named_op.cases) (auto simp: nif_call_def batch_merge_def split: if_splits api.splits)
qed

lemma write_1_applies:
  assumes laws: "batch_laws R ids content" "write_laws W content history" and db: "db_open h d"
  shows "map (action_op E) ts = map Some cs \<Longrightarrow> \<forall>c \<in> set cs. cmd_ok h (Add c) \<Longrightarrow> bs p = Some (open_batch w) \<Longrightarrow>
    \<exists>st dbs1 w1. write_1 E R W (enif_make_list ts) (ERef p) (ERef d) opts dbs bs h =
        ((Returns (status_result st), dbs1, bs(p \<mapsto> open_batch w1)), h) \<and>
      (status_ok st \<longrightarrow> history dbs1 = (history dbs)(d := history dbs d @ fst (content w) @ cs))"
proof (induction ts arbitrary: cs bs w)
  case Nil
  obtain st dbs1 where st: "W d (write_options_of opts) w dbs = (st, dbs1)"
    by fastforce
  show ?case
    using Nil laws(2) st WriteBatch_open [OF db, of bs p w W opts dbs st dbs1 R]
    by (intro exI [of _ st] exI [of _ dbs1] exI [of _ "wb_Clear R w"]) (auto simp: enif_make_list_def write_laws_def)
next
  case (Cons t ts)
  then obtain c cs' where cs: "cs = c # cs'" "action_op E t = Some c" "map (action_op E) ts = map Some cs'"
    by (cases cs) auto
  have step: "write_action E R (ERef p) t bs h = ((Returns e_ok, bs(p \<mapsto> open_batch (wb_add R c w))), h)"
    using write_action_adds [OF cs(2), of bs p w h R] Cons.prems(2,3) cs(1) by simp
  have "fst (content (wb_add R c w)) = fst (content w) @ [c]"
    using batch_lawsD(2) [OF laws(1)] Cons.prems(2) cs(1) by simp
  moreover have "\<exists>st dbs1 w1. write_1 E R W (enif_make_list ts) (ERef p) (ERef d) opts dbs (bs(p \<mapsto> open_batch (wb_add R c w))) h =
      ((Returns (status_result st), dbs1, bs(p \<mapsto> open_batch (wb_add R c w), p \<mapsto> open_batch w1)), h) \<and>
      (status_ok st \<longrightarrow> history dbs1 = (history dbs)(d := history dbs d @ fst (content (wb_add R c w)) @ cs'))"
    by (rule Cons.IH [OF cs(3)]) (use Cons.prems(2) cs(1) in simp_all)
  moreover have "write_1 E R W (enif_make_list (t # ts)) (ERef p) (ERef d) opts dbs bs h =
      write_1 E R W (enif_make_list ts) (ERef p) (ERef d) opts dbs (bs(p \<mapsto> open_batch (wb_add R c w))) h"
    by (simp add: enif_make_list_def step)
  ultimately show ?case
    unfolding cs(1) fun_upd_upd by (metis (no_types, lifting) append.assoc append_Cons append_Nil)
qed

lemma in_scope_result: "P bad \<Longrightarrow> (\<And>a h. P (fst (f a h))) \<Longrightarrow> P (fst (in_scope got bad f))"
  by (auto simp: in_scope_def split: prod.split option.split bool.split) (metis fst_conv)

text \<open>A call on an open batch leaves it open and never crashes.\<close>

definition keeps_open :: "addr \<Rightarrow> 'wb batches \<Rightarrow> eterm api \<times> 'wb batches \<Rightarrow> bool" where
  "keeps_open p bs res \<longleftrightarrow> ((\<exists>t. fst res = Returns t) \<or> (\<exists>x. fst res = Raises x)) \<and> (\<exists>w. snd res = bs(p \<mapsto> open_batch w))"

lemma keeps_open_same: "bs p = Some (open_batch w) \<Longrightarrow> keeps_open p bs (Raises x, bs)"
  by (auto simp: keeps_open_def intro!: exI [of _ w])

lemma batch_op_keeps:
  assumes "bs p = Some (open_batch w)"
  shows "keeps_open p bs (fst (nif_call (batch_op2 mk R bs h (ERef p # args))))"
    "keeps_open p bs (fst (nif_call (batch_op1 mk1 R bs h (ERef p # args))))"
proof -
  let ?P = "\<lambda>res. keeps_open p bs (of_nif (fst res), snd res)"
  have P: "?P (Failed, bs)" "?P (batch_add R p (open_batch w) c bs)" for c
    using keeps_open_same [of bs p w, OF assms] by (auto simp: keeps_open_def batch_add_def open_batch_def)
  have call: "fst (nif_call res) = (of_nif (fst (fst res)), snd (fst res))" for res :: "(nif_result \<times> 'a batches) \<times> ref_heap"
    by (simp add: nif_call_def split: prod.split)
  have scope: "?P (fst (with_cf h t (Failed, bs) f))" if "\<And>a h1. ?P (fst (f a h1))" for t f
    unfolding with_cf_def using P(1) that by (rule in_scope_result [where P = ?P])
  show "keeps_open p bs (fst (nif_call (batch_op2 mk R bs h (ERef p # args))))"
    unfolding call using assms P(1)
    by (auto simp: batch_op2_def enif_get_batch_def P intro!: scope split: option.split)
  show "keeps_open p bs (fst (nif_call (batch_op1 mk1 R bs h (ERef p # args))))"
    unfolding call using assms P(1)
    by (auto simp: batch_op1_def enif_get_batch_def P intro!: scope split: option.split)
qed

lemma write_action_keeps:
  assumes "bs p = Some (open_batch w)"
  shows "keeps_open p bs (fst (write_action E R (ERef p) t bs h))"
proof -
  have "keeps_open p bs (fst (batch_merge E R bs h (ERef p) cf k v))" for cf k v
  proof -
    have "encode_merge_value E v \<noteq> Crashed" "\<And>y. encode_merge_value E v \<noteq> Throws y"
      by (cases "(E, v)" rule: encode_merge_value.cases; simp split: option.split)+
    then show ?thesis
      using batch_op_keeps(1) [of bs p w, OF assms] keeps_open_same [of bs p w, OF assms]
      by (auto simp: batch_merge_def MergeBatch_def split: api.split)
  qed
  then show ?thesis
    using batch_op_keeps [of bs p w, OF assms, of _ R h] keeps_open_same [of bs p w, OF assms]
    by (cases "(E, R, ERef p, t, bs, h)" rule: write_action.cases)
      (auto simp: PutBatch_def DeleteBatch_def SingleDeleteBatch_def)
qed

lemma WriteBatch_keeps:
  assumes "bs p = Some (open_batch w)" "WriteBatch R W dbs bs h [ERef d, ERef p, opts] = ((r, dbs1, bs1), h1)"
  shows "keeps_open p bs (of_nif r, bs1) \<and> (r = Failed \<and> dbs1 = dbs \<or> (\<exists>st. r = Ok (status_result st)))"
proof -
  let ?P = "\<lambda>res. keeps_open p bs (of_nif (fst res), snd (snd res)) \<and>
    (fst res = Failed \<and> fst (snd res) = dbs \<or> (\<exists>st. fst res = Ok (status_result st)))"
  have "?P (fst (WriteBatch R W dbs bs h [ERef d, ERef p, opts]))"
    unfolding WriteBatch_def with_db_def
    by (rule in_scope_result [where P = ?P])
      (use assms(1) keeps_open_same [of bs p w] in \<open>auto simp: enif_get_batch_def open_batch_def keeps_open_def split: prod.split\<close>)
  then show ?thesis
    by (simp add: assms(2))
qed

lemma write_1_keeps:
  "bs p = Some (open_batch w) \<Longrightarrow> write_1 E R W t (ERef p) (ERef d) opts dbs bs h = ((r, dbs1, bs1), h1) \<Longrightarrow>
     keeps_open p bs (r, bs1) \<and> ((\<exists>x. r = Raises x) \<and> dbs1 = dbs \<or> (\<exists>st. r = Returns (status_result st)))"
proof (induction t arbitrary: bs w h)
  case (ECons x rest)
  obtain a bs2 h2 where act: "write_action E R (ERef p) x bs h = ((a, bs2), h2)"
    by (metis surj_pair)
  then have keep: "keeps_open p bs (a, bs2)"
    using write_action_keeps [of bs p w E R x h] ECons.prems(1) by simp
  then obtain w2 where bs2: "bs2 = bs(p \<mapsto> open_batch w2)"
    by (auto simp: keeps_open_def)
  have trans: "keeps_open p bs2 res \<Longrightarrow> keeps_open p bs res" for res
    by (auto simp: keeps_open_def bs2)
  show ?case
  proof (cases a)
    case (Returns y)
    then have "write_1 E R W rest (ERef p) (ERef d) opts dbs bs2 h2 = ((r, dbs1, bs1), h1)" "bs2 p = Some (open_batch w2)"
      using ECons.prems(2) act by (simp_all add: bs2)
    then show ?thesis
      using ECons.IH(2) trans by blast
  qed (use keep ECons.prems(2) act in \<open>auto simp: keeps_open_def\<close>)
next
  case ENil
  then show ?case
    using WriteBatch_keeps [of bs p w R W dbs h d opts] by (fastforce split: prod.splits)
qed (auto simp: keeps_open_same)

text \<open>
  Claim C20. \<open>rocksdb:write\<close> is all or nothing: a call that raises, for whatever list, has written
  nothing; when every action of the list stands for an operation, the call answers what
  one RocksDB write of all of them answers, and an \<open>ok\<close> write appends exactly these
  operations, in order. In every case the batch it allocated is released.
\<close>

theorem write_all_or_nothing:
  assumes laws: "batch_laws R ids content" "write_laws W content history" and db: "db_open h d"
    and A: "alloc_wb A" "alloc_resource A" "alloc_batch_env A"
    and res: "api_write E R W A dbs bs h [ERef d, t, opts] = ((r, dbs1, bs1), h1)"
  shows "bs1 = bs(next_addr h \<mapsto> \<lparr>wb = NullWb, env = False\<rparr>) \<and>
    ((\<exists>x. r = Raises x) \<and> dbs1 = dbs \<or> (\<exists>st. r = Returns (status_result st))) \<and>
    (\<forall>ts cs. t = enif_make_list ts \<longrightarrow> map (action_op E) ts = map Some cs \<longrightarrow> (\<forall>c \<in> set cs. cmd_ok h (Add c)) \<longrightarrow>
       (\<exists>st. r = Returns (status_result st) \<and> (status_ok st \<longrightarrow> history dbs1 = (history dbs)(d := history dbs d @ cs))))"
proof -
  let ?p = "next_addr h" and ?h = "h\<lparr>next_addr := Suc (next_addr h)\<rparr>"
  let ?bs = "bs(next_addr h \<mapsto> open_batch (wb_new R))"
  have new: "NewBatch R A bs h = ((Ok (ok_tuple (ERef ?p)), ?bs), ?h)"
    using A by (simp add: NewBatch_def open_batch_def Let_def)
  obtain x dbs2 bs2 h2 where w: "write_1 E R W t (ERef ?p) (ERef d) opts dbs ?bs ?h = ((x, dbs2, bs2), h2)"
    by (metis prod_cases3 surj_pair)
  have keep: "keeps_open ?p ?bs (x, bs2)" "(\<exists>y. x = Raises y) \<and> dbs2 = dbs \<or> (\<exists>st. x = Returns (status_result st))"
    using write_1_keeps [OF _ w, of "wb_new R"] by simp_all
  then obtain w2 where "bs2 = bs(?p \<mapsto> open_batch w2)"
    by (auto simp: keeps_open_def)
  then have "ReleaseBatch bs2 [ERef ?p] = (Ok e_ok, bs(?p \<mapsto> \<lparr>wb = NullWb, env = False\<rparr>))"
    by (simp add: ReleaseBatch_def enif_get_batch_def cleanup_batch_def open_batch_def)
  then have eq: "r = x" "dbs1 = dbs2" "bs1 = bs(?p \<mapsto> \<lparr>wb = NullWb, env = False\<rparr>)"
    using res keep(2) by (auto simp: api_write_def new w ok_tuple_def)
  have "\<exists>st. r = Returns (status_result st) \<and> (status_ok st \<longrightarrow> history dbs1 = (history dbs)(d := history dbs d @ cs))"
    if "t = enif_make_list ts" "map (action_op E) ts = map Some cs" "\<forall>c \<in> set cs. cmd_ok h (Add c)" for ts cs
  proof -
    have "\<forall>c \<in> set cs. cmd_ok ?h (Add c)" "db_open ?h d" "?bs ?p = Some (open_batch (wb_new R))"
      using that(3) db by simp_all
    from write_1_applies [OF laws this(2) that(2) this(1), of ?bs ?p "wb_new R" opts dbs] this(3) show ?thesis
      using w that(1) eq(1,2) by (auto simp: batch_lawsD(1) [OF laws(1)])
  qed
  with eq keep(2) show ?thesis
    by blast
qed

text \<open>A put and a posting operand are written; with an unknown action after the put nothing is.\<close>

definition all_alloc :: batch_alloc where
  "all_alloc = \<lparr>alloc_wb = True, alloc_resource = True, alloc_batch_env = True\<rparr>"

definition two_actions :: "eterm list" where
  "two_actions = [ETuple [EAtom ''put'', EBin [7], EBin [8]], ETuple [EAtom ''delete'', EBin [9]]]"

theorem write_all_or_nothing_witness:
  "\<exists>r dbs1 bs1 h1. api_write sample_erts (list_batch (\<lambda>_. 0)) write_all all_alloc (\<lambda>_. []) Map.empty db_heap
      [ERef 0, enif_make_list two_actions, ENil] = ((r, dbs1, bs1), h1) \<and>
    (\<exists>st. r = Returns (status_result st) \<and> (status_ok st \<longrightarrow> dbs1 0 = [WPut NoCf [7] [8], WDelete NoCf [9]])) \<and>
    bs1 = [1 \<mapsto> \<lparr>wb = NullWb, env = False\<rparr>]"
proof -
  let ?cs = "[WPut NoCf [7] [8], WDelete NoCf [9]]"
  let ?call = "api_write sample_erts (list_batch (\<lambda>_. 0)) write_all all_alloc (\<lambda>_. []) Map.empty db_heap
      [ERef 0, enif_make_list two_actions, ENil]"
  have w: "?call = ((fst (fst ?call), fst (snd (fst ?call)), snd (snd (fst ?call))), snd ?call)"
    by (simp only: prod.collapse)
  have acts: "map (action_op sample_erts) two_actions = map Some ?cs" "\<forall>c \<in> set ?cs. cmd_ok db_heap (Add c)"
    by (simp_all add: two_actions_def op_ok_def cf_usable_def)
  have A: "alloc_wb all_alloc" "alloc_resource all_alloc" "alloc_batch_env all_alloc"
    by (simp_all add: all_alloc_def)
  note all = write_all_or_nothing [OF list_batch_laws write_all_laws db_heap_open(1) A w]
  have "snd (snd (fst ?call)) = [1 \<mapsto> \<lparr>wb = NullWb, env = False\<rparr>]"
    using all [THEN conjunct1] by (simp only: db_heap_open)
  moreover have "\<exists>st. fst (fst ?call) = Returns (status_result st) \<and> (status_ok st \<longrightarrow> fst (snd (fst ?call)) 0 = ?cs)"
    using all [THEN conjunct2, THEN conjunct2, THEN spec, of two_actions, THEN spec, of ?cs] acts
    by (auto simp only: id_apply fun_upd_same append_Nil simp_thms)
  ultimately show ?thesis
    using w by blast
qed

section \<open>Posting lists\<close>

lemma decode_log: "posting_list_decode bin = Returns es \<Longrightarrow> v1_log bin = es"
proof (induction bin arbitrary: es rule: posting_list_decode.induct)
  case (1 bin)
  then show ?case
    by (auto simp: posting_list_decode.simps [of bin] v1_log.simps [of bin] split: if_splits api.splits)
qed

lemma foldl_intersect:
  assumes E: "\<forall>n. new_binary_ok E n"
  shows "fits_below cfg (posting_of b) \<Longrightarrow>
    \<exists>out. foldl_api (intersect_nif E cfg) (EBin b) bs = Returns (EBin out) \<and>
      posting_of out = posting_of b \<inter> (\<Inter>x \<in> set bs. posting_of x)"
proof (induction bs arbitrary: b)
  case (Cons x bs)
  then obtain out where "PostingListIntersection E cfg [EBin x, EBin b] = Ok (EBin out)" "posting_of out = posting_of x \<inter> posting_of b"
    using intersection_denotes [OF E, of cfg x b] fits_below_mono [OF Cons.prems] by auto
  moreover from this Cons.prems have "fits_below cfg (posting_of out)"
    by (auto intro: fits_below_mono)
  ultimately show ?case
    using Cons.IH [of out] by (auto simp: intersect_nif_def)
qed simp

lemma intersect_all_denotes:
  assumes E: "\<forall>n. new_binary_ok E n" and "bins \<noteq> []" "\<forall>b \<in> set bins. fits_below cfg (posting_of b)"
  shows "\<exists>out. posting_list_intersect_all E cfg bins = Returns (EBin out) \<and> posting_of out = (\<Inter>b \<in> set bins. posting_of b)"
proof (cases "(E, cfg, bins)" rule: posting_list_intersect_all.cases)
  case (3 E' cfg' b1 b2 rest)
  define ss where "ss = sort_key length bins"
  then have ss: "set ss = set bins" "ss \<noteq> []"
    using assms(2) by (auto simp: set_empty [symmetric] simp del: set_empty)
  then have "hd ss \<in> set bins" "set bins = insert (hd ss) (set (tl ss))"
    by (cases ss; auto)+
  then show ?thesis
    using foldl_intersect [OF E, of cfg "hd ss" "tl ss"] assms(3) 3 ss_def by (auto simp: Let_def)
qed (use assms(2) in auto)

text \<open>What a list argument stands for; the keys of a resource were sorted when it was opened.\<close>

fun posting_arg :: "'bm postings \<Rightarrow> eterm \<Rightarrow> bytes set option" where
  "posting_arg st (EBin b) = Some (posting_of b)"
| "posting_arg st (ERef n) = map_option (\<lambda>res. set (pl_keys res)) (st n)"
| "posting_arg st _ = None"

definition postings_ok :: "'bm postings \<Rightarrow> bool" where
  "postings_ok st \<longleftrightarrow> (\<forall>n res. st n = Some res \<longrightarrow> sorted_wrt (<) (pl_keys res))"

lemma to_posting_binary_denotes:
  assumes "\<forall>n. new_binary_ok E n" "postings_ok st" "posting_arg st p = Some S" "fits_below cfg S"
  shows "\<exists>b. to_posting_binary E cfg st p = Returns (EBin b) \<and> posting_of b = S"
proof (cases p)
  case (ERef n)
  then obtain res where res: "st n = Some res" "S = set (pl_keys res)"
    using assms(3) by auto
  then have "v2_fits cfg HashKey (pl_keys res)"
    using assms(2,4) by (auto simp: postings_ok_def fits_below_def)
  from nif_set_op [OF assms(1) this] show ?thesis
    using ERef res by (auto simp: PostingsToBinary_def with_postings_def)
qed (use assms(3) in auto)

lemma map_api_binaries:
  assumes E: "\<forall>n. new_binary_ok E n" and st: "postings_ok st"
  shows "map (posting_arg st) ps = map Some Ss \<Longrightarrow> \<forall>S \<in> set Ss. fits_below cfg S \<Longrightarrow>
    \<exists>bins. map_api (to_posting_binary E cfg st) ps = Returns (map EBin bins) \<and> map posting_of bins = Ss"
proof (induction ps arbitrary: Ss)
  case (Cons p ps)
  then obtain S Ss' where Ss: "Ss = S # Ss'" "posting_arg st p = Some S" "map (posting_arg st) ps = map Some Ss'"
    by (cases Ss) auto
  obtain b where "to_posting_binary E cfg st p = Returns (EBin b)" "posting_of b = S"
    using to_posting_binary_denotes [OF E st Ss(2), of cfg] Cons.prems(2) Ss(1) by auto
  moreover obtain bins where "map_api (to_posting_binary E cfg st) ps = Returns (map EBin bins)" "map posting_of bins = Ss'"
    using Cons.IH [OF Ss(3)] Cons.prems(2) Ss(1) by auto
  ultimately show ?case
    by (intro exI [of _ "b # bins"]) (simp add: Ss(1))
qed simp

text \<open>Opening a binary gives a resource that answers membership in the set of the binary.\<close>

lemma open_result_contains:
  assumes "open_result cfg (Some n) st (Returns (EBin b)) = (r, st1)"
  shows "r = Returns (ok_tuple (ERef n)) \<and> PostingsContains st1 [ERef n, EBin x] = Ok (e_bool (x \<in> posting_of b))"
  using assms
  by (auto simp: open_result_def PostingsOpen_def ok_tuple_def PostingsContains_def with_postings_def e_bool_def
      set_parse_posting_list Let_def)

text \<open>The functions on two lists answer resources of the intersection, the union and the difference.\<close>

lemma postings_binop_contains:
  assumes E: "\<forall>n. new_binary_ok E n" and st: "postings_ok st"
    and args: "posting_arg st a = Some A" "posting_arg st b = Some B" "fits_below cfg A" "fits_below cfg B"
    and nif: "\<And>x y. posting_of x = A \<Longrightarrow> posting_of y = B \<Longrightarrow> \<exists>out. nif [EBin x, EBin y] = Ok (EBin out) \<and> posting_of out = C"
    and res: "postings_binop nif E cfg (Some n) st a b = (r, st1)"
  shows "r = Returns (ok_tuple (ERef n)) \<and> PostingsContains st1 [ERef n, EBin k] = Ok (e_bool (k \<in> C))"
proof -
  obtain x y where xy: "to_posting_binary E cfg st a = Returns (EBin x)" "posting_of x = A"
      "to_posting_binary E cfg st b = Returns (EBin y)" "posting_of y = B"
    using to_posting_binary_denotes [OF E st args(1,3)] to_posting_binary_denotes [OF E st args(2,4)] by auto
  then obtain out where "nif [EBin x, EBin y] = Ok (EBin out)" "posting_of out = C"
    using nif by blast
  then show ?thesis
    using res xy open_result_contains [of cfg n st out r st1 k] by (simp add: postings_binop_def)
qed

lemma postings_set_operations:
  assumes "\<forall>n. new_binary_ok E n" "postings_ok st" "posting_arg st a = Some A" "posting_arg st b = Some B"
    and "fits_below cfg (A \<union> B)"
  shows "PostingsContains (snd (postings_intersection E cfg (Some n) st a b)) [ERef n, EBin k] = Ok (e_bool (k \<in> A \<inter> B))"
    "PostingsContains (snd (postings_union E cfg (Some n) st a b)) [ERef n, EBin k] = Ok (e_bool (k \<in> A \<union> B))"
    "PostingsContains (snd (postings_difference E cfg (Some n) st a b)) [ERef n, EBin k] = Ok (e_bool (k \<in> A - B))"
proof -
  have below: "fits_below cfg A" "fits_below cfg B" "fits_below cfg (A \<inter> B)" "fits_below cfg (A - B)"
    using fits_below_mono [OF assms(5)] by auto
  note contains = postings_binop_contains [OF assms(1-4) below(1,2) _ prod.collapse [symmetric], THEN conjunct2]
  show "PostingsContains (snd (postings_intersection E cfg (Some n) st a b)) [ERef n, EBin k] = Ok (e_bool (k \<in> A \<inter> B))"
    unfolding postings_intersection_def by (rule contains) (use intersection_denotes [OF assms(1)] below(3) in auto)
  show "PostingsContains (snd (postings_union E cfg (Some n) st a b)) [ERef n, EBin k] = Ok (e_bool (k \<in> A \<union> B))"
    unfolding postings_union_def by (rule contains) (use union_denotes [OF assms(1)] assms(5) in auto)
  show "PostingsContains (snd (postings_difference E cfg (Some n) st a b)) [ERef n, EBin k] = Ok (e_bool (k \<in> A - B))"
    unfolding postings_difference_def by (rule contains) (use difference_denotes [OF assms(1)] below(4) in auto)
qed

text \<open>
  Claim C14. \<open>rocksdb:postings_intersect_all\<close> on one or more posting lists, each a binary of either
  format or a resource, answers a resource in which \<open>postings_contains\<close> finds exactly the keys
  that are in all of them, whatever order the sizes give. With no list it answers an empty
  resource.
\<close>

theorem postings_intersect_all_contains:
  assumes "\<forall>n. new_binary_ok E n" "postings_ok st" "map (posting_arg st) ps = map Some Ss" "\<forall>S \<in> set Ss. fits_below cfg S"
    and "postings_intersect_all E cfg (Some n) st ps = (r, st1)"
  shows "\<exists>m. r = Returns (ok_tuple (ERef m)) \<and>
    PostingsContains st1 [ERef m, EBin x] = Ok (e_bool (ps \<noteq> [] \<and> (\<forall>S \<in> set Ss. x \<in> S)))"
proof -
  consider "ps = []" | k where "ps = [ERef k]" | p where "ps = [p]" "\<not> is_ref p" | p q qs where "ps = p # q # qs"
    by (metis is_ref.elims(2) list.exhaust)
  then show ?thesis
  proof cases
    case 1
    have "posting_log empty_v2 = []"
      by code_simp
    then have "posting_of empty_v2 = {}"
      by (simp add: posting_of_def)
    then show ?thesis
      using 1 assms(5) open_result_contains [of cfg n st empty_v2 r st1 x] by (auto simp: postings_intersect_all_def)
  next
    case 2
    then show ?thesis
      using assms(3,5)
      by (auto simp: postings_intersect_all_def PostingsContains_def with_postings_def e_bool_def)
  next
    case 3
    then obtain b where "p = EBin b"
      using assms(3) by (cases p) auto
    then show ?thesis
      using 3 assms(3,5) open_result_contains [of cfg n st b r st1 x] by (auto simp: postings_intersect_all_def)
  next
    case 4
    obtain bins where bins: "map_api (to_posting_binary E cfg st) ps = Returns (map EBin bins)" "map posting_of bins = Ss"
      using map_api_binaries [OF assms(1-4)] by auto
    have Ss: "set Ss = posting_of ` set bins" "bins \<noteq> []"
      using bins(2) assms(3) 4 by auto
    then obtain out where "posting_list_intersect_all E cfg bins = Returns (EBin out)" "posting_of out = \<Inter> (set Ss)"
      using intersect_all_denotes [OF assms(1), of bins cfg] assms(4) by auto
    moreover have "map bin_bytes (map EBin bins) = bins"
      by (induction bins) auto
    ultimately show ?thesis
      using 4 bins(1) assms(5) open_result_contains [of cfg n st out r st1 x]
      by (auto simp: postings_intersect_all_def)
  qed
qed

text \<open>A list of the first format, one of the second and a resource: only the key 7 is in all of them.\<close>

theorem postings_intersect_all_contains_witness:
  "\<exists>r st1 m. postings_intersect_all demo_erts no_croaring (Some 1) [0 \<mapsto> \<lparr>pl_keys = [[5], [7]], pl_sorted_keys = [[5], [7]], pl_bitmap = None\<rparr>]
      [EBin [0,0,0,1,0,7, 0,0,0,1,0,5], ERef 0, EBin [2,0,0,0,0, 0,0,0,1, 0,0,0,1,7]] = (r, st1) \<and>
    r = Returns (ok_tuple (ERef m)) \<and> PostingsContains st1 [ERef m, EBin [7]] = Ok (e_bool True)"
proof -
  let ?b1 = "[0,0,0,1,0,7, 0,0,0,1,0,5] :: bytes" and ?b2 = "[2,0,0,0,0, 0,0,0,1, 0,0,0,1,7] :: bytes"
  let ?st = "[0 \<mapsto> \<lparr>pl_keys = [[5], [7]], pl_sorted_keys = [[5], [7]], pl_bitmap = None\<rparr>] :: unit postings"
  let ?Ss = "[{[5], [7]}, {[5], [7]}, {[7]}] :: bytes set list"
  have "parse_posting_list ?b1 = [[5], [7]]" "parse_posting_list ?b2 = [[7]]"
    by code_simp+
  then have sets: "posting_of ?b1 = {[5], [7]}" "posting_of ?b2 = {[7]}"
    using set_parse_posting_list [of ?b1] set_parse_posting_list [of ?b2] by auto
  have "fits_below no_croaring S" if "S \<subseteq> {[5], [7]}" for S
    using fits_of_bounded [of "{[5], [7]} :: bytes set"] that by (auto simp: fits_below_def)
  then have fits: "\<forall>S \<in> set ?Ss. fits_below no_croaring S"
    by simp
  have args: "\<forall>n. new_binary_ok demo_erts n" "postings_ok ?st" "map (posting_arg ?st) [EBin ?b1, ERef 0, EBin ?b2] = map Some ?Ss"
    by (simp_all add: demo_erts_def postings_ok_def sets)
  obtain r st1 where call: "postings_intersect_all demo_erts no_croaring (Some 1) ?st [EBin ?b1, ERef 0, EBin ?b2] = (r, st1)"
    by (metis surj_pair)
  from postings_intersect_all_contains [OF args fits call, of "[7]"] call show ?thesis
    by auto
qed

text \<open>
  \<open>posting_list_decode\<close> gives the entries of a value in the first format in the order they were
  written, tombstones included; on any value shorter than 32 MB in the second format, which
  is what every merge writes, it raises \<open>function_clause\<close>, and so does \<open>posting_list_fold\<close>.
\<close>

lemma rd32_v2: "bin ! 0 = POSTING_LIST_V2 \<Longrightarrow> 2 ^ 25 \<le> unat (rd32 bin)"
proof -
  assume "bin ! 0 = POSTING_LIST_V2"
  then have "0x2000000 \<le> rd32 bin"
    unfolding rd32_def get_be32_def by (simp add: POSTING_LIST_V2_def le_word_or2)
  then show ?thesis
    by (simp add: word_le_nat_alt)
qed

lemma detect_v2: "DetectVersion bin = POSTING_LIST_V2 \<Longrightarrow> bin \<noteq> [] \<and> bin ! 0 = POSTING_LIST_V2"
proof (rule ccontr)
  have "POSTING_LIST_V1 \<noteq> POSTING_LIST_V2"
    by (simp add: POSTING_LIST_V1_def POSTING_LIST_V2_def)
  moreover assume "\<not> (bin \<noteq> [] \<and> bin ! 0 = POSTING_LIST_V2)" "DetectVersion bin = POSTING_LIST_V2"
  ultimately show False
    by (cases bin) (auto simp: DetectVersion_def)
qed

theorem decode_first_format_only:
  "(posting_list_decode bin = Returns es \<and> DetectVersion bin = POSTING_LIST_V1 \<longrightarrow> posting_log bin = es) \<and>
   (DetectVersion bin = POSTING_LIST_V2 \<and> length bin < 2 ^ 25 \<longrightarrow>
      posting_list_decode bin = Raises ''function_clause'' \<and> posting_list_fold f acc bin = Raises ''function_clause'')"
proof (intro conjI impI)
  show "posting_log bin = es" if "posting_list_decode bin = Returns es \<and> DetectVersion bin = POSTING_LIST_V1"
    using that decode_log [of bin es] by (auto simp: posting_log_def POSTING_LIST_V1_def POSTING_LIST_V2_def)
  show raises: "posting_list_decode bin = Raises ''function_clause''"
    if v2: "DetectVersion bin = POSTING_LIST_V2 \<and> length bin < 2 ^ 25"
  proof -
    have "bin \<noteq> []" and "\<not> unat (rd32 bin) \<le> length (drop 5 bin)"
      using v2 detect_v2 [of bin] rd32_v2 [of bin] unfolding length_drop by linarith+
    then show ?thesis
      by (subst posting_list_decode.simps) (simp only: simp_thms if_False)
  qed
  then show "posting_list_fold f acc bin = Raises ''function_clause''"
    if "DetectVersion bin = POSTING_LIST_V2 \<and> length bin < 2 ^ 25"
    using that by (simp add: posting_list_fold_def)
qed

text \<open>A merge of a posting operand is the NIF call with the encoded tuple, which the operator decodes again.\<close>

lemma api_merge_posting:
  assumes "erts_codec E" "term_to_binary E (posting_op_term w) = Some b"
  shows "binary_to_term E b = Some (posting_op_term w)"
    "api_merge E R dbs h (ERef d) (cf_terms cf) (EBin k) (posting_op_term w) opts =
       (case write_call R d (WMerge cf k b, opts) dbs h of ((r, dbs1), h1) \<Rightarrow> ((of_nif r, dbs1), h1))"
  using assms by (auto simp: erts_codec_def api_merge_def write_call_def posting_op_term_def)

end
