(* ===== verification/Spec2Isabelle.thy ===== *)
theory Spec2Isabelle
  imports Ref_Props Thread_Props Transaction_Props Ingest_Props Api_Props
begin

text \<open>
  A verification library of the native part of erlang-rocksdb (\<open>c_src/\<close>), the C++
  functions (NIFs) that bind RocksDB to Erlang, with the merge operators and the
  compaction filter that run inside RocksDB.

  \<^bold>\<open>The program.\<close> An Erlang process holds terms that name resources: databases,
  column families, snapshots, iterators, log iterators, backup engines and
  transactions. Each is a reference-counted C++ object (\<open>refobjects.cc\<close>) that owns a
  RocksDB object. A NIF retrieves the objects its arguments name (\<open>util.cc\<close>), holds
  a reference during the call, uses RocksDB and answers a term. Closing an object
  only marks it; the last reference runs its destructor. Closing a database closes
  all its children. RocksDB calls back into the merge operators and the compaction
  filter, which use no object of the binding.

  \<^bold>\<open>Conventions.\<close> Fallible code has type \<^typ>\<open>'a outcome\<close> (\<open>Prelude\<close>): \<open>Ok\<close>, \<open>Failed\<close>
  (a \<open>badarg\<close> or a \<open>false\<close>), \<open>Thrown\<close> (a C++ exception that leaves the function) or
  \<open>Undef\<close> (undefined behaviour). Machine integers are words; bytes are \<open>8 word\<close>.
  Erlang terms are the datatype \<^typ>\<open>eterm\<close> (\<open>Erl_Terms\<close>). RocksDB, CRoaring, the
  external term format, the allocator and the clock are arguments; what is assumed
  of them is a hypothesis of the property that needs it, and every such property has
  an instance with concrete functions in place of the argument.

  \<^bold>\<open>Theories.\<close>

  \<^item> \<open>Prelude\<close>: outcomes, big-endian words, list lemmas, and the locale \<open>kept_by_steps\<close> of an
    invariant of a step relation, interpreted on every step relation below. \<open>Std_Containers\<close>:
    \<open>std::map\<close> as a sorted association list (locales \<open>ordered_map\<close>, \<open>ordered_set\<close>) and \<open>std::list\<close>. \<open>Erl_Terms\<close>: terms and
    the \<open>enif_...\<close> functions that inspect them. \<open>Cpp_Strings\<close>: \<open>std::stoi\<close>,
    \<open>std::stoull\<close>, \<open>std::to_string\<close> and the numbers with a size suffix of \<open>util.cc\<close>.
  \<^item> \<open>Posting_Codec\<close>, \<open>Posting_Merge\<close> (\<open>posting_list_merge_operator.cc\<close>): the two
    formats of a posting list, the key hash, operands, the full and the partial
    merge. A parser replays a log of writes on a map (locale \<open>log_replayer\<close>,
    interpreted on every parser). The full merge refines a set of keys changed by a
    sequence of writes; the partial merge agrees with it exactly when no deletion is
    lost.
  \<^item> \<open>Posting_Nif\<close>, \<open>Posting_Props\<close> (\<open>posting_list_nif.cc\<close>): every NIF on posting
    lists, with the binary search over the bytes and the parsed resource. Membership,
    enumeration and the set operations are those of the set a binary denotes.
  \<^item> \<open>Ref_Objects\<close>, \<open>Ref_Lifecycle\<close>, \<open>Ref_System\<close>, \<open>Ref_Props\<close> (\<open>refobjects.cc\<close>,
    \<open>refobjects.h\<close>): a heap of objects, with a flag \<open>fault\<close> that any use of a freed or
    destroyed object sets and a log of the calls that give objects back to RocksDB;
    constructors, destructors, \<open>RefInc\<close>, \<open>RefDec\<close>, \<open>InitiateCloseRequest\<close>, \<open>Shutdown\<close>,
    retrieval and resource cleanup of the seven classes. \<open>Ref_Lifecycle\<close> proves the
    close protocol once (locale \<open>close_protocol\<close>) and interprets it. \<open>Ref_System\<close> is a
    step relation whose steps are whole operations, each run to its end before the next; its
    invariant is what the properties of single NIF calls start from.
  \<^item> \<open>Ref_Threads\<close>, \<open>Thread_Inv\<close>, \<open>Thread_Updates\<close>, \<open>Thread_Steps\<close>, \<open>Thread_Props\<close> (the same code and the calls of
    \<open>util.cc\<close> and \<open>erocksdb_column_family.cc\<close>): the operations cut into their atomic actions, one access to
    \<open>m_RefCount\<close> or \<open>m_CloseRequested\<close>, one critical section of a list mutex, one call into RocksDB.
    What a thread has left to do is a token; a state is the heap and the multiset of
    tokens, and any token may move next. The check of \<open>Retrieve...\<close> and the \<open>RefInc\<close> of \<open>assign\<close> are two
    actions, so are the entry of a child in the list of its database and its own \<open>RefInc\<close>, the answer of
    \<open>DestroyColumnFamilyHandle\<close> and the null pointer, the decrement and the compare-and-swap of
    \<open>RefDec\<close>, and the parts of a destructor. The flag \<open>raced\<close> records that a run went through a
    window that nothing protects. In every reachable state without that flag nothing was used after its
    destruction, counts are exact, RocksDB objects are given back once and children first, and a
    requested close completes; four runs with the flag show what each window costs.
  \<^item> \<open>Nif_Support\<close>, \<open>Handle_Nifs\<close> (\<open>util.cc\<close> and the NIFs that close or release
    handles, take snapshots, drop or destroy column families): what a NIF answers and
    what it does to the heap.
  \<^item> \<open>Erlang_Merge\<close> (\<open>erlang_merge.cc\<close>), \<open>Merge_Ops\<close>
    (\<open>counter_merge_operator.cc\<close>, \<open>bitset_merge_operator.cc\<close>): the other merge operators
    refine plain functions on integers, lists, byte strings and sets of positions. Subtracting from a
    list uses \<open>enif_compare\<close>, an argument, in which an integer and a float may be equal.
  \<^item> \<open>Merge_Runs\<close>: RocksDB may merge some operands first and combine neighbouring ones;
    \<open>merge_run\<close> is the relation of all such groupings, with the two callbacks an associative
    operator gets from RocksDB (\<open>deps/rocksdb/db/merge_operator.cc\<close>). The locale \<open>merge_operator\<close>
    states what makes every grouping give one value; it is interpreted on the counter, the
    bitset and the Erlang operator. The posting list operator does not satisfy it, and has
    its own bounds on what a grouping can give.
  \<^item> \<open>Compaction_Filter\<close> (\<open>compaction_filter.cc\<close> and its option in \<open>erocksdb_db.cc\<close>):
    the rules, the handler protocol with its timeout, and the option parser. The expiry time
    of a TTL rule is a sum modulo \<open>2 ^ 64\<close>, and the documented meaning holds where it does not wrap.
  \<^item> \<open>Batch_Log\<close>, \<open>Write_Batch\<close> (\<open>transaction_log.h\<close>, \<open>batch.cc\<close>): a write batch as a list
    of operations with save points, the handler that turns its records into terms, and
    the batch NIFs, which refine a list with a stack (laws \<open>batch_laws\<close>, \<open>write_laws\<close>; locale
    \<open>batch_adder\<close> for the calls that append). \<open>Tlog_Nifs\<close> (\<open>transaction_log.cc\<close>): reading the log
    and applying it to another database (\<open>tlog_laws\<close>).
  \<^item> \<open>Iterator_Nifs\<close> (\<open>erocksdb_iter.cc\<close>): creation with bounds, the slices the bounds live in,
    moves and refresh; a scan delivers exactly the entries of its range (\<open>itr_laws\<close>).
  \<^item> \<open>Db_Nifs\<close>, \<open>Db_Props\<close> (\<open>erocksdb_db.cc\<close>): reads, writes, merges, range operations, wide
    columns, sizes, properties, flushes, checkpoints and the options of each. A read answers
    what the accepted writes give (\<open>db_laws\<close>). The laws of a database are those of one without compaction
    filter and without time to live.
  \<^item> \<open>Index_Props\<close>: a posting list index from \<open>merge\<close> calls through the groupings of RocksDB
    (\<open>merge_read_laws\<close>) to \<open>get\<close> and \<open>posting_list_contains\<close>.
  \<^item> \<open>Erlang_Api\<close>, \<open>Api_Props\<close> (\<open>src/rocksdb.erl\<close>): the Erlang functions that combine NIFs:
    \<open>fold\<close> with its \<open>try ... after\<close>, \<open>write\<close> with its batch, merges of posting operands and the
    posting list functions over several lists. A fold visits its range and leaves no
    iterator, a write is all or nothing, an intersection of many lists is that of their sets.
  \<^item> \<open>Transaction_Nifs\<close>, \<open>Transaction_Props\<close> (\<open>transaction.cc\<close>, \<open>pessimistic_transaction.cc\<close>): both
    kinds of transactions over one interface (locale \<open>transaction_api\<close>, laws \<open>txn_laws\<close>): commit is
    all or nothing, reads see the own writes, save points refine a stack.
  \<^item> \<open>Backup_Nifs\<close> (\<open>backup.cc\<close>): engines, backups and their restoration (\<open>backup_laws\<close>).
  \<^item> \<open>Shared_Objects\<close>, \<open>Shared_Props\<close> (\<open>env.cc\<close>, \<open>cache.cc\<close>, \<open>rate_limiter.cc\<close>,
    \<open>write_buffer_manager.cc\<close>, \<open>sst_file_manager.cc\<close>, \<open>statistics.cc\<close>): resources that own a
    \<open>std::shared_ptr\<close>, a heap of shared objects with their owners, every NIF on them; a step
    relation of the uses, releases and collections that end without undefined behaviour, in which an
    object that has an owner exists.
  \<^item> \<open>Db_Options\<close>, \<open>Option_Props\<close> (the option parsers of \<open>erocksdb_db.cc\<close>): the chains of tests as
    tables of a name, a field and a conversion. A database option assigns the field of its own
    name, and its last convertible occurrence wins.
  \<^item> \<open>Db_Open\<close>, \<open>Open_Props\<close> (\<open>erocksdb_db.cc\<close>, \<open>erocksdb_column_family.cc\<close>): every NIF that opens,
    destroys or repairs a database or makes a column family, file ingestion, metadata
    (\<open>open_laws\<close>). The handles stand in the order of the descriptors, and a close destroys
    them all. A refused column family option is silent in \<open>open\<close> and \<open>badarg\<close> in a descriptor.
  \<^item> \<open>Sst_Files\<close>, \<open>Sst_Props\<close> (\<open>sst_file_writer.cc\<close>, \<open>sst_file_reader.cc\<close>): writers, readers and
    their iterators, with the references the run-time system counts. A finished file is read
    back (\<open>sst_laws\<close>), and a step relation of whole calls shows when a reader is destroyed.
  \<^item> \<open>Ingest_Props\<close>: a table file from its writer through \<open>ingest_external_file\<close> (\<open>ingest_laws\<close>) to \<open>get\<close>.

  \<^bold>\<open>Composition.\<close> The database, iterator, transaction, log and open NIFs take their objects
  from the heap of \<open>Ref_Objects\<close>, so their properties and those of \<open>Ref_Props\<close> hold of one
  model; each describes a call that no other call on the same objects interrupts, and \<open>Thread_Props\<close>
  says what interleaved calls keep of these objects. The shared objects, the batches and the table files have heaps of their own,
  as in the source. The option parsers read the heap of \<open>Shared_Objects\<close>. The
  merge operators meet the database in \<open>Index_Props\<close>: the laws of the database name the
  callbacks of the operator, so a read is what the modelled callbacks make of the writes.

  \<^bold>\<open>Loops.\<close> Every loop of the C++ source is a total recursive function; no fuel is used.
  The loop of \<open>fold\<close> in Erlang is a partial function, and the theorem says that it returns.
  The programs that move an iterator or follow a log (\<open>walk\<close>, \<open>follow\<close>, \<open>sst_walk\<close>) are not
  in the source; they take a number of moves, and the theorems say how many are enough.
  The loops over a child list end because each round removes its head; the binary
  search because its interval shrinks. The wait of \<open>AwaitCloseAndDestructor\<close> is an
  option, \<open>None\<close> while the object is not destroyed; the wait for a handler reads a
  finite list of events.

  \<^bold>\<open>Bounds.\<close> Lengths are written on 32 bits in the posting list format, so the
  properties about written lists ask for fewer than \<open>2 ^ 32\<close> keys and bytes per key.
  Reference counts are 32-bit words; the properties ask for fewer than \<open>2 ^ 32\<close>
  references, and for a count that is not the largest word where a call takes one more (the
  interleaved actions check it before they count up).
  Integer options keep the width of their \<open>enif_get_...\<close> function.

  \<^bold>\<open>Known defects.\<close> Some theorems state what goes wrong: a deletion lost by the partial
  posting merge, an iterator that keeps a closed database open, the four unprotected
  windows (a close between retrieving an object and counting the reference, a close of a
  database during the creation of a child, two destructions of one column family handle, a child freed
  while a shutdown has it in hand), the null handle left by a failed destroy, the bitset write past the end and into constant memory, the wrapping ends
  of ranges and expiry times; the bounds of \<open>iterators\<close> that are deleted at once, the
  use of a released batch or statistics object, arguments that are read at the wrong
  position, an iterator that outlives its transaction, a refused option that ends the list, a
  reader destroyed before its iterator or never, options that table files ignore, a
  decoder of posting lists that refuses the format every merge writes.

  \<^bold>\<open>Not modelled.\<close> The NIF and atom tables with the loading of the library (\<open>erocksdb.cc\<close>,
  \<open>atoms.h\<close>): they are lists of names and numbers with no operation, and the definitions
  here take the names and arities they register as they are. The stubs and renamings of the
  Erlang module. The vendored libraries, which are arguments of the definitions, the two
  callbacks of associative merge operators excepted. Memory orders weaker than sequential
  consistency are not considered, nor is what RocksDB does in other threads between two
  calls of a NIF. Calls that overlap on one batch, one shared object or one table file, which take
  no lock, are not described.
\<close>

end
